(* ===== verification/Prelude.thy ===== *)
theory Prelude
  imports Main "HOL-Library.Word" "HOL-Library.Multiset" "HOL-Library.Product_Lexorder"
begin

text \<open>
  Shared vocabulary of the development: machine integers, the vector operations the server
  code uses (\<^verbatim>\<open>std::ranges::lower_bound\<close>, \<^verbatim>\<open>find_if\<close>, \<^verbatim>\<open>vector::insert\<close>, \<^verbatim>\<open>vector::erase\<close>),
  the lemmas on vectors sorted by a key, and the interfaces (locales) that several components
  implement: a table looked up by key, a table whose entries are replaced in place, a handler
  guarded by an expected revision, and a transition system with an invariant.
\<close>

section \<open>Machine integers\<close>

type_synonym u8 = "8 word"
type_synonym u16 = "16 word"
type_synonym u32 = "32 word"
type_synonym u64 = "64 word"
type_synonym i32 = "32 word"
type_synonym i64 = "64 word"

text \<open>\<^verbatim>\<open>std::numeric_limits<T>::max()\<close> of the unsigned types.\<close>

definition u32_max :: u32 where
  "u32_max = 0xFFFFFFFF"

definition u64_max :: u64 where
  "u64_max = 0xFFFFFFFFFFFFFFFF"

named_theorems vec_simps \<open>facts on vectors sorted by a key\<close>

lemma u32_max_minus_1: "u32_max = -1"
  by (simp add: u32_max_def)

lemma u64_max_minus_1: "u64_max = -1"
  by (simp add: u64_max_def)

lemma unat_u64_max [simp]: "unat u64_max = 2 ^ 64 - 1"
  by (simp add: u64_max_def)

lemma unat_u32_max [simp]: "unat u32_max = 2 ^ 32 - 1"
  by (simp add: u32_max_def)

lemma le_u64_max [simp]: "(x :: u64) \<le> u64_max"
  by (simp add: u64_max_minus_1)

lemma le_u32_max [simp]: "(x :: u32) \<le> u32_max"
  by (simp add: u32_max_minus_1)

lemma unat_lt_u64 [simp]: "unat (x :: u64) < 18446744073709551616"
proof -
  have "unat x < 2 ^ LENGTH(64)" by (rule unsigned_less)
  then show ?thesis by simp
qed

lemma unat_lt_u32 [simp]: "unat (x :: u32) < 4294967296"
proof -
  have "unat x < 2 ^ LENGTH(32)" by (rule unsigned_less)
  then show ?thesis by simp
qed

lemma unat_minus_le: "y \<le> x \<Longrightarrow> unat (x - y) = unat x - unat (y :: 'a::len word)"
  by (simp add: unat_sub)

lemma unat_u64_max_minus: "unat (u64_max - x) = 2 ^ 64 - 1 - unat (x :: u64)"
  by (simp add: unat_minus_le)

lemma unat_u32_max_minus: "unat (u32_max - x) = 2 ^ 32 - 1 - unat (x :: u32)"
  by (simp add: unat_minus_le)

lemma unat_plus_no_wrap:
  "unat x + unat y < 2 ^ LENGTH('a) \<Longrightarrow> unat (x + y) = unat x + unat (y :: 'a::len word)"
  by (simp add: unat_word_ariths)

lemma unat_times_no_wrap:
  "unat x * unat y < 2 ^ LENGTH('a) \<Longrightarrow> unat (x * y) = unat x * unat (y :: 'a::len word)"
  by (simp add: unat_word_ariths)

lemma word_Suc_neq_max: "(x :: u64) \<noteq> u64_max \<Longrightarrow> unat (x + 1) = unat x + 1"
proof -
  assume "x \<noteq> u64_max"
  then have "unat x \<noteq> unat u64_max" by (metis word_unat_eq_iff)
  with unat_lt_u64 [of x] have "unat x + 1 < 2 ^ LENGTH(64)" by (simp del: unat_lt_u64)
  then show ?thesis by (simp add: unat_plus_no_wrap)
qed

section \<open>Vectors\<close>

text \<open>
  \<^verbatim>\<open>std::ranges::lower_bound\<close> on a range partitioned by \<open>\<lambda>x. key x < k\<close> returns the first
  position whose key is not below \<open>k\<close>; \<^verbatim>\<open>std::ranges::find_if\<close> the first position that
  satisfies the predicate.
\<close>

definition lower_bound :: "('a \<Rightarrow> 'k::linorder) \<Rightarrow> 'a list \<Rightarrow> 'k \<Rightarrow> nat" where
  "lower_bound key xs k = length (takeWhile (\<lambda>x. key x < k) xs)"

definition find_index :: "('a \<Rightarrow> bool) \<Rightarrow> 'a list \<Rightarrow> nat option" where
  "find_index P xs =
     (let i = length (takeWhile (\<lambda>x. \<not> P x) xs) in if i < length xs then Some i else None)"

definition find_key :: "('a \<Rightarrow> 'k::linorder) \<Rightarrow> 'a list \<Rightarrow> 'k \<Rightarrow> nat option" where
  "find_key key xs k =
     (let i = lower_bound key xs k in if i < length xs \<and> key (xs ! i) = k then Some i else None)"

definition lookup_key :: "('a \<Rightarrow> 'k::linorder) \<Rightarrow> 'a list \<Rightarrow> 'k \<Rightarrow> 'a option" where
  "lookup_key key xs k = map_option (\<lambda>i. xs ! i) (find_key key xs k)"

text \<open>\<^verbatim>\<open>std::ranges::binary_search\<close>.\<close>

definition binary_search :: "'a::linorder list \<Rightarrow> 'a \<Rightarrow> bool" where
  "binary_search xs x \<longleftrightarrow> find_key (\<lambda>y. y) xs x \<noteq> None"

definition insert_at :: "nat \<Rightarrow> 'a \<Rightarrow> 'a list \<Rightarrow> 'a list" where
  "insert_at i x xs = take i xs @ x # drop i xs"

definition erase_at :: "nat \<Rightarrow> 'a list \<Rightarrow> 'a list" where
  "erase_at i xs = take i xs @ drop (Suc i) xs"

definition insert_key :: "('a \<Rightarrow> 'k::linorder) \<Rightarrow> 'a \<Rightarrow> 'a list \<Rightarrow> 'a list" where
  "insert_key key x xs = insert_at (lower_bound key xs (key x)) x xs"

definition replace_key :: "('a \<Rightarrow> 'k::linorder) \<Rightarrow> 'a \<Rightarrow> 'a list \<Rightarrow> 'a list" where
  "replace_key key x xs =
     (case find_key key xs (key x) of None \<Rightarrow> xs | Some i \<Rightarrow> xs[i := x])"

abbreviation keys_sorted :: "('a \<Rightarrow> 'k::linorder) \<Rightarrow> 'a list \<Rightarrow> bool" where
  "keys_sorted key xs \<equiv> sorted_wrt (<) (map key xs)"

text \<open>\<^verbatim>\<open>std::ranges::adjacent_find(xs) == end\<close> on a sorted range.\<close>

fun no_adjacent_equal :: "'a list \<Rightarrow> bool" where
  "no_adjacent_equal (x # y # zs) = (x \<noteq> y \<and> no_adjacent_equal (y # zs))"
| "no_adjacent_equal _ = True"

lemma sorted_no_adjacent_equal_iff:
  "sorted xs \<Longrightarrow> no_adjacent_equal xs \<longleftrightarrow> distinct (xs :: 'a::linorder list)"
proof (induction xs rule: no_adjacent_equal.induct)
  case (1 x y zs)
  then show ?case by auto
qed auto

lemma sorted_distinct_strict: "sorted xs \<Longrightarrow> distinct xs \<Longrightarrow> sorted_wrt (<) (xs :: 'a::linorder list)"
  by (simp add: strict_sorted_iff)

lemma keys_sorted_nth_less:
  "keys_sorted key xs \<Longrightarrow> i < j \<Longrightarrow> j < length xs \<Longrightarrow> key (xs ! i) < key (xs ! j)"
  using sorted_wrt_nth_less [of "(<)" "map key xs" i j] by simp

lemma keys_sorted_nth_inject:
  assumes "keys_sorted key xs" and "i < length xs" and "j < length xs" and "key (xs ! i) = key (xs ! j)"
  shows "i = j"
proof (rule ccontr)
  assume "i \<noteq> j"
  then consider "i < j" | "j < i" by linarith
  then show False
  proof cases
    case 1
    from keys_sorted_nth_less [OF assms(1) 1 assms(3)] assms(4) show False by simp
  next
    case 2
    from keys_sorted_nth_less [OF assms(1) 2 assms(2)] assms(4) show False by simp
  qed
qed

lemma keys_sorted_inject:
  assumes "keys_sorted key xs" and "x \<in> set xs" and "y \<in> set xs" and "key x = key y"
  shows "x = y"
proof -
  obtain i where i: "i < length xs" "xs ! i = x" using assms(2) by (auto simp: in_set_conv_nth)
  obtain j where j: "j < length xs" "xs ! j = y" using assms(3) by (auto simp: in_set_conv_nth)
  have "i = j" by (rule keys_sorted_nth_inject [OF assms(1) i(1) j(1)]) (simp add: i j assms(4))
  with i j show ?thesis by simp
qed

lemma keys_sorted_distinct: "keys_sorted key xs \<Longrightarrow> distinct (map key xs)"
  by (simp add: strict_sorted_iff)

lemma lower_bound_le_length: "lower_bound key xs k \<le> length xs"
  by (simp add: lower_bound_def length_takeWhile_le)

lemma take_lower_bound: "take (lower_bound key xs k) xs = takeWhile (\<lambda>x. key x < k) xs"
  by (metis lower_bound_def takeWhile_eq_take)

lemma drop_lower_bound: "drop (lower_bound key xs k) xs = dropWhile (\<lambda>x. key x < k) xs"
  by (metis lower_bound_def dropWhile_eq_drop)

lemma takeWhile_less: "x \<in> set (takeWhile (\<lambda>x. key x < k) xs) \<Longrightarrow> key x < k"
  by (drule set_takeWhileD) simp

lemma dropWhile_ge:
  "keys_sorted key xs \<Longrightarrow> x \<in> set (dropWhile (\<lambda>x. key x < k) xs) \<Longrightarrow> k \<le> key x"
proof (induction xs)
  case (Cons a xs)
  show ?case
  proof (cases "key a < k")
    case True
    with Cons show ?thesis by auto
  next
    case False
    with Cons.prems show ?thesis by force
  qed
qed simp

lemma lower_bound_nth:
  assumes "keys_sorted key xs" and "i < length xs"
  shows "lower_bound key xs (key (xs ! i)) = i"
proof -
  let ?k = "key (xs ! i)"
  have "lower_bound key xs ?k \<le> i"
  proof (rule ccontr)
    assume "\<not> ?thesis"
    then have "i < length (takeWhile (\<lambda>x. key x < ?k) xs)" by (simp add: lower_bound_def)
    then have "takeWhile (\<lambda>x. key x < ?k) xs ! i \<in> set (takeWhile (\<lambda>x. key x < ?k) xs)"
      and "takeWhile (\<lambda>x. key x < ?k) xs ! i = xs ! i"
      by (rule nth_mem, simp add: takeWhile_nth)
    then show False using takeWhile_less [of "xs ! i" key ?k xs] by simp
  qed
  moreover have "i \<le> lower_bound key xs ?k"
  proof (rule ccontr)
    assume "\<not> ?thesis"
    then have lt: "lower_bound key xs ?k < i" by simp
    with assms(2) have "lower_bound key xs ?k < length xs" by simp
    then have "\<not> key (xs ! lower_bound key xs ?k) < ?k"
      unfolding lower_bound_def using nth_length_takeWhile by blast
    with keys_sorted_nth_less [OF assms(1) lt assms(2)] show False by simp
  qed
  ultimately show ?thesis by simp
qed

lemma find_key_iff [vec_simps]:
  "keys_sorted key xs \<Longrightarrow> find_key key xs k = Some i \<longleftrightarrow> i < length xs \<and> key (xs ! i) = k"
  by (auto simp: find_key_def Let_def lower_bound_nth)

lemma find_key_SomeD: "find_key key xs k = Some i \<Longrightarrow> i < length xs \<and> key (xs ! i) = k"
  by (auto simp: find_key_def Let_def split: if_splits)

lemma find_key_None_iff [vec_simps]:
  "keys_sorted key xs \<Longrightarrow> find_key key xs k = None \<longleftrightarrow> k \<notin> key ` set xs"
  by (auto simp: not_Some_eq [symmetric] find_key_iff image_iff in_set_conv_nth simp del: not_Some_eq)
    (metis nth_mem)

lemma binary_search_iff: "sorted_wrt (<) xs \<Longrightarrow> binary_search xs x \<longleftrightarrow> x \<in> set xs"
  using find_key_None_iff [of "\<lambda>y. y" xs x] by (auto simp: binary_search_def)

lemma lookup_key_iff [vec_simps]:
  "keys_sorted key xs \<Longrightarrow> lookup_key key xs k = Some x \<longleftrightarrow> x \<in> set xs \<and> key x = k"
  by (auto simp: lookup_key_def find_key_iff in_set_conv_nth)

lemma lookup_key_SomeD: "lookup_key key xs k = Some x \<Longrightarrow> x \<in> set xs \<and> key x = k"
  by (auto simp: lookup_key_def dest: find_key_SomeD)

lemma lookup_key_None_iff [vec_simps]:
  "keys_sorted key xs \<Longrightarrow> lookup_key key xs k = None \<longleftrightarrow> k \<notin> key ` set xs"
  by (simp add: lookup_key_def find_key_None_iff)

lemma set_insert_at [simp]: "set (insert_at i x xs) = insert x (set xs)"
proof -
  have "set xs = set (take i xs) \<union> set (drop i xs)" by (metis append_take_drop_id set_append)
  then show ?thesis by (simp add: insert_at_def)
qed

lemma mset_insert_at [simp]: "mset (insert_at i x xs) = add_mset x (mset xs)"
  by (simp add: insert_at_def) (metis append_take_drop_id mset_append)

lemma length_insert_at [simp]: "length (insert_at i x xs) = Suc (length xs)"
  by (simp add: insert_at_def)

lemma mset_erase_at: "i < length xs \<Longrightarrow> add_mset (xs ! i) (mset (erase_at i xs)) = mset xs"
proof -
  assume "i < length xs"
  then have "mset xs = mset (take i xs @ xs ! i # drop (Suc i) xs)"
    by (simp add: id_take_nth_drop [symmetric])
  then show ?thesis by (simp add: erase_at_def)
qed

lemma set_erase_at_subset: "set (erase_at i xs) \<subseteq> set xs"
  by (auto simp: erase_at_def dest: in_set_takeD in_set_dropD)

lemma length_erase_at: "i < length xs \<Longrightarrow> length (erase_at i xs) = length xs - 1"
  by (simp add: erase_at_def)

lemma map_insert_at: "map f (insert_at i x xs) = insert_at i (f x) (map f xs)"
  by (simp add: insert_at_def take_map drop_map)

lemma map_erase_at: "map f (erase_at i xs) = erase_at i (map f xs)"
  by (simp add: erase_at_def take_map drop_map)

lemma sorted_wrt_erase_at: "sorted_wrt P xs \<Longrightarrow> sorted_wrt P (erase_at i xs)"
proof -
  assume "sorted_wrt P xs"
  then have "sorted_wrt P (take i xs @ drop i xs)" by simp
  moreover have "set (drop (Suc i) xs) \<subseteq> set (drop i xs)" by (simp add: set_drop_subset_set_drop)
  moreover have "sorted_wrt P (drop (Suc i) xs)" using \<open>sorted_wrt P xs\<close> by (rule sorted_wrt_drop)
  ultimately show ?thesis
    unfolding erase_at_def sorted_wrt_append by blast
qed

lemma keys_sorted_erase_at: "keys_sorted key xs \<Longrightarrow> keys_sorted key (erase_at i xs)"
  by (simp add: map_erase_at sorted_wrt_erase_at)

lemma map_key_update: "key x = key (xs ! i) \<Longrightarrow> map key (xs[i := x]) = map key xs"
  by (cases "i < length xs") (simp_all add: map_update list_update_beyond list_update_same_conv)

lemma keys_sorted_update:
  "keys_sorted key xs \<Longrightarrow> key x = key (xs ! i) \<Longrightarrow> keys_sorted key (xs[i := x])"
  by (simp add: map_key_update)

lemma keys_sorted_insert_key [vec_simps]:
  assumes "keys_sorted key xs" and "key x \<notin> key ` set xs"
  shows "keys_sorted key (insert_key key x xs)"
proof -
  let ?T = "takeWhile (\<lambda>y. key y < key x) xs" and ?D = "dropWhile (\<lambda>y. key y < key x) xs"
  have split: "xs = ?T @ ?D" by simp
  have sorted: "sorted_wrt (<) (map key ?T @ map key ?D)"
    using assms(1) split by (metis map_append)
  have "key x < key y" if "y \<in> set ?D" for y
    using dropWhile_ge [OF assms(1) that] assms(2) that split
    by (metis image_eqI order_le_imp_less_or_eq set_dropWhileD)
  then show ?thesis
    using sorted
    by (auto simp: insert_key_def insert_at_def take_lower_bound drop_lower_bound sorted_wrt_append
        dest: takeWhile_less intro: order.strict_trans)
qed

lemma set_insert_key [simp]: "set (insert_key key x xs) = insert x (set xs)"
  by (simp add: insert_key_def)

lemma mset_insert_key [simp]: "mset (insert_key key x xs) = add_mset x (mset xs)"
  by (simp add: insert_key_def)

lemma length_insert_key [simp]: "length (insert_key key x xs) = Suc (length xs)"
  by (simp add: insert_key_def)

lemma mset_list_update:
  "i < length xs \<Longrightarrow> add_mset (xs ! i) (mset (xs[i := x])) = add_mset x (mset xs)"
  by (simp add: mset_update)

lemma find_index_iff: "find_index P xs = Some i \<Longrightarrow> i < length xs \<and> P (xs ! i)"
  by (auto simp: find_index_def Let_def split: if_splits dest: nth_length_takeWhile)

lemma find_index_None_iff: "find_index P xs = None \<longleftrightarrow> (\<forall>x \<in> set xs. \<not> P x)"
proof
  assume "find_index P xs = None"
  then have "length (takeWhile (\<lambda>x. \<not> P x) xs) = length xs"
    using length_takeWhile_le [of "\<lambda>x. \<not> P x" xs] by (auto simp: find_index_def Let_def split: if_splits)
  then have "takeWhile (\<lambda>x. \<not> P x) xs = xs" by (metis takeWhile_eq_take take_all order_refl)
  then show "\<forall>x \<in> set xs. \<not> P x" by (metis takeWhile_eq_all_conv)
next
  assume "\<forall>x \<in> set xs. \<not> P x"
  then show "find_index P xs = None" by (simp add: find_index_def Let_def takeWhile_eq_all_conv [THEN iffD2])
qed

lemma keys_sorted_replace_key [vec_simps]: "keys_sorted key xs \<Longrightarrow> keys_sorted key (replace_key key x xs)"
  by (auto simp: replace_key_def map_key_update split: option.splits dest: find_key_SomeD)

lemma length_replace_key [simp]: "length (replace_key key x xs) = length xs"
  by (simp add: replace_key_def split: option.splits)

lemma map_key_replace_key [simp]: "map key (replace_key key x xs) = map key xs"
  by (auto simp: replace_key_def map_key_update split: option.splits dest!: find_key_SomeD)

lemma set_replace_key:
  assumes "keys_sorted key xs" and "key x \<in> key ` set xs"
  shows "set (replace_key key x xs) = insert x {y \<in> set xs. key y \<noteq> key x}"
proof -
  obtain i where i: "i < length xs" "key (xs ! i) = key x" and f: "find_key key xs (key x) = Some i"
    using assms by (metis find_key_None_iff find_key_iff not_Some_eq)
  have "set (xs[i := x]) = insert x {y \<in> set xs. key y \<noteq> key x}"
  proof (intro set_eqI iffI)
    fix y assume "y \<in> set (xs[i := x])"
    then obtain j where j: "j < length xs" "y = xs[i := x] ! j" by (metis in_set_conv_nth length_list_update)
    show "y \<in> insert x {y \<in> set xs. key y \<noteq> key x}"
    proof (cases "j = i")
      case True
      with i j show ?thesis by simp
    next
      case False
      then have "key (xs ! j) \<noteq> key x" using i j keys_sorted_nth_inject [OF assms(1)] by metis
      with False j show ?thesis by simp
    qed
  next
    fix y assume "y \<in> insert x {y \<in> set xs. key y \<noteq> key x}"
    then show "y \<in> set (xs[i := x])"
      by (smt (verit) i in_set_conv_nth insert_iff length_list_update mem_Collect_eq nth_list_update_eq
          nth_list_update_neq)
  qed
  with f show ?thesis by (simp add: replace_key_def)
qed

lemma lookup_insert_key:
  assumes "keys_sorted key xs" and "key x \<notin> key ` set xs"
  shows "lookup_key key (insert_key key x xs) k = (if k = key x then Some x else lookup_key key xs k)"
proof -
  have s: "keys_sorted key (insert_key key x xs)" using assms by (rule keys_sorted_insert_key)
  have "lookup_key key (insert_key key x xs) k = Some y \<longleftrightarrow>
      (if k = key x then Some x else lookup_key key xs k) = Some y" for y
    using assms(2) by (auto simp: lookup_key_iff [OF s] lookup_key_iff [OF assms(1)] image_iff)
  then show ?thesis by (metis option.exhaust)
qed

lemma lookup_replace_key:
  assumes "keys_sorted key xs" and "key x \<in> key ` set xs"
  shows "lookup_key key (replace_key key x xs) k = (if k = key x then Some x else lookup_key key xs k)"
proof -
  have s: "keys_sorted key (replace_key key x xs)" using assms(1) by (rule keys_sorted_replace_key)
  have "lookup_key key (replace_key key x xs) k = Some y \<longleftrightarrow>
      (if k = key x then Some x else lookup_key key xs k) = Some y" for y
    by (auto simp: lookup_key_iff [OF s] lookup_key_iff [OF assms(1)] set_replace_key [OF assms])
  then show ?thesis by (metis option.exhaust)
qed

lemma replace_key_member:
  assumes "keys_sorted key xs" and "x \<in> set xs"
  shows "replace_key key x xs = xs"
proof -
  obtain i where i: "i < length xs" "xs ! i = x" using assms(2) by (auto simp: in_set_conv_nth)
  then have "find_key key xs (key x) = Some i" using assms(1) by (simp add: find_key_iff)
  with i show ?thesis by (auto simp: replace_key_def)
qed

lemma find_key_replace_key:
  "keys_sorted key xs \<Longrightarrow> find_key key (replace_key key x xs) k = find_key key xs k"
proof -
  assume s: "keys_sorted key xs"
  have "find_key key (replace_key key x xs) k = Some i \<longleftrightarrow> find_key key xs k = Some i" for i
    using s by (simp add: find_key_iff keys_sorted_replace_key)
      (metis length_replace_key map_key_replace_key nth_map)
  then show ?thesis by (metis option.exhaust)
qed

lemma replace_key_twice:
  assumes "keys_sorted key xs" and "key x = key y"
  shows "replace_key key y (replace_key key x xs) = replace_key key y xs"
proof (cases "find_key key xs (key y)")
  case None
  then show ?thesis using assms by (simp add: replace_key_def)
next
  case (Some i)
  then have "find_key key (replace_key key x xs) (key y) = Some i"
    using assms(1) by (simp add: find_key_replace_key)
  moreover have "replace_key key x xs = xs[i := x]" using Some assms(2) by (simp add: replace_key_def)
  ultimately show ?thesis using Some unfolding replace_key_def [of key y] by simp
qed

text \<open>What replacing an entry does to a sum over the table.\<close>

lemma sum_list_update_nat:
  "i < length xs \<Longrightarrow> (\<Sum>x\<leftarrow>xs[i := y]. f x) + f (xs ! i) = (\<Sum>x\<leftarrow>xs. f x) + (f y :: nat)"
  by (induction xs arbitrary: i) (auto split: nat.split)

lemma sum_replace_key:
  assumes "lookup_key key xs (key y) = Some x"
  shows "(\<Sum>z\<leftarrow>replace_key key y xs. f z) + f x = (\<Sum>z\<leftarrow>xs. f z) + (f y :: nat)"
proof -
  obtain i where i: "find_key key xs (key y) = Some i" "x = xs ! i"
    using assms by (auto simp: lookup_key_def)
  then show ?thesis using sum_list_update_nat [of i xs f y] find_key_SomeD [OF i(1)]
    by (simp add: replace_key_def)
qed

lemma sum_insert_at: "(\<Sum>z\<leftarrow>insert_at i x xs. f z) = f x + (\<Sum>z\<leftarrow>xs. f z :: nat)"
proof -
  have "(\<Sum>z\<leftarrow>xs. f z) = (\<Sum>z\<leftarrow>take i xs @ drop i xs. f z)" by simp
  then show ?thesis by (simp add: insert_at_def del: append_take_drop_id)
qed

lemma sum_insert_key: "(\<Sum>z\<leftarrow>insert_key key x xs. f z) = f x + (\<Sum>z\<leftarrow>xs. f z :: nat)"
  by (simp add: insert_key_def sum_insert_at)

lemma sum_erase_at: "i < length xs \<Longrightarrow> (\<Sum>z\<leftarrow>erase_at i xs. f z) + f (xs ! i) = (\<Sum>z\<leftarrow>xs. f z :: nat)"
proof -
  assume "i < length xs"
  then have "(\<Sum>z\<leftarrow>xs. f z) = (\<Sum>z\<leftarrow>take i xs @ xs ! i # drop (Suc i) xs. f z)"
    by (simp add: id_take_nth_drop [symmetric])
  then show ?thesis by (simp add: erase_at_def)
qed

text \<open>A loop that returns the first error its body reports.\<close>

fun first_error :: "('a \<Rightarrow> 'e option) \<Rightarrow> 'a list \<Rightarrow> 'e option" where
  "first_error f [] = None"
| "first_error f (x # xs) = (case f x of Some e \<Rightarrow> Some e | None \<Rightarrow> first_error f xs)"

lemma first_error_None_iff: "first_error f xs = None \<longleftrightarrow> (\<forall>x \<in> set xs. f x = None)"
  by (induction xs) (auto split: option.splits)

lemma sorted_wrt_adjacent:
  assumes "transp P"
  shows "sorted_wrt P xs \<longleftrightarrow> (\<forall>i \<in> {1..<length xs}. P (xs ! (i - 1)) (xs ! i))"
proof -
  have "sorted_wrt P xs \<longleftrightarrow> (\<forall>i. Suc i < length xs \<longrightarrow> P (xs ! i) (xs ! Suc i))"
    using assms by (rule sorted_wrt_iff_nth_Suc_transp)
  also have "\<dots> \<longleftrightarrow> (\<forall>i \<in> {1..<length xs}. P (xs ! (i - 1)) (xs ! i))"
    unfolding atLeastLessThan_iff Ball_def by (metis One_nat_def Suc_le_D Suc_leI diff_Suc_1 zero_less_Suc)
  finally show ?thesis .
qed

lemma distinct_prefix:
  "(\<forall>i < length xs. find_index (\<lambda>x. f x = f (xs ! i)) (take i xs) = None) \<longleftrightarrow> distinct (map f xs)"
proof -
  have "find_index (\<lambda>x. f x = f (xs ! i)) (take i xs) = None \<longleftrightarrow> (\<forall>j < i. f (xs ! j) \<noteq> f (xs ! i))"
    if "i < length xs" for i
    using that by (auto simp: find_index_None_iff nth_image [symmetric])
  then have "(\<forall>i < length xs. find_index (\<lambda>x. f x = f (xs ! i)) (take i xs) = None) \<longleftrightarrow>
      (\<forall>i < length xs. \<forall>j < i. f (xs ! j) \<noteq> f (xs ! i))" by blast
  also have "\<dots> \<longleftrightarrow> distinct (map f xs)"
    by (auto simp: distinct_conv_nth linorder_neq_iff) metis
  finally show ?thesis .
qed

section \<open>Interfaces\<close>

text \<open>
  A table of entries found by their key. Every canonical collection of the server (players,
  sessions, item declarations, stacks, containers, objects, script variables) offers this
  interface to the components that read it.
\<close>

locale keyed_table =
  fixes key :: "'a \<Rightarrow> 'k"
    and entries :: "'t \<Rightarrow> 'a list"
    and invar :: "'t \<Rightarrow> bool"
    and lookup :: "'t \<Rightarrow> 'k \<Rightarrow> 'a option"
  assumes lookup_iff: "invar t \<Longrightarrow> lookup t k = Some x \<longleftrightarrow> x \<in> set (entries t) \<and> key x = k"
begin

lemma lookup_None_iff: "invar t \<Longrightarrow> lookup t k = None \<longleftrightarrow> k \<notin> key ` set (entries t)"
  by (auto simp: not_Some_eq [symmetric] lookup_iff image_iff simp del: not_Some_eq)

lemma lookup_keyD: "invar t \<Longrightarrow> lookup t k = Some x \<Longrightarrow> key x = k"
  by (simp add: lookup_iff)

lemma lookup_memberD: "invar t \<Longrightarrow> lookup t k = Some x \<Longrightarrow> x \<in> set (entries t)"
  by (simp add: lookup_iff)

lemma lookup_member: "invar t \<Longrightarrow> x \<in> set (entries t) \<Longrightarrow> lookup t (key x) = Some x"
  by (simp add: lookup_iff)

lemma entry_unique:
  "invar t \<Longrightarrow> x \<in> set (entries t) \<Longrightarrow> y \<in> set (entries t) \<Longrightarrow> key x = key y \<Longrightarrow> x = y"
  by (metis lookup_member option.inject)

lemma dom_lookup: "invar t \<Longrightarrow> dom (lookup t) = key ` set (entries t)"
  by (auto simp: dom_def lookup_iff)

lemma lookup_extensional:
  assumes "invar t" and "invar t'" and "set (entries t) = set (entries t')"
  shows "lookup t = lookup t'"
proof
  fix k
  have "lookup t k = Some x \<longleftrightarrow> lookup t' k = Some x" for x
    using assms by (simp add: lookup_iff)
  then show "lookup t k = lookup t' k" by (metis option.exhaust)
qed

end

text \<open>A table whose entries can be replaced in place, as the candidate worlds are.\<close>

locale updatable_table = keyed_table key entries invar lookup
  for key :: "'a \<Rightarrow> 'k" and entries :: "'t \<Rightarrow> 'a list" and invar :: "'t \<Rightarrow> bool"
    and lookup :: "'t \<Rightarrow> 'k \<Rightarrow> 'a option" +
  fixes replace :: "'a \<Rightarrow> 't \<Rightarrow> 't"
  assumes invar_replace: "invar t \<Longrightarrow> invar (replace x t)"
    and lookup_replace: "invar t \<Longrightarrow> lookup t (key x) \<noteq> None \<Longrightarrow>
          lookup (replace x t) k = (if k = key x then Some x else lookup t k)"
    and replace_present: "invar t \<Longrightarrow> x \<in> set (entries t) \<Longrightarrow> replace x t = t"
    and replace_twice: "invar t \<Longrightarrow> key x = key y \<Longrightarrow> replace y (replace x t) = replace y t"
begin

lemma lookup_replace_same:
  "invar t \<Longrightarrow> lookup t (key x) \<noteq> None \<Longrightarrow> lookup (replace x t) (key x) = Some x"
  by (simp add: lookup_replace)

lemma lookup_replace_other:
  "invar t \<Longrightarrow> lookup t (key x) \<noteq> None \<Longrightarrow> k \<noteq> key x \<Longrightarrow> lookup (replace x t) k = lookup t k"
  by (simp add: lookup_replace)

lemma replace_undo:
  assumes "invar t" and "lookup t (key x) = Some old"
  shows "replace old (replace x t) = t"
proof -
  have "old \<in> set (entries t)" and "key old = key x" using assms lookup_iff by auto
  then show ?thesis using assms(1) replace_twice replace_present by metis
qed

end

text \<open>
  A command handler with optimistic concurrency: a command carries the revision its sender
  saw, a handler that changes the target advances the target's revision, and a handler that
  reports failure changes nothing. A client of the interface may resend a command: it cannot
  take effect twice.
\<close>

locale revisioned_handler =
  fixes run :: "'e \<Rightarrow> 's \<Rightarrow> 'c \<Rightarrow> 's \<times> 'r"
    and ok :: "'r \<Rightarrow> bool"
    and good :: "'s \<Rightarrow> bool"
    and revision_of :: "'s \<Rightarrow> 'c \<Rightarrow> nat"
    and expected :: "'c \<Rightarrow> nat"
  assumes failure_frame: "good s \<Longrightarrow> run e s c = (s', r) \<Longrightarrow> \<not> ok r \<Longrightarrow> s' = s"
    and ok_expected: "good s \<Longrightarrow> run e s c = (s', r) \<Longrightarrow> ok r \<Longrightarrow> revision_of s c = expected c"
    and change_advances: "good s \<Longrightarrow> run e s c = (s', r) \<Longrightarrow> s' \<noteq> s \<Longrightarrow>
          revision_of s' c = Suc (revision_of s c)"
    and good_run: "good s \<Longrightarrow> run e s c = (s', r) \<Longrightarrow> good s'"
begin

lemma change_ok: "good s \<Longrightarrow> run e s c = (s', r) \<Longrightarrow> s' \<noteq> s \<Longrightarrow> ok r"
  using failure_frame by blast

text \<open>Resending it later, in whatever circumstances \<open>e2\<close> the handler then runs, has no effect.\<close>

lemma resend_rejected:
  assumes "good s" and "run e s c = (s', r)" and "s' \<noteq> s" and "run e2 s' c = (s2, r2)"
  shows "\<not> ok r2 \<and> s2 = s'"
proof -
  have ok: "ok r" using assms(1-3) by (rule change_ok)
  have "revision_of s' c = Suc (expected c)"
    using change_advances [OF assms(1-3)] ok_expected [OF assms(1,2) ok] by simp
  moreover have good: "good s'" using good_run [OF assms(1,2)] .
  ultimately have "\<not> ok r2" using ok_expected [OF good assms(4)] by fastforce
  with failure_frame [OF good assms(4)] show ?thesis by simp
qed

end

text \<open>A transition system given by a step function, its runs and its invariants.\<close>

locale step_system =
  fixes step :: "'s \<Rightarrow> 'e \<Rightarrow> 's"
    and inv :: "'s \<Rightarrow> bool"
  assumes inv_step: "inv s \<Longrightarrow> inv (step s e)"
begin

lemma inv_run: "inv s \<Longrightarrow> inv (foldl step s es)"
  by (induction es arbitrary: s) (simp_all add: inv_step)

lemma inv_prefix: "inv s \<Longrightarrow> inv (foldl step s (take n es))"
  by (rule inv_run)

end

end
