(* ===== verification/Value_Types.thy ===== *)
theory Value_Types
  imports Prelude
begin

text \<open>
  The checked identities and counters of \<^verbatim>\<open>strong_value.hpp\<close> and \<^verbatim>\<open>value_types.hpp\<close>. A
  \<^verbatim>\<open>StrongValue<Tag, Policy>\<close> is a 64-bit unsigned value; the tag exists at compile time only, the
  policy decides whether zero is a value and where a counter starts. Values of every tag are
  \<open>u64\<close> here; what \<^verbatim>\<open>fromValue\<close> rejects and what \<^verbatim>\<open>next\<close> refuses is kept.
\<close>

section \<open>StrongValue\<close>

datatype strong_value_policy = Identity | CounterFromZero | CounterFromOne

definition fromValue :: "strong_value_policy \<Rightarrow> u64 \<Rightarrow> u64 option" where
  "fromValue policy value =
     (if policy \<noteq> CounterFromZero \<and> value = 0 then None else Some value)"

definition initial :: "strong_value_policy \<Rightarrow> u64" where
  "initial policy = (if policy = CounterFromZero then 0 else 1)"

definition next_value :: "u64 \<Rightarrow> u64 option" where
  "next_value v = (if v = u64_max then None else Some (v + 1))"

text \<open>The tags used by the model.\<close>

type_synonym EntityId = u64
type_synonym PlayerId = u64
type_synonym PrincipalId = u64
type_synonym SessionId = u64
type_synonym SessionGeneration = u64
type_synonym AuthenticationAttemptId = u64
type_synonym ServerTick = u64
type_synonym CanonicalRevision = u64
type_synonym CanonicalStateVersion = u64
type_synonym CommandSequence = u64
type_synonym EntityRevision = u64
type_synonym CommandId = u64
type_synonym AuthorityEpoch = u64
type_synonym CellSpaceId = u64
type_synonym AppearanceId = u64
type_synonym ActorPrototypeId = u64
type_synonym InteractiveObjectId = u64
type_synonym KeyPrototypeId = u64
type_synonym TrapPrototypeId = u64
type_synonym ObjectRevision = u64
type_synonym ItemPrototypeId = u64
type_synonym ItemStackId = u64
type_synonym InventoryRevision = u64
type_synonym ContainerRevision = u64
type_synonym WorldItemRevision = u64
type_synonym ContainerId = u64
type_synonym CombatRevision = u64
type_synonym CharacterProfileRevision = u64
type_synonym ScriptVariableId = u64
type_synonym ScriptStateRevision = u64

text \<open>\<^verbatim>\<open>MonotonicInstant\<close>: nanoseconds of a monotonic clock.\<close>

type_synonym MonotonicInstant = u64

section \<open>Counters never wrap\<close>

definition policy_allows :: "strong_value_policy \<Rightarrow> u64 \<Rightarrow> bool" where
  "policy_allows policy v \<longleftrightarrow> policy = CounterFromZero \<or> v \<noteq> 0"

lemma next_value_unat: "next_value v = Some w \<Longrightarrow> unat w = Suc (unat v)"
  by (auto simp: next_value_def word_Suc_neq_max split: if_splits)

lemma next_value_iff: "next_value v = Some w \<longleftrightarrow> unat w = Suc (unat v)"
proof
  assume suc: "unat w = Suc (unat v)"
  then have "v \<noteq> u64_max" using unat_lt_u64 [of w] by (auto simp del: unat_lt_u64)
  then have "unat (v + 1) = unat w" using suc by (simp add: word_Suc_neq_max)
  then have "v + 1 = w" by (simp add: word_unat_eq_iff)
  with \<open>v \<noteq> u64_max\<close> show "next_value v = Some w" by (simp add: next_value_def)
qed (rule next_value_unat)

lemma next_value_less: "next_value v = Some w \<Longrightarrow> v < w"
  by (simp add: word_less_nat_alt next_value_unat)

lemma next_value_nonzero: "next_value v = Some w \<Longrightarrow> w \<noteq> 0"
  using next_value_less by fastforce

lemma next_value_inject: "next_value v = Some w \<Longrightarrow> next_value v' = Some w \<Longrightarrow> v = v'"
  by (auto simp: next_value_def split: if_splits)

lemma next_value_None_iff: "next_value v = None \<longleftrightarrow> v = u64_max"
  by (simp add: next_value_def)

lemma fromValue_iff: "fromValue p v = Some w \<longleftrightarrow> w = v \<and> policy_allows p v"
  by (auto simp: fromValue_def policy_allows_def)

lemma next_value_allowed: "next_value v = Some w \<Longrightarrow> policy_allows p w"
  by (simp add: policy_allows_def next_value_nonzero)

lemma initial_allowed: "policy_allows p (initial p)"
  by (cases p) (simp_all add: policy_allows_def initial_def)

text \<open>The counter reached by \<open>n\<close> calls of \<^verbatim>\<open>next\<close>.\<close>

fun advance :: "nat \<Rightarrow> u64 \<Rightarrow> u64 option" where
  "advance 0 v = Some v"
| "advance (Suc n) v = (case next_value v of None \<Rightarrow> None | Some w \<Rightarrow> advance n w)"

lemma advance_unat: "advance n v = Some w \<Longrightarrow> unat w = unat v + n"
  by (induction n arbitrary: v) (auto split: option.splits dest: next_value_unat)

lemma advance_Some_iff: "advance n v \<noteq> None \<longleftrightarrow> unat v + n < 2 ^ 64"
proof (induction n arbitrary: v)
  case 0
  show ?case by simp
next
  case (Suc n)
  show ?case
  proof (cases "next_value v")
    case None
    then have "v = u64_max" by (simp add: next_value_None_iff)
    with None show ?thesis by simp
  next
    case (Some w)
    with Suc [of w] next_value_unat [OF Some] show ?thesis by simp
  qed
qed

end
