(* ===== verification/Tick_Scheduler.thy ===== *)
theory Tick_Scheduler
  imports Value_Types
begin

text \<open>
  \<^verbatim>\<open>server_core/fixed_tick_scheduler.cpp\<close>: the 30 Hz scheduler that turns observations of a
  monotonic clock into consecutive server ticks, at most four per pump. The clock reading is an
  argument of \<open>pump\<close>; a call of \<^verbatim>\<open>std::optional::value()\<close> on an empty optional inside the
  \<^verbatim>\<open>noexcept\<close> function would terminate the process, which is the result \<open>None\<close> here.
\<close>

section \<open>Model\<close>

definition ServerTicksPerSecond :: u64 where
  "ServerTicksPerSecond = 30"

definition MaximumCatchUpTicks :: u64 where
  "MaximumCatchUpTicks = 4"

definition NanosecondsPerSecond :: u64 where
  "NanosecondsPerSecond = 1000000000"

datatype tick_epoch = EpochZero | EpochNextTick

datatype scheduler_error = SchedulerNone | ClockMovedBackwards | SchedulerDeadlineOverflow | TickExhausted

record scheduler_pump_result =
  pump_error :: scheduler_error
  pump_ticks :: "ServerTick list"
  pump_dueTickLag :: u64

record fixed_tick_scheduler =
  mEpoch :: MonotonicInstant
  mLastObservation :: MonotonicInstant
  mNextTick :: ServerTick
  mEpochTick :: ServerTick

definition tickOffsetNanoseconds :: "ServerTick \<Rightarrow> u64 option" where
  "tickOffsetNanoseconds tick =
     (let quotient = tick div ServerTicksPerSecond;
          remainder = tick mod ServerTicksPerSecond;
          remainderNanoseconds =
            (remainder * NanosecondsPerSecond + ServerTicksPerSecond - 1) div ServerTicksPerSecond
      in if quotient > (u64_max - remainderNanoseconds) div NanosecondsPerSecond then None
         else Some (quotient * NanosecondsPerSecond + remainderNanoseconds))"

definition deadlineNanoseconds :: "MonotonicInstant \<Rightarrow> ServerTick \<Rightarrow> u64 option" where
  "deadlineNanoseconds epoch tick =
     (case tickOffsetNanoseconds tick of
        None \<Rightarrow> None
      | Some offset \<Rightarrow> if offset > u64_max - epoch then None else Some (epoch + offset))"

definition maximumDueTick :: "u64 \<Rightarrow> u64" where
  "maximumDueTick elapsedNanoseconds =
     (let wholeSeconds = elapsedNanoseconds div NanosecondsPerSecond;
          remainder = elapsedNanoseconds mod NanosecondsPerSecond
      in wholeSeconds * ServerTicksPerSecond + (remainder * ServerTicksPerSecond) div NanosecondsPerSecond)"

definition createScheduler :: "MonotonicInstant \<Rightarrow> ServerTick \<Rightarrow> tick_epoch \<Rightarrow> fixed_tick_scheduler" where
  "createScheduler epoch nextTick tickEpoch =
     \<lparr>mEpoch = epoch, mLastObservation = epoch, mNextTick = nextTick,
      mEpochTick = (if tickEpoch = EpochNextTick then nextTick else initial CounterFromZero)\<rparr>"

text \<open>The emission loop: pushes the current tick and steps it with \<^verbatim>\<open>next().value()\<close>.\<close>

fun emitTicks :: "nat \<Rightarrow> ServerTick \<Rightarrow> (ServerTick list \<times> ServerTick) option" where
  "emitTicks 0 tick = Some ([], tick)"
| "emitTicks (Suc n) tick =
     (case next_value tick of
        None \<Rightarrow> None
      | Some tick' \<Rightarrow>
          (case emitTicks n tick' of None \<Rightarrow> None | Some (ticks, final) \<Rightarrow> Some (tick # ticks, final)))"

definition emptyPump :: "scheduler_error \<Rightarrow> scheduler_pump_result" where
  "emptyPump e = \<lparr>pump_error = e, pump_ticks = [], pump_dueTickLag = 0\<rparr>"

definition pump ::
  "fixed_tick_scheduler \<Rightarrow> MonotonicInstant \<Rightarrow> (fixed_tick_scheduler \<times> scheduler_pump_result) option" where
  "pump s observation =
     (if observation < mLastObservation s then Some (s, emptyPump ClockMovedBackwards)
      else if mNextTick s = u64_max then Some (s, emptyPump TickExhausted)
      else case fromValue CounterFromZero (mNextTick s - mEpochTick s) of
        None \<Rightarrow> None
      | Some relative \<Rightarrow>
       (case deadlineNanoseconds (mEpoch s) relative of
          None \<Rightarrow> Some (s, emptyPump SchedulerDeadlineOverflow)
        | Some nextDeadline \<Rightarrow>
          if observation < mEpoch s \<or> observation < nextDeadline
          then Some (s\<lparr>mLastObservation := observation\<rparr>, emptyPump SchedulerNone)
          else
            let elapsed = observation - mEpoch s;
                dueOffset = maximumDueTick elapsed
            in if dueOffset \<ge> u64_max - mEpochTick s then Some (s, emptyPump TickExhausted)
               else
                 let latestDue = mEpochTick s + dueOffset;
                     lag = latestDue - mNextTick s + 1;
                     emitted = min lag MaximumCatchUpTicks
                 in case emitTicks (unat emitted) (mNextTick s) of
                      None \<Rightarrow> None
                    | Some (ticks, tick) \<Rightarrow>
                        Some (s\<lparr>mNextTick := tick, mLastObservation := observation\<rparr>,
                              \<lparr>pump_error = SchedulerNone, pump_ticks = ticks, pump_dueTickLag = lag\<rparr>)))"

section \<open>The tick calendar in exact arithmetic\<close>

definition offset_nat :: "nat \<Rightarrow> nat" where
  "offset_nat n = (n * 1000000000 + 29) div 30"

definition due_nat :: "nat \<Rightarrow> nat" where
  "due_nat e = (e * 30) div 1000000000"

lemma offset_nat_split: "(n div 30) * 1000000000 + ((n mod 30) * 1000000000 + 30 - 1) div 30 = offset_nat n"
proof -
  have "n = 30 * (n div 30) + n mod 30" by simp
  then have "n * 1000000000 + 29 = 30 * ((n div 30) * 1000000000) + ((n mod 30) * 1000000000 + 29)"
    by linarith
  then have "(n * 1000000000 + 29) div 30 = (n div 30) * 1000000000 + ((n mod 30) * 1000000000 + 29) div 30"
    by simp
  then show ?thesis by (simp add: offset_nat_def)
qed

lemma due_nat_split: "(e div 1000000000) * 30 + ((e mod 1000000000) * 30) div 1000000000 = due_nat e"
proof -
  have "e = 1000000000 * (e div 1000000000) + e mod 1000000000" by simp
  then have "e * 30 = 1000000000 * ((e div 1000000000) * 30) + (e mod 1000000000) * 30" by linarith
  then have "(e * 30) div 1000000000
      = (e div 1000000000) * 30 + ((e mod 1000000000) * 30) div 1000000000" by simp
  then show ?thesis by (simp add: due_nat_def)
qed

text \<open>A tick is due at an instant exactly when its deadline has passed.\<close>

lemma offset_due_galois: "offset_nat n \<le> e \<longleftrightarrow> n \<le> due_nat e"
  unfolding offset_nat_def due_nat_def by linarith

lemma offset_nat_mono: "m \<le> n \<Longrightarrow> offset_nat m \<le> offset_nat n"
  unfolding offset_nat_def by (intro div_le_mono) simp

lemma unat_numerals: "unat ServerTicksPerSecond = 30" "unat NanosecondsPerSecond = 1000000000"
    "unat MaximumCatchUpTicks = 4"
  by (simp_all add: ServerTicksPerSecond_def NanosecondsPerSecond_def MaximumCatchUpTicks_def)

section \<open>The word computations are exact\<close>

lemma unat_numeral_30: "unat (30 :: u64) = 30"
  by simp

lemma guard_exact: "r < 18446744073709551616 \<Longrightarrow>
    (18446744073709551615 - r) div 1000000000 < (q :: nat) \<longleftrightarrow> 18446744073709551616 \<le> q * 1000000000 + r"
  by (subst div_less_iff_less_mult) auto

lemma guard_word: "q > (u64_max - r) div 1000000000 \<longleftrightarrow> 2 ^ 64 \<le> unat q * 1000000000 + unat (r :: u64)"
  using guard_exact [OF unat_lt_u64, of r "unat q"]
  by (simp add: word_less_nat_alt unat_div_distrib unat_u64_max_minus)

lemma remainder_ns_exact:
  "unat ((t mod 30 * 1000000000 + 30 - 1) div (30 :: u64)) = ((unat t mod 30) * 1000000000 + 30 - 1) div 30"
proof -
  have r: "unat (t mod 30) = unat t mod 30" by (simp add: unat_mod_distrib)
  have lt: "unat t mod 30 < 30" by simp
  have m: "unat (t mod 30 * 1000000000) = (unat t mod 30) * 1000000000"
    using lt by (subst unat_times_no_wrap) (simp_all add: r)
  have "t mod 30 * 1000000000 + 30 - 1 = t mod 30 * 1000000000 + (29 :: u64)" by simp
  moreover have "unat (t mod 30 * 1000000000 + 29) = (unat t mod 30) * 1000000000 + 29"
    using lt by (subst unat_plus_no_wrap) (simp_all add: m)
  ultimately have "unat (t mod 30 * 1000000000 + 30 - 1) = (unat t mod 30) * 1000000000 + 29" by (rule ssubst)
  moreover have "(unat t mod 30) * 1000000000 + 29 = (unat t mod 30) * 1000000000 + 30 - (1 :: nat)" by simp
  ultimately have "unat (t mod 30 * 1000000000 + 30 - 1) = (unat t mod 30) * 1000000000 + 30 - 1" by (rule trans)
  then show ?thesis by (simp only: unat_div_distrib unat_numeral_30)
qed

lemma tickOffset_exact:
  "(case tickOffsetNanoseconds t of
      Some off \<Rightarrow> unat off = offset_nat (unat t)
    | None \<Rightarrow> 2 ^ 64 \<le> offset_nat (unat t))"
proof -
  let ?q = "t div 30" and ?r = "(t mod 30 * 1000000000 + 30 - 1) div (30 :: u64)"
  have q: "unat ?q = unat t div 30" by (simp add: unat_div_distrib)
  have sum: "unat ?q * 1000000000 + unat ?r = offset_nat (unat t)"
    unfolding q remainder_ns_exact by (rule offset_nat_split)
  have guard: "?q > (u64_max - ?r) div 1000000000 \<longleftrightarrow> 2 ^ 64 \<le> offset_nat (unat t)"
    unfolding guard_word sum by (rule refl)
  show ?thesis
  proof (cases "?q > (u64_max - ?r) div 1000000000")
    case True
    with guard show ?thesis
      by (simp add: tickOffsetNanoseconds_def Let_def ServerTicksPerSecond_def NanosecondsPerSecond_def)
  next
    case False
    with guard sum have small: "unat ?q * 1000000000 + unat ?r < 2 ^ LENGTH(64)" by simp
    then have "unat (?q * 1000000000) = unat ?q * 1000000000" by (subst unat_times_no_wrap) simp_all
    with small sum have "unat (?q * 1000000000 + ?r) = offset_nat (unat t)"
      by (subst unat_plus_no_wrap) simp_all
    with False show ?thesis
      by (simp add: tickOffsetNanoseconds_def Let_def ServerTicksPerSecond_def NanosecondsPerSecond_def)
  qed
qed

lemma deadline_exact:
  "(case deadlineNanoseconds epoch t of
      Some d \<Rightarrow> unat d = unat epoch + offset_nat (unat t)
    | None \<Rightarrow> 2 ^ 64 \<le> unat epoch + offset_nat (unat t))"
proof (cases "tickOffsetNanoseconds t")
  case None
  with tickOffset_exact [of t] show ?thesis by (simp add: deadlineNanoseconds_def)
next
  case (Some off)
  with tickOffset_exact [of t] have off: "unat off = offset_nat (unat t)" by simp
  have guard: "off > u64_max - epoch \<longleftrightarrow> 2 ^ 64 \<le> unat epoch + unat off"
    using unat_lt_u64 [of epoch] unat_lt_u64 [of off]
    by (simp add: word_less_nat_alt unat_u64_max_minus del: unat_lt_u64) arith
  then show ?thesis
    using Some off by (auto simp: deadlineNanoseconds_def unat_plus_no_wrap)
qed

lemma maximumDueTick_exact: "unat (maximumDueTick e) = due_nat (unat e)"
proof -
  have q: "unat (e div 1000000000) = unat e div 1000000000" by (simp add: unat_div_distrib)
  have r: "unat (e mod 1000000000) = unat e mod 1000000000" by (simp add: unat_mod_distrib)
  have m: "unat (e mod 1000000000 * 30) = (unat e mod 1000000000) * 30"
    by (subst unat_times_no_wrap) (simp_all add: r, linarith?)
  have a: "unat (e div 1000000000 * 30) = (unat e div 1000000000) * 30"
    using unat_lt_u64 [of e] by (subst unat_times_no_wrap) (simp_all add: q del: unat_lt_u64)
  have d: "unat ((e mod 1000000000 * 30) div 1000000000) = ((unat e mod 1000000000) * 30) div 1000000000"
    by (simp add: unat_div_distrib m)
  have "due_nat (unat e) < 2 ^ LENGTH(64)"
    using unat_lt_u64 [of e] unfolding due_nat_def
    by (subst div_less_iff_less_mult) (simp_all del: unat_lt_u64)
  then have "unat (e div 1000000000 * 30 + (e mod 1000000000 * 30) div 1000000000) = due_nat (unat e)"
    using due_nat_split [of "unat e"] by (subst unat_plus_no_wrap) (simp_all add: a d)
  then show ?thesis
    by (simp add: maximumDueTick_def Let_def ServerTicksPerSecond_def NanosecondsPerSecond_def)
qed

section \<open>The emission loop\<close>

lemma emitTicks_total: "unat t + n < 2 ^ 64 \<Longrightarrow> \<exists>ts f. emitTicks n t = Some (ts, f)"
proof (induction n arbitrary: t)
  case (Suc n)
  then have "t \<noteq> u64_max" by auto
  then obtain t' where t': "next_value t = Some t'" by (metis next_value_None_iff not_None_eq)
  with Suc.prems have "unat t' + n < 2 ^ 64" by (simp add: next_value_unat)
  with Suc.IH obtain ts f where "emitTicks n t' = Some (ts, f)" by blast
  with t' show ?case by simp
qed simp

lemma emitTicks_ticks: "emitTicks n t = Some (ts, f) \<Longrightarrow> map unat ts = [unat t ..< unat t + n] \<and> unat f = unat t + n"
proof (induction n arbitrary: t ts)
  case (Suc n)
  from Suc.prems obtain t' ts' where t': "next_value t = Some t'" and "emitTicks n t' = Some (ts', f)"
    and ts: "ts = t # ts'" by (auto split: option.splits)
  with Suc.IH have "map unat ts' = [unat t' ..< unat t' + n]" and "unat f = unat t' + n" by auto
  with ts next_value_unat [OF t'] show ?case by (simp add: upt_rec)
qed simp

section \<open>What a pump does\<close>

definition sched_wf :: "fixed_tick_scheduler \<Rightarrow> bool" where
  "sched_wf s \<longleftrightarrow> mEpochTick s \<le> mNextTick s \<and> mEpoch s \<le> mLastObservation s"

text \<open>The number of the latest tick whose deadline is not after \<open>now\<close>.\<close>

definition due_tick :: "fixed_tick_scheduler \<Rightarrow> MonotonicInstant \<Rightarrow> nat" where
  "due_tick s now = unat (mEpochTick s) + due_nat (unat now - unat (mEpoch s))"

definition pump_exact :: "fixed_tick_scheduler \<Rightarrow> MonotonicInstant \<Rightarrow> fixed_tick_scheduler \<Rightarrow>
    scheduler_pump_result \<Rightarrow> bool" where
  "pump_exact s now s' r \<longleftrightarrow>
     mLastObservation s \<le> now \<and>
     mEpoch s' = mEpoch s \<and> mEpochTick s' = mEpochTick s \<and> mLastObservation s' = now \<and>
     unat (pump_dueTickLag r) = Suc (due_tick s now) - unat (mNextTick s) \<and>
     unat (mNextTick s') = unat (mNextTick s) + min 4 (unat (pump_dueTickLag r)) \<and>
     map unat (pump_ticks r) = [unat (mNextTick s) ..< unat (mNextTick s')]"

lemma sched_wf_create: "sched_wf (createScheduler epoch nextTick tickEpoch)"
  by (simp add: sched_wf_def createScheduler_def initial_def)

lemma unat_relative: "sched_wf s \<Longrightarrow> unat (mNextTick s - mEpochTick s) = unat (mNextTick s) - unat (mEpochTick s)"
  by (simp add: sched_wf_def unat_minus_le)

lemma not_due_lag:
  assumes wf: "sched_wf s" and le: "mLastObservation s \<le> now"
    and dl: "deadlineNanoseconds (mEpoch s) (mNextTick s - mEpochTick s) = Some d" and early: "now < d"
  shows "due_tick s now < unat (mNextTick s)"
proof -
  have "unat d = unat (mEpoch s) + offset_nat (unat (mNextTick s) - unat (mEpochTick s))"
    using deadline_exact [of "mEpoch s" "mNextTick s - mEpochTick s"] dl by (simp add: unat_relative [OF wf])
  moreover have "unat (mEpoch s) \<le> unat now"
    using wf le by (simp add: sched_wf_def word_le_nat_alt)
  ultimately have "\<not> offset_nat (unat (mNextTick s) - unat (mEpochTick s)) \<le> unat now - unat (mEpoch s)"
    using early by (simp add: word_less_nat_alt)
  then show ?thesis by (simp add: offset_due_galois due_tick_def)
qed

lemma due_lag:
  assumes wf: "sched_wf s" and le: "mLastObservation s \<le> now"
    and dl: "deadlineNanoseconds (mEpoch s) (mNextTick s - mEpochTick s) = Some d" and due: "d \<le> now"
  shows "unat (mNextTick s) \<le> due_tick s now"
proof -
  have "unat d = unat (mEpoch s) + offset_nat (unat (mNextTick s) - unat (mEpochTick s))"
    using deadline_exact [of "mEpoch s" "mNextTick s - mEpochTick s"] dl by (simp add: unat_relative [OF wf])
  then have "offset_nat (unat (mNextTick s) - unat (mEpochTick s)) \<le> unat now - unat (mEpoch s)"
    using due by (simp add: word_le_nat_alt)
  then have "unat (mNextTick s) - unat (mEpochTick s) \<le> due_nat (unat now - unat (mEpoch s))"
    by (simp add: offset_due_galois)
  moreover have "unat (mEpochTick s) \<le> unat (mNextTick s)"
    using wf by (simp add: sched_wf_def word_le_nat_alt)
  ultimately show ?thesis by (simp add: due_tick_def)
qed

text \<open>The emitting branch: nothing wraps, the loop never runs out of ticks.\<close>

lemma emitting_branch:
  assumes wf: "sched_wf s" and le: "mLastObservation s \<le> now"
    and due: "unat (mNextTick s) \<le> due_tick s now"
    and room: "\<not> maximumDueTick (now - mEpoch s) \<ge> u64_max - mEpochTick s"
  defines "lag \<equiv> mEpochTick s + maximumDueTick (now - mEpoch s) - mNextTick s + 1"
  shows "unat lag = Suc (due_tick s now) - unat (mNextTick s)"
    and "\<exists>ts f. emitTicks (unat (min lag MaximumCatchUpTicks)) (mNextTick s) = Some (ts, f)"
proof -
  have "mEpoch s \<le> now" using wf le unfolding sched_wf_def by (meson order_trans)
  then have m: "unat (maximumDueTick (now - mEpoch s)) = due_nat (unat now - unat (mEpoch s))"
    by (simp add: maximumDueTick_exact unat_minus_le)
  have small: "due_tick s now < 2 ^ 64 - 1"
    using room by (simp add: word_le_nat_alt unat_u64_max_minus m due_tick_def)
  then have latest: "unat (mEpochTick s + maximumDueTick (now - mEpoch s)) = due_tick s now"
    by (subst unat_plus_no_wrap) (simp_all add: m due_tick_def)
  then have "mNextTick s \<le> mEpochTick s + maximumDueTick (now - mEpoch s)"
    using due by (simp add: word_le_nat_alt)
  then have diff: "unat (mEpochTick s + maximumDueTick (now - mEpoch s) - mNextTick s)
      = due_tick s now - unat (mNextTick s)"
    by (simp add: unat_minus_le latest)
  show lag: "unat lag = Suc (due_tick s now) - unat (mNextTick s)"
    unfolding lag_def using small due by (subst unat_plus_no_wrap) (simp_all add: diff)
  have "unat (mNextTick s) + unat (min lag MaximumCatchUpTicks) < 2 ^ 64"
    using small due lag by (simp add: min_def word_le_nat_alt unat_numerals) arith
  then show "\<exists>ts f. emitTicks (unat (min lag MaximumCatchUpTicks)) (mNextTick s) = Some (ts, f)"
    by (rule emitTicks_total)
qed

lemma unat_min: "unat (min a b) = min (unat a) (unat (b :: 'a::len word))"
  by (simp add: min_def word_le_nat_alt)

lemma pump_total:
  assumes wf: "sched_wf s"
  shows "\<exists>s' r. pump s now = Some (s', r) \<and>
    (if pump_error r = SchedulerNone then pump_exact s now s' r
     else s' = s \<and> r = emptyPump (pump_error r))"
proof (cases "now < mLastObservation s \<or> mNextTick s = u64_max")
  case True
  then show ?thesis by (auto simp: pump_def emptyPump_def)
next
  case False
  then have le: "mLastObservation s \<le> now" and nmax: "mNextTick s \<noteq> u64_max" by auto
  have rel: "fromValue CounterFromZero (mNextTick s - mEpochTick s) = Some (mNextTick s - mEpochTick s)"
    by (simp add: fromValue_def)
  show ?thesis
  proof (cases "deadlineNanoseconds (mEpoch s) (mNextTick s - mEpochTick s)")
    case None
    with False rel show ?thesis by (auto simp: pump_def emptyPump_def)
  next
    case (Some d)
    have epoch: "mEpoch s \<le> now" using wf le unfolding sched_wf_def by (meson order_trans)
    show ?thesis
    proof (cases "now < d")
      case True
      from not_due_lag [OF wf le Some True] have "Suc (due_tick s now) - unat (mNextTick s) = 0" by simp
      with True Some False rel le show ?thesis by (auto simp: pump_def emptyPump_def pump_exact_def)
    next
      case late: False
      then have due: "unat (mNextTick s) \<le> due_tick s now" using due_lag [OF wf le Some] by simp
      show ?thesis
      proof (cases "maximumDueTick (now - mEpoch s) \<ge> u64_max - mEpochTick s")
        case True
        with late Some False rel epoch show ?thesis by (auto simp: pump_def emptyPump_def Let_def)
      next
        case room: False
        define lag where "lag = mEpochTick s + maximumDueTick (now - mEpoch s) - mNextTick s + 1"
        note br = emitting_branch [OF wf le due room, folded lag_def]
        obtain ts f where em: "emitTicks (unat (min lag MaximumCatchUpTicks)) (mNextTick s) = Some (ts, f)"
          using br(2) by blast
        have "pump s now = Some (s\<lparr>mNextTick := f, mLastObservation := now\<rparr>,
            \<lparr>pump_error = SchedulerNone, pump_ticks = ts, pump_dueTickLag = lag\<rparr>)"
          using False rel Some late leD [OF epoch] room em by (simp add: pump_def Let_def lag_def)
        moreover have "pump_exact s now (s\<lparr>mNextTick := f, mLastObservation := now\<rparr>)
            \<lparr>pump_error = SchedulerNone, pump_ticks = ts, pump_dueTickLag = lag\<rparr>"
          using emitTicks_ticks [OF em] le br(1) by (simp add: pump_exact_def unat_min unat_numerals min.commute)
        ultimately show ?thesis by simp
      qed
    qed
  qed
qed

lemma pump_exactI:
  "sched_wf s \<Longrightarrow> pump s now = Some (s', r) \<Longrightarrow> pump_error r = SchedulerNone \<Longrightarrow> pump_exact s now s' r"
  using pump_total [of s now] by auto

lemma pump_error_frame:
  "sched_wf s \<Longrightarrow> pump s now = Some (s', r) \<Longrightarrow> pump_error r \<noteq> SchedulerNone \<Longrightarrow>
     s' = s \<and> pump_ticks r = []"
  using pump_total [of s now] by (auto simp: emptyPump_def) (metis scheduler_pump_result.select_convs(2))

lemma pump_exact_wf: "sched_wf s \<Longrightarrow> pump_exact s now s' r \<Longrightarrow> sched_wf s'"
  by (auto simp: sched_wf_def pump_exact_def word_le_nat_alt)

lemma pump_wf: "sched_wf s \<Longrightarrow> pump s now = Some (s', r) \<Longrightarrow> sched_wf s'"
  by (metis pump_exactI pump_error_frame pump_exact_wf)

text \<open>The scheduler as a transition system driven by clock observations.\<close>

definition pump_step :: "fixed_tick_scheduler \<Rightarrow> MonotonicInstant \<Rightarrow> fixed_tick_scheduler" where
  "pump_step s now = (case pump s now of Some (s', r) \<Rightarrow> s' | None \<Rightarrow> s)"

interpretation pumps: step_system pump_step sched_wf
  by unfold_locales (auto simp: pump_step_def pump_wf split: option.splits)

lemma pump_consecutive:
  "sched_wf s \<Longrightarrow> pump s now = Some (s', r) \<Longrightarrow>
     unat (mNextTick s) \<le> unat (mNextTick s') \<and> map unat (pump_ticks r) = [unat (mNextTick s) ..< unat (mNextTick s')]"
  by (cases "pump_error r = SchedulerNone") (auto dest: pump_exactI pump_error_frame simp: pump_exact_def)

section \<open>Runs\<close>

text \<open>A sequence of pumps at the given observations: the final state and all emitted ticks.\<close>

fun pump_all :: "fixed_tick_scheduler \<Rightarrow> MonotonicInstant list \<Rightarrow> (fixed_tick_scheduler \<times> ServerTick list) option" where
  "pump_all s [] = Some (s, [])"
| "pump_all s (now # rest) =
     (case pump s now of
        None \<Rightarrow> None
      | Some (s', r) \<Rightarrow>
          (case pump_all s' rest of None \<Rightarrow> None | Some (s'', ts) \<Rightarrow> Some (s'', pump_ticks r @ ts)))"

lemma pump_all_consecutive:
  "sched_wf s \<Longrightarrow> \<exists>s' ts. pump_all s obs = Some (s', ts) \<and> sched_wf s' \<and>
     unat (mNextTick s) \<le> unat (mNextTick s') \<and> map unat ts = [unat (mNextTick s) ..< unat (mNextTick s')]"
proof (induction obs arbitrary: s)
  case (Cons now obs)
  obtain s1 r where p: "pump s now = Some (s1, r)" using pump_total [OF Cons.prems] by blast
  note step = pump_consecutive [OF Cons.prems p]
  obtain s' ts where rest: "pump_all s1 obs = Some (s', ts)" "sched_wf s'"
    and le: "unat (mNextTick s1) \<le> unat (mNextTick s')"
    and ts: "map unat ts = [unat (mNextTick s1) ..< unat (mNextTick s')]"
    using Cons.IH [OF pump_wf [OF Cons.prems p]] by blast
  have "map unat (pump_ticks r @ ts) = [unat (mNextTick s) ..< unat (mNextTick s')]"
    using step le ts by (simp add: upt_add_eq_append [symmetric] le_add_diff_inverse) (metis le_Suc_ex upt_add_eq_append)
  with p rest step le show ?case by auto
qed simp

lemma pump_exact_drained:
  "pump_exact s now s' r \<Longrightarrow> due_tick s' now = due_tick s now"
  by (simp add: pump_exact_def due_tick_def)

text \<open>The instant is inside the range the scheduler can represent: the tick after the latest due one exists
  and its deadline does not overflow.\<close>

definition in_range :: "fixed_tick_scheduler \<Rightarrow> MonotonicInstant \<Rightarrow> bool" where
  "in_range s now \<longleftrightarrow> mLastObservation s \<le> now \<and> due_tick s now < 2 ^ 64 - 2 \<and>
     unat (mEpoch s) + offset_nat (Suc (due_tick s now) - unat (mEpochTick s)) < 2 ^ 64"

lemma pump_no_error:
  assumes wf: "sched_wf s" and range: "in_range s now" and le: "unat (mNextTick s) \<le> Suc (due_tick s now)"
    and p: "pump s now = Some (s', r)"
  shows "pump_error r = SchedulerNone"
proof -
  have obs: "\<not> now < mLastObservation s" and nmax: "mNextTick s \<noteq> u64_max"
    using range le by (auto simp: in_range_def)
  have "offset_nat (unat (mNextTick s) - unat (mEpochTick s))
      \<le> offset_nat (Suc (due_tick s now) - unat (mEpochTick s))"
    using le by (intro offset_nat_mono diff_le_mono)
  then have "deadlineNanoseconds (mEpoch s) (mNextTick s - mEpochTick s) \<noteq> None"
    using range deadline_exact [of "mEpoch s" "mNextTick s - mEpochTick s"]
    by (auto simp: in_range_def unat_relative [OF wf] split: option.splits)
  moreover have "mEpoch s \<le> now" using wf obs by (auto simp: sched_wf_def)
  then have "\<not> maximumDueTick (now - mEpoch s) \<ge> u64_max - mEpochTick s"
    using range
    by (simp add: in_range_def word_le_nat_alt unat_u64_max_minus maximumDueTick_exact unat_minus_le due_tick_def)
      linarith
  ultimately show ?thesis
    using p obs nmax
    by (auto simp: pump_def Let_def fromValue_def emptyPump_def split: option.splits if_splits)
qed

text \<open>Pumping repeatedly at one instant works off the backlog four ticks at a time.\<close>

lemma pump_repeat_backlog:
  assumes "sched_wf s" and "in_range s now" and "unat (mNextTick s) \<le> Suc (due_tick s now)"
    and "Suc (due_tick s now) - unat (mNextTick s) \<le> 4 * n"
  shows "\<exists>s' ts. pump_all s (replicate n now) = Some (s', ts) \<and> unat (mNextTick s') = Suc (due_tick s now)"
  using assms
proof (induction n arbitrary: s)
  case 0
  then show ?case by simp
next
  case (Suc n)
  obtain s1 r where p: "pump s now = Some (s1, r)" using pump_total [OF Suc.prems(1)] by blast
  have wf1: "sched_wf s1" using pump_wf [OF Suc.prems(1) p] .
  have ex: "pump_exact s now s1 r"
    using pump_exactI [OF Suc.prems(1) p pump_no_error [OF Suc.prems(1-3) p]] .
  then have due: "due_tick s1 now = due_tick s now" by (rule pump_exact_drained)
  have range1: "in_range s1 now" using Suc.prems(2) ex due by (simp add: in_range_def pump_exact_def)
  have next1: "unat (mNextTick s1) = unat (mNextTick s) + min 4 (Suc (due_tick s now) - unat (mNextTick s))"
    using ex by (simp add: pump_exact_def)
  with Suc.prems(3,4) have "unat (mNextTick s1) \<le> Suc (due_tick s1 now)"
    and "Suc (due_tick s1 now) - unat (mNextTick s1) \<le> 4 * n"
    unfolding due by (auto simp: min_def)
  from Suc.IH [OF wf1 range1 this] p due show ?case by auto
qed

section \<open>Properties\<close>

text \<open>
  C38. A pump of a well-formed scheduler always returns. Either it reports an error and changes
  nothing, or it reports the exact number of ticks that are due and not yet emitted, emits
  the next consecutive ticks (all of them, but at most four) and moves the next tick past
  them, with no wrap-around anywhere in the 64-bit computation.
\<close>

theorem pump_emits_due_ticks:
  assumes "sched_wf s"
  shows "\<exists>s' r. pump s now = Some (s', r) \<and> sched_wf s' \<and>
    (if pump_error r = SchedulerNone
     then pump_exact s now s' r \<and>
          (\<forall>t \<in> set (pump_ticks r). unat (mEpoch s) + offset_nat (unat t - unat (mEpochTick s)) \<le> unat now)
     else s' = s \<and> pump_ticks r = [])"
proof -
  obtain s' r where p: "pump s now = Some (s', r)" using pump_total [OF assms] by blast
  have "unat (mEpoch s) + offset_nat (unat t - unat (mEpochTick s)) \<le> unat now"
    if ex: "pump_exact s now s' r" and t: "t \<in> set (pump_ticks r)" for t
  proof -
    have "unat t \<in> set (map unat (pump_ticks r))" using t by (simp only: set_map) (rule imageI)
    moreover have "map unat (pump_ticks r) = [unat (mNextTick s) ..< unat (mNextTick s')]"
      using ex by (simp only: pump_exact_def)
    ultimately have "unat t < unat (mNextTick s')" "unat (mNextTick s) \<le> unat t"
      by (simp_all only: atLeastLessThan_upt [symmetric] atLeastLessThan_iff)
    then have "unat t \<le> due_tick s now" using ex by (auto simp: pump_exact_def min_def split: if_splits)
    then have "offset_nat (unat t - unat (mEpochTick s)) \<le> unat now - unat (mEpoch s)"
      by (simp add: offset_due_galois due_tick_def)
    moreover have "unat (mEpoch s) \<le> unat now"
      using assms ex by (auto simp: pump_exact_def sched_wf_def word_le_nat_alt)
    ultimately show ?thesis by simp
  qed
  then show ?thesis
    using p pump_wf [OF assms p] pump_exactI [OF assms p] pump_error_frame [OF assms p] by auto
qed

theorem pump_emits_due_ticks_witness:
  "sched_wf (createScheduler 1000 0 EpochZero) \<and>
   (\<exists>s' r. pump (createScheduler 1000 0 EpochZero) 500001000 = Some (s', r) \<and> sched_wf s')"
  using pump_emits_due_ticks [OF sched_wf_create, of 1000 0 EpochZero 500001000] sched_wf_create by blast

text \<open>
  Over any sequence of clock observations, in any order, the scheduler never terminates
  the process and the ticks it emits are consecutive: no tick is skipped, repeated or
  reordered, whatever errors occur on the way.
\<close>

theorem scheduler_runs_consecutive:
  "\<exists>s' ts. pump_all (createScheduler epoch nextTick tickEpoch) obs = Some (s', ts) \<and>
     unat nextTick \<le> unat (mNextTick s') \<and> map unat ts = [unat nextTick ..< unat (mNextTick s')]"
  using pump_all_consecutive [OF sched_wf_create, of epoch nextTick tickEpoch obs]
  by (auto simp: createScheduler_def)

text \<open>
  The backlog is worked off: inside the representable range, \<open>n\<close> pumps at one instant
  emit every due tick as soon as \<open>4 * n\<close> covers the lag.
\<close>

theorem scheduler_catches_up:
  assumes "sched_wf s" and "in_range s now" and "unat (mNextTick s) \<le> Suc (due_tick s now)"
    and "Suc (due_tick s now) - unat (mNextTick s) \<le> 4 * n"
  shows "\<exists>s' ts. pump_all s (replicate n now) = Some (s', ts) \<and> unat (mNextTick s') = Suc (due_tick s now)"
  using assms by (rule pump_repeat_backlog)

theorem scheduler_catches_up_witness:
  "\<exists>s' ts. pump_all (createScheduler 0 0 EpochZero) (replicate 4 500000000) = Some (s', ts) \<and>
     unat (mNextTick s') = 16"
proof -
  let ?s = "createScheduler 0 0 EpochZero"
  have d: "due_tick ?s 500000000 = 15"
    by (simp add: due_tick_def createScheduler_def initial_def due_nat_def)
  have "in_range ?s 500000000"
    unfolding in_range_def d by (simp add: createScheduler_def initial_def offset_nat_def)
  then show ?thesis
    using scheduler_catches_up [OF sched_wf_create, of 0 0 EpochZero 500000000 4] d
    by (simp add: createScheduler_def)
qed

end
