(* ===== verification/Command_Intake.thy ===== *)
theory Command_Intake
  imports Tick_Scheduler
begin

text \<open>
  The command intake (\<^verbatim>\<open>server_core/server_command_intake.cpp\<close>): sessions submit commands to a
  bounded queue, and every pump of the tick scheduler moves the oldest ones into the batches of
  the due ticks, stamped with consecutive ingress ordinals. The payload of a command is not looked
  at here and is a type parameter. The reports to the observability sinks are recorded in order.
\<close>

section \<open>Model\<close>

definition MaximumPendingServerCommands :: nat where
  "MaximumPendingServerCommands = 4096"

definition MaximumPendingServerCommandsPerSessionGeneration :: nat where
  "MaximumPendingServerCommandsPerSessionGeneration = 128"

definition MaximumServerCommandsPerTick :: nat where
  "MaximumServerCommandsPerTick = 1024"

record EntityPrecondition =
  pre_entity :: EntityId
  pre_expectedRevision :: u64
  pre_expectedAuthorityEpoch :: u64

record 'p ServerCommandProposal =
  pr_session :: SessionId
  pr_generation :: SessionGeneration
  pr_sequence :: u64
  pr_commandId :: u64
  pr_observedRevision :: u64
  pr_precondition :: EntityPrecondition
  pr_payload :: 'p

datatype CommandSubmissionResult =
  SubmissionAccepted | SubmissionPerSessionPendingLimit | SubmissionGlobalPendingLimit | SubmissionCoordinatorTerminated

datatype ServerCommandPumpError =
  PumpNone | PumpClockMovedBackwards | PumpDeadlineOverflow | PumpTickExhausted | PumpIngressOrdinalExhausted

datatype CommandIntakeObservationOutcome =
  ObservedAccepted | ObservedPerSessionPendingLimit | ObservedGlobalPendingLimit | ObservedCoordinatorTerminated
  | ObservedDeferredByTickBudget | ObservedClockMovedBackwards | ObservedDeadlineOverflow | ObservedTickExhausted
  | ObservedIngressOrdinalExhausted

datatype EventSeverity = Debug | Info | Warning | Error

datatype intake_report =
  OutcomeCount CommandIntakeObservationOutcome nat
  | PendingGauge nat
  | TickLagSample u64
  | IntakeEvent CommandIntakeObservationOutcome EventSeverity nat

record WriterAdmissionStamp =
  st_tick :: ServerTick
  st_ordinal :: u64

record 'p StampedServerCommand =
  sc_stamp :: WriterAdmissionStamp
  sc_proposal :: "'p ServerCommandProposal"

record 'p ServerTickCommandBatch =
  bat_tick :: ServerTick
  bat_commands :: "'p StampedServerCommand list"

record 'p ServerCommandPumpResult =
  res_error :: ServerCommandPumpError
  res_dueTickLag :: u64
  res_batches :: "'p ServerTickCommandBatch list"

record 'p ServerCommandIntakeCoordinator =
  ci_scheduler :: fixed_tick_scheduler
  ci_pending :: "'p ServerCommandProposal list"
  ci_nextOrdinal :: "u64 option"
  ci_terminalError :: ServerCommandPumpError
  ci_reports :: "intake_report list"

fun pumpError :: "scheduler_error \<Rightarrow> ServerCommandPumpError" where
  "pumpError SchedulerNone = PumpNone"
| "pumpError ClockMovedBackwards = PumpClockMovedBackwards"
| "pumpError SchedulerDeadlineOverflow = PumpDeadlineOverflow"
| "pumpError TickExhausted = PumpTickExhausted"

fun observationOutcome :: "scheduler_error \<Rightarrow> CommandIntakeObservationOutcome" where
  "observationOutcome ClockMovedBackwards = ObservedClockMovedBackwards"
| "observationOutcome SchedulerDeadlineOverflow = ObservedDeadlineOverflow"
| "observationOutcome TickExhausted = ObservedTickExhausted"
| "observationOutcome SchedulerNone = ObservedCoordinatorTerminated"

definition createCoordinator ::
  "MonotonicInstant \<Rightarrow> ServerTick \<Rightarrow> u64 \<Rightarrow> tick_epoch \<Rightarrow> 'p ServerCommandIntakeCoordinator" where
  "createCoordinator epoch nextTick nextIngressOrdinal tickEpoch =
     \<lparr>ci_scheduler = createScheduler epoch nextTick tickEpoch, ci_pending = [], ci_nextOrdinal = Some nextIngressOrdinal,
      ci_terminalError = PumpNone, ci_reports = []\<rparr>"

definition pendingFor :: "'p ServerCommandIntakeCoordinator \<Rightarrow> SessionId \<Rightarrow> SessionGeneration \<Rightarrow> nat" where
  "pendingFor c session generation = length (filter (\<lambda>p. pr_session p = session \<and> pr_generation p = generation) (ci_pending c))"

definition report :: "intake_report list \<Rightarrow> 'p ServerCommandIntakeCoordinator \<Rightarrow> 'p ServerCommandIntakeCoordinator" where
  "report rs c = c\<lparr>ci_reports := ci_reports c @ rs\<rparr>"

definition submit ::
  "'p ServerCommandIntakeCoordinator \<Rightarrow> 'p ServerCommandProposal \<Rightarrow> 'p ServerCommandIntakeCoordinator \<times> CommandSubmissionResult" where
  "submit c proposal =
     (if ci_terminalError c \<noteq> PumpNone \<or> ci_nextOrdinal c = None
      then (let c1 = (if ci_terminalError c = PumpNone
                      then report [OutcomeCount ObservedIngressOrdinalExhausted 1,
                                   IntakeEvent ObservedIngressOrdinalExhausted Error (length (ci_pending c))]
                             (c\<lparr>ci_terminalError := PumpIngressOrdinalExhausted\<rparr>)
                      else c)
            in (report [OutcomeCount ObservedCoordinatorTerminated 1] c1, SubmissionCoordinatorTerminated))
      else if pendingFor c (pr_session proposal) (pr_generation proposal) \<ge> MaximumPendingServerCommandsPerSessionGeneration
      then (report [OutcomeCount ObservedPerSessionPendingLimit 1,
                    IntakeEvent ObservedPerSessionPendingLimit Warning (length (ci_pending c))] c, SubmissionPerSessionPendingLimit)
      else if length (ci_pending c) \<ge> MaximumPendingServerCommands
      then (report [OutcomeCount ObservedGlobalPendingLimit 1,
                    IntakeEvent ObservedGlobalPendingLimit Warning (length (ci_pending c))] c, SubmissionGlobalPendingLimit)
      else (let c1 = c\<lparr>ci_pending := ci_pending c @ [proposal]\<rparr>
            in (report [OutcomeCount ObservedAccepted 1, PendingGauge (length (ci_pending c1))] c1, SubmissionAccepted)))"

definition terminate ::
  "'p ServerCommandIntakeCoordinator \<Rightarrow> ServerCommandPumpError \<Rightarrow> CommandIntakeObservationOutcome \<Rightarrow> u64
     \<Rightarrow> 'p ServerCommandIntakeCoordinator \<times> 'p ServerCommandPumpResult" where
  "terminate c error outcome dueTickLag =
     (report [OutcomeCount outcome 1, IntakeEvent outcome Error (length (ci_pending c))] (c\<lparr>ci_terminalError := error\<rparr>),
      \<lparr>res_error = error, res_dueTickLag = dueTickLag, res_batches = []\<rparr>)"

text \<open>
  The two loops of the pump. The inner one stamps the commands of a batch; it reads the next
  ordinal through an optional, which is undefined when there is none (\<open>None\<close> here).
\<close>

fun stampCommands ::
  "ServerTick \<Rightarrow> 'p ServerCommandProposal list \<Rightarrow> u64 option \<Rightarrow> ('p StampedServerCommand list \<times> u64 option) option" where
  "stampCommands tick [] nextOrdinal = Some ([], nextOrdinal)"
| "stampCommands tick (p # ps) nextOrdinal =
     (case nextOrdinal of
        None \<Rightarrow> None
      | Some ordinal \<Rightarrow>
        (case stampCommands tick ps (next_value ordinal) of
           None \<Rightarrow> None
         | Some (cs, final) \<Rightarrow> Some (\<lparr>sc_stamp = \<lparr>st_tick = tick, st_ordinal = ordinal\<rparr>, sc_proposal = p\<rparr> # cs, final)))"

fun fillBatches ::
  "ServerTick list \<Rightarrow> 'p ServerCommandProposal list \<Rightarrow> u64 option
     \<Rightarrow> ('p ServerTickCommandBatch list \<times> u64 option \<times> intake_report list) option" where
  "fillBatches [] admitted nextOrdinal = Some ([], nextOrdinal, [])"
| "fillBatches (tick # ticks) admitted nextOrdinal =
     (let batch = take MaximumServerCommandsPerTick admitted
      in case stampCommands tick batch nextOrdinal of
           None \<Rightarrow> None
         | Some (commands, nextOrdinal') \<Rightarrow>
           (case fillBatches ticks (drop MaximumServerCommandsPerTick admitted) nextOrdinal' of
              None \<Rightarrow> None
            | Some (batches, final, reports) \<Rightarrow>
              Some (\<lparr>bat_tick = tick, bat_commands = commands\<rparr> # batches, final,
                    (if length admitted > MaximumServerCommandsPerTick
                     then [OutcomeCount ObservedDeferredByTickBudget (length admitted - MaximumServerCommandsPerTick)] else [])
                    @ reports)))"

definition admittedCount :: "'p ServerCommandIntakeCoordinator \<Rightarrow> ServerTick list \<Rightarrow> nat" where
  "admittedCount c ticks = min (length (ci_pending c)) (length ticks * MaximumServerCommandsPerTick)"

definition ordinalsExhausted :: "'p ServerCommandIntakeCoordinator \<Rightarrow> nat \<Rightarrow> bool" where
  "ordinalsExhausted c admitted \<longleftrightarrow>
     admitted \<noteq> 0 \<and> (case ci_nextOrdinal c of None \<Rightarrow> True | Some n \<Rightarrow> of_nat admitted > u64_max - n + 1)"

definition pumpIntake ::
  "'p ServerCommandIntakeCoordinator \<Rightarrow> MonotonicInstant \<Rightarrow> ('p ServerCommandIntakeCoordinator \<times> 'p ServerCommandPumpResult) option" where
  "pumpIntake c0 observation =
     (if ci_terminalError c0 \<noteq> PumpNone
      then Some (c0, \<lparr>res_error = ci_terminalError c0, res_dueTickLag = 0, res_batches = []\<rparr>)
      else case pump (ci_scheduler c0) observation of
        None \<Rightarrow> None
      | Some (scheduler, scheduled) \<Rightarrow>
        (let c = report [TickLagSample (pump_dueTickLag scheduled)] (c0\<lparr>ci_scheduler := scheduler\<rparr>)
         in if pump_error scheduled \<noteq> SchedulerNone
            then Some (terminate c (pumpError (pump_error scheduled)) (observationOutcome (pump_error scheduled)) (pump_dueTickLag scheduled))
            else if pump_ticks scheduled = []
            then Some (c, \<lparr>res_error = PumpNone, res_dueTickLag = pump_dueTickLag scheduled, res_batches = []\<rparr>)
            else let admitted = admittedCount c (pump_ticks scheduled)
              in if ordinalsExhausted c admitted
                 then Some (terminate c PumpIngressOrdinalExhausted ObservedIngressOrdinalExhausted (pump_dueTickLag scheduled))
                 else (case fillBatches (pump_ticks scheduled) (take admitted (ci_pending c)) (ci_nextOrdinal c) of
                         None \<Rightarrow> None
                       | Some (batches, nextOrdinal, reports) \<Rightarrow>
                         (let pending = drop admitted (ci_pending c)
                          in Some (report (reports @ [PendingGauge (length pending)])
                                     (c\<lparr>ci_nextOrdinal := nextOrdinal, ci_pending := pending\<rparr>),
                                   \<lparr>res_error = PumpNone, res_dueTickLag = pump_dueTickLag scheduled, res_batches = batches\<rparr>)))))"

section \<open>Stamping\<close>

text \<open>The next ordinal as a number: all ordinals are used up at \<open>2 ^ 64\<close>.\<close>

definition ord_nat :: "u64 option \<Rightarrow> nat" where
  "ord_nat n = (case n of None \<Rightarrow> 2 ^ 64 | Some w \<Rightarrow> unat w)"

abbreviation ordinal_of :: "'p StampedServerCommand \<Rightarrow> nat" where
  "ordinal_of c \<equiv> unat (st_ordinal (sc_stamp c))"

abbreviation batch_list :: "'p ServerTickCommandBatch list \<Rightarrow> 'p StampedServerCommand list" where
  "batch_list bs \<equiv> concat (map bat_commands bs)"

lemma ord_nat_next: "ord_nat (next_value w) = Suc (unat w)"
proof (cases "next_value w")
  case None
  then have "w = u64_max" by (simp add: next_value_None_iff)
  then show ?thesis unfolding None by (simp add: ord_nat_def)
qed (simp add: ord_nat_def next_value_unat)

lemma stampCommands_spec:
  "ord_nat n + length ps \<le> 2 ^ 64 \<Longrightarrow>
     \<exists>cs final. stampCommands tick ps n = Some (cs, final) \<and> ord_nat final = ord_nat n + length ps
       \<and> map sc_proposal cs = ps \<and> map ordinal_of cs = [ord_nat n ..< ord_nat n + length ps]
       \<and> (\<forall>c \<in> set cs. st_tick (sc_stamp c) = tick)"
proof (induction ps arbitrary: n)
  case (Cons p ps)
  then obtain w where w: "n = Some w" by (cases n) (auto simp: ord_nat_def)
  have "ord_nat (next_value w) + length ps \<le> 2 ^ 64" using Cons.prems by (simp add: w ord_nat_next) (simp add: ord_nat_def)
  from Cons.IH [OF this] obtain cs final where
    "stampCommands tick ps (next_value w) = Some (cs, final)" "ord_nat final = Suc (unat w) + length ps"
    "map sc_proposal cs = ps" "map ordinal_of cs = [Suc (unat w) ..< Suc (unat w) + length ps]"
    "\<forall>c \<in> set cs. st_tick (sc_stamp c) = tick" by (auto simp: ord_nat_next)
  then show ?case by (simp add: w del: upt_Suc) (simp add: ord_nat_def upt_conv_Cons del: upt_Suc)
qed simp

lemma fillBatches_spec:
  "ord_nat n + length ps \<le> 2 ^ 64 \<Longrightarrow> length ps \<le> length ticks * MaximumServerCommandsPerTick \<Longrightarrow>
     \<exists>bs final reports. fillBatches ticks ps n = Some (bs, final, reports) \<and> ord_nat final = ord_nat n + length ps
       \<and> map bat_tick bs = ticks \<and> map sc_proposal (batch_list bs) = ps
       \<and> map ordinal_of (batch_list bs) = [ord_nat n ..< ord_nat n + length ps]
       \<and> (\<forall>b \<in> set bs. length (bat_commands b) \<le> MaximumServerCommandsPerTick \<and> (\<forall>c \<in> set (bat_commands b). st_tick (sc_stamp c) = bat_tick b))"
proof (induction ticks arbitrary: ps n)
  case (Cons tick ticks)
  let ?k = "MaximumServerCommandsPerTick"
  have "ord_nat n + length (take ?k ps) \<le> 2 ^ 64" using Cons.prems(1) by simp
  from stampCommands_spec [OF this, of tick] obtain cs n' where stamped:
    "stampCommands tick (take ?k ps) n = Some (cs, n')" and n': "ord_nat n' = ord_nat n + length (take ?k ps)"
    and cs: "map sc_proposal cs = take ?k ps" "map ordinal_of cs = [ord_nat n ..< ord_nat n']"
      "\<forall>c \<in> set cs. st_tick (sc_stamp c) = tick" by auto
  have "ord_nat n' + length (drop ?k ps) \<le> 2 ^ 64" "length (drop ?k ps) \<le> length ticks * ?k"
    using Cons.prems by (auto simp: n' min_def)
  from Cons.IH [OF this] obtain bs final reports where filled:
    "fillBatches ticks (drop ?k ps) n' = Some (bs, final, reports)" and final: "ord_nat final = ord_nat n' + length (drop ?k ps)"
    and bs: "map bat_tick bs = ticks" "map sc_proposal (batch_list bs) = drop ?k ps"
      "map ordinal_of (batch_list bs) = [ord_nat n' ..< ord_nat final]"
      "\<forall>b \<in> set bs. length (bat_commands b) \<le> ?k \<and> (\<forall>c \<in> set (bat_commands b). st_tick (sc_stamp c) = bat_tick b)" by auto
  have len: "ord_nat final = ord_nat n + length ps" using n' final by simp
  have "[ord_nat n ..< ord_nat n'] @ [ord_nat n' ..< ord_nat final] = [ord_nat n ..< ord_nat final]"
    using upt_add_eq_append [of "ord_nat n" "ord_nat n'" "length (drop ?k ps)"] n' final by simp
  moreover have "length cs \<le> ?k" using arg_cong [OF cs(1), of length] by simp
  ultimately show ?case using stamped filled cs bs len by (simp add: Let_def)
qed simp

lemma ordinalsExhausted_iff:
  assumes "ci_nextOrdinal c \<noteq> Some 0" and "k \<le> MaximumPendingServerCommands"
  shows "ordinalsExhausted c k \<longleftrightarrow> k \<noteq> 0 \<and> 2 ^ 64 < ord_nat (ci_nextOrdinal c) + k"
proof (cases "ci_nextOrdinal c")
  case (Some n)
  have "unat n \<noteq> 0" using assms(1) Some by (simp add: unat_eq_0)
  moreover have "unat (of_nat k :: u64) = k" using assms(2) by (simp add: MaximumPendingServerCommands_def unat_of_nat)
  moreover have "u64_max - n \<noteq> u64_max" using assms(1) Some by simp
  then have "unat (u64_max - n + 1) = 2 ^ 64 - 1 - unat n + 1" by (simp add: word_Suc_neq_max [of "u64_max - n"] unat_u64_max_minus)
  ultimately show ?thesis using Some unat_lt_u64 [of n] by (auto simp: ordinalsExhausted_def word_less_nat_alt ord_nat_def simp del: unat_lt_u64)
qed (auto simp: ordinalsExhausted_def ord_nat_def)

section \<open>Invariant\<close>

text \<open>
  The queue is within its limits, globally and for each session generation, ordinals start at one,
  and the scheduler is well-formed.
\<close>

definition intake_ok :: "'p ServerCommandIntakeCoordinator \<Rightarrow> bool" where
  "intake_ok c \<longleftrightarrow> sched_wf (ci_scheduler c) \<and> ci_nextOrdinal c \<noteq> Some 0
     \<and> length (ci_pending c) \<le> MaximumPendingServerCommands
     \<and> (\<forall>s g. pendingFor c s g \<le> MaximumPendingServerCommandsPerSessionGeneration)"

lemma report_frame [simp]:
  "ci_scheduler (report rs c) = ci_scheduler c" "ci_pending (report rs c) = ci_pending c"
  "ci_nextOrdinal (report rs c) = ci_nextOrdinal c" "ci_terminalError (report rs c) = ci_terminalError c"
  by (simp_all add: report_def)

lemma intake_ok_cong:
  "intake_ok c \<Longrightarrow> ci_scheduler c' = ci_scheduler c \<Longrightarrow> ci_pending c' = ci_pending c \<Longrightarrow> ci_nextOrdinal c' = ci_nextOrdinal c
     \<Longrightarrow> intake_ok c'"
  by (simp add: intake_ok_def pendingFor_def)

text \<open>Submitting: the command joins the end of the queue, or nothing but the terminal state changes.\<close>

lemma submit_cases:
  obtains (accepted) "snd (submit c p) = SubmissionAccepted" "ci_pending (fst (submit c p)) = ci_pending c @ [p]"
      "ci_terminalError c = PumpNone" "ci_terminalError (fst (submit c p)) = PumpNone"
      "length (ci_pending c) < MaximumPendingServerCommands"
      "pendingFor c (pr_session p) (pr_generation p) < MaximumPendingServerCommandsPerSessionGeneration"
      "ci_nextOrdinal (fst (submit c p)) = ci_nextOrdinal c" "ci_scheduler (fst (submit c p)) = ci_scheduler c"
  | (refused) "snd (submit c p) \<noteq> SubmissionAccepted" "ci_pending (fst (submit c p)) = ci_pending c"
      "ci_terminalError c \<noteq> PumpNone \<Longrightarrow> ci_terminalError (fst (submit c p)) = ci_terminalError c"
      "ci_nextOrdinal (fst (submit c p)) = ci_nextOrdinal c" "ci_scheduler (fst (submit c p)) = ci_scheduler c"
proof (cases "snd (submit c p) = SubmissionAccepted")
  case True
  then show thesis
    by (intro accepted) (auto simp: submit_def Let_def split: if_splits)
next
  case False
  then show thesis
    by (intro refused) (auto simp: submit_def Let_def split: if_splits)
qed

lemma submit_ok: "intake_ok c \<Longrightarrow> intake_ok (fst (submit c p))"
proof (cases rule: submit_cases [of c p])
  case accepted
  assume ok: "intake_ok c"
  have "pendingFor (fst (submit c p)) s g = pendingFor c s g + of_bool (s = pr_session p \<and> g = pr_generation p)" for s g
    using accepted(2) by (auto simp: pendingFor_def)
  then show ?thesis using ok accepted by (auto simp: intake_ok_def Suc_le_eq)
qed (rule intake_ok_cong)

text \<open>What one pump of an intake does: it ends the intake for good, or moves the oldest commands into the batches of the due ticks.\<close>

definition pump_moves ::
  "'p ServerCommandIntakeCoordinator \<Rightarrow> fixed_tick_scheduler \<Rightarrow> ServerTick list \<Rightarrow> 'p ServerCommandIntakeCoordinator
     \<Rightarrow> 'p ServerTickCommandBatch list \<Rightarrow> bool" where
  "pump_moves c sched ticks c' bs \<longleftrightarrow>
     ci_scheduler c' = sched \<and> ci_terminalError c' = PumpNone \<and> map bat_tick bs = ticks
     \<and> map sc_proposal (batch_list bs) = take (length ticks * MaximumServerCommandsPerTick) (ci_pending c)
     \<and> ci_pending c' = drop (length ticks * MaximumServerCommandsPerTick) (ci_pending c)
     \<and> ord_nat (ci_nextOrdinal c') = ord_nat (ci_nextOrdinal c) + length (batch_list bs)
     \<and> map ordinal_of (batch_list bs) = [ord_nat (ci_nextOrdinal c) ..< ord_nat (ci_nextOrdinal c')]
     \<and> (\<forall>b \<in> set bs. length (bat_commands b) \<le> MaximumServerCommandsPerTick \<and> (\<forall>x \<in> set (bat_commands b). st_tick (sc_stamp x) = bat_tick b))"

lemma pumpError_None_iff: "pumpError e = PumpNone \<longleftrightarrow> e = SchedulerNone"
  by (cases e) simp_all

lemma pumpIntake_running:
  assumes pump: "pump (ci_scheduler c) now = Some (sched, pr)" and running: "ci_terminalError c = PumpNone"
  obtains (failed) c' r where "pumpIntake c now = Some (c', r)" "res_error r \<noteq> PumpNone" "res_batches r = []"
      "ci_terminalError c' = res_error r" "ci_pending c' = ci_pending c" "ci_nextOrdinal c' = ci_nextOrdinal c" "ci_scheduler c' = sched"
      "pump_error pr \<noteq> SchedulerNone \<or> ordinalsExhausted c (admittedCount c (pump_ticks pr))"
  | (idle) c' r where "pumpIntake c now = Some (c', r)" "res_error r = PumpNone" "res_batches r = []" "pump_ticks pr = []"
      "ci_terminalError c' = PumpNone" "ci_pending c' = ci_pending c" "ci_nextOrdinal c' = ci_nextOrdinal c" "ci_scheduler c' = sched"
      "pump_error pr = SchedulerNone" "res_dueTickLag r = pump_dueTickLag pr"
  | (filled) "pump_error pr = SchedulerNone" "\<not> ordinalsExhausted c (admittedCount c (pump_ticks pr))"
      "\<And>bs final rs. fillBatches (pump_ticks pr) (take (admittedCount c (pump_ticks pr)) (ci_pending c)) (ci_nextOrdinal c) = Some (bs, final, rs) \<Longrightarrow>
         \<exists>c' r. pumpIntake c now = Some (c', r) \<and> res_error r = PumpNone \<and> res_batches r = bs \<and> ci_terminalError c' = PumpNone
           \<and> ci_pending c' = drop (admittedCount c (pump_ticks pr)) (ci_pending c) \<and> ci_nextOrdinal c' = final \<and> ci_scheduler c' = sched
           \<and> res_dueTickLag r = pump_dueTickLag pr"
proof -
  define c1 where "c1 = report [TickLagSample (pump_dueTickLag pr)] (c\<lparr>ci_scheduler := sched\<rparr>)"
  have c1: "ci_pending c1 = ci_pending c" "ci_nextOrdinal c1 = ci_nextOrdinal c" "ci_terminalError c1 = PumpNone" "ci_scheduler c1 = sched"
    using running by (simp_all add: c1_def)
  then have same: "ordinalsExhausted c1 k = ordinalsExhausted c k" "admittedCount c1 ts = admittedCount c ts" for k ts
    by (simp_all add: ordinalsExhausted_def admittedCount_def)
  note intake = pumpIntake_def [of c now, unfolded pump option.case prod.case Let_def c1_def [symmetric]]
  show thesis
  proof (cases "pump_error pr = SchedulerNone")
    case False
    let ?t = "terminate c1 (pumpError (pump_error pr)) (observationOutcome (pump_error pr)) (pump_dueTickLag pr)"
    show thesis
      by (rule failed [of "fst ?t" "snd ?t"]) (use False running c1 in \<open>auto simp: intake terminate_def pumpError_None_iff\<close>)
  next
    case noerr: True
    show thesis
    proof (cases "pump_ticks pr = []")
      case True
      then show thesis using running noerr c1 by (intro idle) (auto simp: intake)
    next
      case ticks: False
      show thesis
      proof (cases "ordinalsExhausted c (admittedCount c (pump_ticks pr))")
        case True
        let ?t = "terminate c1 PumpIngressOrdinalExhausted ObservedIngressOrdinalExhausted (pump_dueTickLag pr)"
        show thesis
          by (rule failed [of "fst ?t" "snd ?t"]) (use True running noerr ticks c1 in \<open>auto simp: intake terminate_def same\<close>)
      next
        case False
        then show thesis using running noerr ticks c1 by (intro filled) (auto simp: intake same)
      qed
    qed
  qed
qed

lemma pumpIntake_cases:
  assumes ok: "intake_ok c"
  obtains (stopped) c' r where "pumpIntake c now = Some (c', r)" "res_error r \<noteq> PumpNone" "res_batches r = []"
      "ci_terminalError c' = res_error r" "ci_pending c' = ci_pending c" "ci_nextOrdinal c' = ci_nextOrdinal c" "sched_wf (ci_scheduler c')"
      "\<And>sched pr. ci_terminalError c = PumpNone \<Longrightarrow> pump (ci_scheduler c) now = Some (sched, pr)
         \<Longrightarrow> pump_error pr \<noteq> SchedulerNone \<or> ordinalsExhausted c (admittedCount c (pump_ticks pr))"
  | (moved) c' r sched pr where "ci_terminalError c = PumpNone" "pump (ci_scheduler c) now = Some (sched, pr)" "pump_error pr = SchedulerNone"
      "pumpIntake c now = Some (c', r)" "res_error r = PumpNone" "res_dueTickLag r = pump_dueTickLag pr"
      "pump_moves c sched (pump_ticks pr) c' (res_batches r)"
proof (cases "ci_terminalError c = PumpNone")
  case False
  then show thesis using ok by (intro stopped) (auto simp: pumpIntake_def intake_ok_def)
next
  case running: True
  obtain sched pr where pump: "pump (ci_scheduler c) now = Some (sched, pr)"
    using ok pump_total [of "ci_scheduler c" now] by (auto simp: intake_ok_def)
  then have wf: "sched_wf sched" using ok pump_wf by (auto simp: intake_ok_def)
  from pump running show thesis
  proof (cases rule: pumpIntake_running)
    case (failed c' r)
    with wf pump show thesis by (intro stopped [OF failed(1-6)]) auto
  next
    case (idle c' r)
    then have "pump_moves c sched (pump_ticks pr) c' (res_batches r)" by (simp add: pump_moves_def)
    then show thesis by (rule moved [OF running pump idle(9,1,2,10)])
  next
    case filled
    let ?k = "admittedCount c (pump_ticks pr)" and ?m = "length (pump_ticks pr) * MaximumServerCommandsPerTick"
    have bound: "?k \<le> MaximumPendingServerCommands" using ok by (auto simp: intake_ok_def admittedCount_def)
    have "ord_nat (ci_nextOrdinal c) \<le> 2 ^ 64" by (simp add: ord_nat_def less_imp_le split: option.split)
    then have room: "ord_nat (ci_nextOrdinal c) + length (take ?k (ci_pending c)) \<le> 2 ^ 64"
      using filled(2) ordinalsExhausted_iff [of c, OF _ bound] ok by (cases "?k = 0") (auto simp: intake_ok_def admittedCount_def)
    have few: "length (take ?k (ci_pending c)) \<le> ?m" by (simp add: admittedCount_def)
    obtain bs final rs where bs: "fillBatches (pump_ticks pr) (take ?k (ci_pending c)) (ci_nextOrdinal c) = Some (bs, final, rs)"
      and spec: "ord_nat final = ord_nat (ci_nextOrdinal c) + length (take ?k (ci_pending c))" "map bat_tick bs = pump_ticks pr"
        "map sc_proposal (batch_list bs) = take ?k (ci_pending c)"
        "map ordinal_of (batch_list bs) = [ord_nat (ci_nextOrdinal c) ..< ord_nat (ci_nextOrdinal c) + length (take ?k (ci_pending c))]"
        "\<forall>b \<in> set bs. length (bat_commands b) \<le> MaximumServerCommandsPerTick \<and> (\<forall>x \<in> set (bat_commands b). st_tick (sc_stamp x) = bat_tick b)"
      using fillBatches_spec [OF room few] by auto
    obtain c' r where run: "pumpIntake c now = Some (c', r)" "res_error r = PumpNone" "res_batches r = bs" "ci_terminalError c' = PumpNone"
      "ci_pending c' = drop ?k (ci_pending c)" "ci_nextOrdinal c' = final" "ci_scheduler c' = sched" "res_dueTickLag r = pump_dueTickLag pr"
      using filled(3) [OF bs] by auto
    have k: "take ?k (ci_pending c) = take ?m (ci_pending c)" "drop ?k (ci_pending c) = drop ?m (ci_pending c)"
      by (simp_all add: admittedCount_def min_def)
    have "length (batch_list bs) = length (take ?k (ci_pending c))" using arg_cong [OF spec(3), of length] by simp
    then have "pump_moves c sched (pump_ticks pr) c' (res_batches r)" using spec run k by (simp add: pump_moves_def)
    then show thesis by (rule moved [OF running pump filled(1) run(1,2,8)])
  qed
qed

lemma pump_moves_ok:
  assumes ok: "intake_ok c" and moved: "pump_moves c sched ticks c' bs" and wf: "sched_wf sched"
  shows "intake_ok c'"
proof -
  have "ord_nat (ci_nextOrdinal c) \<noteq> 0"
    using ok by (cases "ci_nextOrdinal c") (auto simp: intake_ok_def ord_nat_def unat_eq_0 simp del: neq0_conv)
  then have "ci_nextOrdinal c' \<noteq> Some 0" using moved by (auto simp: pump_moves_def ord_nat_def split: option.splits)
  moreover have "pendingFor c' s g \<le> pendingFor c s g" for s g
  proof -
    have "ci_pending c = map sc_proposal (batch_list bs) @ ci_pending c'" using moved by (simp add: pump_moves_def)
    then show ?thesis by (simp add: pendingFor_def)
  qed
  then have "pendingFor c' s g \<le> MaximumPendingServerCommandsPerSessionGeneration" for s g
    using ok le_trans unfolding intake_ok_def by metis
  ultimately show ?thesis using ok moved wf by (auto simp: intake_ok_def pump_moves_def)
qed

section \<open>Runs\<close>

datatype 'p intake_event = SubmitCommand "'p ServerCommandProposal" | PumpAt MonotonicInstant

text \<open>A run of submissions and pumps: the final state, the accepted commands and the emitted batches.\<close>

fun runIntake ::
  "'p ServerCommandIntakeCoordinator \<Rightarrow> 'p intake_event list
     \<Rightarrow> ('p ServerCommandIntakeCoordinator \<times> 'p ServerCommandProposal list \<times> 'p ServerTickCommandBatch list) option" where
  "runIntake c [] = Some (c, [], [])"
| "runIntake c (SubmitCommand p # es) =
     (case runIntake (fst (submit c p)) es of
        None \<Rightarrow> None
      | Some (c', ps, bs) \<Rightarrow> Some (c', (if snd (submit c p) = SubmissionAccepted then p # ps else ps), bs))"
| "runIntake c (PumpAt now # es) =
     (case pumpIntake c now of
        None \<Rightarrow> None
      | Some (c1, r) \<Rightarrow>
        (case runIntake c1 es of None \<Rightarrow> None | Some (c', ps, bs) \<Rightarrow> Some (c', ps, res_batches r @ bs)))"

text \<open>
  The promise of the intake as a queue: what comes out, followed by what still waits, is what went
  in; the ordinals continue without a gap; and so do the ticks of the batches, unless the intake
  had already stopped.
\<close>

definition fifo_run ::
  "'p ServerCommandIntakeCoordinator \<Rightarrow> 'p ServerCommandIntakeCoordinator \<Rightarrow> 'p ServerCommandProposal list
     \<Rightarrow> 'p ServerTickCommandBatch list \<Rightarrow> bool" where
  "fifo_run c c' ps bs \<longleftrightarrow>
     map sc_proposal (batch_list bs) @ ci_pending c' = ci_pending c @ ps
     \<and> map ordinal_of (batch_list bs) = [ord_nat (ci_nextOrdinal c) ..< ord_nat (ci_nextOrdinal c) + length (batch_list bs)]
     \<and> map (unat \<circ> bat_tick) bs = [unat (mNextTick (ci_scheduler c)) ..< unat (mNextTick (ci_scheduler c)) + length bs]
     \<and> (\<forall>b \<in> set bs. length (bat_commands b) \<le> MaximumServerCommandsPerTick \<and> (\<forall>x \<in> set (bat_commands b). st_tick (sc_stamp x) = bat_tick b))"

lemma runIntake_stopped:
  "ci_terminalError c \<noteq> PumpNone \<Longrightarrow> \<exists>c'. runIntake c es = Some (c', [], []) \<and> ci_pending c' = ci_pending c"
proof (induction es arbitrary: c)
  case (Cons e es)
  show ?case
  proof (cases e)
    case (SubmitCommand p)
    then have "ci_terminalError (fst (submit c p)) = ci_terminalError c" "ci_pending (fst (submit c p)) = ci_pending c"
      "snd (submit c p) = SubmissionCoordinatorTerminated"
      using Cons.prems by (simp_all add: submit_def)
    then show ?thesis using Cons.IH [of "fst (submit c p)"] Cons.prems SubmitCommand by auto
  next
    case (PumpAt now)
    then have "pumpIntake c now = Some (c, \<lparr>res_error = ci_terminalError c, res_dueTickLag = 0, res_batches = []\<rparr>)"
      using Cons.prems by (simp add: pumpIntake_def)
    then show ?thesis using Cons.IH [OF Cons.prems] PumpAt by auto
  qed
qed simp

lemma fifo_append:
  assumes moved: "pump_moves c sched ticks c1 bs1" and run: "fifo_run c1 c' ps bs"
    and ticks: "unat (mNextTick (ci_scheduler c)) \<le> unat (mNextTick sched)
      \<and> map unat ticks = [unat (mNextTick (ci_scheduler c)) ..< unat (mNextTick sched)]"
  shows "fifo_run c c' ps (bs1 @ bs)"
proof -
  let ?t = "unat (mNextTick (ci_scheduler c))" and ?o = "ord_nat (ci_nextOrdinal c)"
  have c1: "ci_scheduler c1 = sched" "ord_nat (ci_nextOrdinal c1) = ?o + length (batch_list bs1)" and bs1: "map bat_tick bs1 = ticks"
    using moved by (simp_all add: pump_moves_def)
  have "map (unat \<circ> bat_tick) bs1 = [?t ..< unat (mNextTick sched)]" using ticks bs1 by (metis map_map)
  moreover from this have "unat (mNextTick sched) = ?t + length bs1" using ticks by (metis length_map length_upt le_add_diff_inverse)
  moreover have "map sc_proposal (batch_list bs1) @ ci_pending c1 = ci_pending c" using moved by (simp add: pump_moves_def)
  moreover have "map ordinal_of (batch_list bs1) = [?o ..< ?o + length (batch_list bs1)]" using moved by (simp add: pump_moves_def)
  moreover have "[a ..< a + m] @ [a + m ..< a + m + n] = [a ..< a + (m + n)]" for a m n :: nat
    by (metis add.assoc le_add1 upt_add_eq_append)
  ultimately show ?thesis using run moved c1 by (simp add: fifo_run_def) (simp add: pump_moves_def ball_Un)
qed

lemma runIntake_fifo:
  "intake_ok c \<Longrightarrow> \<exists>c' ps bs. runIntake c es = Some (c', ps, bs) \<and> intake_ok c' \<and> fifo_run c c' ps bs"
proof (induction es arbitrary: c)
  case Nil
  then show ?case by (simp add: fifo_run_def)
next
  case (Cons e es)
  show ?case
  proof (cases e)
    case (SubmitCommand p)
    obtain c' ps bs where run: "runIntake (fst (submit c p)) es = Some (c', ps, bs)" "intake_ok c'" "fifo_run (fst (submit c p)) c' ps bs"
      using Cons.IH [OF submit_ok [OF Cons.prems]] by blast
    then show ?thesis
      by (cases rule: submit_cases [of c p]) (auto simp: SubmitCommand fifo_run_def)
  next
    case (PumpAt now)
    from Cons.prems show ?thesis
    proof (cases rule: pumpIntake_cases [of c now])
      case (stopped c1 r)
      then have ok1: "intake_ok c1" using Cons.prems by (simp add: intake_ok_def pendingFor_def)
      obtain c' where "runIntake c1 es = Some (c', [], [])" "ci_pending c' = ci_pending c1" using stopped runIntake_stopped by metis
      moreover have "intake_ok c'" using Cons.IH [OF ok1] calculation by auto
      ultimately show ?thesis using stopped by (simp add: PumpAt fifo_run_def)
    next
      case (moved c1 r sched pr)
      have wf: "sched_wf (ci_scheduler c)" using Cons.prems by (simp add: intake_ok_def)
      have ok1: "intake_ok c1" using Cons.prems moved(7) pump_wf [OF wf moved(2)] by (rule pump_moves_ok)
      obtain c' ps bs where run: "runIntake c1 es = Some (c', ps, bs)" "intake_ok c'" "fifo_run c1 c' ps bs" using Cons.IH [OF ok1] by blast
      have "fifo_run c c' ps (res_batches r @ bs)"
        using moved(7) run(3) pump_consecutive [OF wf moved(2)] by (rule fifo_append)
      then show ?thesis using run moved by (simp add: PumpAt)
    qed
  qed
qed

section \<open>Properties\<close>

lemma created_intake_ok: "n \<noteq> 0 \<Longrightarrow> intake_ok (createCoordinator epoch nextTick n tickEpoch)"
  by (simp add: intake_ok_def createCoordinator_def sched_wf_create pendingFor_def)

text \<open>
  C15. The intake is a first-in first-out queue: over any sequence of submissions and pumps it
  never fails, the commands it emitted followed by those still waiting are exactly the accepted
  ones in order, their ordinals count up from the first without a gap, the batches belong to
  consecutive ticks and hold at most 1024 commands, and the queue stays within its limits.
\<close>

theorem intake_fifo:
  assumes "nextOrdinal \<noteq> 0"
  shows "\<exists>c ps bs. runIntake (createCoordinator epoch nextTick nextOrdinal tickEpoch) es = Some (c, ps, bs)
    \<and> map sc_proposal (batch_list bs) @ ci_pending c = ps
    \<and> map ordinal_of (batch_list bs) = [unat nextOrdinal ..< unat nextOrdinal + length (batch_list bs)]
    \<and> map (unat \<circ> bat_tick) bs = [unat nextTick ..< unat nextTick + length bs]
    \<and> (\<forall>b \<in> set bs. length (bat_commands b) \<le> 1024 \<and> (\<forall>x \<in> set (bat_commands b). st_tick (sc_stamp x) = bat_tick b))
    \<and> length (ci_pending c) \<le> 4096 \<and> (\<forall>s g. pendingFor c s g \<le> 128)"
proof -
  obtain c ps bs where "runIntake (createCoordinator epoch nextTick nextOrdinal tickEpoch) es = Some (c, ps, bs)"
    "intake_ok c" "fifo_run (createCoordinator epoch nextTick nextOrdinal tickEpoch) c ps bs"
    using runIntake_fifo [OF created_intake_ok [OF assms]] by blast
  then show ?thesis
    by (simp add: fifo_run_def intake_ok_def createCoordinator_def createScheduler_def ord_nat_def MaximumServerCommandsPerTick_def
        MaximumPendingServerCommands_def MaximumPendingServerCommandsPerSessionGeneration_def)
qed

definition sample_proposal :: "nat \<Rightarrow> nat ServerCommandProposal" where
  "sample_proposal n = \<lparr>pr_session = 1, pr_generation = 1, pr_sequence = 1, pr_commandId = 1, pr_observedRevision = 1,
     pr_precondition = \<lparr>pre_entity = 1, pre_expectedRevision = 1, pre_expectedAuthorityEpoch = 1\<rparr>, pr_payload = n\<rparr>"

definition sample_events :: "nat intake_event list" where
  "sample_events = [SubmitCommand (sample_proposal 7), SubmitCommand (sample_proposal 8), PumpAt 40000000, SubmitCommand (sample_proposal 9)]"

lemma sample_run:
  "map_option (\<lambda>(c, ps, bs). (map pr_payload (ci_pending c), map pr_payload ps, map (map (pr_payload \<circ> sc_proposal) \<circ> bat_commands) bs))
     (runIntake (createCoordinator 0 0 1 EpochZero) sample_events) = Some ([9], [7, 8, 9], [[7, 8], []])"
  by code_simp

theorem intake_fifo_witness:
  "\<exists>c ps bs. runIntake (createCoordinator 0 0 1 EpochZero) sample_events = Some (c, ps, bs) \<and> length ps = 3 \<and> length (batch_list bs) = 2
     \<and> map sc_proposal (batch_list bs) @ ci_pending c = ps \<and> map ordinal_of (batch_list bs) = [1, 2]"
proof -
  obtain c ps bs where run: "runIntake (createCoordinator 0 0 1 EpochZero) sample_events = Some (c, ps, bs)"
    and fifo: "map sc_proposal (batch_list bs) @ ci_pending c = ps"
      "map ordinal_of (batch_list bs) = [unat (1 :: u64) ..< unat (1 :: u64) + length (batch_list bs)]"
    using intake_fifo [of 1 0 0 EpochZero sample_events] by auto
  have "map pr_payload ps = [7, 8, 9]" "map pr_payload (ci_pending c) = [9]" using sample_run by (simp_all add: run)
  then have "length ps = 3" "length (ci_pending c) = 1" by (metis length_map list.size(3,4) One_nat_def Suc_eq_plus1 numeral_3_eq_3)+
  moreover from this have "length (batch_list bs) = 2" using arg_cong [OF fifo(1), of length] by simp
  ultimately show ?thesis using run fifo by (simp add: numeral_2_eq_2)
qed

text \<open>
  A pump that finds due ticks empties the queue as far as the tick budget allows: with enough
  ordinals left it emits one batch for each tick, together holding exactly the oldest 1024
  commands for each tick (or all there are), and only those leave the queue.
\<close>

theorem intake_pump_admits_oldest:
  assumes "intake_ok c" and "ci_terminalError c = PumpNone" and "ord_nat (ci_nextOrdinal c) + length (ci_pending c) \<le> 2 ^ 64"
    and "pump (ci_scheduler c) now = Some (sched, pr)" and "pump_error pr = SchedulerNone"
  shows "\<exists>c' r. pumpIntake c now = Some (c', r) \<and> res_error r = PumpNone \<and> map bat_tick (res_batches r) = pump_ticks pr
    \<and> map sc_proposal (batch_list (res_batches r)) = take (length (pump_ticks pr) * 1024) (ci_pending c)
    \<and> ci_pending c' = drop (length (pump_ticks pr) * 1024) (ci_pending c) \<and> ci_scheduler c' = sched"
  using assms(1)
proof (cases rule: pumpIntake_cases [of c now])
  case (stopped c' r)
  have "admittedCount c (pump_ticks pr) \<le> MaximumPendingServerCommands"
    using assms(1) by (auto simp: intake_ok_def admittedCount_def)
  then have "\<not> ordinalsExhausted c (admittedCount c (pump_ticks pr))"
    using assms(1,3) ordinalsExhausted_iff [of c] by (auto simp: intake_ok_def admittedCount_def)
  with stopped(8) [OF assms(2,4)] assms(5) show ?thesis by simp
next
  case (moved c' r sched' pr')
  then show ?thesis using assms(4) by (auto simp: pump_moves_def MaximumServerCommandsPerTick_def)
qed

theorem intake_pump_admits_oldest_witness:
  "\<exists>c' r. pumpIntake (fst (submit (createCoordinator 0 0 1 EpochZero) (sample_proposal 7))) 0 = Some (c', r)
     \<and> map sc_proposal (batch_list (res_batches r)) = [sample_proposal 7] \<and> ci_pending c' = []"
proof -
  let ?c = "fst (submit (createCoordinator 0 0 1 EpochZero) (sample_proposal 7))"
  have c: "intake_ok ?c" by (intro submit_ok created_intake_ok) simp
  have fields: "ci_terminalError ?c = PumpNone" "ci_nextOrdinal ?c = Some 1" "ci_pending ?c = [sample_proposal 7]"
    "ci_scheduler ?c = createScheduler 0 0 EpochZero"
    by (simp_all add: submit_def createCoordinator_def pendingFor_def MaximumPendingServerCommands_def
        MaximumPendingServerCommandsPerSessionGeneration_def)
  have room: "ord_nat (ci_nextOrdinal ?c) + length (ci_pending ?c) \<le> 2 ^ 64" by (simp add: fields ord_nat_def)
  have pump: "pump (ci_scheduler ?c) 0 = Some (createScheduler 0 1 EpochZero, \<lparr>pump_error = SchedulerNone, pump_ticks = [0], pump_dueTickLag = 1\<rparr>)"
    unfolding fields by code_simp
  from intake_pump_admits_oldest [OF c fields(1) room pump] show ?thesis by (auto simp: fields)
qed

end
