(* ===== verification/Byte_Codec.thy ===== *)
theory Byte_Codec
  imports Prelude
begin

unbundle bit_operations_syntax

text \<open>
  Little-endian bytes of machine words, and the contract of an encoder whose output can be
  followed by anything: its end can be told from the bytes alone. The canonical state
  encoding is assembled from such encoders, the frame header from the fixed-width ones.
\<close>

section \<open>Little-endian words\<close>

type_synonym bytes = "u8 list"

text \<open>The \<^verbatim>\<open>fixed\<close> writer of \<^verbatim>\<open>canonical_checksum.cpp\<close>: \<^verbatim>\<open>sizeof(Value)\<close> bytes, least significant first.\<close>

definition le_bytes :: "nat \<Rightarrow> 'a::len word \<Rightarrow> bytes" where
  "le_bytes n w = map (\<lambda>i. ucast (drop_bit (8 * i) w)) [0..<n]"

fun le_word :: "bytes \<Rightarrow> 'a::len word" where
  "le_word [] = 0"
| "le_word (b # bs) = ucast b OR push_bit 8 (le_word bs)"

lemma length_le_bytes [simp]: "length (le_bytes n w) = n"
  by (simp add: le_bytes_def)

lemma le_bytes_Suc: "le_bytes (Suc n) w = ucast w # le_bytes n (drop_bit 8 w)"
  unfolding le_bytes_def upt_conv_Cons [OF zero_less_Suc]
  by (simp add: map_Suc_upt [symmetric] comp_def add.commute del: upt_Suc)

lemma le_bytes_0 [simp]: "le_bytes 0 w = []"
  by (simp add: le_bytes_def)

lemma le_step:
  "ucast (ucast w :: u8) OR push_bit 8 (take_bit m (drop_bit 8 w)) = take_bit (8 + m) (w :: 'a::len word)"
  by (rule bit_word_eqI) (auto simp: bit_simps)

lemma le_word_le_bytes: "le_word (le_bytes n w) = take_bit (8 * n) (w :: 'a::len word)"
  by (induction n arbitrary: w) (simp_all add: le_bytes_Suc le_step)

lemma le_word_le_bytes_full: "LENGTH('a) \<le> 8 * n \<Longrightarrow> le_word (le_bytes n w) = (w :: 'a::len word)"
  by (simp add: le_word_le_bytes take_bit_word_eq_self)

lemma le_low: "LENGTH('a) \<ge> 8 \<Longrightarrow> ucast (ucast (b :: u8) OR push_bit 8 w :: 'a::len word) = b"
  by (rule bit_word_eqI) (auto simp: bit_simps)

lemma le_high:
  "8 + m \<le> LENGTH('a) \<Longrightarrow> take_bit m (drop_bit 8 (ucast (b :: u8) OR push_bit 8 w)) = take_bit m (w :: 'a::len word)"
  by (rule bit_word_eqI) (auto simp: bit_simps dest: bit_imp_le_length)

lemma le_bytes_take_bit: "8 * n \<le> m \<Longrightarrow> le_bytes n (take_bit m w) = le_bytes n (w :: 'a::len word)"
proof (induction n arbitrary: w m)
  case (Suc n)
  have "ucast (take_bit m w) = (ucast w :: u8)"
    using Suc.prems by (intro bit_word_eqI) (auto simp: bit_simps)
  moreover have "drop_bit 8 (take_bit m w) = take_bit (m - 8) (drop_bit 8 w)"
    by (simp add: drop_bit_take_bit)
  ultimately show ?case using Suc by (simp add: le_bytes_Suc)
qed simp

lemma le_bytes_le_word: "8 * length bs \<le> LENGTH('a) \<Longrightarrow> le_bytes (length bs) (le_word bs :: 'a::len word) = bs"
proof (induction bs)
  case (Cons b bs)
  let ?w = "ucast b OR push_bit 8 (le_word bs) :: 'a word"
  have "le_bytes (length bs) (drop_bit 8 ?w) = le_bytes (length bs) (take_bit (8 * length bs) (drop_bit 8 ?w))"
    by (rule le_bytes_take_bit [OF order_refl, symmetric])
  also have "\<dots> = le_bytes (length bs) (take_bit (8 * length bs) (le_word bs :: 'a word))"
    using Cons.prems by (subst le_high) simp_all
  also have "\<dots> = bs" using Cons by (simp add: le_bytes_take_bit)
  finally show ?case using Cons.prems by (simp add: le_bytes_Suc le_low)
qed simp

lemma le_bytes_inject:
  "LENGTH('a) \<le> 8 * n \<Longrightarrow> le_bytes n v = le_bytes n w \<Longrightarrow> v = (w :: 'a::len word)"
  by (metis le_word_le_bytes_full)

section \<open>Encoders that can be followed by anything\<close>

locale prefix_code =
  fixes enc :: "'a \<Rightarrow> 'b list"
    and valid :: "'a \<Rightarrow> bool"
  assumes prefix_free: "valid x \<Longrightarrow> valid y \<Longrightarrow> enc x @ r = enc y @ s \<Longrightarrow> x = y \<and> r = s"
begin

lemma enc_inject: "valid x \<Longrightarrow> valid y \<Longrightarrow> enc x = enc y \<Longrightarrow> x = y"
  using prefix_free [of x y "[]" "[]"] by simp

text \<open>Two sequences of the same length, encoded back to back, are equal when their bytes are.\<close>

lemma concat_prefix_free:
  "length xs = length ys \<Longrightarrow> \<forall>x \<in> set xs. valid x \<Longrightarrow> \<forall>y \<in> set ys. valid y \<Longrightarrow>
     concat (map enc xs) @ r = concat (map enc ys) @ s \<Longrightarrow> xs = ys \<and> r = s"
proof (induction xs ys rule: list_induct2)
  case (Cons x xs y ys)
  then have "enc x @ (concat (map enc xs) @ r) = enc y @ (concat (map enc ys) @ s)" by simp
  moreover have "valid x" and "valid y" using Cons.prems by simp_all
  ultimately have hd: "x = y" and tl: "concat (map enc xs) @ r = concat (map enc ys) @ s"
    using prefix_free by blast+
  have "xs = ys \<and> r = s" using Cons.prems by (intro Cons.IH tl) simp_all
  with hd show ?case by simp
qed simp

end

locale fixed_code =
  fixes enc :: "'a \<Rightarrow> 'b list"
    and width :: nat
  assumes enc_width: "length (enc x) = width"
    and enc_injective: "enc x = enc y \<Longrightarrow> x = y"

sublocale fixed_code \<subseteq> prefix_code enc "\<lambda>_. True"
proof
  fix x y :: 'a and r s :: "'b list"
  assume eq: "enc x @ r = enc y @ s"
  have "enc x = enc y \<and> r = s"
    using eq by (simp add: append_eq_append_conv enc_width)
  then show "x = y \<and> r = s" using enc_injective by blast
qed

interpretation le8: fixed_code "le_bytes 1 :: u8 \<Rightarrow> bytes" 1
  by unfold_locales (simp, rule le_bytes_inject, simp_all)

interpretation le16: fixed_code "le_bytes 2 :: u16 \<Rightarrow> bytes" 2
  by unfold_locales (simp, rule le_bytes_inject, simp_all)

interpretation le32: fixed_code "le_bytes 4 :: u32 \<Rightarrow> bytes" 4
  by unfold_locales (simp, rule le_bytes_inject, simp_all)

interpretation le64: fixed_code "le_bytes 8 :: u64 \<Rightarrow> bytes" 8
  by unfold_locales (simp, rule le_bytes_inject, simp_all)

end
