(* ===== verification/Protocol_Frame.thy ===== *)
theory Protocol_Frame
  imports Byte_Codec
begin

unbundle bit_operations_syntax

text \<open>
  The wire frame of \<^verbatim>\<open>protocol/protocol_frame.cpp\<close>: a twelve byte header (magic, format version,
  message class, message kind, payload length) followed by the payload. Class and kind are C++
  enumerations with a fixed underlying type, so a variable of such a type can hold any \<open>u8\<close> or
  \<open>u16\<close>: the codec takes raw codes, and the named enumerators are datatypes with their codes.
\<close>

section \<open>Message classes and kinds\<close>

definition ProtocolFrameMagic :: bytes where
  "ProtocolFrameMagic = [0x54, 0x33, 0x4D, 0x50]"

definition ProtocolFrameFormatVersion :: u8 where
  "ProtocolFrameFormatVersion = 1"

definition ProtocolFrameHeaderBytes :: nat where
  "ProtocolFrameHeaderBytes = 12"

definition SessionControlMaximumPayloadBytes :: nat where
  "SessionControlMaximumPayloadBytes = 4 * 1024"

definition ReliableOperationMaximumPayloadBytes :: nat where
  "ReliableOperationMaximumPayloadBytes = 16 * 1024"

definition NativeGroundMaximumPayloadBytes :: nat where
  "NativeGroundMaximumPayloadBytes = 512 * 1024 - ProtocolFrameHeaderBytes"

definition LatestWinsSnapshotMaximumPayloadBytes :: nat where
  "LatestWinsSnapshotMaximumPayloadBytes = 64 * 1024"

definition PresentationSampleMaximumPayloadBytes :: nat where
  "PresentationSampleMaximumPayloadBytes = 1024"

datatype MessageClass =
    ClassSessionControl
  | ClassReliableOperation
  | ClassLatestWinsSnapshot
  | ClassPresentationSample
  | ClassPlayerControlSample

fun class_code :: "MessageClass \<Rightarrow> u8" where
  "class_code ClassSessionControl = 1"
| "class_code ClassReliableOperation = 2"
| "class_code ClassLatestWinsSnapshot = 3"
| "class_code ClassPresentationSample = 4"
| "class_code ClassPlayerControlSample = 5"

definition class_of_code :: "u8 \<Rightarrow> MessageClass option" where
  "class_of_code c = find (\<lambda>m. class_code m = c)
     [ClassSessionControl, ClassReliableOperation, ClassLatestWinsSnapshot, ClassPresentationSample,
      ClassPlayerControlSample]"

datatype MessageKind =
    ClientHello | ServerHello | SessionRejected | AuthenticationRequest | AuthenticationAccepted
  | AuthenticationRejected | ReliableOperation | ReliableObservationBatch | SessionResyncRequest
  | ReliableInterestBaseline | ReliableActorInterestBaseline
  | ReliableInteractiveObjectInterestBaseline | ClientInteractObjectCommand
  | ReliablePlayerInventoryBaseline | ReliableContainerInventoryBaseline | ReliableGroundItemBaseline
  | ClientInventoryTransactionCommand | ClientMeleeAttackCommand | ReliableCombatEventBatch
  | ClientCharacterCreationCommand | ReliableCharacterProfile | ClientDialogueChoiceCommand
  | ReliableDialogueChoiceResult | ReliableWeatherState | ReliableWorldTimeState
  | ClientMagicUseCommand | ClientDoorObstruction | ReliableAmbientBatch | ClientDialogueIntent
  | ReliablePersonalDialogue | LatestWinsSnapshot | LatestWinsActorSnapshot
  | LatestWinsEquipmentSnapshot | LatestWinsCombatSnapshot | ClientVrPoseSample
  | ServerVrPoseSnapshot | ClientPlayerControls

definition kind_codes :: "(MessageKind \<times> u16) list" where
  "kind_codes =
    [(ClientHello, 0x0001), (ServerHello, 0x0002), (SessionRejected, 0x0003),
     (AuthenticationRequest, 0x0004), (AuthenticationAccepted, 0x0005),
     (AuthenticationRejected, 0x0006), (ReliableOperation, 0x0100),
     (ReliableObservationBatch, 0x0101), (SessionResyncRequest, 0x0102),
     (ReliableInterestBaseline, 0x0103), (ReliableActorInterestBaseline, 0x0104),
     (ReliableInteractiveObjectInterestBaseline, 0x0105), (ClientInteractObjectCommand, 0x0106),
     (ReliablePlayerInventoryBaseline, 0x0107), (ReliableContainerInventoryBaseline, 0x0108),
     (ReliableGroundItemBaseline, 0x0109), (ClientInventoryTransactionCommand, 0x010a),
     (ClientMeleeAttackCommand, 0x010b), (ReliableCombatEventBatch, 0x010c),
     (ClientCharacterCreationCommand, 0x010d), (ReliableCharacterProfile, 0x010e),
     (ClientDialogueChoiceCommand, 0x010f), (ReliableDialogueChoiceResult, 0x0110),
     (ReliableWeatherState, 0x0111), (ReliableWorldTimeState, 0x0112),
     (ClientMagicUseCommand, 0x0113), (ClientDoorObstruction, 0x0114),
     (ReliableAmbientBatch, 0x0115), (ClientDialogueIntent, 0x0116),
     (ReliablePersonalDialogue, 0x0117), (LatestWinsSnapshot, 0x0200),
     (LatestWinsActorSnapshot, 0x0201), (LatestWinsEquipmentSnapshot, 0x0202),
     (LatestWinsCombatSnapshot, 0x0203), (ClientVrPoseSample, 0x0300),
     (ServerVrPoseSnapshot, 0x0301), (ClientPlayerControls, 0x0302)]"

definition kind_code :: "MessageKind \<Rightarrow> u16" where
  "kind_code k = the (map_of kind_codes k)"

definition kind_of_code :: "u16 \<Rightarrow> MessageKind option" where
  "kind_of_code c = map_of (map prod.swap kind_codes) c"

record MessageDescriptor =
  descriptorKind :: MessageKind
  descriptorClass :: MessageClass
  maximumPayload :: nat

fun kindDescriptor :: "MessageKind \<Rightarrow> MessageClass \<times> nat" where
  "kindDescriptor ClientHello = (ClassSessionControl, SessionControlMaximumPayloadBytes)"
| "kindDescriptor ServerHello = (ClassSessionControl, SessionControlMaximumPayloadBytes)"
| "kindDescriptor SessionRejected = (ClassSessionControl, SessionControlMaximumPayloadBytes)"
| "kindDescriptor AuthenticationRequest = (ClassSessionControl, SessionControlMaximumPayloadBytes)"
| "kindDescriptor AuthenticationAccepted = (ClassSessionControl, SessionControlMaximumPayloadBytes)"
| "kindDescriptor AuthenticationRejected = (ClassSessionControl, SessionControlMaximumPayloadBytes)"
| "kindDescriptor SessionResyncRequest = (ClassSessionControl, SessionControlMaximumPayloadBytes)"
| "kindDescriptor ClientDialogueIntent = (ClassReliableOperation, 256)"
| "kindDescriptor ReliablePersonalDialogue = (ClassReliableOperation, 32768)"
| "kindDescriptor ReliableAmbientBatch = (ClassReliableOperation, 2300)"
| "kindDescriptor ReliableGroundItemBaseline = (ClassReliableOperation, NativeGroundMaximumPayloadBytes)"
| "kindDescriptor LatestWinsSnapshot = (ClassLatestWinsSnapshot, LatestWinsSnapshotMaximumPayloadBytes)"
| "kindDescriptor LatestWinsActorSnapshot =
     (ClassLatestWinsSnapshot, LatestWinsSnapshotMaximumPayloadBytes)"
| "kindDescriptor LatestWinsEquipmentSnapshot =
     (ClassLatestWinsSnapshot, LatestWinsSnapshotMaximumPayloadBytes)"
| "kindDescriptor LatestWinsCombatSnapshot =
     (ClassLatestWinsSnapshot, LatestWinsSnapshotMaximumPayloadBytes)"
| "kindDescriptor ClientVrPoseSample = (ClassPresentationSample, PresentationSampleMaximumPayloadBytes)"
| "kindDescriptor ServerVrPoseSnapshot = (ClassPresentationSample, PresentationSampleMaximumPayloadBytes)"
| "kindDescriptor ClientPlayerControls =
     (ClassPlayerControlSample, PresentationSampleMaximumPayloadBytes)"
| "kindDescriptor _ = (ClassReliableOperation, ReliableOperationMaximumPayloadBytes)"

definition messageDescriptor :: "u16 \<Rightarrow> MessageDescriptor option" where
  "messageDescriptor code =
     map_option (\<lambda>k. \<lparr>descriptorKind = k, descriptorClass = fst (kindDescriptor k),
                       maximumPayload = snd (kindDescriptor k)\<rparr>) (kind_of_code code)"

fun classLimit :: "MessageClass \<Rightarrow> nat" where
  "classLimit ClassSessionControl = SessionControlMaximumPayloadBytes"
| "classLimit ClassReliableOperation = NativeGroundMaximumPayloadBytes"
| "classLimit ClassLatestWinsSnapshot = LatestWinsSnapshotMaximumPayloadBytes"
| "classLimit ClassPresentationSample = PresentationSampleMaximumPayloadBytes"
| "classLimit ClassPlayerControlSample = PresentationSampleMaximumPayloadBytes"

definition maximumPayloadBytes :: "u8 \<Rightarrow> nat option" where
  "maximumPayloadBytes code = map_option classLimit (class_of_code code)"

section \<open>The codec\<close>

datatype FrameErrorStage = StageHeader | StageClassification | StagePayloadBudget | StageFrameLength

datatype FrameErrorCode =
    TruncatedHeader | InvalidMagic | UnsupportedFormatVersion | UnknownMessageClass
  | UnknownMessageKind | ClassKindMismatch | EmptyPayload | PayloadTooLarge | FrameLengthMismatch

record FrameError =
  errorStage :: FrameErrorStage
  errorCode :: FrameErrorCode
  observedFormatVersion :: u8
  observedMessageClass :: u8
  observedMessageKind :: u16
  observedBytes :: nat
  limitBytes :: nat

definition frameError ::
  "FrameErrorStage \<Rightarrow> FrameErrorCode \<Rightarrow> u8 \<Rightarrow> u8 \<Rightarrow> u16 \<Rightarrow> nat \<Rightarrow> nat \<Rightarrow> FrameError" where
  "frameError st code version cls kind observed limit =
     \<lparr>errorStage = st, errorCode = code, observedFormatVersion = version,
      observedMessageClass = cls, observedMessageKind = kind, observedBytes = observed,
      limitBytes = limit\<rparr>"

record DecodedFrame =
  frameClass :: MessageClass
  frameKind :: MessageKind
  framePayload :: bytes

definition readLittleEndian16 :: "bytes \<Rightarrow> u16" where
  "readLittleEndian16 b = ucast (b ! 0) OR push_bit 8 (ucast (b ! 1))"

definition readLittleEndian32 :: "bytes \<Rightarrow> u32" where
  "readLittleEndian32 b =
     ucast (b ! 0) OR push_bit 8 (ucast (b ! 1)) OR push_bit 16 (ucast (b ! 2))
       OR push_bit 24 (ucast (b ! 3))"

definition writeLittleEndian16 :: "u16 \<Rightarrow> bytes" where
  "writeLittleEndian16 v = [ucast (v AND 0xff), ucast (drop_bit 8 v AND 0xff)]"

definition writeLittleEndian32 :: "u32 \<Rightarrow> bytes" where
  "writeLittleEndian32 v =
     [ucast (v AND 0xff), ucast (drop_bit 8 v AND 0xff), ucast (drop_bit 16 v AND 0xff),
      ucast (drop_bit 24 v AND 0xff)]"

definition validateDescriptor ::
  "u8 \<Rightarrow> u16 \<Rightarrow> u8 \<Rightarrow> FrameError + (MessageClass \<times> MessageDescriptor)" where
  "validateDescriptor rawClass rawKind formatVersion =
     (case class_of_code rawClass of
        None \<Rightarrow> Inl (frameError StageClassification UnknownMessageClass formatVersion rawClass rawKind 0 0)
      | Some cls \<Rightarrow>
        (case messageDescriptor rawKind of
           None \<Rightarrow> Inl (frameError StageClassification UnknownMessageKind formatVersion rawClass rawKind 0 0)
         | Some d \<Rightarrow>
           if descriptorClass d \<noteq> cls
           then Inl (frameError StageClassification ClassKindMismatch formatVersion rawClass rawKind 0 0)
           else Inr (cls, d)))"

definition decodeProtocolFrame :: "bytes \<Rightarrow> FrameError + DecodedFrame" where
  "decodeProtocolFrame frame =
     (if length frame < ProtocolFrameHeaderBytes
      then Inl (frameError StageHeader TruncatedHeader 0 0 0 (length frame) ProtocolFrameHeaderBytes)
      else if take 4 frame \<noteq> ProtocolFrameMagic
      then Inl (frameError StageHeader InvalidMagic 0 0 0 0 0)
      else
        (let formatVersion = frame ! 4; rawClass = frame ! 5;
             rawKind = readLittleEndian16 (take 2 (drop 6 frame))
         in if formatVersion \<noteq> ProtocolFrameFormatVersion
            then Inl (frameError StageHeader UnsupportedFormatVersion formatVersion rawClass rawKind 0 0)
            else
              (case validateDescriptor rawClass rawKind formatVersion of
                 Inl e \<Rightarrow> Inl e
               | Inr (cls, d) \<Rightarrow>
                 (let declared = unat (readLittleEndian32 (take 4 (drop 8 frame)));
                      received = length frame - ProtocolFrameHeaderBytes
                  in if declared = 0
                     then Inl (frameError StagePayloadBudget EmptyPayload formatVersion rawClass rawKind
                                 0 (maximumPayload d))
                     else if declared > maximumPayload d
                     then Inl (frameError StagePayloadBudget PayloadTooLarge formatVersion rawClass rawKind
                                 declared (maximumPayload d))
                     else if declared \<noteq> received
                     then Inl (frameError StageFrameLength FrameLengthMismatch formatVersion rawClass
                                 rawKind received declared)
                     else Inr \<lparr>frameClass = cls, frameKind = descriptorKind d,
                                framePayload = drop ProtocolFrameHeaderBytes frame\<rparr>))))"

definition encodeProtocolFrame :: "u8 \<Rightarrow> u16 \<Rightarrow> bytes \<Rightarrow> FrameError + bytes" where
  "encodeProtocolFrame rawClass rawKind payload =
     (case class_of_code rawClass of
        None \<Rightarrow> Inl (frameError StageClassification UnknownMessageClass ProtocolFrameFormatVersion
                       rawClass rawKind 0 0)
      | Some cls \<Rightarrow>
        (case messageDescriptor rawKind of
           None \<Rightarrow> Inl (frameError StageClassification UnknownMessageKind ProtocolFrameFormatVersion
                          rawClass rawKind 0 0)
         | Some d \<Rightarrow>
           if descriptorClass d \<noteq> cls
           then Inl (frameError StageClassification ClassKindMismatch ProtocolFrameFormatVersion
                       rawClass rawKind 0 0)
           else if payload = []
           then Inl (frameError StagePayloadBudget EmptyPayload ProtocolFrameFormatVersion rawClass
                       rawKind 0 (maximumPayload d))
           else if length payload > maximumPayload d \<or> length payload > unat u32_max
           then Inl (frameError StagePayloadBudget PayloadTooLarge ProtocolFrameFormatVersion rawClass
                       rawKind (length payload) (maximumPayload d))
           else Inr (ProtocolFrameMagic @ [ProtocolFrameFormatVersion, rawClass]
                       @ writeLittleEndian16 rawKind
                       @ writeLittleEndian32 (of_nat (length payload)) @ payload)))"

section \<open>Codes and descriptors\<close>

lemma class_of_code_code [simp]: "class_of_code (class_code c) = Some c"
  by (cases c) (simp_all add: class_of_code_def)

lemma class_of_code_iff: "class_of_code n = Some c \<longleftrightarrow> n = class_code c"
proof
  assume "class_of_code n = Some c"
  then show "n = class_code c" by (auto simp: class_of_code_def split: if_splits)
qed simp

lemma kind_of_code_code [simp]: "kind_of_code (kind_code k) = Some k"
  by (cases k) (simp_all add: kind_of_code_def kind_code_def kind_codes_def)

lemma kind_codes_map_of: "(k, n) \<in> set kind_codes \<Longrightarrow> kind_code k = n"
  unfolding kind_codes_def by (auto simp: kind_code_def kind_codes_def)

lemma kind_of_code_iff: "kind_of_code n = Some k \<longleftrightarrow> n = kind_code k"
proof
  assume "kind_of_code n = Some k"
  then have "(n, k) \<in> set (map prod.swap kind_codes)" unfolding kind_of_code_def by (rule map_of_SomeD)
  then have "(k, n) \<in> set kind_codes" by auto
  then show "n = kind_code k" using kind_codes_map_of by metis
qed simp

lemma class_code_inject [simp]: "class_code a = class_code b \<longleftrightarrow> a = b"
  by (metis class_of_code_iff option.inject)

lemma kind_code_inject [simp]: "kind_code a = kind_code b \<longleftrightarrow> a = b"
  by (metis kind_of_code_iff option.inject)

lemmas frame_limits =
  ProtocolFrameHeaderBytes_def SessionControlMaximumPayloadBytes_def
  ReliableOperationMaximumPayloadBytes_def NativeGroundMaximumPayloadBytes_def
  LatestWinsSnapshotMaximumPayloadBytes_def PresentationSampleMaximumPayloadBytes_def

lemma kindDescriptor_limit: "snd (kindDescriptor k) \<le> classLimit (fst (kindDescriptor k))"
  by (cases k) (simp_all add: frame_limits)

lemma classLimit_bound: "classLimit c \<le> NativeGroundMaximumPayloadBytes"
  by (cases c) (simp_all add: frame_limits)

lemma messageDescriptor_Some_iff:
  "messageDescriptor n = Some d \<longleftrightarrow>
     n = kind_code (descriptorKind d) \<and> descriptorClass d = fst (kindDescriptor (descriptorKind d))
       \<and> maximumPayload d = snd (kindDescriptor (descriptorKind d))"
  by (cases d) (auto simp: messageDescriptor_def kind_of_code_iff)

lemma messageDescriptor_kind_code [simp]: "messageDescriptor (kind_code k) \<noteq> None"
  by (simp add: messageDescriptor_def)

lemma messageDescriptor_limit: "messageDescriptor n = Some d \<Longrightarrow> maximumPayload d \<le> 512 * 1024 - 12"
  using kindDescriptor_limit [of "descriptorKind d"] classLimit_bound [of "fst (kindDescriptor (descriptorKind d))"]
  by (simp add: messageDescriptor_Some_iff NativeGroundMaximumPayloadBytes_def ProtocolFrameHeaderBytes_def)

section \<open>Header words\<close>

lemma byte_mask: "ucast (v AND 0xff) = (ucast (v :: 'a::len word) :: u8)"
  by (rule bit_word_eqI) (auto simp: bit_simps bit_numeral_rec less_Suc_eq numeral_eq_Suc dest: bit_imp_le_length)

lemma write16: "writeLittleEndian16 v = le_bytes 2 v"
  by (simp add: writeLittleEndian16_def le_bytes_def byte_mask upt_rec)

lemma write32: "writeLittleEndian32 v = le_bytes 4 v"
  by (simp add: writeLittleEndian32_def le_bytes_def byte_mask upt_rec)

lemma read16: "length b = 2 \<Longrightarrow> readLittleEndian16 b = le_word b"
  by (auto simp: readLittleEndian16_def numeral_2_eq_2 length_Suc_conv)

lemma read32: "length b = 4 \<Longrightarrow> readLittleEndian32 b = le_word b"
  by (auto simp: readLittleEndian32_def eval_nat_numeral length_Suc_conv push_bit_or ac_simps)

text \<open>The five fields of a frame that is at least as long as its header.\<close>

definition header_frame :: "u8 \<Rightarrow> u8 \<Rightarrow> u16 \<Rightarrow> u32 \<Rightarrow> bytes \<Rightarrow> bytes" where
  "header_frame version cls kind n payload =
     ProtocolFrameMagic @ [version, cls] @ le_bytes 2 kind @ le_bytes 4 n @ payload"

lemma le_bytes_2: "le_bytes 2 v = [le_bytes 2 v ! 0, le_bytes 2 v ! 1]"
  by (simp add: le_bytes_def upt_rec)

lemma le_bytes_4: "le_bytes 4 v = [le_bytes 4 v ! 0, le_bytes 4 v ! 1, le_bytes 4 v ! 2, le_bytes 4 v ! 3]"
  by (simp add: le_bytes_def upt_rec numeral_eq_Suc)

lemma header_frame_fields:
  shows "length (header_frame v c k n p) = ProtocolFrameHeaderBytes + length p"
    and "take 4 (header_frame v c k n p) = ProtocolFrameMagic"
    and "header_frame v c k n p ! 4 = v"
    and "header_frame v c k n p ! 5 = c"
    and "readLittleEndian16 (take 2 (drop 6 (header_frame v c k n p))) = k"
    and "readLittleEndian32 (take 4 (drop 8 (header_frame v c k n p))) = n"
    and "drop ProtocolFrameHeaderBytes (header_frame v c k n p) = p"
  by (simp_all add: header_frame_def ProtocolFrameMagic_def ProtocolFrameHeaderBytes_def nth_append
      read16 read32 le_word_le_bytes_full)

lemma take_drop_split: "take m xs @ take n (drop m xs) @ drop (m + n) xs = xs"
  by (metis append_take_drop_id drop_drop add.commute)

lemma header_frame_exists:
  assumes "ProtocolFrameHeaderBytes \<le> length f" and "take 4 f = ProtocolFrameMagic"
  shows "f = header_frame (f ! 4) (f ! 5) (readLittleEndian16 (take 2 (drop 6 f)))
               (readLittleEndian32 (take 4 (drop 8 f))) (drop ProtocolFrameHeaderBytes f)"
proof -
  have k: "le_bytes 2 (readLittleEndian16 (take 2 (drop 6 f))) = take 2 (drop 6 f)"
    and n: "le_bytes 4 (readLittleEndian32 (take 4 (drop 8 f))) = take 4 (drop 8 f)"
    using assms(1) le_bytes_le_word [where 'a = 16, of "take 2 (drop 6 f)"]
      le_bytes_le_word [where 'a = 32, of "take 4 (drop 8 f)"]
    by (simp_all add: read16 read32 ProtocolFrameHeaderBytes_def)
  have "take 2 (drop 4 f) = [f ! 4, f ! 5]"
    using assms(1) by (simp add: ProtocolFrameHeaderBytes_def numeral_2_eq_2 take_Suc_conv_app_nth)
  then have "f = ProtocolFrameMagic @ [f ! 4, f ! 5] @ take 2 (drop 6 f) @ take 4 (drop 8 f) @ drop 12 f"
    using take_drop_split [of 4 f 2] take_drop_split [of 2 "drop 6 f" 4] assms(2)
      append_take_drop_id [of 2 "drop 6 f"] by simp
  then show ?thesis by (simp only: header_frame_def k n ProtocolFrameHeaderBytes_def)
qed

section \<open>Encoding and decoding\<close>

definition accepts_frame :: "MessageClass \<Rightarrow> MessageKind \<Rightarrow> nat \<Rightarrow> bool" where
  "accepts_frame c k n \<longleftrightarrow> fst (kindDescriptor k) = c \<and> 0 < n \<and> n \<le> snd (kindDescriptor k)"

lemma kind_limit_u32: "snd (kindDescriptor k) < 2 ^ 32"
  by (rule le_less_trans [OF order_trans [OF kindDescriptor_limit classLimit_bound]])
    (simp add: frame_limits)

lemma decode_header_frame:
  "decodeProtocolFrame (header_frame ProtocolFrameFormatVersion c k n p) = Inr d \<longleftrightarrow>
     c = class_code (frameClass d) \<and> k = kind_code (frameKind d) \<and> framePayload d = p
       \<and> unat n = length p \<and> accepts_frame (frameClass d) (frameKind d) (length p)"
  by (cases d)
    (auto simp: decodeProtocolFrame_def header_frame_fields validateDescriptor_def Let_def
      accepts_frame_def messageDescriptor_Some_iff class_of_code_iff
      split: option.splits if_splits sum.splits)

lemma encode_Inr_iff:
  "encodeProtocolFrame c k p = Inr f \<longleftrightarrow>
     (\<exists>mc mk. c = class_code mc \<and> k = kind_code mk \<and> accepts_frame mc mk (length p)
        \<and> f = header_frame ProtocolFrameFormatVersion c k (of_nat (length p)) p)"
proof -
  have "length p \<le> snd (kindDescriptor mk) \<Longrightarrow> length p \<le> 4294967295" for mk
    using kind_limit_u32 [of mk] by simp
  then show ?thesis
    by (auto simp: encodeProtocolFrame_def header_frame_def write16 write32 accepts_frame_def
        messageDescriptor_Some_iff class_of_code_iff messageDescriptor_def kind_of_code_iff
        split: option.splits if_splits)
qed

text \<open>
  C2: the frame codec is a bijection between the frames it accepts and the messages it can send. A
  byte string decodes to a class, a kind and a payload exactly when encoding those three yields
  that very byte string: encoding loses nothing, decoding accepts no second spelling of a message.
\<close>

theorem frame_codec_bijective:
  "decodeProtocolFrame f = Inr d \<longleftrightarrow>
     encodeProtocolFrame (class_code (frameClass d)) (kind_code (frameKind d)) (framePayload d) = Inr f"
  (is "?D \<longleftrightarrow> ?E")
proof
  assume ?D
  have "ProtocolFrameHeaderBytes \<le> length f" and "take 4 f = ProtocolFrameMagic"
    and "f ! 4 = ProtocolFrameFormatVersion"
    using \<open>?D\<close> by (auto simp: decodeProtocolFrame_def Let_def split: if_splits)
  then obtain c k n p where f: "f = header_frame ProtocolFrameFormatVersion c k n p"
    using header_frame_exists by metis
  have d: "c = class_code (frameClass d)" "k = kind_code (frameKind d)" "framePayload d = p"
      "unat n = length p" "accepts_frame (frameClass d) (frameKind d) (length p)"
    using \<open>?D\<close> unfolding f decode_header_frame by simp_all
  have "n = of_nat (length p)" unfolding d(4) [symmetric] by simp
  with d f show ?E by (auto simp: encode_Inr_iff)
next
  assume ?E
  then show ?D using kind_limit_u32 [of "frameKind d"]
    by (auto simp: encode_Inr_iff decode_header_frame unat_of_nat accepts_frame_def)
qed

text \<open>
  C36: a frame the decoder accepts is longer than its header, carries a payload within the limit of
  its message kind, and is never longer than half a mebibyte, whatever its class.
\<close>

theorem decoded_frame_bounded:
  assumes "decodeProtocolFrame f = Inr d"
  shows "ProtocolFrameHeaderBytes < length f \<and> length f \<le> 512 * 1024
      \<and> length f = ProtocolFrameHeaderBytes + length (framePayload d)
      \<and> fst (kindDescriptor (frameKind d)) = frameClass d
      \<and> length (framePayload d) \<le> snd (kindDescriptor (frameKind d))
      \<and> length (framePayload d) \<le> classLimit (frameClass d)"
proof -
  have acc: "accepts_frame (frameClass d) (frameKind d) (length (framePayload d))"
    and len: "length f = ProtocolFrameHeaderBytes + length (framePayload d)"
    using assms by (auto simp: decodeProtocolFrame_def validateDescriptor_def Let_def accepts_frame_def
        messageDescriptor_Some_iff class_of_code_iff split: option.splits if_splits sum.splits)
  have "length (framePayload d) \<le> classLimit (frameClass d)"
    using acc kindDescriptor_limit [of "frameKind d"] by (auto simp: accepts_frame_def)
  with acc len classLimit_bound [of "frameClass d"] show ?thesis
    by (simp add: accepts_frame_def frame_limits)
qed

definition sample_frame :: bytes where
  "sample_frame = [0x54, 0x33, 0x4D, 0x50, 1, 1, 0x02, 0x00, 3, 0, 0, 0, 7, 8, 9]"

definition sample_message :: DecodedFrame where
  "sample_message =
     \<lparr>frameClass = ClassSessionControl, frameKind = ServerHello, framePayload = [7, 8, 9]\<rparr>"

lemma decode_sample: "decodeProtocolFrame sample_frame = Inr sample_message"
  by code_simp

theorem decoded_frame_bounded_witness:
  "decodeProtocolFrame sample_frame = Inr sample_message
     \<and> length (framePayload sample_message) \<le> classLimit (frameClass sample_message)"
  using decoded_frame_bounded [OF decode_sample] decode_sample by simp

end
