(* ===== verification/Spatial_Types.thy ===== *)
theory Spatial_Types
  imports Value_Types
begin

unbundle bit_operations_syntax

text \<open>
  \<^verbatim>\<open>spatial_types.hpp\<close> and the fixed-point part of \<^verbatim>\<open>movement_policy.hpp\<close>: cells and their order,
  positions, the reach test every interaction of the server goes through, and the movement
  profile that bounds a player's velocity. Signed coordinates are words read with \<open>sint\<close>.
\<close>

section \<open>Cells\<close>

datatype CellId = InteriorCell CellSpaceId | ExteriorCell CellSpaceId i32 i32

text \<open>
  The defaulted \<^verbatim>\<open>operator<=>\<close> of the variant compares the alternative's index, then the members in
  declaration order; the grid coordinates are signed.
\<close>

definition cell_key :: "CellId \<Rightarrow> nat \<times> u64 \<times> int \<times> int" where
  "cell_key c = (case c of InteriorCell s \<Rightarrow> (0, s, 0, 0) | ExteriorCell w x y \<Rightarrow> (1, w, sint x, sint y))"

lemma cell_key_inject: "cell_key a = cell_key b \<Longrightarrow> a = b"
  by (auto simp: cell_key_def split: CellId.splits intro: signed_word_eqI)

instantiation CellId :: linorder
begin

definition less_eq_CellId :: "CellId \<Rightarrow> CellId \<Rightarrow> bool" where
  "less_eq_CellId a b \<longleftrightarrow> cell_key a \<le> cell_key b"

definition less_CellId :: "CellId \<Rightarrow> CellId \<Rightarrow> bool" where
  "less_CellId a b \<longleftrightarrow> cell_key a < cell_key b"

instance
  by standard (auto simp: less_eq_CellId_def less_CellId_def intro: cell_key_inject)

end

definition sharesCellNeighborhood :: "CellId \<Rightarrow> CellId \<Rightarrow> bool" where
  "sharesCellNeighborhood first second =
     (if first = second then True
      else case (first, second) of
        (ExteriorCell wa ax ay, ExteriorCell wb bx b_y) \<Rightarrow>
          if wa \<noteq> wb then False
          else let x = sint ax - sint bx; y = sint ay - sint b_y
               in x \<ge> -1 \<and> x \<le> 1 \<and> y \<ge> -1 \<and> y \<le> 1
      | _ \<Rightarrow> False)"

section \<open>Positions and reach\<close>

record Position3 =
  pos_x :: i64
  pos_y :: i64
  pos_z :: i64

record Orientation3 =
  turn_x :: u32
  turn_y :: u32
  turn_z :: u32

record Transform =
  t_cell :: CellId
  t_position :: Position3
  t_orientation :: Orientation3

record LinearVelocity3 =
  vel_x :: i64
  vel_y :: i64
  vel_z :: i64

definition orderedCoordinate :: "i64 \<Rightarrow> u64" where
  "orderedCoordinate value = value XOR push_bit 63 1"

definition coordinateDistance :: "i64 \<Rightarrow> i64 \<Rightarrow> u64" where
  "coordinateDistance left right =
     (let orderedLeft = orderedCoordinate left; orderedRight = orderedCoordinate right
      in if orderedLeft \<ge> orderedRight then orderedLeft - orderedRight else orderedRight - orderedLeft)"

definition positionsWithinReach :: "Position3 \<Rightarrow> Position3 \<Rightarrow> u32 \<Rightarrow> bool" where
  "positionsWithinReach left right maxReach =
     (let limit = (ucast maxReach :: u64);
          dx = coordinateDistance (pos_x left) (pos_x right);
          dy = coordinateDistance (pos_y left) (pos_y right);
          dz = coordinateDistance (pos_z left) (pos_z right)
      in if dx > limit \<or> dy > limit \<or> dz > limit then False
         else
           let remainingSquared = limit * limit; dxSquared = dx * dx
           in if dxSquared > remainingSquared then False
              else
                let remainingSquared = remainingSquared - dxSquared; dySquared = dy * dy
                in if dySquared > remainingSquared then False
                   else let remainingSquared = remainingSquared - dySquared
                        in dz * dz \<le> remainingSquared)"

section \<open>Movement profiles\<close>

datatype LocomotionMode = Sneak | Walk | Run | Jump

definition MaximumMovementProfileQuantaPerTick :: u64 where
  "MaximumMovementProfileQuantaPerTick = 65536"

record MovementProfile =
  mSneakQuantaPerTick :: u64
  mWalkQuantaPerTick :: u64
  mRunQuantaPerTick :: u64
  mJumpQuantaPerTick :: u64

definition createMovementProfile :: "u64 \<Rightarrow> u64 \<Rightarrow> u64 \<Rightarrow> u64 \<Rightarrow> MovementProfile option" where
  "createMovementProfile sneak walk run jump =
     (if sneak = 0 \<or> sneak > walk \<or> walk > run \<or> run > MaximumMovementProfileQuantaPerTick
         \<or> jump = 0 \<or> jump > MaximumMovementProfileQuantaPerTick
      then None
      else Some \<lparr>mSneakQuantaPerTick = sneak, mWalkQuantaPerTick = walk,
                 mRunQuantaPerTick = run, mJumpQuantaPerTick = jump\<rparr>)"

definition profileSpeed :: "MovementProfile \<Rightarrow> LocomotionMode \<Rightarrow> u64" where
  "profileSpeed p mode =
     (case mode of Sneak \<Rightarrow> mSneakQuantaPerTick p | Walk \<Rightarrow> mWalkQuantaPerTick p
      | Run \<Rightarrow> mRunQuantaPerTick p | Jump \<Rightarrow> mJumpQuantaPerTick p)"

text \<open>The lambda \<^verbatim>\<open>magnitude\<close>: the absolute value of a signed word, as an unsigned word.\<close>

definition magnitude :: "i64 \<Rightarrow> u64" where
  "magnitude value = (if value <s 0 then - value else value)"

definition profileAllows :: "MovementProfile \<Rightarrow> LocomotionMode \<Rightarrow> LinearVelocity3 \<Rightarrow> bool" where
  "profileAllows p mode velocity =
     (let limit = profileSpeed p mode
      in if limit = 0 then False
         else
           let signedLimit = (limit :: i64)
           in if vel_x velocity <s - signedLimit \<or> signedLimit <s vel_x velocity
                 \<or> vel_y velocity <s - signedLimit \<or> signedLimit <s vel_y velocity
                 \<or> vel_z velocity <s - signedLimit \<or> signedLimit <s vel_z velocity
              then False
              else
                let x = magnitude (vel_x velocity); y = magnitude (vel_y velocity); z = magnitude (vel_z velocity)
                in x * x + y * y + z * z \<le> limit * limit)"

definition LegacyMotionAxisQuantaPerTick :: i64 where
  "LegacyMotionAxisQuantaPerTick = 4096"

definition LegacyMotionRadiusQuantaPerTick :: u64 where
  "LegacyMotionRadiusQuantaPerTick = 4097"

definition isLegacyMotionVelocitySafe :: "LinearVelocity3 \<Rightarrow> bool" where
  "isLegacyMotionVelocitySafe velocity =
     (if vel_x velocity <s - LegacyMotionAxisQuantaPerTick \<or> LegacyMotionAxisQuantaPerTick <s vel_x velocity
         \<or> vel_y velocity <s - LegacyMotionAxisQuantaPerTick \<or> LegacyMotionAxisQuantaPerTick <s vel_y velocity
         \<or> vel_z velocity <s - LegacyMotionAxisQuantaPerTick \<or> LegacyMotionAxisQuantaPerTick <s vel_z velocity
      then False
      else
        let x = magnitude (vel_x velocity); y = magnitude (vel_y velocity); z = magnitude (vel_z velocity)
        in x * x + y * y + z * z \<le> LegacyMotionRadiusQuantaPerTick * LegacyMotionRadiusQuantaPerTick)"

section \<open>Coordinate arithmetic is exact\<close>

lemma xor_sign_bit: "x XOR push_bit 63 1 = x + (2 ^ 63 :: 64 word)"
proof -
  have "x XOR push_bit 63 1 = flip_bit 63 x" by (simp add: flip_bit_eq_xor)
  also have "\<dots> = x + 2 ^ 63" by (simp add: flip_bit_eq_if set_bit_eq unset_bit_eq)
  finally show ?thesis .
qed

lemma orderedCoordinate_exact: "uint (orderedCoordinate v) = sint v + 2 ^ 63"
  unfolding orderedCoordinate_def xor_sign_bit
  by (simp add: sint_uint signed_take_bit_eq_take_bit_shift take_bit_eq_mod uint_word_ariths)

lemma coordinateDistance_exact: "uint (coordinateDistance l r) = \<bar>sint l - sint r\<bar>"
proof -
  have le: "orderedCoordinate b \<le> orderedCoordinate a \<longleftrightarrow> sint b \<le> sint a" for a b
    by (simp add: word_le_def orderedCoordinate_exact)
  have diff: "uint (a - b) = uint a - uint b" if "b \<le> a" for a b :: u64
    using that by (simp add: uint_minus_simple_alt)
  show ?thesis
    by (auto simp: coordinateDistance_def Let_def le diff orderedCoordinate_exact)
qed

lemma unat_coordinateDistance: "unat (coordinateDistance l r) = nat \<bar>sint l - sint r\<bar>"
  by (simp add: coordinateDistance_exact unat_eq_nat_uint)

lemma unat_square_no_wrap:
  "unat (d :: u64) \<le> unat (m :: u32) \<Longrightarrow> unat (d * d) = (unat d)\<^sup>2 \<and> (unat d)\<^sup>2 \<le> (unat m)\<^sup>2"
proof -
  assume le: "unat d \<le> unat m"
  then have "unat d < 2 ^ 32" using le_less_trans [OF le unat_lt_u32] by simp
  then have "unat d * unat d < 2 ^ 32 * 2 ^ 32" by (intro mult_strict_mono) auto
  then have "unat (d * d) = unat d * unat d" by (subst unat_times_no_wrap) simp_all
  with le show ?thesis by (simp add: power2_eq_square mult_le_mono)
qed

lemma unat_ucast_u32 [simp]: "unat (ucast (m :: u32) :: u64) = unat m"
  using less_trans [OF unat_lt_u32 [of m], of 18446744073709551616]
  by (simp add: unsigned_ucast_eq take_bit_nat_eq_self_iff)

lemma square_lt_u64: "unat (m :: u32) * unat m < 18446744073709551616"
proof -
  have "unat m * unat m < 2 ^ 32 * 2 ^ 32" using unat_lt_u32 [of m] by (intro mult_strict_mono) auto
  then show ?thesis by simp
qed

lemma reach_words:
  fixes dx dy dz :: u64 and m :: u32
  shows "(if dx > ucast m \<or> dy > ucast m \<or> dz > ucast m then False
     else if dx * dx > ucast m * ucast m then False
     else if dy * dy > ucast m * ucast m - dx * dx then False
     else dz * dz \<le> ucast m * ucast m - dx * dx - dy * dy)
    \<longleftrightarrow> (unat dx)\<^sup>2 + (unat dy)\<^sup>2 + (unat dz)\<^sup>2 \<le> (unat m)\<^sup>2"
proof (cases "unat dx \<le> unat m \<and> unat dy \<le> unat m \<and> unat dz \<le> unat m")
  case True
  then have x: "unat (dx * dx) = (unat dx)\<^sup>2" and y: "unat (dy * dy) = (unat dy)\<^sup>2"
    and z: "unat (dz * dz) = (unat dz)\<^sup>2"
    using unat_square_no_wrap by blast+
  have m: "unat ((ucast m :: u64) * ucast m) = (unat m)\<^sup>2"
    using square_lt_u64 [of m] by (subst unat_times_no_wrap) (simp_all add: power2_eq_square)
  have "unat ((ucast m :: u64) * ucast m - dx * dx) = (unat m)\<^sup>2 - (unat dx)\<^sup>2"
    using True unat_square_no_wrap [of dx m] by (subst unat_minus_le) (simp_all add: word_le_nat_alt m x)
  moreover from this have "unat ((ucast m :: u64) * ucast m - dx * dx - dy * dy)
      = (unat m)\<^sup>2 - (unat dx)\<^sup>2 - (unat dy)\<^sup>2" if "(unat dy)\<^sup>2 \<le> (unat m)\<^sup>2 - (unat dx)\<^sup>2"
    using that by (subst unat_minus_le) (simp_all add: word_le_nat_alt y)
  ultimately show ?thesis
    using True by (auto simp: word_less_nat_alt word_le_nat_alt m x y z)
next
  case False
  then have "(unat m)\<^sup>2 < (unat dx)\<^sup>2 \<or> (unat m)\<^sup>2 < (unat dy)\<^sup>2 \<or> (unat m)\<^sup>2 < (unat dz)\<^sup>2"
    by (auto simp: not_le power_strict_mono)
  with False show ?thesis by (auto simp: word_less_nat_alt not_le)
qed

definition distance_squared :: "Position3 \<Rightarrow> Position3 \<Rightarrow> int" where
  "distance_squared a b = (sint (pos_x a) - sint (pos_x b))\<^sup>2 + (sint (pos_y a) - sint (pos_y b))\<^sup>2
     + (sint (pos_z a) - sint (pos_z b))\<^sup>2"

lemma reach_iff: "positionsWithinReach a b m \<longleftrightarrow> distance_squared a b \<le> (int (unat m))\<^sup>2"
proof -
  have "positionsWithinReach a b m \<longleftrightarrow>
      (unat (coordinateDistance (pos_x a) (pos_x b)))\<^sup>2 + (unat (coordinateDistance (pos_y a) (pos_y b)))\<^sup>2
      + (unat (coordinateDistance (pos_z a) (pos_z b)))\<^sup>2 \<le> (unat m)\<^sup>2"
    unfolding reach_words [symmetric] by (simp add: positionsWithinReach_def Let_def)
  also have "\<dots> \<longleftrightarrow> int ((unat (coordinateDistance (pos_x a) (pos_x b)))\<^sup>2
      + (unat (coordinateDistance (pos_y a) (pos_y b)))\<^sup>2
      + (unat (coordinateDistance (pos_z a) (pos_z b)))\<^sup>2) \<le> int ((unat m)\<^sup>2)"
    by (simp only: of_nat_le_iff)
  also have "\<dots> \<longleftrightarrow> distance_squared a b \<le> (int (unat m))\<^sup>2"
    by (simp add: distance_squared_def unat_coordinateDistance)
  finally show ?thesis .
qed

lemma reach_sym: "positionsWithinReach a b m = positionsWithinReach b a m"
  by (simp add: reach_iff distance_squared_def power2_commute)

lemma reach_refl: "positionsWithinReach a a m"
  by (simp add: reach_iff distance_squared_def)

lemma neighborhood_sym: "sharesCellNeighborhood a b = sharesCellNeighborhood b a"
  by (auto simp: sharesCellNeighborhood_def Let_def split: CellId.splits)

section \<open>Velocities\<close>

lemma magnitude_exact: "\<bar>sint v\<bar> \<le> 65536 \<Longrightarrow> unat (magnitude v) = nat \<bar>sint v\<bar>"
proof -
  assume bound: "\<bar>sint v\<bar> \<le> 65536"
  have v: "v = word_of_int (sint v)" by simp
  have "uint (magnitude v) = \<bar>sint v\<bar>"
  proof (cases "sint v < 0")
    case True
    then have "magnitude v = word_of_int (- sint v)"
      by (simp add: magnitude_def word_sless_alt)
    then show ?thesis using True bound by (simp only: uint_word_of_int) simp
  next
    case False
    then have "magnitude v = word_of_int (sint v)" by (simp add: magnitude_def word_sless_alt)
    then show ?thesis using False bound by (simp only: uint_word_of_int) simp
  qed
  then show ?thesis by (simp add: unat_eq_nat_uint)
qed

definition speed_squared :: "LinearVelocity3 \<Rightarrow> int" where
  "speed_squared v = (sint (vel_x v))\<^sup>2 + (sint (vel_y v))\<^sup>2 + (sint (vel_z v))\<^sup>2"

lemma speed_words:
  fixes v :: LinearVelocity3 and limit :: u64 and signedLimit :: i64 and L :: int
  assumes L: "sint signedLimit = L" "sint (- signedLimit) = - L" "0 \<le> L" "L \<le> 65536"
    and R: "unat limit \<le> 65536"
  shows "(if vel_x v <s - signedLimit \<or> signedLimit <s vel_x v \<or> vel_y v <s - signedLimit
        \<or> signedLimit <s vel_y v \<or> vel_z v <s - signedLimit \<or> signedLimit <s vel_z v
      then False
      else magnitude (vel_x v) * magnitude (vel_x v) + magnitude (vel_y v) * magnitude (vel_y v)
        + magnitude (vel_z v) * magnitude (vel_z v) \<le> limit * limit)
    \<longleftrightarrow> \<bar>sint (vel_x v)\<bar> \<le> L \<and> \<bar>sint (vel_y v)\<bar> \<le> L \<and> \<bar>sint (vel_z v)\<bar> \<le> L
        \<and> speed_squared v \<le> (int (unat limit))\<^sup>2"
proof -
  have sq: "unat (magnitude w * magnitude w) = (nat \<bar>sint w\<bar>)\<^sup>2 \<and> (nat \<bar>sint w\<bar>)\<^sup>2 \<le> 4294967296"
    if "\<bar>sint w\<bar> \<le> L" for w
  proof -
    have b: "nat \<bar>sint w\<bar> \<le> 65536" using that L by linarith
    then have "nat \<bar>sint w\<bar> * nat \<bar>sint w\<bar> \<le> 65536 * 65536" by (intro mult_le_mono)
    moreover have "unat (magnitude w) = nat \<bar>sint w\<bar>" using that L by (intro magnitude_exact) linarith
    ultimately show ?thesis by (subst unat_times_no_wrap) (simp_all add: power2_eq_square)
  qed
  have "unat limit * unat limit \<le> 65536 * 65536" using R by (intro mult_le_mono)
  then have lim: "unat (limit * limit) = (unat limit)\<^sup>2"
    by (subst unat_times_no_wrap) (simp_all add: power2_eq_square)
  have sum: "unat (magnitude (vel_x v) * magnitude (vel_x v) + magnitude (vel_y v) * magnitude (vel_y v)
        + magnitude (vel_z v) * magnitude (vel_z v))
      = (nat \<bar>sint (vel_x v)\<bar>)\<^sup>2 + (nat \<bar>sint (vel_y v)\<bar>)\<^sup>2 + (nat \<bar>sint (vel_z v)\<bar>)\<^sup>2"
    if b: "\<bar>sint (vel_x v)\<bar> \<le> L" "\<bar>sint (vel_y v)\<bar> \<le> L" "\<bar>sint (vel_z v)\<bar> \<le> L"
    using sq [OF b(1)] sq [OF b(2)] sq [OF b(3)]
    by (subst unat_plus_no_wrap, subst unat_plus_no_wrap) (simp_all add: unat_plus_no_wrap)
  have cmp: "(nat \<bar>sint (vel_x v)\<bar>)\<^sup>2 + (nat \<bar>sint (vel_y v)\<bar>)\<^sup>2 + (nat \<bar>sint (vel_z v)\<bar>)\<^sup>2 \<le> (unat limit)\<^sup>2
      \<longleftrightarrow> speed_squared v \<le> (int (unat limit))\<^sup>2"
    unfolding speed_squared_def
    by (subst of_nat_le_iff [where 'a = int, symmetric]) (simp only: of_nat_add of_nat_power int_nat_eq, simp)
  show ?thesis
    using sum by (auto simp: word_sless_alt L word_le_nat_alt lim cmp abs_le_iff)
qed

definition profile_wf :: "MovementProfile \<Rightarrow> bool" where
  "profile_wf p \<longleftrightarrow> (\<forall>mode. 0 < unat (profileSpeed p mode) \<and> unat (profileSpeed p mode) \<le> 65536)"

lemma createMovementProfile_wf: "createMovementProfile a b c d = Some p \<Longrightarrow> profile_wf p"
  by (auto simp: createMovementProfile_def profile_wf_def profileSpeed_def
      MaximumMovementProfileQuantaPerTick_def word_le_nat_alt word_less_nat_alt unat_gt_0
      split: if_splits LocomotionMode.splits)

lemma sint_small: "unat (w :: u64) \<le> 65536 \<Longrightarrow> sint w = int (unat w) \<and> sint (- w) = - int (unat w)"
proof -
  assume le: "unat w \<le> 65536"
  have w: "w = word_of_int (int (unat w))" by simp
  have "sint (word_of_int (int n) :: u64) = int n \<and> sint (- (word_of_int (int n)) :: u64) = - int n"
    if "n \<le> 65536" for n
    using that
    by (simp only: of_int_minus [symmetric] sint_sbintrunc') (simp add: signed_take_bit_int_eq_self)
  with le w show ?thesis by metis
qed

lemma profileAllows_iff:
  assumes "profile_wf p"
  shows "profileAllows p mode v \<longleftrightarrow> speed_squared v \<le> (int (unat (profileSpeed p mode)))\<^sup>2"
proof -
  let ?l = "profileSpeed p mode"
  have b: "0 < unat ?l" "unat ?l \<le> 65536"
    using assms by (auto simp: profile_wf_def)
  have axis: "\<bar>sint w\<bar> \<le> int (unat ?l)" if "(sint w)\<^sup>2 \<le> (int (unat ?l))\<^sup>2" for w :: u64
    using that by (simp add: abs_le_square_iff [symmetric])
  have "profileAllows p mode v \<longleftrightarrow>
      \<bar>sint (vel_x v)\<bar> \<le> int (unat ?l) \<and> \<bar>sint (vel_y v)\<bar> \<le> int (unat ?l) \<and> \<bar>sint (vel_z v)\<bar> \<le> int (unat ?l)
      \<and> speed_squared v \<le> (int (unat ?l))\<^sup>2"
    using b(1) speed_words [OF conjunct1 [OF sint_small [OF b(2)]] conjunct2 [OF sint_small [OF b(2)]]
        of_nat_0_le_iff _ b(2), of v] of_nat_mono [OF b(2), where 'a = int]
    by (auto simp: profileAllows_def Let_def)
  moreover have "speed_squared v \<le> (int (unat ?l))\<^sup>2 \<Longrightarrow>
      \<bar>sint (vel_x v)\<bar> \<le> int (unat ?l) \<and> \<bar>sint (vel_y v)\<bar> \<le> int (unat ?l) \<and> \<bar>sint (vel_z v)\<bar> \<le> int (unat ?l)"
    unfolding speed_squared_def
    by (intro conjI axis; smt (verit) zero_le_power2)
  ultimately show ?thesis by blast
qed

section \<open>Properties\<close>

text \<open>
  C21. The reach test is the Euclidean one: two positions are within reach exactly when the
  squared distance of their signed 64-bit coordinates, computed in unbounded integers, is at
  most the square of the reach. No subtraction, product or sum of the code wraps.
\<close>

theorem positionsWithinReach_euclidean:
  "positionsWithinReach a b maxReach \<longleftrightarrow>
     (sint (pos_x a) - sint (pos_x b))\<^sup>2 + (sint (pos_y a) - sint (pos_y b))\<^sup>2
       + (sint (pos_z a) - sint (pos_z b))\<^sup>2 \<le> (int (unat maxReach))\<^sup>2"
  unfolding reach_iff distance_squared_def by (rule refl)

text \<open>
  A movement profile that was created admits, in every locomotion mode, exactly the velocities
  whose length is at most the mode's speed; the 64-bit squares and their sum do not wrap.
\<close>

theorem profileAllows_sphere:
  assumes "createMovementProfile sneak walk run jump = Some p"
  shows "profileAllows p mode v \<longleftrightarrow> speed_squared v \<le> (int (unat (profileSpeed p mode)))\<^sup>2"
  by (rule profileAllows_iff [OF createMovementProfile_wf [OF assms]])

theorem profileAllows_sphere_witness:
  "\<exists>p. createMovementProfile 100 200 300 400 = Some p \<and>
     profileAllows p Walk \<lparr>vel_x = 120, vel_y = - 160, vel_z = 0\<rparr> \<and>
     \<not> profileAllows p Walk \<lparr>vel_x = 120, vel_y = - 160, vel_z = 1\<rparr>"
proof -
  obtain p where p: "createMovementProfile 100 200 300 400 = Some p" "profileSpeed p Walk = 200"
    by (simp add: createMovementProfile_def MaximumMovementProfileQuantaPerTick_def profileSpeed_def)
  show ?thesis
    using p profileAllows_sphere [OF p(1), of Walk] by (auto simp: speed_squared_def)
qed

end
