(* ===== verification/Content_Identity.thy ===== *)
theory Content_Identity
  imports Spatial_Types
begin

unbundle bit_operations_syntax

text \<open>
  \<^verbatim>\<open>protocol/content_identity.cpp\<close>: the manifest of the game content a server runs (its cell spaces
  and cells), its 32-byte identity, and the parsers of the configuration strings it is built from.
  Every world of the server is created against a manifest and asks it which cells exist.
\<close>

section \<open>Manifest identity\<close>

definition ContentManifestIdBytes :: nat where
  "ContentManifestIdBytes = 32"

definition MaximumContentCellSpaces :: nat where
  "MaximumContentCellSpaces = 256"

definition MaximumContentCells :: nat where
  "MaximumContentCells = 4096"

type_synonym ContentManifestId = "u8 list"

definition manifestIdFromBytes :: "u8 list \<Rightarrow> ContentManifestId option" where
  "manifestIdFromBytes b =
     (if length b \<noteq> ContentManifestIdBytes \<or> list_all (\<lambda>v. v = 0) b then None else Some b)"

definition nibble :: "char \<Rightarrow> u8 option" where
  "nibble value =
     (let v = (of_char value :: nat)
      in if of_char CHR ''0'' \<le> v \<and> v \<le> of_char CHR ''9'' then Some (of_nat (v - of_char CHR ''0''))
         else if of_char CHR ''a'' \<le> v \<and> v \<le> of_char CHR ''f''
         then Some (of_nat (v - of_char CHR ''a'' + 10))
         else if of_char CHR ''A'' \<le> v \<and> v \<le> of_char CHR ''F''
         then Some (of_nat (v - of_char CHR ''A'' + 10))
         else None)"

fun hexBytes :: "string \<Rightarrow> u8 list option" where
  "hexBytes (h # l # rest) =
     (case (nibble h, nibble l) of
        (Some high, Some low) \<Rightarrow> map_option (Cons (push_bit 4 high OR low)) (hexBytes rest)
      | _ \<Rightarrow> None)"
| "hexBytes _ = Some []"

definition manifestIdFromHex :: "string \<Rightarrow> ContentManifestId option" where
  "manifestIdFromHex hex =
     (if length hex \<noteq> ContentManifestIdBytes * 2 then None
      else Option.bind (hexBytes hex) manifestIdFromBytes)"

section \<open>Manifests\<close>

datatype CellSpaceKind = InteriorSpace | ExteriorSpace

record CellSpaceDeclaration =
  space_id :: CellSpaceId
  space_kind :: CellSpaceKind

record ContentManifest =
  mId :: ContentManifestId
  mDefaultAppearance :: AppearanceId
  mCellSpaces :: "CellSpaceDeclaration list"
  mCells :: "CellId list"
  mMovementProfile :: MovementProfile

fun cell_space :: "CellId \<Rightarrow> CellSpaceId" where
  "cell_space (InteriorCell s) = s"
| "cell_space (ExteriorCell s x y) = s"

fun cell_kind :: "CellId \<Rightarrow> CellSpaceKind" where
  "cell_kind (InteriorCell s) = InteriorSpace"
| "cell_kind (ExteriorCell s x y) = ExteriorSpace"

definition createContentManifest ::
  "ContentManifestId \<Rightarrow> CellSpaceDeclaration list \<Rightarrow> CellId list \<Rightarrow> AppearanceId \<Rightarrow> MovementProfile
     \<Rightarrow> ContentManifest option" where
  "createContentManifest ident cellSpaces cells defaultAppearance movementProfile =
     (if cellSpaces = [] \<or> length cellSpaces > MaximumContentCellSpaces
         \<or> cells = [] \<or> length cells > MaximumContentCells then None
      else
        (let sortedSpaces = sort_key space_id cellSpaces; sortedCells = sort cells
         in if list_ex (\<lambda>d. space_id d = defaultAppearance) sortedSpaces
               \<or> \<not> no_adjacent_equal (map space_id sortedSpaces) then None
            else if \<not> no_adjacent_equal sortedCells then None
            else if list_ex (\<lambda>c. case lookup_key space_id sortedSpaces (cell_space c) of
                                   None \<Rightarrow> True
                                 | Some d \<Rightarrow> space_kind d \<noteq> cell_kind c) sortedCells then None
            else if list_ex (\<lambda>d. \<not> list_ex (\<lambda>c. space_kind d = cell_kind c \<and> cell_space c = space_id d)
                                     sortedCells) sortedSpaces then None
            else Some \<lparr>mId = ident, mDefaultAppearance = defaultAppearance, mCellSpaces = sortedSpaces,
                       mCells = sortedCells, mMovementProfile = movementProfile\<rparr>))"

definition manifest_contains :: "ContentManifest \<Rightarrow> CellId \<Rightarrow> bool" where
  "manifest_contains m c \<longleftrightarrow> find_key (\<lambda>x. x) (mCells m) c \<noteq> None"

definition manifest_space :: "ContentManifest \<Rightarrow> CellSpaceId \<Rightarrow> CellSpaceDeclaration option" where
  "manifest_space m s = lookup_key space_id (mCellSpaces m) s"

definition manifest_kind :: "ContentManifest \<Rightarrow> CellSpaceId \<Rightarrow> CellSpaceKind option" where
  "manifest_kind m s = map_option space_kind (manifest_space m s)"

section \<open>Configuration strings\<close>

text \<open>The parts of a string between the occurrences of a separator.\<close>

fun fields :: "char \<Rightarrow> string \<Rightarrow> string list" where
  "fields c [] = [[]]"
| "fields c (x # xs) =
     (if x = c then [] # fields c xs
      else case fields c xs of f # fs \<Rightarrow> (x # f) # fs | [] \<Rightarrow> [[x]])"

text \<open>
  \<^verbatim>\<open>std::from_chars\<close> in base ten over the whole string: digits only, at least one, in range, with a
  leading minus for signed types.
\<close>

definition is_digit :: "char \<Rightarrow> bool" where
  "is_digit c \<longleftrightarrow> of_char CHR ''0'' \<le> (of_char c :: nat) \<and> (of_char c :: nat) \<le> of_char CHR ''9''"

definition digits_value :: "string \<Rightarrow> nat" where
  "digits_value s = foldl (\<lambda>n c. 10 * n + (of_char c - of_char CHR ''0'')) 0 s"

definition decimal_u64 :: "string \<Rightarrow> u64 option" where
  "decimal_u64 s =
     (if s = [] \<or> \<not> list_all is_digit s \<or> digits_value s \<ge> 2 ^ 64 then None
      else Some (of_nat (digits_value s)))"

definition decimal_i32 :: "string \<Rightarrow> i32 option" where
  "decimal_i32 s =
     (case s of
        [] \<Rightarrow> None
      | c # ds \<Rightarrow>
        if c = CHR ''-''
        then (if ds = [] \<or> \<not> list_all is_digit ds \<or> digits_value ds > 2 ^ 31 then None
              else Some (- of_nat (digits_value ds)))
        else (if \<not> list_all is_digit s \<or> digits_value s \<ge> 2 ^ 31 then None
              else Some (of_nat (digits_value s))))"

definition parseKind :: "string \<Rightarrow> CellSpaceKind option" where
  "parseKind s =
     (if s = ''interior'' then Some InteriorSpace
      else if s = ''exterior'' then Some ExteriorSpace else None)"

definition parseSpaceId :: "string \<Rightarrow> CellSpaceId option" where
  "parseSpaceId s = Option.bind (decimal_u64 s) (fromValue Identity)"

fun parseSpaceEntry :: "string list \<Rightarrow> CellSpaceDeclaration option" where
  "parseSpaceEntry [k, i] =
     (case (parseKind k, parseSpaceId i) of
        (Some kind, Some ident) \<Rightarrow> Some \<lparr>space_id = ident, space_kind = kind\<rparr>
      | _ \<Rightarrow> None)"
| "parseSpaceEntry _ = None"

fun parseCellEntry :: "string list \<Rightarrow> CellId option" where
  "parseCellEntry [k, i] =
     (case (parseKind k, parseSpaceId i) of
        (Some InteriorSpace, Some ident) \<Rightarrow> Some (InteriorCell ident)
      | _ \<Rightarrow> None)"
| "parseCellEntry [k, i, a, b] =
     (case (parseKind k, parseSpaceId i) of
        (Some ExteriorSpace, Some ident) \<Rightarrow>
          (case (decimal_i32 a, decimal_i32 b) of
             (Some x, Some y) \<Rightarrow> Some (ExteriorCell ident x y)
           | _ \<Rightarrow> None)
      | _ \<Rightarrow> None)"
| "parseCellEntry _ = None"

text \<open>The shared loop of the two list parsers: entries between semicolons, at most \<open>limit\<close> of them.\<close>

fun parseEntries :: "(string list \<Rightarrow> 'a option) \<Rightarrow> nat \<Rightarrow> string list \<Rightarrow> 'a list option" where
  "parseEntries p limit [] = Some []"
| "parseEntries p limit (e # es) =
     (case p (fields CHR '':'' e) of
        None \<Rightarrow> None
      | Some x \<Rightarrow>
        (case limit of 0 \<Rightarrow> None | Suc n \<Rightarrow> map_option (Cons x) (parseEntries p n es)))"

definition parseCellSpaceDeclarations :: "string \<Rightarrow> CellSpaceDeclaration list option" where
  "parseCellSpaceDeclarations value =
     (if value = [] \<or> last value = CHR '';'' then None
      else parseEntries parseSpaceEntry MaximumContentCellSpaces (fields CHR '';'' value))"

definition parseContentCells :: "string \<Rightarrow> CellId list option" where
  "parseContentCells value =
     (if value = [] \<or> last value = CHR '';'' then None
      else parseEntries parseCellEntry MaximumContentCells (fields CHR '';'' value))"

fun parseSpeed :: "string \<Rightarrow> string list \<Rightarrow> u64 option" where
  "parseSpeed name [n, v] = (if n = name then decimal_u64 v else None)"
| "parseSpeed name _ = None"

definition parseMovementProfile :: "string \<Rightarrow> MovementProfile option" where
  "parseMovementProfile value =
     (case map (fields CHR '':'') (fields CHR '';'' value) of
        [a, b, c, d] \<Rightarrow>
          (case (parseSpeed ''sneak'' a, parseSpeed ''walk'' b, parseSpeed ''run'' c, parseSpeed ''jump'' d) of
             (Some sneak, Some walk, Some run, Some jump) \<Rightarrow> createMovementProfile sneak walk run jump
           | _ \<Rightarrow> None)
      | _ \<Rightarrow> None)"

section \<open>Well-formed manifests\<close>

definition manifest_ok :: "ContentManifest \<Rightarrow> bool" where
  "manifest_ok m \<longleftrightarrow>
     keys_sorted space_id (mCellSpaces m) \<and> sorted_wrt (<) (mCells m)
     \<and> mCellSpaces m \<noteq> [] \<and> length (mCellSpaces m) \<le> MaximumContentCellSpaces
     \<and> mCells m \<noteq> [] \<and> length (mCells m) \<le> MaximumContentCells
     \<and> (\<forall>d \<in> set (mCellSpaces m). space_id d \<noteq> mDefaultAppearance m)
     \<and> (\<forall>c \<in> set (mCells m). manifest_kind m (cell_space c) = Some (cell_kind c))
     \<and> (\<forall>d \<in> set (mCellSpaces m). \<exists>c \<in> set (mCells m).
            space_kind d = cell_kind c \<and> cell_space c = space_id d)"

lemma sort_key_strict:
  "no_adjacent_equal (map key (sort_key key xs)) \<longleftrightarrow> keys_sorted key (sort_key key xs)"
  by (simp add: sorted_no_adjacent_equal_iff strict_sorted_iff)

lemma sort_strict: "no_adjacent_equal (sort xs) \<longleftrightarrow> sorted_wrt (<) (sort xs :: 'a::linorder list)"
  by (simp add: sorted_no_adjacent_equal_iff strict_sorted_iff)

lemma distinct_sort_key: "distinct (map key (sort_key key xs)) \<longleftrightarrow> distinct (map key xs)"
  by (metis mset_map mset_sort mset_eq_imp_distinct_iff)

lemma keys_sorted_sort_key: "keys_sorted key (sort_key key xs) \<longleftrightarrow> distinct (map key xs)"
  by (simp add: strict_sorted_iff distinct_sort_key)

lemma sort_key_cong_mset:
  assumes "mset xs = mset ys" and "distinct (map key xs)"
  shows "sort_key key xs = sort_key key ys"
proof -
  have d: "distinct (map key ys)" using assms by (metis mset_map mset_eq_imp_distinct_iff)
  have s: "set xs = set ys" using assms(1) by (rule mset_eq_setD)
  show ?thesis
  proof (rule map_sorted_distinct_set_unique)
    show "inj_on key (set (sort_key key xs) \<union> set (sort_key key ys))"
      using assms(2) s by (simp add: distinct_map)
    show "set (sort_key key xs) = set (sort_key key ys)" using s by simp
  qed (simp_all add: assms(2) d distinct_sort_key)
qed

lemma if_None_chain:
  "(if a then None else if b then None else if c then None else if d then None else if e then None else Some x)
     = (if \<not> a \<and> \<not> b \<and> \<not> c \<and> \<not> d \<and> \<not> e then Some x else None)"
  by simp

lemma sort_key_Nil_iff [simp]: "sort_key key xs = [] \<longleftrightarrow> xs = []"
  by (metis length_0_conv length_sort)

lemma createContentManifest_iff:
  "createContentManifest ident sp cs a mp = Some m \<longleftrightarrow>
     m = \<lparr>mId = ident, mDefaultAppearance = a, mCellSpaces = sort_key space_id sp, mCells = sort cs,
          mMovementProfile = mp\<rparr> \<and> manifest_ok m"
proof -
  let ?m = "\<lparr>mId = ident, mDefaultAppearance = a, mCellSpaces = sort_key space_id sp, mCells = sort cs,
      mMovementProfile = mp\<rparr>"
  have kind: "\<not> (case lookup_key space_id (sort_key space_id sp) (cell_space c) of None \<Rightarrow> True
        | Some d \<Rightarrow> space_kind d \<noteq> cell_kind c)
      \<longleftrightarrow> manifest_kind ?m (cell_space c) = Some (cell_kind c)" for c
    by (simp add: manifest_kind_def manifest_space_def split: option.split)
  have "createContentManifest ident sp cs a mp = (if manifest_ok ?m then Some ?m else None)"
    unfolding createContentManifest_def Let_def sort_key_strict sort_strict manifest_ok_def
      list_ex_iff kind [symmetric] if_None_chain
    by (rule if_cong) (simp_all add: not_less, blast)
  then show ?thesis by auto
qed

interpretation manifest_spaces: keyed_table space_id mCellSpaces manifest_ok manifest_space
  by unfold_locales (simp add: manifest_space_def lookup_key_iff manifest_ok_def)

lemma manifest_contains_iff: "manifest_ok m \<Longrightarrow> manifest_contains m c \<longleftrightarrow> c \<in> set (mCells m)"
  using find_key_None_iff [of "\<lambda>x. x" "mCells m" c] by (simp add: manifest_contains_def manifest_ok_def)

lemma manifest_contains_kind:
  "manifest_ok m \<Longrightarrow> manifest_contains m c \<Longrightarrow> manifest_kind m (cell_space c) = Some (cell_kind c)"
  by (simp add: manifest_contains_iff) (simp add: manifest_ok_def)

text \<open>
  C38: a content manifest does not depend on the order in which its cell spaces and cells are
  declared: permuted declarations are rejected together or give the same manifest.
\<close>

theorem createContentManifest_permutation:
  assumes "mset sp = mset sp'" and "mset cs = mset cs'"
  shows "createContentManifest ident sp cs a mp = createContentManifest ident sp' cs' a mp"
proof -
  have same: "createContentManifest ident ys ds a mp = Some m"
    if "mset xs = mset ys" and "mset cs = mset ds" and create: "createContentManifest ident xs cs a mp = Some m"
    for xs ys cs ds m
  proof -
    have m: "m = \<lparr>mId = ident, mDefaultAppearance = a, mCellSpaces = sort_key space_id xs,
        mCells = sort cs, mMovementProfile = mp\<rparr>" and ok: "manifest_ok m"
      using create by (auto simp: createContentManifest_iff)
    have "sort cs = sort ds" using that(2) by (metis sorted_list_of_multiset_mset)
    moreover have "distinct (map space_id xs)" using ok by (simp add: m manifest_ok_def keys_sorted_sort_key)
    then have "sort_key space_id xs = sort_key space_id ys" by (rule sort_key_cong_mset [OF that(1)])
    ultimately show ?thesis using m ok by (simp add: createContentManifest_iff)
  qed
  show ?thesis
  proof (cases "createContentManifest ident sp cs a mp")
    case None
    then show ?thesis using same [OF assms(1) [symmetric] assms(2) [symmetric]] by fastforce
  next
    case (Some m)
    with same [OF assms Some] show ?thesis by simp
  qed
qed

text \<open>
  C33: a manifest that was created knows exactly the cells it was given, and the kind it reports for
  the cell space of a known cell is the kind of that cell.
\<close>

theorem createContentManifest_contains:
  assumes "createContentManifest ident sp cs a mp = Some m"
  shows "(manifest_contains m c \<longleftrightarrow> c \<in> set cs)
      \<and> (c \<in> set cs \<longrightarrow> manifest_kind m (cell_space c) = Some (cell_kind c))"
proof -
  have ok: "manifest_ok m" and "mCells m = sort cs" using assms by (auto simp: createContentManifest_iff)
  then have "manifest_contains m c \<longleftrightarrow> c \<in> set cs" by (simp add: manifest_contains_iff)
  with manifest_contains_kind [OF ok] show ?thesis by auto
qed

definition sample_profile :: MovementProfile where
  "sample_profile = \<lparr>mSneakQuantaPerTick = 1, mWalkQuantaPerTick = 2, mRunQuantaPerTick = 4,
     mJumpQuantaPerTick = 3\<rparr>"

definition sample_spaces :: "CellSpaceDeclaration list" where
  "sample_spaces = [\<lparr>space_id = 8, space_kind = ExteriorSpace\<rparr>, \<lparr>space_id = 7, space_kind = InteriorSpace\<rparr>]"

definition sample_cells :: "CellId list" where
  "sample_cells = [ExteriorCell 8 0 0, InteriorCell 7]"

definition sample_manifest_id :: ContentManifestId where
  "sample_manifest_id = map of_nat [1..<33]"

definition sample_manifest :: ContentManifest where
  "sample_manifest = \<lparr>mId = sample_manifest_id, mDefaultAppearance = 1, mCellSpaces = rev sample_spaces,
     mCells = rev sample_cells, mMovementProfile = sample_profile\<rparr>"

lemma sample_manifest_created:
  "createContentManifest sample_manifest_id sample_spaces sample_cells 1 sample_profile = Some sample_manifest"
  by code_simp

theorem createContentManifest_permutation_witness:
  "createContentManifest sample_manifest_id (rev sample_spaces) (rev sample_cells) 1 sample_profile
     = Some sample_manifest"
  using createContentManifest_permutation [of "rev sample_spaces" sample_spaces "rev sample_cells" sample_cells]
  by (simp add: sample_manifest_created)

theorem createContentManifest_contains_witness:
  "manifest_contains sample_manifest (InteriorCell 7) \<and> \<not> manifest_contains sample_manifest (InteriorCell 8)"
  using createContentManifest_contains [OF sample_manifest_created, of "InteriorCell 7"]
    createContentManifest_contains [OF sample_manifest_created, of "InteriorCell 8"]
  by (simp add: sample_cells_def)

section \<open>Printing and parsing the configuration strings\<close>

fun join :: "char \<Rightarrow> string list \<Rightarrow> string" where
  "join c [] = []"
| "join c [f] = f"
| "join c (f # fs) = f @ c # join c fs"

definition digit :: "nat \<Rightarrow> char" where
  "digit n = char_of (n + of_char CHR ''0'')"

fun show_nat :: "nat \<Rightarrow> string" where
  "show_nat n = (if n < 10 then [digit n] else show_nat (n div 10) @ [digit (n mod 10)])"

declare show_nat.simps [simp del]

definition show_int :: "int \<Rightarrow> string" where
  "show_int i = (if i < 0 then CHR ''-'' # show_nat (nat (- i)) else show_nat (nat i))"

definition show_kind :: "CellSpaceKind \<Rightarrow> string" where
  "show_kind k = (case k of InteriorSpace \<Rightarrow> ''interior'' | ExteriorSpace \<Rightarrow> ''exterior'')"

fun show_cell :: "CellId \<Rightarrow> string list" where
  "show_cell (InteriorCell s) = [show_kind InteriorSpace, show_nat (unat s)]"
| "show_cell (ExteriorCell s x y) =
     [show_kind ExteriorSpace, show_nat (unat s), show_int (sint x), show_int (sint y)]"

definition show_space :: "CellSpaceDeclaration \<Rightarrow> string list" where
  "show_space d = [show_kind (space_kind d), show_nat (unat (space_id d))]"

definition print_entries :: "('a \<Rightarrow> string list) \<Rightarrow> 'a list \<Rightarrow> string" where
  "print_entries show xs = join CHR '';'' (map (\<lambda>x. join CHR '':'' (show x)) xs)"

lemma fields_no_separator: "c \<notin> set f \<Longrightarrow> fields c f = [f]"
  by (induction f) auto

lemma fields_append: "c \<notin> set f \<Longrightarrow> fields c (f @ c # rest) = f # fields c rest"
  by (induction f) auto

lemma fields_join: "fs \<noteq> [] \<Longrightarrow> \<forall>f \<in> set fs. c \<notin> set f \<Longrightarrow> fields c (join c fs) = fs"
  by (induction c fs rule: join.induct) (auto simp: fields_no_separator fields_append)

lemma set_join: "set (join c fs) \<subseteq> insert c (\<Union> (set ` set fs))"
  by (induction c fs rule: join.induct) auto

lemma last_join: "fs \<noteq> [] \<Longrightarrow> last fs \<noteq> [] \<Longrightarrow> join c fs \<noteq> [] \<and> last (join c fs) = last (last fs)"
  by (induction c fs rule: join.induct) auto

lemma digit_char: "n < 10 \<Longrightarrow> (of_char (digit n) :: nat) = n + 48"
  by (simp add: digit_def take_bit_eq_mod)

lemma is_digit_digit: "n < 10 \<Longrightarrow> is_digit (digit n)"
  by (simp add: is_digit_def digit_char)

lemma show_nat_digits: "show_nat n \<noteq> [] \<and> list_all is_digit (show_nat n)"
proof (induction n rule: show_nat.induct)
  case (1 n)
  then show ?case by (subst (1 2) show_nat.simps) (simp add: is_digit_digit)
qed

lemma digits_value_snoc: "digits_value (s @ [c]) = 10 * digits_value s + (of_char c - of_char CHR ''0'')"
  by (simp add: digits_value_def)

lemma digits_value_show_nat [simp]: "digits_value (show_nat n) = n"
proof (induction n rule: show_nat.induct)
  case (1 n)
  show ?case
  proof (cases "n < 10")
    case True
    then show ?thesis by (subst show_nat.simps) (simp add: digits_value_def digit_char)
  next
    case False
    with 1 show ?thesis by (subst show_nat.simps) (simp add: digits_value_snoc digit_char)
  qed
qed

lemma digit_not_separator: "is_digit c \<Longrightarrow> c \<noteq> CHR '':'' \<and> c \<noteq> CHR '';'' \<and> c \<noteq> CHR ''-''"
  by (auto simp: is_digit_def)

lemma decimal_u64_show: "decimal_u64 (show_nat (unat w)) = Some w"
  using show_nat_digits [of "unat w"] unat_lt_u64 [of w] by (simp add: decimal_u64_def del: unat_lt_u64)

lemma decimal_i32_show: "decimal_i32 (show_int (sint w)) = Some w"
proof (cases "sint w < 0")
  case True
  have b: "- (2 ^ 31) \<le> sint w" using sint_greater_eq [of w] by simp
  have "(of_nat (nat (- sint w)) :: i32) = - w" using True by (simp add: of_nat_nat)
  with True b show_nat_digits [of "nat (- sint w)"] show ?thesis
    by (simp add: decimal_i32_def show_int_def)
next
  case False
  have b: "sint w < 2 ^ 31" using sint_lt [of w] by simp
  have "(of_nat (nat (sint w)) :: i32) = w" using False by simp
  moreover obtain c ds where s: "show_nat (nat (sint w)) = c # ds"
    using show_nat_digits by (metis neq_Nil_conv)
  moreover have "is_digit c" and "list_all is_digit ds" using show_nat_digits [of "nat (sint w)"] s by simp_all
  moreover have "digits_value (c # ds) = nat (sint w)" using s digits_value_show_nat by metis
  ultimately show ?thesis using False b digit_not_separator by (simp add: decimal_i32_def show_int_def)
qed

lemma show_parts_clean:
  "set (show_nat n) \<inter> {CHR '':'', CHR '';''} = {}"
  "set (show_int i) \<inter> {CHR '':'', CHR '';''} = {}"
  "set (show_kind k) \<inter> {CHR '':'', CHR '';''} = {}"
proof -
  show nat: "set (show_nat n) \<inter> {CHR '':'', CHR '';''} = {}" for n
    using show_nat_digits [of n] digit_not_separator by (auto simp: list_all_iff)
  show "set (show_int i) \<inter> {CHR '':'', CHR '';''} = {}" using nat by (auto simp: show_int_def)
  show "set (show_kind k) \<inter> {CHR '':'', CHR '';''} = {}" by (cases k) (simp_all add: show_kind_def)
qed

lemma parse_show_kind [simp]: "parseKind (show_kind k) = Some k"
  by (cases k) (simp_all add: parseKind_def show_kind_def)

lemma parse_show_id: "s \<noteq> 0 \<Longrightarrow> parseSpaceId (show_nat (unat s)) = Some s"
  by (simp add: parseSpaceId_def decimal_u64_show fromValue_def)

lemma parse_show_cell: "cell_space c \<noteq> 0 \<Longrightarrow> parseCellEntry (show_cell c) = Some c"
  by (cases c) (simp_all add: parse_show_id decimal_i32_show)

lemma parse_show_space: "space_id d \<noteq> 0 \<Longrightarrow> parseSpaceEntry (show_space d) = Some d"
  by (cases d) (simp add: show_space_def parse_show_id)

text \<open>What the printer of one entry owes to the list parser.\<close>

definition clean_entry :: "string list \<Rightarrow> bool" where
  "clean_entry fs \<longleftrightarrow> fs \<noteq> [] \<and> last fs \<noteq> [] \<and> (\<forall>f \<in> set fs. set f \<inter> {CHR '':'', CHR '';''} = {})"

lemma clean_show_cell: "clean_entry (show_cell c)"
  using show_parts_clean show_nat_digits by (cases c) (auto simp: clean_entry_def show_int_def)

lemma clean_show_space: "clean_entry (show_space d)"
  using show_parts_clean show_nat_digits by (auto simp: clean_entry_def show_space_def)

lemma fields_join_clean: "clean_entry fs \<Longrightarrow> fields CHR '':'' (join CHR '':'' fs) = fs"
  by (rule fields_join) (auto simp: clean_entry_def)

lemma join_clean:
  assumes "clean_entry fs"
  shows "join CHR '':'' fs \<noteq> [] \<and> CHR '';'' \<notin> set (join CHR '':'' fs)"
proof -
  have "fs \<noteq> []" and "last fs \<noteq> []" and "CHR '';'' \<notin> \<Union> (set ` set fs)"
    using assms by (auto simp: clean_entry_def)
  moreover have "CHR '';'' \<noteq> CHR '':''" by simp
  ultimately show ?thesis using last_join set_join [of "CHR '':''" fs] by blast
qed

lemma parseEntries_print:
  "length xs \<le> limit \<Longrightarrow> \<forall>x \<in> set xs. p (show x) = Some x \<and> clean_entry (show x) \<Longrightarrow>
     parseEntries p limit (map (\<lambda>x. join CHR '':'' (show x)) xs) = Some xs"
proof (induction xs arbitrary: limit)
  case (Cons x xs)
  then obtain n where "limit = Suc n" by (cases limit) simp_all
  with Cons show ?case by (simp add: fields_join_clean)
qed simp

lemma print_entries_shape:
  assumes "xs \<noteq> []" and "\<forall>x \<in> set xs. clean_entry (show x)"
  shows "print_entries show xs \<noteq> [] \<and> last (print_entries show xs) \<noteq> CHR '';''
      \<and> fields CHR '';'' (print_entries show xs) = map (\<lambda>x. join CHR '':'' (show x)) xs"
proof -
  let ?es = "map (\<lambda>x. join CHR '':'' (show x)) xs"
  have clean: "\<forall>e \<in> set ?es. e \<noteq> [] \<and> CHR '';'' \<notin> set e" using assms(2) join_clean by simp
  have ne: "?es \<noteq> []" using assms(1) by simp
  then have mem: "last ?es \<in> set ?es" by (rule last_in_set)
  with clean have "last (last ?es) \<noteq> CHR '';''" by (metis last_in_set)
  moreover have "last ?es \<noteq> []" using clean mem by blast
  moreover have "fields CHR '';'' (join CHR '';'' ?es) = ?es" using ne clean by (intro fields_join) auto
  ultimately show ?thesis using last_join [OF ne] unfolding print_entries_def by simp
qed

text \<open>
  C39: the configuration grammar of content cells round-trips: printing any non-empty list of at
  most 4096 cells (signed grid coordinates included) and parsing the text gives the list back.
\<close>

theorem parseContentCells_print:
  assumes "cells \<noteq> []" and "length cells \<le> MaximumContentCells" and "\<forall>c \<in> set cells. cell_space c \<noteq> 0"
  shows "parseContentCells (print_entries show_cell cells) = Some cells"
  using print_entries_shape [of cells show_cell] assms clean_show_cell
    parseEntries_print [of cells MaximumContentCells parseCellEntry show_cell] parse_show_cell
  by (simp add: parseContentCells_def)

theorem parseContentCells_print_witness:
  "parseContentCells (print_entries show_cell [InteriorCell 7, ExteriorCell 8 (- 12) 3])
     = Some [InteriorCell 7, ExteriorCell 8 (- 12) 3]"
  by (rule parseContentCells_print) (simp_all add: MaximumContentCells_def)

lemma parseCellSpaceDeclarations_print:
  assumes "spaces \<noteq> []" and "length spaces \<le> MaximumContentCellSpaces" and "\<forall>d \<in> set spaces. space_id d \<noteq> 0"
  shows "parseCellSpaceDeclarations (print_entries show_space spaces) = Some spaces"
  using print_entries_shape [of spaces show_space] assms clean_show_space
    parseEntries_print [of spaces MaximumContentCellSpaces parseSpaceEntry show_space] parse_show_space
  by (simp add: parseCellSpaceDeclarations_def)

section \<open>Hexadecimal identities\<close>

definition hex_digit :: "u8 \<Rightarrow> char" where
  "hex_digit w = ''0123456789abcdef'' ! unat w"

definition hex_of :: "u8 list \<Rightarrow> string" where
  "hex_of b = concat (map (\<lambda>v. [hex_digit (drop_bit 4 v), hex_digit (take_bit 4 v)]) b)"

lemma nibble_hex_digit: "unat w < 16 \<Longrightarrow> nibble (hex_digit w) = Some w"
proof -
  assume "unat w < 16"
  moreover have "\<forall>n \<in> set [0..<16]. nibble (''0123456789abcdef'' ! n) = Some (of_nat n)" by code_simp
  ultimately have "nibble (''0123456789abcdef'' ! unat w) = Some (of_nat (unat w))" by simp
  then show ?thesis by (simp add: hex_digit_def)
qed

lemma nibble_bounds: "unat (drop_bit 4 v) < 16" "unat (take_bit 4 v) < 16" for v :: u8
proof -
  have "unat v < 2 ^ LENGTH(8)" by (rule unsigned_less)
  then show "unat (drop_bit 4 v) < 16"
    unfolding unat_drop_bit_eq by (simp add: drop_bit_eq_div)
  show "unat (take_bit 4 v) < 16"
    unfolding unsigned_take_bit_eq by (simp add: take_bit_eq_mod)
qed

lemma nibbles_join: "push_bit 4 (drop_bit 4 v) OR take_bit 4 v = (v :: u8)"
  by (rule bit_word_eqI) (auto simp: bit_simps)

lemma hexBytes_hex_of: "hexBytes (hex_of b) = Some b"
  by (induction b) (simp_all add: hex_of_def nibble_hex_digit nibble_bounds nibbles_join)

lemma length_hex_of: "length (hex_of b) = 2 * length b"
  by (induction b) (simp_all add: hex_of_def)

text \<open>
  C41: the two spellings of a manifest identity agree: reading the hexadecimal form of any byte string
  accepts and rejects exactly what reading the bytes does, and yields the same identity.
\<close>

theorem manifestIdFromHex_hex_of: "manifestIdFromHex (hex_of b) = manifestIdFromBytes b"
  by (simp add: manifestIdFromHex_def manifestIdFromBytes_def length_hex_of hexBytes_hex_of)

end
