(* ===== verification/Item_Catalog.thy ===== *)
theory Item_Catalog
  imports Content_Identity Complex_Main
begin

unbundle bit_operations_syntax

text \<open>
  \<^verbatim>\<open>item_catalog.hpp\<close> and \<^verbatim>\<open>protocol/item_catalog.cpp\<close>: the item prototypes the server knows. Categories
  and equipment slots are enumerations over \<open>u8\<close> whose out-of-range values the code tests for, so
  they stay raw codes. A \<^verbatim>\<open>float\<close> is a rational or not finite.
\<close>

section \<open>Declarations\<close>

definition MaximumItemPrototypes :: nat where
  "MaximumItemPrototypes = 65536"

type_synonym ItemCategory = u8
type_synonym EquipmentSlot = u8

abbreviation CategoryPotion :: ItemCategory where "CategoryPotion \<equiv> 0"
abbreviation CategoryLockpick :: ItemCategory where "CategoryLockpick \<equiv> 7"
abbreviation CategoryProbe :: ItemCategory where "CategoryProbe \<equiv> 9"
abbreviation CategoryWeapon :: ItemCategory where "CategoryWeapon \<equiv> 11"

abbreviation SlotCarriedRight :: EquipmentSlot where "SlotCarriedRight \<equiv> 16"

definition EquipmentSlotCount :: u8 where
  "EquipmentSlotCount = 19"

definition slotToMask :: "EquipmentSlot \<Rightarrow> u32" where
  "slotToMask slot = (if slot \<ge> EquipmentSlotCount then 0 else push_bit (unat slot) 1)"

datatype cfloat = Finite rat | NotFinite

record ItemPrototypeDeclaration =
  decl_id :: ItemPrototypeId
  category :: ItemCategory
  weightUnits :: u32
  goldValue :: u32
  maxCondition :: u32
  maxEnchantmentCharge :: u32
  slotMask :: u32
  stackable :: bool
  keyId :: "KeyPrototypeId option"
  toolQuality :: cfloat

record ItemPrototypeCatalog =
  cat_manifestId :: ContentManifestId
  declarations :: "ItemPrototypeDeclaration list"

definition validSlotMask :: u32 where
  "validSlotMask = push_bit (unat EquipmentSlotCount) 1 - 1"

definition declarationValid :: "ItemPrototypeDeclaration \<Rightarrow> bool" where
  "declarationValid d \<longleftrightarrow>
     decl_id d \<noteq> 0
     \<and> \<not> (category d < CategoryPotion \<or> category d > CategoryWeapon)
     \<and> slotMask d AND NOT validSlotMask = 0
     \<and> keyId d \<noteq> Some 0
     \<and> (let securityTool = category d = CategoryLockpick \<or> category d = CategoryProbe
        in (case toolQuality d of
              NotFinite \<Rightarrow> False
            | Finite q \<Rightarrow> \<not> (if securityTool then q \<le> 0 else q \<noteq> 0))
           \<and> \<not> (securityTool \<and> (maxCondition d = 0 \<or> stackable d)))"

definition createItemPrototypeCatalog ::
  "ContentManifest \<Rightarrow> ItemPrototypeDeclaration list \<Rightarrow> ItemPrototypeCatalog option" where
  "createItemPrototypeCatalog manifest decls =
     (if length decls > MaximumItemPrototypes then None
      else let sorted = sort_key decl_id decls
           in if \<not> list_all declarationValid sorted \<or> \<not> no_adjacent_equal (map decl_id sorted) then None
              else Some \<lparr>cat_manifestId = mId manifest, declarations = sorted\<rparr>)"

definition findPrototype :: "ItemPrototypeCatalog \<Rightarrow> ItemPrototypeId \<Rightarrow> ItemPrototypeDeclaration option" where
  "findPrototype catalog ident = lookup_key decl_id (declarations catalog) ident"

section \<open>Well-formed catalogs\<close>

definition catalog_ok :: "ItemPrototypeCatalog \<Rightarrow> bool" where
  "catalog_ok c \<longleftrightarrow> keys_sorted decl_id (declarations c) \<and> length (declarations c) \<le> MaximumItemPrototypes
     \<and> (\<forall>d \<in> set (declarations c). declarationValid d)"

lemma createItemPrototypeCatalog_iff:
  "createItemPrototypeCatalog m decls = Some c \<longleftrightarrow>
     c = \<lparr>cat_manifestId = mId m, declarations = sort_key decl_id decls\<rparr> \<and> catalog_ok c"
  by (auto simp: createItemPrototypeCatalog_def Let_def sort_key_strict catalog_ok_def list_all_iff)

interpretation prototypes: keyed_table decl_id declarations catalog_ok findPrototype
  by unfold_locales (simp add: findPrototype_def lookup_key_iff catalog_ok_def)

lemma slotToMask_nonzero: "slot < EquipmentSlotCount \<Longrightarrow> slotToMask slot \<noteq> 0"
proof -
  assume "slot < EquipmentSlotCount"
  then have "unat slot < 19" by (simp add: EquipmentSlotCount_def word_less_nat_alt)
  then have "bit (slotToMask slot) (unat slot)"
    using \<open>slot < EquipmentSlotCount\<close> by (simp add: slotToMask_def bit_simps)
  then show ?thesis by auto
qed

text \<open>A security tool is never stackable and always wears out: each use costs one stack's condition.\<close>

lemma security_tool_declaration:
  assumes "catalog_ok c" and "findPrototype c i = Some d"
    and "category d = CategoryLockpick \<or> category d = CategoryProbe"
  shows "\<not> stackable d \<and> maxCondition d \<noteq> 0 \<and> (\<exists>q > 0. toolQuality d = Finite q)"
proof -
  have "declarationValid d" using assms(1) prototypes.lookup_memberD [OF assms(1,2)] by (simp add: catalog_ok_def)
  then show ?thesis using assms(3) by (cases "toolQuality d") (auto simp: declarationValid_def Let_def)
qed

end
