(* ===== verification/Canonical_State.thy ===== *)
theory Canonical_State
  imports Content_Identity
begin

text \<open>
  \<^verbatim>\<open>server_core/canonical_state.cpp\<close>: the authoritative players and sessions of the server. A state
  exists only if \<^verbatim>\<open>createCanonicalServerState\<close> accepted it, so what it checks is the invariant every
  other component relies on: players and sessions found by binary search, one entity per player,
  one session per player, and a contiguous history of finalized commands per session.
\<close>

section \<open>Data\<close>

definition MaximumCanonicalPlayerEntities :: nat where
  "MaximumCanonicalPlayerEntities = 256"

definition MaximumCanonicalActiveSessions :: nat where
  "MaximumCanonicalActiveSessions = 256"

definition MaximumFinalizedCommandHistory :: nat where
  "MaximumFinalizedCommandHistory = 1024"

datatype CommandDisposition =
    Applied | UnknownSession | SessionGenerationMismatch | AlreadyFinalized | SequenceGap
  | DuplicateCommandId | EntityBindingMismatch | EntityRevisionMismatch | AuthorityEpochMismatch
  | SpatialTickRegression | EntityRevisionExhausted | UnknownCell | MotionOutOfRange
  | ObjectInteractionRejected | InventoryTransactionRejected | CombatRejected
  | UnknownDialogueChoice | DialogueChoiceIneligible | DialogueChoiceRejected | WaitRestRejected

fun disposition_code :: "CommandDisposition \<Rightarrow> u64" where
  "disposition_code Applied = 0"
| "disposition_code UnknownSession = 1"
| "disposition_code SessionGenerationMismatch = 2"
| "disposition_code AlreadyFinalized = 3"
| "disposition_code SequenceGap = 4"
| "disposition_code DuplicateCommandId = 5"
| "disposition_code EntityBindingMismatch = 6"
| "disposition_code EntityRevisionMismatch = 7"
| "disposition_code AuthorityEpochMismatch = 8"
| "disposition_code SpatialTickRegression = 9"
| "disposition_code EntityRevisionExhausted = 10"
| "disposition_code UnknownCell = 11"
| "disposition_code MotionOutOfRange = 12"
| "disposition_code ObjectInteractionRejected = 13"
| "disposition_code InventoryTransactionRejected = 14"
| "disposition_code CombatRejected = 15"
| "disposition_code UnknownDialogueChoice = 16"
| "disposition_code DialogueChoiceIneligible = 17"
| "disposition_code DialogueChoiceRejected = 18"
| "disposition_code WaitRestRejected = 19"

record FinalizedCommandRecord =
  fin_sequence :: CommandSequence
  fin_command :: CommandId
  fin_disposition :: CommandDisposition

datatype CanonicalSessionHistoryErrorCode =
    LimitExceeded | WithoutAcknowledgement | NotContiguous | DoesNotEndAtAcknowledgement
  | ContainsNonFinalDisposition

record CanonicalSessionHistoryError =
  he_code :: CanonicalSessionHistoryErrorCode
  he_index :: nat
  he_value :: u64
  he_related :: u64

record CanonicalPlayerEntityState =
  playerId :: PlayerId
  entityId :: EntityId
  appearanceId :: AppearanceId
  transform :: Transform
  linearVelocity :: LinearVelocity3
  entityRevision :: EntityRevision
  authorityEpoch :: AuthorityEpoch
  lastSpatialChangeTick :: ServerTick
  locomotionMode :: LocomotionMode

datatype SpatialAdvanceErrorCode = TickRegression | RevisionExhausted

record SpatialAdvanceError =
  sa_code :: SpatialAdvanceErrorCode
  sa_previousTick :: ServerTick
  sa_proposedTick :: ServerTick
  sa_previousRevision :: EntityRevision

record CanonicalSessionProgress =
  sp_sessionId :: SessionId
  sp_generation :: SessionGeneration
  sp_playerId :: PlayerId
  sp_entityId :: EntityId
  sp_acknowledged :: "CommandSequence option"
  sp_history :: "FinalizedCommandRecord list"

datatype CanonicalStateErrorCode =
    PlayerLimitExceeded | ActiveSessionLimitExceeded | PlayerIdsNotStrictlyOrdered
  | SessionIdsNotStrictlyOrdered | DuplicateEntityId | SessionPlayerMissing | SessionEntityMismatch
  | DuplicateActiveBinding | FinalizedHistoryLimitExceeded | FinalizedHistoryWithoutAcknowledgement
  | FinalizedHistoryNotStrictlyOrdered | FinalizedHistoryDoesNotEndAtAcknowledgement
  | FinalizedHistoryContainsNonFinalDisposition

record CanonicalStateError =
  se_code :: CanonicalStateErrorCode
  se_index :: nat
  se_value :: u64
  se_related :: u64

record CanonicalServerState =
  players :: "CanonicalPlayerEntityState list"
  activeSessions :: "CanonicalSessionProgress list"

section \<open>Operations\<close>

definition stateError :: "CanonicalStateErrorCode \<Rightarrow> nat \<Rightarrow> u64 \<Rightarrow> u64 \<Rightarrow> CanonicalStateError" where
  "stateError code index value related =
     \<lparr>se_code = code, se_index = index, se_value = value, se_related = related\<rparr>"

definition historyError ::
  "CanonicalSessionHistoryErrorCode \<Rightarrow> nat \<Rightarrow> u64 \<Rightarrow> u64 \<Rightarrow> CanonicalSessionHistoryError" where
  "historyError code index value related =
     \<lparr>he_code = code, he_index = index, he_value = value, he_related = related\<rparr>"

definition nonFinalDisposition :: "CommandDisposition \<Rightarrow> bool" where
  "nonFinalDisposition d \<longleftrightarrow>
     d = UnknownSession \<or> d = SessionGenerationMismatch \<or> d = AlreadyFinalized \<or> d = SequenceGap"

definition historyStep :: "FinalizedCommandRecord list \<Rightarrow> nat \<Rightarrow> CanonicalSessionHistoryError option" where
  "historyStep history index =
     (let disposition = fin_disposition (history ! index)
      in if nonFinalDisposition disposition
         then Some (historyError ContainsNonFinalDisposition index (disposition_code disposition) 0)
         else if index \<noteq> 0 \<and> next_value (fin_sequence (history ! (index - 1)))
                              \<noteq> Some (fin_sequence (history ! index))
         then Some (historyError NotContiguous index (fin_sequence (history ! index))
                      (fin_sequence (history ! (index - 1))))
         else None)"

definition validateHistory ::
  "CommandSequence option \<Rightarrow> FinalizedCommandRecord list \<Rightarrow> CanonicalSessionHistoryError option" where
  "validateHistory acknowledgement history =
     (if length history > MaximumFinalizedCommandHistory
      then Some (historyError LimitExceeded (length history) (of_nat (length history)) 0)
      else if history \<noteq> [] \<and> acknowledgement = None
      then Some (historyError WithoutAcknowledgement 0 0 0)
      else case first_error (historyStep history) [0..<length history] of
        Some e \<Rightarrow> Some e
      | None \<Rightarrow>
        if history \<noteq> [] \<and> Some (fin_sequence (last history)) \<noteq> acknowledgement
        then Some (historyError DoesNotEndAtAcknowledgement (length history - 1)
                     (fin_sequence (last history)) (the acknowledgement))
        else None)"

definition containsFinalizedCommandId :: "CanonicalSessionProgress \<Rightarrow> CommandId \<Rightarrow> bool" where
  "containsFinalizedCommandId session commandId \<longleftrightarrow>
     list_ex (\<lambda>r. fin_command r = commandId) (sp_history session)"

definition createCanonicalSessionProgress ::
  "SessionId \<Rightarrow> SessionGeneration \<Rightarrow> PlayerId \<Rightarrow> EntityId \<Rightarrow> CommandSequence option
     \<Rightarrow> FinalizedCommandRecord list \<Rightarrow> CanonicalSessionHistoryError + CanonicalSessionProgress" where
  "createCanonicalSessionProgress sessionId generation player entity acknowledged history =
     (case validateHistory acknowledged history of
        Some e \<Rightarrow> Inl e
      | None \<Rightarrow> Inr \<lparr>sp_sessionId = sessionId, sp_generation = generation, sp_playerId = player,
                     sp_entityId = entity, sp_acknowledged = acknowledged, sp_history = history\<rparr>)"

definition advanceCanonicalSpatialState ::
  "CanonicalPlayerEntityState \<Rightarrow> ServerTick \<Rightarrow> Transform \<Rightarrow> LinearVelocity3 \<Rightarrow> LocomotionMode
     \<Rightarrow> SpatialAdvanceError + CanonicalPlayerEntityState" where
  "advanceCanonicalSpatialState current commitTick replacementTransform replacementVelocity mode =
     (if commitTick < lastSpatialChangeTick current
      then Inl \<lparr>sa_code = TickRegression, sa_previousTick = lastSpatialChangeTick current,
                sa_proposedTick = commitTick, sa_previousRevision = entityRevision current\<rparr>
      else case next_value (entityRevision current) of
        None \<Rightarrow> Inl \<lparr>sa_code = RevisionExhausted, sa_previousTick = lastSpatialChangeTick current,
                     sa_proposedTick = commitTick, sa_previousRevision = entityRevision current\<rparr>
      | Some nextRevision \<Rightarrow>
          Inr \<lparr>playerId = playerId current, entityId = entityId current,
               appearanceId = appearanceId current, transform = replacementTransform,
               linearVelocity = replacementVelocity, entityRevision = nextRevision,
               authorityEpoch = authorityEpoch current, lastSpatialChangeTick = commitTick,
               locomotionMode = mode\<rparr>)"

definition findPlayer :: "CanonicalServerState \<Rightarrow> PlayerId \<Rightarrow> CanonicalPlayerEntityState option" where
  "findPlayer state player = lookup_key playerId (players state) player"

definition findActiveSession :: "CanonicalServerState \<Rightarrow> SessionId \<Rightarrow> CanonicalSessionProgress option" where
  "findActiveSession state session = lookup_key sp_sessionId (activeSessions state) session"

definition orderStep :: "('a \<Rightarrow> u64) \<Rightarrow> CanonicalStateErrorCode \<Rightarrow> 'a list \<Rightarrow> nat \<Rightarrow> CanonicalStateError option" where
  "orderStep key code xs index =
     (if key (xs ! (index - 1)) \<ge> key (xs ! index)
      then Some (stateError code index (key (xs ! index)) (key (xs ! (index - 1)))) else None)"

definition entityStep :: "CanonicalPlayerEntityState list \<Rightarrow> nat \<Rightarrow> CanonicalStateError option" where
  "entityStep ps index =
     map_option (\<lambda>previous. stateError DuplicateEntityId index (entityId (ps ! index)) (of_nat previous))
       (find_index (\<lambda>p. entityId p = entityId (ps ! index)) (take index ps))"

fun historyStateError :: "nat \<Rightarrow> CanonicalSessionHistoryError \<Rightarrow> CanonicalStateError" where
  "historyStateError index e =
     (case he_code e of
        LimitExceeded \<Rightarrow> stateError FinalizedHistoryLimitExceeded index (he_value e) 0
      | WithoutAcknowledgement \<Rightarrow> stateError FinalizedHistoryWithoutAcknowledgement index 0 0
      | NotContiguous \<Rightarrow> stateError FinalizedHistoryNotStrictlyOrdered index (he_value e) (he_related e)
      | DoesNotEndAtAcknowledgement \<Rightarrow>
          stateError FinalizedHistoryDoesNotEndAtAcknowledgement index (he_value e) (he_related e)
      | ContainsNonFinalDisposition \<Rightarrow>
          stateError FinalizedHistoryContainsNonFinalDisposition index (of_nat (he_index e)) (he_value e))"

definition sessionStep ::
  "CanonicalPlayerEntityState list \<Rightarrow> CanonicalSessionProgress list \<Rightarrow> nat \<Rightarrow> CanonicalStateError option" where
  "sessionStep ps ss index =
     (let session = ss ! index
      in case validateHistory (sp_acknowledged session) (sp_history session) of
           Some e \<Rightarrow> Some (historyStateError index e)
         | None \<Rightarrow>
           (case lookup_key playerId ps (sp_playerId session) of
              None \<Rightarrow> Some (stateError SessionPlayerMissing index (sp_playerId session) (sp_entityId session))
            | Some player \<Rightarrow>
              if entityId player \<noteq> sp_entityId session
              then Some (stateError SessionEntityMismatch index (sp_entityId session) (entityId player))
              else if list_ex (\<lambda>s. sp_playerId s = sp_playerId session \<or> sp_entityId s = sp_entityId session)
                        (take index ss)
              then Some (stateError DuplicateActiveBinding index (sp_playerId session) (sp_entityId session))
              else None))"

definition createCanonicalServerState ::
  "CanonicalPlayerEntityState list \<Rightarrow> CanonicalSessionProgress list
     \<Rightarrow> CanonicalStateError + CanonicalServerState" where
  "createCanonicalServerState ps ss =
     (if length ps > MaximumCanonicalPlayerEntities
      then Inl (stateError PlayerLimitExceeded (length ps) 0 0)
      else if length ss > MaximumCanonicalActiveSessions
      then Inl (stateError ActiveSessionLimitExceeded (length ss) 0 0)
      else case first_error (orderStep playerId PlayerIdsNotStrictlyOrdered ps) [1..<length ps] of
        Some e \<Rightarrow> Inl e
      | None \<Rightarrow>
      (case first_error (orderStep sp_sessionId SessionIdsNotStrictlyOrdered ss) [1..<length ss] of
        Some e \<Rightarrow> Inl e
      | None \<Rightarrow>
      (case first_error (entityStep ps) [0..<length ps] of
        Some e \<Rightarrow> Inl e
      | None \<Rightarrow>
      (case first_error (sessionStep ps ss) [0..<length ss] of
        Some e \<Rightarrow> Inl e
      | None \<Rightarrow> Inr \<lparr>players = ps, activeSessions = ss\<rparr>))))"

section \<open>The invariant of a canonical state\<close>

definition history_ok :: "CommandSequence option \<Rightarrow> FinalizedCommandRecord list \<Rightarrow> bool" where
  "history_ok acknowledged history \<longleftrightarrow>
     length history \<le> MaximumFinalizedCommandHistory
     \<and> (\<forall>r \<in> set history. \<not> nonFinalDisposition (fin_disposition r))
     \<and> (history \<noteq> [] \<longrightarrow> acknowledged = Some (fin_sequence (last history)))
     \<and> (\<forall>i < length history. unat (fin_sequence (history ! i)) = unat (fin_sequence (hd history)) + i)"

definition session_ok :: "CanonicalPlayerEntityState list \<Rightarrow> CanonicalSessionProgress \<Rightarrow> bool" where
  "session_ok ps s \<longleftrightarrow>
     history_ok (sp_acknowledged s) (sp_history s)
     \<and> (\<exists>p \<in> set ps. playerId p = sp_playerId s \<and> entityId p = sp_entityId s)"

definition state_ok :: "CanonicalServerState \<Rightarrow> bool" where
  "state_ok st \<longleftrightarrow>
     length (players st) \<le> MaximumCanonicalPlayerEntities
     \<and> length (activeSessions st) \<le> MaximumCanonicalActiveSessions
     \<and> keys_sorted playerId (players st)
     \<and> keys_sorted sp_sessionId (activeSessions st)
     \<and> distinct (map entityId (players st))
     \<and> (\<forall>s \<in> set (activeSessions st). session_ok (players st) s)
     \<and> distinct (map sp_playerId (activeSessions st))"

lemma contiguous_iff:
  "(\<forall>i \<in> {1..<length xs}. next_value (f (xs ! (i - 1))) = Some (f (xs ! i))) \<longleftrightarrow>
     (\<forall>i < length xs. unat (f (xs ! i)) = unat (f (hd xs)) + i)" (is "?L \<longleftrightarrow> ?R")
proof
  assume L: ?L
  show ?R
  proof (intro allI impI)
    fix i assume "i < length xs"
    then show "unat (f (xs ! i)) = unat (f (hd xs)) + i"
    proof (induction i)
      case 0
      then show ?case by (simp add: hd_conv_nth)
    next
      case (Suc i)
      then have "next_value (f (xs ! i)) = Some (f (xs ! Suc i))" using L by force
      with Suc show ?case by (simp add: next_value_unat)
    qed
  qed
next
  assume R: ?R
  show ?L
  proof
    fix i assume "i \<in> {1..<length xs}"
    then have i: "i = Suc (i - 1)" and l: "i < length xs" "i - 1 < length xs" by auto
    have "unat (f (xs ! i)) = unat (f (hd xs)) + i" and "unat (f (xs ! (i - 1))) = unat (f (hd xs)) + (i - 1)"
      using R l by blast+
    with i show "next_value (f (xs ! (i - 1))) = Some (f (xs ! i))" by (simp add: next_value_iff)
  qed
qed

lemma validateHistory_None_iff: "validateHistory a h = None \<longleftrightarrow> history_ok a h"
proof -
  have steps: "first_error (historyStep h) [0..<length h] = None \<longleftrightarrow>
      (\<forall>r \<in> set h. \<not> nonFinalDisposition (fin_disposition r))
      \<and> (\<forall>i \<in> {1..<length h}. next_value (fin_sequence (h ! (i - 1))) = Some (fin_sequence (h ! i)))"
  proof -
    have step: "historyStep h i = None \<longleftrightarrow> \<not> nonFinalDisposition (fin_disposition (h ! i))
        \<and> (i = 0 \<or> next_value (fin_sequence (h ! (i - 1))) = Some (fin_sequence (h ! i)))" for i
      by (auto simp: historyStep_def Let_def)
    have "first_error (historyStep h) [0..<length h] = None \<longleftrightarrow>
        (\<forall>i < length h. \<not> nonFinalDisposition (fin_disposition (h ! i)))
        \<and> (\<forall>i < length h. i = 0 \<or> next_value (fin_sequence (h ! (i - 1))) = Some (fin_sequence (h ! i)))"
      unfolding first_error_None_iff step by auto
    then show ?thesis by (auto simp: all_set_conv_all_nth)
  qed
  have "validateHistory a h = None \<longleftrightarrow> length h \<le> MaximumFinalizedCommandHistory
      \<and> \<not> (h \<noteq> [] \<and> a = None) \<and> first_error (historyStep h) [0..<length h] = None
      \<and> \<not> (h \<noteq> [] \<and> Some (fin_sequence (last h)) \<noteq> a)"
    by (simp add: validateHistory_def not_less split: option.split)
  then show ?thesis
    unfolding history_ok_def contiguous_iff [where f = fin_sequence, symmetric] steps by auto
qed

lemma orderStep_iff:
  "first_error (orderStep key code xs) [1..<length xs] = None \<longleftrightarrow> keys_sorted key xs"
proof -
  have "keys_sorted key xs \<longleftrightarrow> (\<forall>i \<in> {1..<length xs}. key (xs ! (i - 1)) < key (xs ! i))"
    unfolding sorted_wrt_adjacent [OF transp_on_less] length_map
    by (intro ball_cong) (auto simp: less_imp_diff_less)
  then show ?thesis by (auto simp: first_error_None_iff orderStep_def)
qed

lemma entityStep_iff:
  "first_error (entityStep ps) [0..<length ps] = None \<longleftrightarrow> distinct (map entityId ps)"
  unfolding distinct_prefix [of ps entityId, symmetric] by (auto simp: first_error_None_iff entityStep_def)

lemma sessionStep_iff:
  assumes sorted: "keys_sorted playerId ps" and entities: "distinct (map entityId ps)"
  shows "first_error (sessionStep ps ss) [0..<length ss] = None \<longleftrightarrow>
     (\<forall>s \<in> set ss. session_ok ps s) \<and> distinct (map sp_playerId ss)"
proof -
  let ?dup = "\<lambda>i. list_ex (\<lambda>s. sp_playerId s = sp_playerId (ss ! i) \<or> sp_entityId s = sp_entityId (ss ! i)) (take i ss)"
  have look: "(\<exists>p \<in> set ps. playerId p = a \<and> entityId p = b) \<longleftrightarrow>
      (\<exists>p. lookup_key playerId ps a = Some p \<and> entityId p = b)" for a b
    by (auto simp: lookup_key_iff [OF sorted])
  have step: "sessionStep ps ss i = None \<longleftrightarrow> session_ok ps (ss ! i) \<and> \<not> ?dup i" for i
    by (auto simp: sessionStep_def Let_def session_ok_def look validateHistory_None_iff [symmetric]
        split: option.split)
  have same: "sp_playerId s = sp_playerId t \<longleftrightarrow> sp_entityId s = sp_entityId t"
    if "session_ok ps s" "session_ok ps t" for s t
    using that entities keys_sorted_inject [OF sorted]
    unfolding session_ok_def distinct_map inj_on_def by metis
  have "(\<forall>i < length ss. session_ok ps (ss ! i) \<and> \<not> ?dup i) \<longleftrightarrow>
      (\<forall>s \<in> set ss. session_ok ps s)
      \<and> (\<forall>i < length ss. find_index (\<lambda>s. sp_playerId s = sp_playerId (ss ! i)) (take i ss) = None)"
    (is "?L \<longleftrightarrow> ?R")
  proof
    assume ?L
    then show ?R by (auto simp: find_index_None_iff list_ex_iff in_set_conv_nth)
  next
    assume ?R
    then have "\<not> ?dup i" if "i < length ss" for i
      using that same in_set_takeD [of _ i ss] by (fastforce simp: find_index_None_iff list_ex_iff)
    with \<open>?R\<close> show ?L by simp
  qed
  then show ?thesis
    unfolding distinct_prefix [symmetric] by (auto simp: first_error_None_iff step)
qed

lemma createCanonicalServerState_lemma:
  "createCanonicalServerState ps ss = Inr st \<longleftrightarrow> st = \<lparr>players = ps, activeSessions = ss\<rparr> \<and> state_ok st"
proof -
  have "createCanonicalServerState ps ss = Inr st \<longleftrightarrow>
      st = \<lparr>players = ps, activeSessions = ss\<rparr> \<and> length ps \<le> MaximumCanonicalPlayerEntities
      \<and> length ss \<le> MaximumCanonicalActiveSessions
      \<and> first_error (orderStep playerId PlayerIdsNotStrictlyOrdered ps) [1..<length ps] = None
      \<and> first_error (orderStep sp_sessionId SessionIdsNotStrictlyOrdered ss) [1..<length ss] = None
      \<and> first_error (entityStep ps) [0..<length ps] = None
      \<and> first_error (sessionStep ps ss) [0..<length ss] = None"
    by (auto simp: createCanonicalServerState_def not_less split: option.split)
  also have "\<dots> \<longleftrightarrow> st = \<lparr>players = ps, activeSessions = ss\<rparr> \<and> state_ok st"
    unfolding orderStep_iff entityStep_iff state_ok_def using sessionStep_iff [of ps ss] by auto
  finally show ?thesis .
qed

interpretation canonical_players: keyed_table playerId players state_ok findPlayer
  by unfold_locales (simp add: findPlayer_def lookup_key_iff state_ok_def)

interpretation canonical_sessions: keyed_table sp_sessionId activeSessions state_ok findActiveSession
  by unfold_locales (simp add: findActiveSession_def lookup_key_iff state_ok_def)

section \<open>Properties\<close>

text \<open>
  C5: the checks of \<^verbatim>\<open>createCanonicalServerState\<close> are exact. A state is created from players and
  sessions if and only if it satisfies the canonical invariant (unique players and entities, one
  session per player, every session bound to an existing player and its entity, every finalized
  history contiguous without wrap-around and ending at the acknowledged command), and the state is
  made of exactly the given players and sessions.
\<close>

theorem createCanonicalServerState_iff:
  "createCanonicalServerState ps ss = Inr st \<longleftrightarrow> st = \<lparr>players = ps, activeSessions = ss\<rparr> \<and> state_ok st"
  by (rule createCanonicalServerState_lemma)

text \<open>
  C27: in a created state every session can be resolved: looking up its id finds it, looking up its
  player finds the player whose entity it controls, and no other session controls that player.
\<close>

theorem canonical_sessions_resolve:
  assumes "createCanonicalServerState ps ss = Inr st" and "s \<in> set ss"
  shows "findActiveSession st (sp_sessionId s) = Some s
      \<and> (\<exists>p. findPlayer st (sp_playerId s) = Some p \<and> entityId p = sp_entityId s)
      \<and> (\<forall>t \<in> set ss. sp_playerId t = sp_playerId s \<longrightarrow> t = s)"
proof -
  have ok: "state_ok st" and st: "players st = ps" "activeSessions st = ss"
    using assms(1) by (auto simp: createCanonicalServerState_lemma)
  have "findActiveSession st (sp_sessionId s) = Some s"
    using canonical_sessions.lookup_member [OF ok] assms(2) st by simp
  moreover have "\<exists>p. findPlayer st (sp_playerId s) = Some p \<and> entityId p = sp_entityId s"
    using ok assms(2) st canonical_players.lookup_iff [OF ok] unfolding state_ok_def session_ok_def by metis
  moreover have "\<forall>t \<in> set ss. sp_playerId t = sp_playerId s \<longrightarrow> t = s"
    using ok assms(2) st by (auto simp: state_ok_def distinct_map inj_on_def)
  ultimately show ?thesis by blast
qed

definition sample_transform :: Transform where
  "sample_transform = \<lparr>t_cell = InteriorCell 7, t_position = \<lparr>pos_x = 0, pos_y = 0, pos_z = 0\<rparr>,
     t_orientation = \<lparr>turn_x = 0, turn_y = 0, turn_z = 0\<rparr>\<rparr>"

definition sample_player :: CanonicalPlayerEntityState where
  "sample_player = \<lparr>playerId = 3, entityId = 30, appearanceId = 1, transform = sample_transform,
     linearVelocity = \<lparr>vel_x = 0, vel_y = 0, vel_z = 0\<rparr>, entityRevision = 1, authorityEpoch = 1,
     lastSpatialChangeTick = 0, locomotionMode = Walk\<rparr>"

definition sample_session :: CanonicalSessionProgress where
  "sample_session = \<lparr>sp_sessionId = 5, sp_generation = 1, sp_playerId = 3, sp_entityId = 30,
     sp_acknowledged = Some 2,
     sp_history = [\<lparr>fin_sequence = 1, fin_command = 11, fin_disposition = Applied\<rparr>,
                   \<lparr>fin_sequence = 2, fin_command = 12, fin_disposition = UnknownCell\<rparr>]\<rparr>"

definition sample_state :: CanonicalServerState where
  "sample_state = \<lparr>players = [sample_player], activeSessions = [sample_session]\<rparr>"

lemma sample_state_created:
  "createCanonicalServerState [sample_player] [sample_session] = Inr sample_state"
  by code_simp

theorem canonical_sessions_resolve_witness:
  "findActiveSession sample_state (sp_sessionId sample_session) = Some sample_session
     \<and> (\<exists>p. findPlayer sample_state (sp_playerId sample_session) = Some p)"
  using canonical_sessions_resolve [OF sample_state_created, of sample_session] by auto

lemma state_ok_sample: "state_ok sample_state"
  using sample_state_created createCanonicalServerState_lemma by blast

text \<open>
  C41: a spatial advance either fails and says why (the tick went backwards, or the revision counter
  is exhausted), or moves exactly one revision forward, records the commit tick, and keeps the
  player's identity, appearance and authority epoch.
\<close>

theorem advanceCanonicalSpatialState_cases:
  "advanceCanonicalSpatialState p tick tr v mode =
     (if unat tick < unat (lastSpatialChangeTick p)
      then Inl \<lparr>sa_code = TickRegression, sa_previousTick = lastSpatialChangeTick p, sa_proposedTick = tick,
                sa_previousRevision = entityRevision p\<rparr>
      else if unat (entityRevision p) = 2 ^ 64 - 1
      then Inl \<lparr>sa_code = RevisionExhausted, sa_previousTick = lastSpatialChangeTick p, sa_proposedTick = tick,
                sa_previousRevision = entityRevision p\<rparr>
      else Inr (p\<lparr>transform := tr, linearVelocity := v,
                  entityRevision := word_of_nat (unat (entityRevision p) + 1),
                  lastSpatialChangeTick := tick, locomotionMode := mode\<rparr>))"
proof -
  have "unat (entityRevision p) = 2 ^ 64 - 1 \<longleftrightarrow> entityRevision p = u64_max"
    by (simp only: unat_u64_max [symmetric] word_unat_eq_iff)
  then show ?thesis
    by (cases p) (simp add: advanceCanonicalSpatialState_def next_value_def word_less_nat_alt add.commute)
qed

end
