(* ===== verification/Inventory_World.thy ===== *)
theory Inventory_World
  imports Item_Catalog Canonical_State
begin

unbundle bit_operations_syntax

text \<open>
  \<^verbatim>\<open>inventory_world.hpp\<close> and \<^verbatim>\<open>server_core/inventory_world.cpp\<close>: the canonical inventories of players and
  containers and the items lying in the world. Every operation is here as the code has it; the
  camera view a drop command carries (\<^verbatim>\<open>DropPlacementView\<close>) is read by no operation of this file and
  is left out of the command. An allocation failure (\<^verbatim>\<open>catch (...)\<close>) is outside the model.
\<close>

section \<open>Data\<close>

definition MaximumPlayerInventoryStacks :: nat where "MaximumPlayerInventoryStacks = 1024"
definition MaximumContainerStacks :: nat where "MaximumContainerStacks = 512"
definition MaximumInventoryPlayers :: nat where "MaximumInventoryPlayers = 256"
definition MaximumInventoryContainers :: nat where "MaximumInventoryContainers = 65536"
definition MaximumWorldItemStacks :: nat where "MaximumWorldItemStacks = 65536"
definition MaximumTransferCount :: u32 where "MaximumTransferCount = 1000000"

record CanonicalItemStack =
  stackId :: ItemStackId
  prototypeId :: ItemPrototypeId
  stackCount :: u32
  condition :: u32
  enchantmentCharge :: u32
  soulPrototype :: "ActorPrototypeId option"

record CanonicalPlayerInventoryState =
  inv_player :: PlayerId
  inv_revision :: InventoryRevision
  inv_tick :: ServerTick
  inv_stacks :: "CanonicalItemStack list"
  inv_equipment :: "ItemStackId option list"
  inv_profile :: "CharacterProfileRevision option"

record CanonicalContainerInventoryState =
  con_id :: ContainerId
  con_cell :: CellId
  con_position :: Position3
  con_revision :: ContainerRevision
  con_tick :: ServerTick
  con_capacity :: u32
  con_stacks :: "CanonicalItemStack list"

record CanonicalWorldItemState =
  wi_stack :: CanonicalItemStack
  wi_cell :: CellId
  wi_position :: Position3
  wi_revision :: WorldItemRevision
  wi_tick :: ServerTick

datatype InventoryTransactionKind =
    TakeFromContainer | PutIntoContainer | EquipItem | UnequipItem | DropItem | PickupItem
  | TakeAllFromContainer

record InventoryTransactionCommand =
  cmd_player :: PlayerId
  cmd_kind :: InventoryTransactionKind
  cmd_container :: "ContainerId option"
  cmd_prototype :: ItemPrototypeId
  cmd_stack :: "ItemStackId option"
  cmd_count :: u32
  cmd_slot :: "EquipmentSlot option"
  cmd_expectedInventory :: InventoryRevision
  cmd_expectedContainer :: "ContainerRevision option"
  cmd_expectedWorldItem :: "WorldItemRevision option"
  cmd_origin :: Position3

record InventoryValidationContext =
  maxReach :: u32

datatype InventoryTransactionResultCode =
    InvSuccess | InvPlayerNotFound | ContainerNotFound | WorldItemNotFound | MissingExpectedRevision
  | CellMismatch | PlayerOutOfReach | OriginOutOfReach | ItemNotFound | InsufficientCount
  | StaleInventoryRevision | StaleContainerRevision | StaleWorldItemRevision | SlotNotCompatible
  | ItemBroken | EquipmentQuantityExceeded | ItemEquipped | PlayerInventoryFull
  | ContainerCapacityExceeded | WorldItemCapacityExceeded | ArithmeticOverflow | PrototypeNotFound
  | InvTickRegression | InvRevisionExhausted | StackIdExhausted | InternalError

datatype EquippedConditionResult =
    ConditionApplied | ConditionPlayerNotFound | ItemNotEquipped | InvalidCondition
  | InvalidEnchantmentCharge | ConditionTickRegression | ConditionRevisionExhausted

datatype SecurityToolUseResult =
    ToolApplied | ToolPlayerNotFound | ToolStaleRevision | ToolNotFound | WrongToolCategory
  | ToolBroken | ToolTickRegression | ToolRevisionExhausted

datatype EnchantedItemUseResult =
    UseApplied | UsePlayerNotFound | UseStaleRevision | UseItemNotFound | NotEnchanted
  | InsufficientCharge | UseTickRegression | UseRevisionExhausted

record InventoryTransactionOutcome =
  out_code :: InventoryTransactionResultCode
  out_player :: PlayerId
  out_inventoryRevision :: InventoryRevision
  out_container :: "ContainerId option"
  out_containerRevision :: "ContainerRevision option"
  out_worldItemRevision :: "WorldItemRevision option"
  out_affectedStack :: "ItemStackId option"

record CanonicalInventoryWorld =
  w_manifest :: ContentManifest
  w_catalog :: ItemPrototypeCatalog
  w_players :: "CanonicalPlayerInventoryState list"
  w_containers :: "CanonicalContainerInventoryState list"
  w_worldItems :: "CanonicalWorldItemState list"
  w_nextStackId :: "ItemStackId option"

record StartingItem =
  start_prototype :: ItemPrototypeId
  start_count :: u32
  start_slot :: "u8 option"

section \<open>Stacks\<close>

definition validStack :: "ItemPrototypeCatalog \<Rightarrow> CanonicalItemStack \<Rightarrow> bool" where
  "validStack catalog stack \<longleftrightarrow>
     (case findPrototype catalog (prototypeId stack) of
        None \<Rightarrow> False
      | Some d \<Rightarrow> stackCount stack \<noteq> 0 \<and> (stackable d \<or> stackCount stack = 1)
          \<and> condition stack \<le> maxCondition d \<and> enchantmentCharge stack \<le> maxEnchantmentCharge d)"

definition stackIndex :: "CanonicalItemStack list \<Rightarrow> InventoryTransactionCommand \<Rightarrow> nat option" where
  "stackIndex stacks command =
     (case cmd_stack command of
        None \<Rightarrow> None
      | Some sid \<Rightarrow>
        (case find_key stackId stacks sid of
           None \<Rightarrow> None
         | Some i \<Rightarrow> if prototypeId (stacks ! i) \<noteq> cmd_prototype command then None else Some i))"

definition canStackWith :: "ItemPrototypeCatalog \<Rightarrow> CanonicalItemStack \<Rightarrow> CanonicalItemStack \<Rightarrow> bool" where
  "canStackWith catalog this other =
     (if prototypeId this \<noteq> prototypeId other then False
      else case findPrototype catalog (prototypeId this) of
        None \<Rightarrow> False
      | Some d \<Rightarrow> stackable d \<and> condition this = condition other
          \<and> enchantmentCharge this = enchantmentCharge other \<and> soulPrototype this = soulPrototype other)"

definition mergeIndex :: "CanonicalItemStack list \<Rightarrow> CanonicalItemStack \<Rightarrow> ItemPrototypeCatalog \<Rightarrow> nat option" where
  "mergeIndex stacks source catalog = find_index (\<lambda>c. canStackWith catalog c source) stacks"

definition equipmentUseCount :: "ItemStackId option list \<Rightarrow> ItemStackId \<Rightarrow> nat option \<Rightarrow> nat" where
  "equipmentUseCount equipment stack excluded =
     length (filter (\<lambda>i. excluded \<noteq> Some i \<and> equipment ! i = Some stack) [0..<length equipment])"

definition addWouldOverflow :: "u32 \<Rightarrow> u32 \<Rightarrow> bool" where
  "addWouldOverflow current addition \<longleftrightarrow> u32_max - current < addition"

definition findStack :: "CanonicalItemStack list \<Rightarrow> ItemStackId \<Rightarrow> CanonicalItemStack option" where
  "findStack stacks ident = find (\<lambda>s. stackId s = ident) stacks"

fun weightFrom :: "ItemPrototypeCatalog \<Rightarrow> u64 \<Rightarrow> CanonicalItemStack list \<Rightarrow> u64" where
  "weightFrom catalog acc [] = acc"
| "weightFrom catalog acc (s # ss) =
     (case findPrototype catalog (prototypeId s) of
        None \<Rightarrow> weightFrom catalog acc ss
      | Some d \<Rightarrow>
        (let stackWeight = ucast (weightUnits d) * ucast (stackCount s)
         in if u64_max - acc < stackWeight then u64_max
            else weightFrom catalog (acc + stackWeight) ss))"

definition totalWeight :: "ItemPrototypeCatalog \<Rightarrow> CanonicalItemStack list \<Rightarrow> u64" where
  "totalWeight catalog stacks = weightFrom catalog 0 stacks"

definition collectKeys :: "ItemPrototypeCatalog \<Rightarrow> CanonicalItemStack list \<Rightarrow> KeyPrototypeId list" where
  "collectKeys catalog stacks =
     remdups_adj (sort (List.map_filter
       (\<lambda>s. case findPrototype catalog (prototypeId s) of
              None \<Rightarrow> None
            | Some d \<Rightarrow> if stackCount s \<noteq> 0 then keyId d else None) stacks))"

section \<open>Creation and lookup\<close>

definition equipmentSlotValid ::
  "ItemPrototypeCatalog \<Rightarrow> CanonicalPlayerInventoryState \<Rightarrow> nat \<Rightarrow> bool" where
  "equipmentSlotValid catalog player slot \<longleftrightarrow>
     (case inv_equipment player ! slot of
        None \<Rightarrow> True
      | Some sid \<Rightarrow>
        (case findStack (inv_stacks player) sid of
           None \<Rightarrow> False
         | Some stack \<Rightarrow>
           (case findPrototype catalog (prototypeId stack) of
              None \<Rightarrow> False
            | Some d \<Rightarrow>
              slotMask d AND slotToMask (of_nat slot) \<noteq> 0
              \<and> \<not> (of_nat slot = SlotCarriedRight \<and> category d = CategoryWeapon
                    \<and> maxCondition d \<noteq> 0 \<and> condition stack = 0)
              \<and> \<not> equipmentUseCount (inv_equipment player) (stackId stack) None > unat (stackCount stack))))"

definition playerValid :: "ItemPrototypeCatalog \<Rightarrow> CanonicalPlayerInventoryState \<Rightarrow> bool" where
  "playerValid catalog player \<longleftrightarrow>
     length (inv_stacks player) \<le> MaximumPlayerInventoryStacks
     \<and> list_all (validStack catalog) (inv_stacks player)
     \<and> list_all (equipmentSlotValid catalog player) [0..<length (inv_equipment player)]"

definition containerValid ::
  "ContentManifest \<Rightarrow> ItemPrototypeCatalog \<Rightarrow> CanonicalContainerInventoryState \<Rightarrow> bool" where
  "containerValid manifest catalog container \<longleftrightarrow>
     manifest_contains manifest (con_cell container)
     \<and> length (con_stacks container) \<le> MaximumContainerStacks
     \<and> list_all (validStack catalog) (con_stacks container)
     \<and> \<not> (con_capacity container \<noteq> 0
           \<and> totalWeight catalog (con_stacks container) > ucast (con_capacity container))"

definition worldItemValid ::
  "ContentManifest \<Rightarrow> ItemPrototypeCatalog \<Rightarrow> CanonicalWorldItemState \<Rightarrow> bool" where
  "worldItemValid manifest catalog item \<longleftrightarrow>
     manifest_contains manifest (wi_cell item) \<and> validStack catalog (wi_stack item)"

definition allStacks ::
  "CanonicalPlayerInventoryState list \<Rightarrow> CanonicalContainerInventoryState list
     \<Rightarrow> CanonicalWorldItemState list \<Rightarrow> CanonicalItemStack list" where
  "allStacks ps cs ws = concat (map inv_stacks ps) @ concat (map con_stacks cs) @ map wi_stack ws"

abbreviation wi_id :: "CanonicalWorldItemState \<Rightarrow> ItemStackId" where
  "wi_id item \<equiv> stackId (wi_stack item)"

definition createInventoryWorld ::
  "ContentManifest \<Rightarrow> ItemPrototypeCatalog \<Rightarrow> CanonicalPlayerInventoryState list
     \<Rightarrow> CanonicalContainerInventoryState list \<Rightarrow> CanonicalWorldItemState list \<Rightarrow> ItemStackId option
     \<Rightarrow> CanonicalInventoryWorld option" where
  "createInventoryWorld manifest catalog ps cs ws nextItemStackId =
     (if cat_manifestId catalog \<noteq> mId manifest \<or> length ps > MaximumInventoryPlayers
         \<or> length cs > MaximumInventoryContainers \<or> length ws > MaximumWorldItemStacks then None
      else
        (let sortedPlayers = map (\<lambda>p. p\<lparr>inv_stacks := sort_key stackId (inv_stacks p)\<rparr>) (sort_key inv_player ps);
             sortedContainers = map (\<lambda>c. c\<lparr>con_stacks := sort_key stackId (con_stacks c)\<rparr>) (sort_key con_id cs);
             sortedWorldItems = sort_key wi_id ws;
             stackIds = sort (map stackId (allStacks sortedPlayers sortedContainers sortedWorldItems));
             maximumStackId = (if stackIds = [] then 0 else last stackIds)
         in if \<not> no_adjacent_equal (map inv_player sortedPlayers) \<or> \<not> list_all (playerValid catalog) sortedPlayers
            then None
            else if \<not> no_adjacent_equal (map con_id sortedContainers)
                    \<or> \<not> list_all (containerValid manifest catalog) sortedContainers then None
            else if \<not> list_all (worldItemValid manifest catalog) sortedWorldItems then None
            else if \<not> no_adjacent_equal stackIds then None
            else if (case nextItemStackId of None \<Rightarrow> False | Some n \<Rightarrow> n \<le> maximumStackId) then None
            else Some \<lparr>w_manifest = manifest, w_catalog = catalog, w_players = sortedPlayers,
                       w_containers = sortedContainers, w_worldItems = sortedWorldItems,
                       w_nextStackId =
                         (if nextItemStackId = None \<and> maximumStackId \<noteq> u64_max
                          then fromValue Identity (maximumStackId + 1) else nextItemStackId)\<rparr>))"

definition findInventoryPlayer :: "CanonicalInventoryWorld \<Rightarrow> PlayerId \<Rightarrow> CanonicalPlayerInventoryState option" where
  "findInventoryPlayer world player = lookup_key inv_player (w_players world) player"

definition findContainer :: "CanonicalInventoryWorld \<Rightarrow> ContainerId \<Rightarrow> CanonicalContainerInventoryState option" where
  "findContainer world container = lookup_key con_id (w_containers world) container"

definition findWorldItem :: "CanonicalInventoryWorld \<Rightarrow> ItemStackId \<Rightarrow> CanonicalWorldItemState option" where
  "findWorldItem world stack = lookup_key wi_id (w_worldItems world) stack"

definition collectVerifiedKeys :: "CanonicalInventoryWorld \<Rightarrow> PlayerId \<Rightarrow> KeyPrototypeId list" where
  "collectVerifiedKeys world player =
     (case findInventoryPlayer world player of
        None \<Rightarrow> []
      | Some p \<Rightarrow> collectKeys (w_catalog world) (inv_stacks p))"

text \<open>Writing through the pointer \<^verbatim>\<open>findMutablePlayer\<close> or \<^verbatim>\<open>findMutableContainer\<close> returned.\<close>

definition putPlayer :: "CanonicalPlayerInventoryState \<Rightarrow> CanonicalInventoryWorld \<Rightarrow> CanonicalInventoryWorld" where
  "putPlayer p world = world\<lparr>w_players := replace_key inv_player p (w_players world)\<rparr>"

definition putContainer :: "CanonicalContainerInventoryState \<Rightarrow> CanonicalInventoryWorld \<Rightarrow> CanonicalInventoryWorld" where
  "putContainer c world = world\<lparr>w_containers := replace_key con_id c (w_containers world)\<rparr>"

definition followingStackId :: "ItemStackId \<Rightarrow> ItemStackId option" where
  "followingStackId v = (if v = u64_max then None else fromValue Identity (v + 1))"

definition allocateNextStackId :: "CanonicalInventoryWorld \<Rightarrow> ItemStackId option \<times> CanonicalInventoryWorld" where
  "allocateNextStackId world =
     (w_nextStackId world,
      world\<lparr>w_nextStackId := Option.bind (w_nextStackId world) followingStackId\<rparr>)"

definition newPlayerInventory :: "PlayerId \<Rightarrow> CanonicalPlayerInventoryState" where
  "newPlayerInventory player =
     \<lparr>inv_player = player, inv_revision = initial CounterFromOne, inv_tick = initial CounterFromZero,
      inv_stacks = [], inv_equipment = replicate (unat EquipmentSlotCount) None, inv_profile = None\<rparr>"

section \<open>Joining players\<close>

definition ensurePlayer :: "CanonicalInventoryWorld \<Rightarrow> PlayerId \<Rightarrow> CanonicalInventoryWorld \<times> bool" where
  "ensurePlayer world player =
     (if findInventoryPlayer world player \<noteq> None then (world, True)
      else if length (w_players world) \<ge> MaximumInventoryPlayers then (world, False)
      else (world\<lparr>w_players := insert_key inv_player (newPlayerInventory player) (w_players world)\<rparr>, True))"

text \<open>
  The validation loop of \<^verbatim>\<open>initializePlayerFromCharacter\<close>: the number of stacks the starting items
  need, or nothing when an item or its slot is refused.
\<close>

definition startingStacks :: "ItemPrototypeDeclaration \<Rightarrow> StartingItem \<Rightarrow> nat" where
  "startingStacks d item = (if stackable d then 1 else unat (start_count item))"

fun checkStartingItems ::
  "ItemPrototypeCatalog \<Rightarrow> nat \<Rightarrow> bool list \<Rightarrow> StartingItem list \<Rightarrow> nat option" where
  "checkStartingItems catalog required occupied [] = Some required"
| "checkStartingItems catalog required occupied (item # items) =
     (case findPrototype catalog (start_prototype item) of
        None \<Rightarrow> None
      | Some d \<Rightarrow>
        if start_count item = 0 then None
        else if startingStacks d item > MaximumPlayerInventoryStacks - required then None
        else (case start_slot item of
                None \<Rightarrow> checkStartingItems catalog (required + startingStacks d item) occupied items
              | Some slot \<Rightarrow>
                if unat slot \<ge> length occupied \<or> occupied ! unat slot \<or> slotMask d AND slotToMask slot = 0
                then None
                else checkStartingItems catalog (required + startingStacks d item)
                       (occupied[unat slot := True]) items))"

text \<open>The allocation loop: next id, stacks so far, equipment so far.\<close>

type_synonym starting_state = "ItemStackId option \<times> CanonicalItemStack list \<times> ItemStackId option list"

fun giveStacks ::
  "ItemPrototypeDeclaration \<Rightarrow> StartingItem \<Rightarrow> nat \<Rightarrow> nat \<Rightarrow> starting_state \<Rightarrow> starting_state" where
  "giveStacks d item index 0 st = st"
| "giveStacks d item index (Suc n) (nextId, stacks, equipment) =
     (let sid = the nextId
      in giveStacks d item (Suc index) n
           (followingStackId sid,
            stacks @ [\<lparr>stackId = sid, prototypeId = start_prototype item,
                       stackCount = (if stackable d then start_count item else 1),
                       condition = maxCondition d, enchantmentCharge = maxEnchantmentCharge d,
                       soulPrototype = None\<rparr>],
            (case start_slot item of
               Some slot \<Rightarrow> if index = 0 then equipment[unat slot := Some sid] else equipment
             | None \<Rightarrow> equipment)))"

fun giveItems :: "ItemPrototypeCatalog \<Rightarrow> StartingItem list \<Rightarrow> starting_state \<Rightarrow> starting_state" where
  "giveItems catalog [] st = st"
| "giveItems catalog (item # items) st =
     (let d = the (findPrototype catalog (start_prototype item))
      in giveItems catalog items (giveStacks d item 0 (startingStacks d item) st))"

definition initializePlayerFromCharacter ::
  "CanonicalInventoryWorld \<Rightarrow> PlayerId \<Rightarrow> CharacterProfileRevision \<Rightarrow> StartingItem list \<Rightarrow> ServerTick
     \<Rightarrow> CanonicalInventoryWorld \<times> bool" where
  "initializePlayerFromCharacter world player profileRevision startingItems tick =
     (let found = findInventoryPlayer world player
      in case Option.bind found inv_profile of
           Some revision \<Rightarrow> (world, revision = profileRevision)
         | None \<Rightarrow>
           if (case found of
                 Some p \<Rightarrow> inv_stacks p \<noteq> [] \<or> list_ex (\<lambda>e. e \<noteq> None) (inv_equipment p)
               | None \<Rightarrow> length (w_players world) \<ge> MaximumInventoryPlayers) then (world, False)
           else
             (case checkStartingItems (w_catalog world) 0 (replicate (unat EquipmentSlotCount) False) startingItems of
                None \<Rightarrow> (world, False)
              | Some required \<Rightarrow>
                if required \<noteq> 0
                   \<and> (case w_nextStackId world of
                         None \<Rightarrow> True | Some n \<Rightarrow> required - 1 > unat (u64_max - n)) then (world, False)
                else
                  (let (nextId, stacks, equipment) =
                         giveItems (w_catalog world) startingItems
                           (w_nextStackId world, [], replicate (unat EquipmentSlotCount) None);
                       p = (case found of Some p \<Rightarrow> p | None \<Rightarrow> newPlayerInventory player)
                   in case next_value (inv_revision p) of
                        None \<Rightarrow> (world, False)
                      | Some revision \<Rightarrow>
                        (let p' = p\<lparr>inv_revision := revision, inv_tick := tick, inv_stacks := stacks,
                                    inv_equipment := equipment, inv_profile := Some profileRevision\<rparr>
                         in (world\<lparr>w_players := (if found = None then insert_key inv_player p' (w_players world)
                                                else replace_key inv_player p' (w_players world)),
                                   w_nextStackId := nextId\<rparr>, True)))))"

section \<open>Wear and charges\<close>

definition updateStack ::
  "ItemStackId \<Rightarrow> (CanonicalItemStack \<Rightarrow> CanonicalItemStack) \<Rightarrow> CanonicalItemStack list \<Rightarrow> CanonicalItemStack list" where
  "updateStack sid f stacks =
     (case find_index (\<lambda>s. stackId s = sid) stacks of
        None \<Rightarrow> stacks | Some i \<Rightarrow> stacks[i := f (stacks ! i)])"

definition slotHolds :: "ItemStackId option list \<Rightarrow> EquipmentSlot \<Rightarrow> ItemStackId \<Rightarrow> bool" where
  "slotHolds equipment slot sid \<longleftrightarrow> unat slot < length equipment \<and> equipment ! unat slot = Some sid"

definition setEquippedItemCondition ::
  "CanonicalInventoryWorld \<Rightarrow> PlayerId \<Rightarrow> EquipmentSlot \<Rightarrow> ItemStackId \<Rightarrow> u32 \<Rightarrow> bool \<Rightarrow> ServerTick
     \<Rightarrow> CanonicalInventoryWorld \<times> EquippedConditionResult" where
  "setEquippedItemCondition world player slot sid newCondition unequip tick =
     (case findInventoryPlayer world player of
        None \<Rightarrow> (world, ConditionPlayerNotFound)
      | Some p \<Rightarrow>
        if \<not> slotHolds (inv_equipment p) slot sid then (world, ItemNotEquipped)
        else (case Option.bind (findStack (inv_stacks p) sid) (\<lambda>s. findPrototype (w_catalog world) (prototypeId s)) of
                None \<Rightarrow> (world, InvalidCondition)
              | Some d \<Rightarrow>
                if newCondition > maxCondition d \<or> maxCondition d = 0 \<and> newCondition \<noteq> 0
                then (world, InvalidCondition)
                else if tick < inv_tick p then (world, ConditionTickRegression)
                else (case next_value (inv_revision p) of
                        None \<Rightarrow> (world, ConditionRevisionExhausted)
                      | Some revision \<Rightarrow>
                        (putPlayer (p\<lparr>inv_stacks := updateStack sid (\<lambda>s. s\<lparr>condition := newCondition\<rparr>) (inv_stacks p),
                                      inv_equipment := (if unequip then (inv_equipment p)[unat slot := None]
                                                        else inv_equipment p),
                                      inv_revision := revision, inv_tick := tick\<rparr>) world, ConditionApplied))))"

definition setEquippedItemEnchantmentCharge ::
  "CanonicalInventoryWorld \<Rightarrow> PlayerId \<Rightarrow> EquipmentSlot \<Rightarrow> ItemStackId \<Rightarrow> u32 \<Rightarrow> ServerTick
     \<Rightarrow> CanonicalInventoryWorld \<times> EquippedConditionResult" where
  "setEquippedItemEnchantmentCharge world player slot sid charge tick =
     (case findInventoryPlayer world player of
        None \<Rightarrow> (world, ConditionPlayerNotFound)
      | Some p \<Rightarrow>
        if \<not> slotHolds (inv_equipment p) slot sid then (world, ItemNotEquipped)
        else (case Option.bind (findStack (inv_stacks p) sid) (\<lambda>s. findPrototype (w_catalog world) (prototypeId s)) of
                None \<Rightarrow> (world, InvalidEnchantmentCharge)
              | Some d \<Rightarrow>
                if charge > maxEnchantmentCharge d then (world, InvalidEnchantmentCharge)
                else if tick < inv_tick p then (world, ConditionTickRegression)
                else (case next_value (inv_revision p) of
                        None \<Rightarrow> (world, ConditionRevisionExhausted)
                      | Some revision \<Rightarrow>
                        (putPlayer (p\<lparr>inv_stacks := updateStack sid (\<lambda>s. s\<lparr>enchantmentCharge := charge\<rparr>) (inv_stacks p),
                                      inv_revision := revision, inv_tick := tick\<rparr>) world, ConditionApplied))))"

definition consumeSecurityToolUse ::
  "CanonicalInventoryWorld \<Rightarrow> PlayerId \<Rightarrow> ItemStackId \<Rightarrow> InventoryRevision \<Rightarrow> ItemCategory \<Rightarrow> ServerTick
     \<Rightarrow> CanonicalInventoryWorld \<times> SecurityToolUseResult" where
  "consumeSecurityToolUse world player sid expectedRevision toolCategory tick =
     (case findInventoryPlayer world player of
        None \<Rightarrow> (world, ToolPlayerNotFound)
      | Some p \<Rightarrow>
        if inv_revision p \<noteq> expectedRevision then (world, ToolStaleRevision)
        else if tick < inv_tick p then (world, ToolTickRegression)
        else (case find_key stackId (inv_stacks p) sid of
                None \<Rightarrow> (world, ToolNotFound)
              | Some i \<Rightarrow>
                (let stack = inv_stacks p ! i
                 in case findPrototype (w_catalog world) (prototypeId stack) of
                      None \<Rightarrow> (world, WrongToolCategory)
                    | Some d \<Rightarrow>
                      if category d \<noteq> toolCategory then (world, WrongToolCategory)
                      else if condition stack = 0 then (world, ToolBroken)
                      else (case next_value (inv_revision p) of
                              None \<Rightarrow> (world, ToolRevisionExhausted)
                            | Some revision \<Rightarrow>
                              (let worn = condition stack - 1;
                                   p' = (if worn = 0
                                         then p\<lparr>inv_equipment := map (\<lambda>e. if e = Some sid then None else e) (inv_equipment p),
                                                inv_stacks := erase_at i (inv_stacks p)\<rparr>
                                         else p\<lparr>inv_stacks := (inv_stacks p)[i := stack\<lparr>condition := worn\<rparr>]\<rparr>)
                               in (putPlayer (p'\<lparr>inv_revision := revision, inv_tick := tick\<rparr>) world, ToolApplied))))))"

definition consumeEnchantmentCharge ::
  "CanonicalInventoryWorld \<Rightarrow> PlayerId \<Rightarrow> ItemStackId \<Rightarrow> InventoryRevision \<Rightarrow> u32 \<Rightarrow> ServerTick
     \<Rightarrow> CanonicalInventoryWorld \<times> EnchantedItemUseResult" where
  "consumeEnchantmentCharge world player sid expectedRevision charge tick =
     (case findInventoryPlayer world player of
        None \<Rightarrow> (world, UsePlayerNotFound)
      | Some p \<Rightarrow>
        if inv_revision p \<noteq> expectedRevision then (world, UseStaleRevision)
        else if tick < inv_tick p then (world, UseTickRegression)
        else (case findStack (inv_stacks p) sid of
                None \<Rightarrow> (world, UseItemNotFound)
              | Some stack \<Rightarrow>
                (case findPrototype (w_catalog world) (prototypeId stack) of
                   None \<Rightarrow> (world, NotEnchanted)
                 | Some d \<Rightarrow>
                   if maxEnchantmentCharge d = 0 \<or> charge = 0 then (world, NotEnchanted)
                   else if enchantmentCharge stack < charge then (world, InsufficientCharge)
                   else (case next_value (inv_revision p) of
                           None \<Rightarrow> (world, UseRevisionExhausted)
                         | Some revision \<Rightarrow>
                           (putPlayer (p\<lparr>inv_stacks := updateStack sid
                                            (\<lambda>s. s\<lparr>enchantmentCharge := enchantmentCharge s - charge\<rparr>) (inv_stacks p),
                                         inv_revision := revision, inv_tick := tick\<rparr>) world, UseApplied)))))"

definition ensureContainer ::
  "CanonicalInventoryWorld \<Rightarrow> ContainerId \<Rightarrow> CellId \<Rightarrow> Position3 \<Rightarrow> u32 \<Rightarrow> CanonicalInventoryWorld \<times> bool" where
  "ensureContainer world container cell position capacity =
     (if \<not> manifest_contains (w_manifest world) cell then (world, False)
      else case findContainer world container of
        Some c \<Rightarrow> (world, con_cell c = cell \<and> con_position c = position \<and> con_capacity c = capacity)
      | None \<Rightarrow>
        if length (w_containers world) \<ge> MaximumInventoryContainers then (world, False)
        else (world\<lparr>w_containers := insert_key con_id
                \<lparr>con_id = container, con_cell = cell, con_position = position,
                 con_revision = initial CounterFromOne, con_tick = initial CounterFromZero,
                 con_capacity = capacity, con_stacks = []\<rparr> (w_containers world)\<rparr>, True))"

section \<open>Transactions\<close>

text \<open>
  The two writes shared by the branches of \<^verbatim>\<open>applyInventoryTransaction\<close>: taking \<open>n\<close> items out of the
  stack at an index (the whole stack is erased), and adding a stack to a list (merged into the
  stack at the destination index, or inserted at its sorted position).
\<close>

definition takeOut :: "nat \<Rightarrow> u32 \<Rightarrow> CanonicalItemStack list \<Rightarrow> CanonicalItemStack list" where
  "takeOut i n stacks =
     (if stackCount (stacks ! i) = n then erase_at i stacks
      else stacks[i := (stacks ! i)\<lparr>stackCount := stackCount (stacks ! i) - n\<rparr>])"

definition putIn :: "nat option \<Rightarrow> CanonicalItemStack \<Rightarrow> CanonicalItemStack list \<Rightarrow> CanonicalItemStack list" where
  "putIn destination transferred stacks =
     (case destination of
        Some j \<Rightarrow> stacks[j := (stacks ! j)\<lparr>stackCount := stackCount (stacks ! j) + stackCount transferred\<rparr>]
      | None \<Rightarrow> insert_key stackId transferred stacks)"

text \<open>The stack that moves: it keeps its id unless it is split off into a stack of its own.\<close>

definition splitStack ::
  "CanonicalInventoryWorld \<Rightarrow> bool \<Rightarrow> CanonicalItemStack \<Rightarrow> u32 \<Rightarrow> CanonicalInventoryWorld \<times> CanonicalItemStack" where
  "splitStack world needsNewId source n =
     (if needsNewId
      then (let (sid, world') = allocateNextStackId world
            in (world', source\<lparr>stackCount := n, stackId := the sid\<rparr>))
      else (world, source\<lparr>stackCount := n\<rparr>))"

definition reachCheck ::
  "Position3 \<Rightarrow> Position3 \<Rightarrow> Position3 \<Rightarrow> u32 \<Rightarrow> InventoryTransactionResultCode option" where
  "reachCheck playerRoot origin target reach =
     (if \<not> positionsWithinReach playerRoot target reach \<or> \<not> positionsWithinReach origin target reach
      then Some PlayerOutOfReach
      else if \<not> positionsWithinReach playerRoot origin reach then Some OriginOutOfReach
      else None)"

text \<open>The guards on the container, the same in both container branches.\<close>

definition accessContainer ::
  "CanonicalInventoryWorld \<Rightarrow> Transform \<Rightarrow> InventoryTransactionCommand \<Rightarrow> InventoryValidationContext \<Rightarrow> ServerTick
     \<Rightarrow> InventoryTransactionResultCode + CanonicalContainerInventoryState" where
  "accessContainer world playerTransform command context tick =
     (case cmd_container command of
        None \<Rightarrow> Inl ContainerNotFound
      | Some cid \<Rightarrow>
        (case cmd_expectedContainer command of
           None \<Rightarrow> Inl MissingExpectedRevision
         | Some expected \<Rightarrow>
           (case findContainer world cid of
              None \<Rightarrow> Inl ContainerNotFound
            | Some container \<Rightarrow>
              if expected \<noteq> con_revision container then Inl StaleContainerRevision
              else if tick < con_tick container then Inl InvTickRegression
              else if con_cell container \<noteq> t_cell playerTransform then Inl CellMismatch
              else case reachCheck (t_position playerTransform) (cmd_origin command) (con_position container)
                          (maxReach context) of
                Some code \<Rightarrow> Inl code
              | None \<Rightarrow> Inr container)))"

type_synonym transaction_result =
  "InventoryTransactionResultCode + (CanonicalInventoryWorld \<times> ItemStackId option)"

text \<open>The id reported for stacks that moved: the merged stack's, or the moved stack's own.\<close>

definition resultId :: "nat option \<Rightarrow> CanonicalItemStack \<Rightarrow> CanonicalItemStack list \<Rightarrow> ItemStackId" where
  "resultId destination moved stacks =
     (case destination of Some j \<Rightarrow> stackId (stacks ! j) | None \<Rightarrow> stackId moved)"

definition takeFromContainer ::
  "CanonicalInventoryWorld \<Rightarrow> CanonicalPlayerInventoryState \<Rightarrow> Transform \<Rightarrow> InventoryTransactionCommand
     \<Rightarrow> InventoryValidationContext \<Rightarrow> ServerTick \<Rightarrow> transaction_result" where
  "takeFromContainer world player playerTransform command context tick =
     (case accessContainer world playerTransform command context tick of
        Inl code \<Rightarrow> Inl code
      | Inr container \<Rightarrow>
      (case stackIndex (con_stacks container) command of
        None \<Rightarrow> Inl ItemNotFound
      | Some sourceIndex \<Rightarrow>
      (let source = con_stacks container ! sourceIndex; n = cmd_count command;
           destination = mergeIndex (inv_stacks player) source (w_catalog world);
           wholeStack = stackCount source = n;
           needsNewId = destination = None \<and> \<not> wholeStack
       in if stackCount source < n then Inl InsufficientCount
          else if (case destination of Some j \<Rightarrow> addWouldOverflow (stackCount (inv_stacks player ! j)) n | None \<Rightarrow> False)
          then Inl ArithmeticOverflow
          else if destination = None \<and> length (inv_stacks player) \<ge> MaximumPlayerInventoryStacks
          then Inl PlayerInventoryFull
          else
          (case (next_value (inv_revision player), next_value (con_revision container)) of
             (Some nextPlayer, Some nextContainer) \<Rightarrow>
               if needsNewId \<and> w_nextStackId world = None then Inl StackIdExhausted
               else
               (let (world', transferred) = splitStack world needsNewId source n;
                    player' = player\<lparr>inv_stacks := putIn destination transferred (inv_stacks player),
                                     inv_revision := nextPlayer, inv_tick := tick\<rparr>;
                    container' = container\<lparr>con_stacks := takeOut sourceIndex n (con_stacks container),
                                           con_revision := nextContainer, con_tick := tick\<rparr>
                in Inr (putContainer container' (putPlayer player' world'),
                        Some (resultId destination transferred (inv_stacks player))))
           | _ \<Rightarrow> Inl InvRevisionExhausted))))"

definition putIntoContainer ::
  "CanonicalInventoryWorld \<Rightarrow> CanonicalPlayerInventoryState \<Rightarrow> Transform \<Rightarrow> ItemPrototypeDeclaration
     \<Rightarrow> InventoryTransactionCommand \<Rightarrow> InventoryValidationContext \<Rightarrow> ServerTick \<Rightarrow> transaction_result" where
  "putIntoContainer world player playerTransform declaration command context tick =
     (case accessContainer world playerTransform command context tick of
        Inl code \<Rightarrow> Inl code
      | Inr container \<Rightarrow>
      (case stackIndex (inv_stacks player) command of
        None \<Rightarrow> Inl ItemNotFound
      | Some sourceIndex \<Rightarrow>
      (let source = inv_stacks player ! sourceIndex; n = cmd_count command;
           currentWeight = totalWeight (w_catalog world) (con_stacks container);
           addedWeight = (ucast (weightUnits declaration) * ucast n :: u64);
           destination = mergeIndex (con_stacks container) source (w_catalog world);
           wholeStack = stackCount source = n;
           needsNewId = destination = None \<and> \<not> wholeStack
       in if stackCount source < n then Inl InsufficientCount
          else if equipmentUseCount (inv_equipment player) (stackId source) None > unat (stackCount source - n)
          then Inl ItemEquipped
          else if con_capacity container \<noteq> 0
                  \<and> (currentWeight > ucast (con_capacity container)
                      \<or> addedWeight > ucast (con_capacity container) - currentWeight)
          then Inl ContainerCapacityExceeded
          else if (case destination of Some j \<Rightarrow> addWouldOverflow (stackCount (con_stacks container ! j)) n | None \<Rightarrow> False)
          then Inl ArithmeticOverflow
          else if destination = None \<and> length (con_stacks container) \<ge> MaximumContainerStacks
          then Inl ContainerCapacityExceeded
          else
          (case (next_value (inv_revision player), next_value (con_revision container)) of
             (Some nextPlayer, Some nextContainer) \<Rightarrow>
               if needsNewId \<and> w_nextStackId world = None then Inl StackIdExhausted
               else
               (let (world', transferred) = splitStack world needsNewId source n;
                    container' = container\<lparr>con_stacks := putIn destination transferred (con_stacks container),
                                           con_revision := nextContainer, con_tick := tick\<rparr>;
                    player' = player\<lparr>inv_stacks := takeOut sourceIndex n (inv_stacks player),
                                     inv_revision := nextPlayer, inv_tick := tick\<rparr>
                in Inr (putPlayer player' (putContainer container' world'),
                        Some (resultId destination transferred (con_stacks container))))
           | _ \<Rightarrow> Inl InvRevisionExhausted))))"

definition equipItem ::
  "CanonicalInventoryWorld \<Rightarrow> CanonicalPlayerInventoryState \<Rightarrow> ItemPrototypeDeclaration
     \<Rightarrow> InventoryTransactionCommand \<Rightarrow> ServerTick \<Rightarrow> transaction_result" where
  "equipItem world player declaration command tick =
     (case (cmd_slot command, cmd_stack command) of
        (Some slot, Some _) \<Rightarrow>
          if unat slot \<ge> length (inv_equipment player) \<or> slotMask declaration AND slotToMask slot = 0
          then Inl SlotNotCompatible
          else (case stackIndex (inv_stacks player) command of
                  None \<Rightarrow> Inl ItemNotFound
                | Some sourceIndex \<Rightarrow>
                  (let source = inv_stacks player ! sourceIndex; sid = stackId source
                   in if slot = SlotCarriedRight \<and> category declaration = CategoryWeapon
                         \<and> maxCondition declaration \<noteq> 0 \<and> condition source = 0 then Inl ItemBroken
                      else if inv_equipment player ! unat slot = Some sid then Inr (world, Some sid)
                      else if equipmentUseCount (inv_equipment player) sid (Some (unat slot)) \<ge> unat (stackCount source)
                      then Inl EquipmentQuantityExceeded
                      else (case next_value (inv_revision player) of
                              None \<Rightarrow> Inl InvRevisionExhausted
                            | Some nextRevision \<Rightarrow>
                              Inr (putPlayer (player\<lparr>inv_equipment := (inv_equipment player)[unat slot := Some sid],
                                                    inv_revision := nextRevision, inv_tick := tick\<rparr>) world,
                                   Some sid))))
      | _ \<Rightarrow> Inl SlotNotCompatible)"

definition unequipItem ::
  "CanonicalInventoryWorld \<Rightarrow> CanonicalPlayerInventoryState \<Rightarrow> InventoryTransactionCommand \<Rightarrow> ServerTick
     \<Rightarrow> transaction_result" where
  "unequipItem world player command tick =
     (case cmd_slot command of
        None \<Rightarrow> Inl SlotNotCompatible
      | Some slot \<Rightarrow>
        if unat slot \<ge> length (inv_equipment player) then Inl SlotNotCompatible
        else (case inv_equipment player ! unat slot of
                None \<Rightarrow> Inr (world, None)
              | Some sid \<Rightarrow>
                if cmd_stack command \<noteq> None \<and> cmd_stack command \<noteq> Some sid then Inl ItemNotFound
                else (case next_value (inv_revision player) of
                        None \<Rightarrow> Inl InvRevisionExhausted
                      | Some nextRevision \<Rightarrow>
                        Inr (putPlayer (player\<lparr>inv_equipment := (inv_equipment player)[unat slot := None],
                                              inv_revision := nextRevision, inv_tick := tick\<rparr>) world, Some sid))))"

definition dropItem ::
  "CanonicalInventoryWorld \<Rightarrow> CanonicalPlayerInventoryState \<Rightarrow> Transform \<Rightarrow> InventoryTransactionCommand
     \<Rightarrow> InventoryValidationContext \<Rightarrow> ServerTick \<Rightarrow> transaction_result" where
  "dropItem world player playerTransform command context tick =
     (if \<not> positionsWithinReach (t_position playerTransform) (cmd_origin command) (maxReach context)
      then Inl OriginOutOfReach
      else case stackIndex (inv_stacks player) command of
        None \<Rightarrow> Inl ItemNotFound
      | Some sourceIndex \<Rightarrow>
        (let source = inv_stacks player ! sourceIndex; n = cmd_count command;
             wholeStack = stackCount source = n
         in if stackCount source < n then Inl InsufficientCount
            else if equipmentUseCount (inv_equipment player) (stackId source) None > unat (stackCount source - n)
            then Inl ItemEquipped
            else if length (w_worldItems world) \<ge> MaximumWorldItemStacks then Inl WorldItemCapacityExceeded
            else (case next_value (inv_revision player) of
                    None \<Rightarrow> Inl InvRevisionExhausted
                  | Some nextRevision \<Rightarrow>
                    if \<not> wholeStack \<and> w_nextStackId world = None then Inl StackIdExhausted
                    else
                    (let (world', dropped) = splitStack world (\<not> wholeStack) source n;
                         player' = player\<lparr>inv_stacks := takeOut sourceIndex n (inv_stacks player),
                                          inv_revision := nextRevision, inv_tick := tick\<rparr>;
                         item = \<lparr>wi_stack = dropped, wi_cell = t_cell playerTransform,
                                 wi_position = cmd_origin command, wi_revision = initial CounterFromOne,
                                 wi_tick = tick\<rparr>
                     in Inr ((putPlayer player' world')\<lparr>w_worldItems := insert_key wi_id item (w_worldItems world')\<rparr>,
                             Some (stackId dropped))))))"

definition pickupItem ::
  "CanonicalInventoryWorld \<Rightarrow> CanonicalPlayerInventoryState \<Rightarrow> Transform \<Rightarrow> InventoryTransactionCommand
     \<Rightarrow> InventoryValidationContext \<Rightarrow> ServerTick \<Rightarrow> transaction_result" where
  "pickupItem world player playerTransform command context tick =
     (case cmd_stack command of
        None \<Rightarrow> Inl WorldItemNotFound
      | Some sid \<Rightarrow>
      (case cmd_expectedWorldItem command of
        None \<Rightarrow> Inl MissingExpectedRevision
      | Some expected \<Rightarrow>
      (case find_key wi_id (w_worldItems world) sid of
        None \<Rightarrow> Inl WorldItemNotFound
      | Some k \<Rightarrow>
      (let item = w_worldItems world ! k; source = wi_stack item; n = cmd_count command;
           destination = mergeIndex (inv_stacks player) source (w_catalog world);
           wholeStack = stackCount source = n;
           nextItemRevision = (if wholeStack then None else next_value (wi_revision item));
           needsNewId = destination = None \<and> \<not> wholeStack
       in if prototypeId source \<noteq> cmd_prototype command then Inl WorldItemNotFound
          else if expected \<noteq> wi_revision item then Inl StaleWorldItemRevision
          else if tick < wi_tick item then Inl InvTickRegression
          else if wi_cell item \<noteq> t_cell playerTransform then Inl CellMismatch
          else case reachCheck (t_position playerTransform) (cmd_origin command) (wi_position item) (maxReach context) of
            Some code \<Rightarrow> Inl code
          | None \<Rightarrow>
          if stackCount source < n then Inl InsufficientCount
          else if (case destination of Some j \<Rightarrow> addWouldOverflow (stackCount (inv_stacks player ! j)) n | None \<Rightarrow> False)
          then Inl ArithmeticOverflow
          else if destination = None \<and> length (inv_stacks player) \<ge> MaximumPlayerInventoryStacks
          then Inl PlayerInventoryFull
          else
          (case next_value (inv_revision player) of
             None \<Rightarrow> Inl InvRevisionExhausted
           | Some nextPlayer \<Rightarrow>
             if \<not> wholeStack \<and> nextItemRevision = None then Inl InvRevisionExhausted
             else if needsNewId \<and> w_nextStackId world = None then Inl StackIdExhausted
             else
             (let (world', pickedUp) = splitStack world needsNewId source n;
                  player' = player\<lparr>inv_stacks := putIn destination pickedUp (inv_stacks player),
                                   inv_revision := nextPlayer, inv_tick := tick\<rparr>;
                  items = (if wholeStack then erase_at k (w_worldItems world')
                           else (w_worldItems world')[k := item\<lparr>wi_stack := source\<lparr>stackCount := stackCount source - n\<rparr>,
                                                             wi_revision := the nextItemRevision, wi_tick := tick\<rparr>])
              in Inr ((putPlayer player' world')\<lparr>w_worldItems := items\<rparr>,
                      Some (resultId destination pickedUp (inv_stacks player)))))))))"

definition makeOutcome ::
  "CanonicalInventoryWorld \<Rightarrow> InventoryTransactionCommand \<Rightarrow> InventoryTransactionResultCode \<Rightarrow> ItemStackId option
     \<Rightarrow> InventoryTransactionOutcome" where
  "makeOutcome world command code affected =
     \<lparr>out_code = code, out_player = cmd_player command,
      out_inventoryRevision =
        (case findInventoryPlayer world (cmd_player command) of
           Some p \<Rightarrow> inv_revision p | None \<Rightarrow> cmd_expectedInventory command),
      out_container = cmd_container command,
      out_containerRevision = map_option con_revision (Option.bind (cmd_container command) (findContainer world)),
      out_worldItemRevision = map_option wi_revision (Option.bind (cmd_stack command) (findWorldItem world)),
      out_affectedStack = affected\<rparr>"

definition transfersCount :: "InventoryTransactionKind \<Rightarrow> bool" where
  "transfersCount kind \<longleftrightarrow>
     kind = TakeFromContainer \<or> kind = PutIntoContainer \<or> kind = DropItem \<or> kind = PickupItem"

definition transact ::
  "CanonicalInventoryWorld \<Rightarrow> CanonicalServerState \<Rightarrow> InventoryTransactionCommand \<Rightarrow> InventoryValidationContext
     \<Rightarrow> ServerTick \<Rightarrow> transaction_result" where
  "transact world state command context tick =
     (case (findPlayer state (cmd_player command), findInventoryPlayer world (cmd_player command)) of
        (Some playerState, Some player) \<Rightarrow>
          if inv_revision player \<noteq> cmd_expectedInventory command then Inl StaleInventoryRevision
          else if tick < inv_tick player \<or> tick < lastSpatialChangeTick playerState then Inl InvTickRegression
          else if transfersCount (cmd_kind command)
                  \<and> (cmd_count command = 0 \<or> cmd_count command > MaximumTransferCount) then Inl InsufficientCount
          else if cmd_kind command = UnequipItem then unequipItem world player command tick
          else (case findPrototype (w_catalog world) (cmd_prototype command) of
                  None \<Rightarrow> Inl PrototypeNotFound
                | Some declaration \<Rightarrow>
                  (case cmd_kind command of
                     TakeAllFromContainer \<Rightarrow> Inl InternalError
                   | TakeFromContainer \<Rightarrow>
                       takeFromContainer world player (transform playerState) command context tick
                   | PutIntoContainer \<Rightarrow>
                       putIntoContainer world player (transform playerState) declaration command context tick
                   | EquipItem \<Rightarrow> equipItem world player declaration command tick
                   | UnequipItem \<Rightarrow> unequipItem world player command tick
                   | DropItem \<Rightarrow> dropItem world player (transform playerState) command context tick
                   | PickupItem \<Rightarrow> pickupItem world player (transform playerState) command context tick))
      | _ \<Rightarrow> Inl InvPlayerNotFound)"

definition applyInventoryTransaction ::
  "CanonicalInventoryWorld \<Rightarrow> CanonicalServerState \<Rightarrow> InventoryTransactionCommand \<Rightarrow> InventoryValidationContext
     \<Rightarrow> ServerTick \<Rightarrow> CanonicalInventoryWorld \<times> InventoryTransactionOutcome" where
  "applyInventoryTransaction world state command context tick =
     (case transact world state command context tick of
        Inl code \<Rightarrow> (world, makeOutcome world command code None)
      | Inr (world', affected) \<Rightarrow>
          (world',
           (let outcome = makeOutcome world' command InvSuccess affected
            in if cmd_kind command = DropItem
               then outcome\<lparr>out_worldItemRevision := Some (initial CounterFromOne)\<rparr> else outcome)))"

end
