(* ===== verification/Inventory_Invariant.thy ===== *)
theory Inventory_Invariant
  imports Inventory_World
begin

unbundle bit_operations_syntax

text \<open>
  The invariant of the inventory world, the quantities the operations conserve, and what the
  shared writes (\<open>takeOut\<close>, \<open>putIn\<close>, \<open>putPlayer\<close>, \<open>putContainer\<close>, \<open>splitStack\<close>) do to them. The operations
  themselves are treated in the theories that follow.
\<close>

section \<open>Invariant\<close>

definition world_stacks :: "CanonicalInventoryWorld \<Rightarrow> CanonicalItemStack list" where
  "world_stacks w = allStacks (w_players w) (w_containers w) (w_worldItems w)"

definition player_ok :: "ItemPrototypeCatalog \<Rightarrow> CanonicalPlayerInventoryState \<Rightarrow> bool" where
  "player_ok catalog p \<longleftrightarrow> keys_sorted stackId (inv_stacks p)
     \<and> length (inv_equipment p) = unat EquipmentSlotCount \<and> playerValid catalog p"

definition container_ok :: "ContentManifest \<Rightarrow> ItemPrototypeCatalog \<Rightarrow> CanonicalContainerInventoryState \<Rightarrow> bool" where
  "container_ok manifest catalog c \<longleftrightarrow> keys_sorted stackId (con_stacks c) \<and> containerValid manifest catalog c"

text \<open>No two stacks share an id, and an id that can still be allocated is above every id in use, and not zero.\<close>

definition ids_ok :: "CanonicalInventoryWorld \<Rightarrow> bool" where
  "ids_ok w \<longleftrightarrow> distinct (map stackId (world_stacks w))
     \<and> (\<forall>n. w_nextStackId w = Some n \<longrightarrow> n \<noteq> 0 \<and> (\<forall>s \<in> set (world_stacks w). stackId s < n))"

definition players_ok :: "CanonicalInventoryWorld \<Rightarrow> bool" where
  "players_ok w \<longleftrightarrow> keys_sorted inv_player (w_players w) \<and> length (w_players w) \<le> MaximumInventoryPlayers
     \<and> (\<forall>p \<in> set (w_players w). player_ok (w_catalog w) p)"

definition containers_ok :: "CanonicalInventoryWorld \<Rightarrow> bool" where
  "containers_ok w \<longleftrightarrow> keys_sorted con_id (w_containers w) \<and> length (w_containers w) \<le> MaximumInventoryContainers
     \<and> (\<forall>c \<in> set (w_containers w). container_ok (w_manifest w) (w_catalog w) c)"

definition items_ok :: "CanonicalInventoryWorld \<Rightarrow> bool" where
  "items_ok w \<longleftrightarrow> keys_sorted wi_id (w_worldItems w) \<and> length (w_worldItems w) \<le> MaximumWorldItemStacks
     \<and> (\<forall>i \<in> set (w_worldItems w). worldItemValid (w_manifest w) (w_catalog w) i)"

definition inventory_ok :: "CanonicalInventoryWorld \<Rightarrow> bool" where
  "inventory_ok w \<longleftrightarrow> cat_manifestId (w_catalog w) = mId (w_manifest w)
     \<and> players_ok w \<and> containers_ok w \<and> items_ok w \<and> ids_ok w"

lemmas inventory_parts = players_ok_def containers_ok_def items_ok_def

definition players_sorted :: "CanonicalInventoryWorld \<Rightarrow> bool" where
  "players_sorted w \<longleftrightarrow> keys_sorted inv_player (w_players w)"

definition containers_sorted :: "CanonicalInventoryWorld \<Rightarrow> bool" where
  "containers_sorted w \<longleftrightarrow> keys_sorted con_id (w_containers w)"

interpretation inventory_players: updatable_table inv_player w_players players_sorted findInventoryPlayer putPlayer
  by unfold_locales
    (auto simp: players_sorted_def findInventoryPlayer_def putPlayer_def vec_simps lookup_replace_key
      replace_key_member replace_key_twice simp del: map_key_replace_key)

interpretation inventory_containers: updatable_table con_id w_containers containers_sorted findContainer putContainer
  by unfold_locales
    (auto simp: containers_sorted_def findContainer_def putContainer_def vec_simps lookup_replace_key
      replace_key_member replace_key_twice simp del: map_key_replace_key)

section \<open>Sums over the stacks of the world\<close>

definition stack_sum :: "(CanonicalItemStack \<Rightarrow> nat) \<Rightarrow> CanonicalItemStack list \<Rightarrow> nat" where
  "stack_sum f ss = (\<Sum>s\<leftarrow>ss. f s)"

definition world_sum :: "(CanonicalItemStack \<Rightarrow> nat) \<Rightarrow> CanonicalInventoryWorld \<Rightarrow> nat" where
  "world_sum f w = stack_sum f (world_stacks w)"

lemma stack_sum_append [simp]: "stack_sum f (xs @ ys) = stack_sum f xs + stack_sum f ys"
  by (simp add: stack_sum_def)

lemma stack_sum_Nil [simp]: "stack_sum f [] = 0"
  by (simp add: stack_sum_def)

lemma stack_sum_concat: "stack_sum f (concat (map g xs)) = (\<Sum>x\<leftarrow>xs. stack_sum f (g x))"
  by (induction xs) simp_all

lemma world_sum_split:
  "world_sum f w = (\<Sum>p\<leftarrow>w_players w. stack_sum f (inv_stacks p))
     + (\<Sum>c\<leftarrow>w_containers w. stack_sum f (con_stacks c)) + (\<Sum>i\<leftarrow>w_worldItems w. f (wi_stack i))"
  by (simp add: world_sum_def world_stacks_def allStacks_def stack_sum_concat)
    (simp add: stack_sum_def comp_def)

lemma world_sum_putPlayer:
  "findInventoryPlayer w (inv_player p') = Some p \<Longrightarrow>
     world_sum f (putPlayer p' w) + stack_sum f (inv_stacks p) = world_sum f w + stack_sum f (inv_stacks p')"
  using sum_replace_key [of inv_player "w_players w" p' p "\<lambda>p. stack_sum f (inv_stacks p)"]
  by (simp add: world_sum_split findInventoryPlayer_def putPlayer_def)

lemma world_sum_putContainer:
  "findContainer w (con_id c') = Some c \<Longrightarrow>
     world_sum f (putContainer c' w) + stack_sum f (con_stacks c) = world_sum f w + stack_sum f (con_stacks c')"
  using sum_replace_key [of con_id "w_containers w" c' c "\<lambda>c. stack_sum f (con_stacks c)"]
  by (simp add: world_sum_split findContainer_def putContainer_def)

lemma world_sum_items:
  "world_sum f (w\<lparr>w_worldItems := is\<rparr>) + (\<Sum>i\<leftarrow>w_worldItems w. f (wi_stack i))
     = world_sum f w + (\<Sum>i\<leftarrow>is. f (wi_stack i))"
  by (simp add: world_sum_split)

lemma world_sum_next [simp]: "world_sum f (w\<lparr>w_nextStackId := n\<rparr>) = world_sum f w"
  by (simp add: world_sum_split)

lemma world_sum_player_le:
  "p \<in> set (w_players w) \<Longrightarrow> stack_sum f (inv_stacks p) \<le> world_sum f w"
  using member_le_sum_list [of "stack_sum f (inv_stacks p)" "map (\<lambda>p. stack_sum f (inv_stacks p)) (w_players w)"]
  by (simp add: world_sum_split)

subsection \<open>Items held\<close>

text \<open>Two items are interchangeable when prototype, condition, charge and soul agree.\<close>

type_synonym item_kind = "ItemPrototypeId \<times> u32 \<times> u32 \<times> ActorPrototypeId option"

definition kind_of :: "CanonicalItemStack \<Rightarrow> item_kind" where
  "kind_of s = (prototypeId s, condition s, enchantmentCharge s, soulPrototype s)"

definition held :: "item_kind \<Rightarrow> CanonicalItemStack \<Rightarrow> nat" where
  "held k s = (if kind_of s = k then unat (stackCount s) else 0)"

text \<open>A quantity of so much per item, the number of items of a kind and the weight among them.\<close>

definition per_item :: "(item_kind \<Rightarrow> nat) \<Rightarrow> CanonicalItemStack \<Rightarrow> nat" where
  "per_item g s = g (kind_of s) * unat (stackCount s)"

lemma held_per_item: "held k = per_item (\<lambda>k'. of_bool (k' = k))"
  by (auto simp: held_def per_item_def)

text \<open>How many items of a kind exist in the world, wherever they are.\<close>

definition items_in_world :: "CanonicalInventoryWorld \<Rightarrow> item_kind \<Rightarrow> nat" where
  "items_in_world w k = world_sum (held k) w"

lemma kind_of_count [simp]: "kind_of (s\<lparr>stackCount := n\<rparr>) = kind_of s"
  by (simp add: kind_of_def)

lemma kind_of_id [simp]: "kind_of (s\<lparr>stackId := i\<rparr>) = kind_of s"
  by (simp add: kind_of_def)

lemma kind_of_prototype: "kind_of s = kind_of t \<Longrightarrow> prototypeId s = prototypeId t"
  by (simp add: kind_of_def)

lemma canStackWith_kind: "canStackWith cat a b \<Longrightarrow> kind_of a = kind_of b"
  by (auto simp: canStackWith_def kind_of_def split: if_splits option.splits)

lemma mergeIndex_SomeD:
  assumes "mergeIndex xs s cat = Some j"
  shows "j < length xs \<and> kind_of (xs ! j) = kind_of s
      \<and> (\<exists>d. findPrototype cat (prototypeId s) = Some d \<and> stackable d)"
  using find_index_iff [OF assms [unfolded mergeIndex_def]]
  by (auto simp: canStackWith_def kind_of_def split: if_splits option.splits)

lemma per_item_takeOut:
  assumes "i < length xs" and "n \<le> stackCount (xs ! i)"
  shows "stack_sum (per_item g) (takeOut i n xs) + g (kind_of (xs ! i)) * unat n = stack_sum (per_item g) xs"
proof (cases "stackCount (xs ! i) = n")
  case True
  then have "per_item g (xs ! i) = g (kind_of (xs ! i)) * unat n" by (simp add: per_item_def)
  then show ?thesis using True sum_erase_at [OF assms(1), of "per_item g"] by (simp add: takeOut_def stack_sum_def)
next
  case False
  let ?s = "(xs ! i)\<lparr>stackCount := stackCount (xs ! i) - n\<rparr>"
  have "unat (stackCount (xs ! i) - n) + unat n = unat (stackCount (xs ! i))"
    using assms(2) by (simp add: unat_minus_le word_le_nat_alt)
  then have "per_item g ?s + g (kind_of (xs ! i)) * unat n = per_item g (xs ! i)"
    by (simp add: per_item_def distrib_left [symmetric])
  then show ?thesis using False sum_list_update_nat [OF assms(1), of "per_item g" ?s]
    by (simp add: takeOut_def stack_sum_def)
qed

lemma unat_add_no_overflow: "\<not> addWouldOverflow a b \<Longrightarrow> unat (a + b) = unat a + unat b"
proof -
  assume "\<not> addWouldOverflow a b"
  then have "unat b \<le> 4294967295 - unat a"
    by (simp add: addWouldOverflow_def not_less word_le_nat_alt unat_u32_max_minus)
  then have "unat a + unat b < 2 ^ LENGTH(32)" using unat_lt_u32 [of a] by (simp del: unat_lt_u32)
  then show ?thesis by (rule unat_plus_no_wrap)
qed

text \<open>The destination of a transfer: found by \<open>mergeIndex\<close> and checked against overflow.\<close>

definition merge_target :: "ItemPrototypeCatalog \<Rightarrow> nat option \<Rightarrow> CanonicalItemStack \<Rightarrow> CanonicalItemStack list \<Rightarrow> bool" where
  "merge_target cat dest t xs \<longleftrightarrow>
     (\<forall>j. dest = Some j \<longrightarrow> j < length xs \<and> kind_of (xs ! j) = kind_of t
        \<and> (\<exists>d. findPrototype cat (prototypeId t) = Some d \<and> stackable d)
        \<and> \<not> addWouldOverflow (stackCount (xs ! j)) (stackCount t))"

lemma merge_targetI:
  assumes "dest = mergeIndex xs s cat" and "kind_of t = kind_of s"
    and "\<not> (case dest of Some j \<Rightarrow> addWouldOverflow (stackCount (xs ! j)) (stackCount t) | None \<Rightarrow> False)"
  shows "merge_target cat dest t xs"
  using assms mergeIndex_SomeD [of xs s cat] kind_of_prototype [OF assms(2)]
  by (auto simp: merge_target_def split: option.splits)

lemma per_item_putIn:
  assumes "merge_target cat dest t xs"
  shows "stack_sum (per_item g) (putIn dest t xs) = stack_sum (per_item g) xs + per_item g t"
proof (cases dest)
  case None
  then show ?thesis by (simp add: putIn_def stack_sum_def sum_insert_key)
next
  case (Some j)
  let ?s = "(xs ! j)\<lparr>stackCount := stackCount (xs ! j) + stackCount t\<rparr>"
  have j: "j < length xs" and k: "kind_of (xs ! j) = kind_of t"
    and o: "\<not> addWouldOverflow (stackCount (xs ! j)) (stackCount t)"
    using assms Some by (auto simp: merge_target_def)
  have "per_item g ?s = per_item g (xs ! j) + per_item g t" using k o by (simp add: per_item_def unat_add_no_overflow distrib_left)
  then show ?thesis using Some sum_list_update_nat [OF j, of "per_item g" ?s] by (simp add: putIn_def stack_sum_def)
qed

subsection \<open>Stack ids\<close>

definition has_id :: "ItemStackId \<Rightarrow> CanonicalItemStack \<Rightarrow> nat" where
  "has_id a s = of_bool (stackId s = a)"

lemma has_id_count [simp]: "has_id a (s\<lparr>stackCount := n\<rparr>) = has_id a s"
  by (simp add: has_id_def)

lemma stack_sum_has_id: "stack_sum (has_id a) xs = count_list (map stackId xs) a"
  by (induction xs) (simp_all add: stack_sum_def has_id_def)

lemma distinct_count_list: "distinct xs \<longleftrightarrow> (\<forall>a. count_list xs a \<le> 1)"
proof (induction xs)
  case (Cons x xs)
  have "(\<forall>a. count_list (x # xs) a \<le> 1) \<longleftrightarrow> count_list xs x = 0 \<and> (\<forall>a. count_list xs a \<le> 1)"
    (is "?L \<longleftrightarrow> ?R")
  proof
    assume L: ?L
    have "count_list xs x = 0" using L [rule_format, of x] by simp
    moreover have "count_list xs a \<le> 1" for a using L [rule_format, of a] by (simp split: if_splits)
    ultimately show ?R by blast
  next
    assume ?R
    then show ?L by simp
  qed
  with Cons show ?case by (simp add: count_list_0_iff)
qed simp

lemma ids_ok_iff:
  "ids_ok w \<longleftrightarrow> (\<forall>a. world_sum (has_id a) w \<le> 1)
     \<and> (\<forall>n a. w_nextStackId w = Some n \<longrightarrow> n \<le> a \<longrightarrow> world_sum (has_id a) w = 0) \<and> w_nextStackId w \<noteq> Some 0"
proof -
  have zero: "world_sum (has_id a) w = 0 \<longleftrightarrow> (\<forall>s \<in> set (world_stacks w). stackId s \<noteq> a)" for a
    by (auto simp: world_sum_def stack_sum_has_id count_list_0_iff)
  show ?thesis
    unfolding ids_ok_def distinct_count_list zero
    by (auto simp: world_sum_def stack_sum_has_id) (metis leD, metis not_le_imp_less)
qed

lemma id_takeOut:
  assumes "i < length xs"
  shows "stack_sum (has_id a) (takeOut i n xs) + (if stackCount (xs ! i) = n then has_id a (xs ! i) else 0)
     = stack_sum (has_id a) xs"
proof (cases "stackCount (xs ! i) = n")
  case True
  then show ?thesis using sum_erase_at [OF assms, of "has_id a"] by (simp add: takeOut_def stack_sum_def)
next
  case False
  then show ?thesis
    using sum_list_update_nat [OF assms, of "has_id a" "(xs ! i)\<lparr>stackCount := stackCount (xs ! i) - n\<rparr>"]
    by (simp add: takeOut_def stack_sum_def)
qed

lemma id_putIn:
  assumes "\<forall>j. dest = Some j \<longrightarrow> j < length xs"
  shows "stack_sum (has_id a) (putIn dest t xs) = stack_sum (has_id a) xs + (if dest = None then has_id a t else 0)"
proof (cases dest)
  case None
  then show ?thesis by (simp add: putIn_def stack_sum_def sum_insert_key)
next
  case (Some j)
  then show ?thesis
    using assms sum_list_update_nat [of j xs "has_id a" "(xs ! j)\<lparr>stackCount := stackCount (xs ! j) + stackCount t\<rparr>"]
    by (simp add: putIn_def stack_sum_def)
qed

text \<open>An operation that keeps ids, drops ids, or allocates the next one keeps the id discipline.\<close>

lemma followingStackId_less: "followingStackId n = Some m \<Longrightarrow> n < m"
  by (auto simp: followingStackId_def fromValue_def word_less_nat_alt word_Suc_neq_max split: if_splits)

definition next_after :: "bool \<Rightarrow> ItemStackId option \<Rightarrow> ItemStackId option" where
  "next_after new nid = (if new then Option.bind nid followingStackId else nid)"

lemma ids_ok_step:
  assumes ok: "ids_ok w" and nxt: "w_nextStackId w' = next_after new (w_nextStackId w)"
    and le: "\<And>a. world_sum (has_id a) w' \<le> world_sum (has_id a) w + of_bool (new \<and> w_nextStackId w = Some a)"
  shows "ids_ok w'"
  unfolding ids_ok_iff
proof (intro conjI allI impI)
  fix a
  show "world_sum (has_id a) w' \<le> 1"
  proof (cases "new \<and> w_nextStackId w = Some a")
    case True
    then have "world_sum (has_id a) w = 0" using ok by (simp add: ids_ok_iff)
    then show ?thesis using le [of a] True by simp
  next
    case False
    then show ?thesis using le [of a] ok by (auto simp: ids_ok_iff intro: order_trans)
  qed
next
  fix m a assume m: "w_nextStackId w' = Some m" "m \<le> a"
  obtain n where n: "w_nextStackId w = Some n" "n \<le> m" "new \<longrightarrow> n < m"
    using m(1) nxt followingStackId_less
    by (cases "w_nextStackId w") (auto simp: next_after_def split: if_splits intro: less_imp_le)
  then have "world_sum (has_id a) w = 0" using ok m(2) by (auto simp: ids_ok_iff)
  moreover have "\<not> (new \<and> w_nextStackId w = Some a)" using n m(2) by auto
  ultimately show "world_sum (has_id a) w' = 0" using le [of a] by auto
next
  have "w_nextStackId w \<noteq> Some 0" using ok by (simp add: ids_ok_iff)
  then show "w_nextStackId w' \<noteq> Some 0"
    using nxt by (cases "w_nextStackId w") (auto simp: next_after_def dest!: followingStackId_less split: if_splits)
qed

lemma splitStack_facts:
  assumes "splitStack w new source n = (w', t)" and "new \<longrightarrow> w_nextStackId w \<noteq> None"
  shows "w' = w\<lparr>w_nextStackId := next_after new (w_nextStackId w)\<rparr>" and "kind_of t = kind_of source"
    and "stackCount t = n" and "\<not> new \<Longrightarrow> stackId t = stackId source"
    and "new \<Longrightarrow> w_nextStackId w = Some (stackId t)"
  using assms by (auto simp: splitStack_def allocateNextStackId_def next_after_def split: if_splits)

section \<open>Stack lists\<close>

lemma validStack_count:
  assumes "validStack cat s" and "kind_of t = kind_of s" and "stackCount t \<noteq> 0"
    and "stackCount t \<le> stackCount s \<or> (\<exists>d. findPrototype cat (prototypeId t) = Some d \<and> stackable d)"
  shows "validStack cat t"
proof -
  have "stackCount t = 1" if "stackCount s = 1" "stackCount t \<le> stackCount s"
    using that assms(3) by (simp add: word_le_nat_alt word_unat_eq_iff)
  then show ?thesis using assms by (auto simp: validStack_def kind_of_def split: option.splits)
qed

lemma takeOut_ids: "i < length xs \<Longrightarrow> stackId ` set (takeOut i n xs) \<subseteq> stackId ` set xs"
proof -
  assume "i < length xs"
  have "map stackId (xs[i := (xs ! i)\<lparr>stackCount := c\<rparr>]) = map stackId xs" for c by (simp add: map_key_update)
  then have "stackId ` set (xs[i := (xs ! i)\<lparr>stackCount := c\<rparr>]) = stackId ` set xs" for c by (metis set_map)
  then show ?thesis using set_erase_at_subset [of i xs] by (auto simp: takeOut_def)
qed

lemma keys_sorted_takeOut: "keys_sorted stackId xs \<Longrightarrow> keys_sorted stackId (takeOut i n xs)"
  by (simp add: takeOut_def keys_sorted_erase_at keys_sorted_update)

lemma keys_sorted_putIn:
  "keys_sorted stackId xs \<Longrightarrow> (dest = None \<Longrightarrow> stackId t \<notin> stackId ` set xs) \<Longrightarrow> keys_sorted stackId (putIn dest t xs)"
  by (cases dest) (simp_all add: putIn_def keys_sorted_insert_key keys_sorted_update)

lemma length_takeOut: "i < length xs \<Longrightarrow> length (takeOut i n xs) \<le> length xs"
  by (simp add: takeOut_def length_erase_at)

lemma length_putIn: "length (putIn dest t xs) = (if dest = None then Suc (length xs) else length xs)"
  by (simp add: putIn_def split: option.split)

lemma valid_takeOut:
  assumes "list_all (validStack cat) xs" and "i < length xs" and "n \<le> stackCount (xs ! i)"
  shows "list_all (validStack cat) (takeOut i n xs)"
proof (cases "stackCount (xs ! i) = n")
  case True
  then show ?thesis using assms(1) set_erase_at_subset [of i xs] by (auto simp: takeOut_def list_all_iff)
next
  case False
  have "stackCount (xs ! i) - n \<noteq> 0" using False by simp
  moreover have "unat (stackCount (xs ! i) - n) \<le> unat (stackCount (xs ! i))"
    unfolding unat_minus_le [OF assms(3)] by (rule diff_le_self)
  then have "stackCount (xs ! i) - n \<le> stackCount (xs ! i)" unfolding word_le_nat_alt .
  ultimately have "validStack cat ((xs ! i)\<lparr>stackCount := stackCount (xs ! i) - n\<rparr>)"
    using assms(1,2) by - (rule validStack_count [of cat "xs ! i"], simp_all add: list_all_length)
  then show ?thesis using False assms(1) set_update_subset_insert [of xs i] by (force simp: takeOut_def list_all_iff)
qed

lemma valid_putIn:
  assumes "list_all (validStack cat) xs" and "merge_target cat dest t xs" and "validStack cat t"
  shows "list_all (validStack cat) (putIn dest t xs)"
proof (cases dest)
  case None
  then show ?thesis using assms by (simp add: putIn_def list_all_iff)
next
  case (Some j)
  let ?s = "(xs ! j)\<lparr>stackCount := stackCount (xs ! j) + stackCount t\<rparr>"
  obtain d where j: "j < length xs" "kind_of (xs ! j) = kind_of t" "\<not> addWouldOverflow (stackCount (xs ! j)) (stackCount t)"
    and d: "findPrototype cat (prototypeId t) = Some d" "stackable d"
    using assms(2) Some by (auto simp: merge_target_def)
  have v: "validStack cat (xs ! j)" using assms(1) j(1) by (simp add: list_all_length)
  have "stackCount (xs ! j) \<noteq> 0" using v by (auto simp: validStack_def split: option.splits)
  then have "stackCount (xs ! j) + stackCount t \<noteq> 0"
    using unat_add_no_overflow [OF j(3)] by (auto simp: unat_eq_0)
  then have "validStack cat ?s"
    using d kind_of_prototype [OF j(2)] by (intro validStack_count [OF v]) simp_all
  then show ?thesis using Some assms(1) set_update_subset_insert [of xs j] by (force simp: putIn_def list_all_iff)
qed

lemma erase_at_member: "s \<in> set xs \<Longrightarrow> s \<noteq> xs ! i \<Longrightarrow> s \<in> set (erase_at i xs)"
proof (cases "i < length xs")
  case True
  assume "s \<in> set xs" "s \<noteq> xs ! i"
  then have "s \<in># add_mset (xs ! i) (mset (erase_at i xs))" using mset_erase_at [OF True] by simp
  then show ?thesis using \<open>s \<noteq> xs ! i\<close> by simp
qed (simp add: erase_at_def)

lemma list_update_member: "s \<in> set xs \<Longrightarrow> s \<noteq> xs ! i \<Longrightarrow> s \<in> set (xs[i := y])"
  by (metis in_set_conv_nth length_list_update nth_list_update_neq)

section \<open>Equipment\<close>

lemma findStack_iff:
  "keys_sorted stackId ss \<Longrightarrow> findStack ss sid = Some s \<longleftrightarrow> s \<in> set ss \<and> stackId s = sid"
  using keys_sorted_inject [of stackId ss] unfolding findStack_def find_Some_iff
  by (auto simp: in_set_conv_nth) (metis keys_sorted_nth_inject less_imp_neq order_less_trans nth_mem)+

text \<open>One equipped slot, stated on the set of stacks.\<close>

definition slot_ok :: "ItemPrototypeCatalog \<Rightarrow> CanonicalItemStack list \<Rightarrow> ItemStackId option list \<Rightarrow> nat \<Rightarrow> ItemStackId \<Rightarrow> bool" where
  "slot_ok cat ss eq slot sid \<longleftrightarrow>
     (\<exists>s \<in> set ss. \<exists>d. stackId s = sid \<and> findPrototype cat (prototypeId s) = Some d
        \<and> slotMask d AND slotToMask (of_nat slot) \<noteq> 0
        \<and> \<not> (of_nat slot = SlotCarriedRight \<and> category d = CategoryWeapon \<and> maxCondition d \<noteq> 0 \<and> condition s = 0)
        \<and> equipmentUseCount eq sid None \<le> unat (stackCount s))"

lemma equipmentSlotValid_iff:
  assumes "keys_sorted stackId (inv_stacks p)"
  shows "equipmentSlotValid cat p slot \<longleftrightarrow>
     (\<forall>sid. inv_equipment p ! slot = Some sid \<longrightarrow> slot_ok cat (inv_stacks p) (inv_equipment p) slot sid)"
proof -
  have "(case findStack (inv_stacks p) sid of None \<Rightarrow> False | Some s \<Rightarrow> Q s) \<longleftrightarrow>
      (\<exists>s \<in> set (inv_stacks p). stackId s = sid \<and> Q s)" for sid Q
    by (cases "findStack (inv_stacks p) sid")
      (metis findStack_iff [OF assms] option.simps(4) not_Some_eq,
        metis findStack_iff [OF assms] option.simps(5) option.inject)
  then show ?thesis
    by (auto simp: equipmentSlotValid_def slot_ok_def not_less split: option.splits)
qed

lemma playerValid_iff:
  assumes "keys_sorted stackId (inv_stacks p)"
  shows "playerValid cat p \<longleftrightarrow> length (inv_stacks p) \<le> MaximumPlayerInventoryStacks
     \<and> list_all (validStack cat) (inv_stacks p)
     \<and> (\<forall>slot < length (inv_equipment p). \<forall>sid. inv_equipment p ! slot = Some sid \<longrightarrow>
          slot_ok cat (inv_stacks p) (inv_equipment p) slot sid)"
  by (auto simp: playerValid_def equipmentSlotValid_iff [OF assms] list_all_iff)

lemma player_ok_iff:
  "player_ok cat p \<longleftrightarrow> keys_sorted stackId (inv_stacks p) \<and> length (inv_equipment p) = unat EquipmentSlotCount
     \<and> length (inv_stacks p) \<le> MaximumPlayerInventoryStacks \<and> list_all (validStack cat) (inv_stacks p)
     \<and> (\<forall>slot < length (inv_equipment p). \<forall>sid. inv_equipment p ! slot = Some sid \<longrightarrow>
          slot_ok cat (inv_stacks p) (inv_equipment p) slot sid)"
  by (auto simp: player_ok_def playerValid_iff)

lemma use_positive:
  "slot < length eq \<Longrightarrow> eq ! slot = Some sid \<Longrightarrow> 0 < equipmentUseCount eq sid None"
  unfolding equipmentUseCount_def by (auto simp: length_greater_0_conv filter_empty_conv)

text \<open>Equipment survives when every stack in use stays, with its kind and with items enough.\<close>

lemma player_ok_stacks:
  assumes ok: "player_ok cat p" and sorted: "keys_sorted stackId ss" and len: "length ss \<le> MaximumPlayerInventoryStacks"
    and valid: "list_all (validStack cat) ss"
    and eq: "inv_equipment q = inv_equipment p" and ss: "inv_stacks q = ss"
    and keep: "\<And>s. s \<in> set (inv_stacks p) \<Longrightarrow> 0 < equipmentUseCount (inv_equipment p) (stackId s) None \<Longrightarrow>
        equipmentUseCount (inv_equipment p) (stackId s) None \<le> unat (stackCount s) \<Longrightarrow>
        \<exists>s' \<in> set ss. stackId s' = stackId s \<and> kind_of s' = kind_of s
          \<and> equipmentUseCount (inv_equipment p) (stackId s) None \<le> unat (stackCount s')"
  shows "player_ok cat q"
  unfolding player_ok_iff eq ss
proof (intro conjI allI impI)
  fix slot sid
  assume slot: "slot < length (inv_equipment p)" "inv_equipment p ! slot = Some sid"
  then have "slot_ok cat (inv_stacks p) (inv_equipment p) slot sid" using ok by (simp add: player_ok_iff)
  then obtain s d where s: "s \<in> set (inv_stacks p)" "stackId s = sid" "findPrototype cat (prototypeId s) = Some d"
      "slotMask d AND slotToMask (of_nat slot) \<noteq> 0"
      "\<not> (of_nat slot = SlotCarriedRight \<and> category d = CategoryWeapon \<and> maxCondition d \<noteq> 0 \<and> condition s = 0)"
      "equipmentUseCount (inv_equipment p) sid None \<le> unat (stackCount s)"
    by (auto simp: slot_ok_def)
  obtain s' where "s' \<in> set ss" "stackId s' = sid" "kind_of s' = kind_of s"
      "equipmentUseCount (inv_equipment p) sid None \<le> unat (stackCount s')"
    using keep [OF s(1)] s(2,6) use_positive [OF slot] by auto
  with s show "slot_ok cat ss (inv_equipment p) slot sid" by (auto simp: slot_ok_def kind_of_def)
qed (use ok sorted len valid in \<open>simp_all add: player_ok_iff\<close>)

lemma player_ok_takeOut:
  assumes ok: "player_ok cat p" and i: "i < length (inv_stacks p)" and n: "n \<le> stackCount (inv_stacks p ! i)"
    and use: "equipmentUseCount (inv_equipment p) (stackId (inv_stacks p ! i)) None
        \<le> unat (stackCount (inv_stacks p ! i) - n)"
    and q: "inv_equipment q = inv_equipment p" "inv_stacks q = takeOut i n (inv_stacks p)"
  shows "player_ok cat q"
proof (rule player_ok_stacks [OF ok _ _ _ q])
  show "keys_sorted stackId (takeOut i n (inv_stacks p))" using ok by (simp add: player_ok_iff keys_sorted_takeOut)
  show "length (takeOut i n (inv_stacks p)) \<le> MaximumPlayerInventoryStacks"
    using ok length_takeOut [OF i] order_trans by (auto simp: player_ok_iff)
  show "list_all (validStack cat) (takeOut i n (inv_stacks p))"
    using ok i n by (simp add: player_ok_iff valid_takeOut)
next
  fix s
  let ?src = "inv_stacks p ! i"
  assume s: "s \<in> set (inv_stacks p)" "0 < equipmentUseCount (inv_equipment p) (stackId s) None"
    "equipmentUseCount (inv_equipment p) (stackId s) None \<le> unat (stackCount s)"
  show "\<exists>s' \<in> set (takeOut i n (inv_stacks p)). stackId s' = stackId s \<and> kind_of s' = kind_of s
      \<and> equipmentUseCount (inv_equipment p) (stackId s) None \<le> unat (stackCount s')"
  proof (cases "s = ?src")
    case True
    then have "stackCount ?src \<noteq> n" using s(2) use by auto
    then have "?src\<lparr>stackCount := stackCount ?src - n\<rparr> \<in> set (takeOut i n (inv_stacks p))"
      using i by (simp add: takeOut_def set_update_memI)
    then show ?thesis using True use by (intro bexI) (auto simp: True)
  next
    case False
    then have "s \<in> set (takeOut i n (inv_stacks p))"
      using s(1) by (simp add: takeOut_def erase_at_member list_update_member)
    then show ?thesis using s(3) by blast
  qed
qed

lemma player_ok_putIn:
  assumes ok: "player_ok cat p" and t: "validStack cat t" and dest: "merge_target cat dest t (inv_stacks p)"
    and room: "dest = None \<Longrightarrow> length (inv_stacks p) < MaximumPlayerInventoryStacks"
    and new: "dest = None \<Longrightarrow> stackId t \<notin> stackId ` set (inv_stacks p)"
    and q: "inv_equipment q = inv_equipment p" "inv_stacks q = putIn dest t (inv_stacks p)"
  shows "player_ok cat q"
proof (rule player_ok_stacks [OF ok _ _ _ q])
  show "keys_sorted stackId (putIn dest t (inv_stacks p))" using ok new by (simp add: player_ok_iff keys_sorted_putIn)
  show "length (putIn dest t (inv_stacks p)) \<le> MaximumPlayerInventoryStacks"
    using ok room by (simp add: player_ok_iff length_putIn Suc_le_eq)
  show "list_all (validStack cat) (putIn dest t (inv_stacks p))"
    using ok t dest by (simp add: player_ok_iff valid_putIn)
next
  fix s :: CanonicalItemStack
  let ?use = "equipmentUseCount (inv_equipment p) (stackId s) None"
  assume s: "s \<in> set (inv_stacks p)" "?use \<le> unat (stackCount s)"
  show "\<exists>s' \<in> set (putIn dest t (inv_stacks p)). stackId s' = stackId s \<and> kind_of s' = kind_of s
      \<and> ?use \<le> unat (stackCount s')"
  proof (cases dest)
    case None
    then show ?thesis using s by (auto simp: putIn_def)
  next
    case (Some j)
    let ?dst = "inv_stacks p ! j"
    let ?s' = "?dst\<lparr>stackCount := stackCount ?dst + stackCount t\<rparr>"
    have j: "j < length (inv_stacks p)" and o: "\<not> addWouldOverflow (stackCount ?dst) (stackCount t)"
      using dest Some by (auto simp: merge_target_def)
    show ?thesis
    proof (cases "s = ?dst")
      case True
      have "?s' \<in> set (putIn dest t (inv_stacks p))" using j Some by (simp add: putIn_def set_update_memI)
      moreover have "?use \<le> unat (stackCount ?s')" using unat_add_no_overflow [OF o] s(2) True by simp
      ultimately show ?thesis by (intro bexI) (auto simp: True)
    next
      case False
      then have "s \<in> set (putIn dest t (inv_stacks p))" using s(1) Some by (simp add: putIn_def list_update_member)
      then show ?thesis using s(2) by blast
    qed
  qed
qed

section \<open>Weight\<close>

definition weight_of :: "ItemPrototypeCatalog \<Rightarrow> item_kind \<Rightarrow> nat" where
  "weight_of cat k = (case findPrototype cat (fst k) of None \<Rightarrow> 0 | Some d \<Rightarrow> unat (weightUnits d))"

definition load :: "ItemPrototypeCatalog \<Rightarrow> CanonicalItemStack list \<Rightarrow> nat" where
  "load cat ss = stack_sum (per_item (weight_of cat)) ss"

lemma unat_product: "unat (ucast (a :: u32) * ucast (b :: u32) :: u64) = unat a * unat b"
proof -
  have "unat a * unat b \<le> (2 ^ 32 - 1) * (2 ^ 32 - 1)"
    using unat_lt_u32 [of a] unat_lt_u32 [of b] by (intro mult_le_mono) (simp_all del: unat_lt_u32)
  then have "unat (ucast a :: u64) * unat (ucast b :: u64) < 2 ^ LENGTH(64)" by simp
  then show ?thesis by (simp add: unat_times_no_wrap)
qed

lemma weightFrom_unat:
  "unat (weightFrom cat acc ss) = min (unat acc + load cat ss) (2 ^ 64 - 1)"
proof (induction ss arbitrary: acc)
  case Nil
  then show ?case using unat_lt_u64 [of acc] by (simp add: load_def del: unat_lt_u64)
next
  case (Cons s ss)
  have load: "load cat (s # ss) = weight_of cat (kind_of s) * unat (stackCount s) + load cat ss"
    by (simp add: load_def stack_sum_def per_item_def)
  show ?case
  proof (cases "findPrototype cat (prototypeId s)")
    case None
    then show ?thesis using Cons load by (simp add: weight_of_def kind_of_def)
  next
    case (Some d)
    let ?w = "ucast (weightUnits d) * ucast (stackCount s) :: u64"
    have w: "unat ?w = weight_of cat (kind_of s) * unat (stackCount s)"
      using Some by (simp add: unat_product weight_of_def kind_of_def)
    show ?thesis
    proof (cases "u64_max - acc < ?w")
      case True
      then have "2 ^ 64 - 1 - unat acc < unat ?w" by (simp add: word_less_nat_alt unat_u64_max_minus)
      then have "2 ^ 64 - 1 \<le> unat acc + unat ?w" by simp
      then show ?thesis using True Some load w by simp
    next
      case False
      then have "unat ?w \<le> 2 ^ 64 - 1 - unat acc" by (simp add: not_less word_le_nat_alt unat_u64_max_minus)
      then have "unat acc + unat ?w < 2 ^ LENGTH(64)" using unat_lt_u64 [of acc] by (simp del: unat_lt_u64)
      then have "unat (acc + ?w) = unat acc + unat ?w" by (rule unat_plus_no_wrap)
      then show ?thesis using False Some Cons [of "acc + ?w"] load w by simp
    qed
  qed
qed

lemma totalWeight_unat: "unat (totalWeight cat ss) = min (load cat ss) (2 ^ 64 - 1)"
  by (simp add: totalWeight_def weightFrom_unat)

lemma capacity_iff: "totalWeight cat ss > ucast (cap :: u32) \<longleftrightarrow> load cat ss > unat cap"
proof -
  have "unat cap < 2 ^ 64 - 1" using unat_lt_u32 [of cap] by (simp del: unat_lt_u32)
  then show ?thesis by (simp add: word_less_nat_alt totalWeight_unat min_def)
qed

lemma container_ok_iff:
  "container_ok m cat c \<longleftrightarrow> keys_sorted stackId (con_stacks c) \<and> manifest_contains m (con_cell c)
     \<and> length (con_stacks c) \<le> MaximumContainerStacks \<and> list_all (validStack cat) (con_stacks c)
     \<and> (con_capacity c \<noteq> 0 \<longrightarrow> load cat (con_stacks c) \<le> unat (con_capacity c))"
  by (auto simp: container_ok_def containerValid_def capacity_iff)

lemma container_ok_takeOut:
  assumes ok: "container_ok m cat c" and i: "i < length (con_stacks c)" and n: "n \<le> stackCount (con_stacks c ! i)"
    and q: "con_cell q = con_cell c" "con_capacity q = con_capacity c" "con_stacks q = takeOut i n (con_stacks c)"
  shows "container_ok m cat q"
proof -
  have "load cat (takeOut i n (con_stacks c)) \<le> load cat (con_stacks c)"
    using per_item_takeOut [OF i n, of "weight_of cat"] by (simp add: load_def)
  then show ?thesis
    using ok q length_takeOut [OF i, of n] valid_takeOut [OF _ i n] order_trans
    by (auto simp: container_ok_iff keys_sorted_takeOut)
qed

lemma container_ok_putIn:
  assumes ok: "container_ok m cat c" and t: "validStack cat t" and dest: "merge_target cat dest t (con_stacks c)"
    and room: "dest = None \<Longrightarrow> length (con_stacks c) < MaximumContainerStacks"
    and new: "dest = None \<Longrightarrow> stackId t \<notin> stackId ` set (con_stacks c)"
    and cap: "con_capacity c \<noteq> 0 \<Longrightarrow> load cat (con_stacks c) + weight_of cat (kind_of t) * unat (stackCount t) \<le> unat (con_capacity c)"
    and q: "con_cell q = con_cell c" "con_capacity q = con_capacity c" "con_stacks q = putIn dest t (con_stacks c)"
  shows "container_ok m cat q"
proof -
  have "load cat (putIn dest t (con_stacks c)) = load cat (con_stacks c) + weight_of cat (kind_of t) * unat (stackCount t)"
    using per_item_putIn [OF dest, of "weight_of cat"] by (simp add: load_def per_item_def)
  then show ?thesis
    using ok q cap room new valid_putIn [OF _ dest t]
    by (auto simp: container_ok_iff keys_sorted_putIn length_putIn Suc_le_eq)
qed

section \<open>World updates\<close>

lemma inventory_ok_sorted: "inventory_ok w \<Longrightarrow> players_sorted w" "inventory_ok w \<Longrightarrow> containers_sorted w"
  by (simp_all add: inventory_ok_def players_ok_def containers_ok_def players_sorted_def containers_sorted_def)

lemma found_player_ok: "inventory_ok w \<Longrightarrow> findInventoryPlayer w i = Some p \<Longrightarrow>
    player_ok (w_catalog w) p \<and> inv_player p = i \<and> p \<in> set (w_players w)"
  using inventory_players.lookup_iff [OF inventory_ok_sorted(1)] by (auto simp: inventory_ok_def players_ok_def)

lemma found_container_ok: "inventory_ok w \<Longrightarrow> findContainer w i = Some c \<Longrightarrow>
    container_ok (w_manifest w) (w_catalog w) c \<and> con_id c = i \<and> c \<in> set (w_containers w)"
  using inventory_containers.lookup_iff [OF inventory_ok_sorted(2)] by (auto simp: inventory_ok_def containers_ok_def)

lemma players_ok_putPlayer:
  assumes "players_ok w" and "findInventoryPlayer w (inv_player q) = Some p" and "player_ok (w_catalog w) q"
  shows "players_ok (putPlayer q w)"
proof -
  have s: "keys_sorted inv_player (w_players w)" using assms(1) by (simp add: players_ok_def)
  have "inv_player q \<in> inv_player ` set (w_players w)"
    using lookup_key_SomeD [OF assms(2) [unfolded findInventoryPlayer_def]]
    by (intro rev_image_eqI [of p]) simp_all
  then show ?thesis using assms(1,3) set_replace_key [OF s, of q] keys_sorted_replace_key [OF s, of q]
    by (auto simp: players_ok_def putPlayer_def simp del: map_key_replace_key)
qed

lemma containers_ok_putContainer:
  assumes "containers_ok w" and "findContainer w (con_id q) = Some c" and "container_ok (w_manifest w) (w_catalog w) q"
  shows "containers_ok (putContainer q w)"
proof -
  have s: "keys_sorted con_id (w_containers w)" using assms(1) by (simp add: containers_ok_def)
  have "con_id q \<in> con_id ` set (w_containers w)"
    using lookup_key_SomeD [OF assms(2) [unfolded findContainer_def]]
    by (intro rev_image_eqI [of c]) simp_all
  then show ?thesis using assms(1,3) set_replace_key [OF s, of q] keys_sorted_replace_key [OF s, of q]
    by (auto simp: containers_ok_def putContainer_def simp del: map_key_replace_key)
qed

lemma put_frames [simp]:
  "w_manifest (putPlayer q w) = w_manifest w" "w_catalog (putPlayer q w) = w_catalog w"
  "w_containers (putPlayer q w) = w_containers w" "w_worldItems (putPlayer q w) = w_worldItems w"
  "w_nextStackId (putPlayer q w) = w_nextStackId w"
  "w_manifest (putContainer c w) = w_manifest w" "w_catalog (putContainer c w) = w_catalog w"
  "w_players (putContainer c w) = w_players w" "w_worldItems (putContainer c w) = w_worldItems w"
  "w_nextStackId (putContainer c w) = w_nextStackId w"
  "findContainer (putPlayer q w) i = findContainer w i"
  "findInventoryPlayer (putContainer c w) j = findInventoryPlayer w j"
  by (simp_all add: putPlayer_def putContainer_def findContainer_def findInventoryPlayer_def)

lemma find_next [simp]:
  "findInventoryPlayer (w\<lparr>w_nextStackId := n\<rparr>) i = findInventoryPlayer w i"
  "findContainer (w\<lparr>w_nextStackId := n\<rparr>) j = findContainer w j"
  "findInventoryPlayer (w\<lparr>w_worldItems := is\<rparr>) i = findInventoryPlayer w i"
  by (simp_all add: findInventoryPlayer_def findContainer_def)

lemma parts_ok_cong [simp]:
  "players_ok (putContainer c w) = players_ok w" "players_ok (w\<lparr>w_nextStackId := n\<rparr>) = players_ok w"
  "players_ok (w\<lparr>w_worldItems := is\<rparr>) = players_ok w"
  "containers_ok (putPlayer p w) = containers_ok w" "containers_ok (w\<lparr>w_nextStackId := n\<rparr>) = containers_ok w"
  "containers_ok (w\<lparr>w_worldItems := is\<rparr>) = containers_ok w"
  "items_ok (putPlayer p w) = items_ok w" "items_ok (putContainer c w) = items_ok w"
  "items_ok (w\<lparr>w_nextStackId := n\<rparr>) = items_ok w"
  by (simp_all add: inventory_parts)

text \<open>Ids of stacks at different places are different.\<close>

lemma has_id_member: "s \<in> set ss \<Longrightarrow> 1 \<le> stack_sum (has_id (stackId s)) ss"
  by (induction ss) (auto simp: stack_sum_def has_id_def)

lemma not_id_iff: "a \<notin> stackId ` set ss \<longleftrightarrow> stack_sum (has_id a) ss = 0"
  by (auto simp: stack_sum_has_id count_list_0_iff)

lemma fresh_id: "ids_ok w \<Longrightarrow> w_nextStackId w = Some n \<Longrightarrow> world_sum (has_id n) w = 0"
  by (simp add: ids_ok_iff)

end
