(* ===== verification/Inventory_Transactions.thy ===== *)
theory Inventory_Transactions
  imports Inventory_Invariant
begin

unbundle bit_operations_syntax

text \<open>
  What every branch of \<^verbatim>\<open>applyInventoryTransaction\<close> does to the inventory world: it keeps the invariant,
  it creates and destroys no item, and it advances the player's revision whenever it writes.
\<close>

section \<open>Guards\<close>

lemma accessContainer_InrD:
  "accessContainer w tr cmd ctx tick = Inr c \<Longrightarrow>
     (\<exists>cid. cmd_container cmd = Some cid \<and> findContainer w cid = Some c)
     \<and> cmd_expectedContainer cmd = Some (con_revision c) \<and> con_tick c \<le> tick \<and> con_cell c = t_cell tr
     \<and> reachCheck (t_position tr) (cmd_origin cmd) (con_position c) (maxReach ctx) = None"
  by (auto simp: accessContainer_def split: option.splits if_splits)

lemma stackIndex_SomeD:
  "stackIndex ss cmd = Some i \<Longrightarrow>
     i < length ss \<and> cmd_stack cmd = Some (stackId (ss ! i)) \<and> prototypeId (ss ! i) = cmd_prototype cmd"
  by (auto simp: stackIndex_def dest!: find_key_SomeD split: option.splits if_splits)

text \<open>A transfer between two stack lists: the guards the three transfers share.\<close>

definition transfer_ok ::
  "CanonicalInventoryWorld \<Rightarrow> CanonicalItemStack list \<Rightarrow> CanonicalItemStack list \<Rightarrow> nat \<Rightarrow> nat option \<Rightarrow> u32
     \<Rightarrow> CanonicalInventoryWorld \<Rightarrow> CanonicalItemStack \<Rightarrow> bool" where
  "transfer_ok w from_stacks to_stacks i dest n w1 t \<longleftrightarrow>
     i < length from_stacks \<and> n \<le> stackCount (from_stacks ! i)
     \<and> dest = mergeIndex to_stacks (from_stacks ! i) (w_catalog w)
     \<and> merge_target (w_catalog w) dest t to_stacks
     \<and> (dest = None \<and> stackCount (from_stacks ! i) \<noteq> n \<longrightarrow> w_nextStackId w \<noteq> None)
     \<and> splitStack w (dest = None \<and> stackCount (from_stacks ! i) \<noteq> n) (from_stacks ! i) n = (w1, t)"

lemma transfer_okI:
  assumes "i < length xs" and "\<not> stackCount (xs ! i) < n" and "dest = mergeIndex ys (xs ! i) (w_catalog w)"
    and "\<not> (case dest of Some j \<Rightarrow> addWouldOverflow (stackCount (ys ! j)) n | None \<Rightarrow> False)"
    and "\<not> ((dest = None \<and> stackCount (xs ! i) \<noteq> n) \<and> w_nextStackId w = None)"
    and "splitStack w (dest = None \<and> stackCount (xs ! i) \<noteq> n) (xs ! i) n = (w1, t)"
  shows "transfer_ok w xs ys i dest n w1 t"
proof -
  have "stackCount t = n" and "kind_of t = kind_of (xs ! i)"
    using splitStack_facts [OF assms(6)] assms(5) by auto
  then have "merge_target (w_catalog w) dest t ys" using assms(3,4) by (intro merge_targetI) auto
  then show ?thesis using assms by (auto simp: transfer_ok_def not_less)
qed

lemma take_InrE:
  assumes "takeFromContainer w p tr cmd ctx tick = Inr (w', r)"
  obtains c i dest w1 t np nc where
    "accessContainer w tr cmd ctx tick = Inr c" "stackIndex (con_stacks c) cmd = Some i"
    "transfer_ok w (con_stacks c) (inv_stacks p) i dest (cmd_count cmd) w1 t"
    "dest = None \<longrightarrow> length (inv_stacks p) < MaximumPlayerInventoryStacks"
    "next_value (inv_revision p) = Some np" "next_value (con_revision c) = Some nc"
    "w' = putContainer (c\<lparr>con_stacks := takeOut i (cmd_count cmd) (con_stacks c), con_revision := nc, con_tick := tick\<rparr>)
       (putPlayer (p\<lparr>inv_stacks := putIn dest t (inv_stacks p), inv_revision := np, inv_tick := tick\<rparr>) w1)"
proof -
  obtain c where c: "accessContainer w tr cmd ctx tick = Inr c"
    using assms by (auto simp: takeFromContainer_def split: sum.splits)
  obtain i where i: "stackIndex (con_stacks c) cmd = Some i"
    using assms c by (auto simp: takeFromContainer_def split: option.splits)
  let ?src = "con_stacks c ! i" and ?n = "cmd_count cmd"
  let ?dest = "mergeIndex (inv_stacks p) ?src (w_catalog w)"
  obtain np nc where nv: "next_value (inv_revision p) = Some np" "next_value (con_revision c) = Some nc"
    using assms c i by (auto simp: takeFromContainer_def Let_def split: option.splits if_splits)
  obtain w1 t where sp: "splitStack w (?dest = None \<and> stackCount ?src \<noteq> ?n) ?src ?n = (w1, t)"
    by (metis surj_pair)
  note run = assms [unfolded takeFromContainer_def Let_def c i sum.case option.case nv prod.case sp]
  have g: "\<not> stackCount ?src < ?n"
      "\<not> (case ?dest of Some j \<Rightarrow> addWouldOverflow (stackCount (inv_stacks p ! j)) ?n | None \<Rightarrow> False)"
      "\<not> (?dest = None \<and> MaximumPlayerInventoryStacks \<le> length (inv_stacks p))"
      "\<not> ((?dest = None \<and> stackCount ?src \<noteq> ?n) \<and> w_nextStackId w = None)"
    using run by (simp_all split: if_splits)
  show thesis
  proof (rule that [OF c i])
    show "transfer_ok w (con_stacks c) (inv_stacks p) i ?dest ?n w1 t"
      using stackIndex_SomeD [OF i] g sp by (intro transfer_okI) auto
  qed (use g nv run in \<open>auto split: if_splits\<close>)
qed

lemma put_InrE:
  assumes "putIntoContainer w p tr d cmd ctx tick = Inr (w', r)"
  obtains c i dest w1 t np nc where
    "accessContainer w tr cmd ctx tick = Inr c" "stackIndex (inv_stacks p) cmd = Some i"
    "transfer_ok w (inv_stacks p) (con_stacks c) i dest (cmd_count cmd) w1 t"
    "dest = None \<longrightarrow> length (con_stacks c) < MaximumContainerStacks"
    "equipmentUseCount (inv_equipment p) (stackId (inv_stacks p ! i)) None
       \<le> unat (stackCount (inv_stacks p ! i) - cmd_count cmd)"
    "con_capacity c \<noteq> 0 \<longrightarrow> totalWeight (w_catalog w) (con_stacks c) \<le> ucast (con_capacity c)
       \<and> ucast (weightUnits d) * ucast (cmd_count cmd) \<le> ucast (con_capacity c) - totalWeight (w_catalog w) (con_stacks c)"
    "next_value (inv_revision p) = Some np" "next_value (con_revision c) = Some nc"
    "w' = putPlayer (p\<lparr>inv_stacks := takeOut i (cmd_count cmd) (inv_stacks p), inv_revision := np, inv_tick := tick\<rparr>)
       (putContainer (c\<lparr>con_stacks := putIn dest t (con_stacks c), con_revision := nc, con_tick := tick\<rparr>) w1)"
proof -
  obtain c where c: "accessContainer w tr cmd ctx tick = Inr c"
    using assms by (auto simp: putIntoContainer_def split: sum.splits)
  obtain i where i: "stackIndex (inv_stacks p) cmd = Some i"
    using assms c by (auto simp: putIntoContainer_def split: option.splits)
  let ?src = "inv_stacks p ! i" and ?n = "cmd_count cmd"
  let ?dest = "mergeIndex (con_stacks c) ?src (w_catalog w)"
  obtain np nc where nv: "next_value (inv_revision p) = Some np" "next_value (con_revision c) = Some nc"
    using assms c i by (auto simp: putIntoContainer_def Let_def split: option.splits if_splits)
  obtain w1 t where sp: "splitStack w (?dest = None \<and> stackCount ?src \<noteq> ?n) ?src ?n = (w1, t)"
    by (metis surj_pair)
  note run = assms [unfolded putIntoContainer_def Let_def c i sum.case option.case nv prod.case sp]
  have g: "\<not> stackCount ?src < ?n"
      "\<not> (case ?dest of Some j \<Rightarrow> addWouldOverflow (stackCount (con_stacks c ! j)) ?n | None \<Rightarrow> False)"
      "\<not> (?dest = None \<and> MaximumContainerStacks \<le> length (con_stacks c))"
      "\<not> ((?dest = None \<and> stackCount ?src \<noteq> ?n) \<and> w_nextStackId w = None)"
    using run by (simp_all split: if_splits)
  show thesis
  proof (rule that [OF c i])
    show "transfer_ok w (inv_stacks p) (con_stacks c) i ?dest ?n w1 t"
      using stackIndex_SomeD [OF i] g sp by (intro transfer_okI) auto
  qed (use g nv run in \<open>auto simp: not_less split: if_splits\<close>)
qed

lemma drop_InrE:
  assumes "dropItem w p tr cmd ctx tick = Inr (w', r)"
  obtains i w1 t np where
    "stackIndex (inv_stacks p) cmd = Some i" "cmd_count cmd \<le> stackCount (inv_stacks p ! i)"
    "equipmentUseCount (inv_equipment p) (stackId (inv_stacks p ! i)) None
       \<le> unat (stackCount (inv_stacks p ! i) - cmd_count cmd)"
    "length (w_worldItems w) < MaximumWorldItemStacks"
    "stackCount (inv_stacks p ! i) \<noteq> cmd_count cmd \<longrightarrow> w_nextStackId w \<noteq> None"
    "splitStack w (stackCount (inv_stacks p ! i) \<noteq> cmd_count cmd) (inv_stacks p ! i) (cmd_count cmd) = (w1, t)"
    "next_value (inv_revision p) = Some np"
    "w' = (putPlayer (p\<lparr>inv_stacks := takeOut i (cmd_count cmd) (inv_stacks p), inv_revision := np, inv_tick := tick\<rparr>) w1)
       \<lparr>w_worldItems := insert_key wi_id \<lparr>wi_stack = t, wi_cell = t_cell tr, wi_position = cmd_origin cmd,
          wi_revision = initial CounterFromOne, wi_tick = tick\<rparr> (w_worldItems w1)\<rparr>"
proof -
  obtain i where i: "stackIndex (inv_stacks p) cmd = Some i"
    using assms by (auto simp: dropItem_def split: option.splits if_splits)
  let ?src = "inv_stacks p ! i" and ?n = "cmd_count cmd"
  obtain np where nv: "next_value (inv_revision p) = Some np"
    using assms i by (auto simp: dropItem_def Let_def split: option.splits if_splits)
  obtain w1 t where sp: "splitStack w (stackCount ?src \<noteq> ?n) ?src ?n = (w1, t)" by (metis surj_pair)
  note run = assms [unfolded dropItem_def Let_def i option.case nv prod.case sp]
  show thesis
    by (rule that [OF i _ _ _ _ sp nv]) (use run in \<open>auto simp: not_less split: if_splits\<close>)
qed

lemma pickup_InrE:
  assumes "pickupItem w p tr cmd ctx tick = Inr (w', r)"
  obtains k item dest w1 t np where
    "k < length (w_worldItems w)" "item = w_worldItems w ! k" "cmd_stack cmd = Some (wi_id item)"
    "transfer_ok w [wi_stack item] (inv_stacks p) 0 dest (cmd_count cmd) w1 t"
    "dest = None \<longrightarrow> length (inv_stacks p) < MaximumPlayerInventoryStacks"
    "next_value (inv_revision p) = Some np" "wi_cell item = t_cell tr"
    "cmd_expectedWorldItem cmd = Some (wi_revision item)"
    "w' = (putPlayer (p\<lparr>inv_stacks := putIn dest t (inv_stacks p), inv_revision := np, inv_tick := tick\<rparr>) w1)
       \<lparr>w_worldItems :=
          (if stackCount (wi_stack item) = cmd_count cmd then erase_at k (w_worldItems w1)
           else (w_worldItems w1)[k := item\<lparr>wi_stack := (wi_stack item)\<lparr>stackCount := stackCount (wi_stack item) - cmd_count cmd\<rparr>,
                                     wi_revision := the (next_value (wi_revision item)), wi_tick := tick\<rparr>])\<rparr>"
proof -
  obtain sid e k where k: "cmd_stack cmd = Some sid" "cmd_expectedWorldItem cmd = Some e"
      "find_key wi_id (w_worldItems w) sid = Some k"
    using assms by (auto simp: pickupItem_def split: option.splits)
  let ?item = "w_worldItems w ! k" and ?n = "cmd_count cmd"
  let ?dest = "mergeIndex (inv_stacks p) (wi_stack ?item) (w_catalog w)"
  have rc: "reachCheck (t_position tr) (cmd_origin cmd) (wi_position ?item) (maxReach ctx) = None"
    using assms k by (auto simp: pickupItem_def Let_def split: option.splits if_splits)
  obtain np where nv: "next_value (inv_revision p) = Some np"
    using assms k rc by (auto simp: pickupItem_def Let_def split: option.splits if_splits)
  obtain w1 t where sp: "splitStack w (?dest = None \<and> stackCount (wi_stack ?item) \<noteq> ?n) (wi_stack ?item) ?n = (w1, t)"
    by (metis surj_pair)
  note run = assms [unfolded pickupItem_def Let_def k option.case rc nv prod.case sp]
  have g: "\<not> stackCount (wi_stack ?item) < ?n" "e = wi_revision ?item" "wi_cell ?item = t_cell tr"
      "\<not> (case ?dest of Some j \<Rightarrow> addWouldOverflow (stackCount (inv_stacks p ! j)) ?n | None \<Rightarrow> False)"
      "\<not> (?dest = None \<and> MaximumPlayerInventoryStacks \<le> length (inv_stacks p))"
      "\<not> ((?dest = None \<and> stackCount (wi_stack ?item) \<noteq> ?n) \<and> w_nextStackId w = None)"
    using run by (simp_all split: if_splits)
  show thesis
  proof (rule that [of k ?item])
    show "transfer_ok w [wi_stack ?item] (inv_stacks p) 0 ?dest ?n w1 t"
      using g sp by (intro transfer_okI) auto
  qed (use g nv run k find_key_SomeD [OF k(3)] in \<open>auto split: if_splits\<close>)
qed

section \<open>Transfers\<close>

lemma transfer_effect:
  assumes tr: "transfer_ok w xs ys i dest n w1 t"
  shows transfer_per_item: "stack_sum (per_item g) (takeOut i n xs) + stack_sum (per_item g) (putIn dest t ys)
      = stack_sum (per_item g) xs + stack_sum (per_item g) ys"
    and transfer_ids: "stack_sum (has_id a) (takeOut i n xs) + stack_sum (has_id a) (putIn dest t ys)
      \<le> stack_sum (has_id a) xs + stack_sum (has_id a) ys
        + of_bool ((dest = None \<and> stackCount (xs ! i) \<noteq> n) \<and> w_nextStackId w = Some a)"
    and transfer_world: "w1 = w\<lparr>w_nextStackId := next_after (dest = None \<and> stackCount (xs ! i) \<noteq> n) (w_nextStackId w)\<rparr>"
    and transfer_kind: "kind_of t = kind_of (xs ! i)" "stackCount t = n"
proof -
  let ?new = "dest = None \<and> stackCount (xs ! i) \<noteq> n"
  have i: "i < length xs" and n: "n \<le> stackCount (xs ! i)" and m: "merge_target (w_catalog w) dest t ys"
    and id: "?new \<longrightarrow> w_nextStackId w \<noteq> None" and sp: "splitStack w ?new (xs ! i) n = (w1, t)"
    using tr by (auto simp: transfer_ok_def)
  note sf = splitStack_facts [OF sp id]
  show "w1 = w\<lparr>w_nextStackId := next_after ?new (w_nextStackId w)\<rparr>" and k: "kind_of t = kind_of (xs ! i)"
    and c: "stackCount t = n"
    using sf(1-3) .
  show "stack_sum (per_item g) (takeOut i n xs) + stack_sum (per_item g) (putIn dest t ys)
      = stack_sum (per_item g) xs + stack_sum (per_item g) ys"
    using per_item_takeOut [OF i n, of g] per_item_putIn [OF m, of g] k c by (simp add: per_item_def)
  have "has_id a t \<le> has_id a (xs ! i) \<or> ?new" if "dest = None" using sf(4) that by (auto simp: has_id_def)
  moreover have "has_id a t = of_bool (w_nextStackId w = Some a)" if ?new using sf(5) [OF that] by (simp add: has_id_def)
  moreover have "\<forall>j. dest = Some j \<longrightarrow> j < length ys" using m by (auto simp: merge_target_def)
  ultimately show "stack_sum (has_id a) (takeOut i n xs) + stack_sum (has_id a) (putIn dest t ys)
      \<le> stack_sum (has_id a) xs + stack_sum (has_id a) ys + of_bool (?new \<and> w_nextStackId w = Some a)"
    using id_takeOut [OF i, of a n] id_putIn [of dest ys a t] by (cases "dest = None") (auto split: if_splits)
qed

lemma transfer_valid:
  assumes tr: "transfer_ok w xs ys i dest n w1 t" and "list_all (validStack (w_catalog w)) xs" and "n \<noteq> 0"
  shows "validStack (w_catalog w) t"
proof -
  have "i < length xs" and "n \<le> stackCount (xs ! i)" using tr by (auto simp: transfer_ok_def)
  moreover have "validStack (w_catalog w) (xs ! i)" using assms(2) \<open>i < length xs\<close> by (simp add: list_all_length)
  ultimately show ?thesis
    using transfer_kind [OF tr] assms(3) by - (rule validStack_count [of _ "xs ! i"], auto)
qed

text \<open>A stack that moves to a place of its own collides with no id there.\<close>

lemma split_new_id:
  assumes i: "i < length xs" and sp: "splitStack w (stackCount (xs ! i) \<noteq> n) (xs ! i) n = (w1, t)"
    and id: "stackCount (xs ! i) \<noteq> n \<longrightarrow> w_nextStackId w \<noteq> None"
    and "ids_ok w" and le: "\<And>a. stack_sum (has_id a) xs + stack_sum (has_id a) ys \<le> world_sum (has_id a) w"
  shows "stackId t \<notin> stackId ` set ys"
proof (cases "stackCount (xs ! i) = n")
  case True
  then have "stackId t = stackId (xs ! i)" using splitStack_facts(4) [OF sp id] by simp
  moreover have "1 \<le> stack_sum (has_id (stackId (xs ! i))) xs" using i by (intro has_id_member) simp
  moreover have "world_sum (has_id (stackId (xs ! i))) w \<le> 1" using assms(4) by (simp add: ids_ok_iff)
  ultimately show ?thesis using le [of "stackId (xs ! i)"] by (simp add: not_id_iff)
next
  case False
  then have "w_nextStackId w = Some (stackId t)" using splitStack_facts(5) [OF sp id] by simp
  then show ?thesis using fresh_id [OF assms(4)] le [of "stackId t"] by (simp add: not_id_iff)
qed

lemma transfer_new_id:
  assumes "transfer_ok w xs ys i dest n w1 t" and "dest = None" and "ids_ok w"
    and "\<And>a. stack_sum (has_id a) xs + stack_sum (has_id a) ys \<le> world_sum (has_id a) w"
  shows "stackId t \<notin> stackId ` set ys"
  by (rule split_new_id [of i xs w n w1]) (use assms in \<open>auto simp: transfer_ok_def\<close>)

section \<open>The branches\<close>

lemma two_places_le:
  assumes "p \<in> set (w_players w)"
  shows "c \<in> set (w_containers w) \<Longrightarrow> stack_sum f (inv_stacks p) + stack_sum f (con_stacks c) \<le> world_sum f w"
    and "i \<in> set (w_worldItems w) \<Longrightarrow> stack_sum f (inv_stacks p) + f (wi_stack i) \<le> world_sum f w"
  using member_le_sum_list [of "stack_sum f (inv_stacks p)" "map (\<lambda>p. stack_sum f (inv_stacks p)) (w_players w)"]
    member_le_sum_list [of "stack_sum f (con_stacks c)" "map (\<lambda>c. stack_sum f (con_stacks c)) (w_containers w)"]
    member_le_sum_list [of "f (wi_stack i)" "map (\<lambda>i. f (wi_stack i)) (w_worldItems w)"] assms
  by (simp_all add: world_sum_split)

lemma moved_ids_ok:
  assumes "inventory_ok w" and "w_nextStackId w' = next_after new (w_nextStackId w)"
    and sum: "\<And>f. world_sum f w' + before f = world_sum f w + after f"
    and le: "\<And>a. after (has_id a) \<le> before (has_id a) + of_bool (new \<and> w_nextStackId w = Some a)"
  shows "ids_ok w'"
proof (rule ids_ok_step [OF _ assms(2)])
  show "ids_ok w" using assms(1) by (simp add: inventory_ok_def)
  fix a
  show "world_sum (has_id a) w' \<le> world_sum (has_id a) w + of_bool (new \<and> w_nextStackId w = Some a)"
    using sum [of "has_id a"] le [of a] by linarith
qed

text \<open>What a branch owes: the invariant, the items, and one more on the player's revision.\<close>

definition branch_ok :: "CanonicalInventoryWorld \<Rightarrow> PlayerId \<Rightarrow> CanonicalInventoryWorld \<Rightarrow> bool" where
  "branch_ok w i w' \<longleftrightarrow> inventory_ok w' \<and> (\<forall>g. world_sum (per_item g) w' = world_sum (per_item g) w)
     \<and> w_manifest w' = w_manifest w \<and> w_catalog w' = w_catalog w"

text \<open>The player's revision advances by one; this needs no invariant beyond sorted players.\<close>

definition player_revision :: "CanonicalInventoryWorld \<Rightarrow> PlayerId \<Rightarrow> nat" where
  "player_revision w i = (case findInventoryPlayer w i of None \<Rightarrow> 0 | Some p \<Rightarrow> unat (inv_revision p))"

lemma player_revision_put:
  assumes "players_sorted w" and "findInventoryPlayer w (inv_player q) = Some p"
  shows "player_revision (putPlayer q w) (inv_player q) = unat (inv_revision q)"
  using inventory_players.lookup_replace_same [OF assms(1), of q] assms(2) by (simp add: player_revision_def)

lemma player_revision_frames [simp]:
  "player_revision (putContainer c w) i = player_revision w i"
  "player_revision (w\<lparr>w_nextStackId := n\<rparr>) i = player_revision w i"
  "player_revision (w\<lparr>w_worldItems := is\<rparr>) i = player_revision w i"
  by (simp_all add: player_revision_def)

lemma players_sorted_frames [simp]:
  "players_sorted (putContainer c w) = players_sorted w"
  "players_sorted (w\<lparr>w_nextStackId := n\<rparr>) = players_sorted w"
  "players_sorted (w\<lparr>w_worldItems := is\<rparr>) = players_sorted w"
  by (simp_all add: players_sorted_def)

lemma take_branch:
  assumes ok: "inventory_ok w" and p: "findInventoryPlayer w (inv_player p) = Some p" and n: "cmd_count cmd \<noteq> 0"
    and run: "takeFromContainer w p tr cmd ctx tick = Inr (w', r)"
  shows "branch_ok w (inv_player p) w'"
proof -
  from run obtain c i dest w1 t np nc where acc: "accessContainer w tr cmd ctx tick = Inr c"
    and idx: "stackIndex (con_stacks c) cmd = Some i"
    and t: "transfer_ok w (con_stacks c) (inv_stacks p) i dest (cmd_count cmd) w1 t"
    and room: "dest = None \<longrightarrow> length (inv_stacks p) < MaximumPlayerInventoryStacks"
    and w': "w' = putContainer (c\<lparr>con_stacks := takeOut i (cmd_count cmd) (con_stacks c), con_revision := nc, con_tick := tick\<rparr>)
       (putPlayer (p\<lparr>inv_stacks := putIn dest t (inv_stacks p), inv_revision := np, inv_tick := tick\<rparr>) w1)"
      (is "_ = putContainer ?c (putPlayer ?p w1)")
    by (rule take_InrE)
  have fc: "findContainer w (con_id c) = Some c" and pok: "player_ok (w_catalog w) p" "p \<in> set (w_players w)"
    and cok: "container_ok (w_manifest w) (w_catalog w) c" "c \<in> set (w_containers w)"
    using accessContainer_InrD [OF acc] found_container_ok [OF ok] found_player_ok [OF ok p] by auto
  note w1 = transfer_world [OF t]
  have i: "i < length (con_stacks c)" "cmd_count cmd \<le> stackCount (con_stacks c ! i)"
    and m: "merge_target (w_catalog w) dest t (inv_stacks p)" using t by (auto simp: transfer_ok_def)
  have le: "stack_sum f (con_stacks c) + stack_sum f (inv_stacks p) \<le> world_sum f w" for f
    using two_places_le(1) [OF pok(2) cok(2), of f] by simp
  have "player_ok (w_catalog w) ?p"
    using room transfer_valid [OF t _ n] cok(1) transfer_new_id [OF t _ _ le] ok
    by (intro player_ok_putIn [OF pok(1) _ m]) (auto simp: container_ok_iff inventory_ok_def)
  moreover have "container_ok (w_manifest w) (w_catalog w) ?c"
    by (rule container_ok_takeOut [OF cok(1) i]) simp_all
  ultimately have parts: "players_ok w'" "containers_ok w'" "items_ok w'"
    using ok p fc unfolding w' w1 inventory_ok_def
    by (auto intro!: players_ok_putPlayer containers_ok_putContainer)
  have sum: "world_sum f w' + (stack_sum f (con_stacks c) + stack_sum f (inv_stacks p))
      = world_sum f w + (stack_sum f (con_stacks ?c) + stack_sum f (inv_stacks ?p))" for f
    using world_sum_putContainer [of "putPlayer ?p w1" ?c c f] world_sum_putPlayer [of w1 ?p p f] p fc
    unfolding w' w1 by simp
  have "ids_ok w'"
  proof (rule moved_ids_ok [OF ok _ sum])
    show "stack_sum (has_id a) (con_stacks ?c) + stack_sum (has_id a) (inv_stacks ?p)
        \<le> stack_sum (has_id a) (con_stacks c) + stack_sum (has_id a) (inv_stacks p)
          + of_bool ((dest = None \<and> stackCount (con_stacks c ! i) \<noteq> cmd_count cmd) \<and> w_nextStackId w = Some a)" for a
      using transfer_ids [OF t, of a] by simp
  qed (simp add: w' w1)
  then show ?thesis
    using parts ok sum [of "per_item _"] transfer_per_item [OF t]
    by (simp add: branch_ok_def inventory_ok_def) (simp add: w' w1)
qed

lemma capacity_room:
  assumes "totalWeight cat ss \<le> ucast (cap :: u32)" and "ucast (wu :: u32) * ucast (n :: u32) \<le> ucast cap - totalWeight cat ss"
    and "weight_of cat k = unat wu"
  shows "load cat ss + weight_of cat k * unat n \<le> unat cap"
proof -
  have "unat cap < 2 ^ 64 - 1" using unat_lt_u32 [of cap] by (simp del: unat_lt_u32)
  then have le: "unat (totalWeight cat ss) = load cat ss" and "load cat ss \<le> unat cap"
    using assms(1) by (auto simp: word_le_nat_alt totalWeight_unat)
  moreover have "unat wu * unat n \<le> unat cap - load cat ss"
    using assms(2) le by (simp add: word_le_nat_alt unat_product unat_minus_le [OF assms(1)])
  ultimately show ?thesis using assms(3) by simp
qed

lemma put_branch:
  assumes ok: "inventory_ok w" and p: "findInventoryPlayer w (inv_player p) = Some p" and n: "cmd_count cmd \<noteq> 0"
    and d: "findPrototype (w_catalog w) (cmd_prototype cmd) = Some d"
    and run: "putIntoContainer w p tr d cmd ctx tick = Inr (w', r)"
  shows "branch_ok w (inv_player p) w'"
proof -
  from run obtain c i dest w1 t np nc where acc: "accessContainer w tr cmd ctx tick = Inr c"
    and idx: "stackIndex (inv_stacks p) cmd = Some i"
    and t: "transfer_ok w (inv_stacks p) (con_stacks c) i dest (cmd_count cmd) w1 t"
    and room: "dest = None \<longrightarrow> length (con_stacks c) < MaximumContainerStacks"
    and use: "equipmentUseCount (inv_equipment p) (stackId (inv_stacks p ! i)) None
       \<le> unat (stackCount (inv_stacks p ! i) - cmd_count cmd)"
    and cap: "con_capacity c \<noteq> 0 \<longrightarrow> totalWeight (w_catalog w) (con_stacks c) \<le> ucast (con_capacity c)
       \<and> ucast (weightUnits d) * ucast (cmd_count cmd) \<le> ucast (con_capacity c) - totalWeight (w_catalog w) (con_stacks c)"
    and w': "w' = putPlayer (p\<lparr>inv_stacks := takeOut i (cmd_count cmd) (inv_stacks p), inv_revision := np, inv_tick := tick\<rparr>)
       (putContainer (c\<lparr>con_stacks := putIn dest t (con_stacks c), con_revision := nc, con_tick := tick\<rparr>) w1)"
      (is "_ = putPlayer ?p (putContainer ?c w1)")
    by (rule put_InrE)
  have fc: "findContainer w (con_id c) = Some c" and pok: "player_ok (w_catalog w) p" "p \<in> set (w_players w)"
    and cok: "container_ok (w_manifest w) (w_catalog w) c" "c \<in> set (w_containers w)"
    using accessContainer_InrD [OF acc] found_container_ok [OF ok] found_player_ok [OF ok p] by auto
  note w1 = transfer_world [OF t]
  have i: "i < length (inv_stacks p)" "cmd_count cmd \<le> stackCount (inv_stacks p ! i)"
    and m: "merge_target (w_catalog w) dest t (con_stacks c)" using t by (auto simp: transfer_ok_def)
  have weight: "load (w_catalog w) (con_stacks c) + weight_of (w_catalog w) (kind_of t) * unat (stackCount t)
      \<le> unat (con_capacity c)" if "con_capacity c \<noteq> 0"
    using cap that transfer_kind [OF t] stackIndex_SomeD [OF idx] d by (intro capacity_room) (auto simp: kind_of_def weight_of_def)
  have "container_ok (w_manifest w) (w_catalog w) ?c"
    using room transfer_valid [OF t _ n] pok(1) transfer_new_id [OF t _ _ two_places_le(1) [OF pok(2) cok(2)]] ok weight
    by (intro container_ok_putIn [OF cok(1) _ m]) (auto simp: player_ok_iff inventory_ok_def)
  moreover have "player_ok (w_catalog w) ?p" by (rule player_ok_takeOut [OF pok(1) i use]) simp_all
  ultimately have parts: "players_ok w'" "containers_ok w'" "items_ok w'"
    using ok p fc unfolding w' w1 inventory_ok_def
    by (auto intro!: players_ok_putPlayer containers_ok_putContainer)
  have sum: "world_sum f w' + (stack_sum f (inv_stacks p) + stack_sum f (con_stacks c))
      = world_sum f w + (stack_sum f (inv_stacks ?p) + stack_sum f (con_stacks ?c))" for f
    using world_sum_putPlayer [of "putContainer ?c w1" ?p p f] world_sum_putContainer [of w1 ?c c f] p fc
    unfolding w' w1 by simp
  have "ids_ok w'"
  proof (rule moved_ids_ok [OF ok _ sum])
    show "stack_sum (has_id a) (inv_stacks ?p) + stack_sum (has_id a) (con_stacks ?c)
        \<le> stack_sum (has_id a) (inv_stacks p) + stack_sum (has_id a) (con_stacks c)
          + of_bool ((dest = None \<and> stackCount (inv_stacks p ! i) \<noteq> cmd_count cmd) \<and> w_nextStackId w = Some a)" for a
      using transfer_ids [OF t, of a] by simp
  qed (simp add: w' w1)
  then show ?thesis
    using parts ok sum [of "per_item _"] transfer_per_item [OF t]
    by (simp add: branch_ok_def inventory_ok_def) (simp add: w' w1)
qed

lemma dropped_item_sorted:
  assumes ok: "inventory_ok w" and p: "p \<in> set (w_players w)" and i: "i < length (inv_stacks p)"
    and sp: "splitStack w (stackCount (inv_stacks p ! i) \<noteq> n) (inv_stacks p ! i) n = (w1, t)"
    and id: "stackCount (inv_stacks p ! i) \<noteq> n \<longrightarrow> w_nextStackId w \<noteq> None" and item: "wi_stack item = t"
  shows "keys_sorted wi_id (insert_key wi_id item (w_worldItems w))"
proof -
  have ids: "ids_ok w" and sorted: "keys_sorted wi_id (w_worldItems w)"
    using ok by (auto simp: inventory_ok_def items_ok_def)
  have "stack_sum f (inv_stacks p) + stack_sum f (map wi_stack (w_worldItems w)) \<le> world_sum f w" for f
    using member_le_sum_list [of "stack_sum f (inv_stacks p)" "map (\<lambda>p. stack_sum f (inv_stacks p)) (w_players w)"] p
    by (simp add: world_sum_split stack_sum_def comp_def)
  then have "stackId t \<notin> stackId ` set (map wi_stack (w_worldItems w))" by (rule split_new_id [OF i sp id ids])
  then show ?thesis using sorted item by (intro keys_sorted_insert_key) (auto simp: image_image)
qed

lemma drop_branch:
  assumes ok: "inventory_ok w" and p: "findInventoryPlayer w (inv_player p) = Some p" and n: "cmd_count cmd \<noteq> 0"
    and cell: "manifest_contains (w_manifest w) (t_cell tr)"
    and run: "dropItem w p tr cmd ctx tick = Inr (w', r)"
  shows "branch_ok w (inv_player p) w'"
proof -
  from run obtain i w1 t np where idx: "stackIndex (inv_stacks p) cmd = Some i"
    and le: "cmd_count cmd \<le> stackCount (inv_stacks p ! i)"
    and use: "equipmentUseCount (inv_equipment p) (stackId (inv_stacks p ! i)) None
       \<le> unat (stackCount (inv_stacks p ! i) - cmd_count cmd)"
    and room: "length (w_worldItems w) < MaximumWorldItemStacks"
    and id: "stackCount (inv_stacks p ! i) \<noteq> cmd_count cmd \<longrightarrow> w_nextStackId w \<noteq> None"
    and sp: "splitStack w (stackCount (inv_stacks p ! i) \<noteq> cmd_count cmd) (inv_stacks p ! i) (cmd_count cmd) = (w1, t)"
    and w': "w' = (putPlayer (p\<lparr>inv_stacks := takeOut i (cmd_count cmd) (inv_stacks p), inv_revision := np, inv_tick := tick\<rparr>) w1)
       \<lparr>w_worldItems := insert_key wi_id \<lparr>wi_stack = t, wi_cell = t_cell tr, wi_position = cmd_origin cmd,
          wi_revision = initial CounterFromOne, wi_tick = tick\<rparr> (w_worldItems w1)\<rparr>"
      (is "_ = (putPlayer ?p w1)\<lparr>w_worldItems := insert_key wi_id ?item _\<rparr>")
    by (rule drop_InrE)
  have pok: "player_ok (w_catalog w) p" "p \<in> set (w_players w)" using found_player_ok [OF ok p] by auto
  have i: "i < length (inv_stacks p)" using stackIndex_SomeD [OF idx] by simp
  note w1 = splitStack_facts(1) [OF sp id] and tk = splitStack_facts(2,3) [OF sp id]
  have t: "transfer_ok w (inv_stacks p) [] i None (cmd_count cmd) w1 t"
    using i le id sp by (simp add: transfer_ok_def mergeIndex_def find_index_def merge_target_def)
  have sum: "world_sum f w' + stack_sum f (inv_stacks p) = world_sum f w + (stack_sum f (inv_stacks ?p) + f t)" for f
    using world_sum_putPlayer [of w1 ?p p f] p
      world_sum_items [of f "insert_key wi_id ?item (w_worldItems w1)" "putPlayer ?p w1"]
    unfolding w' w1 by (simp add: sum_insert_key)
  have ids: "ids_ok w'"
  proof (rule moved_ids_ok [OF ok _ sum])
    show "stack_sum (has_id a) (inv_stacks ?p) + has_id a t \<le> stack_sum (has_id a) (inv_stacks p)
          + of_bool (stackCount (inv_stacks p ! i) \<noteq> cmd_count cmd \<and> w_nextStackId w = Some a)" for a
      using transfer_ids [OF t, of a] by (simp add: putIn_def insert_key_def insert_at_def lower_bound_def stack_sum_def)
  qed (simp add: w' w1)
  have "players_ok w'" using ok p player_ok_takeOut [OF pok(1) i le use, of ?p] unfolding w' w1 inventory_ok_def
    by (auto intro!: players_ok_putPlayer)
  moreover have "items_ok w'"
    using dropped_item_sorted [OF ok pok(2) i sp id, of ?item] transfer_valid [OF t _ n] pok(1) room cell ok
    by (simp add: w' w1 items_ok_def player_ok_iff worldItemValid_def inventory_ok_def)
  ultimately show ?thesis
    using ok ids sum [of "per_item _"] per_item_takeOut [OF i le] tk
    by (simp add: branch_ok_def inventory_ok_def per_item_def) (simp add: w' w1)
qed

lemma pickup_items_sum:
  assumes "k < length is" and "wi_stack item' = (wi_stack (is ! k))\<lparr>stackCount := stackCount (wi_stack (is ! k)) - n\<rparr>"
  shows "(\<Sum>i\<leftarrow>(if stackCount (wi_stack (is ! k)) = n then erase_at k is else is[k := item']). f (wi_stack i))
       + f (wi_stack (is ! k)) = (\<Sum>i\<leftarrow>is. f (wi_stack i)) + stack_sum f (takeOut 0 n [wi_stack (is ! k)])"
  using sum_erase_at [OF assms(1), of "\<lambda>i. f (wi_stack i)"] sum_list_update_nat [OF assms(1), of "\<lambda>i. f (wi_stack i)" item'] assms(2)
  by (simp add: takeOut_def stack_sum_def erase_at_def)

lemma pickup_items_ok:
  assumes items: "items_ok w" and k: "k < length (w_worldItems w)" and item: "item = w_worldItems w ! k"
    and le: "n \<le> stackCount (wi_stack item)"
    and item': "wi_stack item' = (wi_stack item)\<lparr>stackCount := stackCount (wi_stack item) - n\<rparr>" "wi_cell item' = wi_cell item"
  shows "items_ok (w\<lparr>w_worldItems := (if stackCount (wi_stack item) = n then erase_at k (w_worldItems w)
      else (w_worldItems w)[k := item'])\<rparr>)"
proof (cases "stackCount (wi_stack item) = n")
  case True
  then show ?thesis using items length_erase_at [OF k] set_erase_at_subset [of k "w_worldItems w"]
    by (auto simp: items_ok_def keys_sorted_erase_at)
next
  case False
  have v: "worldItemValid (w_manifest w) (w_catalog w) item" using items k item by (simp add: items_ok_def)
  then have "list_all (validStack (w_catalog w)) (takeOut 0 n [wi_stack item])"
    using le by (intro valid_takeOut) (simp_all add: worldItemValid_def)
  then have "worldItemValid (w_manifest w) (w_catalog w) item'"
    using v False item' by (simp add: worldItemValid_def takeOut_def)
  then have "\<forall>x \<in> set ((w_worldItems w)[k := item']). worldItemValid (w_manifest w) (w_catalog w) x"
    using items set_update_subset_insert [of "w_worldItems w" k item'] by (auto simp: items_ok_def)
  then show ?thesis using False items item item'(1) keys_sorted_update [of wi_id "w_worldItems w" item' k]
    by (simp add: items_ok_def)
qed

lemma pickup_branch:
  assumes ok: "inventory_ok w" and p: "findInventoryPlayer w (inv_player p) = Some p" and n: "cmd_count cmd \<noteq> 0"
    and run: "pickupItem w p tr cmd ctx tick = Inr (w', r)"
  shows "branch_ok w (inv_player p) w'"
proof -
  from run obtain k item dest w1 t np where k: "k < length (w_worldItems w)" and item: "item = w_worldItems w ! k"
    and t: "transfer_ok w [wi_stack item] (inv_stacks p) 0 dest (cmd_count cmd) w1 t"
    and room: "dest = None \<longrightarrow> length (inv_stacks p) < MaximumPlayerInventoryStacks"
    and w': "w' = (putPlayer (p\<lparr>inv_stacks := putIn dest t (inv_stacks p), inv_revision := np, inv_tick := tick\<rparr>) w1)
       \<lparr>w_worldItems :=
          (if stackCount (wi_stack item) = cmd_count cmd then erase_at k (w_worldItems w1)
           else (w_worldItems w1)[k := item\<lparr>wi_stack := (wi_stack item)\<lparr>stackCount := stackCount (wi_stack item) - cmd_count cmd\<rparr>,
                                     wi_revision := the (next_value (wi_revision item)), wi_tick := tick\<rparr>])\<rparr>"
      (is "_ = (putPlayer ?p w1)\<lparr>w_worldItems := if _ then _ else _[k := ?item']\<rparr>")
    by (rule pickup_InrE)
  let ?is = "if stackCount (wi_stack item) = cmd_count cmd then erase_at k (w_worldItems w) else (w_worldItems w)[k := ?item']"
  note w1 = transfer_world [OF t]
  have w2: "w' = (putPlayer ?p w1)\<lparr>w_worldItems := ?is\<rparr>" using w' by (simp add: w1)
  have pok: "player_ok (w_catalog w) p" "p \<in> set (w_players w)" using found_player_ok [OF ok p] by auto
  have mem: "item \<in> set (w_worldItems w)" using k item by simp
  have iok: "items_ok w" and v: "validStack (w_catalog w) (wi_stack item)"
    using ok mem by (auto simp: inventory_ok_def items_ok_def worldItemValid_def)
  have m: "merge_target (w_catalog w) dest t (inv_stacks p)" and le: "cmd_count cmd \<le> stackCount (wi_stack item)"
    using t by (auto simp: transfer_ok_def)
  have places: "stack_sum f [wi_stack item] + stack_sum f (inv_stacks p) \<le> world_sum f w" for f
    using two_places_le(2) [OF pok(2) mem, of f] by (simp add: stack_sum_def)
  have "player_ok (w_catalog w) ?p"
    using room transfer_valid [OF t _ n] v transfer_new_id [OF t _ _ places] ok
    by (intro player_ok_putIn [OF pok(1) _ m]) (auto simp: inventory_ok_def)
  then have "players_ok w'" using ok p unfolding w2 w1 inventory_ok_def by (auto intro!: players_ok_putPlayer)
  moreover have "items_ok w'" using pickup_items_ok [OF iok k item le, of ?item'] by (simp add: w2 w1 items_ok_def)
  moreover have sum: "world_sum f w' + (stack_sum f [wi_stack item] + stack_sum f (inv_stacks p))
      = world_sum f w + (stack_sum f (takeOut 0 (cmd_count cmd) [wi_stack item]) + stack_sum f (inv_stacks ?p))" for f
    using world_sum_putPlayer [of w1 ?p p f] p world_sum_items [of f ?is "putPlayer ?p w1"]
      pickup_items_sum [OF k, of ?item' "cmd_count cmd" f] item
    unfolding w2 w1 by (simp add: stack_sum_def)
  have "ids_ok w'"
  proof (rule moved_ids_ok [OF ok _ sum])
    show "stack_sum (has_id a) (takeOut 0 (cmd_count cmd) [wi_stack item]) + stack_sum (has_id a) (inv_stacks ?p)
        \<le> stack_sum (has_id a) [wi_stack item] + stack_sum (has_id a) (inv_stacks p)
          + of_bool ((dest = None \<and> stackCount ([wi_stack item] ! 0) \<noteq> cmd_count cmd) \<and> w_nextStackId w = Some a)" for a
      using transfer_ids [OF t, of a] by simp
  qed (simp add: w2 w1)
  ultimately show ?thesis
    using ok sum [of "per_item _"] transfer_per_item [OF t]
    by (simp add: branch_ok_def inventory_ok_def) (simp add: w2 w1)
qed

section \<open>Equipping\<close>

lemma count_list_sum: "count_list xs y = (\<Sum>x\<leftarrow>xs. of_bool (x = y))"
  by (induction xs) simp_all

lemma count_list_update:
  "k < length xs \<Longrightarrow> count_list (xs[k := x]) y + of_bool (xs ! k = y) = count_list xs y + of_bool (x = y)"
  using sum_list_update_nat [of k xs "\<lambda>x. of_bool (x = y)" x] by (simp add: count_list_sum)

lemma length_filter_upt: "length (filter (\<lambda>i. Q (xs ! i)) [0..<length xs]) = length (filter Q xs)"
proof -
  have "filter Q (map ((!) xs) [0..<length xs]) = map ((!) xs) (filter (\<lambda>i. Q (xs ! i)) [0..<length xs])"
    unfolding filter_map comp_def ..
  then have "length (filter Q (map ((!) xs) [0..<length xs])) = length (filter (\<lambda>i. Q (xs ! i)) [0..<length xs])"
    by simp
  then show ?thesis by (simp add: map_nth)
qed

lemma distinct_filter_one:
  "distinct xs \<Longrightarrow> k \<in> set xs \<Longrightarrow> length (filter (\<lambda>i. i = k \<and> Q i) xs) = of_bool (Q k)"
  by (induction xs) (auto simp: filter_empty_conv)

lemma use_count: "equipmentUseCount eq sid None = count_list eq (Some sid)"
proof -
  have "(\<lambda>e. e = Some sid) = (=) (Some sid)" by auto
  then show ?thesis using length_filter_upt [of "\<lambda>e. e = Some sid" eq]
    by (simp add: equipmentUseCount_def count_list_eq_length_filter)
qed

lemma use_count_excluding:
  assumes "k < length eq"
  shows "equipmentUseCount eq sid (Some k) + of_bool (eq ! k = Some sid) = count_list eq (Some sid)"
proof -
  have k: "k \<in> set [0..<length eq]" using assms by simp
  have "length (filter (\<lambda>i. eq ! i = Some sid) [0..<length eq])
      = length (filter (\<lambda>i. i \<noteq> k \<and> eq ! i = Some sid) [0..<length eq]) + of_bool (eq ! k = Some sid)"
    using sum_length_filter_compl [of "\<lambda>i. i \<noteq> k" "filter (\<lambda>i. eq ! i = Some sid) [0..<length eq]"]
      distinct_filter_one [OF distinct_upt k, of "\<lambda>i. eq ! i = Some sid"]
    by (simp add: conj_commute)
  moreover have "(\<lambda>i. i \<noteq> k \<and> eq ! i = Some sid) = (\<lambda>i. Some k \<noteq> Some i \<and> eq ! i = Some sid)" by auto
  ultimately show ?thesis
    using use_count [of eq sid] by (simp add: equipmentUseCount_def)
qed

lemma putPlayer_branch:
  assumes ok: "inventory_ok w" and p: "findInventoryPlayer w (inv_player q) = Some p"
    and q: "player_ok (w_catalog w) q" "inv_stacks q = inv_stacks p"
  shows "branch_ok w (inv_player q) (putPlayer q w)"
proof -
  have sum: "world_sum f (putPlayer q w) = world_sum f w" for f
    using world_sum_putPlayer [OF p, of f] q(2) by simp
  then have "ids_ok (putPlayer q w)" using ok by (simp add: inventory_ok_def ids_ok_iff)
  then show ?thesis using ok sum players_ok_putPlayer [OF _ p q(1)] by (simp add: branch_ok_def inventory_ok_def)
qed

lemma player_ok_equipment:
  assumes ok: "player_ok cat p" and q: "inv_stacks q = inv_stacks p" "inv_equipment q = (inv_equipment p)[k := e]"
    and k: "k < length (inv_equipment p)"
    and e: "\<And>sid. e = Some sid \<Longrightarrow> inv_equipment p ! k \<noteq> Some sid \<and> slot_ok cat (inv_stacks p) (inv_equipment q) k sid"
  shows "player_ok cat q"
  unfolding player_ok_iff q(1)
proof (intro conjI allI impI)
  fix slot sid
  assume "slot < length (inv_equipment q)" and sid: "inv_equipment q ! slot = Some sid"
  then have slot: "slot < length (inv_equipment p)" using q(2) by simp
  show "slot_ok cat (inv_stacks p) (inv_equipment q) slot sid"
  proof (cases "e = Some sid")
    case True
    show ?thesis
    proof (cases "slot = k")
      case True
      with e \<open>e = Some sid\<close> show ?thesis by simp
    next
      case False
      then have "slot_ok cat (inv_stacks p) (inv_equipment p) slot sid" using ok slot sid q(2) by (simp add: player_ok_iff)
      moreover have "slot_ok cat (inv_stacks p) (inv_equipment q) k sid" using e True by simp
      ultimately show ?thesis
        using ok by (auto simp: slot_ok_def player_ok_iff dest: keys_sorted_inject)
    qed
  next
    case False
    then have "slot \<noteq> k" using sid q(2) k by auto
    then have "slot_ok cat (inv_stacks p) (inv_equipment p) slot sid" using ok slot sid q(2) by (simp add: player_ok_iff)
    moreover have "equipmentUseCount (inv_equipment q) sid None \<le> equipmentUseCount (inv_equipment p) sid None"
      using count_list_update [OF k, of e "Some sid"] False q(2) by (simp add: use_count)
    ultimately show ?thesis unfolding slot_ok_def by (meson order_trans)
  qed
qed (use ok q in \<open>simp_all add: player_ok_iff\<close>)

lemma unequip_branch:
  assumes ok: "inventory_ok w" and p: "findInventoryPlayer w (inv_player p) = Some p"
    and run: "unequipItem w p cmd tick = Inr (w', r)"
  shows "branch_ok w (inv_player p) w'"
proof (cases "w' = w")
  case True
  then show ?thesis using ok by (simp add: branch_ok_def)
next
  case False
  then obtain slot nr where slot: "unat (slot :: u8) < length (inv_equipment p)"
    and w': "w' = putPlayer (p\<lparr>inv_equipment := (inv_equipment p)[unat slot := None], inv_revision := nr, inv_tick := tick\<rparr>) w"
      (is "_ = putPlayer ?p w")
    using run by (auto simp: unequipItem_def not_le split: option.splits if_splits)
  have "player_ok (w_catalog w) ?p"
    using found_player_ok [OF ok p] slot by - (rule player_ok_equipment [of _ p], auto)
  then show ?thesis using putPlayer_branch [OF ok, of ?p p] p unfolding w' by simp
qed

lemma equip_branch:
  assumes ok: "inventory_ok w" and p: "findInventoryPlayer w (inv_player p) = Some p"
    and d: "findPrototype (w_catalog w) (cmd_prototype cmd) = Some d"
    and run: "equipItem w p d cmd tick = Inr (w', r)"
  shows "branch_ok w (inv_player p) w'"
proof (cases "w' = w")
  case True
  then show ?thesis using ok by (simp add: branch_ok_def)
next
  case False
  then obtain slot i nr where idx: "stackIndex (inv_stacks p) cmd = Some i"
    and slot: "unat (slot :: u8) < length (inv_equipment p)" "slotMask d AND slotToMask slot \<noteq> 0"
    and broken: "\<not> (slot = SlotCarriedRight \<and> category d = CategoryWeapon \<and> maxCondition d \<noteq> 0 \<and> condition (inv_stacks p ! i) = 0)"
    and use: "equipmentUseCount (inv_equipment p) (stackId (inv_stacks p ! i)) (Some (unat slot)) < unat (stackCount (inv_stacks p ! i))"
    and other: "inv_equipment p ! unat slot \<noteq> Some (stackId (inv_stacks p ! i))"
    and w': "w' = putPlayer (p\<lparr>inv_equipment := (inv_equipment p)[unat slot := Some (stackId (inv_stacks p ! i))],
        inv_revision := nr, inv_tick := tick\<rparr>) w" (is "_ = putPlayer ?p w")
    using run by (auto simp: equipItem_def Let_def not_le split: option.splits if_splits)
  let ?s = "inv_stacks p ! i"
  have s: "?s \<in> set (inv_stacks p)" "prototypeId ?s = cmd_prototype cmd" using stackIndex_SomeD [OF idx] by auto
  have "equipmentUseCount (inv_equipment ?p) (stackId ?s) None \<le> unat (stackCount ?s)"
    using use use_count_excluding [OF slot(1), of "stackId ?s"] other
      count_list_update [OF slot(1), of "Some (stackId ?s)" "Some (stackId ?s)"] by (simp add: use_count)
  then have "slot_ok (w_catalog w) (inv_stacks p) (inv_equipment ?p) (unat slot) (stackId ?s)"
    using s slot(2) broken d unfolding slot_ok_def by (intro bexI [OF _ s(1)] exI [of _ d]) simp
  then have "player_ok (w_catalog w) ?p"
    using found_player_ok [OF ok p] slot other by - (rule player_ok_equipment [of _ p], auto)
  then show ?thesis using putPlayer_branch [OF ok, of ?p p] p unfolding w' by simp
qed

end
