(* ===== verification/Inventory_Operations.thy ===== *)
theory Inventory_Operations
  imports Inventory_Transactions
begin

unbundle bit_operations_syntax

text \<open>
  The remaining operations of the inventory world keep its invariant: creation, joining players,
  starting items, containers, wear and charges.
\<close>

section \<open>Stacks changed in place\<close>

lemma find_index_sorted:
  "keys_sorted stackId ss \<Longrightarrow> find_index (\<lambda>s. stackId s = sid) ss = Some i \<longleftrightarrow> i < length ss \<and> stackId (ss ! i) = sid"
  using find_index_iff [of "\<lambda>s. stackId s = sid" ss] find_index_None_iff [of "\<lambda>s. stackId s = sid" ss]
  by (metis keys_sorted_nth_inject nth_mem option.exhaust)

lemma updateStack_at:
  assumes "keys_sorted stackId ss" and "findStack ss sid = Some s"
  obtains i where "i < length ss" "ss ! i = s" "stackId s = sid" "updateStack sid f ss = ss[i := f s]"
proof -
  have s: "s \<in> set ss" "stackId s = sid" using assms by (simp_all add: findStack_iff)
  then obtain i where i: "i < length ss" "ss ! i = s" by (auto simp: in_set_conv_nth)
  then have "find_index (\<lambda>s. stackId s = sid) ss = Some i" using assms(1) s by (simp add: find_index_sorted)
  then show thesis using i s that by (simp add: updateStack_def)
qed

text \<open>
  One stack of a player gets another condition or charge. A broken weapon must not be left in the
  right hand.
\<close>

lemma player_ok_restack:
  assumes ok: "player_ok cat p" and i: "i < length (inv_stacks p)" and q: "inv_stacks q = (inv_stacks p)[i := s']"
    and same: "stackId s' = stackId (inv_stacks p ! i)" "prototypeId s' = prototypeId (inv_stacks p ! i)"
      "stackCount s' = stackCount (inv_stacks p ! i)"
    and valid: "validStack cat s'"
    and eq: "inv_equipment q = inv_equipment p \<or> (\<exists>k < length (inv_equipment p). inv_equipment q = (inv_equipment p)[k := None])"
    and hand: "condition s' = 0 \<Longrightarrow> condition (inv_stacks p ! i) = 0
      \<or> inv_equipment q ! unat SlotCarriedRight \<noteq> Some (stackId s')
      \<or> (\<forall>d. findPrototype cat (prototypeId s') = Some d \<longrightarrow> category d \<noteq> CategoryWeapon)"
  shows "player_ok cat q"
proof -
  have p1: "player_ok cat (p\<lparr>inv_equipment := inv_equipment q\<rparr>)" using eq
  proof
    assume "\<exists>k < length (inv_equipment p). inv_equipment q = (inv_equipment p)[k := None]"
    then show ?thesis using ok by - (erule exE, rule player_ok_equipment [of _ p], auto)
  qed (use ok in simp)
  have len: "length (inv_equipment q) = unat EquipmentSlotCount" using p1 by (simp add: player_ok_iff)
  show ?thesis unfolding player_ok_iff
  proof (intro conjI allI impI)
    fix slot sid
    assume slot: "slot < length (inv_equipment q)" "inv_equipment q ! slot = Some sid"
    then have "slot_ok cat (inv_stacks p) (inv_equipment q) slot sid" using p1 by (simp add: player_ok_iff)
    then obtain s d where s: "s \<in> set (inv_stacks p)" "stackId s = sid" "findPrototype cat (prototypeId s) = Some d"
      "slotMask d AND slotToMask (of_nat slot) \<noteq> 0"
      "\<not> (of_nat slot = SlotCarriedRight \<and> category d = CategoryWeapon \<and> maxCondition d \<noteq> 0 \<and> condition s = 0)"
      "equipmentUseCount (inv_equipment q) sid None \<le> unat (stackCount s)"
      by (auto simp: slot_ok_def)
    show "slot_ok cat (inv_stacks q) (inv_equipment q) slot sid"
    proof (cases "s = inv_stacks p ! i")
      case True
      have mem: "s' \<in> set (inv_stacks q)" using i q by (simp add: set_update_memI)
      have "unat (of_nat slot :: u8) = slot" using slot(1) len by (simp add: EquipmentSlotCount_def unat_of_nat)
      then have "of_nat slot = SlotCarriedRight \<Longrightarrow> inv_equipment q ! unat SlotCarriedRight = Some (stackId s')"
        using slot(2) s(2) True same(1) by metis
      then have "\<not> (of_nat slot = SlotCarriedRight \<and> category d = CategoryWeapon \<and> maxCondition d \<noteq> 0 \<and> condition s' = 0)"
        using hand s(3,5) True same(2) by fastforce
      then show ?thesis unfolding slot_ok_def using s True same by (intro bexI [OF _ mem] exI [of _ d]) simp
    next
      case False
      then have "s \<in> set (inv_stacks q)" using s(1) q by (simp add: list_update_member)
      then show ?thesis unfolding slot_ok_def using s by (intro bexI [of _ s] exI [of _ d]) simp
    qed
  next
    show "keys_sorted stackId (inv_stacks q)" using ok q same by (simp add: player_ok_iff keys_sorted_update)
    show "list_all (validStack cat) (inv_stacks q)"
      using ok valid set_update_subset_insert [of "inv_stacks p" i s'] q by (auto simp: player_ok_iff list_all_iff)
  qed (use ok q len in \<open>simp_all add: player_ok_iff\<close>)
qed

lemma inventory_ok_putPlayer:
  assumes ok: "inventory_ok w" and p: "findInventoryPlayer w (inv_player q) = Some p" and q: "player_ok (w_catalog w) q"
    and ids: "\<And>a. stack_sum (has_id a) (inv_stacks q) \<le> stack_sum (has_id a) (inv_stacks p)"
  shows "inventory_ok (putPlayer q w)"
proof -
  have "ids_ok (putPlayer q w)"
  proof (rule moved_ids_ok [OF ok])
    show "w_nextStackId (putPlayer q w) = next_after False (w_nextStackId w)" by (simp add: next_after_def)
    show "world_sum f (putPlayer q w) + stack_sum f (inv_stacks p) = world_sum f w + stack_sum f (inv_stacks q)" for f
      by (rule world_sum_putPlayer [OF p])
  qed (simp add: ids)
  then show ?thesis using ok players_ok_putPlayer [OF _ p q] by (simp add: inventory_ok_def)
qed

lemma restack_ids:
  assumes "i < length ss" and "stackId s' = stackId (ss ! i)"
  shows "stack_sum (has_id a) (ss[i := s']) = stack_sum (has_id a) ss"
  using sum_list_update_nat [OF assms(1), of "has_id a" s'] assms(2) by (simp add: stack_sum_def has_id_def)

section \<open>Wear and charges\<close>

text \<open>A stack one can look up, at its index.\<close>

lemma stack_at:
  assumes "inventory_ok w" and "findInventoryPlayer w j = Some p" and "findStack (inv_stacks p) sid = Some s"
  obtains i where "i < length (inv_stacks p)" "inv_stacks p ! i = s" "stackId s = sid"
    "\<forall>f. updateStack sid f (inv_stacks p) = (inv_stacks p)[i := f s]" "validStack (w_catalog w) s"
proof -
  have ok: "player_ok (w_catalog w) p" using found_player_ok [OF assms(1,2)] by simp
  then have sorted: "keys_sorted stackId (inv_stacks p)" by (simp add: player_ok_iff)
  obtain i where i: "i < length (inv_stacks p)" "inv_stacks p ! i = s" "stackId s = sid"
    using assms(3) sorted findStack_iff by (metis in_set_conv_nth)
  then have "find_index (\<lambda>s. stackId s = sid) (inv_stacks p) = Some i" using sorted by (simp add: find_index_sorted)
  then have "updateStack sid f (inv_stacks p) = (inv_stacks p)[i := f s]" for f using i by (simp add: updateStack_def)
  moreover have "validStack (w_catalog w) s" using ok i(1,2) by (auto simp: player_ok_iff list_all_length)
  ultimately show thesis using i that by blast
qed

text \<open>When lowering a condition to zero leaves no broken weapon in the right hand.\<close>

definition wear_allowed :: "CanonicalInventoryWorld \<Rightarrow> PlayerId \<Rightarrow> EquipmentSlot \<Rightarrow> ItemStackId \<Rightarrow> u32 \<Rightarrow> bool \<Rightarrow> bool" where
  "wear_allowed w player slot sid newCondition unequip \<longleftrightarrow>
     newCondition \<noteq> 0 \<or> slot = SlotCarriedRight \<and> unequip
     \<or> (\<forall>p s d. findInventoryPlayer w player = Some p \<longrightarrow> findStack (inv_stacks p) sid = Some s \<longrightarrow>
           findPrototype (w_catalog w) (prototypeId s) = Some d \<longrightarrow> category d \<noteq> CategoryWeapon)"

lemma setEquippedItemCondition_ok:
  assumes ok: "inventory_ok w" and run: "setEquippedItemCondition w player slot sid newCondition unequip tick = (w', r)"
    and wear: "wear_allowed w player slot sid newCondition unequip"
  shows "inventory_ok w'"
proof (cases "w' = w")
  case False
  then obtain p s d nr where p: "findInventoryPlayer w player = Some p" and slot: "slotHolds (inv_equipment p) slot sid"
    and s: "findStack (inv_stacks p) sid = Some s" and d: "findPrototype (w_catalog w) (prototypeId s) = Some d"
    and c: "newCondition \<le> maxCondition d"
    and w': "w' = putPlayer (p\<lparr>inv_stacks := updateStack sid (\<lambda>s. s\<lparr>condition := newCondition\<rparr>) (inv_stacks p),
        inv_equipment := (if unequip then (inv_equipment p)[unat slot := None] else inv_equipment p),
        inv_revision := nr, inv_tick := tick\<rparr>) w" (is "_ = putPlayer ?p w")
    using run by (auto simp: setEquippedItemCondition_def not_less split: option.splits if_splits bind_splits)
  obtain i where i: "i < length (inv_stacks p)" "inv_stacks p ! i = s" "stackId s = sid"
    "\<forall>f. updateStack sid f (inv_stacks p) = (inv_stacks p)[i := f s]" "validStack (w_catalog w) s"
    by (rule stack_at [OF ok p s])
  have pok: "player_ok (w_catalog w) p" "inv_player p = player" using found_player_ok [OF ok p] by auto
  have "player_ok (w_catalog w) ?p"
  proof (rule player_ok_restack [OF pok(1) i(1)])
    show "inv_stacks ?p = (inv_stacks p)[i := s\<lparr>condition := newCondition\<rparr>]" using i(4) by simp
    show "validStack (w_catalog w) (s\<lparr>condition := newCondition\<rparr>)" using i(5) d c by (simp add: validStack_def)
    show "condition (inv_stacks p ! i) = 0 \<or> inv_equipment ?p ! unat SlotCarriedRight \<noteq> Some (stackId (s\<lparr>condition := newCondition\<rparr>))
        \<or> (\<forall>d. findPrototype (w_catalog w) (prototypeId (s\<lparr>condition := newCondition\<rparr>)) = Some d \<longrightarrow> category d \<noteq> CategoryWeapon)"
      if "condition (s\<lparr>condition := newCondition\<rparr>) = 0"
      using wear that p s d slot by (auto simp: wear_allowed_def slotHolds_def)
    show "inv_equipment ?p = inv_equipment p \<or> (\<exists>k < length (inv_equipment p). inv_equipment ?p = (inv_equipment p)[k := None])"
      using slot by (auto simp: slotHolds_def)
  qed (simp_all add: i)
  then show ?thesis using inventory_ok_putPlayer [OF ok, of ?p p] p pok(2) restack_ids [OF i(1)] i unfolding w' by simp
qed (use ok in simp)

lemma charge_ok:
  assumes ok: "inventory_ok w" and p: "findInventoryPlayer w player = Some p" and s: "findStack (inv_stacks p) sid = Some s"
    and d: "findPrototype (w_catalog w) (prototypeId s) = Some d" and c: "f s = s\<lparr>enchantmentCharge := c\<rparr>" "c \<le> maxEnchantmentCharge d"
  shows "inventory_ok (putPlayer (p\<lparr>inv_stacks := updateStack sid f (inv_stacks p), inv_revision := nr, inv_tick := tick\<rparr>) w)"
    (is "inventory_ok (putPlayer ?p w)")
proof -
  obtain i where i: "i < length (inv_stacks p)" "inv_stacks p ! i = s" "stackId s = sid"
    "\<forall>f. updateStack sid f (inv_stacks p) = (inv_stacks p)[i := f s]" "validStack (w_catalog w) s"
    by (rule stack_at [OF ok p s])
  have pok: "player_ok (w_catalog w) p" "inv_player p = player" using found_player_ok [OF ok p] by auto
  have "player_ok (w_catalog w) ?p"
  proof (rule player_ok_restack [OF pok(1) i(1)])
    show "inv_stacks ?p = (inv_stacks p)[i := s\<lparr>enchantmentCharge := c\<rparr>]" using i(4) c by simp
    show "validStack (w_catalog w) (s\<lparr>enchantmentCharge := c\<rparr>)" using i(5) d c by (simp add: validStack_def)
  qed (simp_all add: i)
  then show ?thesis using inventory_ok_putPlayer [OF ok, of ?p p] p pok(2) restack_ids [OF i(1)] i c by simp
qed

lemma setEquippedItemEnchantmentCharge_ok:
  assumes ok: "inventory_ok w" and run: "setEquippedItemEnchantmentCharge w player slot sid charge tick = (w', r)"
  shows "inventory_ok w'"
proof (cases "w' = w")
  case False
  then obtain p s d nr where "findInventoryPlayer w player = Some p" "findStack (inv_stacks p) sid = Some s"
    "findPrototype (w_catalog w) (prototypeId s) = Some d" "charge \<le> maxEnchantmentCharge d"
    "w' = putPlayer (p\<lparr>inv_stacks := updateStack sid (\<lambda>s. s\<lparr>enchantmentCharge := charge\<rparr>) (inv_stacks p),
        inv_revision := nr, inv_tick := tick\<rparr>) w"
    using run by (auto simp: setEquippedItemEnchantmentCharge_def not_less split: option.splits if_splits bind_splits)
  then show ?thesis using charge_ok [OF ok] by simp
qed (use ok in simp)

lemma consumeEnchantmentCharge_ok:
  assumes ok: "inventory_ok w" and run: "consumeEnchantmentCharge w player sid expected charge tick = (w', r)"
  shows "inventory_ok w'"
proof (cases "w' = w")
  case False
  then obtain p s d nr where p: "findInventoryPlayer w player = Some p" "findStack (inv_stacks p) sid = Some s"
    "findPrototype (w_catalog w) (prototypeId s) = Some d" and c: "charge \<le> enchantmentCharge s"
    and w': "w' = putPlayer (p\<lparr>inv_stacks := updateStack sid (\<lambda>s. s\<lparr>enchantmentCharge := enchantmentCharge s - charge\<rparr>) (inv_stacks p),
        inv_revision := nr, inv_tick := tick\<rparr>) w"
    using run by (auto simp: consumeEnchantmentCharge_def not_less split: option.splits if_splits)
  have "validStack (w_catalog w) s" by (rule stack_at [OF ok p(1,2)])
  then have "enchantmentCharge s \<le> maxEnchantmentCharge d" using p(3) by (simp add: validStack_def)
  moreover have "unat (enchantmentCharge s - charge) \<le> unat (enchantmentCharge s)"
    unfolding unat_minus_le [OF c] by simp
  ultimately have "enchantmentCharge s - charge \<le> maxEnchantmentCharge d" by (simp only: word_le_nat_alt)
  then show ?thesis unfolding w' by (intro charge_ok [OF ok p]) simp_all
qed (use ok in simp)

lemma count_list_reset:
  "y \<noteq> x \<Longrightarrow> y \<noteq> None \<Longrightarrow> count_list (map (\<lambda>e. if e = x then None else e) es) y = count_list es y"
  by (induction es) auto

lemma player_ok_erase:
  assumes ok: "player_ok cat p" and i: "i < length (inv_stacks p)" and sid: "stackId (inv_stacks p ! i) = sid"
    and q: "inv_stacks q = erase_at i (inv_stacks p)"
      "inv_equipment q = map (\<lambda>e. if e = Some sid then None else e) (inv_equipment p)"
  shows "player_ok cat q"
  unfolding player_ok_iff
proof (intro conjI allI impI)
  fix slot s0
  assume slot: "slot < length (inv_equipment q)" "inv_equipment q ! slot = Some s0"
  then have ne: "s0 \<noteq> sid" and slot': "slot < length (inv_equipment p)" "inv_equipment p ! slot = Some s0"
    using q(2) by (auto split: if_splits)
  have "slot_ok cat (inv_stacks p) (inv_equipment p) slot s0" using ok slot' by (simp add: player_ok_iff)
  moreover have "x \<in> set (erase_at i (inv_stacks p))" if "x \<in> set (inv_stacks p)" "stackId x = s0" for x
    using that ne sid by (intro erase_at_member) auto
  moreover have "count_list (inv_equipment q) (Some s0) = count_list (inv_equipment p) (Some s0)"
    unfolding q(2) using ne by (intro count_list_reset) simp_all
  ultimately show "slot_ok cat (inv_stacks q) (inv_equipment q) slot s0"
    unfolding slot_ok_def q(1) use_count by auto
next
  show "list_all (validStack cat) (inv_stacks q)"
    using ok set_erase_at_subset [of i "inv_stacks p"] q by (auto simp: player_ok_iff list_all_iff)
next
  show "length (inv_stacks q) \<le> MaximumPlayerInventoryStacks"
    using ok q(1) length_erase_at [OF i] by (auto simp: player_ok_iff)
qed (use ok q in \<open>simp_all add: player_ok_iff keys_sorted_erase_at\<close>)

lemma consumeSecurityToolUse_ok:
  assumes ok: "inventory_ok w" and run: "consumeSecurityToolUse w player sid expected cat tick = (w', r)"
  shows "inventory_ok w'"
proof (cases "w' = w")
  case False
  then obtain p i nr where p: "findInventoryPlayer w player = Some p" and i: "find_key stackId (inv_stacks p) sid = Some i"
    and c: "condition (inv_stacks p ! i) \<noteq> 0"
    and w': "w' = putPlayer ((if condition (inv_stacks p ! i) - 1 = 0
         then p\<lparr>inv_equipment := map (\<lambda>e. if e = Some sid then None else e) (inv_equipment p),
                inv_stacks := erase_at i (inv_stacks p)\<rparr>
         else p\<lparr>inv_stacks := (inv_stacks p)[i := (inv_stacks p ! i)\<lparr>condition := condition (inv_stacks p ! i) - 1\<rparr>]\<rparr>)
         \<lparr>inv_revision := nr, inv_tick := tick\<rparr>) w" (is "_ = putPlayer (?q\<lparr>inv_revision := nr, inv_tick := tick\<rparr>) w")
    using run by (auto simp: consumeSecurityToolUse_def Let_def split: option.splits if_splits)
  let ?p = "?q\<lparr>inv_revision := nr, inv_tick := tick\<rparr>" and ?s = "inv_stacks p ! i"
  have il: "i < length (inv_stacks p)" "stackId ?s = sid" using find_key_SomeD [OF i] by auto
  have pok: "player_ok (w_catalog w) p" "inv_player p = player" using found_player_ok [OF ok p] by auto
  have id: "inv_player ?p = player" using pok(2) by simp
  have "player_ok (w_catalog w) ?p \<and> (\<forall>a. stack_sum (has_id a) (inv_stacks ?p) \<le> stack_sum (has_id a) (inv_stacks p))"
  proof (cases "condition ?s - 1 = 0")
    case True
    then have "player_ok (w_catalog w) ?p" by (intro player_ok_erase [OF pok(1) il]) simp_all
    moreover have "stack_sum (has_id a) (erase_at i (inv_stacks p)) \<le> stack_sum (has_id a) (inv_stacks p)" for a
      using sum_erase_at [OF il(1), of "has_id a"] by (simp add: stack_sum_def)
    ultimately show ?thesis using True by simp
  next
    case False
    have v: "validStack (w_catalog w) ?s" using pok(1) il(1) by (simp add: player_ok_iff list_all_length)
    have "1 \<le> condition ?s" using c by (simp add: word_le_nat_alt unat_gt_0 Suc_leI)
    then have "unat (condition ?s - 1) \<le> unat (condition ?s)" by (simp add: unat_minus_le)
    then have "validStack (w_catalog w) (?s\<lparr>condition := condition ?s - 1\<rparr>)"
      using v by (auto simp: validStack_def word_le_nat_alt split: option.splits)
    then have "player_ok (w_catalog w) ?p" using False
      by (intro player_ok_restack [OF pok(1) il(1), of _ "?s\<lparr>condition := condition ?s - 1\<rparr>"]) simp_all
    then show ?thesis using False restack_ids [OF il(1)] by simp
  qed
  then show ?thesis using inventory_ok_putPlayer [OF ok, of ?p p] p id unfolding w' by simp
qed (use ok in simp)

section \<open>New players and containers\<close>

lemma world_sum_insert_player:
  "world_sum f (w\<lparr>w_players := insert_key inv_player q (w_players w)\<rparr>) = world_sum f w + stack_sum f (inv_stacks q)"
  by (simp add: world_sum_split sum_insert_key)

lemma players_ok_insert:
  assumes "players_ok w" and "findInventoryPlayer w (inv_player q) = None" and "length (w_players w) < MaximumInventoryPlayers"
    and "player_ok (w_catalog w) q"
  shows "players_ok (w\<lparr>w_players := insert_key inv_player q (w_players w)\<rparr>)"
proof -
  have s: "keys_sorted inv_player (w_players w)" using assms(1) by (simp add: players_ok_def)
  have "inv_player q \<notin> inv_player ` set (w_players w)"
    using assms(2) lookup_key_None_iff [OF s] by (simp add: findInventoryPlayer_def)
  then show ?thesis using assms keys_sorted_insert_key [OF s] by (simp add: players_ok_def Suc_le_eq)
qed

lemma new_player_ok: "player_ok cat (newPlayerInventory i)"
  by (simp add: player_ok_iff newPlayerInventory_def)

lemma ensurePlayer_ok: "inventory_ok w \<Longrightarrow> inventory_ok (fst (ensurePlayer w i))"
proof -
  assume ok: "inventory_ok w"
  let ?w = "w\<lparr>w_players := insert_key inv_player (newPlayerInventory i) (w_players w)\<rparr>"
  have "inventory_ok ?w" if "findInventoryPlayer w i = None" "length (w_players w) < MaximumInventoryPlayers"
  proof -
    have "ids_ok ?w" using ok world_sum_insert_player [of _ "newPlayerInventory i" w]
      by (simp add: ids_ok_iff inventory_ok_def newPlayerInventory_def)
    moreover have "players_ok ?w"
      using ok that new_player_ok by (intro players_ok_insert) (simp_all add: inventory_ok_def newPlayerInventory_def)
    ultimately show ?thesis using ok by (simp add: inventory_ok_def containers_ok_def items_ok_def)
  qed
  then show ?thesis using ok by (auto simp: ensurePlayer_def)
qed

lemma ensureContainer_ok: "inventory_ok w \<Longrightarrow> inventory_ok (fst (ensureContainer w i cell pos cap))"
proof -
  assume ok: "inventory_ok w"
  let ?c = "\<lparr>con_id = i, con_cell = cell, con_position = pos, con_revision = initial CounterFromOne,
    con_tick = initial CounterFromZero, con_capacity = cap, con_stacks = []\<rparr>"
  let ?w = "w\<lparr>w_containers := insert_key con_id ?c (w_containers w)\<rparr>"
  have "inventory_ok ?w" if none: "findContainer w i = None" and len: "length (w_containers w) < MaximumInventoryContainers"
    and cell: "manifest_contains (w_manifest w) cell"
  proof -
    have s: "keys_sorted con_id (w_containers w)" using ok by (simp add: inventory_ok_def containers_ok_def)
    have "i \<notin> con_id ` set (w_containers w)" using none lookup_key_None_iff [OF s] by (simp add: findContainer_def)
    then have "keys_sorted con_id (insert_key con_id ?c (w_containers w))" using s by (intro keys_sorted_insert_key) simp_all
    moreover have "container_ok (w_manifest w) (w_catalog w) ?c" using cell by (simp add: container_ok_iff load_def)
    ultimately have "containers_ok ?w" using ok len by (simp add: inventory_ok_def containers_ok_def Suc_le_eq)
    moreover have "world_sum f ?w = world_sum f w" for f by (simp add: world_sum_split sum_insert_key)
    then have "ids_ok ?w" using ok by (simp add: ids_ok_iff inventory_ok_def)
    ultimately show ?thesis using ok by (simp add: inventory_ok_def players_ok_def items_ok_def)
  qed
  then show ?thesis using ok by (auto simp: ensureContainer_def not_le split: option.splits)
qed

end
