(* ===== verification/Inventory_Starting.thy ===== *)
theory Inventory_Starting
  imports Inventory_Operations
begin

unbundle bit_operations_syntax

text \<open>
  The starting items of a character: \<^verbatim>\<open>initializePlayerFromCharacter\<close> hands out consecutive fresh stack
  ids, fills each equipment slot at most once, and leaves a valid inventory.
\<close>

definition starting_slot_ok ::
  "ItemPrototypeCatalog \<Rightarrow> CanonicalItemStack list \<Rightarrow> nat \<Rightarrow> ItemStackId \<Rightarrow> bool" where
  "starting_slot_ok cat ss k sid \<longleftrightarrow>
     (\<exists>s \<in> set ss. \<exists>d. stackId s = sid \<and> findPrototype cat (prototypeId s) = Some d
        \<and> slotMask d AND slotToMask (of_nat k) \<noteq> 0 \<and> condition s = maxCondition d)"

text \<open>The loop invariant, \<open>n0\<close> being the first id handed out.\<close>

definition start_ids :: "nat \<Rightarrow> ItemStackId option \<Rightarrow> CanonicalItemStack list \<Rightarrow> bool" where
  "start_ids n0 nid ss \<longleftrightarrow>
     map (\<lambda>s. unat (stackId s)) ss = [n0..<n0 + length ss] \<and> n0 + length ss \<le> 2 ^ 64
     \<and> nid = (if n0 + length ss = 2 ^ 64 then None else Some (of_nat (n0 + length ss)))"

definition start_equipment :: "ItemPrototypeCatalog \<Rightarrow> bool list \<Rightarrow> CanonicalItemStack list \<Rightarrow> ItemStackId option list \<Rightarrow> bool" where
  "start_equipment cat occ ss eq \<longleftrightarrow>
     length eq = unat EquipmentSlotCount \<and> length occ = unat EquipmentSlotCount
     \<and> (\<forall>k < length eq. \<forall>sid. eq ! k = Some sid \<longrightarrow> occ ! k \<and> starting_slot_ok cat ss k sid)
     \<and> (\<forall>sid. count_list eq (Some sid) \<le> 1)"

definition start_inv :: "ItemPrototypeCatalog \<Rightarrow> nat \<Rightarrow> bool list \<Rightarrow> starting_state \<Rightarrow> bool" where
  "start_inv cat n0 occ st \<longleftrightarrow>
     (case st of (nid, ss, eq) \<Rightarrow> start_ids n0 nid ss \<and> list_all (validStack cat) ss \<and> start_equipment cat occ ss eq)"

lemma start_ids_push:
  assumes "start_ids n0 nid ss" and "n0 + length ss < 2 ^ 64" and "stackId s = the nid"
  shows "start_ids n0 (followingStackId (the nid)) (ss @ [s])"
proof -
  let ?m = "n0 + length ss"
  have nid: "the nid = of_nat ?m" using assms(1,2) by (simp add: start_ids_def)
  have u: "unat (of_nat ?m :: u64) = ?m" unfolding unat_of_nat using assms(2) by simp
  have "followingStackId (of_nat ?m) = (if Suc ?m = 2 ^ 64 then None else Some (of_nat (Suc ?m)))"
  proof (cases "Suc ?m = 2 ^ 64")
    case True
    then have "unat (of_nat ?m :: u64) = unat u64_max" using u by simp
    then have max: "(of_nat ?m :: u64) = u64_max" by (simp only: word_unat_eq_iff)
    show ?thesis unfolding followingStackId_def max using True by simp
  next
    case False
    then have "unat (of_nat ?m :: u64) \<noteq> unat u64_max" using u by simp
    then have ne: "(of_nat ?m :: u64) \<noteq> u64_max" by metis
    then have "unat (of_nat ?m + 1 :: u64) \<noteq> 0" using word_Suc_neq_max [OF ne] by simp
    then have "(of_nat ?m + 1 :: u64) \<noteq> 0" by (metis unsigned_0)
    moreover have "(of_nat (Suc ?m) :: u64) = of_nat ?m + 1" by (simp only: of_nat_Suc add.commute)
    ultimately show ?thesis unfolding followingStackId_def fromValue_def using ne False by simp
  qed
  moreover have "map (\<lambda>s. unat (stackId s)) (ss @ [s]) = [n0..<n0 + length (ss @ [s])]"
    using assms u nid by (simp add: start_ids_def del: of_nat_add)
  ultimately show ?thesis using assms(2) unfolding start_ids_def nid by simp
qed

lemma starting_slot_ok_mono: "starting_slot_ok cat ss k sid \<Longrightarrow> starting_slot_ok cat (ss @ ts) k sid"
  by (auto simp: starting_slot_ok_def)

lemma start_equipment_mono: "start_equipment cat occ ss eq \<Longrightarrow> start_equipment cat occ (ss @ ts) eq"
  by (auto simp: start_equipment_def starting_slot_ok_mono)

lemma start_equipment_equip:
  assumes eq: "start_equipment cat occ ss eq" and k: "k < unat EquipmentSlotCount" and free: "\<not> occ ! k"
    and new: "s \<in> set ss" "\<forall>j < length eq. eq ! j \<noteq> Some (stackId s)"
    and d: "findPrototype cat (prototypeId s) = Some d" "slotMask d AND slotToMask (of_nat k) \<noteq> 0" "condition s = maxCondition d"
  shows "start_equipment cat (occ[k := True]) ss (eq[k := Some (stackId s)])"
proof -
  have len: "length eq = unat EquipmentSlotCount" "length occ = unat EquipmentSlotCount" using eq by (simp_all add: start_equipment_def)
  have "eq ! k = None" using eq free k len by (auto simp: start_equipment_def)
  then have "count_list (eq[k := Some (stackId s)]) (Some sid) = count_list eq (Some sid) + of_bool (stackId s = sid)" for sid
    using count_list_update [of k eq "Some (stackId s)" "Some sid"] k len by simp
  moreover have "count_list eq (Some (stackId s)) = 0" using new(2) by (auto simp: count_list_0_iff in_set_conv_nth)
  ultimately have "count_list (eq[k := Some (stackId s)]) (Some sid) \<le> 1" for sid
    using eq by (cases "stackId s = sid") (auto simp: start_equipment_def)
  moreover have "starting_slot_ok cat ss k (stackId s)" using new d by (auto simp: starting_slot_ok_def)
  ultimately show ?thesis using eq len k by (auto simp: start_equipment_def nth_list_update split: if_splits)
qed

section \<open>The allocation loop\<close>

definition starting_stack :: "ItemPrototypeDeclaration \<Rightarrow> StartingItem \<Rightarrow> ItemStackId \<Rightarrow> CanonicalItemStack" where
  "starting_stack d item sid =
     \<lparr>stackId = sid, prototypeId = start_prototype item, stackCount = (if stackable d then start_count item else 1),
      condition = maxCondition d, enchantmentCharge = maxEnchantmentCharge d, soulPrototype = None\<rparr>"

lemma starting_stack_valid:
  "findPrototype cat (start_prototype item) = Some d \<Longrightarrow> start_count item \<noteq> 0 \<Longrightarrow> validStack cat (starting_stack d item sid)"
  by (simp add: validStack_def starting_stack_def)

lemma giveStacks_rest:
  assumes d: "findPrototype cat (start_prototype item) = Some d" "start_count item \<noteq> 0"
  shows "index \<noteq> 0 \<or> start_slot item = None \<Longrightarrow> start_inv cat n0 occ st \<Longrightarrow> n0 + length (fst (snd st)) + n \<le> 2 ^ 64 \<Longrightarrow>
     start_inv cat n0 occ (giveStacks d item index n st)
     \<and> length (fst (snd (giveStacks d item index n st))) = length (fst (snd st)) + n"
proof (induction n arbitrary: index st)
  case (Suc n)
  obtain nid ss eq where st: "st = (nid, ss, eq)" by (cases st)
  let ?s = "starting_stack d item (the nid)"
  let ?st = "(followingStackId (the nid), ss @ [?s], eq)"
  have run: "giveStacks d item index (Suc n) st = giveStacks d item (Suc index) n ?st"
    using Suc.prems(1) by (auto simp: st Let_def starting_stack_def split: option.split)
  have "start_inv cat n0 occ ?st"
    using Suc.prems(2,3) start_ids_push [of n0 nid ss ?s] starting_stack_valid [OF d]
    by (simp add: start_inv_def st start_equipment_mono) (simp add: starting_stack_def)
  then show ?case unfolding run using Suc.IH [of "Suc index" ?st] Suc.prems(3) by (simp add: st del: giveStacks.simps)
qed simp

lemma giveStacks_inv:
  assumes d: "findPrototype cat (start_prototype item) = Some d" "start_count item \<noteq> 0"
    and inv: "start_inv cat n0 occ st" and room: "n0 + length (fst (snd st)) + startingStacks d item \<le> 2 ^ 64"
    and slot: "\<And>slot. start_slot item = Some slot \<Longrightarrow>
        unat slot < length occ \<and> \<not> occ ! unat slot \<and> slotMask d AND slotToMask slot \<noteq> 0"
  shows "start_inv cat n0 (case start_slot item of None \<Rightarrow> occ | Some slot \<Rightarrow> occ[unat slot := True])
           (giveStacks d item 0 (startingStacks d item) st)
     \<and> length (fst (snd (giveStacks d item 0 (startingStacks d item) st))) = length (fst (snd st)) + startingStacks d item"
proof (cases "start_slot item")
  case None
  then show ?thesis using giveStacks_rest [OF d _ inv room, of 0] by simp
next
  case (Some slot)
  obtain nid ss eq where st: "st = (nid, ss, eq)" by (cases st)
  have "startingStacks d item \<noteq> 0" using d(2) by (auto simp: startingStacks_def unat_gt_0)
  then obtain n where n: "startingStacks d item = Suc n" by (cases "startingStacks d item") simp_all
  let ?s = "starting_stack d item (the nid)" and ?occ = "occ[unat slot := True]"
  let ?st = "(followingStackId (the nid), ss @ [?s], eq[unat slot := Some (stackId ?s)])"
  have run: "giveStacks d item 0 (Suc n) st = giveStacks d item 1 n ?st"
    using Some by (simp add: st Let_def starting_stack_def)
  have eq: "start_equipment cat occ (ss @ [?s]) eq" and ids: "start_ids n0 nid ss" and v: "list_all (validStack cat) ss"
    using inv by (simp_all add: start_inv_def st start_equipment_mono)
  have lt: "n0 + length ss < 2 ^ 64" using room n by (simp add: st)
  have "the nid = of_nat (n0 + length ss)" using ids lt by (simp add: start_ids_def)
  then have u: "unat (the nid) = n0 + length ss" using lt by (simp add: unat_of_nat del: of_nat_add)
  have old: "unat (stackId x) < n0 + length ss" if "x \<in> set ss" for x
  proof -
    have "unat (stackId x) \<in> set (map (\<lambda>s. unat (stackId s)) ss)" using that by simp
    also have "map (\<lambda>s. unat (stackId s)) ss = [n0..<n0 + length ss]" using ids by (simp add: start_ids_def)
    finally show ?thesis by simp
  qed
  have new: "\<forall>j < length eq. eq ! j \<noteq> Some (stackId ?s)"
  proof (intro allI impI notI)
    fix j assume "j < length eq" "eq ! j = Some (stackId ?s)"
    then have "starting_slot_ok cat ss j (stackId ?s)" using inv by (simp add: start_inv_def st start_equipment_def)
    then obtain x where "x \<in> set ss" "stackId x = the nid" by (auto simp: starting_slot_ok_def starting_stack_def)
    with old [of x] u show False by simp
  qed
  have slot': "unat slot < unat EquipmentSlotCount" "\<not> occ ! unat slot" "slotMask d AND slotToMask (of_nat (unat slot)) \<noteq> 0"
    using slot [OF Some] eq by (simp_all add: start_equipment_def)
  have "start_equipment cat ?occ (ss @ [?s]) (eq[unat slot := Some (stackId ?s)])"
    by (rule start_equipment_equip [OF eq slot'(1,2) _ new _ slot'(3)]) (simp_all add: starting_stack_def d)
  then have "start_inv cat n0 ?occ ?st"
    using v ids lt start_ids_push [of n0 nid ss ?s] starting_stack_valid [OF d]
    by (simp add: start_inv_def) (simp add: starting_stack_def)
  then show ?thesis
    unfolding n run using giveStacks_rest [OF d, of 1 n0 ?occ ?st n] room Some
    by (simp add: n st del: giveStacks.simps)
qed

lemma checkStartingItems_mono: "checkStartingItems cat required occ items = Some n \<Longrightarrow> required \<le> n"
proof (induction items arbitrary: required occ)
  case (Cons item items)
  then show ?case by (fastforce split: option.splits if_splits dest: add_leD1)
qed simp

lemma giveItems_inv:
  "checkStartingItems cat required occ items = Some total_stacks \<Longrightarrow> start_inv cat n0 occ st \<Longrightarrow>
     length (fst (snd st)) = required \<Longrightarrow> n0 + total_stacks \<le> 2 ^ 64 \<Longrightarrow>
     (\<exists>occ'. start_inv cat n0 occ' (giveItems cat items st)) \<and> length (fst (snd (giveItems cat items st))) = total_stacks"
proof (induction items arbitrary: required occ st)
  case Nil
  then show ?case by auto
next
  case (Cons item items)
  obtain d where d: "findPrototype cat (start_prototype item) = Some d" "start_count item \<noteq> 0"
    using Cons.prems(1) by (auto split: option.splits if_splits)
  let ?occ = "case start_slot item of None \<Rightarrow> occ | Some slot \<Rightarrow> occ[unat slot := True]"
  let ?st = "giveStacks d item 0 (startingStacks d item) st"
  have rest: "checkStartingItems cat (required + startingStacks d item) ?occ items = Some total_stacks"
    using Cons.prems(1) d by (auto split: option.splits if_splits)
  have slot: "unat slot < length occ \<and> \<not> occ ! unat slot \<and> slotMask d AND slotToMask slot \<noteq> 0"
    if "start_slot item = Some slot" for slot
    using Cons.prems(1) d that by (auto simp: not_le split: if_splits)
  have le: "required + startingStacks d item \<le> total_stacks" by (rule checkStartingItems_mono [OF rest])
  have "start_inv cat n0 ?occ ?st \<and> length (fst (snd ?st)) = required + startingStacks d item"
    using giveStacks_inv [OF d Cons.prems(2) _ slot] le Cons.prems(3,4) by simp
  then show ?case using Cons.IH [OF rest, of ?st] Cons.prems(4) d by (simp add: Let_def)
qed

section \<open>The operation\<close>

lemma start_inv_initial:
  "n0 < 2 ^ 64 \<Longrightarrow> start_inv cat n0 (replicate (unat EquipmentSlotCount) False)
     (Some (of_nat n0), [], replicate (unat EquipmentSlotCount) None)"
  by (simp add: start_inv_def start_ids_def start_equipment_def count_list_0_iff)

lemma start_ids_sorted: "start_ids n0 nid ss \<Longrightarrow> keys_sorted stackId ss"
proof -
  assume "start_ids n0 nid ss"
  then have "sorted_wrt (<) (map (\<lambda>s. unat (stackId s)) ss)" by (simp add: start_ids_def)
  then show ?thesis by (simp add: sorted_wrt_map word_less_nat_alt)
qed

lemma start_ids_sum:
  assumes "start_ids n0 nid ss"
  shows "stack_sum (has_id a) ss = of_bool (n0 \<le> unat a \<and> unat a < n0 + length ss)"
proof -
  have set: "unat ` stackId ` set ss = {n0..<n0 + length ss}"
  proof -
    have "set (map (\<lambda>s. unat (stackId s)) ss) = {n0..<n0 + length ss}" using assms by (simp add: start_ids_def)
    then show ?thesis by (simp add: image_image)
  qed
  have "stack_sum (has_id a) ss \<le> 1"
    using keys_sorted_distinct [OF start_ids_sorted [OF assms]] by (simp add: distinct_count_list stack_sum_has_id)
  moreover have "a \<in> stackId ` set ss \<longleftrightarrow> n0 \<le> unat a \<and> unat a < n0 + length ss"
  proof -
    have "a \<in> stackId ` set ss \<longleftrightarrow> unat a \<in> unat ` stackId ` set ss" by (auto simp: image_iff word_unat_eq_iff)
    then show ?thesis unfolding set by simp
  qed
  ultimately show ?thesis using not_id_iff [of a ss] by (cases "a \<in> stackId ` set ss") auto
qed

lemma start_player_ok:
  assumes inv: "start_inv cat n0 occ (nid, ss, eq)" and len: "length ss \<le> MaximumPlayerInventoryStacks"
    and q: "inv_stacks q = ss" "inv_equipment q = eq"
  shows "player_ok cat q"
  unfolding player_ok_iff q
proof (intro conjI allI impI)
  have valid: "list_all (validStack cat) ss" and eq: "start_equipment cat occ ss eq" using inv by (simp_all add: start_inv_def)
  show "keys_sorted stackId ss" using inv start_ids_sorted unfolding start_inv_def by blast
  fix slot sid
  assume slot: "slot < length eq" "eq ! slot = Some sid"
  have "starting_slot_ok cat ss slot sid" using eq slot by (simp add: start_equipment_def)
  then obtain s d where s: "s \<in> set ss" "stackId s = sid" "findPrototype cat (prototypeId s) = Some d"
    "slotMask d AND slotToMask (of_nat slot) \<noteq> 0" "condition s = maxCondition d"
    by (auto simp: starting_slot_ok_def)
  have "stackCount s \<noteq> 0" using valid s(1,3) by (auto simp: list_all_iff validStack_def)
  then have "1 \<le> unat (stackCount s)" by (simp add: unat_gt_0 Suc_le_eq)
  moreover have "count_list eq (Some sid) \<le> 1" using eq by (simp add: start_equipment_def)
  ultimately have "equipmentUseCount eq sid None \<le> unat (stackCount s)" unfolding use_count by (rule order_trans [rotated])
  then show "slot_ok cat ss eq slot sid" using s by (auto simp: slot_ok_def)
qed (use inv len in \<open>simp_all add: start_inv_def start_equipment_def\<close>)

lemma checkStartingItems_limit:
  "checkStartingItems cat required occ items = Some n \<Longrightarrow> required \<le> MaximumPlayerInventoryStacks \<Longrightarrow>
     n \<le> MaximumPlayerInventoryStacks"
proof (induction items arbitrary: required occ)
  case (Cons item items)
  then show ?case by (fastforce split: option.splits if_splits)
qed simp

lemma checkStartingItems_zero: "checkStartingItems cat 0 occ items = Some 0 \<Longrightarrow> items = []"
proof (cases items)
  case (Cons item rest)
  assume check: "checkStartingItems cat 0 occ items = Some 0"
  obtain d occ' where "start_count item \<noteq> 0" "checkStartingItems cat (startingStacks d item) occ' rest = Some 0"
    using check Cons by (auto split: option.splits if_splits)
  moreover have "startingStacks d item \<noteq> 0"
    using \<open>start_count item \<noteq> 0\<close> by (auto simp: startingStacks_def unat_gt_0)
  ultimately show ?thesis using checkStartingItems_mono by fastforce
qed simp

text \<open>Everything the loop produces, whether or not there are starting items.\<close>

lemma giveItems_result:
  assumes check: "checkStartingItems cat 0 (replicate (unat EquipmentSlotCount) False) items = Some required"
    and room: "\<not> (required \<noteq> 0 \<and> (case next0 of None \<Rightarrow> True | Some n \<Rightarrow> required - 1 > unat (u64_max - n)))"
    and run: "giveItems cat items (next0, [], replicate (unat EquipmentSlotCount) None) = (nid, ss, eq)"
  shows "(items = [] \<and> nid = next0 \<and> ss = [] \<and> eq = replicate (unat EquipmentSlotCount) None)
     \<or> (\<exists>n0 occ. next0 = Some n0 \<and> start_inv cat (unat n0) occ (nid, ss, eq) \<and> length ss = required)"
proof (cases "required = 0")
  case True
  then have "items = []" using check checkStartingItems_zero by simp
  then show ?thesis using run by simp
next
  case False
  then obtain n0 where n0: "next0 = Some n0" "required - 1 \<le> unat (u64_max - n0)" using room by (cases next0) auto
  have "unat n0 + required \<le> 2 ^ 64" using n0(2) unat_lt_u64 [of n0] False by (simp add: unat_u64_max_minus del: unat_lt_u64)
  moreover have "start_inv cat (unat n0) (replicate (unat EquipmentSlotCount) False)
      (next0, [], replicate (unat EquipmentSlotCount) None)"
    using start_inv_initial [of "unat n0" cat] n0(1) by simp
  ultimately obtain occ where "start_inv cat (unat n0) occ (nid, ss, eq)" "length ss = required"
    using giveItems_inv [OF check, of "unat n0"] run by fastforce
  with n0(1) show ?thesis by blast
qed

lemma ids_ok_starting:
  assumes ok: "ids_ok w" and n0: "w_nextStackId w = Some n0" and ids: "start_ids (unat n0) nid ss"
    and sum: "\<And>a. world_sum (has_id a) w' = world_sum (has_id a) w + stack_sum (has_id a) ss" and nxt: "w_nextStackId w' = nid"
  shows "ids_ok w'"
  unfolding ids_ok_iff
proof (intro conjI allI impI)
  fix a
  have old: "world_sum (has_id a) w = 0" if "n0 \<le> a" using ok n0 that by (simp add: ids_ok_iff)
  have "world_sum (has_id a) w \<le> 1" using ok by (simp add: ids_ok_iff)
  then show "world_sum (has_id a) w' \<le> 1"
    unfolding sum start_ids_sum [OF ids] using old by (cases "n0 \<le> a") (auto simp: word_le_nat_alt)
next
  fix m a assume m: "w_nextStackId w' = Some m" "m \<le> a"
  have um: "unat m = unat n0 + length ss"
  proof -
    have lt: "unat n0 + length ss < 2 ^ 64" and "m = of_nat (unat n0 + length ss)"
      using ids m(1) nxt by (auto simp: start_ids_def split: if_splits)
    then show ?thesis by (simp add: unat_of_nat del: of_nat_add)
  qed
  then have "n0 \<le> a" and "\<not> unat a < unat n0 + length ss" using m(2) by (auto simp: word_le_nat_alt)
  then show "world_sum (has_id a) w' = 0"
    unfolding sum start_ids_sum [OF ids] using ok n0 by (simp add: ids_ok_iff)
next
  have n0_pos: "n0 \<noteq> 0" using ok n0 by (auto simp: ids_ok_iff)
  show "w_nextStackId w' \<noteq> Some 0"
  proof
    assume "w_nextStackId w' = Some 0"
    then have "unat n0 + length ss < 2 ^ 64" and zero: "(0 :: u64) = of_nat (unat n0 + length ss)"
      using ids nxt by (auto simp: start_ids_def split: if_splits)
    then have "unat (0 :: u64) = unat n0 + length ss" unfolding zero by (simp add: unat_of_nat del: of_nat_add)
    with n0_pos show False by (simp add: unat_eq_zero)
  qed
qed

text \<open>A run that changes the world: the player's new state and where it is written.\<close>

definition startingPlayer ::
  "CanonicalInventoryWorld \<Rightarrow> PlayerId \<Rightarrow> CanonicalPlayerInventoryState" where
  "startingPlayer w player = (case findInventoryPlayer w player of Some p \<Rightarrow> p | None \<Rightarrow> newPlayerInventory player)"

lemma initialize_changeE:
  assumes run: "initializePlayerFromCharacter w player profile items tick = (w', r)" and change: "w' \<noteq> w"
  obtains required nid ss eq nr q where
    "\<forall>p. findInventoryPlayer w player = Some p \<longrightarrow> inv_stacks p = []"
    "findInventoryPlayer w player = None \<longrightarrow> length (w_players w) < MaximumInventoryPlayers"
    "checkStartingItems (w_catalog w) 0 (replicate (unat EquipmentSlotCount) False) items = Some required"
    "\<not> (required \<noteq> 0 \<and> (case w_nextStackId w of None \<Rightarrow> True | Some n \<Rightarrow> required - 1 > unat (u64_max - n)))"
    "giveItems (w_catalog w) items (w_nextStackId w, [], replicate (unat EquipmentSlotCount) None) = (nid, ss, eq)"
    "q = (startingPlayer w player)\<lparr>inv_revision := nr, inv_tick := tick, inv_stacks := ss, inv_equipment := eq,
        inv_profile := Some profile\<rparr>"
    "w' = (if findInventoryPlayer w player = None then w\<lparr>w_players := insert_key inv_player q (w_players w)\<rparr>
           else putPlayer q w)\<lparr>w_nextStackId := nid\<rparr>"
proof -
  obtain nid ss eq where give:
      "giveItems (w_catalog w) items (w_nextStackId w, [], replicate (unat EquipmentSlotCount) None) = (nid, ss, eq)"
    by (metis surj_pair)
  show thesis
    using run change that [of _ nid ss eq] unfolding initializePlayerFromCharacter_def Let_def give
    by (cases "findInventoryPlayer w player")
      (auto simp: startingPlayer_def putPlayer_def not_le split: option.splits if_splits)
qed

lemma initializePlayerFromCharacter_ok:
  assumes ok: "inventory_ok w" and run: "initializePlayerFromCharacter w player profile items tick = (w', r)"
  shows "inventory_ok w'"
proof (cases "w' = w")
  case False
  let ?found = "findInventoryPlayer w player"
  from run False obtain required nid ss eq nr q where
    empty: "\<forall>p. ?found = Some p \<longrightarrow> inv_stacks p = []"
    and limit: "?found = None \<longrightarrow> length (w_players w) < MaximumInventoryPlayers"
    and check: "checkStartingItems (w_catalog w) 0 (replicate (unat EquipmentSlotCount) False) items = Some required"
    and room: "\<not> (required \<noteq> 0 \<and> (case w_nextStackId w of None \<Rightarrow> True | Some n \<Rightarrow> required - 1 > unat (u64_max - n)))"
    and give: "giveItems (w_catalog w) items (w_nextStackId w, [], replicate (unat EquipmentSlotCount) None) = (nid, ss, eq)"
    and q: "q = (startingPlayer w player)\<lparr>inv_revision := nr, inv_tick := tick, inv_stacks := ss, inv_equipment := eq,
        inv_profile := Some profile\<rparr>"
    and w': "w' = (if ?found = None then w\<lparr>w_players := insert_key inv_player q (w_players w)\<rparr>
           else putPlayer q w)\<lparr>w_nextStackId := nid\<rparr>"
    by (rule initialize_changeE)
  note res = giveItems_result [OF check room give]
  have len: "length ss \<le> MaximumPlayerInventoryStacks" using res checkStartingItems_limit [OF check] by auto
  have id: "inv_player q = player"
    using found_player_ok [OF ok] by (auto simp: q startingPlayer_def newPlayerInventory_def split: option.split)
  have qs: "inv_stacks q = ss" "inv_equipment q = eq" by (simp_all add: q)
  have qok: "player_ok (w_catalog w) q"
    using res start_player_ok [OF _ len qs] by (auto simp: player_ok_iff qs)
  have sum: "world_sum f w' = world_sum f w + stack_sum f ss" for f
    using world_sum_putPlayer [of w q _ f] world_sum_insert_player [of f q w] id empty qs
    by (cases ?found) (auto simp: w')
  have "ids_ok w'" using res
  proof
    assume "\<exists>n0 occ. w_nextStackId w = Some n0 \<and> start_inv (w_catalog w) (unat n0) occ (nid, ss, eq) \<and> length ss = required"
    then show ?thesis using ids_ok_starting [of w _ nid ss w'] ok sum by (auto simp: w' start_inv_def inventory_ok_def)
  next
    assume "items = [] \<and> nid = w_nextStackId w \<and> ss = [] \<and> eq = replicate (unat EquipmentSlotCount) None"
    then show ?thesis using ok sum by (simp add: ids_ok_iff inventory_ok_def w')
  qed
  moreover have "players_ok w'"
    using players_ok_insert [of w q] players_ok_putPlayer [of w q] ok qok id limit
    by (cases ?found) (simp_all add: w' inventory_ok_def)
  ultimately show ?thesis using ok by (simp add: inventory_ok_def w' containers_ok_def items_ok_def)
qed (use ok in simp)

end
