(* ===== verification/Inventory_Properties.thy ===== *)
theory Inventory_Properties
  imports Inventory_Starting
begin

unbundle bit_operations_syntax

text \<open>
  The inventory world as a whole: what creation checks and how it restores a stored world, the
  world as a state machine whose reachable states keep the invariant, the conservation of items,
  and the contract of a command guarded by the revision its sender saw.
\<close>

section \<open>Creation\<close>

lemma distinct_allStacks:
  assumes "distinct (map stackId (allStacks ps cs ws))"
  shows "p \<in> set ps \<Longrightarrow> distinct (map stackId (inv_stacks p))"
    and "c \<in> set cs \<Longrightarrow> distinct (map stackId (con_stacks c))"
    and "distinct (map wi_id ws)"
  using assms by (auto simp: allStacks_def map_concat comp_def distinct_concat_iff)

lemma last_sorted_max: "sorted xs \<Longrightarrow> x \<in> set xs \<Longrightarrow> x \<le> last (xs :: 'a::linorder list)"
  by (induction xs) (auto simp: last_in_set)

lemma next_id_above:
  assumes ids: "stackIds = sort (map stackId ss)" and m: "m = (if stackIds = [] then 0 else last stackIds)"
    and given: "\<not> (case nid of None \<Rightarrow> False | Some n \<Rightarrow> n \<le> m)"
    and n: "(if nid = None \<and> m \<noteq> u64_max then fromValue Identity (m + 1) else nid) = Some n"
  shows "n \<noteq> 0" and "s \<in> set ss \<Longrightarrow> stackId s < n"
proof -
  have "m < n"
  proof (cases "nid = None \<and> m \<noteq> u64_max")
    case True
    then have "n = m + 1" using n by (auto simp: fromValue_def split: if_splits)
    then show ?thesis using True by (simp add: word_less_nat_alt word_Suc_neq_max)
  qed (use given n in \<open>auto simp: not_le\<close>)
  then show "n \<noteq> 0" by auto
  show "stackId s < n" if s: "s \<in> set ss"
  proof -
    have "stackId s \<le> m" using s last_sorted_max [of stackIds "stackId s"] by (auto simp: m ids)
    then show ?thesis using \<open>m < n\<close> by (rule order.strict_trans1)
  qed
qed

lemma checks_passed:
  "(if a then None else if b then None else if c then None else if d then None else if e then None
     else if f then None else Some x) = Some w \<longleftrightarrow> \<not> a \<and> \<not> b \<and> \<not> c \<and> \<not> d \<and> \<not> e \<and> \<not> f \<and> w = x"
  by auto

lemma created_ok:
  assumes create: "createInventoryWorld m cat ps cs ws nid = Some w"
    and arrays: "\<forall>p \<in> set ps. length (inv_equipment p) = unat EquipmentSlotCount"
  shows "inventory_ok w"
proof -
  let ?ps = "map (\<lambda>p. p\<lparr>inv_stacks := sort_key stackId (inv_stacks p)\<rparr>) (sort_key inv_player ps)"
  let ?cs = "map (\<lambda>c. c\<lparr>con_stacks := sort_key stackId (con_stacks c)\<rparr>) (sort_key con_id cs)"
  let ?ws = "sort_key wi_id ws"
  let ?ids = "sort (map stackId (allStacks ?ps ?cs ?ws))"
  let ?m = "if ?ids = [] then 0 else last ?ids"
  note c = create [unfolded createInventoryWorld_def Let_def checks_passed]
  have g: "cat_manifestId cat = mId m" "length ps \<le> MaximumInventoryPlayers" "length cs \<le> MaximumInventoryContainers"
      "length ws \<le> MaximumWorldItemStacks" "no_adjacent_equal (map inv_player ?ps)" "list_all (playerValid cat) ?ps"
      "no_adjacent_equal (map con_id ?cs)" "list_all (containerValid m cat) ?cs" "list_all (worldItemValid m cat) ?ws"
      "no_adjacent_equal ?ids" "\<not> (case nid of None \<Rightarrow> False | Some n \<Rightarrow> n \<le> ?m)"
    and w: "w = \<lparr>w_manifest = m, w_catalog = cat, w_players = ?ps, w_containers = ?cs, w_worldItems = ?ws,
      w_nextStackId = (if nid = None \<and> ?m \<noteq> u64_max then fromValue Identity (?m + 1) else nid)\<rparr>"
    using c unfolding not_less [symmetric] by blast+
  have d: "distinct (map stackId (allStacks ?ps ?cs ?ws))" using g(10) by (simp add: sorted_no_adjacent_equal_iff)
  have players: "keys_sorted inv_player ?ps" using g(5) by (simp add: comp_def sort_key_strict)
  have containers: "keys_sorted con_id ?cs" using g(7) by (simp add: comp_def sort_key_strict)
  have "keys_sorted stackId (inv_stacks p)" if "p \<in> set ?ps" for p
    using distinct_allStacks(1) [OF d that] that by (auto simp: keys_sorted_sort_key distinct_sort_key)
  moreover have "keys_sorted stackId (con_stacks c)" if "c \<in> set ?cs" for c
    using distinct_allStacks(2) [OF d that] that by (auto simp: keys_sorted_sort_key distinct_sort_key)
  moreover have "keys_sorted wi_id ?ws"
    using distinct_allStacks(3) [OF d] by (simp add: keys_sorted_sort_key distinct_sort_key)
  moreover have "ids_ok w"
    using d next_id_above [OF refl refl g(11)] by (simp add: ids_ok_def world_stacks_def w)
  ultimately show ?thesis
    using g players containers arrays
    by (simp add: inventory_ok_def inventory_parts w player_ok_def container_ok_def list_all_iff)
qed

lemma sort_key_sorted: "keys_sorted key xs \<Longrightarrow> sort_key key xs = xs"
  by (simp add: sort_key_id_if_sorted strict_sorted_imp_sorted)

lemma resort_players: "players_ok w \<Longrightarrow> map (\<lambda>p. p\<lparr>inv_stacks := sort_key stackId (inv_stacks p)\<rparr>) (sort_key inv_player (w_players w)) = w_players w"
  by (auto simp: players_ok_def player_ok_def sort_key_sorted intro: map_idI)

lemma resort_containers: "containers_ok w \<Longrightarrow> map (\<lambda>c. c\<lparr>con_stacks := sort_key stackId (con_stacks c)\<rparr>) (sort_key con_id (w_containers w)) = w_containers w"
  by (auto simp: containers_ok_def container_ok_def sort_key_sorted intro: map_idI)

text \<open>
  Restoring starts again from the next id that was stored. Where none was stored because the ids had run out,
  it starts above the ids still in use, if the largest id is not among them.
\<close>

definition restored_next_id :: "CanonicalInventoryWorld \<Rightarrow> ItemStackId option \<Rightarrow> bool" where
  "restored_next_id w nid \<longleftrightarrow>
     (case w_nextStackId w of
        Some n \<Rightarrow> nid = Some n
      | None \<Rightarrow> (case nid of Some n \<Rightarrow> n \<noteq> 0 \<and> (\<forall>s \<in> set (world_stacks w). stackId s < n)
                  | None \<Rightarrow> \<exists>s \<in> set (world_stacks w). stackId s = u64_max))"

lemma next_id_restored:
  assumes ids: "ids_ok w" and stackIds: "stackIds = sort (map stackId (world_stacks w))"
    and m: "m = (if stackIds = [] then 0 else last stackIds)"
  shows "\<not> (case w_nextStackId w of None \<Rightarrow> False | Some n \<Rightarrow> n \<le> m)"
    and "restored_next_id w (if w_nextStackId w = None \<and> m \<noteq> u64_max then fromValue Identity (m + 1) else w_nextStackId w)"
proof -
  have used: "m \<in> stackId ` set (world_stacks w)" if "m \<noteq> 0"
    using last_in_set [of stackIds] that by (auto simp: m stackIds split: if_splits)
  show given: "\<not> (case w_nextStackId w of None \<Rightarrow> False | Some n \<Rightarrow> n \<le> m)"
    using ids used by (cases "m = 0") (auto simp: ids_ok_def not_le word_neq_0_conv split: option.splits)
  show "restored_next_id w (if w_nextStackId w = None \<and> m \<noteq> u64_max then fromValue Identity (m + 1) else w_nextStackId w)"
  proof (cases "w_nextStackId w = None \<and> m = u64_max")
    case True
    then have "m \<noteq> 0" by (simp add: u64_max_def)
    with True used show ?thesis by (force simp: restored_next_id_def)
  next
    case False
    have "m \<noteq> u64_max \<Longrightarrow> m + 1 \<noteq> 0" using word_Suc_neq_max [of m] by auto
    with False obtain n where n: "(if w_nextStackId w = None \<and> m \<noteq> u64_max then fromValue Identity (m + 1) else w_nextStackId w) = Some n"
      by (cases "w_nextStackId w") (auto simp: fromValue_def)
    show ?thesis unfolding n using next_id_above [OF stackIds m given n] n
      by (auto simp: restored_next_id_def split: option.split if_splits)
  qed
qed

lemma restored_lemma:
  assumes ok: "inventory_ok w"
  shows "\<exists>nid. createInventoryWorld (w_manifest w) (w_catalog w) (w_players w) (w_containers w) (w_worldItems w) (w_nextStackId w)
      = Some (w\<lparr>w_nextStackId := nid\<rparr>) \<and> restored_next_id w nid"
proof -
  have parts: "players_ok w" "containers_ok w" "items_ok w" and ids: "ids_ok w" and cat: "cat_manifestId (w_catalog w) = mId (w_manifest w)"
    using ok by (simp_all add: inventory_ok_def)
  have items: "sort_key wi_id (w_worldItems w) = w_worldItems w" using parts(3) by (simp add: items_ok_def sort_key_sorted)
  let ?ids = "sort (map stackId (allStacks (w_players w) (w_containers w) (w_worldItems w)))"
  have d: "no_adjacent_equal ?ids" using ids by (simp add: sorted_no_adjacent_equal_iff ids_ok_def world_stacks_def)
  let ?m = "if ?ids = [] then 0 else last ?ids"
  let ?nid = "if w_nextStackId w = None \<and> ?m \<noteq> u64_max then fromValue Identity (?m + 1) else w_nextStackId w"
  note fresh = next_id_restored [OF ids refl refl, unfolded world_stacks_def]
  have sorted: "no_adjacent_equal (map inv_player (w_players w))" "no_adjacent_equal (map con_id (w_containers w))"
    using parts by (simp_all add: inventory_parts sorted_no_adjacent_equal_iff strict_sorted_iff)
  have valid: "list_all (playerValid (w_catalog w)) (w_players w)" "list_all (containerValid (w_manifest w) (w_catalog w)) (w_containers w)"
      "list_all (worldItemValid (w_manifest w) (w_catalog w)) (w_worldItems w)"
      "length (w_players w) \<le> MaximumInventoryPlayers" "length (w_containers w) \<le> MaximumInventoryContainers"
      "length (w_worldItems w) \<le> MaximumWorldItemStacks"
    using parts by (auto simp: inventory_parts player_ok_def container_ok_def list_all_iff)
  have "createInventoryWorld (w_manifest w) (w_catalog w) (w_players w) (w_containers w) (w_worldItems w) (w_nextStackId w)
      = Some (w\<lparr>w_nextStackId := ?nid\<rparr>)"
    unfolding createInventoryWorld_def Let_def resort_players [OF parts(1)] resort_containers [OF parts(2)] items checks_passed
    using cat sorted valid d fresh(1) by (simp only: not_less simp_thms) simp
  with fresh(2) show ?thesis by blast
qed

section \<open>Transactions\<close>

text \<open>The players of the server stand in cells of the manifest.\<close>

definition cells_known :: "ContentManifest \<Rightarrow> CanonicalServerState \<Rightarrow> bool" where
  "cells_known m state \<longleftrightarrow> (\<forall>i p. findPlayer state i = Some p \<longrightarrow> manifest_contains m (t_cell (transform p)))"

lemma transact_branch:
  assumes ok: "inventory_ok w" and cells: "cells_known (w_manifest w) state"
    and run: "transact w state cmd ctx tick = Inr (w', r)"
  shows "branch_ok w (cmd_player cmd) w'"
proof -
  obtain ps p where ps: "findPlayer state (cmd_player cmd) = Some ps" and p: "findInventoryPlayer w (cmd_player cmd) = Some p"
    using run by (auto simp: transact_def split: option.splits)
  have id: "inv_player p = cmd_player cmd" using found_player_ok [OF ok p] by simp
  have p': "findInventoryPlayer w (inv_player p) = Some p" using p id by simp
  have cell: "manifest_contains (w_manifest w) (t_cell (transform ps))" using cells ps by (simp add: cells_known_def)
  note run' = run [unfolded transact_def ps p prod.case option.case]
  have n: "cmd_count cmd \<noteq> 0" if "transfersCount (cmd_kind cmd)" using run' that by (auto split: if_splits)
  show ?thesis
  proof (cases "cmd_kind cmd = UnequipItem")
    case True
    then show ?thesis using run' unequip_branch [OF ok p'] id by (auto split: if_splits)
  next
    case False
    then obtain d where d: "findPrototype (w_catalog w) (cmd_prototype cmd) = Some d" using run' by (auto split: if_splits option.splits)
    show ?thesis using run' False d n id cell
        take_branch [OF ok p'] put_branch [OF ok p' _ d] drop_branch [OF ok p'] pickup_branch [OF ok p'] equip_branch [OF ok p' d]
      by (cases "cmd_kind cmd") (auto simp: transfersCount_def split: if_splits)
  qed
qed

lemma apply_branch:
  assumes "inventory_ok w" and "cells_known (w_manifest w) state"
    and "applyInventoryTransaction w state cmd ctx tick = (w', out)"
  shows "branch_ok w (cmd_player cmd) w'"
proof (cases "transact w state cmd ctx tick")
  case (Inl code)
  then show ?thesis using assms by (simp add: applyInventoryTransaction_def branch_ok_def)
next
  case (Inr r)
  then show ?thesis using assms transact_branch [OF assms(1,2)] by (cases r) (simp add: applyInventoryTransaction_def)
qed

section \<open>Revisions\<close>

text \<open>The codes a branch may report when it refuses: those of the guards before it are not among them.\<close>

definition branch_code :: "InventoryTransactionResultCode \<Rightarrow> bool" where
  "branch_code code \<longleftrightarrow> code \<notin> {InvSuccess, InvPlayerNotFound, StaleInventoryRevision}"

lemma accessContainer_failure: "accessContainer w tr cmd ctx tick = Inl code \<Longrightarrow> branch_code code"
  by (auto simp: branch_code_def accessContainer_def reachCheck_def split: option.splits if_splits)

lemma take_failure: "takeFromContainer w p tr cmd ctx tick = Inl code \<Longrightarrow> branch_code code"
  by (auto simp: branch_code_def takeFromContainer_def Let_def split: sum.splits option.splits if_splits prod.splits dest: accessContainer_failure)

lemma put_failure: "putIntoContainer w p tr d cmd ctx tick = Inl code \<Longrightarrow> branch_code code"
  by (auto simp: branch_code_def putIntoContainer_def Let_def split: sum.splits option.splits if_splits prod.splits dest: accessContainer_failure)

lemma drop_failure: "dropItem w p tr cmd ctx tick = Inl code \<Longrightarrow> branch_code code"
  by (auto simp: branch_code_def dropItem_def Let_def split: option.splits if_splits prod.splits)

lemma pickup_failure: "pickupItem w p tr cmd ctx tick = Inl code \<Longrightarrow> branch_code code"
  by (auto simp: branch_code_def pickupItem_def Let_def reachCheck_def split: option.splits if_splits prod.splits)

lemma equip_failure: "equipItem w p d cmd tick = Inl code \<Longrightarrow> branch_code code"
  by (auto simp: branch_code_def equipItem_def Let_def split: option.splits if_splits)

lemma unequip_failure: "unequipItem w p cmd tick = Inl code \<Longrightarrow> branch_code code"
  by (auto simp: branch_code_def unequipItem_def split: option.splits if_splits)

lemmas branch_failures = take_failure put_failure drop_failure pickup_failure equip_failure unequip_failure

lemma transact_refusals:
  "transact w state cmd ctx tick = Inl code \<Longrightarrow>
     (code = InvPlayerNotFound \<longleftrightarrow> findPlayer state (cmd_player cmd) = None \<or> findInventoryPlayer w (cmd_player cmd) = None)
     \<and> (code = StaleInventoryRevision \<longleftrightarrow>
         (\<exists>ps p. findPlayer state (cmd_player cmd) = Some ps \<and> findInventoryPlayer w (cmd_player cmd) = Some p
            \<and> inv_revision p \<noteq> cmd_expectedInventory cmd))"
  by (auto simp: transact_def branch_code_def split: option.splits if_splits InventoryTransactionKind.splits dest: branch_failures)

lemma transact_failure: "transact w state cmd ctx tick = Inl code \<Longrightarrow> code \<noteq> InvSuccess"
  by (auto simp: transact_def branch_code_def split: option.splits if_splits InventoryTransactionKind.splits dest: branch_failures)

lemma transact_guards:
  "transact w state cmd ctx tick = Inr (w', r) \<Longrightarrow>
     (\<exists>ps p. findPlayer state (cmd_player cmd) = Some ps \<and> findInventoryPlayer w (cmd_player cmd) = Some p
        \<and> inv_revision p = cmd_expectedInventory cmd)
     \<and> (transfersCount (cmd_kind cmd) \<longrightarrow> cmd_count cmd \<noteq> 0 \<and> cmd_count cmd \<le> MaximumTransferCount)"
  by (auto simp: transact_def not_less split: option.splits if_splits)

lemma split_players: "splitStack w new s n = (w1, t) \<Longrightarrow> players_sorted w1 = players_sorted w \<and> findInventoryPlayer w1 = findInventoryPlayer w"
  by (auto simp: splitStack_def allocateNextStackId_def players_sorted_def findInventoryPlayer_def fun_eq_iff split: if_splits)

text \<open>A branch that changes the world writes the player back with the next revision.\<close>

definition writes_player :: "CanonicalInventoryWorld \<Rightarrow> CanonicalPlayerInventoryState \<Rightarrow> CanonicalInventoryWorld \<Rightarrow> bool" where
  "writes_player w p w' \<longleftrightarrow> w' = w \<or> players_sorted w' \<and> player_revision w' (inv_player p) = Suc (unat (inv_revision p))"

lemma writes_player_put:
  assumes "players_sorted w1" and "findInventoryPlayer w1 (inv_player q) = Some p" and "next_value (inv_revision p0) = Some (inv_revision q)"
  shows "players_sorted (putPlayer q w1) \<and> player_revision (putPlayer q w1) (inv_player q) = Suc (unat (inv_revision p0))"
  using inventory_players.invar_replace [OF assms(1)] player_revision_put [OF assms(1,2)] next_value_unat [OF assms(3)] by simp

lemma take_writes:
  assumes s: "players_sorted w" and p: "findInventoryPlayer w (inv_player p) = Some p"
    and run: "takeFromContainer w p tr cmd ctx tick = Inr (w', r)"
  shows "writes_player w p w'"
  using run
proof (rule take_InrE)
  fix c i dest w1 t np nc
  assume t: "transfer_ok w (con_stacks c) (inv_stacks p) i dest (cmd_count cmd) w1 t" and np: "next_value (inv_revision p) = Some np"
    and w': "w' = putContainer (c\<lparr>con_stacks := takeOut i (cmd_count cmd) (con_stacks c), con_revision := nc, con_tick := tick\<rparr>)
       (putPlayer (p\<lparr>inv_stacks := putIn dest t (inv_stacks p), inv_revision := np, inv_tick := tick\<rparr>) w1)" (is "_ = putContainer _ (putPlayer ?p w1)")
  then show ?thesis
    using writes_player_put [of w1 ?p p p] s p by (simp add: writes_player_def transfer_world [OF t])
qed

lemma put_writes:
  assumes s: "players_sorted w" and p: "findInventoryPlayer w (inv_player p) = Some p"
    and run: "putIntoContainer w p tr d cmd ctx tick = Inr (w', r)"
  shows "writes_player w p w'"
  using run
proof (rule put_InrE)
  fix c i dest w1 t np nc
  assume t: "transfer_ok w (inv_stacks p) (con_stacks c) i dest (cmd_count cmd) w1 t" and np: "next_value (inv_revision p) = Some np"
    and w': "w' = putPlayer (p\<lparr>inv_stacks := takeOut i (cmd_count cmd) (inv_stacks p), inv_revision := np, inv_tick := tick\<rparr>)
       (putContainer (c\<lparr>con_stacks := putIn dest t (con_stacks c), con_revision := nc, con_tick := tick\<rparr>) w1)" (is "_ = putPlayer ?p (putContainer ?c w1)")
  then show ?thesis
    using writes_player_put [of "putContainer ?c w1" ?p p p] s p by (simp add: writes_player_def transfer_world [OF t])
qed

lemma drop_writes:
  assumes s: "players_sorted w" and p: "findInventoryPlayer w (inv_player p) = Some p"
    and run: "dropItem w p tr cmd ctx tick = Inr (w', r)"
  shows "writes_player w p w'"
  using run
proof (rule drop_InrE)
  fix i w1 t np
  assume sp: "splitStack w (stackCount (inv_stacks p ! i) \<noteq> cmd_count cmd) (inv_stacks p ! i) (cmd_count cmd) = (w1, t)"
    and np: "next_value (inv_revision p) = Some np"
    and w': "w' = (putPlayer (p\<lparr>inv_stacks := takeOut i (cmd_count cmd) (inv_stacks p), inv_revision := np, inv_tick := tick\<rparr>) w1)
       \<lparr>w_worldItems := insert_key wi_id \<lparr>wi_stack = t, wi_cell = t_cell tr, wi_position = cmd_origin cmd,
          wi_revision = initial CounterFromOne, wi_tick = tick\<rparr> (w_worldItems w1)\<rparr>" (is "_ = (putPlayer ?p w1)\<lparr>w_worldItems := _\<rparr>")
  then show ?thesis
    using writes_player_put [of w1 ?p p p] s p split_players [OF sp] by (simp add: writes_player_def)
qed

lemma pickup_writes:
  assumes s: "players_sorted w" and p: "findInventoryPlayer w (inv_player p) = Some p"
    and run: "pickupItem w p tr cmd ctx tick = Inr (w', r)"
  shows "writes_player w p w'"
  using run
proof (rule pickup_InrE)
  fix k item dest w1 t np
  assume t: "transfer_ok w [wi_stack item] (inv_stacks p) 0 dest (cmd_count cmd) w1 t" and np: "next_value (inv_revision p) = Some np"
    and w': "w' = (putPlayer (p\<lparr>inv_stacks := putIn dest t (inv_stacks p), inv_revision := np, inv_tick := tick\<rparr>) w1)
       \<lparr>w_worldItems := (if stackCount (wi_stack item) = cmd_count cmd then erase_at k (w_worldItems w1)
           else (w_worldItems w1)[k := item\<lparr>wi_stack := (wi_stack item)\<lparr>stackCount := stackCount (wi_stack item) - cmd_count cmd\<rparr>,
                                     wi_revision := the (next_value (wi_revision item)), wi_tick := tick\<rparr>])\<rparr>" (is "_ = (putPlayer ?p w1)\<lparr>w_worldItems := _\<rparr>")
  then show ?thesis
    using writes_player_put [of w1 ?p p p] s p by (simp add: writes_player_def transfer_world [OF t])
qed

lemma equipment_writes:
  assumes "players_sorted w" and "findInventoryPlayer w (inv_player p) = Some p" and "next_value (inv_revision p) = Some nr"
  shows "writes_player w p (putPlayer (p\<lparr>inv_equipment := eq, inv_revision := nr, inv_tick := tick\<rparr>) w)"
  using writes_player_put [of w "p\<lparr>inv_equipment := eq, inv_revision := nr, inv_tick := tick\<rparr>" p p] assms
  by (simp add: writes_player_def)

lemma same_writes: "writes_player w p w"
  by (simp add: writes_player_def)

lemma equip_writes:
  assumes s: "players_sorted w" and p: "findInventoryPlayer w (inv_player p) = Some p"
  shows "equipItem w p d cmd tick = Inr (w', r) \<Longrightarrow> writes_player w p w'"
    and "unequipItem w p cmd tick = Inr (w', r) \<Longrightarrow> writes_player w p w'"
  by (auto simp: equipItem_def unequipItem_def Let_def split: option.splits if_splits
      intro: same_writes equipment_writes [OF s p])

lemma transact_writes:
  assumes s: "players_sorted w" and run: "transact w state cmd ctx tick = Inr (w', r)"
  obtains p where "findInventoryPlayer w (cmd_player cmd) = Some p" "inv_player p = cmd_player cmd"
    "inv_revision p = cmd_expectedInventory cmd" "writes_player w p w'"
proof -
  obtain ps p where ps: "findPlayer state (cmd_player cmd) = Some ps" and p: "findInventoryPlayer w (cmd_player cmd) = Some p"
    using run by (auto simp: transact_def split: option.splits)
  have id: "inv_player p = cmd_player cmd" using inventory_players.lookup_keyD [OF s p] .
  have p': "findInventoryPlayer w (inv_player p) = Some p" using p id by simp
  note run' = run [unfolded transact_def ps p prod.case option.case]
  have "writes_player w p w'"
    using run' take_writes [OF s p'] put_writes [OF s p'] drop_writes [OF s p'] pickup_writes [OF s p'] equip_writes [OF s p']
    by (auto split: if_splits option.splits InventoryTransactionKind.splits)
  moreover have "inv_revision p = cmd_expectedInventory cmd" using run' by (auto split: if_splits)
  ultimately show thesis using p id that by blast
qed

lemma apply_cases:
  assumes s: "players_sorted w" and run: "applyInventoryTransaction w state cmd ctx tick = (w', out)"
  obtains (fail) "w' = w" "out_code out \<noteq> InvSuccess"
    | (success) p where "out_code out = InvSuccess" "findInventoryPlayer w (cmd_player cmd) = Some p" "inv_player p = cmd_player cmd"
        "inv_revision p = cmd_expectedInventory cmd" "writes_player w p w'"
proof (cases "transact w state cmd ctx tick")
  case (Inl code)
  then have "w' = w" and "out_code out = code" using run by (auto simp: applyInventoryTransaction_def makeOutcome_def)
  with transact_failure [OF Inl] fail show thesis by simp
next
  case (Inr r)
  obtain w2 x where r: "r = (w2, x)" by (cases r)
  have "w2 = w'" and ok: "out_code out = InvSuccess"
    using run Inr by (auto simp: r applyInventoryTransaction_def makeOutcome_def Let_def split: if_splits)
  with Inr r have t: "transact w state cmd ctx tick = Inr (w', x)" by simp
  show thesis by (rule transact_writes [OF s t]) (rule success [OF ok])
qed

interpretation inventory_commands: revisioned_handler
  "\<lambda>(state, ctx, tick) w cmd. applyInventoryTransaction w state cmd ctx tick" "\<lambda>out. out_code out = InvSuccess"
  players_sorted "\<lambda>w cmd. player_revision w (cmd_player cmd)" "\<lambda>cmd. unat (cmd_expectedInventory cmd)"
proof (unfold_locales, goal_cases)
  case (1 w e cmd w' out)
  then show ?case by (auto elim: apply_cases split: prod.splits)
next
  case (2 w e cmd w' out)
  then show ?case by (auto elim!: apply_cases simp: player_revision_def split: prod.splits)
next
  case (3 w e cmd w' out)
  then show ?case by (auto elim!: apply_cases simp: player_revision_def writes_player_def split: prod.splits)
next
  case (4 w e cmd w' out)
  obtain state ctx tick where e: "e = (state, ctx, tick)" by (cases e)
  then have "applyInventoryTransaction w state cmd ctx tick = (w', out)" using 4(2) by simp
  with 4(1) show ?case by (rule apply_cases) (use 4(1) in \<open>auto simp: writes_player_def\<close>)
qed

section \<open>The inventory world as a state machine\<close>

text \<open>
  Every operation of the world that changes state, with the circumstances under which the server
  calls it: transactions only while players stand in known cells, wear to zero only together with
  taking a weapon out of the right hand.
\<close>

inductive inventory_step :: "CanonicalInventoryWorld \<Rightarrow> CanonicalInventoryWorld \<Rightarrow> bool" where
  step_transaction: "cells_known (w_manifest w) state \<Longrightarrow>
     inventory_step w (fst (applyInventoryTransaction w state cmd ctx tick))"
| step_ensurePlayer: "inventory_step w (fst (ensurePlayer w player))"
| step_ensureContainer: "inventory_step w (fst (ensureContainer w container cell position capacity))"
| step_initialize: "inventory_step w (fst (initializePlayerFromCharacter w player profile items tick))"
| step_condition: "wear_allowed w player slot sid newCondition unequip \<Longrightarrow>
     inventory_step w (fst (setEquippedItemCondition w player slot sid newCondition unequip tick))"
| step_charge: "inventory_step w (fst (setEquippedItemEnchantmentCharge w player slot sid charge tick))"
| step_tool: "inventory_step w (fst (consumeSecurityToolUse w player sid expected toolCategory tick))"
| step_use: "inventory_step w (fst (consumeEnchantmentCharge w player sid expected charge tick))"

inductive inventory_reachable :: "CanonicalInventoryWorld \<Rightarrow> bool" where
  reachable_created: "createInventoryWorld m cat ps cs ws nid = Some w \<Longrightarrow>
     \<forall>p \<in> set ps. length (inv_equipment p) = unat EquipmentSlotCount \<Longrightarrow> inventory_reachable w"
| reachable_step: "inventory_reachable w \<Longrightarrow> inventory_step w w' \<Longrightarrow> inventory_reachable w'"

lemma inventory_step_ok: "inventory_step w w' \<Longrightarrow> inventory_ok w \<Longrightarrow> inventory_ok w'"
proof (induction rule: inventory_step.induct)
  case (step_transaction w state cmd ctx tick)
  obtain w' out where run: "applyInventoryTransaction w state cmd ctx tick = (w', out)" by fastforce
  with apply_branch [OF step_transaction(2,1) run] show ?case by (simp add: branch_ok_def)
next
  case (step_initialize w player profile items tick)
  then show ?case using initializePlayerFromCharacter_ok by (metis prod.collapse)
next
  case (step_condition w player slot sid newCondition unequip tick)
  then show ?case using setEquippedItemCondition_ok by (metis prod.collapse)
next
  case (step_charge w player slot sid charge tick)
  then show ?case using setEquippedItemEnchantmentCharge_ok by (metis prod.collapse)
next
  case (step_tool w player sid expected toolCategory tick)
  then show ?case using consumeSecurityToolUse_ok by (metis prod.collapse)
next
  case (step_use w player sid expected charge tick)
  then show ?case using consumeEnchantmentCharge_ok by (metis prod.collapse)
qed (simp_all add: ensurePlayer_ok ensureContainer_ok)

lemma reachable_ok: "inventory_reachable w \<Longrightarrow> inventory_ok w"
  by (induction rule: inventory_reachable.induct) (blast intro: created_ok inventory_step_ok)+

section \<open>Reach\<close>

lemma reachCheck_None:
  "reachCheck body origin target reach = None \<Longrightarrow> positionsWithinReach body target reach
     \<and> positionsWithinReach origin target reach \<and> positionsWithinReach body origin reach"
  by (auto simp: reachCheck_def split: if_splits)

lemma container_access:
  assumes "transact w state cmd ctx tick = Inr (w', r)" and "cmd_kind cmd = TakeFromContainer \<or> cmd_kind cmd = PutIntoContainer"
  obtains ps c where "findPlayer state (cmd_player cmd) = Some ps" "accessContainer w (transform ps) cmd ctx tick = Inr c"
proof -
  obtain ps p where ps: "findPlayer state (cmd_player cmd) = Some ps" and p: "findInventoryPlayer w (cmd_player cmd) = Some p"
    using assms(1) by (auto simp: transact_def split: option.splits)
  note run = assms(1) [unfolded transact_def ps p prod.case option.case]
  obtain d where "findPrototype (w_catalog w) (cmd_prototype cmd) = Some d"
    using run assms(2) by (auto split: if_splits option.splits)
  then have "takeFromContainer w p (transform ps) cmd ctx tick = Inr (w', r) \<or> putIntoContainer w p (transform ps) d cmd ctx tick = Inr (w', r)"
    using run assms(2) by (auto split: if_splits)
  then obtain c where "accessContainer w (transform ps) cmd ctx tick = Inr c" by (elim disjE take_InrE put_InrE)
  with ps that show thesis by blast
qed

section \<open>Keys\<close>

lemma distinct_remdups_adj_sorted: "sorted xs \<Longrightarrow> distinct (remdups_adj (xs :: 'a::linorder list))"
  by (induction xs rule: remdups_adj.induct) auto

lemma set_map_filter_iff: "set (List.map_filter f xs) = {y. \<exists>x \<in> set xs. f x = Some y}"
  by (force simp: map_filter_def image_iff)

section \<open>Sample world\<close>

definition sample_coin :: ItemPrototypeDeclaration where
  "sample_coin = \<lparr>decl_id = 1, category = 8, weightUnits = 3, goldValue = 1, maxCondition = 0, maxEnchantmentCharge = 0,
     slotMask = 0, stackable = True, keyId = None, toolQuality = Finite 0\<rparr>"

definition sample_sword :: ItemPrototypeDeclaration where
  "sample_sword = \<lparr>decl_id = 2, category = CategoryWeapon, weightUnits = 30, goldValue = 90, maxCondition = 50,
     maxEnchantmentCharge = 0, slotMask = 0x10000, stackable = False, keyId = None, toolQuality = Finite 0\<rparr>"

definition sample_catalog :: ItemPrototypeCatalog where
  "sample_catalog = \<lparr>cat_manifestId = sample_manifest_id, declarations = [sample_coin, sample_sword]\<rparr>"

definition sample_coins :: "ItemStackId \<Rightarrow> u32 \<Rightarrow> CanonicalItemStack" where
  "sample_coins sid n = \<lparr>stackId = sid, prototypeId = 1, stackCount = n, condition = 0, enchantmentCharge = 0, soulPrototype = None\<rparr>"

definition sample_inventory :: CanonicalPlayerInventoryState where
  "sample_inventory = (newPlayerInventory 3)\<lparr>inv_stacks := [sample_coins 1 10]\<rparr>"

definition sample_chest :: CanonicalContainerInventoryState where
  "sample_chest = \<lparr>con_id = 40, con_cell = InteriorCell 7, con_position = \<lparr>pos_x = 100, pos_y = 0, pos_z = 0\<rparr>,
     con_revision = 1, con_tick = 0, con_capacity = 100, con_stacks = [sample_coins 2 5]\<rparr>"

definition sample_world :: CanonicalInventoryWorld where
  "sample_world = \<lparr>w_manifest = sample_manifest, w_catalog = sample_catalog, w_players = [sample_inventory],
     w_containers = [sample_chest], w_worldItems = [], w_nextStackId = Some 3\<rparr>"

definition sample_take :: InventoryTransactionCommand where
  "sample_take = \<lparr>cmd_player = 3, cmd_kind = TakeFromContainer, cmd_container = Some 40, cmd_prototype = 1, cmd_stack = Some 2,
     cmd_count = 2, cmd_slot = None, cmd_expectedInventory = 1, cmd_expectedContainer = Some 1, cmd_expectedWorldItem = None,
     cmd_origin = \<lparr>pos_x = 0, pos_y = 0, pos_z = 0\<rparr>\<rparr>"

definition sample_reach :: InventoryValidationContext where
  "sample_reach = \<lparr>maxReach = 384\<rparr>"

definition sample_after :: CanonicalInventoryWorld where
  "sample_after = fst (applyInventoryTransaction sample_world sample_state sample_take sample_reach 5)"

lemma sample_world_created:
  "createInventoryWorld sample_manifest sample_catalog [sample_inventory] [sample_chest] [] None = Some sample_world"
proof -
  have "sort_key inv_player [sample_inventory] = [sample_inventory]" "sort_key con_id [sample_chest] = [sample_chest]"
      "sort_key stackId (inv_stacks sample_inventory) = inv_stacks sample_inventory" "sort_key stackId (con_stacks sample_chest) = con_stacks sample_chest"
    by (code_simp, code_simp, code_simp, code_simp)
  moreover have "sort (map stackId (allStacks [sample_inventory] [sample_chest] [])) = [1, 2]" by code_simp
  moreover have "allStacks [sample_inventory] [sample_chest] [] \<noteq> []" by code_simp
  moreover have "playerValid sample_catalog sample_inventory" by code_simp
  moreover have "containerValid sample_manifest sample_catalog sample_chest" by code_simp
  moreover have "cat_manifestId sample_catalog = mId sample_manifest" by code_simp
  ultimately show ?thesis
    by (simp add: createInventoryWorld_def Let_def sample_world_def fromValue_def u64_max_def MaximumInventoryPlayers_def MaximumInventoryContainers_def MaximumWorldItemStacks_def)
qed

lemma sample_equipment: "\<forall>p \<in> set [sample_inventory]. length (inv_equipment p) = unat EquipmentSlotCount"
  by code_simp

lemma sample_cells_known: "cells_known sample_manifest sample_state"
proof -
  have "manifest_contains sample_manifest (t_cell (transform sample_player))" by code_simp
  moreover have "findPlayer sample_state i = Some p \<Longrightarrow> p = sample_player" for i p
    using canonical_players.lookup_memberD [OF state_ok_sample] by (fastforce simp: sample_state_def)
  ultimately show ?thesis by (auto simp: cells_known_def)
qed

lemma sample_take_succeeds: "out_code (snd (applyInventoryTransaction sample_world sample_state sample_take sample_reach 5)) = InvSuccess"
  by code_simp

lemma sample_reachable: "inventory_reachable sample_world" "inventory_reachable sample_after"
proof -
  show r: "inventory_reachable sample_world" by (rule reachable_created [OF sample_world_created sample_equipment])
  have "cells_known (w_manifest sample_world) sample_state" using sample_cells_known by (simp add: sample_world_def)
  then show "inventory_reachable sample_after"
    unfolding sample_after_def by (intro reachable_step [OF r] step_transaction)
qed


lemma sample_take_changes: "sample_after \<noteq> sample_world"
proof -
  have "w_players sample_after \<noteq> w_players sample_world" by code_simp
  then show ?thesis by auto
qed

lemma sample_next: "w_nextStackId sample_world = Some 3"
  by (simp add: sample_world_def)

section \<open>Properties\<close>

text \<open>
  C3. A world created from players with equipment arrays of full size keeps its invariant under the
  operations of the server in any order, where the operations are applied within two conditions: a
  transaction is applied while every player of the server stands in a cell of the manifest, and the
  condition of an equipped weapon is set to zero only together with taking it out of the right hand. The
  invariant: every collection is sorted by its key and within its limit, every stack is valid for its
  prototype, a container is within its capacity, no stack is equipped in more slots than it has items,
  no two stacks anywhere in the world share an id, and the next id to allocate is above all of them.
\<close>

theorem inventory_reachable_ok:
  "inventory_reachable w \<Longrightarrow> inventory_ok w"
  by (rule reachable_ok)

theorem inventory_reachable_ok_witness:
  "inventory_reachable sample_after \<and> inventory_ok sample_after \<and> sample_after \<noteq> sample_world"
  using inventory_reachable_ok [OF sample_reachable(2)] sample_reachable(2) sample_take_changes by simp

text \<open>
  C1. A transaction neither creates nor destroys items: for every kind of item (prototype,
  condition, charge, soul) the number of items held by players, lying in containers and lying in
  the world together is the same before and after, whether stacks are split, merged or moved.
\<close>

theorem transaction_conserves_items:
  assumes "inventory_reachable w" and "cells_known (w_manifest w) state"
  shows "items_in_world (fst (applyInventoryTransaction w state cmd ctx tick)) k = items_in_world w k"
proof -
  obtain w' out where run: "applyInventoryTransaction w state cmd ctx tick = (w', out)" by fastforce
  have "branch_ok w (cmd_player cmd) w'" by (rule apply_branch [OF reachable_ok [OF assms(1)] assms(2) run])
  then show ?thesis by (simp add: run items_in_world_def held_per_item branch_ok_def)
qed

theorem transaction_conserves_items_witness:
  "sample_after \<noteq> sample_world \<and> items_in_world sample_after (1, 0, 0, None) = items_in_world sample_world (1, 0, 0, None)"
  using transaction_conserves_items [OF sample_reachable(1), of sample_state sample_take sample_reach 5 "(1, 0, 0, None)"]
    sample_cells_known sample_take_changes
  by (simp add: sample_after_def sample_world_def)

text \<open>
  C6. A transaction that changed the world cannot take effect a second time: resent later, with
  whatever server state, reach and tick, before the sender has seen the new revision, it is
  refused and the world stays as it is.
\<close>

theorem transaction_resend_rejected:
  assumes "inventory_reachable w"
    and "applyInventoryTransaction w state cmd ctx tick = (w', out)" and "w' \<noteq> w"
    and "applyInventoryTransaction w' state2 cmd ctx2 tick2 = (w2, out2)"
  shows "out_code out2 \<noteq> InvSuccess \<and> w2 = w'"
  using inventory_commands.resend_rejected [of w "(state, ctx, tick)" cmd w' out "(state2, ctx2, tick2)" w2 out2]
    assms reachable_ok [OF assms(1)] by (simp add: inventory_ok_def players_ok_def players_sorted_def)

theorem transaction_resend_rejected_witness:
  "sample_after \<noteq> sample_world
     \<and> out_code (snd (applyInventoryTransaction sample_after sample_state sample_take sample_reach 6)) \<noteq> InvSuccess"
  using transaction_resend_rejected [OF sample_reachable(1), of sample_state sample_take sample_reach 5 sample_after
      "snd (applyInventoryTransaction sample_world sample_state sample_take sample_reach 5)" sample_state sample_reach 6]
    sample_take_changes by (simp add: sample_after_def [symmetric]) (metis prod.collapse sample_after_def)

text \<open>
  C11. A transaction that does not succeed leaves the world exactly as it was. It is refused for an
  unknown player exactly when the player is missing from the server state or from the inventory
  world, and as stale exactly when the player is known and the expected revision is not the
  current one; a transfer of zero items, or of more than the limit, never succeeds.
\<close>

theorem transaction_refusals:
  assumes run: "applyInventoryTransaction w state cmd ctx tick = (w', out)"
  shows "(out_code out = InvSuccess \<or> w' = w)
    \<and> (out_code out = InvPlayerNotFound \<longleftrightarrow>
         findPlayer state (cmd_player cmd) = None \<or> findInventoryPlayer w (cmd_player cmd) = None)
    \<and> (out_code out = StaleInventoryRevision \<longleftrightarrow>
         (\<exists>ps p. findPlayer state (cmd_player cmd) = Some ps \<and> findInventoryPlayer w (cmd_player cmd) = Some p
            \<and> inv_revision p \<noteq> cmd_expectedInventory cmd))
    \<and> (out_code out = InvSuccess \<and> transfersCount (cmd_kind cmd) \<longrightarrow>
         0 < cmd_count cmd \<and> cmd_count cmd \<le> MaximumTransferCount)"
proof (cases "transact w state cmd ctx tick")
  case (Inl code)
  then have "w' = w" and "out_code out = code" using run by (auto simp: applyInventoryTransaction_def makeOutcome_def)
  then show ?thesis using transact_failure [OF Inl] transact_refusals [OF Inl] by simp
next
  case (Inr r)
  then have "out_code out = InvSuccess"
    using run by (auto simp: applyInventoryTransaction_def makeOutcome_def Let_def split: prod.splits)
  then show ?thesis using transact_guards [of w state cmd ctx tick "fst r" "snd r"] Inr by (auto simp: word_neq_0_conv)
qed

theorem transaction_refusals_witness:
  "out_code (snd (applyInventoryTransaction sample_after sample_state sample_take sample_reach 6)) = StaleInventoryRevision"
proof -
  have "case (findPlayer sample_state (cmd_player sample_take), findInventoryPlayer sample_after (cmd_player sample_take)) of
      (Some ps, Some p) \<Rightarrow> inv_revision p \<noteq> cmd_expectedInventory sample_take | _ \<Rightarrow> False"
    by code_simp
  then show ?thesis
    using transaction_refusals [OF prod.collapse [symmetric], of sample_after sample_state sample_take sample_reach 6]
    by (auto split: option.splits)
qed

text \<open>
  C8. A reachable world can be stored and restored: creating a world from its parts and its next
  stack id is accepted and gives the same world back. The one difference is where the stack ids had run
  out: then the restored world gives out ids again, above every id still in use, unless the largest id is.
\<close>

theorem inventory_restore_roundtrip:
  assumes "inventory_reachable w"
  shows "\<exists>nid. createInventoryWorld (w_manifest w) (w_catalog w) (w_players w) (w_containers w) (w_worldItems w) (w_nextStackId w)
       = Some (w\<lparr>w_nextStackId := nid\<rparr>)
     \<and> (case w_nextStackId w of
          Some n \<Rightarrow> nid = Some n
        | None \<Rightarrow> (case nid of Some n \<Rightarrow> n \<noteq> 0 \<and> (\<forall>s \<in> set (world_stacks w). stackId s < n)
                    | None \<Rightarrow> \<exists>s \<in> set (world_stacks w). stackId s = u64_max))"
  using restored_lemma [OF reachable_ok [OF assms]] by (simp only: restored_next_id_def)

theorem inventory_restore_roundtrip_witness:
  "createInventoryWorld sample_manifest sample_catalog [sample_inventory] [sample_chest] [] (Some 3) = Some sample_world"
  using inventory_restore_roundtrip [OF sample_reachable(1)] sample_next by (auto simp: sample_world_def)

text \<open>
  C10. Items move between a player and a container only when the player's canonical body is in the
  container's cell and the body, the claimed origin of the interaction and the container are
  within the allowed reach of one another, in exact Euclidean distance.
\<close>

theorem container_transaction_in_reach:
  assumes "cmd_kind cmd = TakeFromContainer \<or> cmd_kind cmd = PutIntoContainer"
    and "out_code (snd (applyInventoryTransaction w state cmd ctx tick)) = InvSuccess"
  shows "\<exists>ps c cid. findPlayer state (cmd_player cmd) = Some ps \<and> cmd_container cmd = Some cid
     \<and> findContainer w cid = Some c \<and> con_cell c = t_cell (transform ps)
     \<and> distance_squared (t_position (transform ps)) (con_position c) \<le> (int (unat (maxReach ctx)))\<^sup>2
     \<and> distance_squared (cmd_origin cmd) (con_position c) \<le> (int (unat (maxReach ctx)))\<^sup>2
     \<and> distance_squared (t_position (transform ps)) (cmd_origin cmd) \<le> (int (unat (maxReach ctx)))\<^sup>2"
proof -
  obtain w' r where run: "transact w state cmd ctx tick = Inr (w', r)"
    using assms(2) transact_failure by (fastforce simp: applyInventoryTransaction_def makeOutcome_def split: sum.splits)
  obtain ps c where ps: "findPlayer state (cmd_player cmd) = Some ps"
    and c: "accessContainer w (transform ps) cmd ctx tick = Inr c"
    using run assms(1) by (rule container_access)
  from accessContainer_InrD [OF c] ps show ?thesis by (auto dest!: reachCheck_None simp: reach_iff)
qed

theorem container_transaction_in_reach_witness:
  "\<exists>ps c cid. findPlayer sample_state (cmd_player sample_take) = Some ps \<and> cmd_container sample_take = Some cid
     \<and> findContainer sample_world cid = Some c \<and> con_cell c = t_cell (transform ps)"
  using container_transaction_in_reach [of sample_take sample_world sample_state sample_reach 5] sample_take_succeeds
  by (simp add: sample_take_def) blast

text \<open>
  The weight the server computes for a list of stacks is the exact sum of the weights of its
  items, or the largest 64-bit number when the sum does not fit: it never wraps around.
\<close>

theorem totalWeight_saturates:
  "unat (totalWeight catalog stacks)
     = min (\<Sum>s\<leftarrow>stacks. (case findPrototype catalog (prototypeId s) of None \<Rightarrow> 0
                          | Some d \<Rightarrow> unat (weightUnits d) * unat (stackCount s))) (2 ^ 64 - 1)"
proof -
  have "per_item (weight_of catalog) = (\<lambda>s. case findPrototype catalog (prototypeId s) of None \<Rightarrow> 0
                          | Some d \<Rightarrow> unat (weightUnits d) * unat (stackCount s))"
    by (auto simp: fun_eq_iff per_item_def weight_of_def kind_of_def split: option.split)
  then show ?thesis by (simp add: totalWeight_unat load_def stack_sum_def)
qed

text \<open>
  The keys the server verifies for a player are, in increasing order and without repetition,
  exactly the keys opened by the prototypes of the non-empty stacks the player carries.
\<close>

theorem collectKeys_exact:
  "sorted_wrt (<) (collectKeys catalog stacks)
     \<and> set (collectKeys catalog stacks)
       = {k. \<exists>s d. s \<in> set stacks \<and> stackCount s \<noteq> 0 \<and> findPrototype catalog (prototypeId s) = Some d \<and> keyId d = Some k}"
proof -
  have "sorted_wrt (<) (remdups_adj (sort xs))" for xs :: "u64 list"
    using distinct_remdups_adj_sorted [of "sort xs"] by (simp add: strict_sorted_iff sorted_remdups_adj)
  moreover have "set (collectKeys catalog stacks)
      = {k. \<exists>s d. s \<in> set stacks \<and> stackCount s \<noteq> 0 \<and> findPrototype catalog (prototypeId s) = Some d \<and> keyId d = Some k}"
    by (force simp: collectKeys_def set_map_filter_iff split: option.splits if_splits)
  ultimately show ?thesis by (simp add: collectKeys_def)
qed

end
