(* ===== verification/Interactive_Objects.thy ===== *)
theory Interactive_Objects
  imports Canonical_State
begin

text \<open>
  Doors with locks and traps: the catalog of interactive objects
  (\<^verbatim>\<open>protocol/interactive_object_catalog.cpp\<close>) and the canonical world of their states
  (\<^verbatim>\<open>server_core/interactive_object_world.cpp\<close>). A command is applied to a candidate world
  that the caller may roll back with the previous state of the one object it changed.
\<close>

section \<open>Catalog\<close>

definition MaximumInteractiveObjectsPerCell :: nat where
  "MaximumInteractiveObjectsPerCell = 512"

definition MaximumInteractiveObjectCatalogEntries :: nat where
  "MaximumInteractiveObjectCatalogEntries = 16384"

datatype InteractiveObjectKind = StandardDoor | TeleportDoor

record TeleportDestination =
  td_cell :: CellId
  td_transform :: Transform

record ObjectLockDeclaration =
  lockedByDefault :: bool
  declaredLockLevel :: u32
  declaredKey :: "KeyPrototypeId option"

record ObjectTrapDeclaration =
  trappedByDefault :: bool
  declaredTrap :: "TrapPrototypeId option"
  disarmDifficulty :: u32

record InteractiveObjectCatalogEntry =
  ent_id :: InteractiveObjectId
  ent_kind :: InteractiveObjectKind
  ent_cell :: CellId
  ent_transform :: Transform
  ent_destination :: "TeleportDestination option"
  ent_lock :: ObjectLockDeclaration
  ent_trap :: ObjectTrapDeclaration

record InteractiveObjectCatalog =
  ocat_manifestId :: ContentManifestId
  ocat_entries :: "InteractiveObjectCatalogEntry list"

definition destinationValid :: "ContentManifest \<Rightarrow> InteractiveObjectCatalogEntry \<Rightarrow> bool" where
  "destinationValid manifest e =
     (case ent_kind e of
        TeleportDoor \<Rightarrow>
          (case ent_destination e of
             None \<Rightarrow> False
           | Some d \<Rightarrow> manifest_contains manifest (td_cell d) \<and> t_cell (td_transform d) = td_cell d)
      | StandardDoor \<Rightarrow> ent_destination e = None)"

definition lockAndTrapValid :: "InteractiveObjectCatalogEntry \<Rightarrow> bool" where
  "lockAndTrapValid e \<longleftrightarrow>
     \<not> (lockedByDefault (ent_lock e) \<and> declaredLockLevel (ent_lock e) = 0)
     \<and> trappedByDefault (ent_trap e) = (declaredTrap (ent_trap e) \<noteq> None)
     \<and> trappedByDefault (ent_trap e) = (disarmDifficulty (ent_trap e) \<noteq> 0)"

text \<open>The loop over the sorted entries, with the previous entry and the counts per cell so far.\<close>

fun checkEntries ::
  "ContentManifest \<Rightarrow> InteractiveObjectId option \<Rightarrow> (CellId \<Rightarrow> nat) \<Rightarrow> InteractiveObjectCatalogEntry list \<Rightarrow> bool" where
  "checkEntries manifest previous counts [] = True"
| "checkEntries manifest previous counts (e # es) =
     (if ent_id e = 0 then False
      else if previous = Some (ent_id e) then False
      else if \<not> manifest_contains manifest (ent_cell e) \<or> t_cell (ent_transform e) \<noteq> ent_cell e then False
      else if Suc (counts (ent_cell e)) > MaximumInteractiveObjectsPerCell then False
      else if \<not> destinationValid manifest e then False
      else if \<not> lockAndTrapValid e then False
      else checkEntries manifest (Some (ent_id e)) (counts(ent_cell e := Suc (counts (ent_cell e)))) es)"

definition createInteractiveObjectCatalog ::
  "ContentManifest \<Rightarrow> InteractiveObjectCatalogEntry list \<Rightarrow> InteractiveObjectCatalog option" where
  "createInteractiveObjectCatalog manifest es =
     (if length es > MaximumInteractiveObjectCatalogEntries then None
      else (let sorted = sort_key ent_id es
            in if checkEntries manifest None (\<lambda>_. 0) sorted
               then Some \<lparr>ocat_manifestId = mId manifest, ocat_entries = sorted\<rparr> else None))"

definition findEntry :: "InteractiveObjectCatalog \<Rightarrow> InteractiveObjectId \<Rightarrow> InteractiveObjectCatalogEntry option" where
  "findEntry catalog i = lookup_key ent_id (ocat_entries catalog) i"

section \<open>World\<close>

datatype SecurityObjectMutation = Unlock | Disarm

datatype SecurityObjectMutationResult =
  MutationApplied | MutationObjectNotFound | MutationStaleRevision | MutationStateMismatch
  | MutationTickRegression | MutationRevisionExhausted

datatype DoorState = DoorClosed | DoorOpen

datatype LockState = Unlocked | Locked

datatype TrapState = Disarmed | Armed

record CanonicalInteractiveObjectState =
  objectId :: InteractiveObjectId
  o_cell :: CellId
  doorState :: DoorState
  lockState :: LockState
  lockLevel :: u32
  o_keyId :: "KeyPrototypeId option"
  trapState :: TrapState
  trapId :: "TrapPrototypeId option"
  o_revision :: ObjectRevision
  o_lastChangeTick :: ServerTick

datatype CanonicalInteractiveObjectWorldErrorCode =
  ObjectLimitExceeded | ObjectIdsNotStrictlyOrdered | ObjectCatalogMismatch | ObjectAllocationFailure

record CanonicalInteractiveObjectWorldError =
  owe_code :: CanonicalInteractiveObjectWorldErrorCode
  owe_index :: nat
  owe_value :: u64
  owe_related :: u64

record CanonicalInteractiveObjectWorld =
  objects :: "CanonicalInteractiveObjectState list"

definition stateMatchesCatalog :: "CanonicalInteractiveObjectState \<Rightarrow> InteractiveObjectCatalogEntry \<Rightarrow> bool" where
  "stateMatchesCatalog s e \<longleftrightarrow>
     objectId s = ent_id e \<and> o_cell s = ent_cell e \<and> lockLevel s = declaredLockLevel (ent_lock e)
     \<and> o_keyId s = declaredKey (ent_lock e) \<and> trapId s = declaredTrap (ent_trap e)"

definition findObject :: "CanonicalInteractiveObjectWorld \<Rightarrow> InteractiveObjectId \<Rightarrow> CanonicalInteractiveObjectState option" where
  "findObject world i = lookup_key objectId (objects world) i"

text \<open>Assignment through the iterator that \<^verbatim>\<open>lower_bound\<close> returned for the object's id.\<close>

definition putObject :: "CanonicalInteractiveObjectState \<Rightarrow> CanonicalInteractiveObjectWorld \<Rightarrow> CanonicalInteractiveObjectWorld" where
  "putObject s world = world\<lparr>objects := replace_key objectId s (objects world)\<rparr>"

definition applySecurityResult ::
  "CanonicalInteractiveObjectWorld \<Rightarrow> InteractiveObjectId \<Rightarrow> ObjectRevision \<Rightarrow> SecurityObjectMutation \<Rightarrow> bool
     \<Rightarrow> ServerTick \<Rightarrow> CanonicalInteractiveObjectWorld \<times> SecurityObjectMutationResult" where
  "applySecurityResult world i expectedRevision mutation succeeded tick =
     (case findObject world i of
        None \<Rightarrow> (world, MutationObjectNotFound)
      | Some found \<Rightarrow>
        if o_revision found \<noteq> expectedRevision then (world, MutationStaleRevision)
        else if tick < o_lastChangeTick found then (world, MutationTickRegression)
        else if mutation = Unlock \<and> lockState found \<noteq> Locked \<or> mutation = Disarm \<and> trapState found \<noteq> Armed
        then (world, MutationStateMismatch)
        else if \<not> succeeded then (world, MutationApplied)
        else (case next_value (o_revision found) of
                None \<Rightarrow> (world, MutationRevisionExhausted)
              | Some revision \<Rightarrow>
                (putObject
                   (found\<lparr>lockState := (if mutation = Unlock then Unlocked else lockState found),
                          trapState := (if mutation = Disarm then Disarmed else trapState found),
                          o_revision := revision, o_lastChangeTick := tick\<rparr>) world,
                 MutationApplied)))"

definition objectError ::
  "CanonicalInteractiveObjectWorldErrorCode \<Rightarrow> nat \<Rightarrow> u64 \<Rightarrow> u64 \<Rightarrow> CanonicalInteractiveObjectWorldError" where
  "objectError code index v related = \<lparr>owe_code = code, owe_index = index, owe_value = v, owe_related = related\<rparr>"

definition createCanonicalInteractiveObjectWorld ::
  "CanonicalInteractiveObjectState list \<Rightarrow> CanonicalInteractiveObjectWorldError + CanonicalInteractiveObjectWorld" where
  "createCanonicalInteractiveObjectWorld os =
     (if length os > MaximumInteractiveObjectCatalogEntries then Inl (objectError ObjectLimitExceeded (length os) 0 0)
      else
        (case first_error
            (\<lambda>i. if i \<noteq> 0 \<and> objectId (os ! (i - 1)) \<ge> objectId (os ! i)
                 then Some (objectError ObjectIdsNotStrictlyOrdered i (objectId (os ! i)) (objectId (os ! (i - 1))))
                 else None)
            [0..<length os] of
           Some e \<Rightarrow> Inl e
         | None \<Rightarrow> Inr \<lparr>objects = os\<rparr>))"

definition initialObjectState :: "InteractiveObjectCatalogEntry \<Rightarrow> CanonicalInteractiveObjectState" where
  "initialObjectState e =
     \<lparr>objectId = ent_id e, o_cell = ent_cell e, doorState = DoorClosed,
      lockState = (if lockedByDefault (ent_lock e) then Locked else Unlocked),
      lockLevel = declaredLockLevel (ent_lock e), o_keyId = declaredKey (ent_lock e),
      trapState = (if trappedByDefault (ent_trap e) then Armed else Disarmed),
      trapId = declaredTrap (ent_trap e), o_revision = initial CounterFromOne, o_lastChangeTick = initial CounterFromZero\<rparr>"

definition createInitialCanonicalInteractiveObjectWorld ::
  "InteractiveObjectCatalog \<Rightarrow> CanonicalInteractiveObjectWorldError + CanonicalInteractiveObjectWorld" where
  "createInitialCanonicalInteractiveObjectWorld catalog =
     createCanonicalInteractiveObjectWorld (map initialObjectState (ocat_entries catalog))"

definition restorableState :: "InteractiveObjectCatalogEntry \<Rightarrow> CanonicalInteractiveObjectState \<Rightarrow> bool" where
  "restorableState e s \<longleftrightarrow>
     \<not> (\<not> stateMatchesCatalog s e
        \<or> \<not> lockedByDefault (ent_lock e) \<and> lockState s \<noteq> Unlocked
        \<or> \<not> trappedByDefault (ent_trap e) \<and> trapState s \<noteq> Disarmed
        \<or> ent_kind e = TeleportDoor \<and> doorState s \<noteq> DoorClosed)"

definition restoreCanonicalInteractiveObjectWorld ::
  "InteractiveObjectCatalog \<Rightarrow> CanonicalInteractiveObjectState list
     \<Rightarrow> CanonicalInteractiveObjectWorldError + CanonicalInteractiveObjectWorld" where
  "restoreCanonicalInteractiveObjectWorld catalog os =
     (if length os \<noteq> length (ocat_entries catalog)
      then Inl (objectError ObjectCatalogMismatch (length os) (of_nat (length (ocat_entries catalog))) 0)
      else
        (case first_error
            (\<lambda>i. if \<not> restorableState (ocat_entries catalog ! i) (os ! i)
                 then Some (objectError ObjectCatalogMismatch i (objectId (os ! i)) (ent_id (ocat_entries catalog ! i)))
                 else None)
            [0..<length os] of
           Some e \<Rightarrow> Inl e
         | None \<Rightarrow> createCanonicalInteractiveObjectWorld os))"

section \<open>Interaction\<close>

datatype ObjectInteractionKind = Activate | UnlockWithKey | PickLock | DisarmTrap

record InteractObjectCommand =
  ic_player :: PlayerId
  ic_objectId :: InteractiveObjectId
  ic_cell :: CellId
  ic_origin :: Position3
  ic_expectedRevision :: ObjectRevision
  ic_kind :: ObjectInteractionKind
  ic_requestedKey :: "KeyPrototypeId option"
  ic_requestedTool :: "ItemStackId option"
  ic_expectedInventoryRevision :: "InventoryRevision option"
  ic_expectedCombatRevision :: "CombatRevision option"

record ObjectInteractionValidationContext =
  ov_maxReach :: u32
  ov_verifiedPlayerKeys :: "KeyPrototypeId list"

datatype ObjectInteractionResultCode =
  ObjSuccess | ObjPlayerNotFound | ObjectNotFound | ObjCellMismatch | ObjPlayerOutOfReach | ObjLocked | ObjStaleRevision
  | TrapSprung | ObjCatalogMismatch | ObjTickRegression | ObjRevisionExhausted | InvalidSecurityAttempt
  | LockpickFailed | ProbeFailed | ObjInternalError

record ObjectInteractionOutcome =
  oo_code :: ObjectInteractionResultCode
  oo_objectId :: InteractiveObjectId
  oo_newRevision :: ObjectRevision
  oo_newDoorState :: DoorState
  oo_newLockState :: LockState
  oo_newTrapState :: TrapState
  oo_playerTeleport :: "TeleportDestination option"
  oo_sprungTrap :: "TrapPrototypeId option"
  oo_usedTool :: "ItemStackId option"

record StagedObjectInteractionResult =
  st_outcome :: ObjectInteractionOutcome
  st_worldChanged :: bool
  st_previousState :: "CanonicalInteractiveObjectState option"

text \<open>A default outcome for the command's object with a result code; nothing staged.\<close>

definition refusedOutcome :: "InteractiveObjectId \<Rightarrow> ObjectInteractionResultCode \<Rightarrow> ObjectInteractionOutcome" where
  "refusedOutcome i code =
     \<lparr>oo_code = code, oo_objectId = i, oo_newRevision = initial CounterFromOne, oo_newDoorState = DoorClosed,
      oo_newLockState = Unlocked, oo_newTrapState = Disarmed, oo_playerTeleport = None, oo_sprungTrap = None,
      oo_usedTool = None\<rparr>"

definition refused :: "InteractiveObjectId \<Rightarrow> ObjectInteractionResultCode \<Rightarrow> StagedObjectInteractionResult" where
  "refused i code = \<lparr>st_outcome = refusedOutcome i code, st_worldChanged = False, st_previousState = None\<rparr>"

text \<open>An outcome that reports the state of an object.\<close>

definition stateOutcome ::
  "ObjectInteractionResultCode \<Rightarrow> CanonicalInteractiveObjectState \<Rightarrow> ObjectInteractionOutcome" where
  "stateOutcome code s = (refusedOutcome (objectId s) code)
     \<lparr>oo_newRevision := o_revision s, oo_newDoorState := doorState s, oo_newLockState := lockState s,
      oo_newTrapState := trapState s\<rparr>"

text \<open>The write that ends every successful branch: the changed object replaces the old one.\<close>

definition commitObject ::
  "CanonicalInteractiveObjectWorld \<Rightarrow> CanonicalInteractiveObjectState
     \<Rightarrow> (CanonicalInteractiveObjectState \<Rightarrow> CanonicalInteractiveObjectState) \<Rightarrow> ObjectInteractionResultCode
     \<Rightarrow> TeleportDestination option \<Rightarrow> TrapPrototypeId option \<Rightarrow> ServerTick
     \<Rightarrow> CanonicalInteractiveObjectWorld \<times> StagedObjectInteractionResult" where
  "commitObject world object change code teleport sprung tick =
     (case next_value (o_revision object) of
        None \<Rightarrow> (world, refused (objectId object) ObjRevisionExhausted)
      | Some nextRev \<Rightarrow>
        (let s = (change object)\<lparr>o_revision := nextRev, o_lastChangeTick := tick\<rparr>
         in (putObject s world,
             \<lparr>st_outcome = (stateOutcome code s)\<lparr>oo_playerTeleport := teleport, oo_sprungTrap := sprung\<rparr>,
              st_worldChanged = True, st_previousState = Some object\<rparr>)))"

definition toggleDoor :: "DoorState \<Rightarrow> DoorState" where
  "toggleDoor d = (if d = DoorClosed then DoorOpen else DoorClosed)"

text \<open>What the interaction does once the command has passed the guards.\<close>

definition interactWithObject ::
  "CanonicalInteractiveObjectWorld \<Rightarrow> InteractiveObjectCatalogEntry \<Rightarrow> CanonicalInteractiveObjectState
     \<Rightarrow> InteractObjectCommand \<Rightarrow> KeyPrototypeId list \<Rightarrow> ServerTick
     \<Rightarrow> CanonicalInteractiveObjectWorld \<times> StagedObjectInteractionResult" where
  "interactWithObject world entry object command verifiedKeys tick =
     (if ic_kind command = PickLock \<or> ic_kind command = DisarmTrap
      then (world, refused (ic_objectId command) InvalidSecurityAttempt)
      else if ic_kind command = UnlockWithKey then
        (if lockState object = Locked then
           (case (o_keyId object, ic_requestedKey command) of
              (Some key, Some requested) \<Rightarrow>
                if key = requested \<and> requested \<in> set verifiedKeys
                then commitObject world object (\<lambda>s. s\<lparr>lockState := Unlocked, trapState := Disarmed\<rparr>) ObjSuccess None None tick
                else (world, refused (ic_objectId command) ObjLocked)
            | _ \<Rightarrow> (world, refused (ic_objectId command) ObjLocked))
         else (world, \<lparr>st_outcome = stateOutcome ObjSuccess object, st_worldChanged = False, st_previousState = None\<rparr>))
      else if lockState object = Locked then (world, refused (ic_objectId command) ObjLocked)
      else if trapState object = Armed
      then commitObject world object (\<lambda>s. s\<lparr>trapState := Disarmed\<rparr>) TrapSprung None (trapId object) tick
      else if ent_kind entry = TeleportDoor
      then commitObject world object (\<lambda>s. s) ObjSuccess (ent_destination entry) None tick
      else commitObject world object (\<lambda>s. s\<lparr>doorState := toggleDoor (doorState s)\<rparr>) ObjSuccess None None tick)"

definition applyObjectInteractionToCandidate ::
  "CanonicalInteractiveObjectWorld \<Rightarrow> InteractiveObjectCatalog \<Rightarrow> CanonicalServerState \<Rightarrow> InteractObjectCommand
     \<Rightarrow> ServerTick \<Rightarrow> ObjectInteractionValidationContext
     \<Rightarrow> CanonicalInteractiveObjectWorld \<times> StagedObjectInteractionResult" where
  "applyObjectInteractionToCandidate current catalog state command currentTick validation =
     (let fail = (\<lambda>code. (current, refused (ic_objectId command) code))
      in case findPlayer state (ic_player command) of
           None \<Rightarrow> fail ObjPlayerNotFound
         | Some playerState \<Rightarrow>
           if t_cell (transform playerState) \<noteq> ic_cell command then fail ObjCellMismatch
           else
             (case (findObject current (ic_objectId command), findEntry catalog (ic_objectId command)) of
                (Some object, Some entry) \<Rightarrow>
                  if \<not> stateMatchesCatalog object entry then fail ObjCatalogMismatch
                  else if o_cell object \<noteq> ic_cell command then fail ObjCellMismatch
                  else
                    (let playerPosition = t_position (transform playerState);
                         objectPosition = t_position (ent_transform entry)
                     in if \<not> positionsWithinReach playerPosition objectPosition (ov_maxReach validation)
                           \<or> \<not> positionsWithinReach playerPosition (ic_origin command) (ov_maxReach validation)
                           \<or> \<not> positionsWithinReach (ic_origin command) objectPosition (ov_maxReach validation)
                        then fail ObjPlayerOutOfReach
                        else if ic_expectedRevision command \<noteq> o_revision object then fail ObjStaleRevision
                        else if currentTick < o_lastChangeTick object then fail ObjTickRegression
                        else interactWithObject current entry object command (ov_verifiedPlayerKeys validation) currentTick)
              | _ \<Rightarrow> fail ObjectNotFound))"

definition restoreInteractiveObjectCandidate ::
  "CanonicalInteractiveObjectWorld \<Rightarrow> CanonicalInteractiveObjectState \<Rightarrow> CanonicalInteractiveObjectWorld \<times> bool" where
  "restoreInteractiveObjectCandidate candidate previous =
     (if findObject candidate (objectId previous) = None then (candidate, False) else (putObject previous candidate, True))"

definition applyObjectInteraction ::
  "CanonicalInteractiveObjectWorld \<Rightarrow> InteractiveObjectCatalog \<Rightarrow> CanonicalServerState \<Rightarrow> InteractObjectCommand
     \<Rightarrow> ServerTick \<Rightarrow> ObjectInteractionValidationContext
     \<Rightarrow> ObjectInteractionOutcome \<times> CanonicalInteractiveObjectWorld option" where
  "applyObjectInteraction current catalog state command currentTick validation =
     (case applyObjectInteractionToCandidate current catalog state command currentTick validation of
        (candidate, staged) \<Rightarrow> (st_outcome staged, if st_worldChanged staged then Some candidate else None))"


section \<open>The catalog\<close>

definition entry_ok :: "ContentManifest \<Rightarrow> InteractiveObjectCatalogEntry \<Rightarrow> bool" where
  "entry_ok m e \<longleftrightarrow> ent_id e \<noteq> 0 \<and> manifest_contains m (ent_cell e) \<and> t_cell (ent_transform e) = ent_cell e
     \<and> destinationValid m e \<and> lockAndTrapValid e"

definition object_catalog_ok :: "InteractiveObjectCatalog \<Rightarrow> bool" where
  "object_catalog_ok cat \<longleftrightarrow> keys_sorted ent_id (ocat_entries cat)"

lemma checkEntries_iff:
  assumes "sorted (map ent_id es)" and "\<forall>p. previous = Some p \<longrightarrow> (\<forall>e \<in> set es. p \<le> ent_id e)"
    and "\<forall>c. counts c \<le> MaximumInteractiveObjectsPerCell"
  shows "checkEntries m previous counts es \<longleftrightarrow>
    (\<forall>e \<in> set es. entry_ok m e) \<and> distinct (map ent_id es) \<and> (\<forall>p. previous = Some p \<longrightarrow> p \<notin> ent_id ` set es)
    \<and> (\<forall>c. counts c + count_list (map ent_cell es) c \<le> MaximumInteractiveObjectsPerCell)"
  using assms
proof (induction es arbitrary: previous counts)
  case (Cons e es)
  define counts' where "counts' = counts(ent_cell e := Suc (counts (ent_cell e)))"
  show ?case
  proof (cases "Suc (counts (ent_cell e)) > MaximumInteractiveObjectsPerCell")
    case True
    then have "\<not> counts (ent_cell e) + count_list (map ent_cell (e # es)) (ent_cell e) \<le> MaximumInteractiveObjectsPerCell"
      by simp
    moreover have "\<not> checkEntries m previous counts (e # es)" using True by simp
    ultimately show ?thesis by blast
  next
    case False
    with Cons.prems(3) have bound: "\<forall>c. counts' c \<le> MaximumInteractiveObjectsPerCell" by (auto simp: counts'_def)
    have counts: "counts' c + count_list (map ent_cell es) c = counts c + count_list (map ent_cell (e # es)) c" for c
      by (simp add: counts'_def)
    let ?P = "\<forall>c. counts c + count_list (map ent_cell (e # es)) c \<le> MaximumInteractiveObjectsPerCell"
    have rest: "checkEntries m (Some (ent_id e)) counts' es \<longleftrightarrow>
        (\<forall>e \<in> set es. entry_ok m e) \<and> distinct (map ent_id es) \<and> ent_id e \<notin> ent_id ` set es \<and> ?P"
      unfolding counts [symmetric] using Cons.IH [of "Some (ent_id e)" counts'] Cons.prems(1) bound by simp
    have prev: "(\<forall>p. previous = Some p \<longrightarrow> p \<notin> ent_id ` set (e # es)) \<longleftrightarrow> previous \<noteq> Some (ent_id e)"
      using Cons.prems(1,2) by (fastforce simp: order.antisym)
    have "checkEntries m previous counts (e # es) \<longleftrightarrow>
        entry_ok m e \<and> previous \<noteq> Some (ent_id e) \<and> checkEntries m (Some (ent_id e)) counts' es"
      using False by (auto simp: entry_ok_def counts'_def not_less)
    then show ?thesis unfolding rest prev by (simp only: list.set list.map distinct.simps set_map ball_simps) blast
  qed
qed simp

lemma create_catalog_lemma:
  "createInteractiveObjectCatalog m es = Some cat \<longleftrightarrow>
     length es \<le> MaximumInteractiveObjectCatalogEntries \<and> distinct (map ent_id es) \<and> (\<forall>e \<in> set es. entry_ok m e)
     \<and> (\<forall>c. count_list (map ent_cell es) c \<le> MaximumInteractiveObjectsPerCell)
     \<and> cat = \<lparr>ocat_manifestId = mId m, ocat_entries = sort_key ent_id es\<rparr>"
proof -
  have "count_list (map ent_cell (sort_key ent_id es)) c = count_list (map ent_cell es) c" for c
    by (metis count_mset mset_map mset_sort)
  then have "checkEntries m None (\<lambda>_. 0) (sort_key ent_id es) \<longleftrightarrow>
      (\<forall>e \<in> set es. entry_ok m e) \<and> distinct (map ent_id es) \<and> (\<forall>c. count_list (map ent_cell es) c \<le> MaximumInteractiveObjectsPerCell)"
    using checkEntries_iff [of "sort_key ent_id es" None "\<lambda>_. 0" m] by (simp add: distinct_sort_key)
  then show ?thesis by (auto simp: createInteractiveObjectCatalog_def Let_def)
qed

lemma created_catalog_ok: "createInteractiveObjectCatalog m es = Some cat \<Longrightarrow> object_catalog_ok cat"
  by (auto simp: create_catalog_lemma object_catalog_ok_def keys_sorted_sort_key distinct_sort_key)

interpretation object_catalog: keyed_table ent_id ocat_entries object_catalog_ok findEntry
  by unfold_locales (simp add: object_catalog_ok_def findEntry_def vec_simps)

section \<open>The world\<close>

definition objects_sorted :: "CanonicalInteractiveObjectWorld \<Rightarrow> bool" where
  "objects_sorted w \<longleftrightarrow> keys_sorted objectId (objects w)"

interpretation object_table: updatable_table objectId objects objects_sorted findObject putObject
  by unfold_locales
    (auto simp: objects_sorted_def findObject_def putObject_def vec_simps lookup_replace_key
      replace_key_member replace_key_twice simp del: map_key_replace_key)

text \<open>
  The state of a world that belongs to a catalog: one state per entry, in the order of the
  entries, that agrees with the entry and that the catalog allows.
\<close>

definition objects_ok :: "InteractiveObjectCatalog \<Rightarrow> CanonicalInteractiveObjectWorld \<Rightarrow> bool" where
  "objects_ok cat w \<longleftrightarrow> list_all2 restorableState (ocat_entries cat) (objects w)"

lemma case_first_error:
  "(case first_error f xs of Some e \<Rightarrow> Inl e | None \<Rightarrow> r) = Inr w \<longleftrightarrow> (\<forall>x \<in> set xs. f x = None) \<and> r = Inr w"
  by (auto simp: first_error_None_iff [symmetric] split: option.splits)

lemma createObjects_iff:
  "createCanonicalInteractiveObjectWorld os = Inr w \<longleftrightarrow>
     length os \<le> MaximumInteractiveObjectCatalogEntries \<and> keys_sorted objectId os \<and> w = \<lparr>objects = os\<rparr>"
proof -
  have "keys_sorted objectId os \<longleftrightarrow> (\<forall>i \<in> {1..<length os}. objectId (os ! (i - 1)) < objectId (os ! i))"
    using sorted_wrt_adjacent [of "\<lambda>x y. objectId x < objectId y" os]
    by (simp add: sorted_wrt_map transp_def) (blast intro: order.strict_trans)
  also have "\<dots> \<longleftrightarrow> (\<forall>i \<in> {0..<length os}. \<not> (i \<noteq> 0 \<and> objectId (os ! (i - 1)) \<ge> objectId (os ! i)))"
    unfolding Ball_def atLeastLessThan_iff by (auto simp: not_le) (metis Suc_leI gr0I)
  finally show ?thesis by (auto simp: createCanonicalInteractiveObjectWorld_def case_first_error not_less)
qed

lemma restorable_key: "list_all2 restorableState es os \<Longrightarrow> map objectId os = map ent_id es"
  by (induction rule: list_all2_induct) (auto simp: restorableState_def stateMatchesCatalog_def)

lemma objects_ok_sorted: "object_catalog_ok cat \<Longrightarrow> objects_ok cat w \<Longrightarrow> objects_sorted w"
  by (simp add: object_catalog_ok_def objects_ok_def objects_sorted_def restorable_key)

lemma restore_iff:
  "restoreCanonicalInteractiveObjectWorld cat os = Inr w \<longleftrightarrow>
     list_all2 restorableState (ocat_entries cat) os \<and> createCanonicalInteractiveObjectWorld os = Inr w"
  by (auto simp: restoreCanonicalInteractiveObjectWorld_def list_all2_conv_all_nth case_first_error)

lemma initial_objects_ok:
  "createInitialCanonicalInteractiveObjectWorld cat = Inr w \<Longrightarrow> objects_ok cat w"
  by (auto simp: createInitialCanonicalInteractiveObjectWorld_def createObjects_iff objects_ok_def list_all2_conv_all_nth
      restorableState_def stateMatchesCatalog_def initialObjectState_def)

text \<open>Replacing an object by a state its entry allows keeps the world in its catalog.\<close>

lemma objects_ok_put:
  assumes cat: "object_catalog_ok cat" and w: "objects_ok cat w" and o: "findObject w (objectId s) = Some old"
    and keep: "\<And>e. findEntry cat (objectId s) = Some e \<Longrightarrow> restorableState e old \<Longrightarrow> restorableState e s"
  shows "objects_ok cat (putObject s w)"
proof -
  have sorted: "keys_sorted objectId (objects w)" using objects_ok_sorted [OF cat w] by (simp add: objects_sorted_def)
  obtain i where i: "find_key objectId (objects w) (objectId s) = Some i" "old = objects w ! i"
    using o by (auto simp: findObject_def lookup_key_def)
  then have "i < length (objects w)" by (auto dest: find_key_SomeD)
  moreover have "restorableState (ocat_entries cat ! i) s"
  proof -
    have old: "restorableState (ocat_entries cat ! i) old" and len: "i < length (ocat_entries cat)"
      using w i \<open>i < length (objects w)\<close> by (auto simp: objects_ok_def list_all2_conv_all_nth)
    then have "ent_id (ocat_entries cat ! i) = objectId s"
      using find_key_SomeD [OF i(1)] i(2) by (simp add: restorableState_def stateMatchesCatalog_def)
    then show ?thesis using keep old len object_catalog.lookup_member [OF cat, of "ocat_entries cat ! i"] by simp
  qed
  moreover have "objects (putObject s w) = (objects w)[i := s]" using i by (simp add: putObject_def replace_key_def)
  ultimately show ?thesis using w
    by (auto simp: objects_ok_def list_all2_conv_all_nth nth_list_update)
qed

section \<open>Interactions\<close>

text \<open>Every interaction that changes the world commits one change of the one object it found.\<close>

definition allowed_change :: "InteractiveObjectCatalogEntry \<Rightarrow> CanonicalInteractiveObjectState \<Rightarrow> CanonicalInteractiveObjectState \<Rightarrow> bool" where
  "allowed_change entry old s \<longleftrightarrow> stateMatchesCatalog s entry
     \<and> (lockState s = Locked \<longrightarrow> lockState old = Locked) \<and> (trapState s = Armed \<longrightarrow> trapState old = Armed)
     \<and> (doorState s \<noteq> doorState old \<longrightarrow> ent_kind entry = StandardDoor \<and> lockState old = Unlocked \<and> trapState old = Disarmed)"

lemma commitObject_cases:
  assumes "commitObject w old change code tp sp tick = (w', staged)"
  obtains (exhausted) "w' = w" "staged = refused (objectId old) ObjRevisionExhausted"
    | (commit) rev where "next_value (o_revision old) = Some rev"
        "w' = putObject ((change old)\<lparr>o_revision := rev, o_lastChangeTick := tick\<rparr>) w" "st_worldChanged staged"
        "st_previousState staged = Some old" "oo_code (st_outcome staged) = code" "oo_playerTeleport (st_outcome staged) = tp"
  using assms by (auto simp: commitObject_def Let_def stateOutcome_def refusedOutcome_def split: option.splits)

lemma interaction_guards:
  assumes "applyObjectInteractionToCandidate w cat state cmd tick ctx = (w', staged)"
  obtains (refused) code where "w' = w" "staged = refused (ic_objectId cmd) code" "code \<noteq> ObjSuccess" "code \<noteq> TrapSprung"
    | (accepted) ps old entry where "findPlayer state (ic_player cmd) = Some ps" "findObject w (ic_objectId cmd) = Some old"
        "findEntry cat (ic_objectId cmd) = Some entry" "stateMatchesCatalog old entry" "t_cell (transform ps) = ic_cell cmd"
        "o_cell old = ic_cell cmd" "o_revision old = ic_expectedRevision cmd" "o_lastChangeTick old \<le> tick"
        "positionsWithinReach (t_position (transform ps)) (t_position (ent_transform entry)) (ov_maxReach ctx)"
        "positionsWithinReach (t_position (transform ps)) (ic_origin cmd) (ov_maxReach ctx)"
        "positionsWithinReach (ic_origin cmd) (t_position (ent_transform entry)) (ov_maxReach ctx)"
        "interactWithObject w entry old cmd (ov_verifiedPlayerKeys ctx) tick = (w', staged)"
  using assms unfolding applyObjectInteractionToCandidate_def Let_def
  by (auto split: option.splits if_splits simp: not_less)

text \<open>The key that opens a locked object was asked for and is one of the keys verified for the player.\<close>

definition opened_with_key :: "InteractObjectCommand \<Rightarrow> KeyPrototypeId list \<Rightarrow> CanonicalInteractiveObjectState \<Rightarrow> bool" where
  "opened_with_key cmd keys old \<longleftrightarrow> ic_kind cmd = UnlockWithKey
     \<and> (\<exists>k. o_keyId old = Some k \<and> ic_requestedKey cmd = Some k \<and> k \<in> set keys)"

lemma interactWithObject_cases:
  assumes run: "interactWithObject w entry old cmd keys tick = (w', staged)" and cat: "stateMatchesCatalog old entry"
  obtains (same) "w' = w" "\<not> st_worldChanged staged"
    | (changed) s where "w' = putObject s w" "objectId s = objectId old" "next_value (o_revision old) = Some (o_revision s)"
        "o_lastChangeTick s = tick" "allowed_change entry old s" "st_worldChanged staged" "st_previousState staged = Some old"
        "oo_code (st_outcome staged) = ObjSuccess \<or> oo_code (st_outcome staged) = TrapSprung"
        "lockState old = Locked \<Longrightarrow> opened_with_key cmd keys old"
        "oo_playerTeleport (st_outcome staged) \<noteq> None \<Longrightarrow> lockState old = Unlocked \<and> trapState old = Disarmed"
proof -
  have commit: thesis
    if c: "commitObject w old change code tp sp tick = (w', staged)" and code: "code = ObjSuccess \<or> code = TrapSprung"
      and a: "\<And>rev. allowed_change entry old ((change old)\<lparr>o_revision := rev, o_lastChangeTick := tick\<rparr>)"
      and key: "lockState old = Locked \<Longrightarrow> opened_with_key cmd keys old" and tp: "tp \<noteq> None \<Longrightarrow> lockState old = Unlocked \<and> trapState old = Disarmed"
    for change code tp sp
    using c
  proof (cases rule: commitObject_cases)
    case exhausted
    with same show thesis by (simp add: refused_def)
  next
    case (commit rev)
    have "objectId (change old) = objectId old" using a [of rev] cat by (simp add: allowed_change_def stateMatchesCatalog_def)
    with commit changed [of "(change old)\<lparr>o_revision := rev, o_lastChangeTick := tick\<rparr>"] a key tp code show thesis by simp
  qed
  have door: "ent_kind entry \<noteq> TeleportDoor \<Longrightarrow> ent_kind entry = StandardDoor" by (cases "ent_kind entry") simp_all
  have states: "lockState old \<noteq> Locked \<Longrightarrow> lockState old = Unlocked" "trapState old \<noteq> Armed \<Longrightarrow> trapState old = Disarmed"
    by (cases "lockState old", simp_all, cases "trapState old", simp_all)
  consider (noop) "w' = w" "\<not> st_worldChanged staged"
    | (key) "opened_with_key cmd keys old"
        "commitObject w old (\<lambda>s. s\<lparr>lockState := Unlocked, trapState := Disarmed\<rparr>) ObjSuccess None None tick = (w', staged)"
    | (trap) "lockState old \<noteq> Locked" "commitObject w old (\<lambda>s. s\<lparr>trapState := Disarmed\<rparr>) TrapSprung None (trapId old) tick = (w', staged)"
    | (teleport) "lockState old \<noteq> Locked" "trapState old \<noteq> Armed"
        "commitObject w old (\<lambda>s. s) ObjSuccess (ent_destination entry) None tick = (w', staged)"
    | (toggle) "lockState old \<noteq> Locked" "trapState old \<noteq> Armed" "ent_kind entry \<noteq> TeleportDoor"
        "commitObject w old (\<lambda>s. s\<lparr>doorState := toggleDoor (doorState s)\<rparr>) ObjSuccess None None tick = (w', staged)"
    using run unfolding interactWithObject_def
    by (auto split: if_splits option.splits simp: refused_def opened_with_key_def)
  then show thesis
  proof cases
    case noop
    then show thesis by (rule same)
  next
    case key
    show thesis by (rule commit [OF key(2)]) (use key cat in \<open>simp_all add: allowed_change_def stateMatchesCatalog_def\<close>)
  next
    case trap
    show thesis by (rule commit [OF trap(2)]) (use trap cat in \<open>simp_all add: allowed_change_def stateMatchesCatalog_def\<close>)
  next
    case teleport
    show thesis by (rule commit [OF teleport(3)]) (use teleport cat states in \<open>simp_all add: allowed_change_def stateMatchesCatalog_def\<close>)
  next
    case toggle
    show thesis by (rule commit [OF toggle(4)]) (use toggle cat door states in \<open>simp_all add: allowed_change_def stateMatchesCatalog_def\<close>)
  qed
qed

lemma interaction_cases:
  assumes w: "objects_sorted w" and run: "applyObjectInteractionToCandidate w cat state cmd tick ctx = (w', staged)"
  obtains (same) "w' = w" "st_worldChanged staged \<Longrightarrow> False"
    | (changed) ps old entry s where "findPlayer state (ic_player cmd) = Some ps" "findObject w (ic_objectId cmd) = Some old"
        "findEntry cat (ic_objectId cmd) = Some entry" "objectId old = ic_objectId cmd" "objectId s = objectId old"
        "w' = putObject s w" "next_value (o_revision old) = Some (o_revision s)"
        "o_lastChangeTick s = tick" "allowed_change entry old s" "st_worldChanged staged" "st_previousState staged = Some old"
        "oo_code (st_outcome staged) = ObjSuccess \<or> oo_code (st_outcome staged) = TrapSprung"
        "lockState old = Locked \<Longrightarrow> opened_with_key cmd (ov_verifiedPlayerKeys ctx) old"
        "oo_playerTeleport (st_outcome staged) \<noteq> None \<Longrightarrow> lockState old = Unlocked \<and> trapState old = Disarmed"
  using run
proof (cases rule: interaction_guards)
  case (refused code)
  with same show thesis by (simp add: refused_def)
next
  case (accepted ps old entry)
  have id: "objectId old = ic_objectId cmd" using object_table.lookup_keyD [OF w accepted(2)] .
  from accepted(12,4) show thesis
  proof (cases rule: interactWithObject_cases)
    case same
    with \<open>\<lbrakk>w' = w; st_worldChanged staged \<Longrightarrow> False\<rbrakk> \<Longrightarrow> thesis\<close> show thesis by blast
  next
    case (changed s)
    then show thesis using accepted(1-3) id by (intro that(2) [of ps old entry s]) simp_all
  qed
qed

lemma interaction_ok_expected:
  assumes "applyObjectInteractionToCandidate w cat state cmd tick ctx = (w', staged)"
    and "oo_code (st_outcome staged) = ObjSuccess \<or> oo_code (st_outcome staged) = TrapSprung"
  shows "\<exists>old. findObject w (ic_objectId cmd) = Some old \<and> o_revision old = ic_expectedRevision cmd"
  using assms(1)
proof (cases rule: interaction_guards)
  case (refused code)
  with assms(2) show ?thesis by (simp add: refused_def refusedOutcome_def)
qed blast

lemma interaction_previous:
  "applyObjectInteractionToCandidate w cat state cmd tick ctx = (w', staged) \<Longrightarrow>
     st_previousState staged = None \<longleftrightarrow> \<not> st_worldChanged staged"
  by (auto simp: applyObjectInteractionToCandidate_def interactWithObject_def commitObject_def refused_def Let_def
      split: option.splits if_splits)

lemma interaction_teleport:
  "applyObjectInteractionToCandidate w cat state cmd tick ctx = (w', staged) \<Longrightarrow>
     oo_playerTeleport (st_outcome staged) \<noteq> None \<Longrightarrow> st_worldChanged staged"
  by (auto simp: applyObjectInteractionToCandidate_def interactWithObject_def commitObject_def refused_def refusedOutcome_def
      stateOutcome_def Let_def split: option.splits if_splits)

definition object_revision :: "CanonicalInteractiveObjectWorld \<Rightarrow> InteractiveObjectId \<Rightarrow> nat" where
  "object_revision w i = (case findObject w i of Some s \<Rightarrow> unat (o_revision s) | None \<Rightarrow> 0)"

interpretation object_commands: revisioned_handler
  "\<lambda>(cat, state, tick, ctx) w cmd. applyObjectInteractionToCandidate w cat state cmd tick ctx"
  "\<lambda>staged. oo_code (st_outcome staged) = ObjSuccess \<or> oo_code (st_outcome staged) = TrapSprung"
  objects_sorted "\<lambda>w cmd. object_revision w (ic_objectId cmd)" "\<lambda>cmd. unat (ic_expectedRevision cmd)"
proof (unfold_locales, goal_cases)
  case (1 w e cmd w' staged)
  then show ?case by (cases e) (auto elim: interaction_cases)
next
  case (2 w e cmd w' staged)
  then show ?case by (cases e) (auto simp: object_revision_def dest!: interaction_ok_expected)
next
  case (3 w e cmd w' staged)
  obtain cat state tick ctx where e: "e = (cat, state, tick, ctx)" by (cases e)
  then have run: "applyObjectInteractionToCandidate w cat state cmd tick ctx = (w', staged)" using 3(2) by simp
  from 3(1) run show ?case
  proof (cases rule: interaction_cases)
    case same
    with 3 show ?thesis by simp
  next
    case (changed ps old entry s)
    then show ?thesis using object_table.lookup_replace_same [OF 3(1), of s] next_value_unat [OF changed(7)]
      by (simp add: object_revision_def)
  qed
next
  case (4 w e cmd w' staged)
  then show ?case by (cases e) (auto elim: interaction_cases intro: object_table.invar_replace)
qed

section \<open>The object world as a state machine\<close>

inductive objects_step ::
  "InteractiveObjectCatalog \<Rightarrow> CanonicalInteractiveObjectWorld \<Rightarrow> CanonicalInteractiveObjectWorld \<Rightarrow> bool" for cat where
  step_interaction: "objects_step cat w (fst (applyObjectInteractionToCandidate w cat state cmd tick ctx))"
| step_security: "objects_step cat w (fst (applySecurityResult w i expected mutation succeeded tick))"

inductive objects_reachable :: "InteractiveObjectCatalog \<Rightarrow> CanonicalInteractiveObjectWorld \<Rightarrow> bool" for cat where
  reachable_initial: "createInitialCanonicalInteractiveObjectWorld cat = Inr w \<Longrightarrow> objects_reachable cat w"
| reachable_restored: "restoreCanonicalInteractiveObjectWorld cat os = Inr w \<Longrightarrow> objects_reachable cat w"
| reachable_object_step: "objects_reachable cat w \<Longrightarrow> objects_step cat w w' \<Longrightarrow> objects_reachable cat w'"

text \<open>What a step may do to one object: it never locks or arms it again, and its revision never goes back.\<close>

definition object_progress :: "CanonicalInteractiveObjectState \<Rightarrow> CanonicalInteractiveObjectState \<Rightarrow> bool" where
  "object_progress a b \<longleftrightarrow> objectId b = objectId a \<and> (lockState b = Locked \<longrightarrow> lockState a = Locked)
     \<and> (trapState b = Armed \<longrightarrow> trapState a = Armed) \<and> o_revision a \<le> o_revision b"

lemma object_progress_refl: "object_progress a a"
  by (simp add: object_progress_def)

lemma object_progress_trans: "object_progress a b \<Longrightarrow> object_progress b c \<Longrightarrow> object_progress a c"
  by (auto simp: object_progress_def)

lemma next_value_le: "next_value a = Some b \<Longrightarrow> a \<le> b"
  using next_value_less by (simp add: less_imp_le)

lemma allowed_progress:
  "allowed_change entry old s \<Longrightarrow> objectId s = objectId old \<Longrightarrow> next_value (o_revision old) = Some (o_revision s) \<Longrightarrow> object_progress old s"
  by (auto simp: object_progress_def allowed_change_def dest: next_value_le)

lemma allowed_restorable:
  assumes "allowed_change entry old s" and "restorableState entry old"
  shows "restorableState entry s"
proof -
  have flip: "l \<noteq> Unlocked \<longleftrightarrow> l = Locked" "t \<noteq> Disarmed \<longleftrightarrow> t = Armed" for l t by (metis LockState.exhaust LockState.distinct(1), metis TrapState.exhaust TrapState.distinct(1))
  show ?thesis using assms unfolding allowed_change_def restorableState_def flip
    by (metis InteractiveObjectKind.distinct(1))
qed

text \<open>A step either leaves the world alone or puts back one object that made progress.\<close>

definition progress_step :: "InteractiveObjectCatalog \<Rightarrow> CanonicalInteractiveObjectWorld \<Rightarrow> CanonicalInteractiveObjectWorld \<Rightarrow> bool" where
  "progress_step cat w w' \<longleftrightarrow> w' = w \<or> (\<exists>old s. findObject w (objectId s) = Some old \<and> w' = putObject s w \<and> object_progress old s
      \<and> (\<forall>e. findEntry cat (objectId s) = Some e \<longrightarrow> restorableState e old \<longrightarrow> restorableState e s))"

lemma interaction_progress:
  assumes "objects_sorted w" and run: "applyObjectInteractionToCandidate w cat state cmd tick ctx = (w', staged)"
  shows "progress_step cat w w'"
  using assms
proof (cases rule: interaction_cases)
  case (changed ps old entry s)
  then have "findObject w (objectId s) = Some old" "object_progress old s"
    and "\<forall>e. findEntry cat (objectId s) = Some e \<longrightarrow> restorableState e old \<longrightarrow> restorableState e s"
    using allowed_progress [OF changed(9,5,7)] allowed_restorable [OF changed(9)] by auto
  with changed(6) show ?thesis by (auto simp: progress_step_def)
qed (simp add: progress_step_def)

lemma security_progress:
  assumes "objects_sorted w" and run: "applySecurityResult w i expected mutation succeeded tick = (w', result)"
  shows "progress_step cat w w'"
proof (cases "w' = w")
  case False
  then obtain old revision where old: "findObject w i = Some old" and rev: "next_value (o_revision old) = Some revision"
    and w': "w' = putObject (old\<lparr>lockState := (if mutation = Unlock then Unlocked else lockState old),
        trapState := (if mutation = Disarm then Disarmed else trapState old), o_revision := revision, o_lastChangeTick := tick\<rparr>) w"
      (is "_ = putObject ?s w")
    using run by (auto simp: applySecurityResult_def split: option.splits if_splits)
  have id: "objectId ?s = i" using object_table.lookup_keyD [OF assms(1) old] by simp
  have "object_progress old ?s" using next_value_le [OF rev] by (simp add: object_progress_def)
  moreover have "restorableState e old \<longrightarrow> restorableState e ?s" for e
    by (auto simp: restorableState_def stateMatchesCatalog_def)
  ultimately show ?thesis using old w' id unfolding progress_step_def by metis
qed (simp add: progress_step_def)

lemma step_progress: "objects_sorted w \<Longrightarrow> objects_step cat w w' \<Longrightarrow> progress_step cat w w'"
  by (elim objects_step.cases) (metis interaction_progress prod.collapse, metis security_progress prod.collapse)

lemma progress_sorted: "objects_sorted w \<Longrightarrow> progress_step cat w w' \<Longrightarrow> objects_sorted w'"
  by (auto simp: progress_step_def intro: object_table.invar_replace)

lemma reachable_objects_ok:
  assumes "object_catalog_ok cat" and "objects_reachable cat w"
  shows "objects_ok cat w"
  using assms(2)
proof induction
  case (reachable_object_step w w')
  have "progress_step cat w w'"
    using step_progress [OF objects_ok_sorted [OF assms(1) reachable_object_step.IH]] reachable_object_step.hyps(2) by blast
  then show ?case
    using reachable_object_step.IH objects_ok_put [OF assms(1) reachable_object_step.IH] by (auto simp: progress_step_def)
next
  case (reachable_initial w)
  then show ?case by (rule initial_objects_ok)
qed (auto simp: restore_iff createObjects_iff objects_ok_def)

lemma progress_lookup:
  assumes "objects_sorted w" and "progress_step cat w w'" and "findObject w i = Some a"
  shows "\<exists>b. findObject w' i = Some b \<and> object_progress a b"
  using assms(2) unfolding progress_step_def
proof (elim disjE exE conjE)
  assume "w' = w" then show ?thesis using assms(3) object_progress_refl by blast
next
  fix old s assume old: "findObject w (objectId s) = Some old" "w' = putObject s w" "object_progress old s"
  then have "findObject w' i = (if i = objectId s then Some s else findObject w i)"
    using object_table.lookup_replace [OF assms(1), of s i] by simp
  then show ?thesis using assms(3) old object_progress_refl by auto
qed

lemma run_progress:
  assumes "(objects_step cat)\<^sup>*\<^sup>* w w'" and "objects_sorted w" and "findObject w i = Some a"
  shows "objects_sorted w' \<and> (\<exists>b. findObject w' i = Some b \<and> object_progress a b)"
  using assms
proof (induction rule: rtranclp_induct)
  case base
  then show ?case using object_progress_refl by blast
next
  case (step w1 w2)
  then obtain b where sorted: "objects_sorted w1" and b: "findObject w1 i = Some b" "object_progress a b" by blast
  have p: "progress_step cat w1 w2" by (rule step_progress [OF sorted step.hyps(2)])
  with progress_lookup [OF sorted p b(1)] progress_sorted [OF sorted p] b(2) show ?case
    using object_progress_trans by blast
qed

lemma reachable_bound: "objects_reachable cat w \<Longrightarrow> length (ocat_entries cat) \<le> MaximumInteractiveObjectCatalogEntries"
  by (induction rule: objects_reachable.induct)
    (auto simp: createInitialCanonicalInteractiveObjectWorld_def restore_iff createObjects_iff dest!: list_all2_lengthD)

section \<open>What may change an object\<close>

lemma interaction_changes:
  assumes sorted: "objects_sorted w" and run: "applyObjectInteractionToCandidate w cat state cmd tick ctx = (w', staged)"
    and old: "findObject w i = Some old"
  shows "(\<exists>s. findObject w' i = Some s
          \<and> (s \<noteq> old \<longrightarrow> i = ic_objectId cmd
               \<and> (lockState old = Locked \<longrightarrow> ic_kind cmd = UnlockWithKey
                    \<and> (\<exists>k. o_keyId old = Some k \<and> ic_requestedKey cmd = Some k \<and> k \<in> set (ov_verifiedPlayerKeys ctx))))
          \<and> (doorState s \<noteq> doorState old \<longrightarrow> lockState old = Unlocked \<and> trapState old = Disarmed))
       \<and> (i = ic_objectId cmd \<and> oo_playerTeleport (st_outcome staged) \<noteq> None \<longrightarrow> lockState old = Unlocked \<and> trapState old = Disarmed)"
  using sorted run
proof (cases rule: interaction_cases)
  case same
  with interaction_teleport [OF run] old show ?thesis by auto
next
  case (changed ps prev entry t)
  then have "findObject w' i = (if i = objectId t then Some t else Some old)"
    using object_table.lookup_replace [OF sorted, of t i] old by simp
  moreover have "i = objectId t \<Longrightarrow> prev = old" using changed old by simp
  ultimately show ?thesis using changed by (auto simp: allowed_change_def opened_with_key_def)
qed

lemma security_changes:
  assumes sorted: "objects_sorted w" and run: "applySecurityResult w k expected mutation succeeded tick = (w', result)"
    and old: "findObject w i = Some old"
  shows "\<exists>s. findObject w' i = Some s
          \<and> (s \<noteq> old \<longrightarrow> i = k \<and> succeeded \<and> expected = o_revision old \<and> result = MutationApplied
               \<and> (if mutation = Unlock then lockState old = Locked \<and> lockState s = Unlocked else lockState s = lockState old)
               \<and> (if mutation = Disarm then trapState old = Armed \<and> trapState s = Disarmed else trapState s = trapState old)
               \<and> doorState s = doorState old)"
proof (cases "w' = w")
  case False
  then obtain prev revision where prev: "findObject w k = Some prev"
    and guards: "o_revision prev = expected" "mutation = Unlock \<longrightarrow> lockState prev = Locked" "mutation = Disarm \<longrightarrow> trapState prev = Armed"
      "succeeded" "result = MutationApplied"
    and w': "w' = putObject (prev\<lparr>lockState := (if mutation = Unlock then Unlocked else lockState prev),
        trapState := (if mutation = Disarm then Disarmed else trapState prev), o_revision := revision, o_lastChangeTick := tick\<rparr>) w"
      (is "_ = putObject ?s w")
    using run by (auto simp: applySecurityResult_def split: option.splits if_splits)
  have id: "objectId ?s = k" using object_table.lookup_keyD [OF sorted prev] by simp
  then have at: "findObject w' i = (if i = k then Some ?s else Some old)"
    using object_table.lookup_replace [OF sorted, of ?s i] prev old w' by simp
  show ?thesis
  proof (cases "i = k")
    case True
    with prev old have "prev = old" by simp
    with at True guards show ?thesis by (intro exI [of _ ?s]) simp
  qed (simp add: at)
qed (simp add: old)

section \<open>Sample door\<close>

definition sample_door :: InteractiveObjectCatalogEntry where
  "sample_door = \<lparr>ent_id = 5, ent_kind = StandardDoor, ent_cell = InteriorCell 7, ent_transform = sample_transform,
     ent_destination = None, ent_lock = \<lparr>lockedByDefault = True, declaredLockLevel = 20, declaredKey = Some 9\<rparr>,
     ent_trap = \<lparr>trappedByDefault = False, declaredTrap = None, disarmDifficulty = 0\<rparr>\<rparr>"

definition sample_doors :: InteractiveObjectCatalog where
  "sample_doors = \<lparr>ocat_manifestId = sample_manifest_id, ocat_entries = [sample_door]\<rparr>"

definition sample_door_world :: CanonicalInteractiveObjectWorld where
  "sample_door_world = \<lparr>objects = [initialObjectState sample_door]\<rparr>"

definition sample_unlock :: InteractObjectCommand where
  "sample_unlock = \<lparr>ic_player = 3, ic_objectId = 5, ic_cell = InteriorCell 7, ic_origin = t_position sample_transform,
     ic_expectedRevision = 1, ic_kind = UnlockWithKey, ic_requestedKey = Some 9, ic_requestedTool = None,
     ic_expectedInventoryRevision = None, ic_expectedCombatRevision = None\<rparr>"

definition sample_keys :: ObjectInteractionValidationContext where
  "sample_keys = \<lparr>ov_maxReach = 384, ov_verifiedPlayerKeys = [9]\<rparr>"

definition sample_unlocked :: CanonicalInteractiveObjectWorld where
  "sample_unlocked = fst (applyObjectInteractionToCandidate sample_door_world sample_doors sample_state sample_unlock 5 sample_keys)"

lemma sample_doors_ok: "object_catalog_ok sample_doors"
  by (simp add: object_catalog_ok_def sample_doors_def)

lemma sample_door_reachable: "objects_reachable sample_doors sample_door_world"
  by (rule reachable_initial)
    (simp add: createInitialCanonicalInteractiveObjectWorld_def createObjects_iff sample_doors_def sample_door_world_def
      MaximumInteractiveObjectCatalogEntries_def)

lemma sample_door_steps: "objects_step sample_doors sample_door_world sample_unlocked"
  unfolding sample_unlocked_def by (rule step_interaction)

lemma sample_door_unlocked: "map lockState (objects sample_unlocked) = [Unlocked]"
  by code_simp


section \<open>Properties\<close>

text \<open>
  C14. Whatever interactions and security attempts happen, the world stays one that its catalog
  allows: storing it and restoring it against the catalog gives the same world, and a door that
  teleports is never open, an object that is not locked or trapped by default never is.
\<close>

theorem objects_restore_roundtrip:
  assumes "createInteractiveObjectCatalog m es = Some cat" and "objects_reachable cat w"
  shows "restoreCanonicalInteractiveObjectWorld cat (objects w) = Inr w"
proof -
  have cat: "object_catalog_ok cat" using assms(1) by (rule created_catalog_ok)
  have ok: "objects_ok cat w" using cat assms(2) by (rule reachable_objects_ok)
  then have "length (objects w) = length (ocat_entries cat)" by (simp add: objects_ok_def list_all2_lengthD)
  then show ?thesis
    using ok objects_ok_sorted [OF cat ok] reachable_bound [OF assms(2)]
    by (simp add: restore_iff createObjects_iff objects_ok_def objects_sorted_def)
qed

theorem objects_restore_roundtrip_witness:
  "restoreCanonicalInteractiveObjectWorld sample_doors (objects sample_unlocked) = Inr sample_unlocked"
proof -
  have "createInteractiveObjectCatalog sample_manifest [sample_door] = Some sample_doors" by code_simp
  then show ?thesis
    using objects_restore_roundtrip reachable_object_step [OF sample_door_reachable sample_door_steps] by blast
qed

text \<open>
  C19. In a world reached by interactions and security attempts, an interaction changes no object but the one
  it names, and that one, when it is locked, only if the
  command asks to unlock it with the object's own key and that key is among those verified for the
  player; a door moves, or takes a player to its destination, only when it is unlocked and no trap
  is armed. The other way to change an object is the result of a security attempt: it changes only the
  object it names, at the revision it expects, only when the attempt succeeded, and then unlocks it if the
  attempt was to unlock, disarms it if it was to disarm, and moves no door.
\<close>

theorem locked_object_needs_key:
  assumes "objects_reachable cat w" and "object_catalog_ok cat" and "findObject w i = Some old"
  shows "(case applyObjectInteractionToCandidate w cat state cmd tick ctx of (w', staged) \<Rightarrow>
       (\<exists>s. findObject w' i = Some s
          \<and> (s \<noteq> old \<longrightarrow> i = ic_objectId cmd
               \<and> (lockState old = Locked \<longrightarrow> ic_kind cmd = UnlockWithKey
                    \<and> (\<exists>k. o_keyId old = Some k \<and> ic_requestedKey cmd = Some k \<and> k \<in> set (ov_verifiedPlayerKeys ctx))))
          \<and> (doorState s \<noteq> doorState old \<longrightarrow> lockState old = Unlocked \<and> trapState old = Disarmed))
       \<and> (i = ic_objectId cmd \<and> oo_playerTeleport (st_outcome staged) \<noteq> None \<longrightarrow> lockState old = Unlocked \<and> trapState old = Disarmed))
    \<and> (case applySecurityResult w k expected mutation succeeded tick' of (w', result) \<Rightarrow>
       \<exists>s. findObject w' i = Some s
          \<and> (s \<noteq> old \<longrightarrow> i = k \<and> succeeded \<and> expected = o_revision old \<and> result = MutationApplied
               \<and> (if mutation = Unlock then lockState old = Locked \<and> lockState s = Unlocked else lockState s = lockState old)
               \<and> (if mutation = Disarm then trapState old = Armed \<and> trapState s = Disarmed else trapState s = trapState old)
               \<and> doorState s = doorState old))"
proof -
  have sorted: "objects_sorted w" by (rule objects_ok_sorted [OF assms(2) reachable_objects_ok [OF assms(2,1)]])
  obtain w1 staged where interaction: "applyObjectInteractionToCandidate w cat state cmd tick ctx = (w1, staged)" by fastforce
  obtain w2 result where security: "applySecurityResult w k expected mutation succeeded tick' = (w2, result)" by fastforce
  show ?thesis unfolding interaction security prod.case
    by (rule conjI [OF interaction_changes [OF sorted interaction assms(3)] security_changes [OF sorted security assms(3)]])
qed

theorem locked_object_needs_key_witness:
  "\<exists>old s. findObject sample_door_world 5 = Some old \<and> lockState old = Locked
     \<and> findObject sample_unlocked 5 = Some s \<and> lockState s = Unlocked
     \<and> (\<exists>k. o_keyId old = Some k \<and> ic_requestedKey sample_unlock = Some k \<and> k \<in> set (ov_verifiedPlayerKeys sample_keys))"
proof -
  define old where "old = initialObjectState sample_door"
  have old: "findObject sample_door_world 5 = Some old" unfolding old_def by code_simp
  have s: "findObject sample_unlocked 5 = Some (old\<lparr>lockState := Unlocked, o_revision := 2, o_lastChangeTick := 5\<rparr>)"
    unfolding old_def by code_simp
  have locked: "lockState old = Locked" unfolding old_def by code_simp
  obtain staged where run: "applyObjectInteractionToCandidate sample_door_world sample_doors sample_state sample_unlock 5 sample_keys
      = (sample_unlocked, staged)" by (metis sample_unlocked_def prod.collapse)
  from locked_object_needs_key [where state = sample_state and cmd = sample_unlock and tick = 5 and ctx = sample_keys,
      OF sample_door_reachable sample_doors_ok old, THEN conjunct1, unfolded run prod.case]
  obtain t where t: "findObject sample_unlocked 5 = Some t" and key: "t \<noteq> old \<Longrightarrow>
      \<exists>k. o_keyId old = Some k \<and> ic_requestedKey sample_unlock = Some k \<and> k \<in> set (ov_verifiedPlayerKeys sample_keys)"
    using locked by blast
  have "t = old\<lparr>lockState := Unlocked, o_revision := 2, o_lastChangeTick := 5\<rparr>" using t s by simp
  then have unlocked: "lockState t = Unlocked" by simp
  then have "t \<noteq> old" using locked by auto
  with old locked t unlocked key show ?thesis by blast
qed

text \<open>
  A staged interaction can be rolled back: restoring the previous state it returns gives the
  candidate world as it was before, and an interaction that returns none has changed nothing.
\<close>

theorem staged_interaction_undo:
  assumes "objects_reachable cat w" and "object_catalog_ok cat"
    and "applyObjectInteractionToCandidate w cat state cmd tick ctx = (w', staged)"
  shows "case st_previousState staged of
           Some old \<Rightarrow> st_worldChanged staged \<and> restoreInteractiveObjectCandidate w' old = (w, True)
         | None \<Rightarrow> \<not> st_worldChanged staged \<and> w' = w"
proof -
  have sorted: "objects_sorted w" by (rule objects_ok_sorted [OF assms(2) reachable_objects_ok [OF assms(2,1)]])
  show ?thesis using sorted assms(3)
  proof (cases rule: interaction_cases)
    case same
    then have "st_previousState staged = None" using interaction_previous [OF assms(3)] by auto
    with same show ?thesis by auto
  next
    case (changed ps old entry s)
    then show ?thesis
      using object_table.replace_undo [OF sorted, of s old] object_table.lookup_replace_same [OF sorted, of s]
      by (auto simp: restoreInteractiveObjectCandidate_def)
  qed
qed

theorem staged_interaction_undo_witness:
  "\<exists>old. restoreInteractiveObjectCandidate sample_unlocked old = (sample_door_world, True)"
proof -
  let ?run = "applyObjectInteractionToCandidate sample_door_world sample_doors sample_state sample_unlock 5 sample_keys"
  have "st_worldChanged (snd ?run)" by code_simp
  with staged_interaction_undo [OF sample_door_reachable sample_doors_ok, of sample_state sample_unlock 5 sample_keys sample_unlocked "snd ?run"]
  show ?thesis by (auto simp: sample_unlocked_def split: option.splits)
qed

text \<open>
  Over any number of interactions and security attempts an object once unlocked stays
  unlocked, once disarmed stays disarmed, and its revision never goes back.
\<close>

theorem objects_only_open:
  assumes "objects_reachable cat w" and "object_catalog_ok cat" and "(objects_step cat)\<^sup>*\<^sup>* w w'" and "findObject w i = Some a"
  shows "\<exists>b. findObject w' i = Some b \<and> (lockState a = Unlocked \<longrightarrow> lockState b = Unlocked)
     \<and> (trapState a = Disarmed \<longrightarrow> trapState b = Disarmed) \<and> o_revision a \<le> o_revision b"
proof -
  have "objects_sorted w" by (rule objects_ok_sorted [OF assms(2) reachable_objects_ok [OF assms(2,1)]])
  from run_progress [OF assms(3) this assms(4)] obtain b where b: "findObject w' i = Some b" "object_progress a b" by blast
  then have "lockState a = Unlocked \<longrightarrow> lockState b = Unlocked" "trapState a = Disarmed \<longrightarrow> trapState b = Disarmed"
    by (cases "lockState b"; cases "trapState b"; auto simp: object_progress_def)+
  with b show ?thesis by (auto simp: object_progress_def)
qed

theorem objects_only_open_witness:
  "\<exists>b. findObject sample_unlocked 5 = Some b \<and> 1 \<le> o_revision b"
proof -
  have "findObject sample_door_world 5 = Some (initialObjectState sample_door)" by code_simp
  moreover have "o_revision (initialObjectState sample_door) = 1" by code_simp
  ultimately show ?thesis
    using objects_only_open [OF sample_door_reachable sample_doors_ok r_into_rtranclp [of "objects_step sample_doors", OF sample_door_steps], of 5] by auto
qed

text \<open>
  An interaction that changed an object is refused when it is sent again, in whatever
  circumstances, and changes nothing.
\<close>

theorem interaction_resend_rejected:
  assumes "objects_reachable cat w" and "object_catalog_ok cat"
    and "applyObjectInteractionToCandidate w cat state cmd tick ctx = (w', staged)" and "st_worldChanged staged"
    and "applyObjectInteractionToCandidate w' cat2 state2 cmd tick2 ctx2 = (w2, staged2)"
  shows "w2 = w' \<and> oo_code (st_outcome staged2) \<noteq> ObjSuccess \<and> oo_code (st_outcome staged2) \<noteq> TrapSprung"
proof -
  have sorted: "objects_sorted w" by (rule objects_ok_sorted [OF assms(2) reachable_objects_ok [OF assms(2,1)]])
  have "w' \<noteq> w" using sorted assms(3)
  proof (cases rule: interaction_cases)
    case (changed ps old entry s)
    then have "findObject w' (ic_objectId cmd) = Some s" using object_table.lookup_replace_same [OF sorted, of s] by simp
    moreover have "s \<noteq> old" using next_value_less [OF changed(7)] by auto
    ultimately show ?thesis using changed(2) by auto
  qed (use assms(4) in simp)
  then show ?thesis
    using object_commands.resend_rejected [of w "(cat, state, tick, ctx)" cmd w' staged "(cat2, state2, tick2, ctx2)" w2 staged2]
      sorted assms(3,5) by simp
qed

theorem interaction_resend_rejected_witness:
  "fst (applyObjectInteractionToCandidate sample_unlocked sample_doors sample_state sample_unlock 6 sample_keys) = sample_unlocked"
proof -
  let ?run = "applyObjectInteractionToCandidate sample_door_world sample_doors sample_state sample_unlock 5 sample_keys"
  have "st_worldChanged (snd ?run)" by code_simp
  moreover have "?run = (sample_unlocked, snd ?run)" by (simp add: sample_unlocked_def)
  ultimately show ?thesis
    using interaction_resend_rejected [OF sample_door_reachable sample_doors_ok] by (metis prod.collapse)
qed

text \<open>
  A catalog is created exactly from entries with distinct non-zero ids, in cells of the
  manifest and of one cell each, with consistent locks, traps and destinations, and with no
  more than the limit in any one cell; the catalog holds those entries sorted by id.
\<close>

theorem createInteractiveObjectCatalog_iff:
  "createInteractiveObjectCatalog m es = Some cat \<longleftrightarrow>
     length es \<le> MaximumInteractiveObjectCatalogEntries \<and> distinct (map ent_id es) \<and> (\<forall>e \<in> set es. entry_ok m e)
     \<and> (\<forall>c. count_list (map ent_cell es) c \<le> MaximumInteractiveObjectsPerCell)
     \<and> cat = \<lparr>ocat_manifestId = mId m, ocat_entries = sort_key ent_id es\<rparr>"
  by (rule create_catalog_lemma)

theorem createInteractiveObjectCatalog_iff_witness:
  "distinct (map ent_id [sample_door]) \<and> entry_ok sample_manifest sample_door"
proof -
  have "createInteractiveObjectCatalog sample_manifest [sample_door] = Some sample_doors" by code_simp
  then show ?thesis using createInteractiveObjectCatalog_iff [of sample_manifest "[sample_door]" sample_doors] by simp
qed

end
