(* ===== verification/Protocol_Handshake.thy ===== *)
theory Protocol_Handshake
  imports Protocol_Frame Content_Identity
begin

text \<open>
  The handshake that opens a session (\<^verbatim>\<open>protocol/protocol_handshake.cpp\<close>): version ranges,
  capability offers, their validation, and the negotiation a server performs on a client's
  hello. The FlatBuffers encoding of the three messages is generated code: the schema (builder,
  identifier test, verifier and accessor) is an argument of the decoders.
\<close>

section \<open>Messages\<close>

definition MaximumOptionalCapabilityCount :: nat where
  "MaximumOptionalCapabilityCount = 37"

definition MaximumRequiredCapabilityCount :: nat where
  "MaximumRequiredCapabilityCount = 32"

definition MaximumNegotiatedCapabilityCount :: nat where
  "MaximumNegotiatedCapabilityCount = MaximumOptionalCapabilityCount + MaximumRequiredCapabilityCount"

type_synonym CapabilityId = u32

definition capabilityFromValue :: "u32 \<Rightarrow> CapabilityId option" where
  "capabilityFromValue v = (if v = 0 then None else Some v)"

record ProtocolVersion =
  pv_major :: u16
  pv_minor :: u16

datatype HandshakeErrorStage = StageSizePrefix | StageIdentifier | StageVerification | StageSemanticValidation

datatype HandshakeErrorCode =
  HsPayloadTooSmall | HsPayloadTooLarge | HsPayloadLengthMismatch | InvalidIdentifier | VerificationFailed
  | InvalidVersionRange | TooManyCapabilities | ZeroCapability | CapabilitiesNotStrictlySorted | CapabilityInBothSets
  | UnknownRejectionReason | MissingRejectionCapability | UnexpectedRejectionCapability | InvalidContentManifestId

record HandshakeError =
  he_stage :: HandshakeErrorStage
  he_code :: HandshakeErrorCode
  he_observed :: nat
  he_limit :: nat
  he_capability :: u32

definition handshakeError ::
  "HandshakeErrorStage \<Rightarrow> HandshakeErrorCode \<Rightarrow> nat \<Rightarrow> nat \<Rightarrow> u32 \<Rightarrow> HandshakeError" where
  "handshakeError stage code observed limit capability =
     \<lparr>he_stage = stage, he_code = code, he_observed = observed, he_limit = limit, he_capability = capability\<rparr>"

record ProtocolVersionRange =
  vr_major :: u16
  vr_minimumMinor :: u16
  vr_maximumMinor :: u16

definition createVersionRange :: "u16 \<Rightarrow> u16 \<Rightarrow> u16 \<Rightarrow> HandshakeError + ProtocolVersionRange" where
  "createVersionRange major minimumMinor maximumMinor =
     (if minimumMinor > maximumMinor \<or> (ucast maximumMinor :: u32) - ucast minimumMinor > 1
      then Inl (handshakeError StageSemanticValidation InvalidVersionRange (unat minimumMinor) (unat maximumMinor) 0)
      else Inr \<lparr>vr_major = major, vr_minimumMinor = minimumMinor, vr_maximumMinor = maximumMinor\<rparr>)"

record CapabilityOffer =
  of_versions :: ProtocolVersionRange
  of_optional :: "CapabilityId list"
  of_required :: "CapabilityId list"
  of_manifest :: ContentManifestId

text \<open>A client's hello is its offer.\<close>

type_synonym ClientHello = CapabilityOffer

record ServerHello =
  sh_version :: ProtocolVersion
  sh_capabilities :: "CapabilityId list"
  sh_manifest :: ContentManifestId

datatype SessionRejectionReason =
  ProtocolMajorMismatch | NoCompatibleMinor | UnsupportedRequiredCapability | ContentManifestMismatch

record SessionRejected =
  sr_reason :: SessionRejectionReason
  sr_versions :: ProtocolVersionRange
  sr_unsupported :: "CapabilityId option"

datatype InitialPeerProtocol = NeedMoreBytes | Vnext | LegacyOrUnknown

section \<open>Offers\<close>

text \<open>The two-index walk over the sorted optional and required capabilities.\<close>

fun validateDisjoint :: "CapabilityId list \<Rightarrow> CapabilityId list \<Rightarrow> HandshakeError option" where
  "validateDisjoint (opt # opts) (req # reqs) =
     (if opt = req then Some (handshakeError StageSemanticValidation CapabilityInBothSets 0 0 opt)
      else if opt < req then validateDisjoint opts (req # reqs)
      else validateDisjoint (opt # opts) reqs)"
| "validateDisjoint _ _ = None"

definition createCapabilityOffer ::
  "ProtocolVersionRange \<Rightarrow> CapabilityId list \<Rightarrow> CapabilityId list \<Rightarrow> ContentManifestId \<Rightarrow> HandshakeError + CapabilityOffer" where
  "createCapabilityOffer versions opts reqs manifest =
     (if length opts > MaximumOptionalCapabilityCount
      then Inl (handshakeError StageSemanticValidation TooManyCapabilities (length opts) MaximumOptionalCapabilityCount 0)
      else if length reqs > MaximumRequiredCapabilityCount
      then Inl (handshakeError StageSemanticValidation TooManyCapabilities (length reqs) MaximumRequiredCapabilityCount 0)
      else if \<not> sorted opts \<or> \<not> no_adjacent_equal opts \<or> \<not> sorted reqs \<or> \<not> no_adjacent_equal reqs
      then Inl (handshakeError StageSemanticValidation CapabilitiesNotStrictlySorted 0 0 0)
      else
        (case validateDisjoint opts reqs of
           Some e \<Rightarrow> Inl e
         | None \<Rightarrow> Inr \<lparr>of_versions = versions, of_optional = opts, of_required = reqs, of_manifest = manifest\<rparr>))"

fun decodeCapabilities :: "u32 \<Rightarrow> u32 list \<Rightarrow> HandshakeError + CapabilityId list" where
  "decodeCapabilities previous [] = Inr []"
| "decodeCapabilities previous (raw # raws) =
     (case capabilityFromValue raw of
        None \<Rightarrow> Inl (handshakeError StageSemanticValidation ZeroCapability 0 0 raw)
      | Some capability \<Rightarrow>
        if raw \<le> previous
        then Inl (handshakeError StageSemanticValidation CapabilitiesNotStrictlySorted (unat raw) (unat previous) raw)
        else (case decodeCapabilities raw raws of Inl e \<Rightarrow> Inl e | Inr cs \<Rightarrow> Inr (capability # cs)))"

definition decodeCapabilityVector :: "u32 list option \<Rightarrow> nat \<Rightarrow> HandshakeError + CapabilityId list" where
  "decodeCapabilityVector values maximum =
     (let size = (case values of None \<Rightarrow> 0 | Some vs \<Rightarrow> length vs)
      in if size > maximum then Inl (handshakeError StageSemanticValidation TooManyCapabilities size maximum 0)
         else (case values of None \<Rightarrow> Inr [] | Some vs \<Rightarrow> decodeCapabilities 0 vs))"

definition makeOffer ::
  "u16 \<Rightarrow> u16 \<Rightarrow> u16 \<Rightarrow> u32 list option \<Rightarrow> u32 list option \<Rightarrow> u8 list option \<Rightarrow> HandshakeError + CapabilityOffer" where
  "makeOffer major minimumMinor maximumMinor opts reqs contentManifest =
     (case createVersionRange major minimumMinor maximumMinor of
        Inl e \<Rightarrow> Inl e
      | Inr versions \<Rightarrow>
        (case decodeCapabilityVector opts MaximumOptionalCapabilityCount of
           Inl e \<Rightarrow> Inl e
         | Inr optional \<Rightarrow>
           (case decodeCapabilityVector reqs MaximumRequiredCapabilityCount of
              Inl e \<Rightarrow> Inl e
            | Inr required \<Rightarrow>
              (case contentManifest of
                 None \<Rightarrow> Inl (handshakeError StageSemanticValidation InvalidContentManifestId 0 0 0)
               | Some bytes \<Rightarrow>
                 (case manifestIdFromBytes bytes of
                    None \<Rightarrow> Inl (handshakeError StageSemanticValidation InvalidContentManifestId (length bytes) ContentManifestIdBytes 0)
                  | Some manifest \<Rightarrow> createCapabilityOffer versions optional required manifest)))))"

section \<open>Negotiation\<close>

text \<open>\<^verbatim>\<open>std::merge\<close>, \<^verbatim>\<open>std::set_intersection\<close> and \<^verbatim>\<open>std::binary_search\<close> on sorted ranges.\<close>

fun merge_sorted :: "'a::linorder list \<Rightarrow> 'a list \<Rightarrow> 'a list" where
  "merge_sorted (x # xs) (y # ys) = (if y < x then y # merge_sorted (x # xs) ys else x # merge_sorted xs (y # ys))"
| "merge_sorted [] ys = ys"
| "merge_sorted xs [] = xs"

fun set_intersection :: "'a::linorder list \<Rightarrow> 'a list \<Rightarrow> 'a list" where
  "set_intersection (x # xs) (y # ys) =
     (if x < y then set_intersection xs (y # ys)
      else if y < x then set_intersection (x # xs) ys
      else x # set_intersection xs ys)"
| "set_intersection _ _ = []"

definition supportedCapabilities :: "CapabilityId list \<Rightarrow> CapabilityId list \<Rightarrow> CapabilityId list" where
  "supportedCapabilities opts reqs = merge_sorted opts reqs"

definition firstMissing :: "CapabilityId list \<Rightarrow> CapabilityId list \<Rightarrow> CapabilityId option" where
  "firstMissing required supported = find (\<lambda>c. \<not> binary_search supported c) required"

definition sessionRejected :: "SessionRejectionReason \<Rightarrow> ProtocolVersionRange \<Rightarrow> CapabilityId option \<Rightarrow> SessionRejected" where
  "sessionRejected reason versions unsupported = \<lparr>sr_reason = reason, sr_versions = versions, sr_unsupported = unsupported\<rparr>"

definition negotiateClientHello :: "ClientHello \<Rightarrow> CapabilityOffer \<Rightarrow> SessionRejected + ServerHello" where
  "negotiateClientHello client server =
     (if vr_major (of_versions client) \<noteq> vr_major (of_versions server)
      then Inl (sessionRejected ProtocolMajorMismatch (of_versions server) None)
      else
        (let lowestMinor = max (vr_minimumMinor (of_versions client)) (vr_minimumMinor (of_versions server));
             highestMinor = min (vr_maximumMinor (of_versions client)) (vr_maximumMinor (of_versions server))
         in if lowestMinor > highestMinor then Inl (sessionRejected NoCompatibleMinor (of_versions server) None)
            else if of_manifest client \<noteq> of_manifest server
            then Inl (sessionRejected ContentManifestMismatch (of_versions server) None)
            else
              (let clientSupported = supportedCapabilities (of_optional client) (of_required client);
                   serverSupported = supportedCapabilities (of_optional server) (of_required server);
                   missing =
                     (case (firstMissing (of_required client) serverSupported,
                            firstMissing (of_required server) clientSupported) of
                        (Some a, Some b) \<Rightarrow> Some (min a b)
                      | (Some a, None) \<Rightarrow> Some a
                      | (None, b) \<Rightarrow> b)
               in if missing \<noteq> None then Inl (sessionRejected UnsupportedRequiredCapability (of_versions server) missing)
                  else Inr \<lparr>sh_version = \<lparr>pv_major = vr_major (of_versions server), pv_minor = highestMinor\<rparr>,
                            sh_capabilities = set_intersection clientSupported serverSupported,
                            sh_manifest = of_manifest server\<rparr>)))"

definition classifyInitialPeerProtocol :: "bytes \<Rightarrow> InitialPeerProtocol" where
  "classifyInitialPeerProtocol bs =
     (if length bs < length ProtocolFrameMagic then NeedMoreBytes
      else if take (length ProtocolFrameMagic) bs = ProtocolFrameMagic then Vnext else LegacyOrUnknown)"


section \<open>Wire messages\<close>

text \<open>
  What the code uses of a generated schema: the length a size-prefixed buffer declares, the test
  of the file identifier, the verifier with the limits the code sets, the accessor and the builder.
\<close>

record 't schema =
  declaredLength :: "bytes \<Rightarrow> nat"
  hasIdentifier :: "bytes \<Rightarrow> bool"
  verifies :: "bytes \<Rightarrow> bool"
  getRoot :: "bytes \<Rightarrow> 't"
  build :: "'t \<Rightarrow> bytes"

record ClientHelloTable =
  ch_major :: u16
  ch_minimumMinor :: u16
  ch_maximumMinor :: u16
  ch_optional :: "u32 list option"
  ch_required :: "u32 list option"
  ch_manifest :: "u8 list option"

record ServerHelloTable =
  sht_major :: u16
  sht_minor :: u16
  sht_capabilities :: "u32 list option"
  sht_manifest :: "u8 list option"

record SessionRejectedTable =
  srt_reason :: u8
  srt_major :: u16
  srt_minimumMinor :: u16
  srt_maximumMinor :: u16
  srt_unsupported :: u32

definition MinimumIdentifiedFlatBufferBytes :: nat where
  "MinimumIdentifiedFlatBufferBytes = 12"

definition validatePayloadPrefix :: "(bytes \<Rightarrow> nat) \<Rightarrow> bytes \<Rightarrow> HandshakeError option" where
  "validatePayloadPrefix declared payload =
     (if length payload < MinimumIdentifiedFlatBufferBytes
      then Some (handshakeError StageSizePrefix HsPayloadTooSmall (length payload) MinimumIdentifiedFlatBufferBytes 0)
      else if length payload > SessionControlMaximumPayloadBytes
      then Some (handshakeError StageSizePrefix HsPayloadTooLarge (length payload) SessionControlMaximumPayloadBytes 0)
      else if declared payload \<noteq> length payload
      then Some (handshakeError StageSizePrefix HsPayloadLengthMismatch (length payload) (declared payload) 0)
      else None)"

text \<open>The checks before the accessor may be used.\<close>

definition verifiedRoot :: "'t schema \<Rightarrow> bytes \<Rightarrow> HandshakeError + 't" where
  "verifiedRoot schema payload =
     (case validatePayloadPrefix (declaredLength schema) payload of
        Some e \<Rightarrow> Inl e
      | None \<Rightarrow>
        if \<not> hasIdentifier schema payload then Inl (handshakeError StageIdentifier InvalidIdentifier 0 0 0)
        else if \<not> verifies schema payload then Inl (handshakeError StageVerification VerificationFailed 0 0 0)
        else Inr (getRoot schema payload))"

definition clientHelloTable :: "ClientHello \<Rightarrow> ClientHelloTable" where
  "clientHelloTable v =
     \<lparr>ch_major = vr_major (of_versions v), ch_minimumMinor = vr_minimumMinor (of_versions v),
       ch_maximumMinor = vr_maximumMinor (of_versions v), ch_optional = Some (of_optional v),
       ch_required = Some (of_required v), ch_manifest = Some (of_manifest v)\<rparr>"

definition encodeClientHello :: "ClientHelloTable schema \<Rightarrow> ClientHello \<Rightarrow> bytes" where
  "encodeClientHello schema v = build schema (clientHelloTable v)"

definition decodeClientHello :: "ClientHelloTable schema \<Rightarrow> bytes \<Rightarrow> HandshakeError + ClientHello" where
  "decodeClientHello schema payload =
     (case verifiedRoot schema payload of
        Inl e \<Rightarrow> Inl e
      | Inr t \<Rightarrow> makeOffer (ch_major t) (ch_minimumMinor t) (ch_maximumMinor t) (ch_optional t) (ch_required t) (ch_manifest t))"

definition serverHelloTable :: "ServerHello \<Rightarrow> ServerHelloTable" where
  "serverHelloTable v =
     \<lparr>sht_major = pv_major (sh_version v), sht_minor = pv_minor (sh_version v),
       sht_capabilities = Some (sh_capabilities v), sht_manifest = Some (sh_manifest v)\<rparr>"

definition encodeServerHello :: "ServerHelloTable schema \<Rightarrow> ServerHello \<Rightarrow> bytes" where
  "encodeServerHello schema v = build schema (serverHelloTable v)"

definition decodeServerHello :: "ServerHelloTable schema \<Rightarrow> bytes \<Rightarrow> HandshakeError + ServerHello" where
  "decodeServerHello schema payload =
     (case verifiedRoot schema payload of
        Inl e \<Rightarrow> Inl e
      | Inr t \<Rightarrow>
        (case decodeCapabilityVector (sht_capabilities t) MaximumNegotiatedCapabilityCount of
           Inl e \<Rightarrow> Inl e
         | Inr capabilities \<Rightarrow>
           (case Option.bind (sht_manifest t) manifestIdFromBytes of
              None \<Rightarrow> Inl (handshakeError StageSemanticValidation InvalidContentManifestId
                        (case sht_manifest t of None \<Rightarrow> 0 | Some m \<Rightarrow> length m) ContentManifestIdBytes 0)
            | Some manifest \<Rightarrow>
              Inr \<lparr>sh_version = \<lparr>pv_major = sht_major t, pv_minor = sht_minor t\<rparr>,
                   sh_capabilities = capabilities, sh_manifest = manifest\<rparr>)))"

fun reason_code :: "SessionRejectionReason \<Rightarrow> u8" where
  "reason_code ProtocolMajorMismatch = 1"
| "reason_code NoCompatibleMinor = 2"
| "reason_code UnsupportedRequiredCapability = 3"
| "reason_code ContentManifestMismatch = 4"

definition reason_of_code :: "u8 \<Rightarrow> SessionRejectionReason option" where
  "reason_of_code v =
     (if v = 1 then Some ProtocolMajorMismatch else if v = 2 then Some NoCompatibleMinor
      else if v = 3 then Some UnsupportedRequiredCapability else if v = 4 then Some ContentManifestMismatch else None)"

definition sessionRejectedTable :: "SessionRejected \<Rightarrow> SessionRejectedTable" where
  "sessionRejectedTable v =
     \<lparr>srt_reason = reason_code (sr_reason v), srt_major = vr_major (sr_versions v),
       srt_minimumMinor = vr_minimumMinor (sr_versions v), srt_maximumMinor = vr_maximumMinor (sr_versions v),
       srt_unsupported = (case sr_unsupported v of None \<Rightarrow> 0 | Some c \<Rightarrow> c)\<rparr>"

definition encodeSessionRejected :: "SessionRejectedTable schema \<Rightarrow> SessionRejected \<Rightarrow> bytes" where
  "encodeSessionRejected schema v = build schema (sessionRejectedTable v)"

definition decodeSessionRejected :: "SessionRejectedTable schema \<Rightarrow> bytes \<Rightarrow> HandshakeError + SessionRejected" where
  "decodeSessionRejected schema payload =
     (case verifiedRoot schema payload of
        Inl e \<Rightarrow> Inl e
      | Inr t \<Rightarrow>
        (case createVersionRange (srt_major t) (srt_minimumMinor t) (srt_maximumMinor t) of
           Inl e \<Rightarrow> Inl e
         | Inr versions \<Rightarrow>
           (case reason_of_code (srt_reason t) of
              None \<Rightarrow> Inl (handshakeError StageSemanticValidation UnknownRejectionReason (unat (srt_reason t)) 0 0)
            | Some reason \<Rightarrow>
              (let unsupported = capabilityFromValue (srt_unsupported t)
               in if reason = UnsupportedRequiredCapability \<and> unsupported = None
                  then Inl (handshakeError StageSemanticValidation MissingRejectionCapability 0 0 0)
                  else if reason \<noteq> UnsupportedRequiredCapability \<and> unsupported \<noteq> None
                  then Inl (handshakeError StageSemanticValidation UnexpectedRejectionCapability 0 0 (srt_unsupported t))
                  else Inr (sessionRejected reason versions unsupported)))))"

section \<open>Valid offers\<close>

definition range_ok :: "ProtocolVersionRange \<Rightarrow> bool" where
  "range_ok v \<longleftrightarrow> createVersionRange (vr_major v) (vr_minimumMinor v) (vr_maximumMinor v) = Inr v"

definition offer_ok :: "CapabilityOffer \<Rightarrow> bool" where
  "offer_ok v \<longleftrightarrow> range_ok (of_versions v) \<and> manifestIdFromBytes (of_manifest v) = Some (of_manifest v)
     \<and> 0 \<notin> set (of_optional v) \<and> 0 \<notin> set (of_required v)
     \<and> length (of_optional v) \<le> MaximumOptionalCapabilityCount \<and> length (of_required v) \<le> MaximumRequiredCapabilityCount
     \<and> sorted_wrt (<) (of_optional v) \<and> sorted_wrt (<) (of_required v)
     \<and> set (of_optional v) \<inter> set (of_required v) = {}"

lemma validateDisjoint_iff:
  "sorted_wrt (<) xs \<Longrightarrow> sorted_wrt (<) ys \<Longrightarrow> validateDisjoint xs ys = None \<longleftrightarrow> set xs \<inter> set ys = {}"
proof (induction xs ys rule: validateDisjoint.induct)
  case (1 x xs y ys)
  consider "x = y" | "x < y" | "y < x" by (meson linorder_less_linear)
  then show ?case
  proof cases
    case 2
    then have "x \<notin> set (y # ys)" using 1(4) by auto
    with 2 1 show ?thesis by auto
  next
    case 3
    then have "y \<notin> set (x # xs)" using 1(3) by auto
    with 3 1 show ?thesis by auto
  qed simp
qed auto

lemma strict_iff: "sorted xs \<and> no_adjacent_equal xs \<longleftrightarrow> sorted_wrt (<) (xs :: 'a::linorder list)"
  using sorted_no_adjacent_equal_iff by (auto simp: strict_sorted_iff)

lemma createCapabilityOffer_iff:
  "createCapabilityOffer versions opts reqs m = Inr v \<longleftrightarrow>
     length opts \<le> MaximumOptionalCapabilityCount \<and> length reqs \<le> MaximumRequiredCapabilityCount
     \<and> sorted_wrt (<) opts \<and> sorted_wrt (<) reqs \<and> set opts \<inter> set reqs = {}
     \<and> v = \<lparr>of_versions = versions, of_optional = opts, of_required = reqs, of_manifest = m\<rparr>"
proof (cases "sorted_wrt (<) opts \<and> sorted_wrt (<) reqs")
  case True
  then have "sorted opts" "no_adjacent_equal opts" "sorted reqs" "no_adjacent_equal reqs" using strict_iff by blast+
  with True show ?thesis
    using validateDisjoint_iff [of opts reqs] by (auto simp: createCapabilityOffer_def split: option.splits)
next
  case False
  then have "\<not> sorted opts \<or> \<not> no_adjacent_equal opts \<or> \<not> sorted reqs \<or> \<not> no_adjacent_equal reqs" using strict_iff by blast
  with False show ?thesis by (auto simp: createCapabilityOffer_def)
qed

lemma decodeCapabilities_iff:
  "decodeCapabilities p raws = Inr cs \<longleftrightarrow> cs = raws \<and> 0 \<notin> set raws \<and> sorted_wrt (<) raws \<and> (\<forall>c \<in> set raws. p < c)"
proof (induction raws arbitrary: p cs)
  case (Cons a raws)
  show ?case
  proof (cases "decodeCapabilities a raws")
    case (Inl e)
    then have "\<not> (0 \<notin> set raws \<and> sorted_wrt (<) raws \<and> (\<forall>c \<in> set raws. a < c))" using Cons.IH [of a raws] by auto
    with Inl show ?thesis by (auto simp: capabilityFromValue_def)
  next
    case (Inr ds)
    then have "ds = raws \<and> 0 \<notin> set raws \<and> sorted_wrt (<) raws \<and> (\<forall>c \<in> set raws. a < c)" using Cons.IH by simp
    with Inr show ?thesis by (auto simp: capabilityFromValue_def not_le dest: order.strict_trans)
  qed
qed auto

lemma nonzero_iff: "(\<forall>c \<in> set xs. 0 < c) \<longleftrightarrow> (0 :: u32) \<notin> set xs"
  using word_neq_0_conv by metis

lemma decodeCapabilityVector_iff:
  "decodeCapabilityVector (Some raws) n = Inr cs \<longleftrightarrow> length raws \<le> n \<and> cs = raws \<and> 0 \<notin> set raws \<and> sorted_wrt (<) raws"
  by (auto simp: decodeCapabilityVector_def Let_def decodeCapabilities_iff nonzero_iff)

lemma makeOffer_offer:
  assumes "offer_ok v"
  shows "makeOffer (vr_major (of_versions v)) (vr_minimumMinor (of_versions v)) (vr_maximumMinor (of_versions v))
     (Some (of_optional v)) (Some (of_required v)) (Some (of_manifest v)) = Inr v"
proof -
  have "decodeCapabilityVector (Some (of_optional v)) MaximumOptionalCapabilityCount = Inr (of_optional v)"
    and "decodeCapabilityVector (Some (of_required v)) MaximumRequiredCapabilityCount = Inr (of_required v)"
    and "createCapabilityOffer (of_versions v) (of_optional v) (of_required v) (of_manifest v) = Inr v"
    using assms by (simp_all add: offer_ok_def decodeCapabilityVector_iff createCapabilityOffer_iff)
  then show ?thesis using assms by (simp add: makeOffer_def offer_ok_def range_ok_def)
qed

section \<open>Negotiating\<close>

lemma merge_sorted_facts:
  assumes "sorted_wrt (<) xs" and "sorted_wrt (<) ys" and "set xs \<inter> set ys = {}"
  shows "set (merge_sorted xs ys) = set xs \<union> set ys \<and> sorted_wrt (<) (merge_sorted xs ys)"
  using assms by (induction xs ys rule: merge_sorted.induct) (auto simp: not_less less_le)

lemma set_intersection_facts:
  assumes "sorted_wrt (<) xs" and "sorted_wrt (<) ys"
  shows "set (set_intersection xs ys) = set xs \<inter> set ys \<and> sorted_wrt (<) (set_intersection xs ys)"
  using assms
proof (induction xs ys rule: set_intersection.induct)
  case (1 x xs y ys)
  consider "x < y" | "y < x" | "x = y" by (meson linorder_less_linear)
  then show ?case
  proof cases
    case 1
    then have "x \<notin> set (y # ys)" using "1.prems"(2) by auto
    with 1 "1.IH"(1) "1.prems" show ?thesis by auto
  next
    case 2
    then have "y \<notin> set (x # xs)" using "1.prems"(1) by auto
    with 2 "1.IH"(2) "1.prems" show ?thesis by auto
  next
    case 3
    with "1.IH"(3) "1.prems" show ?thesis by auto
  qed
qed auto

definition supports :: "CapabilityOffer \<Rightarrow> CapabilityId set" where
  "supports v = set (of_optional v) \<union> set (of_required v)"

lemma supported_facts:
  "offer_ok v \<Longrightarrow> set (supportedCapabilities (of_optional v) (of_required v)) = supports v
     \<and> sorted_wrt (<) (supportedCapabilities (of_optional v) (of_required v))"
  using merge_sorted_facts [of "of_optional v" "of_required v"]
  by (simp add: offer_ok_def supportedCapabilities_def supports_def)

text \<open>The first required capability that is missing is the smallest one, since the list is sorted.\<close>

lemma find_least:
  "sorted_wrt (<) xs \<Longrightarrow> find P xs = Some x \<longleftrightarrow> x \<in> set xs \<and> P x \<and> (\<forall>y \<in> set xs. P y \<longrightarrow> x \<le> (y :: 'a::linorder))"
  by (induction xs) (auto simp: less_imp_le dest: leD)

lemma firstMissing_facts:
  assumes "offer_ok v" and "sorted_wrt (<) req"
  shows "firstMissing req (supportedCapabilities (of_optional v) (of_required v)) = None \<longleftrightarrow> set req \<subseteq> supports v"
    and "firstMissing req (supportedCapabilities (of_optional v) (of_required v)) = Some c \<longleftrightarrow>
      c \<in> set req - supports v \<and> (\<forall>d \<in> set req - supports v. c \<le> d)"
  using supported_facts [OF assms(1)] find_least [OF assms(2)]
  by (auto simp: firstMissing_def find_None_iff binary_search_iff)

definition version_in_range :: "u16 \<Rightarrow> ProtocolVersionRange \<Rightarrow> bool" where
  "version_in_range m v \<longleftrightarrow> vr_minimumMinor v \<le> m \<and> m \<le> vr_maximumMinor v"

text \<open>What a client and a server that can talk to each other agree on.\<close>

definition agreement :: "ClientHello \<Rightarrow> CapabilityOffer \<Rightarrow> ServerHello \<Rightarrow> bool" where
  "agreement c s h \<longleftrightarrow>
     vr_major (of_versions c) = vr_major (of_versions s) \<and> pv_major (sh_version h) = vr_major (of_versions s)
     \<and> version_in_range (pv_minor (sh_version h)) (of_versions c) \<and> version_in_range (pv_minor (sh_version h)) (of_versions s)
     \<and> (\<forall>m. version_in_range m (of_versions c) \<and> version_in_range m (of_versions s) \<longrightarrow> m \<le> pv_minor (sh_version h))
     \<and> of_manifest c = of_manifest s \<and> sh_manifest h = of_manifest s
     \<and> set (of_required c) \<subseteq> supports s \<and> set (of_required s) \<subseteq> supports c
     \<and> set (sh_capabilities h) = supports c \<inter> supports s \<and> sorted_wrt (<) (sh_capabilities h)"

text \<open>
  Why they cannot: the first difference in the order major, minor, content, capabilities; what comes before
  the named one agrees.
\<close>

definition common_minors :: "ClientHello \<Rightarrow> CapabilityOffer \<Rightarrow> u16 set" where
  "common_minors c s = {m. version_in_range m (of_versions c) \<and> version_in_range m (of_versions s)}"

definition disagreement :: "ClientHello \<Rightarrow> CapabilityOffer \<Rightarrow> SessionRejected \<Rightarrow> bool" where
  "disagreement c s r \<longleftrightarrow> sr_versions r = of_versions s
     \<and> (case sr_reason r of
          ProtocolMajorMismatch \<Rightarrow> vr_major (of_versions c) \<noteq> vr_major (of_versions s) \<and> sr_unsupported r = None
        | NoCompatibleMinor \<Rightarrow> vr_major (of_versions c) = vr_major (of_versions s) \<and> common_minors c s = {} \<and> sr_unsupported r = None
        | ContentManifestMismatch \<Rightarrow> vr_major (of_versions c) = vr_major (of_versions s) \<and> common_minors c s \<noteq> {}
            \<and> of_manifest c \<noteq> of_manifest s \<and> sr_unsupported r = None
        | UnsupportedRequiredCapability \<Rightarrow>
            vr_major (of_versions c) = vr_major (of_versions s) \<and> common_minors c s \<noteq> {} \<and> of_manifest c = of_manifest s
            \<and> (let missing = (set (of_required c) - supports s) \<union> (set (of_required s) - supports c)
             in \<exists>k \<in> missing. sr_unsupported r = Some k \<and> (\<forall>d \<in> missing. k \<le> d)))"

lemma range_ok_le: "range_ok v \<Longrightarrow> vr_minimumMinor v \<le> vr_maximumMinor v"
  by (auto simp: range_ok_def createVersionRange_def not_less split: if_splits)

lemma common_minor:
  assumes "range_ok a" and "range_ok b"
  defines "lo \<equiv> max (vr_minimumMinor a) (vr_minimumMinor b)" and "hi \<equiv> min (vr_maximumMinor a) (vr_maximumMinor b)"
  shows "lo > hi \<longleftrightarrow> (\<nexists>m. version_in_range m a \<and> version_in_range m b)"
    and "\<not> lo > hi \<Longrightarrow> version_in_range hi a \<and> version_in_range hi b \<and> (\<forall>m. version_in_range m a \<and> version_in_range m b \<longrightarrow> m \<le> hi)"
proof -
  show hi: "version_in_range hi a \<and> version_in_range hi b \<and> (\<forall>m. version_in_range m a \<and> version_in_range m b \<longrightarrow> m \<le> hi)" if "\<not> lo > hi"
    using that by (auto simp: lo_def hi_def version_in_range_def not_less)
  show "lo > hi \<longleftrightarrow> (\<nexists>m. version_in_range m a \<and> version_in_range m b)"
  proof
    assume "lo > hi"
    moreover have "lo \<le> m \<and> m \<le> hi" if "version_in_range m a \<and> version_in_range m b" for m
      using that by (simp add: lo_def hi_def version_in_range_def)
    ultimately show "\<nexists>m. version_in_range m a \<and> version_in_range m b" by (meson leD order.trans)
  qed (use hi in blast)
qed

definition missing_of :: "CapabilityId option \<Rightarrow> CapabilityId option \<Rightarrow> CapabilityId option" where
  "missing_of a b = (case (a, b) of (Some a, Some b) \<Rightarrow> Some (min a b) | (Some a, None) \<Rightarrow> Some a | (None, b) \<Rightarrow> b)"

lemma missing_of_facts:
  assumes "offer_ok c" and "offer_ok s"
  defines "missing \<equiv> missing_of (firstMissing (of_required c) (supportedCapabilities (of_optional s) (of_required s)))
      (firstMissing (of_required s) (supportedCapabilities (of_optional c) (of_required c)))"
    and "M \<equiv> (set (of_required c) - supports s) \<union> (set (of_required s) - supports c)"
  shows "missing = None \<longleftrightarrow> M = {}" and "missing = Some k \<Longrightarrow> k \<in> M \<and> (\<forall>d \<in> M. k \<le> d)"
proof -
  have req: "sorted_wrt (<) (of_required c)" "sorted_wrt (<) (of_required s)" using assms by (simp_all add: offer_ok_def)
  note c = firstMissing_facts [OF assms(2) req(1)] and s = firstMissing_facts [OF assms(1) req(2)]
  show "missing = None \<longleftrightarrow> M = {}"
    unfolding missing_def missing_of_def M_def using c(1) s(1) by (auto split: option.splits)
  have least: "min a b \<in> A \<union> B \<and> (\<forall>d \<in> A \<union> B. min a b \<le> d)"
    if "a \<in> A \<and> (\<forall>d \<in> A. a \<le> d)" and "b \<in> B \<and> (\<forall>d \<in> B. b \<le> d)" for a b :: CapabilityId and A B
    using that by (auto simp: min_le_iff_disj) (auto simp: min_def)
  show "k \<in> M \<and> (\<forall>d \<in> M. k \<le> d)" if k: "missing = Some k"
  proof (cases "firstMissing (of_required c) (supportedCapabilities (of_optional s) (of_required s))")
    case None
    then show ?thesis using k c(1) s(2) by (auto simp: missing_def missing_of_def M_def)
  next
    case (Some a)
    show ?thesis
    proof (cases "firstMissing (of_required s) (supportedCapabilities (of_optional c) (of_required c))")
      case None
      then show ?thesis using k Some c(2) s(1) by (auto simp: missing_def missing_of_def M_def)
    next
      case (Some b)
      then have "k = min a b" using k \<open>firstMissing (of_required c) _ = Some a\<close> by (simp add: missing_def missing_of_def)
      then show ?thesis unfolding M_def
        using least [OF c(2) [THEN iffD1, OF \<open>firstMissing (of_required c) _ = Some a\<close>] s(2) [THEN iffD1, OF Some]] by simp
    qed
  qed
qed

lemma negotiate_lemma:
  assumes c: "offer_ok c" and s: "offer_ok s"
  shows "case negotiateClientHello c s of Inr h \<Rightarrow> agreement c s h | Inl r \<Rightarrow> disagreement c s r"
proof -
  have ranges: "range_ok (of_versions c)" "range_ok (of_versions s)" using c s by (simp_all add: offer_ok_def)
  note minor = common_minor [OF ranges] and missing = missing_of_facts [OF c s]
  note caps = supported_facts [OF c] supported_facts [OF s]
    set_intersection_facts [of "supportedCapabilities (of_optional c) (of_required c)" "supportedCapabilities (of_optional s) (of_required s)"]
  note run = negotiateClientHello_def Let_def missing_of_def [symmetric]
  consider (major) "vr_major (of_versions c) \<noteq> vr_major (of_versions s)"
    | (minor) "vr_major (of_versions c) = vr_major (of_versions s)"
        "max (vr_minimumMinor (of_versions c)) (vr_minimumMinor (of_versions s)) > min (vr_maximumMinor (of_versions c)) (vr_maximumMinor (of_versions s))"
    | (rest) "vr_major (of_versions c) = vr_major (of_versions s)"
        "\<not> max (vr_minimumMinor (of_versions c)) (vr_minimumMinor (of_versions s)) > min (vr_maximumMinor (of_versions c)) (vr_maximumMinor (of_versions s))"
    by blast
  then show ?thesis
  proof cases
    case major
    then show ?thesis by (simp add: run disagreement_def sessionRejected_def)
  next
    case minor
    then show ?thesis unfolding run using common_minor(1) [OF ranges] by (simp add: disagreement_def sessionRejected_def common_minors_def)
  next
    case rest
    have common: "common_minors c s \<noteq> {}" using common_minor(2) [OF ranges rest(2)] by (auto simp: common_minors_def)
    let ?missing = "missing_of (firstMissing (of_required c) (supportedCapabilities (of_optional s) (of_required s)))
      (firstMissing (of_required s) (supportedCapabilities (of_optional c) (of_required c)))"
    show ?thesis
    proof (cases "of_manifest c = of_manifest s \<and> ?missing = None")
      case True
      then show ?thesis unfolding run using rest common_minor(2) [OF ranges rest(2)] missing(1) caps
        by (simp add: agreement_def)
    next
      case False
      then show ?thesis unfolding run using rest missing(2) common
        by (cases ?missing) (auto simp: disagreement_def sessionRejected_def Let_def)
    qed
  qed
qed

section \<open>Samples\<close>

definition sample_range :: ProtocolVersionRange where
  "sample_range = \<lparr>vr_major = 1, vr_minimumMinor = 3, vr_maximumMinor = 4\<rparr>"

definition sample_client :: ClientHello where
  "sample_client = \<lparr>of_versions = sample_range, of_optional = [1, 4], of_required = [2], of_manifest = sample_manifest_id\<rparr>"

definition sample_server :: CapabilityOffer where
  "sample_server = \<lparr>of_versions = sample_range\<lparr>vr_minimumMinor := 2, vr_maximumMinor := 3\<rparr>, of_optional = [2, 3, 4],
     of_required = [], of_manifest = sample_manifest_id\<rparr>"

lemma sample_offers: "offer_ok sample_client" "offer_ok sample_server"
proof -
  have "createVersionRange 1 3 4 = Inr sample_range" "createVersionRange 1 2 3 = Inr (sample_range\<lparr>vr_minimumMinor := 2, vr_maximumMinor := 3\<rparr>)"
    by (simp_all add: createVersionRange_def sample_range_def)
  moreover have "manifestIdFromBytes sample_manifest_id = Some sample_manifest_id" by code_simp
  ultimately show "offer_ok sample_client" "offer_ok sample_server"
    by (auto simp: offer_ok_def sample_client_def sample_server_def range_ok_def sample_range_def
        MaximumOptionalCapabilityCount_def MaximumRequiredCapabilityCount_def)
qed

text \<open>
  What the code relies on for a table it sends: the buffer built for it has the declared length
  and size, passes the identifier test and the verifier, and the accessor reads the table back.
\<close>

definition reads_back :: "'t schema \<Rightarrow> 't \<Rightarrow> bool" where
  "reads_back schema t \<longleftrightarrow>
     (let b = build schema t
      in MinimumIdentifiedFlatBufferBytes \<le> length b \<and> length b \<le> SessionControlMaximumPayloadBytes
         \<and> declaredLength schema b = length b \<and> hasIdentifier schema b \<and> verifies schema b \<and> getRoot schema b = t)"

lemma verifiedRoot_built: "reads_back schema t \<Longrightarrow> verifiedRoot schema (build schema t) = Inr t"
  by (simp add: reads_back_def Let_def verifiedRoot_def validatePayloadPrefix_def)

lemma clientHello_reads: "offer_ok v \<Longrightarrow> reads_back schema (clientHelloTable v) \<Longrightarrow> decodeClientHello schema (encodeClientHello schema v) = Inr v"
  using makeOffer_offer [of v] by (simp add: decodeClientHello_def encodeClientHello_def verifiedRoot_built clientHelloTable_def)

lemma agreed_length:
  assumes "offer_ok c" and "agreement c s h"
  shows "length (sh_capabilities h) \<le> MaximumNegotiatedCapabilityCount"
proof -
  have "length (sh_capabilities h) = card (set (sh_capabilities h))"
    using assms(2) by (metis agreement_def distinct_card strict_sorted_iff)
  also have "\<dots> \<le> card (supports c)" using assms(2) by (intro card_mono) (auto simp: agreement_def supports_def)
  also have "\<dots> \<le> length (of_optional c) + length (of_required c)"
    unfolding supports_def by (meson add_mono card_Un_le card_length order.trans)
  finally show ?thesis using assms(1) by (simp add: offer_ok_def MaximumNegotiatedCapabilityCount_def)
qed

lemma serverHello_reads:
  assumes "offer_ok c" and "offer_ok s" and "agreement c s h" and "reads_back schema (serverHelloTable h)"
  shows "decodeServerHello schema (encodeServerHello schema h) = Inr h"
proof -
  have "0 \<notin> set (sh_capabilities h)" using assms(1,3) by (auto simp: agreement_def supports_def offer_ok_def)
  then have "decodeCapabilityVector (Some (sh_capabilities h)) MaximumNegotiatedCapabilityCount = Inr (sh_capabilities h)"
    using agreed_length [OF assms(1,3)] assms(3) by (simp add: decodeCapabilityVector_iff agreement_def)
  moreover have "manifestIdFromBytes (sh_manifest h) = Some (sh_manifest h)" using assms(2,3) by (simp add: agreement_def offer_ok_def)
  ultimately show ?thesis
    using assms(4) by (simp add: decodeServerHello_def encodeServerHello_def verifiedRoot_built serverHelloTable_def)
qed

lemma reason_of_code_code [simp]: "reason_of_code (reason_code r) = Some r"
  by (cases r) (simp_all add: reason_of_code_def)

lemma sessionRejected_reads:
  assumes "offer_ok c" and "offer_ok s" and "disagreement c s r" and "reads_back schema (sessionRejectedTable r)"
  shows "decodeSessionRejected schema (encodeSessionRejected schema r) = Inr r"
proof -
  have "range_ok (sr_versions r)" using assms(2,3) by (simp add: disagreement_def offer_ok_def)
  moreover have "capabilityFromValue (case sr_unsupported r of None \<Rightarrow> 0 | Some c \<Rightarrow> c) = sr_unsupported r"
    and "sr_reason r = UnsupportedRequiredCapability \<longleftrightarrow> sr_unsupported r \<noteq> None"
    using assms(1-3) by (cases "sr_reason r"; auto simp: disagreement_def capabilityFromValue_def offer_ok_def Let_def)+
  ultimately show ?thesis
    using assms(4) by (simp add: decodeSessionRejected_def encodeSessionRejected_def verifiedRoot_built sessionRejectedTable_def
        range_ok_def sessionRejected_def Let_def)
qed

text \<open>A schema that builds, verifies and reads one table.\<close>

definition single_schema :: "'t \<Rightarrow> 't schema" where
  "single_schema t =
     \<lparr>declaredLength = (\<lambda>b. unat (le_word (take 4 b) :: u32) + 4), hasIdentifier = (\<lambda>b. take 4 (drop 8 b) = [84, 51, 67, 72]),
      verifies = (\<lambda>b. take 4 (drop 4 b) = [1, 0, 0, 0]), getRoot = (\<lambda>_. t),
      build = (\<lambda>_. [8, 0, 0, 0, 1, 0, 0, 0, 84, 51, 67, 72])\<rparr>"

lemma single_schema_reads: "reads_back (single_schema t) t"
proof -
  have "unat (le_word (take 4 [8, 0, 0, 0, 1, 0, 0, 0, 84, 51, 67, 72]) :: u32) = 8"
    "take 4 (drop 8 [8, 0, 0, 0, 1, 0, 0, 0, 84, 51, 67, 72 :: u8]) = [84, 51, 67, 72]"
    "take 4 (drop 4 [8, 0, 0, 0, 1, 0, 0, 0, 84, 51, 67, 72 :: u8]) = [1, 0, 0, 0]"
    by code_simp+
  then show ?thesis
    by (simp only: reads_back_def single_schema_def Let_def schema.simps)
      (simp add: MinimumIdentifiedFlatBufferBytes_def SessionControlMaximumPayloadBytes_def)
qed

section \<open>Properties\<close>

text \<open>
  C31. Negotiation between two valid offers succeeds exactly when they are compatible. It selects
  the highest minor version both accept and exactly the capabilities both support, among them
  everything either requires; otherwise it names the first difference, and for capabilities the
  smallest one that is required by one side and unknown to the other.
\<close>

theorem negotiateClientHello_agreement:
  assumes "offer_ok client" and "offer_ok server"
  shows "case negotiateClientHello client server of
           Inr h \<Rightarrow> agreement client server h | Inl r \<Rightarrow> disagreement client server r"
  using assms by (rule negotiate_lemma)

theorem negotiateClientHello_agreement_witness:
  "\<exists>h. negotiateClientHello sample_client sample_server = Inr h \<and> agreement sample_client sample_server h
     \<and> pv_minor (sh_version h) = 3 \<and> sh_capabilities h = [2, 4]"
proof -
  let ?h = "\<lparr>sh_version = \<lparr>pv_major = 1, pv_minor = 3\<rparr>, sh_capabilities = [2, 4], sh_manifest = sample_manifest_id\<rparr>"
  have "negotiateClientHello sample_client sample_server = Inr ?h" by code_simp
  with negotiateClientHello_agreement [OF sample_offers] show ?thesis by auto
qed

text \<open>
  Each side reads what the other sent. Whenever the generated schemas read back the tables
  built with them, the server decodes exactly the offer the client encoded, and the client decodes
  exactly the answer, hello or rejection, that negotiation gave: everything that is sent passes
  the receiver's validation.
\<close>

theorem handshake_roundtrip:
  assumes "offer_ok client" and "offer_ok server" and "reads_back schema (clientHelloTable client)"
    and "\<And>h. negotiateClientHello client server = Inr h \<Longrightarrow> reads_back schema2 (serverHelloTable h)"
    and "\<And>r. negotiateClientHello client server = Inl r \<Longrightarrow> reads_back schema3 (sessionRejectedTable r)"
  shows "decodeClientHello schema (encodeClientHello schema client) = Inr client
    \<and> (case negotiateClientHello client server of
         Inr h \<Rightarrow> decodeServerHello schema2 (encodeServerHello schema2 h) = Inr h
       | Inl r \<Rightarrow> decodeSessionRejected schema3 (encodeSessionRejected schema3 r) = Inr r)"
  using negotiate_lemma [OF assms(1,2)] clientHello_reads [OF assms(1,3)] serverHello_reads [OF assms(1,2) _ assms(4)]
    sessionRejected_reads [OF assms(1,2) _ assms(5)] by (auto split: sum.splits)

theorem handshake_roundtrip_witness:
  "\<exists>schema schema2 h. decodeClientHello schema (encodeClientHello schema sample_client) = Inr sample_client
     \<and> negotiateClientHello sample_client sample_server = Inr h
     \<and> decodeServerHello schema2 (encodeServerHello schema2 h) = Inr h"
proof -
  obtain h where h: "negotiateClientHello sample_client sample_server = Inr h"
  proof
    show "negotiateClientHello sample_client sample_server = Inr \<lparr>sh_version = \<lparr>pv_major = 1, pv_minor = 3\<rparr>,
      sh_capabilities = [2, 4], sh_manifest = sample_manifest_id\<rparr>" by code_simp
  qed
  have "decodeClientHello (single_schema (clientHelloTable sample_client)) (encodeClientHello (single_schema (clientHelloTable sample_client)) sample_client)
      = Inr sample_client
    \<and> decodeServerHello (single_schema (serverHelloTable h)) (encodeServerHello (single_schema (serverHelloTable h)) h) = Inr h"
    using handshake_roundtrip [OF sample_offers single_schema_reads, of "single_schema (serverHelloTable h)"] h single_schema_reads [of "serverHelloTable h"]
    by simp
  with h show ?thesis by blast
qed

end
