(* ===== verification/Utf8_Text.thy ===== *)
theory Utf8_Text
  imports Prelude
begin

text \<open>
  Validation of player-supplied text (\<^verbatim>\<open>validUtf8\<close> and \<^verbatim>\<open>isValidCharacterText\<close> of
  \<^verbatim>\<open>server_core/character_profile.cpp\<close>). The byte loop is compared with the definition of UTF-8:
  it accepts exactly the encodings of sequences of Unicode scalar values that are not control
  characters.
\<close>

unbundle bit_operations_syntax

section \<open>Model\<close>

text \<open>What the first byte of a sequence says: its length and the first bits of the code point.\<close>

definition leadByte :: "u8 \<Rightarrow> (nat \<times> u32) option" where
  "leadByte first =
     (if first AND 0xe0 = 0xc0 then Some (2, ucast (first AND 0x1f))
      else if first AND 0xf0 = 0xe0 then Some (3, ucast (first AND 0x0f))
      else if first AND 0xf8 = 0xf0 then Some (4, ucast (first AND 0x07))
      else None)"

fun continuationBytes :: "u8 list \<Rightarrow> u32 \<Rightarrow> u32 option" where
  "continuationBytes [] codepoint = Some codepoint"
| "continuationBytes (next # rest) codepoint =
     (if next AND 0xc0 \<noteq> 0x80 then None
      else continuationBytes rest (push_bit 6 codepoint OR ucast (next AND 0x3f)))"

definition codepointRejected :: "nat \<Rightarrow> u32 \<Rightarrow> bool" where
  "codepointRejected k codepoint \<longleftrightarrow>
     k = 2 \<and> codepoint < 0x80 \<or> k = 3 \<and> codepoint < 0x800 \<or> k = 4 \<and> codepoint < 0x10000
     \<or> codepoint > 0x10ffff \<or> codepoint \<ge> 0xd800 \<and> codepoint \<le> 0xdfff \<or> codepoint \<ge> 0x80 \<and> codepoint \<le> 0x9f"

text \<open>The loop over the text; its index is the length of what has been consumed.\<close>

function validUtf8 :: "u8 list \<Rightarrow> bool" where
  "validUtf8 [] = True"
| "validUtf8 (first # rest) =
     (if first < 0x80
      then (if first < 0x20 \<or> first = 0x7f then False else validUtf8 rest)
      else (case leadByte first of
              None \<Rightarrow> False
            | Some (k, codepoint) \<Rightarrow>
              if length (first # rest) < k then False
              else (case continuationBytes (take (k - 1) rest) codepoint of
                      None \<Rightarrow> False
                    | Some codepoint' \<Rightarrow>
                      if codepointRejected k codepoint' then False else validUtf8 (drop (k - 1) rest))))"
  by pat_completeness auto
termination
  by (relation "measure length") auto

definition isValidCharacterText :: "u8 list \<Rightarrow> nat \<Rightarrow> bool" where
  "isValidCharacterText value maximumBytes \<longleftrightarrow>
     value \<noteq> [] \<and> length value \<le> maximumBytes \<and> hd value \<noteq> 0x20 \<and> last value \<noteq> 0x20 \<and> validUtf8 value"

section \<open>The definition of UTF-8\<close>

text \<open>The encoding of a code point in one to four bytes.\<close>

definition utf8_encode :: "nat \<Rightarrow> nat list" where
  "utf8_encode c =
     (if c < 0x80 then [c]
      else if c < 0x800 then [0xC0 + c div 64, 0x80 + c mod 64]
      else if c < 0x10000 then [0xE0 + c div 4096, 0x80 + c div 64 mod 64, 0x80 + c mod 64]
      else [0xF0 + c div 262144, 0x80 + c div 4096 mod 64, 0x80 + c div 64 mod 64, 0x80 + c mod 64])"

text \<open>Unicode scalar values that are not control characters (C0, delete, C1).\<close>

definition text_char :: "nat \<Rightarrow> bool" where
  "text_char c \<longleftrightarrow> 0x20 \<le> c \<and> c \<le> 0x10FFFF \<and> \<not> (0x7F \<le> c \<and> c \<le> 0x9F) \<and> \<not> (0xD800 \<le> c \<and> c \<le> 0xDFFF)"

section \<open>Bytes as numbers\<close>

text \<open>Masking the high bits rounds down to a multiple of a power of two, masking the low bits is the remainder.\<close>

lemma unat_and_high: "unat (x AND NOT (mask n) :: u8) = unat x div 2 ^ n * 2 ^ n"
proof -
  have "x AND NOT (mask n) = push_bit n (drop_bit n x)"
    by (rule bit_word_eqI) (auto simp: bit_simps)
  moreover have "unat x div 2 ^ n * 2 ^ n \<le> unat x" by simp
  then have "unat x div 2 ^ n * 2 ^ n < 2 ^ LENGTH(8)" using unsigned_less [of x] by (rule le_less_trans)
  moreover have "unat (push_bit n (drop_bit n x)) = take_bit LENGTH(8) (push_bit n (drop_bit n (take_bit LENGTH(8) (unat x))))"
    by (simp only: unsigned_push_bit_eq unsigned_drop_bit_eq)
  moreover have "take_bit LENGTH(8) (unat x) = unat x" using unsigned_less [of x] by (simp add: take_bit_nat_eq_self_iff)
  ultimately show ?thesis by (simp add: push_bit_eq_mult drop_bit_eq_div) (simp add: take_bit_nat_eq_self_iff)
qed

lemma unat_and_low: "unat (x AND mask n :: u8) = unat x mod 2 ^ n"
  by (simp only: take_bit_eq_mask [symmetric] unsigned_take_bit_eq) (simp add: take_bit_eq_mod)

lemma u8_masks:
  "(0xe0 :: u8) = NOT (mask 5)" "(0xf0 :: u8) = NOT (mask 4)" "(0xf8 :: u8) = NOT (mask 3)" "(0xc0 :: u8) = NOT (mask 6)"
  "(0x1f :: u8) = mask 5" "(0x0f :: u8) = mask 4" "(0x07 :: u8) = mask 3" "(0x3f :: u8) = mask 6"
  by (simp_all add: mask_eq_exp_minus_1)

lemma unat_u32_of_u8 [simp]: "unat (ucast (x :: u8) :: u32) = unat x"
  by (simp add: unsigned_ucast_eq take_bit_nat_eq_self_iff less_trans [OF unsigned_less])

definition lead_nat :: "nat \<Rightarrow> (nat \<times> nat) option" where
  "lead_nat n = (if 0xC0 \<le> n \<and> n < 0xE0 then Some (2, n - 0xC0) else if 0xE0 \<le> n \<and> n < 0xF0 then Some (3, n - 0xE0)
     else if 0xF0 \<le> n \<and> n < 0xF8 then Some (4, n - 0xF0) else None)"

lemma div_range: "0 < d \<Longrightarrow> n div d = q \<longleftrightarrow> q * d \<le> n \<and> n < (q + 1) * (d :: nat)"
  using less_eq_div_iff_mult_less_eq [of d q n] div_less_iff_less_mult [of d n "q + 1"] by auto

lemma mod_range: "q * d \<le> n \<Longrightarrow> n < (q + 1) * d \<Longrightarrow> n mod d = n - q * (d :: nat)"
  using mod_nat_eqI [of "n - q * d" d n] by (auto simp: algebra_simps)

lemma high_bits:
  "b AND 0xe0 = (0xc0 :: u8) \<longleftrightarrow> unat b div 32 = 6" "b AND 0xf0 = (0xe0 :: u8) \<longleftrightarrow> unat b div 16 = 14"
  "b AND 0xf8 = (0xf0 :: u8) \<longleftrightarrow> unat b div 8 = 30" "b AND 0xc0 = (0x80 :: u8) \<longleftrightarrow> unat b div 64 = 2"
proof -
  have "unat (b AND 0xe0) = unat b div 32 * 32" "unat (b AND 0xf0) = unat b div 16 * 16" "unat (b AND 0xf8) = unat b div 8 * 8"
    "unat (b AND 0xc0) = unat b div 64 * 64"
    unfolding u8_masks(1-4) unat_and_high by simp_all
  then show "b AND 0xe0 = (0xc0 :: u8) \<longleftrightarrow> unat b div 32 = 6" "b AND 0xf0 = (0xe0 :: u8) \<longleftrightarrow> unat b div 16 = 14"
    "b AND 0xf8 = (0xf0 :: u8) \<longleftrightarrow> unat b div 8 = 30" "b AND 0xc0 = (0x80 :: u8) \<longleftrightarrow> unat b div 64 = 2"
    by (simp_all add: word_unat_eq_iff)
qed

lemma low_bits:
  "unat (b AND 0x1f :: u8) = unat b mod 32" "unat (b AND 0x0f :: u8) = unat b mod 16" "unat (b AND 0x07 :: u8) = unat b mod 8"
  "unat (b AND 0x3f :: u8) = unat b mod 64"
  unfolding u8_masks(5-8) unat_and_low by simp_all

lemma leadByte_nat: "map_option (map_prod id unat) (leadByte b) = lead_nat (unat b)"
  unfolding leadByte_def high_bits
  by (simp add: low_bits lead_nat_def div_range mod_range [of 6 32] mod_range [of 14 16] mod_range [of 30 8])

lemma continuation_byte:
  "(b AND 0xc0 = (0x80 :: u8)) = (0x80 \<le> unat b \<and> unat b < 0xC0) \<and> unat (ucast (b AND 0x3f) :: u32) = unat b mod 64"
  unfolding high_bits by (simp add: low_bits div_range)

abbreviation continues_at :: "u8 \<Rightarrow> bool" where
  "continues_at b \<equiv> 0x80 \<le> unat b \<and> unat b < 0xC0"

definition join_nat :: "nat \<Rightarrow> u8 list \<Rightarrow> nat" where
  "join_nat c bs = foldl (\<lambda>c b. c * 64 + unat b mod 64) c bs"

lemma join_word:
  assumes "unat c < 2 ^ 26" and "unat y < 64"
  shows "unat (push_bit 6 c OR y :: u32) = unat c * 64 + unat y"
proof -
  have "push_bit 6 c AND y = 0"
  proof (rule bit_word_eqI)
    fix n assume "n < LENGTH(32)"
    have "take_bit 6 y = y" using assms(2) by (simp add: word_unat_eq_iff take_bit_eq_mod unat_mod_distrib)
    then have "bit y n \<Longrightarrow> n < 6" by (metis bit_take_bit_iff)
    then show "bit (push_bit 6 c AND y) n = bit 0 n" by (auto simp: bit_simps)
  qed
  then have "push_bit 6 c OR y = push_bit 6 c + y" by (simp add: disjunctive_add_eq_or)
  moreover have "push_bit 6 c = c * 64" by (simp add: push_bit_eq_mult)
  moreover have "unat (c * 64) = unat c * 64" using assms(1) by (simp add: unat_times_no_wrap)
  ultimately show ?thesis using assms by (simp add: unat_plus_no_wrap)
qed

lemma continuationBytes_nat:
  "(unat c + 1) * 64 ^ length bs \<le> 2 ^ 32 \<Longrightarrow>
     map_option unat (continuationBytes bs c) = (if \<forall>b \<in> set bs. continues_at b then Some (join_nat (unat c) bs) else None)"
proof (induction bs arbitrary: c)
  case (Cons b bs)
  let ?y = "ucast (b AND 0x3f) :: u32"
  have y: "unat ?y = unat b mod 64" using continuation_byte [of b] by blast
  have "(unat c + 1) * 64 \<le> (unat c + 1) * 64 ^ length (b # bs)" by (rule mult_le_mono2) simp
  from order_trans [OF this Cons.prems] have small: "unat c < 2 ^ 26" by simp
  have joined: "unat (push_bit 6 c OR ?y) = unat c * 64 + unat b mod 64" using join_word [OF small, of ?y] y by simp
  have "unat (push_bit 6 c OR ?y) + 1 \<le> (unat c + 1) * 64" unfolding joined by simp
  then have "(unat (push_bit 6 c OR ?y) + 1) * 64 ^ length bs \<le> (unat c + 1) * 64 * 64 ^ length bs" by (rule mult_le_mono1)
  also have "\<dots> = (unat c + 1) * 64 ^ length (b # bs)" by (simp add: algebra_simps)
  also note Cons.prems
  finally have "(unat (push_bit 6 c OR ?y) + 1) * 64 ^ length bs \<le> 2 ^ 32" .
  from Cons.IH [OF this] show ?case using continuation_byte [of b] joined
    by (cases "continues_at b"; cases "\<forall>b \<in> set bs. continues_at b") (simp_all add: join_nat_def)
qed (simp add: join_nat_def)

lemma codepointRejected_nat:
  "codepointRejected k w \<longleftrightarrow>
     k = 2 \<and> unat w < 0x80 \<or> k = 3 \<and> unat w < 0x800 \<or> k = 4 \<and> unat w < 0x10000
     \<or> unat w > 0x10ffff \<or> unat w \<ge> 0xd800 \<and> unat w \<le> 0xdfff \<or> unat w \<ge> 0x80 \<and> unat w \<le> 0x9f"
  by (simp add: codepointRejected_def word_less_nat_alt word_le_nat_alt)

section \<open>One step of the loop\<close>

lemma validUtf8_lead:
  assumes "lead_nat (unat f) = Some (k, c0)"
  shows "validUtf8 (f # rest) \<longleftrightarrow>
    k \<le> Suc (length rest) \<and> (\<forall>b \<in> set (take (k - 1) rest). continues_at b)
    \<and> (\<exists>w. unat w = join_nat c0 (take (k - 1) rest) \<and> \<not> codepointRejected k w) \<and> validUtf8 (drop (k - 1) rest)"
proof -
  have f: "(f < 0x80) = False" using assms by (auto simp: lead_nat_def word_less_nat_alt split: if_splits)
  obtain w0 where w0: "leadByte f = Some (k, w0)" "unat w0 = c0"
    using assms leadByte_nat [of f] by (cases "leadByte f") auto
  have "k = 2 \<and> c0 < 32 \<or> k = 3 \<and> c0 < 16 \<or> k = 4 \<and> c0 < 8" using assms by (auto simp: lead_nat_def split: if_splits)
  then have "(c0 + 1) * 64 ^ (k - 1) \<le> 2 ^ 32" by auto
  moreover have "64 ^ length (take (k - 1) rest) \<le> (64 :: nat) ^ (k - 1)" by (rule power_increasing) simp_all
  ultimately have "(unat w0 + 1) * 64 ^ length (take (k - 1) rest) \<le> 2 ^ 32" unfolding w0(2)
    by (meson le_trans mult_le_mono2)
  note cont = continuationBytes_nat [OF this]
  show ?thesis
  proof (cases "continuationBytes (take (k - 1) rest) w0")
    case None
    with cont have "\<not> (\<forall>b \<in> set (take (k - 1) rest). continues_at b)" by (auto split: if_splits)
    then show ?thesis using w0 None by (auto simp: f)
  next
    case (Some w)
    with cont w0 have "\<forall>b \<in> set (take (k - 1) rest). continues_at b" "unat w = join_nat c0 (take (k - 1) rest)" by (auto split: if_splits)
    moreover have "codepointRejected k w = codepointRejected k v" if "unat v = unat w" for v
      using that by (simp add: codepointRejected_nat)
    ultimately have "(\<exists>v. unat v = join_nat c0 (take (k - 1) rest) \<and> \<not> codepointRejected k v) \<longleftrightarrow> \<not> codepointRejected k w"
      by metis
    then show ?thesis using w0 Some \<open>\<forall>b \<in> set (take (k - 1) rest). continues_at b\<close> by (auto simp: f)
  qed
qed

text \<open>The bytes of a sequence, read back as the code point they encode.\<close>

lemma continues_at_mod: "continues_at b \<Longrightarrow> unat b = 0x80 + unat b mod 64"
  using mod_range [of 2 64 "unat b"] by simp

lemma mod_64_less: "n mod 64 < (64 :: nat)"
  by simp

lemma join_less: "a < 16 \<Longrightarrow> m < 64 \<Longrightarrow> n < 64 \<Longrightarrow> (a * 64 + m) * 64 + n < (0x10000 :: nat)"
  by (simp add: algebra_simps)

lemma split_64: "(q * 64 + n mod 64) div 64 = q" "(q * 64 + n mod 64) mod 64 = n mod (64 :: nat)"
  by simp_all

lemma div_4096: "c div 4096 = c div 64 div (64 :: nat)" "c div 262144 = c div 64 div 64 div (64 :: nat)"
  using div_mult2_eq [of c 64 64] div_mult2_eq [of c 4096 64] by simp_all

lemma encode_join:
  assumes "\<forall>b \<in> set bs. continues_at b" and "c = join_nat c0 bs"
  shows "length bs = 1 \<Longrightarrow> c0 < 32 \<Longrightarrow> 0x80 \<le> c \<Longrightarrow> utf8_encode c = (0xC0 + c0) # map unat bs"
    and "length bs = 2 \<Longrightarrow> c0 < 16 \<Longrightarrow> 0x800 \<le> c \<Longrightarrow> utf8_encode c = (0xE0 + c0) # map unat bs"
    and "length bs = 3 \<Longrightarrow> c0 < 8 \<Longrightarrow> 0x10000 \<le> c \<Longrightarrow> utf8_encode c = (0xF0 + c0) # map unat bs"
proof -
  assume len: "length bs = 1" and c: "c0 < 32" "0x80 \<le> c"
  then obtain b where bs: "bs = [b]" by (cases bs) auto
  have "c = c0 * 64 + unat b mod 64" using assms(2) by (simp add: bs join_nat_def)
  moreover from this have "c < 0x800" using c(1) mod_64_less [of "unat b"] by linarith
  ultimately show "utf8_encode c = (0xC0 + c0) # map unat bs"
    using c assms(1) continues_at_mod [of b] by (simp add: bs utf8_encode_def)
next
  assume len: "length bs = 2" and c: "c0 < 16" "0x800 \<le> c"
  then obtain b b' where bs: "bs = [b, b']" by (auto simp: numeral_2_eq_2 length_Suc_conv)
  have "c = (c0 * 64 + unat b mod 64) * 64 + unat b' mod 64" using assms(2) by (simp add: bs join_nat_def)
  then have "c < 0x10000" "c div 4096 = c0" "c div 64 mod 64 = unat b mod 64" "c mod 64 = unat b' mod 64"
    by (simp_all only: div_4096 split_64 join_less [OF c(1) mod_64_less mod_64_less])
  then show "utf8_encode c = (0xE0 + c0) # map unat bs"
    using c assms(1) continues_at_mod [of b] continues_at_mod [of b'] by (simp add: bs utf8_encode_def)
next
  assume len: "length bs = 3" and c: "c0 < 8" "0x10000 \<le> c"
  then obtain b b' b'' where bs: "bs = [b, b', b'']" by (auto simp: numeral_3_eq_3 length_Suc_conv)
  have "c = ((c0 * 64 + unat b mod 64) * 64 + unat b' mod 64) * 64 + unat b'' mod 64" using assms(2) by (simp add: bs join_nat_def)
  then have "c div 262144 = c0" "c div 4096 mod 64 = unat b mod 64" "c div 64 mod 64 = unat b' mod 64"
    "c mod 64 = unat b'' mod 64" by (simp_all only: div_4096 split_64)
  then show "utf8_encode c = (0xF0 + c0) # map unat bs"
    using c assms(1) continues_at_mod [of b] continues_at_mod [of b'] continues_at_mod [of b''] by (simp add: bs utf8_encode_def)
qed

lemma validUtf8_step:
  assumes "validUtf8 (f # rest)"
  shows "\<exists>c bs rest'. f # rest = bs @ rest' \<and> text_char c \<and> map unat bs = utf8_encode c \<and> validUtf8 rest'"
proof (cases "f < 0x80")
  case True
  then have ascii: "unat f < 0x80" by (simp add: word_less_nat_alt)
  have printable: "\<not> (f < 0x20 \<or> f = 0x7f)" "validUtf8 rest" using assms True by (auto split: if_splits)
  then have "text_char (unat f)" using ascii by (auto simp: text_char_def word_less_nat_alt word_unat_eq_iff)
  moreover have "map unat [f] = utf8_encode (unat f)" using ascii by (simp add: utf8_encode_def)
  ultimately show ?thesis using printable(2) by (metis append_Cons append_Nil)
next
  case False
  then obtain k w0 where "leadByte f = Some (k, w0)" using assms by (cases "leadByte f") auto
  then obtain c0 where lead: "lead_nat (unat f) = Some (k, c0)" using leadByte_nat [of f] by (cases "lead_nat (unat f)") auto
  define bs where "bs = take (k - 1) rest"
  define c where "c = join_nat c0 bs"
  have valid: "k \<le> Suc (length rest)" "\<forall>b \<in> set bs. continues_at b" "validUtf8 (drop (k - 1) rest)"
    "\<exists>w. unat w = c \<and> \<not> codepointRejected k w"
    using assms validUtf8_lead [OF lead, of rest] by (simp_all add: bs_def c_def)
  have len: "length bs = k - 1" using valid(1) by (simp add: bs_def)
  have accepted: "k = 2 \<longrightarrow> 0x80 \<le> c" "k = 3 \<longrightarrow> 0x800 \<le> c" "k = 4 \<longrightarrow> 0x10000 \<le> c" "c \<le> 0x10ffff"
    "\<not> (0xd800 \<le> c \<and> c \<le> 0xdfff)" "\<not> (0x80 \<le> c \<and> c \<le> 0x9f)"
    using valid(4) by (auto simp: codepointRejected_nat not_less not_le)
  note enc = encode_join [OF valid(2) c_def]
  have "(k = 2 \<or> k = 3 \<or> k = 4) \<and> utf8_encode c = unat f # map unat bs"
    using lead len accepted enc by (auto simp: lead_nat_def split: if_splits)
  moreover from this accepted have "text_char c" by (auto simp: text_char_def)
  moreover have "f # rest = (f # bs) @ drop (k - 1) rest" by (simp add: bs_def)
  ultimately show ?thesis using valid(3) by (metis list.simps(9))
qed

lemma tail_mod: "(128 + n mod 64) mod 64 = n mod (64 :: nat)"
  using mod_mult_self1 [of "n mod 64" 2 64] by (simp add: add.commute)

lemma join_encoded:
  "unat b = 128 + c mod 64 \<Longrightarrow> join_nat (c div 64) [b] = c"
  "unat b = 128 + c mod 64 \<Longrightarrow> unat b' = 128 + c div 64 mod 64 \<Longrightarrow> join_nat (c div 4096) [b', b] = c"
  "unat b = 128 + c mod 64 \<Longrightarrow> unat b' = 128 + c div 64 mod 64 \<Longrightarrow> unat b'' = 128 + c div 4096 mod 64 \<Longrightarrow>
     join_nat (c div 262144) [b'', b', b] = c"
  by (simp_all only: join_nat_def foldl.simps tail_mod div_4096 div_mult_mod_eq)

lemma encoded_parts:
  assumes c: "text_char c" "\<not> c < 0x80" and bs: "map unat (f # tail) = utf8_encode c"
  obtains k c0 where "lead_nat (unat f) = Some (k, c0)" "length tail = k - 1" "k \<noteq> 0" "\<forall>b \<in> set tail. continues_at b"
    "join_nat c0 tail = c" "\<not> codepointRejected k (of_nat c)"
proof -
  have w: "unat (of_nat c :: u32) = c" using c(1) by (simp add: text_char_def unat_of_nat)
  have mods: "c mod 64 < 64" "c div 64 mod 64 < 64" "c div 4096 mod 64 < 64" by simp_all
  consider "c < 0x800" | "0x800 \<le> c" "c < 0x10000" | "0x10000 \<le> c" by linarith
  then show thesis
  proof cases
    case 1
    then have "c div 64 < 32" by (simp add: div_less_iff_less_mult)
    then show thesis using 1 bs c mods w
      by (intro that [of 2 "c div 64"]) (auto simp: utf8_encode_def lead_nat_def join_encoded codepointRejected_nat text_char_def)
  next
    case 2
    then have "c div 4096 < 16" by (simp add: div_less_iff_less_mult)
    then show thesis using 2 bs c mods w
      by (intro that [of 3 "c div 4096"]) (auto simp: utf8_encode_def lead_nat_def join_encoded codepointRejected_nat text_char_def)
  next
    case 3
    have "c < 8 * 262144" using c(1) by (simp add: text_char_def)
    then have "c div 262144 < 8" by (simp add: div_less_iff_less_mult)
    then show thesis using 3 bs c mods w
      by (intro that [of 4 "c div 262144"]) (auto simp: utf8_encode_def lead_nat_def join_encoded codepointRejected_nat text_char_def)
  qed
qed

lemma validUtf8_append:
  assumes "text_char c" and "map unat bs = utf8_encode c"
  shows "validUtf8 (bs @ rest) \<longleftrightarrow> validUtf8 rest"
proof (cases "c < 0x80")
  case True
  then obtain f where bs: "bs = [f]" "unat f = c" using assms(2) by (auto simp: utf8_encode_def)
  then show ?thesis using assms(1) True by (auto simp: text_char_def word_less_nat_alt word_unat_eq_iff)
next
  case False
  obtain f tail where bs: "bs = f # tail" using assms(2) by (cases bs) (auto simp: utf8_encode_def split: if_splits)
  have w: "unat (of_nat c :: u32) = c" using assms(1) by (simp add: text_char_def unat_of_nat)
  obtain k c0 where k: "lead_nat (unat f) = Some (k, c0)" "length tail = k - 1" "k \<noteq> 0" "\<forall>b \<in> set tail. continues_at b" "join_nat c0 tail = c"
    and ok: "\<not> codepointRejected k (of_nat c)"
    using encoded_parts [OF assms(1) False, of f tail] assms(2) by (auto simp: bs)
  then show ?thesis using validUtf8_lead [OF k(1), of "tail @ rest"] w by (auto simp: bs)
qed

text \<open>
  C27. The byte loop accepts a text exactly when it is the UTF-8 encoding of a sequence of Unicode
  scalar values none of which is a control character: overlong forms, surrogates, truncated sequences
  and values above U+10FFFF are all refused, and every proper encoding is accepted.
\<close>

theorem validUtf8_iff_encoding:
  "validUtf8 bs \<longleftrightarrow> (\<exists>cs. list_all text_char cs \<and> map unat bs = concat (map utf8_encode cs))"
proof
  show "validUtf8 bs \<Longrightarrow> \<exists>cs. list_all text_char cs \<and> map unat bs = concat (map utf8_encode cs)"
  proof (induction "length bs" arbitrary: bs rule: less_induct)
    case less
    show ?case
    proof (cases bs)
      case (Cons f rest)
      with validUtf8_step [of f rest] less.prems obtain c b rest' where step: "bs = b @ rest'" "text_char c" "map unat b = utf8_encode c"
        "validUtf8 rest'" by auto
      have "b \<noteq> []" using step(3) by (auto simp: utf8_encode_def split: if_splits)
      with less.hyps [of rest'] step obtain cs where "list_all text_char cs" "map unat rest' = concat (map utf8_encode cs)" by auto
      with step show ?thesis by (intro exI [of _ "c # cs"]) simp
    qed (auto intro: exI [of _ "[]"])
  qed
next
  assume "\<exists>cs. list_all text_char cs \<and> map unat bs = concat (map utf8_encode cs)"
  then obtain cs where "list_all text_char cs" "map unat bs = concat (map utf8_encode cs)" by blast
  then show "validUtf8 bs"
  proof (induction cs arbitrary: bs)
    case (Cons c cs)
    from Cons.prems(2) obtain b rest where "bs = b @ rest" "map unat b = utf8_encode c" "map unat rest = concat (map utf8_encode cs)"
      by (auto simp: map_eq_append_conv)
    with Cons validUtf8_append [of c b rest] show ?case by simp
  qed simp
qed

end
