(* ===== verification/Authentication_Limits.thy ===== *)
theory Authentication_Limits
  imports Value_Types
begin

text \<open>
  The rate limiter in front of authentication (\<^verbatim>\<open>AuthenticationRateLimiter\<close> of
  \<^verbatim>\<open>server_core/server_authentication.cpp\<close>): one token bucket for the server and one for each
  admission scope, in a fixed table.
\<close>

section \<open>Model\<close>

definition MaximumAuthenticationAdmissionScopes :: nat where
  "MaximumAuthenticationAdmissionScopes = 256"

definition MinimumSourceAuthenticationBurst :: u64 where "MinimumSourceAuthenticationBurst = 1"
definition MaximumSourceAuthenticationBurst :: u64 where "MaximumSourceAuthenticationBurst = 16"
definition MinimumGlobalAuthenticationBurst :: u64 where "MinimumGlobalAuthenticationBurst = 1"
definition MaximumGlobalAuthenticationBurst :: u64 where "MaximumGlobalAuthenticationBurst = 256"
definition MinimumAuthenticationRefillMilliseconds :: u64 where "MinimumAuthenticationRefillMilliseconds = 100"
definition MaximumAuthenticationRefillMilliseconds :: u64 where "MaximumAuthenticationRefillMilliseconds = 120000"
definition NanosecondsPerMillisecond :: u64 where "NanosecondsPerMillisecond = 1000000"

record AuthenticationRateLimitPolicy =
  sourceBurst :: u64
  globalBurst :: u64
  sourceRefillMilliseconds :: u64
  globalRefillMilliseconds :: u64

definition createRateLimitPolicy :: "u64 \<Rightarrow> u64 \<Rightarrow> u64 \<Rightarrow> u64 \<Rightarrow> AuthenticationRateLimitPolicy option" where
  "createRateLimitPolicy sb gb sr gr =
     (if sb < MinimumSourceAuthenticationBurst \<or> sb > MaximumSourceAuthenticationBurst
         \<or> gb < MinimumGlobalAuthenticationBurst \<or> gb > MaximumGlobalAuthenticationBurst
         \<or> sr < MinimumAuthenticationRefillMilliseconds \<or> sr > MaximumAuthenticationRefillMilliseconds
         \<or> gr < MinimumAuthenticationRefillMilliseconds \<or> gr > MaximumAuthenticationRefillMilliseconds
      then None
      else Some \<lparr>sourceBurst = sb, globalBurst = gb, sourceRefillMilliseconds = sr, globalRefillMilliseconds = gr\<rparr>)"

datatype AuthenticationRateLimitResult =
  RateAllowed | GlobalExhausted | SourceExhausted | SourceTableFull | ClockRegressed

type_synonym AdmissionScopeId = "u8 list"

record Bucket =
  tokens :: u64
  lastRefill :: MonotonicInstant

record SourceBucket =
  sb_scope :: AdmissionScopeId
  sb_bucket :: Bucket

record AuthenticationRateLimiter =
  rl_policy :: AuthenticationRateLimitPolicy
  rl_global :: Bucket
  rl_lastAttempt :: MonotonicInstant
  rl_sources :: "SourceBucket option list"
  rl_trackedScopes :: u64

definition createRateLimiter :: "AuthenticationRateLimitPolicy \<Rightarrow> MonotonicInstant \<Rightarrow> AuthenticationRateLimiter" where
  "createRateLimiter policy now =
     \<lparr>rl_policy = policy, rl_global = \<lparr>tokens = globalBurst policy, lastRefill = now\<rparr>, rl_lastAttempt = now,
      rl_sources = replicate MaximumAuthenticationAdmissionScopes None, rl_trackedScopes = 0\<rparr>"

definition refill :: "Bucket \<Rightarrow> u64 \<Rightarrow> u64 \<Rightarrow> MonotonicInstant \<Rightarrow> Bucket" where
  "refill bucket capacity intervalNanoseconds now =
     (let elapsed = now - lastRefill bucket;
          additions = elapsed div intervalNanoseconds
      in if additions = 0 then bucket
         else
           (let missing = capacity - tokens bucket
            in if additions \<ge> missing then \<lparr>tokens = capacity, lastRefill = now\<rparr>
               else \<lparr>tokens = tokens bucket + additions,
                     lastRefill = lastRefill bucket + additions * intervalNanoseconds\<rparr>))"

definition findScope :: "AuthenticationRateLimiter \<Rightarrow> AdmissionScopeId \<Rightarrow> nat option" where
  "findScope l scope = find_index (\<lambda>s. case s of Some b \<Rightarrow> sb_scope b = scope | None \<Rightarrow> False) (rl_sources l)"

definition emptySlot :: "AuthenticationRateLimiter \<Rightarrow> nat option" where
  "emptySlot l = find_index (\<lambda>s. s = None) (rl_sources l)"

definition takeToken :: "Bucket \<Rightarrow> Bucket" where
  "takeToken b = b\<lparr>tokens := tokens b - 1\<rparr>"

text \<open>An attempt once the server's bucket has a token: the bucket of the scope decides.\<close>

definition allowSource ::
  "AuthenticationRateLimiter \<Rightarrow> AdmissionScopeId \<Rightarrow> MonotonicInstant
     \<Rightarrow> AuthenticationRateLimiter \<times> AuthenticationRateLimitResult" where
  "allowSource l scope now =
     (case findScope l scope of
        Some existing \<Rightarrow>
          (let entry = the (rl_sources l ! existing);
               source = refill (sb_bucket entry) (sourceBurst (rl_policy l))
                          (sourceRefillMilliseconds (rl_policy l) * NanosecondsPerMillisecond) now
           in if tokens source = 0
              then (l\<lparr>rl_sources := (rl_sources l)[existing := Some (entry\<lparr>sb_bucket := source\<rparr>)]\<rparr>, SourceExhausted)
              else (l\<lparr>rl_sources := (rl_sources l)[existing := Some (entry\<lparr>sb_bucket := takeToken source\<rparr>)],
                       rl_global := takeToken (rl_global l)\<rparr>, RateAllowed))
      | None \<Rightarrow>
          (case emptySlot l of
             None \<Rightarrow> (l, SourceTableFull)
           | Some slot \<Rightarrow>
             (l\<lparr>rl_sources := (rl_sources l)[slot := Some \<lparr>sb_scope = scope,
                     sb_bucket = \<lparr>tokens = sourceBurst (rl_policy l) - 1, lastRefill = now\<rparr>\<rparr>],
                 rl_trackedScopes := rl_trackedScopes l + 1, rl_global := takeToken (rl_global l)\<rparr>, RateAllowed)))"

definition allow ::
  "AuthenticationRateLimiter \<Rightarrow> AdmissionScopeId \<Rightarrow> MonotonicInstant
     \<Rightarrow> AuthenticationRateLimiter \<times> AuthenticationRateLimitResult" where
  "allow l scope now =
     (if now < rl_lastAttempt l then (l, ClockRegressed)
      else
        (let l1 = l\<lparr>rl_lastAttempt := now,
                    rl_global := refill (rl_global l) (globalBurst (rl_policy l))
                                   (globalRefillMilliseconds (rl_policy l) * NanosecondsPerMillisecond) now\<rparr>
         in if tokens (rl_global l1) = 0 then (l1, GlobalExhausted) else allowSource l1 scope now))"

section \<open>Buckets\<close>

text \<open>
  A bucket changed by a use: it stays within its capacity, its clock does not go back, and the
  tokens it now has, with the \<open>k\<close> it gave away, are paid for by the tokens it had and the time
  that has passed.
\<close>

definition bucket_use :: "u64 \<Rightarrow> u64 \<Rightarrow> Bucket \<Rightarrow> Bucket \<Rightarrow> nat \<Rightarrow> bool" where
  "bucket_use capacity interval b b' k \<longleftrightarrow> tokens b' \<le> capacity \<and> lastRefill b \<le> lastRefill b'
     \<and> (unat (tokens b') + k) * unat interval + unat (lastRefill b) \<le> unat (tokens b) * unat interval + unat (lastRefill b')"

lemma bucket_use_refl: "tokens b \<le> capacity \<Longrightarrow> bucket_use capacity interval b b 0"
  by (simp add: bucket_use_def)

lemma bucket_use_trans:
  "bucket_use c i b b' k \<Longrightarrow> bucket_use c i b' b'' k' \<Longrightarrow> bucket_use c i b b'' (k + k')"
  by (auto simp: bucket_use_def algebra_simps)

lemma refill_use:
  assumes t: "tokens b \<le> capacity" and l: "lastRefill b \<le> now"
  shows "bucket_use capacity interval b (refill b capacity interval now) 0 \<and> lastRefill (refill b capacity interval now) \<le> now"
proof -
  let ?e = "unat now - unat (lastRefill b)" and ?i = "unat interval"
  have e: "unat (now - lastRefill b) = ?e" using l by (rule unat_minus_le)
  let ?a = "?e div ?i"
  have a: "unat ((now - lastRefill b) div interval) = ?a" by (simp add: unat_div e)
  have ai: "?a * ?i \<le> ?e" by simp
  have m: "unat (capacity - tokens b) = unat capacity - unat (tokens b)" using t by (rule unat_minus_le)
  have le: "unat (tokens b) \<le> unat capacity" "unat (lastRefill b) \<le> unat now" using t l by (simp_all add: word_le_nat_alt)
  consider (none) "?a = 0" | (full) "?a \<noteq> 0" "unat capacity - unat (tokens b) \<le> ?a"
    | (some) "?a \<noteq> 0" "?a < unat capacity - unat (tokens b)" by linarith
  then show ?thesis
  proof cases
    case none
    then have "refill b capacity interval now = b" by (simp add: refill_def Let_def word_unat_eq_iff a)
    then show ?thesis using bucket_use_refl [OF t] l by simp
  next
    case full
    then have r: "refill b capacity interval now = \<lparr>tokens = capacity, lastRefill = now\<rparr>"
      by (simp add: refill_def Let_def word_unat_eq_iff word_le_nat_alt a m)
    have "unat capacity * ?i \<le> (unat (tokens b) + ?a) * ?i" using full(2) by (intro mult_le_mono1) linarith
    then have "unat capacity * ?i + unat (lastRefill b) \<le> unat (tokens b) * ?i + unat now"
      using ai le(2) unfolding add_mult_distrib by linarith
    then show ?thesis using l by (simp add: r bucket_use_def)
  next
    case some
    have wt: "unat (tokens b + (now - lastRefill b) div interval) = unat (tokens b) + ?a"
      using some unat_lt_u64 [of capacity] by (subst unat_plus_no_wrap) (simp_all add: a del: unat_lt_u64)
    have "?a * ?i < 18446744073709551616" using ai unat_lt_u64 [of now] by linarith
    then have wm: "unat ((now - lastRefill b) div interval * interval) = ?a * ?i"
      using unat_times_no_wrap [of "(now - lastRefill b) div interval" interval] by (simp add: a)
    have "unat (lastRefill b) + ?a * ?i < 18446744073709551616" using ai le unat_lt_u64 [of now] by linarith
    then have wl: "unat (lastRefill b + (now - lastRefill b) div interval * interval) = unat (lastRefill b) + ?a * ?i"
      using unat_plus_no_wrap [of "lastRefill b" "(now - lastRefill b) div interval * interval"] by (simp add: wm)
    have "\<not> capacity - tokens b \<le> (now - lastRefill b) div interval" using some by (simp add: word_le_nat_alt a m)
    then have r: "refill b capacity interval now = \<lparr>tokens = tokens b + (now - lastRefill b) div interval,
        lastRefill = lastRefill b + (now - lastRefill b) div interval * interval\<rparr>"
      using some by (simp add: refill_def Let_def word_unat_eq_iff a)
    show ?thesis unfolding r bucket_use_def word_le_nat_alt Bucket.simps wt wl add_mult_distrib
      using some ai le by (intro conjI; linarith)
  qed
qed

lemma takeToken_use:
  assumes "tokens b \<le> capacity" and "tokens b \<noteq> 0"
  shows "bucket_use capacity interval b (takeToken b) 1 \<and> lastRefill (takeToken b) = lastRefill b"
proof -
  have "unat (tokens b - 1) = unat (tokens b) - 1" using assms(2) by (simp add: unat_minus_one)
  moreover have "unat (tokens b) \<noteq> 0" using assms(2) by (simp add: unat_eq_0)
  ultimately show ?thesis using assms(1) by (simp add: bucket_use_def takeToken_def word_le_nat_alt)
qed

section \<open>The limiter\<close>

definition policy_ok :: "AuthenticationRateLimitPolicy \<Rightarrow> bool" where
  "policy_ok p \<longleftrightarrow> 0 < sourceBurst p \<and> 0 < globalBurst p \<and> 0 < globalRefillMilliseconds p \<and> 0 < sourceRefillMilliseconds p
     \<and> globalRefillMilliseconds p \<le> MaximumAuthenticationRefillMilliseconds
     \<and> sourceRefillMilliseconds p \<le> MaximumAuthenticationRefillMilliseconds"

abbreviation globalInterval :: "AuthenticationRateLimiter \<Rightarrow> u64" where
  "globalInterval l \<equiv> globalRefillMilliseconds (rl_policy l) * NanosecondsPerMillisecond"

abbreviation sourceInterval :: "AuthenticationRateLimiter \<Rightarrow> u64" where
  "sourceInterval l \<equiv> sourceRefillMilliseconds (rl_policy l) * NanosecondsPerMillisecond"

text \<open>The bucket of a scope, if the table has one.\<close>

definition scope_bucket :: "AuthenticationRateLimiter \<Rightarrow> AdmissionScopeId \<Rightarrow> Bucket option" where
  "scope_bucket l scope = map_option (\<lambda>i. sb_bucket (the (rl_sources l ! i))) (findScope l scope)"

definition limiter_ok :: "AuthenticationRateLimiter \<Rightarrow> bool" where
  "limiter_ok l \<longleftrightarrow> policy_ok (rl_policy l)
     \<and> tokens (rl_global l) \<le> globalBurst (rl_policy l) \<and> lastRefill (rl_global l) \<le> rl_lastAttempt l
     \<and> (\<forall>s b. scope_bucket l s = Some b \<longrightarrow> tokens b \<le> sourceBurst (rl_policy l) \<and> lastRefill b \<le> rl_lastAttempt l)"

lemma created_policy_ok: "createRateLimitPolicy sb gb sr gr = Some p \<Longrightarrow> policy_ok p"
proof -
  assume "createRateLimitPolicy sb gb sr gr = Some p"
  then have p: "p = \<lparr>sourceBurst = sb, globalBurst = gb, sourceRefillMilliseconds = sr, globalRefillMilliseconds = gr\<rparr>"
      "sb \<noteq> 0" "gb \<noteq> 0" "100 \<le> sr" "sr \<le> 120000" "100 \<le> gr" "gr \<le> 120000"
    by (auto simp: createRateLimitPolicy_def not_less MinimumSourceAuthenticationBurst_def MinimumGlobalAuthenticationBurst_def
        MinimumAuthenticationRefillMilliseconds_def MaximumAuthenticationRefillMilliseconds_def split: if_splits)
  then show ?thesis by (auto simp: policy_ok_def MaximumAuthenticationRefillMilliseconds_def word_neq_0_conv word_less_nat_alt word_le_nat_alt)
qed

lemma created_limiter_ok: "policy_ok p \<Longrightarrow> limiter_ok (createRateLimiter p now)"
  by (simp add: limiter_ok_def createRateLimiter_def scope_bucket_def findScope_def find_index_def Let_def)

lemma findScope_SomeD: "findScope l s = Some i \<Longrightarrow> i < length (rl_sources l) \<and> (\<exists>e. rl_sources l ! i = Some e \<and> sb_scope e = s)"
  unfolding findScope_def by (drule find_index_iff) (auto split: option.splits)

text \<open>Writing the entry of a scope in its slot, or in an empty one, changes only that scope.\<close>

definition scope_entry :: "SourceBucket option \<Rightarrow> AdmissionScopeId \<Rightarrow> bool" where
  "scope_entry e scope = (case e of Some b \<Rightarrow> sb_scope b = scope | None \<Rightarrow> False)"

lemma findScope_alt: "findScope l scope = find_index (\<lambda>e. scope_entry e scope) (rl_sources l)"
  by (simp add: findScope_def scope_entry_def)

lemma find_index_cong_at:
  assumes "\<And>j. j < length xs \<Longrightarrow> P (xs ! j) = P (ys ! j)" and "length ys = length xs"
  shows "find_index P ys = find_index P xs"
proof -
  have "map P xs = map P ys" using assms by (simp add: list_eq_iff_nth_eq)
  moreover have "length (takeWhile (\<lambda>x. \<not> P x) zs) = length (takeWhile Not (map P zs))" for zs
    by (simp add: takeWhile_map comp_def)
  ultimately show ?thesis using assms(2) by (simp add: find_index_def Let_def)
qed

lemma find_index_update_other:
  assumes "i < length xs" and "\<not> P (xs ! i)" and "\<not> P y"
  shows "find_index P (xs[i := y]) = find_index P xs"
  using assms by (intro find_index_cong_at) (auto simp: nth_list_update)

lemma find_index_update_same:
  assumes "i < length xs" and "P (xs ! i)" and "P y"
  shows "find_index P (xs[i := y]) = find_index P xs"
  using assms by (intro find_index_cong_at) (auto simp: nth_list_update)

lemma find_index_update_new:
  assumes "i < length xs" and "find_index P xs = None" and "P y"
  shows "find_index P (xs[i := y]) = Some i"
proof -
  have none: "\<forall>x \<in> set xs. \<not> P x" using assms(2) by (simp add: find_index_None_iff)
  have "x \<in> set (take i xs) \<Longrightarrow> \<not> P x" for x using none by (auto dest: in_set_takeD)
  then have "takeWhile (\<lambda>x. \<not> P x) (take i xs @ y # drop (Suc i) xs) = take i xs"
    using assms(3) by (subst takeWhile_append2) auto
  then have "takeWhile (\<lambda>x. \<not> P x) (xs[i := y]) = take i xs" using assms(1) by (simp add: upd_conv_take_nth_drop)
  then show ?thesis using assms(1) by (simp add: find_index_def Let_def)
qed

lemma scope_bucket_write:
  assumes i: "i < length (rl_sources l)" and e: "sb_scope e = scope"
    and slot: "findScope l scope = Some i \<or> findScope l scope = None \<and> rl_sources l ! i = None"
    and l': "rl_sources l' = (rl_sources l)[i := Some e]"
  shows "scope_bucket l' s = (if s = scope then Some (sb_bucket e) else scope_bucket l s)"
proof (cases "s = scope")
  case True
  have "findScope l' scope = Some i"
  proof (cases "findScope l scope")
    case None
    then show ?thesis using i e by (simp add: findScope_alt l' find_index_update_new scope_entry_def)
  next
    case (Some j)
    then have "j = i" using slot by simp
    with Some i e findScope_SomeD [OF Some] show ?thesis
      by (auto simp: findScope_alt l' find_index_update_same scope_entry_def)
  qed
  then show ?thesis using True i by (simp add: scope_bucket_def l')
next
  case False
  have "\<not> scope_entry (rl_sources l ! i) s"
    using slot findScope_SomeD [of l scope i] False by (auto simp: scope_entry_def split: option.splits)
  then have "findScope l' s = findScope l s"
    using i e False by (simp add: findScope_alt l' find_index_update_other scope_entry_def)
  moreover have "j \<noteq> i" if "findScope l s = Some j" for j
    using findScope_SomeD [OF that] slot False findScope_SomeD [of l scope i] by auto
  ultimately show ?thesis using False by (auto simp: scope_bucket_def l' map_option_case split: option.splits)
qed

section \<open>Attempts\<close>

definition used :: "AuthenticationRateLimitResult \<Rightarrow> nat" where
  "used r = of_bool (r = RateAllowed)"

text \<open>What one attempt does to the bucket of the server and to the bucket of any scope.\<close>

definition scope_use :: "AuthenticationRateLimiter \<Rightarrow> AuthenticationRateLimiter \<Rightarrow> AdmissionScopeId \<Rightarrow> nat \<Rightarrow> bool" where
  "scope_use l l' s k \<longleftrightarrow>
     (case (scope_bucket l s, scope_bucket l' s) of
        (Some b, Some b') \<Rightarrow> bucket_use (sourceBurst (rl_policy l)) (sourceInterval l) b b' k
      | (None, Some b') \<Rightarrow> (\<exists>t. rl_lastAttempt l \<le> t \<and> bucket_use (sourceBurst (rl_policy l)) (sourceInterval l)
            \<lparr>tokens = sourceBurst (rl_policy l), lastRefill = t\<rparr> b' k)
      | (None, None) \<Rightarrow> k = 0
      | (Some b, None) \<Rightarrow> False)"

definition attempt_ok :: "AuthenticationRateLimiter \<Rightarrow> AdmissionScopeId \<Rightarrow> AuthenticationRateLimiter \<Rightarrow> AuthenticationRateLimitResult \<Rightarrow> bool" where
  "attempt_ok l scope l' r \<longleftrightarrow> rl_policy l' = rl_policy l \<and> rl_lastAttempt l \<le> rl_lastAttempt l'
     \<and> lastRefill (rl_global l') \<le> rl_lastAttempt l'
     \<and> (\<forall>s b. scope_bucket l' s = Some b \<longrightarrow> lastRefill b \<le> rl_lastAttempt l' \<and> tokens b \<le> sourceBurst (rl_policy l))
     \<and> bucket_use (globalBurst (rl_policy l)) (globalInterval l) (rl_global l) (rl_global l') (used r)
     \<and> (\<forall>s. scope_use l l' s (if s = scope then used r else 0))"

lemma scope_use_same:
  "limiter_ok l \<Longrightarrow> scope_bucket l' s = scope_bucket l s \<Longrightarrow> scope_use l l' s 0"
  by (auto simp: scope_use_def limiter_ok_def bucket_use_refl split: option.splits)

text \<open>An attempt that writes the bucket of its scope, and takes a token from the server if it is allowed.\<close>

lemma written_attempt:
  assumes ok: "limiter_ok l" and now: "rl_lastAttempt l = now" and g: "tokens (rl_global l) \<noteq> 0"
    and l': "rl_policy l' = rl_policy l" "rl_lastAttempt l' = now" "rl_sources l' = (rl_sources l)[i := Some e]" and e: "sb_scope e = scope"
    and slot: "i < length (rl_sources l)" "findScope l scope = Some i \<or> findScope l scope = None \<and> rl_sources l ! i = None"
    and gl: "rl_global l' = (if r = RateAllowed then takeToken (rl_global l) else rl_global l)"
    and b: "bucket_use (sourceBurst (rl_policy l)) (sourceInterval l)
        (case scope_bucket l scope of Some b \<Rightarrow> b | None \<Rightarrow> \<lparr>tokens = sourceBurst (rl_policy l), lastRefill = now\<rparr>) (sb_bucket e) (used r)"
      "lastRefill (sb_bucket e) \<le> now"
  shows "attempt_ok l scope l' r"
proof -
  have global: "bucket_use (globalBurst (rl_policy l)) (globalInterval l) (rl_global l) (takeToken (rl_global l)) 1
      \<and> lastRefill (takeToken (rl_global l)) = lastRefill (rl_global l)"
    using ok g by (intro takeToken_use) (auto simp: limiter_ok_def)
  note sb = scope_bucket_write [OF slot(1) e slot(2) l'(3)]
  have "scope_use l l' s (if s = scope then used r else 0)" for s
    using b l' now scope_use_same [OF ok, of l' s] by (auto simp: scope_use_def sb split: option.splits intro: exI [of _ now])
  moreover have "lastRefill c \<le> now \<and> tokens c \<le> sourceBurst (rl_policy l)" if "scope_bucket l' s = Some c" for s c
    using that ok b now by (auto simp: sb limiter_ok_def bucket_use_def split: if_splits)
  moreover have "bucket_use (globalBurst (rl_policy l)) (globalInterval l) (rl_global l) (rl_global l') (used r)"
    using gl global ok by (auto simp: used_def limiter_ok_def intro: bucket_use_refl)
  ultimately show ?thesis using l' now ok gl global by (auto simp: attempt_ok_def limiter_ok_def)
qed

lemma unchanged_attempt: "limiter_ok l \<Longrightarrow> r \<noteq> RateAllowed \<Longrightarrow> attempt_ok l scope l r"
  using scope_use_same [of l l] by (auto simp: attempt_ok_def used_def limiter_ok_def intro: bucket_use_refl)

lemma allowSource_known:
  assumes ok: "limiter_ok l" and now: "rl_lastAttempt l = now" and g: "tokens (rl_global l) \<noteq> 0"
    and run: "allowSource l scope now = (l', r)" and i: "findScope l scope = Some i"
  shows "attempt_ok l scope l' r"
proof -
  obtain e where e: "rl_sources l ! i = Some e" "sb_scope e = scope" and len: "i < length (rl_sources l)"
    using findScope_SomeD [OF i] by blast
  have sb: "scope_bucket l scope = Some (sb_bucket e)" using i e by (simp add: scope_bucket_def)
  define c where "c = refill (sb_bucket e) (sourceBurst (rl_policy l)) (sourceInterval l) now"
  have c: "bucket_use (sourceBurst (rl_policy l)) (sourceInterval l) (sb_bucket e) c 0 \<and> lastRefill c \<le> now"
    unfolding c_def using ok sb now by (intro refill_use) (auto simp: limiter_ok_def)
  show ?thesis
  proof (cases "tokens c = 0")
    case True
    then have "l' = l\<lparr>rl_sources := (rl_sources l)[i := Some (e\<lparr>sb_bucket := c\<rparr>)]\<rparr>" "r = SourceExhausted"
      using run i e by (simp_all add: allowSource_def Let_def c_def)
    then show ?thesis using written_attempt [OF ok now g, of l' i "e\<lparr>sb_bucket := c\<rparr>" scope r] i len e sb c now by (simp add: used_def)
  next
    case False
    then have l': "l' = l\<lparr>rl_sources := (rl_sources l)[i := Some (e\<lparr>sb_bucket := takeToken c\<rparr>)], rl_global := takeToken (rl_global l)\<rparr>" "r = RateAllowed"
      using run i e by (simp_all add: allowSource_def Let_def c_def)
    have "tokens c \<le> sourceBurst (rl_policy l)" using c by (simp add: bucket_use_def)
    from takeToken_use [OF this False, of "sourceInterval l"] c
    have "bucket_use (sourceBurst (rl_policy l)) (sourceInterval l) (sb_bucket e) (takeToken c) 1 \<and> lastRefill (takeToken c) \<le> now"
      using bucket_use_trans [of _ _ "sb_bucket e" c 0 "takeToken c" 1] by simp
    then show ?thesis using written_attempt [OF ok now g, of l' i "e\<lparr>sb_bucket := takeToken c\<rparr>" scope r] i len e sb now l' by (simp add: used_def)
  qed
qed

lemma allowSource_new:
  assumes ok: "limiter_ok l" and now: "rl_lastAttempt l = now" and g: "tokens (rl_global l) \<noteq> 0"
    and run: "allowSource l scope now = (l', r)" and none: "findScope l scope = None"
  shows "attempt_ok l scope l' r"
proof (cases "emptySlot l")
  case None
  then have "l' = l" "r = SourceTableFull" using run none by (simp_all add: allowSource_def)
  then show ?thesis using unchanged_attempt [OF ok] by simp
next
  case (Some i)
  then have i: "i < length (rl_sources l)" "rl_sources l ! i = None" by (auto simp: emptySlot_def dest: find_index_iff)
  let ?full = "\<lparr>tokens = sourceBurst (rl_policy l), lastRefill = now\<rparr>"
  let ?e = "\<lparr>sb_scope = scope, sb_bucket = takeToken ?full\<rparr>"
  have "bucket_use (sourceBurst (rl_policy l)) (sourceInterval l) ?full (takeToken ?full) 1"
    using ok takeToken_use [of ?full "sourceBurst (rl_policy l)" "sourceInterval l"] by (auto simp: limiter_ok_def policy_ok_def word_neq_0_conv)
  moreover have "rl_policy l' = rl_policy l" "rl_lastAttempt l' = now" "rl_sources l' = (rl_sources l)[i := Some ?e]"
      "rl_global l' = takeToken (rl_global l)" "r = RateAllowed"
    using run none Some now by (auto simp: allowSource_def takeToken_def)
  ultimately show ?thesis
    using written_attempt [OF ok now g, of l' i ?e scope r] i none by (simp add: used_def scope_bucket_def takeToken_def)
qed

text \<open>Refilling the server's bucket first, as every attempt in time does, composes with what follows.\<close>

lemma attempt_after_refill:
  assumes ok: "limiter_ok l" and le: "rl_lastAttempt l \<le> now"
    and l1: "l1 = l\<lparr>rl_lastAttempt := now, rl_global := refill (rl_global l) (globalBurst (rl_policy l)) (globalInterval l) now\<rparr>"
    and a: "limiter_ok l1 \<Longrightarrow> attempt_ok l1 scope l' r"
  shows "attempt_ok l scope l' r"
proof -
  have g: "bucket_use (globalBurst (rl_policy l)) (globalInterval l) (rl_global l) (rl_global l1) 0 \<and> lastRefill (rl_global l1) \<le> now"
    unfolding l1 using ok le refill_use [of "rl_global l" "globalBurst (rl_policy l)" now "globalInterval l"] by (auto simp: limiter_ok_def)
  have sb: "scope_bucket l1 = scope_bucket l" by (auto simp: l1 scope_bucket_def findScope_def fun_eq_iff)
  have "limiter_ok l1" using ok le g sb by (auto simp: limiter_ok_def l1 bucket_use_def dest: order.trans)
  moreover have pol: "rl_policy l1 = rl_policy l" "rl_lastAttempt l1 = now" by (simp_all add: l1)
  moreover have "scope_use l1 l' s k \<Longrightarrow> scope_use l l' s k" for s k
    unfolding scope_use_def pol sb using le
    by (cases "scope_bucket l s"; cases "scope_bucket l' s") (simp_all, meson order.trans)
  ultimately show ?thesis
    using le a bucket_use_trans [OF conjunct1 [OF g], of "rl_global l'" "used r"] by (auto simp: attempt_ok_def)
qed

lemma allow_ok:
  assumes ok: "limiter_ok l" and run: "allow l scope now = (l', r)"
  shows "attempt_ok l scope l' r"
proof (cases "now < rl_lastAttempt l")
  case True
  then show ?thesis using run unchanged_attempt [OF ok] by (auto simp: allow_def)
next
  case False
  define l1 where "l1 = l\<lparr>rl_lastAttempt := now, rl_global := refill (rl_global l) (globalBurst (rl_policy l)) (globalInterval l) now\<rparr>"
  have run1: "(if tokens (rl_global l1) = 0 then (l1, GlobalExhausted) else allowSource l1 scope now) = (l', r)"
    using run False unfolding l1_def allow_def Let_def by (simp only: if_False)
  have "attempt_ok l1 scope l' r" if "limiter_ok l1"
    using run1 that unchanged_attempt allowSource_known [OF that _ _ _ ] allowSource_new [OF that]
    by (cases "findScope l1 scope") (auto simp: l1_def split: if_splits)
  then show ?thesis using attempt_after_refill [OF ok _ l1_def] False by simp
qed

lemma attempt_keeps_ok: "limiter_ok l \<Longrightarrow> attempt_ok l scope l' r \<Longrightarrow> limiter_ok l'"
  by (auto simp: attempt_ok_def limiter_ok_def bucket_use_def)

lemma scope_use_trans:
  assumes "scope_use l l1 s k" and "scope_use l1 l2 s k'" and "rl_policy l1 = rl_policy l" and "rl_lastAttempt l \<le> rl_lastAttempt l1"
  shows "scope_use l l2 s (k + k')"
proof (cases "scope_bucket l1 s")
  case None
  then have none: "scope_bucket l s = None" "k = 0" using assms(1) by (auto simp: scope_use_def split: option.splits)
  then show ?thesis using assms(2-4) None by (auto simp: scope_use_def split: option.splits intro: order.trans)
next
  case (Some b)
  then obtain b2 where "scope_bucket l2 s = Some b2" "bucket_use (sourceBurst (rl_policy l)) (sourceInterval l) b b2 k'"
    using assms(2,3) by (auto simp: scope_use_def split: option.splits)
  then show ?thesis using assms(1) Some by (auto simp: scope_use_def split: option.splits dest: bucket_use_trans)
qed

section \<open>Sequences of attempts\<close>

fun attempts ::
  "AuthenticationRateLimiter \<Rightarrow> (AdmissionScopeId \<times> MonotonicInstant) list
     \<Rightarrow> AuthenticationRateLimiter \<times> AuthenticationRateLimitResult list" where
  "attempts l [] = (l, [])"
| "attempts l ((scope, now) # as) =
     (case allow l scope now of (l1, r) \<Rightarrow> (case attempts l1 as of (l2, rs) \<Rightarrow> (l2, r # rs)))"

fun admitted :: "AuthenticationRateLimitResult list \<Rightarrow> nat" where
  "admitted [] = 0"
| "admitted (r # rs) = used r + admitted rs"

fun admitted_from :: "AdmissionScopeId \<Rightarrow> (AdmissionScopeId \<times> MonotonicInstant) list \<Rightarrow> AuthenticationRateLimitResult list \<Rightarrow> nat" where
  "admitted_from s ((scope, now) # as) (r # rs) = (if s = scope then used r else 0) + admitted_from s as rs"
| "admitted_from s _ _ = 0"

lemma attempts_ok:
  assumes "limiter_ok l" and "attempts l as = (l', rs)"
  shows "limiter_ok l' \<and> rl_policy l' = rl_policy l \<and> rl_lastAttempt l \<le> rl_lastAttempt l'
    \<and> bucket_use (globalBurst (rl_policy l)) (globalInterval l) (rl_global l) (rl_global l') (admitted rs)
    \<and> (\<forall>s. scope_use l l' s (admitted_from s as rs))"
  using assms
proof (induction as arbitrary: l rs)
  case Nil
  then show ?case using scope_use_same [of l l] by (auto simp: limiter_ok_def intro: bucket_use_refl)
next
  case (Cons a as)
  obtain scope now where a: "a = (scope, now)" by (cases a)
  obtain l1 r where run: "allow l scope now = (l1, r)" by fastforce
  obtain rs1 where rest: "attempts l1 as = (l', rs1)" and rs: "rs = r # rs1"
    using Cons.prems(2) run by (auto simp: a split: prod.splits)
  have ok1: "attempt_ok l scope l1 r" by (rule allow_ok [OF Cons.prems(1) run])
  note ih = Cons.IH [OF attempt_keeps_ok [OF Cons.prems(1) ok1] rest]
  have pol: "rl_policy l1 = rl_policy l" "rl_lastAttempt l \<le> rl_lastAttempt l1" using ok1 by (simp_all add: attempt_ok_def)
  have "scope_use l l' s (admitted_from s (a # as) rs)" for s
    using ok1 ih scope_use_trans [of l l1 s _ l', OF _ _ pol] by (simp add: a rs attempt_ok_def)
  moreover have "bucket_use (globalBurst (rl_policy l)) (globalInterval l) (rl_global l) (rl_global l') (admitted rs)"
    using ok1 ih pol bucket_use_trans [of _ _ "rl_global l" "rl_global l1" "used r" "rl_global l'" "admitted rs1"]
    by (simp add: rs attempt_ok_def)
  ultimately show ?case using ih pol by (auto intro: order.trans)
qed

lemma interval_unat: "ms \<le> MaximumAuthenticationRefillMilliseconds \<Longrightarrow> unat (ms * NanosecondsPerMillisecond) = unat ms * 1000000"
  by (subst unat_times_no_wrap)
    (simp_all add: NanosecondsPerMillisecond_def MaximumAuthenticationRefillMilliseconds_def word_le_nat_alt)

text \<open>The tokens a bucket gave away since it was full, in terms of the time that has passed.\<close>

lemma use_bound:
  assumes "bucket_use c i \<lparr>tokens = c, lastRefill = t0\<rparr> b n" and "lastRefill b \<le> t" and "0 < unat i"
  shows "n \<le> unat c + (unat t - unat t0) div unat i"
proof -
  have "n * unat i + unat t0 \<le> unat c * unat i + unat (lastRefill b)"
    using assms(1) by (auto simp: bucket_use_def add_mult_distrib)
  moreover have "unat (lastRefill b) \<le> unat t" "unat t0 \<le> unat (lastRefill b)"
    using assms by (simp_all add: word_le_nat_alt bucket_use_def)
  ultimately have "n * unat i \<le> unat c * unat i + (unat t - unat t0)" by linarith
  then have "n * unat i div unat i \<le> (unat c * unat i + (unat t - unat t0)) div unat i" by (rule div_le_mono)
  then show ?thesis using assms(3) by simp
qed

section \<open>Properties\<close>

text \<open>
  C39. However many authentication attempts are made, at whatever clock readings and from whatever
  scopes, the server admits at most its burst plus one for every refill interval that has passed,
  and from any one scope at most the scope's burst plus one for every refill interval of scopes;
  none of the 64-bit arithmetic wraps around.
\<close>

theorem authentication_rate_bounded:
  assumes "createRateLimitPolicy sb gb sr gr = Some p" and "attempts (createRateLimiter p t0) as = (l, rs)"
  shows "admitted rs \<le> unat gb + (unat (rl_lastAttempt l) - unat t0) div (unat gr * 1000000)
    \<and> admitted_from s as rs \<le> unat sb + (unat (rl_lastAttempt l) - unat t0) div (unat sr * 1000000)"
proof -
  let ?l0 = "createRateLimiter p t0"
  have pol: "policy_ok p" using assms(1) by (rule created_policy_ok)
  have p: "sourceBurst p = sb" "globalBurst p = gb" "sourceRefillMilliseconds p = sr" "globalRefillMilliseconds p = gr"
    using assms(1) by (auto simp: createRateLimitPolicy_def split: if_splits)
  have l0: "rl_policy ?l0 = p" "rl_global ?l0 = \<lparr>tokens = gb, lastRefill = t0\<rparr>" "rl_lastAttempt ?l0 = t0" "scope_bucket ?l0 s = None"
    by (simp_all add: createRateLimiter_def p scope_bucket_def findScope_def find_index_def)
  have i: "unat (gr * NanosecondsPerMillisecond) = unat gr * 1000000" "unat (sr * NanosecondsPerMillisecond) = unat sr * 1000000"
      "0 < unat gr" "0 < unat sr"
    using pol by (auto simp: policy_ok_def p interval_unat word_less_nat_alt)
  note run = attempts_ok [OF created_limiter_ok [OF pol] assms(2), unfolded l0 p]
  have "admitted rs \<le> unat gb + (unat (rl_lastAttempt l) - unat t0) div (unat gr * 1000000)"
    using use_bound [of gb "gr * NanosecondsPerMillisecond" t0 "rl_global l" "admitted rs" "rl_lastAttempt l"] run i
    by (simp add: limiter_ok_def)
  moreover have "admitted_from s as rs \<le> unat sb + (unat (rl_lastAttempt l) - unat t0) div (unat sr * 1000000)"
  proof (cases "scope_bucket l s")
    case None
    then have "admitted_from s as rs = 0" using run l0(4) by (auto simp: scope_use_def split: option.splits dest: spec [of _ s])
    then show ?thesis by simp
  next
    case (Some b)
    have "scope_use ?l0 l s (admitted_from s as rs)" using run by blast
    then obtain t where t: "t0 \<le> t" "bucket_use sb (sr * NanosecondsPerMillisecond) \<lparr>tokens = sb, lastRefill = t\<rparr> b (admitted_from s as rs)"
      using Some l0 p by (auto simp: scope_use_def)
    have "lastRefill b \<le> rl_lastAttempt l" using run Some by (auto simp: limiter_ok_def)
    from use_bound [OF t(2) this] i have "admitted_from s as rs \<le> unat sb + (unat (rl_lastAttempt l) - unat t) div (unat sr * 1000000)" by simp
    also have "\<dots> \<le> unat sb + (unat (rl_lastAttempt l) - unat t0) div (unat sr * 1000000)"
      using t(1) by (intro add_left_mono div_le_mono diff_le_mono2) (simp add: word_le_nat_alt)
    finally show ?thesis .
  qed
  ultimately show ?thesis ..
qed

theorem authentication_rate_bounded_witness:
  "\<exists>p l rs. createRateLimitPolicy 1 2 1000 1000 = Some p
     \<and> attempts (createRateLimiter p 0) [([1], 5), ([1], 6), ([2], 7), ([3], 8)] = (l, rs) \<and> admitted rs \<le> 2"
proof -
  let ?p = "\<lparr>sourceBurst = 1, globalBurst = 2, sourceRefillMilliseconds = 1000, globalRefillMilliseconds = 1000\<rparr>"
  have p: "createRateLimitPolicy 1 2 1000 1000 = Some ?p" by code_simp
  obtain l rs where run: "attempts (createRateLimiter ?p 0) [([1], 5), ([1], 6), ([2], 7), ([3], 8)] = (l, rs)" by fastforce
  have "rl_lastAttempt (fst (attempts (createRateLimiter ?p 0) [([1], 5), ([1], 6), ([2], 7), ([3], 8)])) = 8" by code_simp
  then have "rl_lastAttempt l = 8" unfolding run fst_conv .
  with authentication_rate_bounded [OF p run] have "admitted rs \<le> 2" by simp
  with p run show ?thesis by blast
qed

end
