(* ===== verification/Resume_Tokens.thy ===== *)
theory Resume_Tokens
  imports Authentication_Limits
begin

text \<open>
  The store of resume tokens (\<^verbatim>\<open>ResumeTokenStore\<close> of \<^verbatim>\<open>server_core/server_authentication.cpp\<close>).
  A token is used in two phases: a preparation reserves its record and makes the replacement
  token; a commit swaps the record, and may still be rolled back until it is finalized. The
  cryptographic primitives belong to a library: digest and comparison are arguments, the random
  bytes of a call are an argument of the call.
\<close>

section \<open>Model\<close>

definition MaximumResumeTokenRecords :: nat where
  "MaximumResumeTokenRecords = 256"

definition ResumeTokenBytes :: nat where
  "ResumeTokenBytes = 32"

definition MinimumResumeTokenLifetimeMilliseconds :: u64 where
  "MinimumResumeTokenLifetimeMilliseconds = 1000"

definition MaximumResumeTokenLifetimeMilliseconds :: u64 where
  "MaximumResumeTokenLifetimeMilliseconds = 120000"

type_synonym CredentialDigest = "u8 list"
type_synonym ResumeToken = "u8 list"

record CredentialCrypto =
  sha256 :: "u8 list \<Rightarrow> CredentialDigest option"
  constantTimeEqual :: "u8 list \<Rightarrow> u8 list \<Rightarrow> bool"

record ResumeTokenContext =
  ctx_protocol :: CredentialDigest
  ctx_content :: CredentialDigest

datatype ResumeTokenStoreError =
  TokenDenied | StoreFull | RandomUnavailable | DigestUnavailable | DigestCollision | DeadlineOverflow
  | GenerationOverflow | PreparationFull | PreparationIdOverflow | StalePreparation

record TokenRecord =
  rec_digest :: CredentialDigest
  rec_principal :: PrincipalId
  rec_session :: SessionId
  rec_generation :: SessionGeneration
  rec_context :: ResumeTokenContext
  rec_expiresAt :: MonotonicInstant

record PendingConsume =
  pend_id :: u64
  pend_slot :: nat
  pend_replacement :: TokenRecord

record CommittedConsume =
  com_id :: u64
  com_slot :: nat
  com_prior :: TokenRecord

record ResumeTokenStore =
  ts_lifetime :: u64
  ts_records :: "TokenRecord option list"
  ts_pending :: "PendingConsume option list"
  ts_committed :: "CommittedConsume option"
  ts_size :: u64
  ts_nextPreparationId :: u64

datatype CharacterLifecycle = NewCharacter | CreatingCharacter | EstablishedCharacter

record AuthenticationAcceptedMessage =
  acc_token :: ResumeToken
  acc_lifetime :: u64
  acc_playerCredential :: "u8 list option"
  acc_characterLifecycle :: CharacterLifecycle
  acc_profileRevision :: u64

record ResumeAdmissionGrant =
  gr_preparation :: u64
  gr_session :: SessionId
  gr_priorGeneration :: SessionGeneration
  gr_nextGeneration :: SessionGeneration
  gr_response :: AuthenticationAcceptedMessage
  gr_principal :: PrincipalId

definition createResumeTokenStore :: "u64 \<Rightarrow> ResumeTokenStore option" where
  "createResumeTokenStore lifetimeMilliseconds =
     (if lifetimeMilliseconds < MinimumResumeTokenLifetimeMilliseconds
         \<or> lifetimeMilliseconds > MaximumResumeTokenLifetimeMilliseconds then None
      else Some \<lparr>ts_lifetime = lifetimeMilliseconds, ts_records = replicate MaximumResumeTokenRecords None,
                 ts_pending = replicate MaximumResumeTokenRecords None, ts_committed = None, ts_size = 0,
                 ts_nextPreparationId = 1\<rparr>)"

text \<open>
  The source also refuses a lifecycle outside its three values, which the datatype does not have.
  The store leaves the last three arguments to their defaults.
\<close>

definition createAccepted ::
  "ResumeToken \<Rightarrow> u64 \<Rightarrow> u8 list option \<Rightarrow> CharacterLifecycle \<Rightarrow> u64 \<Rightarrow> AuthenticationAcceptedMessage option" where
  "createAccepted token lifetimeMilliseconds playerCredential characterLifecycle profileRevision =
     (if lifetimeMilliseconds < MinimumResumeTokenLifetimeMilliseconds
         \<or> lifetimeMilliseconds > MaximumResumeTokenLifetimeMilliseconds then None
      else Some \<lparr>acc_token = token, acc_lifetime = lifetimeMilliseconds, acc_playerCredential = playerCredential,
                 acc_characterLifecycle = characterLifecycle, acc_profileRevision = profileRevision\<rparr>)"

definition expiryFrom :: "ResumeTokenStore \<Rightarrow> MonotonicInstant \<Rightarrow> MonotonicInstant option" where
  "expiryFrom s now =
     (if ts_lifetime s > u64_max div NanosecondsPerMillisecond then None
      else (let lifetime = ts_lifetime s * NanosecondsPerMillisecond
            in if now > u64_max - lifetime then None else Some (now + lifetime)))"

definition findDigest :: "CredentialCrypto \<Rightarrow> ResumeTokenStore \<Rightarrow> CredentialDigest \<Rightarrow> nat option" where
  "findDigest crypto s digest =
     find_index (\<lambda>r. case r of Some t \<Rightarrow> constantTimeEqual crypto (rec_digest t) digest | None \<Rightarrow> False) (ts_records s)"

text \<open>\<open>random\<close> is what the generator delivers: no bytes, or a block of bytes.\<close>

definition makeToken ::
  "CredentialCrypto \<Rightarrow> ResumeTokenStore \<Rightarrow> u8 list option \<Rightarrow> ResumeTokenStoreError + (ResumeToken \<times> CredentialDigest)" where
  "makeToken crypto s random =
     (case random of
        None \<Rightarrow> Inl RandomUnavailable
      | Some bytes \<Rightarrow>
        if length bytes \<noteq> ResumeTokenBytes then Inl DigestUnavailable
        else (case sha256 crypto bytes of
                None \<Rightarrow> Inl DigestUnavailable
              | Some digest \<Rightarrow> if findDigest crypto s digest \<noteq> None then Inl DigestCollision else Inr (bytes, digest)))"

definition emptyRecordSlot :: "ResumeTokenStore \<Rightarrow> nat option" where
  "emptyRecordSlot s = find_index (\<lambda>r. r = None) (ts_records s)"

definition reserved :: "ResumeTokenStore \<Rightarrow> nat \<Rightarrow> bool" where
  "reserved s i \<longleftrightarrow> (\<exists>p \<in> set (ts_pending s). case p of Some c \<Rightarrow> pend_slot c = i | None \<Rightarrow> False)"

definition expiredRecord :: "TokenRecord option \<Rightarrow> MonotonicInstant \<Rightarrow> bool" where
  "expiredRecord r now = (case r of None \<Rightarrow> False | Some t \<Rightarrow> now \<ge> rec_expiresAt t)"

text \<open>The loop over the slots: each expired record that is not reserved is reset.\<close>

fun purgeFrom :: "ResumeTokenStore \<Rightarrow> MonotonicInstant \<Rightarrow> nat list \<Rightarrow> ResumeTokenStore" where
  "purgeFrom s now [] = s"
| "purgeFrom s now (i # is) =
     (if \<not> reserved s i \<and> expiredRecord (ts_records s ! i) now
      then purgeFrom (s\<lparr>ts_records := (ts_records s)[i := None], ts_size := ts_size s - 1\<rparr>) now is
      else purgeFrom s now is)"

definition purgeExpired :: "ResumeTokenStore \<Rightarrow> MonotonicInstant \<Rightarrow> ResumeTokenStore" where
  "purgeExpired s now = purgeFrom s now [0..<length (ts_records s)]"

definition issue ::
  "CredentialCrypto \<Rightarrow> ResumeTokenStore \<Rightarrow> u8 list option \<Rightarrow> PrincipalId \<Rightarrow> SessionId \<Rightarrow> SessionGeneration
     \<Rightarrow> ResumeTokenContext \<Rightarrow> MonotonicInstant
     \<Rightarrow> ResumeTokenStore \<times> (ResumeTokenStoreError + AuthenticationAcceptedMessage option)" where
  "issue crypto s0 random owner session generation context now =
     (let s = purgeExpired s0 now
      in case emptyRecordSlot s of
           None \<Rightarrow> (s, Inl StoreFull)
         | Some slot \<Rightarrow>
           (case expiryFrom s now of
              None \<Rightarrow> (s, Inl DeadlineOverflow)
            | Some expiresAt \<Rightarrow>
              (case makeToken crypto s random of
                 Inl e \<Rightarrow> (s, Inl e)
               | Inr (token, digest) \<Rightarrow>
                 (s\<lparr>ts_records := (ts_records s)[slot := Some \<lparr>rec_digest = digest, rec_principal = owner, rec_session = session,
                        rec_generation = generation, rec_context = context, rec_expiresAt = expiresAt\<rparr>],
                    ts_size := ts_size s + 1\<rparr>,
                  Inr (createAccepted token (ts_lifetime s) None NewCharacter (initial CounterFromOne))))))"

definition prepareConsume ::
  "CredentialCrypto \<Rightarrow> ResumeTokenStore \<Rightarrow> u8 list option \<Rightarrow> ResumeToken \<Rightarrow> ResumeTokenContext \<Rightarrow> MonotonicInstant
     \<Rightarrow> ResumeTokenStore \<times> (ResumeTokenStoreError + ResumeAdmissionGrant)" where
  "prepareConsume crypto s0 random token context now =
     (let s = s0\<lparr>ts_committed := None\<rparr>
      in case sha256 crypto token of
           None \<Rightarrow> (s, Inl DigestUnavailable)
         | Some digest \<Rightarrow>
           (case findDigest crypto s digest of
              None \<Rightarrow> (s, Inl TokenDenied)
            | Some slot \<Rightarrow>
              (let current = the (ts_records s ! slot)
               in if now \<ge> rec_expiresAt current
                  then (s\<lparr>ts_records := (ts_records s)[slot := None], ts_size := ts_size s - 1\<rparr>, Inl TokenDenied)
                  else if rec_context current \<noteq> context then (s, Inl TokenDenied)
                  else if reserved s slot then (s, Inl TokenDenied)
                  else
                    (case next_value (rec_generation current) of
                       None \<Rightarrow> (s, Inl GenerationOverflow)
                     | Some nextGeneration \<Rightarrow>
                       (case expiryFrom s now of
                          None \<Rightarrow> (s, Inl DeadlineOverflow)
                        | Some expiresAt \<Rightarrow>
                          (case makeToken crypto s random of
                             Inl e \<Rightarrow> (s, Inl e)
                           | Inr (replacement, replacementDigest) \<Rightarrow>
                             (case createAccepted replacement (ts_lifetime s) None NewCharacter (initial CounterFromOne) of
                                None \<Rightarrow> (s, Inl DeadlineOverflow)
                              | Some response \<Rightarrow>
                                (case find_index (\<lambda>p. p = None) (ts_pending s) of
                                   None \<Rightarrow> (s, Inl PreparationFull)
                                 | Some pendingSlot \<Rightarrow>
                                   if ts_nextPreparationId s = 0 then (s, Inl PreparationIdOverflow)
                                   else
                                     (s\<lparr>ts_nextPreparationId := ts_nextPreparationId s + 1,
                                        ts_pending := (ts_pending s)[pendingSlot :=
                                          Some \<lparr>pend_id = ts_nextPreparationId s, pend_slot = slot,
                                                pend_replacement = \<lparr>rec_digest = replacementDigest,
                                                  rec_principal = rec_principal current, rec_session = rec_session current,
                                                  rec_generation = nextGeneration, rec_context = context,
                                                  rec_expiresAt = expiresAt\<rparr>\<rparr>]\<rparr>,
                                      Inr \<lparr>gr_preparation = ts_nextPreparationId s, gr_session = rec_session current,
                                           gr_priorGeneration = rec_generation current, gr_nextGeneration = nextGeneration,
                                           gr_response = response, gr_principal = rec_principal current\<rparr>)))))))))"

definition findPending :: "ResumeTokenStore \<Rightarrow> u64 \<Rightarrow> nat option" where
  "findPending s preparationId =
     find_index (\<lambda>p. case p of Some c \<Rightarrow> pend_id c = preparationId | None \<Rightarrow> False) (ts_pending s)"

text \<open>
  Committing reads the record the preparation refers to through an optional; when that record is
  gone the read is undefined, which is \<open>None\<close> here.
\<close>

definition commitConsume :: "ResumeTokenStore \<Rightarrow> u64 \<Rightarrow> (ResumeTokenStore \<times> bool) option" where
  "commitConsume s preparationId =
     (case findPending s preparationId of
        None \<Rightarrow> Some (s, False)
      | Some i \<Rightarrow>
        (let pending = the (ts_pending s ! i)
         in case ts_records s ! pend_slot pending of
              None \<Rightarrow> None
            | Some prior \<Rightarrow>
              Some (s\<lparr>ts_committed := Some \<lparr>com_id = preparationId, com_slot = pend_slot pending, com_prior = prior\<rparr>,
                      ts_records := (ts_records s)[pend_slot pending := Some (pend_replacement pending)],
                      ts_pending := (ts_pending s)[i := None]\<rparr>, True)))"

definition finalizeConsume :: "ResumeTokenStore \<Rightarrow> u64 \<Rightarrow> ResumeTokenStore \<times> bool" where
  "finalizeConsume s preparationId =
     (case ts_committed s of
        None \<Rightarrow> (s, False)
      | Some c \<Rightarrow> if com_id c \<noteq> preparationId then (s, False) else (s\<lparr>ts_committed := None\<rparr>, True))"

definition rollbackConsume :: "ResumeTokenStore \<Rightarrow> u64 \<Rightarrow> ResumeTokenStore \<times> bool" where
  "rollbackConsume s preparationId =
     (case ts_committed s of
        None \<Rightarrow> (s, False)
      | Some c \<Rightarrow>
        if com_id c \<noteq> preparationId then (s, False)
        else (s\<lparr>ts_records := (ts_records s)[com_slot c := Some (com_prior c)], ts_committed := None\<rparr>, True))"

definition cancelConsume :: "ResumeTokenStore \<Rightarrow> u64 \<Rightarrow> ResumeTokenStore \<times> bool" where
  "cancelConsume s preparationId =
     (case findPending s preparationId of
        None \<Rightarrow> (s, False)
      | Some i \<Rightarrow> (s\<lparr>ts_pending := (ts_pending s)[i := None]\<rparr>, True))"

definition keepAlive ::
  "ResumeTokenStore \<Rightarrow> SessionId \<Rightarrow> SessionGeneration \<Rightarrow> MonotonicInstant \<Rightarrow> ResumeTokenStore \<times> bool" where
  "keepAlive s session generation now =
     (case expiryFrom s now of
        None \<Rightarrow> (s, False)
      | Some deadline \<Rightarrow>
        (case find_index (\<lambda>r. case r of Some t \<Rightarrow> rec_session t = session \<and> rec_generation t = generation | None \<Rightarrow> False) (ts_records s) of
           None \<Rightarrow> (s, False)
         | Some i \<Rightarrow>
           (let record = the (ts_records s ! i)
            in if now \<ge> rec_expiresAt record \<or> deadline < rec_expiresAt record
                  \<or> (case ts_committed s of Some c \<Rightarrow> com_slot c = i | None \<Rightarrow> False) \<or> reserved s i
               then (s, False)
               else (s\<lparr>ts_records := (ts_records s)[i := Some (record\<lparr>rec_expiresAt := deadline\<rparr>)]\<rparr>, True))))"

definition consume ::
  "CredentialCrypto \<Rightarrow> ResumeTokenStore \<Rightarrow> u8 list option \<Rightarrow> ResumeToken \<Rightarrow> ResumeTokenContext \<Rightarrow> MonotonicInstant
     \<Rightarrow> (ResumeTokenStore \<times> (ResumeTokenStoreError + ResumeAdmissionGrant)) option" where
  "consume crypto s random token context now =
     (case prepareConsume crypto s random token context now of
        (s1, Inl e) \<Rightarrow> Some (s1, Inl e)
      | (s1, Inr grant) \<Rightarrow>
        (case commitConsume s1 (gr_preparation grant) of
           None \<Rightarrow> None
         | Some (s2, ok) \<Rightarrow> if ok then Some (s2, Inr grant) else Some (s2, Inl StalePreparation)))"

section \<open>The invariant\<close>

definition held_records :: "TokenRecord option list \<Rightarrow> nat" where
  "held_records rs = (\<Sum>r\<leftarrow>rs. of_bool (r \<noteq> None))"

definition record_at :: "ResumeTokenStore \<Rightarrow> nat \<Rightarrow> TokenRecord option" where
  "record_at s i = (if i < length (ts_records s) then ts_records s ! i else None)"

definition pending_at :: "ResumeTokenStore \<Rightarrow> nat \<Rightarrow> PendingConsume option" where
  "pending_at s j = (if j < length (ts_pending s) then ts_pending s ! j else None)"

text \<open>The second record carries on the session of the first one at its following generation.\<close>

definition continues :: "TokenRecord \<Rightarrow> TokenRecord \<Rightarrow> bool" where
  "continues r r' \<longleftrightarrow> rec_principal r' = rec_principal r \<and> rec_session r' = rec_session r \<and> rec_context r' = rec_context r
     \<and> next_value (rec_generation r) = Some (rec_generation r')"

text \<open>
  Every preparation refers to a record that is there and that its replacement carries on, no two
  preparations share a record or an identifier, and identifiers are below the next one (zero once
  they are exhausted). A commit that may be rolled back refers to its replacement, which no
  preparation has reserved. The store counts its records.
\<close>

definition pending_ok :: "ResumeTokenStore \<Rightarrow> bool" where
  "pending_ok s \<longleftrightarrow>
     (\<forall>j c. pending_at s j = Some c \<longrightarrow>
        (\<exists>r. record_at s (pend_slot c) = Some r \<and> continues r (pend_replacement c))
        \<and> (ts_nextPreparationId s = 0 \<or> pend_id c < ts_nextPreparationId s))
     \<and> (\<forall>j k c d. pending_at s j = Some c \<longrightarrow> pending_at s k = Some d \<longrightarrow> pend_slot c = pend_slot d \<or> pend_id c = pend_id d \<longrightarrow> j = k)"

definition committed_ok :: "ResumeTokenStore \<Rightarrow> bool" where
  "committed_ok s \<longleftrightarrow>
     (\<forall>c. ts_committed s = Some c \<longrightarrow>
        (\<exists>r. record_at s (com_slot c) = Some r \<and> continues (com_prior c) r) \<and> \<not> reserved s (com_slot c))"

definition size_ok :: "ResumeTokenStore \<Rightarrow> bool" where
  "size_ok s \<longleftrightarrow> length (ts_records s) = MaximumResumeTokenRecords \<and> unat (ts_size s) = held_records (ts_records s)"

definition store_ok :: "ResumeTokenStore \<Rightarrow> bool" where
  "store_ok s \<longleftrightarrow> size_ok s \<and> pending_ok s \<and> committed_ok s"

lemma held_records_update:
  "i < length rs \<Longrightarrow> held_records (rs[i := r]) + of_bool (rs ! i \<noteq> None) = held_records rs + of_bool (r \<noteq> None)"
  unfolding held_records_def using sum_list_update_nat [of i rs "\<lambda>r. of_bool (r \<noteq> None)" r] by simp

lemma held_records_le: "held_records rs \<le> length rs"
  by (induction rs) (auto simp: held_records_def)

lemma held_records_pos: "i < length rs \<Longrightarrow> rs ! i \<noteq> None \<Longrightarrow> 0 < held_records rs"
  using held_records_update [of i rs None] by simp

lemma record_at_SomeD: "record_at s i = Some r \<Longrightarrow> i < length (ts_records s) \<and> ts_records s ! i = Some r"
  by (simp add: record_at_def split: if_splits)

lemma record_at_update [simp]:
  "record_at (s\<lparr>ts_records := (ts_records s)[i := r]\<rparr>) k = (if k = i \<and> i < length (ts_records s) then r else record_at s k)"
  by (auto simp: record_at_def)

lemma record_at_frame [simp]:
  "record_at (s\<lparr>ts_size := n\<rparr>) = record_at s" "record_at (s\<lparr>ts_committed := c\<rparr>) = record_at s"
  "record_at (s\<lparr>ts_pending := p\<rparr>) = record_at s" "record_at (s\<lparr>ts_nextPreparationId := n\<rparr>) = record_at s"
  by (simp_all add: record_at_def fun_eq_iff)

lemma pending_at_update [simp]:
  "pending_at (s\<lparr>ts_pending := (ts_pending s)[i := p]\<rparr>) k = (if k = i \<and> i < length (ts_pending s) then p else pending_at s k)"
  by (auto simp: pending_at_def)

lemma pending_at_frame [simp]:
  "pending_at (s\<lparr>ts_size := n\<rparr>) = pending_at s" "pending_at (s\<lparr>ts_committed := c\<rparr>) = pending_at s"
  "pending_at (s\<lparr>ts_records := r\<rparr>) = pending_at s" "pending_at (s\<lparr>ts_nextPreparationId := n\<rparr>) = pending_at s"
  by (simp_all add: pending_at_def fun_eq_iff)

lemma reserved_iff: "reserved s i \<longleftrightarrow> (\<exists>j c. pending_at s j = Some c \<and> pend_slot c = i)"
proof -
  have "reserved s i \<longleftrightarrow> (\<exists>c. Some c \<in> set (ts_pending s) \<and> pend_slot c = i)"
    by (force simp: reserved_def split: option.splits)
  then show ?thesis by (auto simp: in_set_conv_nth pending_at_def split: if_splits)
qed

lemma reserved_present: "pending_ok s \<Longrightarrow> reserved s i \<Longrightarrow> record_at s i \<noteq> None"
  unfolding pending_ok_def reserved_iff by (metis option.distinct(1))

lemma reserved_frame: "ts_pending s' = ts_pending s \<Longrightarrow> reserved s' = reserved s"
  by (simp add: reserved_def fun_eq_iff)

text \<open>A step that leaves the reserved records alone keeps the preparations, and so for the commit.\<close>

lemma pending_ok_frame:
  assumes ok: "pending_ok s" and same: "ts_pending s' = ts_pending s" "ts_nextPreparationId s' = ts_nextPreparationId s"
    and records: "\<And>i. reserved s i \<Longrightarrow> record_at s' i = record_at s i"
  shows "pending_ok s'"
proof -
  have "pending_at s' = pending_at s" by (simp add: pending_at_def same fun_eq_iff)
  moreover have "record_at s' (pend_slot c) = record_at s (pend_slot c)" if "pending_at s j = Some c" for j c
    using records that by (auto simp: reserved_iff)
  ultimately show ?thesis using ok unfolding pending_ok_def by (metis same(2))
qed

lemma pending_ok_write:
  assumes "pending_ok s" and "ts_pending s' = ts_pending s" and "ts_nextPreparationId s' = ts_nextPreparationId s"
    and records: "ts_records s' = (ts_records s)[i := r]" and free: "\<not> reserved s i"
  shows "pending_ok s'"
proof (rule pending_ok_frame [OF assms(1-3)])
  fix k assume "reserved s k"
  with free have "k \<noteq> i" by auto
  then show "record_at s' k = record_at s k" by (simp add: record_at_def records)
qed

lemma committed_ok_frame:
  assumes ok: "committed_ok s" and same: "ts_pending s' = ts_pending s" "ts_committed s' = ts_committed s"
    and records: "\<And>c. ts_committed s = Some c \<Longrightarrow> record_at s' (com_slot c) = record_at s (com_slot c)"
  shows "committed_ok s'"
  using ok records reserved_frame [OF same(1)] by (auto simp: committed_ok_def same)

lemma committed_ok_None: "ts_committed s = None \<Longrightarrow> committed_ok s"
  by (simp add: committed_ok_def)

lemma size_ok_replace:
  assumes "size_ok s" and "record_at s i \<noteq> None" and "ts_records s' = (ts_records s)[i := Some r]" and "ts_size s' = ts_size s"
  shows "size_ok s'"
  using assms held_records_update [of i "ts_records s" "Some r"] by (auto simp: size_ok_def record_at_def split: if_splits)

lemma size_ok_remove:
  assumes "size_ok s" and "record_at s i \<noteq> None" and "ts_records s' = (ts_records s)[i := None]" and "ts_size s' = ts_size s - 1"
  shows "size_ok s'"
proof -
  have i: "i < length (ts_records s)" "ts_records s ! i \<noteq> None" using assms(2) by (auto simp: record_at_def split: if_splits)
  then have "unat (ts_size s) \<noteq> 0" using assms(1) held_records_pos by (fastforce simp: size_ok_def)
  then have "unat (ts_size s - 1) = unat (ts_size s) - 1" by (simp add: unat_minus_one unat_eq_0)
  then show ?thesis using assms i held_records_update [of i "ts_records s" None] by (simp add: size_ok_def)
qed

lemma size_ok_add:
  assumes "size_ok s" and i: "i < length (ts_records s)" "ts_records s ! i = None"
    and s': "ts_records s' = (ts_records s)[i := Some r]" "ts_size s' = ts_size s + 1"
  shows "size_ok s'"
proof -
  have "held_records ((ts_records s)[i := Some r]) \<le> MaximumResumeTokenRecords"
    using held_records_le [of "(ts_records s)[i := Some r]"] assms(1) by (simp add: size_ok_def)
  then have "unat (ts_size s) + unat (1 :: u64) < 2 ^ LENGTH(64)"
    using assms held_records_update [of i "ts_records s" "Some r"] by (simp add: size_ok_def MaximumResumeTokenRecords_def)
  then show ?thesis
    using assms held_records_update [of i "ts_records s" "Some r"] by (simp add: size_ok_def unat_plus_no_wrap)
qed

section \<open>Operations\<close>

lemma purgeFrom_frame:
  "ts_pending (purgeFrom s now is) = ts_pending s \<and> ts_committed (purgeFrom s now is) = ts_committed s
     \<and> ts_lifetime (purgeFrom s now is) = ts_lifetime s \<and> ts_nextPreparationId (purgeFrom s now is) = ts_nextPreparationId s"
  by (induction s now "is" rule: purgeFrom.induct) auto

lemma purgeFrom_keeps:
  "reserved s j \<or> \<not> expiredRecord (ts_records s ! j) now \<Longrightarrow> record_at (purgeFrom s now is) j = record_at s j"
proof (induction s now "is" rule: purgeFrom.induct)
  case (2 s now i "is")
  have "reserved (s\<lparr>ts_records := r, ts_size := n\<rparr>) = reserved s" for r n by (rule reserved_frame) simp
  with 2 show ?case by (cases "i = j") (auto simp: record_at_def)
qed simp

lemma purgeFrom_size: "size_ok s \<Longrightarrow> \<forall>i \<in> set is. i < length (ts_records s) \<Longrightarrow> size_ok (purgeFrom s now is)"
proof (induction s now "is" rule: purgeFrom.induct)
  case (2 s now i "is")
  show ?case
  proof (cases "\<not> reserved s i \<and> expiredRecord (ts_records s ! i) now")
    case True
    then have "record_at s i \<noteq> None" using 2 by (auto simp: expiredRecord_def record_at_def split: option.splits)
    then have "size_ok (s\<lparr>ts_records := (ts_records s)[i := None], ts_size := ts_size s - 1\<rparr>)"
      using 2(3) by (rule_tac size_ok_remove [of s i]) simp_all
    with True 2 show ?thesis by simp
  qed (use 2 in auto)
qed simp

text \<open>A commit that may still be rolled back is not purged while it lasts.\<close>

definition commit_live :: "ResumeTokenStore \<Rightarrow> MonotonicInstant \<Rightarrow> bool" where
  "commit_live s now \<longleftrightarrow> (case ts_committed s of Some c \<Rightarrow> \<not> expiredRecord (record_at s (com_slot c)) now | None \<Rightarrow> True)"

lemma purgeExpired_ok:
  assumes ok: "store_ok s" and live: "commit_live s now"
  shows "store_ok (purgeExpired s now)"
proof -
  note frame = purgeFrom_frame [of s now "[0..<length (ts_records s)]"]
  have "size_ok (purgeExpired s now)"
    unfolding purgeExpired_def using ok by (intro purgeFrom_size) (auto simp: store_ok_def)
  moreover have "pending_ok (purgeExpired s now)"
    unfolding purgeExpired_def by (rule pending_ok_frame [of s]) (use ok frame purgeFrom_keeps [of s _ now] in \<open>auto simp: store_ok_def\<close>)
  moreover have "record_at (purgeExpired s now) (com_slot c) = record_at s (com_slot c)" if com: "ts_committed s = Some c" for c
  proof -
    obtain r where "record_at s (com_slot c) = Some r" using ok com by (auto simp: store_ok_def committed_ok_def)
    then have "\<not> expiredRecord (ts_records s ! com_slot c) now"
      using live com by (auto simp: commit_live_def dest: record_at_SomeD)
    then show ?thesis unfolding purgeExpired_def by (simp add: purgeFrom_keeps)
  qed
  then have "committed_ok (purgeExpired s now)"
    unfolding purgeExpired_def by (rule_tac committed_ok_frame [of s]) (use ok frame in \<open>auto simp: store_ok_def\<close>)
  ultimately show ?thesis by (simp add: store_ok_def)
qed

lemma add_record_ok:
  assumes ok: "store_ok s" and slot: "emptyRecordSlot s = Some i"
  shows "store_ok (s\<lparr>ts_records := (ts_records s)[i := Some r], ts_size := ts_size s + 1\<rparr>)" (is "store_ok ?s")
proof -
  have i: "i < length (ts_records s)" "ts_records s ! i = None"
    using slot by (auto simp: emptyRecordSlot_def dest: find_index_iff)
  then have free: "record_at s i = None" by (simp add: record_at_def)
  have "size_ok ?s" using ok i by (intro size_ok_add [of s i ?s r]) (auto simp: store_ok_def)
  moreover have "pending_ok ?s"
    by (rule pending_ok_write [of s _ i]) (use ok free reserved_present [of s i] in \<open>auto simp: store_ok_def\<close>)
  moreover have "committed_ok ?s"
    by (rule committed_ok_frame [of s]) (use ok free in \<open>auto simp: store_ok_def committed_ok_def\<close>)
  ultimately show ?thesis by (simp add: store_ok_def)
qed

lemma issue_ok:
  assumes ok: "store_ok s" and live: "commit_live s now"
  shows "store_ok (fst (issue crypto s random owner session generation context now))"
proof -
  define s1 where "s1 = purgeExpired s now"
  have ok1: "store_ok s1" unfolding s1_def using ok live by (rule purgeExpired_ok)
  show ?thesis
  proof (cases "emptyRecordSlot s1")
    case (Some i)
    show ?thesis
    proof (cases "expiryFrom s1 now")
      case expires: (Some e)
      then show ?thesis using ok1 Some add_record_ok [OF ok1 Some]
        by (cases "makeToken crypto s1 random") (simp_all add: issue_def Let_def s1_def [symmetric] case_prod_beta)
    qed (use ok1 Some in \<open>simp add: issue_def Let_def s1_def [symmetric]\<close>)
  qed (use ok1 in \<open>simp add: issue_def Let_def s1_def [symmetric]\<close>)
qed

lemma findDigest_SomeD: "findDigest crypto s d = Some i \<Longrightarrow> \<exists>r. record_at s i = Some r \<and> ts_records s ! i = Some r \<and> constantTimeEqual crypto (rec_digest r) d"
  unfolding findDigest_def record_at_def by (drule find_index_iff) (auto split: option.splits)

lemma findPending_SomeD: "findPending s k = Some i \<Longrightarrow> \<exists>c. pending_at s i = Some c \<and> ts_pending s ! i = Some c \<and> pend_id c = k"
  unfolding findPending_def pending_at_def by (drule find_index_iff) (auto split: option.splits)

text \<open>The token a call presents does not belong to a record that is both reserved and expired.\<close>

definition prepare_safe :: "CredentialCrypto \<Rightarrow> ResumeTokenStore \<Rightarrow> ResumeToken \<Rightarrow> MonotonicInstant \<Rightarrow> bool" where
  "prepare_safe crypto s token now \<longleftrightarrow> (\<forall>d i. sha256 crypto token = Some d \<longrightarrow> findDigest crypto s d = Some i \<longrightarrow> reserved s i
     \<longrightarrow> \<not> expiredRecord (record_at s i) now)"

lemma findDigest_committed [simp]: "findDigest crypto (s\<lparr>ts_committed := c\<rparr>) = findDigest crypto s"
  by (simp add: findDigest_def fun_eq_iff)

lemma reserved_committed [simp]: "reserved (s\<lparr>ts_committed := c\<rparr>) = reserved s"
  by (simp add: reserved_def fun_eq_iff)

lemma expiryFrom_committed [simp]: "expiryFrom (s\<lparr>ts_committed := c\<rparr>) = expiryFrom s"
  by (simp add: expiryFrom_def fun_eq_iff)

lemma makeToken_committed [simp]: "makeToken crypto (s\<lparr>ts_committed := c\<rparr>) = makeToken crypto s"
  unfolding makeToken_def findDigest_committed ..

text \<open>A preparation whose token is found, alive, in its context and free either fails or reserves the record.\<close>

lemma prepareConsume_live:
  assumes prep: "prepareConsume crypto s random token context now = (s', result)"
    and d: "sha256 crypto token = Some d" and i: "findDigest crypto s d = Some i"
    and current: "current = the (ts_records s ! i)"
    and live: "\<not> rec_expiresAt current \<le> now" "rec_context current = context" "\<not> reserved s i"
  obtains (same) e where "s' = s\<lparr>ts_committed := None\<rparr>" "result = Inl e"
    | (prepared) j n e t h r where "next_value (rec_generation current) = Some n" "expiryFrom s now = Some e"
        "makeToken crypto s random = Inr (t, h)" "find_index (\<lambda>p. p = None) (ts_pending s) = Some j" "ts_nextPreparationId s \<noteq> 0"
        "createAccepted t (ts_lifetime s) None NewCharacter (initial CounterFromOne) = Some r"
        "s' = s\<lparr>ts_committed := None, ts_nextPreparationId := ts_nextPreparationId s + 1,
            ts_pending := (ts_pending s)[j := Some \<lparr>pend_id = ts_nextPreparationId s, pend_slot = i,
              pend_replacement = \<lparr>rec_digest = h, rec_principal = rec_principal current, rec_session = rec_session current,
                rec_generation = n, rec_context = context, rec_expiresAt = e\<rparr>\<rparr>]\<rparr>"
        "result = Inr \<lparr>gr_preparation = ts_nextPreparationId s, gr_session = rec_session current,
            gr_priorGeneration = rec_generation current, gr_nextGeneration = n, gr_response = r,
            gr_principal = rec_principal current\<rparr>"
proof (cases "next_value (rec_generation current)")
  case None
  with prep d i current live show thesis by (auto simp: prepareConsume_def intro: same)
next
  case n: (Some n)
  note facts = prep d i current [symmetric] live n
  show thesis
  proof (cases "expiryFrom s now")
    case None
    with facts show thesis by (auto simp: prepareConsume_def intro: same)
  next
    case e: (Some e)
    show thesis
    proof (cases "makeToken crypto s random")
      case (Inl x)
      with facts e show thesis by (auto simp: prepareConsume_def intro: same)
    next
      case (Inr th)
      obtain t h where th: "th = (t, h)" by (cases th)
      note facts = facts e Inr [unfolded th]
      show thesis
        using facts
        by (cases "createAccepted t (ts_lifetime s) None NewCharacter (initial CounterFromOne)"; cases "find_index (\<lambda>p. p = None) (ts_pending s)"; cases "ts_nextPreparationId s = 0")
          (auto simp: prepareConsume_def intro: same prepared)
    qed
  qed
qed

lemma prepareConsume_dead:
  assumes d: "sha256 crypto token = Some d" and i: "findDigest crypto s d = Some i" and current: "current = the (ts_records s ! i)"
    and dead: "rec_expiresAt current \<le> now \<or> rec_context current \<noteq> context \<or> reserved s i"
  shows "prepareConsume crypto s random token context now =
    (if rec_expiresAt current \<le> now
     then s\<lparr>ts_committed := None, ts_records := (ts_records s)[i := None], ts_size := ts_size s - 1\<rparr>
     else s\<lparr>ts_committed := None\<rparr>, Inl TokenDenied)"
proof -
  define s1 where "s1 = s\<lparr>ts_committed := None\<rparr>"
  have "findDigest crypto s1 d = Some i" "current = the (ts_records s1 ! i)" "reserved s1 = reserved s"
    using i current by (simp_all add: s1_def)
  with d dead show ?thesis unfolding prepareConsume_def Let_def s1_def [symmetric]
    by (cases "rec_expiresAt current \<le> now"; cases "rec_context current = context") (simp_all add: s1_def)
qed

text \<open>How a preparation changes the store: not at all, by dropping an expired record, or by reserving a live one.\<close>

lemma prepareConsume_cases:
  assumes prep: "prepareConsume crypto s random token context now = (s', result)"
  obtains (same) e where "s' = s\<lparr>ts_committed := None\<rparr>" "result = Inl e"
    | (expired) d i where "sha256 crypto token = Some d" "findDigest crypto s d = Some i" "expiredRecord (record_at s i) now"
        "s' = s\<lparr>ts_committed := None, ts_records := (ts_records s)[i := None], ts_size := ts_size s - 1\<rparr>" "result = Inl TokenDenied"
    | (prepared) d i r c j g where "sha256 crypto token = Some d" "findDigest crypto s d = Some i" "record_at s i = Some r"
        "\<not> reserved s i" "continues r (pend_replacement c)" "pend_slot c = i" "pend_id c = ts_nextPreparationId s"
        "findDigest crypto s (rec_digest (pend_replacement c)) = None" "ts_nextPreparationId s \<noteq> 0" "pending_at s j = None" "j < length (ts_pending s)"
        "s' = s\<lparr>ts_committed := None, ts_nextPreparationId := ts_nextPreparationId s + 1, ts_pending := (ts_pending s)[j := Some c]\<rparr>"
        "result = Inr g" "gr_preparation g = ts_nextPreparationId s" "gr_session g = rec_session r" "gr_principal g = rec_principal r"
        "gr_priorGeneration g = rec_generation r" "gr_nextGeneration g = rec_generation (pend_replacement c)"
        "now < rec_expiresAt r" "\<exists>bytes. random = Some bytes \<and> sha256 crypto bytes = Some (rec_digest (pend_replacement c))"
proof (cases "sha256 crypto token = None \<or> findDigest crypto s (the (sha256 crypto token)) = None")
  case True
  with prep show thesis by (cases "sha256 crypto token") (auto simp: prepareConsume_def intro: same)
next
  case False
  then obtain d i where d: "sha256 crypto token = Some d" and i: "findDigest crypto s d = Some i" by auto
  obtain r where r: "record_at s i = Some r" "ts_records s ! i = Some r" using findDigest_SomeD [OF i] by auto
  show thesis
  proof (cases "rec_expiresAt r \<le> now \<or> rec_context r \<noteq> context \<or> reserved s i")
    case True
    with prep prepareConsume_dead [OF d i refl, of now "context" random] r d i show thesis
      by (auto simp: expiredRecord_def split: if_splits intro: same expired)
  next
    case False
    with r have live: "\<not> rec_expiresAt (the (ts_records s ! i)) \<le> now" "rec_context (the (ts_records s ! i)) = context" "\<not> reserved s i"
      by simp_all
    from prep d i refl live show thesis
    proof (cases rule: prepareConsume_live)
      case (prepared j n e t h a)
      have "j < length (ts_pending s)" "ts_pending s ! j = None" using find_index_iff [OF prepared(4)] by auto
      then show thesis using prepared r live
        by (intro that(3) [OF d i r(1) live(3)]) (auto simp: continues_def pending_at_def makeToken_def not_le split: option.splits if_splits)
    qed (rule same)
  qed
qed

lemma prepared_ok:
  assumes ok: "store_ok s" and r: "record_at s (pend_slot c) = Some r" "continues r (pend_replacement c)" "\<not> reserved s (pend_slot c)"
    and c: "pend_id c = ts_nextPreparationId s" "ts_nextPreparationId s \<noteq> 0" and j: "j < length (ts_pending s)"
  shows "store_ok (s\<lparr>ts_committed := None, ts_nextPreparationId := ts_nextPreparationId s + 1, ts_pending := (ts_pending s)[j := Some c]\<rparr>)"
    (is "store_ok ?s")
proof -
  have at: "pending_at ?s k = (if k = j then Some c else pending_at s k)" for k using j by (simp add: pending_at_def)
  have rec: "record_at ?s = record_at s" by simp
  have above: "ts_nextPreparationId s + 1 = 0 \<or> x < ts_nextPreparationId s + 1" if "x \<le> ts_nextPreparationId s" for x
    using that word_Suc_neq_max [of "ts_nextPreparationId s"]
    by (cases "ts_nextPreparationId s = u64_max") (auto simp: u64_max_minus_1 word_less_nat_alt word_le_nat_alt)
  have old: "pend_id e \<noteq> pend_id c \<and> pend_slot e \<noteq> pend_slot c
      \<and> (ts_nextPreparationId s + 1 = 0 \<or> pend_id e < ts_nextPreparationId s + 1)" if "pending_at s k = Some e" for k e
  proof -
    have "pend_id e < ts_nextPreparationId s" using ok that c(2) by (auto simp: store_ok_def pending_ok_def)
    moreover have "pend_slot e \<noteq> pend_slot c" using r(3) that by (auto simp: reserved_iff)
    ultimately show ?thesis using c(1) above [of "pend_id e"] by auto
  qed
  have "pending_ok ?s"
    unfolding pending_ok_def at rec
    using ok r c above [of "pend_id c"] by (auto simp: store_ok_def pending_ok_def split: if_splits dest: old)
  then show ?thesis using ok by (simp add: store_ok_def size_ok_def committed_ok_def)
qed

lemma remove_unreserved_ok:
  assumes ok: "store_ok s" and i: "record_at s i \<noteq> None" "\<not> reserved s i"
  shows "store_ok (s\<lparr>ts_committed := None, ts_records := (ts_records s)[i := None], ts_size := ts_size s - 1\<rparr>)" (is "store_ok ?s")
proof -
  have "size_ok ?s" by (rule size_ok_remove [of s i]) (use ok i in \<open>auto simp: store_ok_def\<close>)
  moreover have "pending_ok ?s"
    by (rule pending_ok_write [of s _ i]) (use ok i in \<open>auto simp: store_ok_def\<close>)
  ultimately show ?thesis by (simp add: store_ok_def committed_ok_None)
qed

lemma forget_commit_ok: "store_ok s \<Longrightarrow> store_ok (s\<lparr>ts_committed := None\<rparr>)"
  using pending_ok_frame [of s "s\<lparr>ts_committed := None\<rparr>"] by (simp add: store_ok_def size_ok_def committed_ok_None)

lemma prepareConsume_ok:
  assumes ok: "store_ok s" and safe: "prepare_safe crypto s token now"
  shows "store_ok (fst (prepareConsume crypto s random token context now))"
proof -
  obtain s' result where prep: "prepareConsume crypto s random token context now = (s', result)" by fastforce
  then show ?thesis
  proof (cases rule: prepareConsume_cases)
    case (same e)
    with ok prep show ?thesis by (simp add: forget_commit_ok)
  next
    case (expired d i)
    then have "record_at s i \<noteq> None" "\<not> reserved s i"
      using safe by (auto simp: expiredRecord_def prepare_safe_def split: option.splits)
    with ok prep expired show ?thesis by (simp add: remove_unreserved_ok)
  next
    case (prepared d i r c j g)
    with ok prep prepared_ok [of s c r j] show ?thesis by simp
  qed
qed

lemma release_ok: "store_ok s \<Longrightarrow> store_ok (s\<lparr>ts_pending := (ts_pending s)[i := None]\<rparr>)"
  unfolding store_ok_def size_ok_def pending_ok_def committed_ok_def reserved_iff by (auto split: if_splits)

lemma commitConsume_found:
  assumes ok: "store_ok s" and i: "findPending s k = Some i"
  obtains c r where "pending_at s i = Some c" "pend_id c = k" "record_at s (pend_slot c) = Some r" "continues r (pend_replacement c)"
    "commitConsume s k = Some (s\<lparr>ts_committed := Some \<lparr>com_id = k, com_slot = pend_slot c, com_prior = r\<rparr>,
       ts_records := (ts_records s)[pend_slot c := Some (pend_replacement c)], ts_pending := (ts_pending s)[i := None]\<rparr>, True)"
proof -
  obtain c where c: "pending_at s i = Some c" "ts_pending s ! i = Some c" "pend_id c = k" using findPending_SomeD [OF i] by auto
  obtain r where r: "record_at s (pend_slot c) = Some r" "continues r (pend_replacement c)"
    using ok c(1) unfolding store_ok_def pending_ok_def by metis
  show thesis using that [OF c(1,3) r] i c record_at_SomeD [OF r(1)] by (simp add: commitConsume_def)
qed

lemma commitConsume_ok:
  assumes ok: "store_ok s"
  shows "\<exists>s' b. commitConsume s k = Some (s', b) \<and> store_ok s'"
proof (cases "findPending s k")
  case None
  with ok have "commitConsume s k = Some (s, False) \<and> store_ok s" by (simp add: commitConsume_def)
  then show ?thesis by blast
next
  case i: (Some i)
  obtain c r where c: "pending_at s i = Some c" "record_at s (pend_slot c) = Some r" "continues r (pend_replacement c)"
    and commit: "commitConsume s k = Some (s\<lparr>ts_committed := Some \<lparr>com_id = k, com_slot = pend_slot c, com_prior = r\<rparr>,
       ts_records := (ts_records s)[pend_slot c := Some (pend_replacement c)], ts_pending := (ts_pending s)[i := None]\<rparr>, True)"
      (is "_ = Some (?s, True)")
    using commitConsume_found [OF ok i] by metis
  define s1 where "s1 = s\<lparr>ts_pending := (ts_pending s)[i := None]\<rparr>"
  have ok1: "store_ok s1" unfolding s1_def using ok by (rule release_ok)
  have "i < length (ts_pending s)" using c(1) by (simp add: pending_at_def split: if_splits)
  then have free: "\<not> reserved s1 (pend_slot c)"
    using ok c(1) by (auto simp: reserved_iff s1_def store_ok_def pending_ok_def split: if_splits)
  have "size_ok ?s" by (rule size_ok_replace [of s1 "pend_slot c"]) (use ok1 c in \<open>auto simp: store_ok_def s1_def\<close>)
  moreover have "pending_ok ?s"
    by (rule pending_ok_write [of s1 _ "pend_slot c"]) (use ok1 free in \<open>auto simp: store_ok_def s1_def\<close>)
  moreover have "committed_ok ?s"
    using free c reserved_frame [of ?s s1] record_at_SomeD [OF c(2)] by (auto simp: committed_ok_def s1_def record_at_def)
  ultimately show ?thesis using commit by (auto simp: store_ok_def)
qed

lemma finalizeConsume_ok: "store_ok s \<Longrightarrow> store_ok (fst (finalizeConsume s k))"
  by (auto simp: finalizeConsume_def forget_commit_ok split: option.split)

lemma cancelConsume_ok: "store_ok s \<Longrightarrow> store_ok (fst (cancelConsume s k))"
  by (auto simp: cancelConsume_def release_ok split: option.split)

text \<open>Writing a record that is there and not reserved; a commit at that slot is over.\<close>

lemma overwrite_ok:
  assumes ok: "store_ok s" and i: "record_at s i \<noteq> None" "\<not> reserved s i"
    and com: "c = None \<or> c = ts_committed s \<and> (\<forall>x. c = Some x \<longrightarrow> com_slot x \<noteq> i)"
  shows "store_ok (s\<lparr>ts_records := (ts_records s)[i := Some r], ts_committed := c\<rparr>)" (is "store_ok ?s")
proof -
  have "size_ok ?s" by (rule size_ok_replace [of s i]) (use ok i in \<open>auto simp: store_ok_def\<close>)
  moreover have "pending_ok ?s" by (rule pending_ok_write [of s _ i]) (use ok i in \<open>auto simp: store_ok_def\<close>)
  moreover have "committed_ok ?s"
  proof (cases "c = None")
    case False
    with com have "c = ts_committed s" "\<And>x. ts_committed s = Some x \<Longrightarrow> com_slot x \<noteq> i" by auto
    then show ?thesis by (rule_tac committed_ok_frame [of s]) (use ok in \<open>auto simp: store_ok_def record_at_def\<close>)
  qed (simp add: committed_ok_None)
  ultimately show ?thesis by (simp add: store_ok_def)
qed

lemma rollbackConsume_ok: "store_ok s \<Longrightarrow> store_ok (fst (rollbackConsume s k))"
  using overwrite_ok [of s _ None] by (auto simp: rollbackConsume_def store_ok_def committed_ok_def split: option.split)

lemma keepAlive_ok:
  assumes ok: "store_ok s"
  shows "store_ok (fst (keepAlive s session generation now))"
proof (cases "expiryFrom s now")
  case deadline: (Some deadline)
  show ?thesis
  proof (cases "find_index (\<lambda>r. case r of Some t \<Rightarrow> rec_session t = session \<and> rec_generation t = generation | None \<Rightarrow> False) (ts_records s)")
    case (Some i)
    then have "record_at s i \<noteq> None" by (auto simp: record_at_def dest!: find_index_iff split: option.splits)
    then show ?thesis using ok deadline Some overwrite_ok [of s i "ts_committed s"]
      by (auto simp: keepAlive_def Let_def split: if_splits option.splits)
  qed (use ok deadline in \<open>simp add: keepAlive_def\<close>)
qed (use ok in \<open>simp add: keepAlive_def\<close>)

section \<open>Reachable stores\<close>

text \<open>
  The calls of the server in any order, in two circumstances: no token is issued (which scans for expired
  records) while the record of the last commit has expired and can still be rolled back, and no token is
  presented again after its reserved record expired.
\<close>

inductive token_reachable :: "CredentialCrypto \<Rightarrow> ResumeTokenStore \<Rightarrow> bool" for crypto where
  create: "createResumeTokenStore lifetime = Some s \<Longrightarrow> token_reachable crypto s"
| issue: "token_reachable crypto s \<Longrightarrow> commit_live s now
    \<Longrightarrow> token_reachable crypto (fst (issue crypto s random owner session generation ctx now))"
| prepare: "token_reachable crypto s \<Longrightarrow> prepare_safe crypto s token now
    \<Longrightarrow> token_reachable crypto (fst (prepareConsume crypto s random token ctx now))"
| commit: "token_reachable crypto s \<Longrightarrow> commitConsume s k = Some (s', b) \<Longrightarrow> token_reachable crypto s'"
| finalize: "token_reachable crypto s \<Longrightarrow> token_reachable crypto (fst (finalizeConsume s k))"
| rollback: "token_reachable crypto s \<Longrightarrow> token_reachable crypto (fst (rollbackConsume s k))"
| cancel: "token_reachable crypto s \<Longrightarrow> token_reachable crypto (fst (cancelConsume s k))"
| keep_alive: "token_reachable crypto s \<Longrightarrow> token_reachable crypto (fst (keepAlive s session generation now))"

lemma token_store_created_ok: "createResumeTokenStore lifetime = Some s \<Longrightarrow> store_ok s"
  by (auto simp: createResumeTokenStore_def store_ok_def size_ok_def pending_ok_def committed_ok_def pending_at_def held_records_def
      sum_list_replicate split: if_splits)

lemma token_reachable_ok: "token_reachable crypto s \<Longrightarrow> store_ok s"
proof (induction rule: token_reachable.induct)
  case (commit s k s' b)
  then show ?case using commitConsume_ok [of s k] by auto
qed (simp_all add: token_store_created_ok issue_ok prepareConsume_ok finalizeConsume_ok rollbackConsume_ok cancelConsume_ok keepAlive_ok)

section \<open>Properties\<close>

lemma findPending_unique:
  assumes ok: "store_ok s" and j: "pending_at s j = Some c"
  shows "findPending s (pend_id c) = Some j"
proof -
  have "\<exists>i. findPending s (pend_id c) = Some i"
  proof (rule ccontr)
    assume "\<nexists>i. findPending s (pend_id c) = Some i"
    then have none: "findPending s (pend_id c) = None" by auto
    have "Some c \<in> set (ts_pending s)" using j by (auto simp: pending_at_def split: if_splits) (metis nth_mem)
    with none show False unfolding findPending_def find_index_None_iff by fastforce
  qed
  then obtain i d where "findPending s (pend_id c) = Some i" "pending_at s i = Some d" "pend_id d = pend_id c"
    using findPending_SomeD by blast
  with ok j show ?thesis unfolding store_ok_def pending_ok_def by metis
qed

lemma findDigest_None_iff:
  "\<forall>x y. constantTimeEqual crypto x y \<longleftrightarrow> x = y \<Longrightarrow>
     findDigest crypto s d = None \<longleftrightarrow> (\<forall>i r. record_at s i = Some r \<longrightarrow> rec_digest r \<noteq> d)"
  unfolding findDigest_def find_index_None_iff record_at_def
  by (auto simp: in_set_conv_nth split: option.splits) (metis option.inject)

lemma commit_rollback:
  assumes ok: "store_ok s" and com: "commitConsume s k = Some (s', True)"
  shows "snd (rollbackConsume s' k) \<and> ts_records (fst (rollbackConsume s' k)) = ts_records s
    \<and> ts_size (fst (rollbackConsume s' k)) = ts_size s \<and> findPending (fst (rollbackConsume s' k)) k = None"
proof -
  obtain i where i: "findPending s k = Some i" using com by (cases "findPending s k") (auto simp: commitConsume_def)
  obtain c r where c: "pending_at s i = Some c" "pend_id c = k" and r: "record_at s (pend_slot c) = Some r"
    and "commitConsume s k = Some (s\<lparr>ts_committed := Some \<lparr>com_id = k, com_slot = pend_slot c, com_prior = r\<rparr>,
       ts_records := (ts_records s)[pend_slot c := Some (pend_replacement c)], ts_pending := (ts_pending s)[i := None]\<rparr>, True)"
    using commitConsume_found [OF ok i] by metis
  with com have s': "s' =
      s\<lparr>ts_committed := Some \<lparr>com_id = k, com_slot = pend_slot c, com_prior = r\<rparr>,
       ts_records := (ts_records s)[pend_slot c := Some (pend_replacement c)], ts_pending := (ts_pending s)[i := None]\<rparr>" by simp
  have undone: "fst (rollbackConsume s' k) = s\<lparr>ts_committed := None, ts_pending := (ts_pending s)[i := None]\<rparr>" "snd (rollbackConsume s' k)"
    using record_at_SomeD [OF r] by (simp_all add: rollbackConsume_def s' list_update_same_conv [THEN iffD2])
  have "findPending (s\<lparr>ts_committed := None, ts_pending := (ts_pending s)[i := None]\<rparr>) k = None" (is "findPending ?s k = None")
  proof (cases "findPending ?s k")
    case (Some j)
    then obtain e where e: "pending_at ?s j = Some e" "pend_id e = k" using findPending_SomeD by blast
    have "pending_at ?s j = (if j = i \<and> i < length (ts_pending s) then None else pending_at s j)" by (simp add: pending_at_def)
    with e have "j \<noteq> i" "pending_at s j = Some e" using c(1) by (auto simp: pending_at_def split: if_splits)
    then show ?thesis using ok c e(2) unfolding store_ok_def pending_ok_def by metis
  qed
  then show ?thesis using undone by simp
qed

text \<open>
  C30. Take a store reached by the calls of the server in any order, where no token is presented whose record
  is reserved and has expired, and no token is issued while the record of the last commit has expired and can
  still be rolled back. In such a store the number of records is the one counted, each preparation refers to a
  record that is there and that its replacement continues (same principal, session and context, next
  generation), no two preparations share a record, and committing any preparation reads an existing
  record. (Presenting a token whose reserved record has expired does break this.)
\<close>

theorem resume_store_reachable_ok:
  assumes "token_reachable crypto s"
  shows "store_ok s \<and> (\<forall>k. commitConsume s k \<noteq> None)"
  using token_reachable_ok [OF assms] commitConsume_ok [of s] by (metis option.distinct(1))

definition sample_crypto :: CredentialCrypto where
  "sample_crypto = \<lparr>sha256 = Some, constantTimeEqual = (=)\<rparr>"

definition sample_context :: ResumeTokenContext where
  "sample_context = \<lparr>ctx_protocol = [1], ctx_content = [2]\<rparr>"

definition sample_created :: ResumeTokenStore where
  "sample_created = the (createResumeTokenStore 1000)"

definition sample_issued :: ResumeTokenStore where
  "sample_issued = fst (issue sample_crypto sample_created (Some (replicate 32 1)) 7 8 3 sample_context 0)"

definition sample_prepared :: ResumeTokenStore where
  "sample_prepared = fst (prepareConsume sample_crypto sample_issued (Some (replicate 32 2)) (replicate 32 1) sample_context 5)"

lemma purgeExpired_nothing:
  assumes "\<forall>i < length (ts_records s). \<not> expiredRecord (ts_records s ! i) now"
  shows "purgeExpired s now = s"
proof -
  have "purgeFrom s now is = s" if "\<forall>i \<in> set is. \<not> expiredRecord (ts_records s ! i) now" for "is"
    using that by (induction "is") auto
  then show ?thesis using assms by (simp add: purgeExpired_def)
qed

lemma find_index_Cons: "find_index P (x # xs) = (if P x then Some 0 else map_option Suc (find_index P xs))"
  by (auto simp: find_index_def Let_def)

lemma find_index_replicate: "\<not> P x \<Longrightarrow> find_index P (replicate n x) = None"
  by (simp add: find_index_None_iff)

lemma replicate_256: "replicate 256 x = x # replicate 255 x"
  using replicate_Suc [of 255 x] by simp

lemma sample_created_eq:
  "sample_created = \<lparr>ts_lifetime = 1000, ts_records = None # replicate 255 None, ts_pending = None # replicate 255 None,
     ts_committed = None, ts_size = 0, ts_nextPreparationId = 1\<rparr>"
  by (simp add: sample_created_def createResumeTokenStore_def MinimumResumeTokenLifetimeMilliseconds_def
      MaximumResumeTokenLifetimeMilliseconds_def MaximumResumeTokenRecords_def replicate_256)

lemma sample_purge: "purgeExpired sample_created now = sample_created"
  by (rule purgeExpired_nothing) (simp add: sample_created_eq expiredRecord_def nth_Cons' nth_replicate)

lemmas sample_simps = makeToken_def ResumeTokenBytes_def findDigest_def find_index_Cons find_index_replicate sample_crypto_def
  createAccepted_def initial_def MinimumResumeTokenLifetimeMilliseconds_def MaximumResumeTokenLifetimeMilliseconds_def next_value_def

lemma sample_expiry:
  "ts_lifetime s = 1000 \<Longrightarrow> expiryFrom s 0 = Some 1000000000" "ts_lifetime s = 1000 \<Longrightarrow> expiryFrom s 5 = Some 1000000005"
  by (simp_all add: expiryFrom_def u64_max_def NanosecondsPerMillisecond_def)

lemma sample_issued_eq:
  "sample_issued = sample_created\<lparr>ts_records := Some \<lparr>rec_digest = replicate 32 1, rec_principal = 7, rec_session = 8, rec_generation = 3,
     rec_context = sample_context, rec_expiresAt = 1000000000\<rparr> # replicate 255 None, ts_size := 1\<rparr>"
  unfolding sample_issued_def issue_def sample_purge Let_def
  by (simp add: sample_simps sample_expiry sample_created_eq emptyRecordSlot_def)

lemma sample_prepare:
  "prepareConsume sample_crypto sample_issued (Some (replicate 32 2)) (replicate 32 1) sample_context 5 =
     (sample_issued\<lparr>ts_nextPreparationId := 2, ts_pending := Some \<lparr>pend_id = 1, pend_slot = 0,
        pend_replacement = \<lparr>rec_digest = replicate 32 2, rec_principal = 7, rec_session = 8, rec_generation = 4,
          rec_context = sample_context, rec_expiresAt = 1000000005\<rparr>\<rparr> # replicate 255 None\<rparr>,
      Inr \<lparr>gr_preparation = 1, gr_session = 8, gr_priorGeneration = 3, gr_nextGeneration = 4,
           gr_response = \<lparr>acc_token = replicate 32 2, acc_lifetime = 1000, acc_playerCredential = None,
             acc_characterLifecycle = NewCharacter, acc_profileRevision = 1\<rparr>, gr_principal = 7\<rparr>)"
  by (simp add: prepareConsume_def sample_simps sample_expiry sample_issued_eq sample_created_eq reserved_def u64_max_def)

definition sample_record :: TokenRecord where
  "sample_record = \<lparr>rec_digest = replicate 32 1, rec_principal = 7, rec_session = 8, rec_generation = 3,
     rec_context = sample_context, rec_expiresAt = 1000000000\<rparr>"

definition sample_pending :: PendingConsume where
  "sample_pending = \<lparr>pend_id = 1, pend_slot = 0,
     pend_replacement = \<lparr>rec_digest = replicate 32 2, rec_principal = 7, rec_session = 8, rec_generation = 4,
       rec_context = sample_context, rec_expiresAt = 1000000005\<rparr>\<rparr>"

lemma sample_prepared_lists:
  "ts_records sample_prepared = Some sample_record # replicate 255 None" "ts_pending sample_prepared = Some sample_pending # replicate 255 None"
proof -
  show "ts_pending sample_prepared = Some sample_pending # replicate 255 None"
    by (simp add: sample_prepared_def sample_prepare sample_pending_def)
  have "ts_records sample_prepared = ts_records sample_issued" by (simp add: sample_prepared_def sample_prepare)
  then show "ts_records sample_prepared = Some sample_record # replicate 255 None" by (simp add: sample_issued_eq sample_record_def)
qed

lemma sample_commit: "\<exists>s'. commitConsume sample_prepared 1 = Some (s', True) \<and> ts_records s' \<noteq> ts_records sample_prepared"
  by (simp add: commitConsume_def findPending_def find_index_Cons sample_prepared_lists)
    (simp add: sample_prepared_lists sample_pending_def sample_record_def)

lemma sample_issued_reachable: "token_reachable sample_crypto sample_issued"
proof -
  have "token_reachable sample_crypto sample_created"
    by (rule token_reachable.create [of 1000]) (simp add: sample_created_def createResumeTokenStore_def
        MinimumResumeTokenLifetimeMilliseconds_def MaximumResumeTokenLifetimeMilliseconds_def)
  then show ?thesis
    unfolding sample_issued_def by (rule token_reachable.issue) (simp add: commit_live_def sample_created_eq)
qed

lemma sample_prepared_reachable: "token_reachable sample_crypto sample_prepared"
  unfolding sample_prepared_def using sample_issued_reachable
  by (rule token_reachable.prepare) (simp add: prepare_safe_def reserved_def sample_issued_eq sample_created_eq)

theorem resume_store_reachable_ok_witness:
  "store_ok sample_prepared \<and> commitConsume sample_prepared 1 \<noteq> None \<and> ts_pending sample_prepared ! 0 \<noteq> None"
  using resume_store_reachable_ok [OF sample_prepared_reachable] by (simp add: sample_prepared_def sample_prepare)

text \<open>
  C40. A defect: presenting a token again after its reserved record expired drops the record
  under the preparation (the expiry scan spares reserved records, this path does not), and
  committing the preparation then reads a record that is gone.
\<close>

theorem prepare_drops_reserved_record:
  assumes "sha256 crypto token = Some d" and "findDigest crypto s d = Some i" and "record_at s i = Some r" and "rec_expiresAt r \<le> now"
    and "findPending s k = Some j" and "pending_at s j = Some c" and "pend_slot c = i"
  shows "snd (prepareConsume crypto s random token context now) = Inl TokenDenied
    \<and> commitConsume (fst (prepareConsume crypto s random token context now)) k = None"
proof -
  have r: "i < length (ts_records s)" "ts_records s ! i = Some r" using record_at_SomeD [OF assms(3)] by simp_all
  have j: "j < length (ts_pending s)" "ts_pending s ! j = Some c" using assms(6) by (simp_all add: pending_at_def split: if_splits)
  have "prepareConsume crypto s random token context now =
      (s\<lparr>ts_committed := None, ts_records := (ts_records s)[i := None], ts_size := ts_size s - 1\<rparr>, Inl TokenDenied)"
    using prepareConsume_dead [OF assms(1,2) refl] r assms(4) by simp
  then show ?thesis using assms(5,7) r j by (simp add: commitConsume_def findPending_def)
qed

theorem prepare_drops_reserved_record_witness:
  "commitConsume sample_prepared 1 \<noteq> None
   \<and> commitConsume (fst (prepareConsume sample_crypto sample_prepared None (replicate 32 1) sample_context 1000000000)) 1 = None"
proof
  show "commitConsume (fst (prepareConsume sample_crypto sample_prepared None (replicate 32 1) sample_context 1000000000)) 1 = None"
    using prepare_drops_reserved_record [of sample_crypto "replicate 32 1" "replicate 32 1" sample_prepared 0 sample_record 1000000000 1 0 sample_pending]
    by (simp add: sample_simps sample_prepared_lists sample_record_def sample_pending_def record_at_def pending_at_def findPending_def)
  show "commitConsume sample_prepared 1 \<noteq> None" using sample_commit by auto
qed

text \<open>
  Rolling back a commit gives back exactly the records the store had, and the preparation is
  used up: committing it again finds nothing.
\<close>

theorem commit_rollback_restores:
  assumes "token_reachable crypto s" and "commitConsume s k = Some (s', True)"
  shows "snd (rollbackConsume s' k) \<and> ts_records (fst (rollbackConsume s' k)) = ts_records s
    \<and> ts_size (fst (rollbackConsume s' k)) = ts_size s
    \<and> commitConsume (fst (rollbackConsume s' k)) k = Some (fst (rollbackConsume s' k), False)"
  using commit_rollback [OF token_reachable_ok [OF assms(1)] assms(2)] by (simp add: commitConsume_def)

theorem commit_rollback_restores_witness:
  "\<exists>s'. commitConsume sample_prepared 1 = Some (s', True) \<and> ts_records s' \<noteq> ts_records sample_prepared
     \<and> ts_records (fst (rollbackConsume s' 1)) = ts_records sample_prepared"
proof -
  obtain s' where com: "commitConsume sample_prepared 1 = Some (s', True)" and "ts_records s' \<noteq> ts_records sample_prepared"
    using sample_commit by blast
  then show ?thesis using commit_rollback_restores [OF sample_prepared_reachable com] by blast
qed

end
