(* ===== verification/Character_Profile.thy ===== *)
theory Character_Profile
  imports Utf8_Text Inventory_World Resume_Tokens
begin

text \<open>
  Character creation (\<^verbatim>\<open>character_profile.hpp\<close> and \<^verbatim>\<open>server_core/character_profile.cpp\<close>): the
  content catalog, the profile with its creation phases, and the transition a creation command
  makes. Fixed-size arrays are lists; that those of a race have their declared length is
  \<open>race_typed\<close>. A dereference of a null pointer and an array index out
  of range are the value \<open>None\<close>. The gameplay construction of the application is an argument.
  Allocation does not fail here.
\<close>

section \<open>Values\<close>

type_synonym RaceRecordId = u64
type_synonym ClassRecordId = u64
type_synonym HeadRecordId = u64
type_synonym HairRecordId = u64
type_synonym BirthsignRecordId = u64
type_synonym SpellRecordId = u64

definition MaximumCharacterNameBytes :: nat where
  "MaximumCharacterNameBytes = 64"

definition MaximumCustomClassNameBytes :: nat where
  "MaximumCustomClassNameBytes = 64"

definition MaximumCustomClassDescriptionBytes :: nat where
  "MaximumCustomClassDescriptionBytes = 512"

definition CharacterAttributeCount :: nat where
  "CharacterAttributeCount = 8"

definition CharacterSkillCount :: nat where
  "CharacterSkillCount = 27"

definition MaximumStartingSpells :: nat where
  "MaximumStartingSpells = 64"

definition MaximumStartingItems :: nat where
  "MaximumStartingItems = 64"

definition MaximumCharacterSelections :: nat where
  "MaximumCharacterSelections = 256"

definition MaximumRaceAppearances :: nat where
  "MaximumRaceAppearances = 8192"

definition MaximumCharacterAppearances :: nat where
  "MaximumCharacterAppearances = 65536"

datatype CharacterCreationPhase =
  AwaitingName | AwaitingRace | AwaitingClass | AwaitingBirthsign | AwaitingReview | Complete

datatype CharacterSex = Female | Male

text \<open>The specialization is a byte the code checks, so it stays a raw code.\<close>

type_synonym ClassSpecialization = u8

abbreviation Stealth :: ClassSpecialization where "Stealth \<equiv> 2"

record CharacterAppearance =
  app_race :: RaceRecordId
  app_head :: HeadRecordId
  app_hair :: HairRecordId
  app_sex :: CharacterSex

record CustomClassDefinition =
  cc_name :: "u8 list"
  cc_description :: "u8 list"
  cc_specialization :: ClassSpecialization
  cc_favoredAttributes :: "u8 list"
  cc_minorSkills :: "u8 list"
  cc_majorSkills :: "u8 list"

datatype CharacterClass = PredefinedClass ClassRecordId | CustomClass CustomClassDefinition

record CharacterDerivedState =
  drv_attributes :: "u16 list"
  drv_skills :: "u16 list"
  drv_spells :: "SpellRecordId list"

record CharacterProfile =
  prof_lifecycle :: CharacterLifecycle
  prof_phase :: CharacterCreationPhase
  prof_name :: "u8 list"
  prof_appearance :: "CharacterAppearance option"
  prof_class :: "CharacterClass option"
  prof_birthsign :: "BirthsignRecordId option"
  prof_derived :: CharacterDerivedState
  prof_inventory :: "StartingItem list"
  prof_revision :: CharacterProfileRevision

record CharacterRaceDefinition =
  race_id :: RaceRecordId
  race_appearances :: "CharacterAppearance list"
  race_femaleAttributes :: "u16 list"
  race_maleAttributes :: "u16 list"
  race_skillBonuses :: "u16 list"
  race_spells :: "SpellRecordId list"

record CharacterClassDefinition =
  class_id :: ClassRecordId
  class_specialization :: ClassSpecialization
  class_favoredAttributes :: "u8 list"
  class_minorSkills :: "u8 list"
  class_majorSkills :: "u8 list"

record CharacterBirthsignDefinition =
  sign_id :: BirthsignRecordId
  sign_spells :: "SpellRecordId list"

text \<open>\<^verbatim>\<open>CharacterConstruction::derive\<close> is implemented by the application.\<close>

type_synonym CharacterConstruction =
  "CharacterAppearance \<Rightarrow> CharacterClass \<Rightarrow> BirthsignRecordId \<Rightarrow> CharacterDerivedState option"

record CharacterContentCatalog =
  cat_manifest :: ContentManifestId
  cat_creationSpawn :: Transform
  cat_completionSpawn :: Transform
  cat_races :: "CharacterRaceDefinition list"
  cat_classes :: "CharacterClassDefinition list"
  cat_birthsigns :: "CharacterBirthsignDefinition list"
  cat_inventory :: "StartingItem list"
  cat_construction :: "CharacterConstruction option"

datatype CharacterCreationChoice =
  SetCharacterName "u8 list"
| SetCharacterAppearance CharacterAppearance
| SetCharacterClass CharacterClass
| SetCharacterBirthsign BirthsignRecordId
| CompleteCharacterCreation

record CharacterCreationCommand =
  cmd_expectedRevision :: CharacterProfileRevision
  cmd_choice :: CharacterCreationChoice

datatype CharacterProfileError =
  InvalidInitialState | StaleRevision | AlreadyEstablished | WrongPhase | InvalidName | UnknownRace
| InvalidAppearance | UnknownClass | InvalidCustomClass | UnknownBirthsign | Incomplete
| RevisionExhausted | PersistenceFailed | AllocationFailure

section \<open>Record identifiers\<close>

definition foldCase :: "u8 \<Rightarrow> u8" where
  "foldCase byte = (if byte \<ge> 0x41 \<and> byte \<le> 0x5a then byte + 0x20 else byte)"

fun recordHash :: "u8 list \<Rightarrow> u64 \<Rightarrow> u64 option" where
  "recordHash [] value = Some value"
| "recordHash (byte # rest) value =
     (if byte < 0x20 \<or> byte = 0x7f then None
      else recordHash rest ((value XOR ucast (foldCase byte)) * 1099511628211))"

definition characterRecordId :: "u8 list \<Rightarrow> u64 option" where
  "characterRecordId recordId =
     (if recordId = [] \<or> length recordId > 256 then None
      else (case recordHash recordId 14695981039346656037 of
              None \<Rightarrow> None
            | Some value \<Rightarrow> if value = 0 then None else Some value))"

section \<open>Custom classes\<close>

text \<open>The loop over identifiers with its array of seen flags; the result is the array, or \<open>None\<close> for a rejection.\<close>

fun markAll :: "nat \<Rightarrow> bool list \<Rightarrow> u8 list \<Rightarrow> bool list option" where
  "markAll n seen [] = Some seen"
| "markAll n seen (ident # rest) =
     (if unat ident \<ge> n \<or> seen ! unat ident then None else markAll n (seen[unat ident := True]) rest)"

definition validCustomClass :: "CustomClassDefinition \<Rightarrow> bool" where
  "validCustomClass value \<longleftrightarrow>
     (if \<not> isValidCharacterText (cc_name value) MaximumCustomClassNameBytes
         \<or> cc_description value \<noteq> [] \<and> \<not> isValidCharacterText (cc_description value) MaximumCustomClassDescriptionBytes
      then False
      else if cc_specialization value > Stealth then False
      else (case markAll CharacterAttributeCount (replicate CharacterAttributeCount False) (cc_favoredAttributes value) of
              None \<Rightarrow> False
            | Some _ \<Rightarrow>
              (case markAll CharacterSkillCount (replicate CharacterSkillCount False) (cc_minorSkills value) of
                 None \<Rightarrow> False
               | Some skills \<Rightarrow> markAll CharacterSkillCount skills (cc_majorSkills value) \<noteq> None)))"

section \<open>The content catalog\<close>

fun appearancesBounded :: "nat \<Rightarrow> CharacterRaceDefinition list \<Rightarrow> bool" where
  "appearancesBounded appearances [] = True"
| "appearancesBounded appearances (race # rest) =
     (if race_appearances race = [] \<or> length (race_appearances race) > MaximumRaceAppearances
         \<or> length (race_appearances race) > MaximumCharacterAppearances - appearances
         \<or> length (race_spells race) > MaximumStartingSpells then False
      else appearancesBounded (appearances + length (race_appearances race)) rest)"

definition raceConsistent :: "CharacterRaceDefinition \<Rightarrow> bool" where
  "raceConsistent race \<longleftrightarrow> race_appearances race \<noteq> [] \<and> length (race_appearances race) \<le> MaximumRaceAppearances
     \<and> length (race_spells race) \<le> MaximumStartingSpells
     \<and> \<not> list_ex (\<lambda>value. app_race value \<noteq> race_id race) (race_appearances race)"

definition validText :: "u8 list" where
  "validText = [0x76, 0x61, 0x6c, 0x69, 0x64]"

definition classConsistent :: "CharacterClassDefinition \<Rightarrow> bool" where
  "classConsistent definition \<longleftrightarrow> validCustomClass
     \<lparr>cc_name = validText, cc_description = [], cc_specialization = class_specialization definition,
      cc_favoredAttributes = class_favoredAttributes definition, cc_minorSkills = class_minorSkills definition,
      cc_majorSkills = class_majorSkills definition\<rparr>"

definition startingItemRejected :: "StartingItem \<Rightarrow> bool" where
  "startingItemRejected item \<longleftrightarrow> start_count item = 0 \<or> (case start_slot item of None \<Rightarrow> False | Some slot \<Rightarrow> slot \<ge> 19)"

definition createCharacterContentCatalog ::
  "ContentManifestId \<Rightarrow> Transform \<Rightarrow> Transform \<Rightarrow> CharacterRaceDefinition list \<Rightarrow> CharacterClassDefinition list
   \<Rightarrow> CharacterBirthsignDefinition list \<Rightarrow> StartingItem list \<Rightarrow> CharacterContentCatalog option" where
  "createCharacterContentCatalog manifest creationSpawn completionSpawn races classes birthsigns startingInventory =
     (if races = [] \<or> classes = [] \<or> birthsigns = [] \<or> length races > MaximumCharacterSelections
         \<or> length classes > MaximumCharacterSelections \<or> length birthsigns > MaximumCharacterSelections
         \<or> length startingInventory > MaximumStartingItems then None
      else if \<not> appearancesBounded 0 races then None
      else if list_ex (\<lambda>sign. length (sign_spells sign) > MaximumStartingSpells) birthsigns then None
      else
        let raceValues = sort_key race_id races;
            classValues = sort_key class_id classes;
            birthValues = sort_key sign_id birthsigns
        in if \<not> no_adjacent_equal (map race_id raceValues) \<or> \<not> no_adjacent_equal (map class_id classValues)
              \<or> \<not> no_adjacent_equal (map sign_id birthValues) then None
           else if \<not> list_all raceConsistent raceValues then None
           else if \<not> list_all classConsistent classValues then None
           else if list_ex (\<lambda>sign. length (sign_spells sign) > MaximumStartingSpells) birthValues then None
           else if list_ex startingItemRejected startingInventory then None
           else Some \<lparr>cat_manifest = manifest, cat_creationSpawn = creationSpawn, cat_completionSpawn = completionSpawn,
                      cat_races = raceValues, cat_classes = classValues, cat_birthsigns = birthValues,
                      cat_inventory = startingInventory, cat_construction = None\<rparr>)"

definition findRace :: "CharacterContentCatalog \<Rightarrow> RaceRecordId \<Rightarrow> CharacterRaceDefinition option" where
  "findRace catalog ident = lookup_key race_id (cat_races catalog) ident"

definition findClass :: "CharacterContentCatalog \<Rightarrow> ClassRecordId \<Rightarrow> CharacterClassDefinition option" where
  "findClass catalog ident = lookup_key class_id (cat_classes catalog) ident"

definition findBirthsign :: "CharacterContentCatalog \<Rightarrow> BirthsignRecordId \<Rightarrow> CharacterBirthsignDefinition option" where
  "findBirthsign catalog ident = lookup_key sign_id (cat_birthsigns catalog) ident"

definition withConstruction :: "CharacterContentCatalog \<Rightarrow> CharacterConstruction option \<Rightarrow> CharacterContentCatalog" where
  "withConstruction catalog construction = catalog\<lparr>cat_construction := construction\<rparr>"

section \<open>Derived state\<close>

fun addEach :: "u16 \<Rightarrow> nat list \<Rightarrow> u16 list \<Rightarrow> u16 list option" where
  "addEach amount [] values = Some values"
| "addEach amount (ident # rest) values =
     (if ident < length values then addEach amount rest (values[ident := values ! ident + amount]) else None)"

definition addClass ::
  "ClassSpecialization \<Rightarrow> u8 list \<Rightarrow> u8 list \<Rightarrow> u8 list \<Rightarrow> u16 list \<times> u16 list \<Rightarrow> (u16 list \<times> u16 list) option" where
  "addClass specialization favoredAttributes minorSkills majorSkills = (\<lambda>(attributes, skills).
     (case addEach 10 (map unat favoredAttributes) attributes of
        None \<Rightarrow> None
      | Some attributes' \<Rightarrow>
        (case addEach 5 [unat specialization * 9 ..< unat specialization * 9 + 9] skills of
           None \<Rightarrow> None
         | Some skills1 \<Rightarrow>
           (case addEach 10 (map unat minorSkills) skills1 of
              None \<Rightarrow> None
            | Some skills2 \<Rightarrow>
              (case addEach 25 (map unat majorSkills) skills2 of
                 None \<Rightarrow> None
               | Some skills3 \<Rightarrow> Some (attributes', skills3))))))"

definition baseSkill :: "u16 \<Rightarrow> u16" where
  "baseSkill bonus = word_of_int (max 0 (5 + sint bonus))"

fun addSpells :: "SpellRecordId list \<Rightarrow> SpellRecordId list \<Rightarrow> SpellRecordId list" where
  "addSpells startingSpells [] = startingSpells"
| "addSpells startingSpells (spell # rest) =
     addSpells (if spell \<in> set startingSpells then startingSpells else startingSpells @ [spell]) rest"

definition derive ::
  "CharacterContentCatalog \<Rightarrow> CharacterAppearance \<Rightarrow> CharacterClass \<Rightarrow> BirthsignRecordId \<Rightarrow> CharacterDerivedState option" where
  "derive catalog appearance selectedClass birthsign =
     (case findRace catalog (app_race appearance) of
        None \<Rightarrow> None
      | Some race \<Rightarrow>
        let attributes = if app_sex appearance = Male then race_maleAttributes race else race_femaleAttributes race;
            skills = map baseSkill (race_skillBonuses race)
        in (case (case selectedClass of
                    PredefinedClass ident \<Rightarrow>
                      (case findClass catalog ident of
                         None \<Rightarrow> None
                       | Some d \<Rightarrow> addClass (class_specialization d) (class_favoredAttributes d) (class_minorSkills d)
                           (class_majorSkills d) (attributes, skills))
                  | CustomClass d \<Rightarrow> addClass (cc_specialization d) (cc_favoredAttributes d) (cc_minorSkills d)
                           (cc_majorSkills d) (attributes, skills)) of
              None \<Rightarrow> None
            | Some (attributes', skills') \<Rightarrow>
              (case findBirthsign catalog birthsign of
                 None \<Rightarrow> None
               | Some sign \<Rightarrow>
                 Some \<lparr>drv_attributes = attributes', drv_skills = skills',
                       drv_spells = sort (addSpells (race_spells race) (sign_spells sign))\<rparr>)))"

section \<open>Profiles\<close>

definition emptyDerivedState :: CharacterDerivedState where
  "emptyDerivedState = \<lparr>drv_attributes = replicate CharacterAttributeCount 0,
     drv_skills = replicate CharacterSkillCount 0, drv_spells = []\<rparr>"

definition completeSelections ::
  "u8 list \<Rightarrow> CharacterAppearance option \<Rightarrow> CharacterClass option \<Rightarrow> BirthsignRecordId option \<Rightarrow> bool" where
  "completeSelections name appearance characterClass birthsign \<longleftrightarrow>
     name \<noteq> [] \<and> appearance \<noteq> None \<and> characterClass \<noteq> None \<and> birthsign \<noteq> None"

definition freshProfile :: CharacterProfile where
  "freshProfile = \<lparr>prof_lifecycle = NewCharacter, prof_phase = AwaitingName, prof_name = [], prof_appearance = None,
     prof_class = None, prof_birthsign = None, prof_derived = emptyDerivedState, prof_inventory = [],
     prof_revision = initial CounterFromOne\<rparr>"

text \<open>The source also refuses a lifecycle and a phase outside their values, which the datatypes do not have.\<close>

definition phaseValid :: "CharacterProfile \<Rightarrow> bool" where
  "phaseValid p =
     (let complete = completeSelections (prof_name p) (prof_appearance p) (prof_class p) (prof_birthsign p);
          emptyDerived = list_all (\<lambda>value. value = 0) (drv_attributes (prof_derived p))
            \<and> list_all (\<lambda>value. value = 0) (drv_skills (prof_derived p)) \<and> drv_spells (prof_derived p) = []
      in (case prof_phase p of
            AwaitingName \<Rightarrow> prof_lifecycle p = NewCharacter \<and> prof_revision p = initial CounterFromOne \<and> prof_name p = []
              \<and> prof_appearance p = None \<and> prof_class p = None \<and> prof_birthsign p = None \<and> emptyDerived \<and> prof_inventory p = []
          | AwaitingRace \<Rightarrow> prof_lifecycle p = CreatingCharacter \<and> prof_name p \<noteq> []
              \<and> prof_appearance p = None \<and> prof_class p = None \<and> prof_birthsign p = None \<and> emptyDerived \<and> prof_inventory p = []
          | AwaitingClass \<Rightarrow> prof_lifecycle p = CreatingCharacter \<and> prof_name p \<noteq> []
              \<and> prof_appearance p \<noteq> None \<and> prof_class p = None \<and> prof_birthsign p = None \<and> emptyDerived \<and> prof_inventory p = []
          | AwaitingBirthsign \<Rightarrow> prof_lifecycle p = CreatingCharacter \<and> prof_name p \<noteq> []
              \<and> prof_appearance p \<noteq> None \<and> prof_class p \<noteq> None \<and> prof_birthsign p = None \<and> emptyDerived \<and> prof_inventory p = []
          | AwaitingReview \<Rightarrow> prof_lifecycle p = CreatingCharacter \<and> complete
          | Complete \<Rightarrow> prof_lifecycle p = EstablishedCharacter \<and> complete))"

text \<open>The arguments of \<^verbatim>\<open>restore\<close> are the fields of the record it is given here; it returns them unchanged or refuses.\<close>

definition restoreProfile :: "CharacterProfile \<Rightarrow> CharacterProfile option" where
  "restoreProfile p =
     (if length (prof_inventory p) > MaximumStartingItems \<or> length (drv_spells (prof_derived p)) > MaximumStartingSpells
         \<or> prof_name p \<noteq> [] \<and> \<not> isValidCharacterText (prof_name p) MaximumCharacterNameBytes then None
      else if \<not> phaseValid p \<or> prof_lifecycle p \<noteq> NewCharacter \<and> prof_revision p = initial CounterFromOne
         \<or> list_ex startingItemRejected (prof_inventory p) then None
      else (case prof_class p of
              Some (CustomClass c) \<Rightarrow> if validCustomClass c then Some p else None
            | _ \<Rightarrow> Some p))"

section \<open>Creation commands\<close>

text \<open>The selections a command makes of the current ones, and the next phase.\<close>

record CreationSelection =
  sel_phase :: CharacterCreationPhase
  sel_name :: "u8 list"
  sel_appearance :: "CharacterAppearance option"
  sel_class :: "CharacterClass option"
  sel_birthsign :: "BirthsignRecordId option"
  sel_completing :: bool

definition selectChoice ::
  "CharacterContentCatalog \<Rightarrow> CharacterCreationChoice \<Rightarrow> CreationSelection \<Rightarrow> CharacterProfileError + CreationSelection" where
  "selectChoice catalog choice s = (case choice of
     SetCharacterName chosen \<Rightarrow>
       if sel_phase s \<noteq> AwaitingName \<and> sel_phase s \<noteq> AwaitingReview then Inl WrongPhase
       else if \<not> isValidCharacterText chosen MaximumCharacterNameBytes then Inl InvalidName
       else Inr (s\<lparr>sel_name := chosen, sel_phase := if sel_phase s = AwaitingName then AwaitingRace else sel_phase s\<rparr>)
   | SetCharacterAppearance chosen \<Rightarrow>
       if sel_phase s \<noteq> AwaitingRace \<and> sel_phase s \<noteq> AwaitingReview then Inl WrongPhase
       else (case findRace catalog (app_race chosen) of
               None \<Rightarrow> Inl UnknownRace
             | Some race \<Rightarrow>
               if chosen \<notin> set (race_appearances race) then Inl InvalidAppearance
               else Inr (s\<lparr>sel_appearance := Some chosen,
                           sel_phase := if sel_phase s = AwaitingRace then AwaitingClass else sel_phase s\<rparr>))
   | SetCharacterClass chosen \<Rightarrow>
       if sel_phase s \<noteq> AwaitingClass \<and> sel_phase s \<noteq> AwaitingReview then Inl WrongPhase
       else (case (case chosen of
                     PredefinedClass ident \<Rightarrow> (case findClass catalog ident of None \<Rightarrow> Some UnknownClass | Some _ \<Rightarrow> None)
                   | CustomClass c \<Rightarrow> if \<not> validCustomClass c then Some InvalidCustomClass else None) of
               Some e \<Rightarrow> Inl e
             | None \<Rightarrow> Inr (s\<lparr>sel_class := Some chosen,
                             sel_phase := if sel_phase s = AwaitingClass then AwaitingBirthsign else sel_phase s\<rparr>))
   | SetCharacterBirthsign chosen \<Rightarrow>
       if sel_phase s \<noteq> AwaitingBirthsign \<and> sel_phase s \<noteq> AwaitingReview then Inl WrongPhase
       else (case findBirthsign catalog chosen of
               None \<Rightarrow> Inl UnknownBirthsign
             | Some _ \<Rightarrow> Inr (s\<lparr>sel_birthsign := Some chosen, sel_phase := AwaitingReview\<rparr>))
   | CompleteCharacterCreation \<Rightarrow>
       if sel_phase s \<noteq> AwaitingReview then Inl WrongPhase
       else if \<not> completeSelections (sel_name s) (sel_appearance s) (sel_class s) (sel_birthsign s) then Inl Incomplete
       else Inr (s\<lparr>sel_phase := Complete, sel_completing := True\<rparr>))"

definition selectionOf :: "CharacterProfile \<Rightarrow> CreationSelection" where
  "selectionOf current = \<lparr>sel_phase = prof_phase current, sel_name = prof_name current, sel_appearance = prof_appearance current,
     sel_class = prof_class current, sel_birthsign = prof_birthsign current, sel_completing = False\<rparr>"

text \<open>
  The derived state and the inventory of a selection: both empty until every selection is made.
  The outer option is \<open>None\<close> where the source would read through a null pointer.
\<close>

definition deriveSelection ::
  "CharacterContentCatalog \<Rightarrow> CreationSelection \<Rightarrow> (CharacterProfileError + CharacterDerivedState \<times> StartingItem list) option" where
  "deriveSelection catalog s =
     (case (sel_appearance s, sel_class s, sel_birthsign s) of
        (Some appearance, Some selectedClass, Some birthsign) \<Rightarrow>
          if sel_name s = [] then Some (Inr (emptyDerivedState, []))
          else (case cat_construction catalog of
                  Some constr \<Rightarrow>
                    (case constr appearance selectedClass birthsign of
                       None \<Rightarrow> Some (Inl InvalidInitialState)
                     | Some native \<Rightarrow>
                       if length (drv_spells native) > MaximumStartingSpells then Some (Inl InvalidInitialState)
                       else Some (Inr (native, cat_inventory catalog)))
                | None \<Rightarrow> map_option (\<lambda>derived. Inr (derived, cat_inventory catalog))
                            (derive catalog appearance selectedClass birthsign))
      | _ \<Rightarrow> Some (Inr (emptyDerivedState, [])))"

definition applyCharacterCreation ::
  "CharacterProfile \<Rightarrow> CharacterContentCatalog \<Rightarrow> CharacterCreationCommand \<Rightarrow> (CharacterProfileError + CharacterProfile) option" where
  "applyCharacterCreation current catalog command =
     (if prof_lifecycle current = EstablishedCharacter then Some (Inl AlreadyEstablished)
      else if cmd_expectedRevision command \<noteq> prof_revision current then Some (Inl StaleRevision)
      else (case next_value (prof_revision current) of
              None \<Rightarrow> Some (Inl RevisionExhausted)
            | Some nextRevision \<Rightarrow>
              (case selectChoice catalog (cmd_choice command) (selectionOf current) of
                 Inl e \<Rightarrow> Some (Inl e)
               | Inr s \<Rightarrow>
                 (case deriveSelection catalog s of
                    None \<Rightarrow> None
                  | Some (Inl e) \<Rightarrow> Some (Inl e)
                  | Some (Inr (derived, inventory)) \<Rightarrow>
                    (case restoreProfile
                       \<lparr>prof_lifecycle = if sel_completing s then EstablishedCharacter else CreatingCharacter,
                        prof_phase = sel_phase s, prof_name = sel_name s, prof_appearance = sel_appearance s,
                        prof_class = sel_class s, prof_birthsign = sel_birthsign s, prof_derived = derived,
                        prof_inventory = inventory, prof_revision = nextRevision\<rparr> of
                       Some result \<Rightarrow> Some (Inr result)
                     | None \<Rightarrow> Some (Inl InvalidInitialState))))))"


section \<open>What the checks establish\<close>

lemma unat_eq_u8 [simp]: "unat (a :: u8) = unat b \<longleftrightarrow> a = b"
  by (simp add: word_unat_eq_iff)

lemma markAll_iff:
  "length seen = n \<Longrightarrow> markAll n seen ids = Some seen' \<longleftrightarrow>
     (\<forall>i \<in> set ids. unat i < n \<and> \<not> seen ! unat i) \<and> distinct ids
     \<and> seen' = map (\<lambda>i. seen ! i \<or> i \<in> unat ` set ids) [0..<n]"
proof (induction ids arbitrary: seen)
  case Nil
  then show ?case using map_nth [of seen] by auto
next
  case (Cons i ids)
  let ?s = "seen[unat i := True]"
  show ?case
  proof (cases "unat i < n \<and> \<not> seen ! unat i")
    case True
    have "map (\<lambda>k. ?s ! k \<or> k \<in> unat ` set ids) [0..<n] = map (\<lambda>k. seen ! k \<or> k \<in> unat ` set (i # ids)) [0..<n]"
      using True Cons.prems by (auto simp: nth_list_update)
    moreover have "(\<forall>k \<in> set ids. unat k < n \<and> \<not> ?s ! unat k) \<longleftrightarrow> (\<forall>k \<in> set ids. unat k < n \<and> \<not> seen ! unat k) \<and> i \<notin> set ids"
      using True Cons.prems by (auto simp: nth_list_update split: if_splits)
    ultimately show ?thesis using True Cons.IH [of ?s] Cons.prems by (simp only: markAll.simps) auto
  qed auto
qed

definition id_list_ok :: "nat \<Rightarrow> u8 list \<Rightarrow> bool" where
  "id_list_ok n ids \<longleftrightarrow> (\<forall>i \<in> set ids. unat i < n) \<and> distinct ids"

lemma markAll_fresh: "markAll n (replicate n False) ids \<noteq> None \<longleftrightarrow> id_list_ok n ids"
  by (auto simp: markAll_iff id_list_ok_def)

lemma markAll_twice:
  "(case markAll n (replicate n False) ids of None \<Rightarrow> False | Some seen \<Rightarrow> markAll n seen ids' \<noteq> None) \<longleftrightarrow> id_list_ok n (ids @ ids')"
proof (cases "markAll n (replicate n False) ids")
  case None
  then show ?thesis using markAll_fresh [of n ids] by (auto simp: id_list_ok_def)
next
  case (Some seen)
  then have ids: "id_list_ok n ids" using markAll_fresh [of n ids] by simp
  have seen: "seen = map (\<lambda>i. i \<in> unat ` set ids) [0..<n]" using Some by (simp add: markAll_iff cong: map_cong)
  have "(unat i \<in> unat ` set ids) = (i \<in> set ids)" for i :: u8 by auto
  then have "markAll n seen ids' \<noteq> None \<longleftrightarrow> id_list_ok n (ids @ ids')"
    using ids unfolding seen by (auto simp: markAll_iff id_list_ok_def)
  with Some show ?thesis by simp
qed

lemma validCustomClass_iff:
  "validCustomClass c \<longleftrightarrow>
     isValidCharacterText (cc_name c) MaximumCustomClassNameBytes
     \<and> (cc_description c = [] \<or> isValidCharacterText (cc_description c) MaximumCustomClassDescriptionBytes)
     \<and> cc_specialization c \<le> Stealth \<and> id_list_ok CharacterAttributeCount (cc_favoredAttributes c)
     \<and> id_list_ok CharacterSkillCount (cc_minorSkills c @ cc_majorSkills c)"
  using markAll_fresh [of CharacterAttributeCount "cc_favoredAttributes c"]
    markAll_twice [where n = CharacterSkillCount and ids = "cc_minorSkills c" and ids' = "cc_majorSkills c"]
  unfolding validCustomClass_def
  by (cases "markAll CharacterAttributeCount (replicate CharacterAttributeCount False) (cc_favoredAttributes c)") (auto simp: not_less)

text \<open>The numbers a class uses, predefined or custom.\<close>

definition class_ids_ok :: "ClassSpecialization \<Rightarrow> u8 list \<Rightarrow> u8 list \<Rightarrow> u8 list \<Rightarrow> bool" where
  "class_ids_ok sp fav minor major \<longleftrightarrow> sp \<le> Stealth \<and> id_list_ok CharacterAttributeCount fav \<and> id_list_ok CharacterSkillCount (minor @ major)"

lemma classConsistent_ids: "classConsistent d \<Longrightarrow>
    class_ids_ok (class_specialization d) (class_favoredAttributes d) (class_minorSkills d) (class_majorSkills d)"
  by (simp add: classConsistent_def validCustomClass_iff class_ids_ok_def)

lemma validCustomClass_ids: "validCustomClass c \<Longrightarrow>
    class_ids_ok (cc_specialization c) (cc_favoredAttributes c) (cc_minorSkills c) (cc_majorSkills c)"
  by (simp add: validCustomClass_iff class_ids_ok_def)

section \<open>Well-formed catalogs\<close>

definition race_typed :: "CharacterRaceDefinition \<Rightarrow> bool" where
  "race_typed race \<longleftrightarrow> length (race_femaleAttributes race) = CharacterAttributeCount
     \<and> length (race_maleAttributes race) = CharacterAttributeCount \<and> length (race_skillBonuses race) = CharacterSkillCount"

definition content_ok :: "CharacterContentCatalog \<Rightarrow> bool" where
  "content_ok c \<longleftrightarrow> keys_sorted race_id (cat_races c) \<and> keys_sorted class_id (cat_classes c) \<and> keys_sorted sign_id (cat_birthsigns c)
     \<and> (\<forall>r \<in> set (cat_races c). raceConsistent r \<and> race_typed r) \<and> (\<forall>d \<in> set (cat_classes c). classConsistent d)
     \<and> length (cat_inventory c) \<le> MaximumStartingItems \<and> \<not> list_ex startingItemRejected (cat_inventory c)"

lemma if_None_Some: "(if P then None else x) = Some y \<longleftrightarrow> \<not> P \<and> x = Some y"
  by simp

lemma create_content_ok:
  assumes "createCharacterContentCatalog m sp sp' races classes signs items = Some c" and "list_all race_typed races"
  shows "content_ok (withConstruction c constr)"
proof -
  let ?c = "\<lparr>cat_manifest = m, cat_creationSpawn = sp, cat_completionSpawn = sp', cat_races = sort_key race_id races,
    cat_classes = sort_key class_id classes, cat_birthsigns = sort_key sign_id signs, cat_inventory = items, cat_construction = None\<rparr>"
  have "c = ?c \<and> keys_sorted race_id (sort_key race_id races) \<and> keys_sorted class_id (sort_key class_id classes)
      \<and> keys_sorted sign_id (sort_key sign_id signs) \<and> list_all raceConsistent (sort_key race_id races)
      \<and> list_all classConsistent (sort_key class_id classes) \<and> length items \<le> MaximumStartingItems \<and> \<not> list_ex startingItemRejected items"
    using assms(1)
    unfolding createCharacterContentCatalog_def Let_def sort_key_strict if_None_Some option.inject not_less de_Morgan_disj not_not
    by - (elim conjE, intro conjI, erule sym, assumption+)
  then obtain c: "c = ?c" and parts: "keys_sorted race_id (sort_key race_id races)" "keys_sorted class_id (sort_key class_id classes)"
    "keys_sorted sign_id (sort_key sign_id signs)" "list_all raceConsistent (sort_key race_id races)"
    "list_all classConsistent (sort_key class_id classes)" "length items \<le> MaximumStartingItems" "\<not> list_ex startingItemRejected items"
    by (elim conjE)
  have "list_all (\<lambda>r. raceConsistent r \<and> race_typed r) (sort_key race_id races)" using parts(4) assms(2) by (simp add: list_all_iff)
  with parts show ?thesis unfolding content_ok_def withConstruction_def c list_all_iff by simp
qed

lemma content_ok_keys:
  "content_ok c \<Longrightarrow> keys_sorted race_id (cat_races c)" "content_ok c \<Longrightarrow> keys_sorted class_id (cat_classes c)"
  "content_ok c \<Longrightarrow> keys_sorted sign_id (cat_birthsigns c)"
  unfolding content_ok_def by blast+

interpretation races: keyed_table race_id cat_races content_ok findRace
  by unfold_locales (simp add: findRace_def lookup_key_iff [OF content_ok_keys(1)])

interpretation classes: keyed_table class_id cat_classes content_ok findClass
  by unfold_locales (simp add: findClass_def lookup_key_iff [OF content_ok_keys(2)])

interpretation birthsigns: keyed_table sign_id cat_birthsigns content_ok findBirthsign
  by unfold_locales (simp add: findBirthsign_def lookup_key_iff [OF content_ok_keys(3)])

lemma findRace_typed: "content_ok c \<Longrightarrow> findRace c i = Some r \<Longrightarrow> race_typed r"
  using races.lookup_memberD [of c i r] by (simp add: content_ok_def)

lemma findClass_ids: "content_ok c \<Longrightarrow> findClass c i = Some d \<Longrightarrow>
    class_ids_ok (class_specialization d) (class_favoredAttributes d) (class_minorSkills d) (class_majorSkills d)"
  using classes.lookup_memberD [of c i d] classConsistent_ids by (simp add: content_ok_def)

section \<open>The derived state\<close>

lemma addEach_Some:
  "\<forall>i \<in> set ids. i < length v \<Longrightarrow> distinct ids \<Longrightarrow>
     addEach a ids v = Some (map (\<lambda>i. v ! i + (if i \<in> set ids then a else 0)) [0..<length v])"
proof (induction ids arbitrary: v)
  case Nil
  then show ?case using map_nth [of v] by simp
next
  case (Cons k ids)
  then have "addEach a (k # ids) v = addEach a ids (v[k := v ! k + a])" by simp
  also have "\<dots> = Some (map (\<lambda>i. v[k := v ! k + a] ! i + (if i \<in> set ids then a else 0)) [0..<length v])"
    using Cons.IH [of "v[k := v ! k + a]"] Cons.prems by simp
  also have "\<dots> = Some (map (\<lambda>i. v ! i + (if i \<in> set (k # ids) then a else 0)) [0..<length v])"
    using Cons.prems by (auto simp: nth_list_update)
  finally show ?case .
qed

text \<open>What a class adds to an attribute and to a skill.\<close>

definition attribute_bonus :: "u8 list \<Rightarrow> nat \<Rightarrow> u16" where
  "attribute_bonus fav i = (if i \<in> unat ` set fav then 10 else 0)"

definition skill_bonus :: "ClassSpecialization \<Rightarrow> u8 list \<Rightarrow> u8 list \<Rightarrow> nat \<Rightarrow> u16" where
  "skill_bonus sp minor major i = (if i div 9 = unat sp then 5 else 0)
     + (if i \<in> unat ` set minor then 10 else 0) + (if i \<in> unat ` set major then 25 else 0)"

lemma addClass_Some:
  assumes "class_ids_ok sp fav minor major" and "length attrs = CharacterAttributeCount" and "length skills = CharacterSkillCount"
  shows "addClass sp fav minor major (attrs, skills) =
    Some (map (\<lambda>i. attrs ! i + attribute_bonus fav i) [0..<CharacterAttributeCount],
          map (\<lambda>i. skills ! i + skill_bonus sp minor major i) [0..<CharacterSkillCount])"
proof -
  have sp: "unat sp \<le> 2" using assms(1) by (simp add: class_ids_ok_def word_le_nat_alt)
  then have range: "i < unat sp * 9 + 9 \<Longrightarrow> i < CharacterSkillCount" for i by (simp add: CharacterSkillCount_def)
  have div9: "(unat sp * 9 \<le> i \<and> i < unat sp * 9 + 9) = (i div 9 = unat sp)" for i
    by (simp add: div_range add.commute)
  have fav: "addEach 10 (map unat fav) attrs = Some (map (\<lambda>i. attrs ! i + attribute_bonus fav i) [0..<CharacterAttributeCount])"
    using assms addEach_Some [of "map unat fav" attrs 10]
    by (simp add: class_ids_ok_def id_list_ok_def attribute_bonus_def distinct_map inj_on_def)
  have step: "addEach a ids (map f [0..<CharacterSkillCount]) = Some (map (\<lambda>i. f i + (if i \<in> set ids then a else 0)) [0..<CharacterSkillCount])"
    if "\<forall>i \<in> set ids. i < CharacterSkillCount" "distinct ids" for a ids and f :: "nat \<Rightarrow> u16"
    using that addEach_Some [of ids "map f [0..<CharacterSkillCount]" a] by (simp cong: map_cong)
  have ids: "\<forall>i \<in> set (map unat minor). i < CharacterSkillCount" "distinct (map unat minor)"
    "\<forall>i \<in> set (map unat major). i < CharacterSkillCount" "distinct (map unat major)"
    using assms(1) by (auto simp: class_ids_ok_def id_list_ok_def distinct_map inj_on_def)
  have "skills = map ((!) skills) [0..<CharacterSkillCount]" using assms(3) map_nth [of skills] by simp
  then have sp5: "addEach 5 [unat sp * 9 ..< unat sp * 9 + 9] skills
      = Some (map (\<lambda>i. skills ! i + (if i div 9 = unat sp then 5 else 0)) [0..<CharacterSkillCount])"
    using step [of "[unat sp * 9 ..< unat sp * 9 + 9]" 5 "(!) skills"] range by (simp add: div9)
  show ?thesis unfolding addClass_def prod.case fav option.case sp5 step [OF ids(1,2)] step [OF ids(3,4)]
    by (simp add: skill_bonus_def add.assoc)
qed

lemma set_addSpells: "set (addSpells xs ys) = set xs \<union> set ys"
  by (induction xs ys rule: addSpells.induct) auto

lemma distinct_addSpells: "distinct xs \<Longrightarrow> distinct (addSpells xs ys)"
  by (induction xs ys rule: addSpells.induct) auto

text \<open>The specialization and the three lists of a chosen class, when the catalog knows it.\<close>

definition class_parts :: "CharacterContentCatalog \<Rightarrow> CharacterClass \<Rightarrow> (ClassSpecialization \<times> u8 list \<times> u8 list \<times> u8 list) option" where
  "class_parts c chosen = (case chosen of
     PredefinedClass i \<Rightarrow> map_option (\<lambda>d. (class_specialization d, class_favoredAttributes d, class_minorSkills d, class_majorSkills d)) (findClass c i)
   | CustomClass d \<Rightarrow> if validCustomClass d then Some (cc_specialization d, cc_favoredAttributes d, cc_minorSkills d, cc_majorSkills d) else None)"

lemma class_parts_ok: "content_ok c \<Longrightarrow> class_parts c chosen = Some (sp, fav, minor, major) \<Longrightarrow> class_ids_ok sp fav minor major"
  by (auto simp: class_parts_def findClass_ids validCustomClass_ids split: CharacterClass.splits if_splits)

lemma derive_Some:
  assumes "content_ok c" and "findRace c (app_race a) = Some r" and "class_parts c chosen = Some (sp, fav, minor, major)"
    and "findBirthsign c b = Some s"
  shows "derive c a chosen b = Some
    \<lparr>drv_attributes = map (\<lambda>i. (if app_sex a = Male then race_maleAttributes r else race_femaleAttributes r) ! i + attribute_bonus fav i)
       [0..<CharacterAttributeCount],
     drv_skills = map (\<lambda>i. baseSkill (race_skillBonuses r ! i) + skill_bonus sp minor major i) [0..<CharacterSkillCount],
     drv_spells = sort (addSpells (race_spells r) (sign_spells s))\<rparr>"
proof -
  let ?attrs = "if app_sex a = Male then race_maleAttributes r else race_femaleAttributes r"
  let ?skills = "map baseSkill (race_skillBonuses r)"
  have typed: "length ?attrs = CharacterAttributeCount" "length ?skills = CharacterSkillCount"
    using findRace_typed [OF assms(1,2)] by (auto simp: race_typed_def)
  note added = addClass_Some [OF class_parts_ok [OF assms(1,3)] typed]
  have "(case chosen of
           PredefinedClass ident \<Rightarrow> (case findClass c ident of None \<Rightarrow> None
             | Some d \<Rightarrow> addClass (class_specialization d) (class_favoredAttributes d) (class_minorSkills d) (class_majorSkills d) (?attrs, ?skills))
         | CustomClass d \<Rightarrow> addClass (cc_specialization d) (cc_favoredAttributes d) (cc_minorSkills d) (cc_majorSkills d) (?attrs, ?skills))
        = addClass sp fav minor major (?attrs, ?skills)"
    using assms(3) by (auto simp: class_parts_def split: CharacterClass.splits if_splits)
  with added assms(2,4) typed(2) show ?thesis unfolding derive_def Let_def by (simp cong: map_cong)
qed


section \<open>Profiles of a catalog\<close>

text \<open>
  What a reachable profile satisfies: \<^verbatim>\<open>restore\<close> accepts it unchanged, every selection is one
  the catalog offers, and the derived state is empty or the one the selections give.
\<close>

definition selections_ok :: "CharacterContentCatalog \<Rightarrow> CharacterAppearance option \<Rightarrow> CharacterClass option \<Rightarrow> BirthsignRecordId option \<Rightarrow> bool" where
  "selections_ok c a cl b \<longleftrightarrow>
     (case a of None \<Rightarrow> True | Some a \<Rightarrow> \<exists>r. findRace c (app_race a) = Some r \<and> a \<in> set (race_appearances r))
     \<and> (case cl of None \<Rightarrow> True | Some cl \<Rightarrow> class_parts c cl \<noteq> None)
     \<and> (case b of None \<Rightarrow> True | Some b \<Rightarrow> findBirthsign c b \<noteq> None)"

definition derived_ok :: "CharacterContentCatalog \<Rightarrow> CharacterProfile \<Rightarrow> bool" where
  "derived_ok c p \<longleftrightarrow> (\<forall>a cl b. prof_appearance p = Some a \<longrightarrow> prof_class p = Some cl \<longrightarrow> prof_birthsign p = Some b \<longrightarrow>
     (case cat_construction c of None \<Rightarrow> derive c a cl b = Some (prof_derived p) | Some constr \<Rightarrow> constr a cl b = Some (prof_derived p)))"

definition profile_ok :: "CharacterContentCatalog \<Rightarrow> CharacterProfile \<Rightarrow> bool" where
  "profile_ok c p \<longleftrightarrow> restoreProfile p = Some p \<and> selections_ok c (prof_appearance p) (prof_class p) (prof_birthsign p) \<and> derived_ok c p"

lemma restoreProfile_same: "restoreProfile p = Some q \<Longrightarrow> q = p"
  by (auto simp: restoreProfile_def split: if_splits option.splits CharacterClass.splits)

lemma fresh_ok: "profile_ok c freshProfile"
  by (simp add: profile_ok_def restoreProfile_def phaseValid_def Let_def freshProfile_def selections_ok_def derived_ok_def
      emptyDerivedState_def list_all_iff)

lemma selectChoice_ok:
  assumes "selectChoice c choice s = Inr s'" and "selections_ok c (sel_appearance s) (sel_class s) (sel_birthsign s)"
  shows "selections_ok c (sel_appearance s') (sel_class s') (sel_birthsign s')"
proof (cases choice)
  case (SetCharacterName n)
  with assms show ?thesis by (auto simp: selectChoice_def split: if_splits)
next
  case (SetCharacterAppearance a)
  with assms show ?thesis by (auto simp: selectChoice_def selections_ok_def split: if_split_asm option.split_asm)
next
  case (SetCharacterClass cl)
  with assms show ?thesis
    by (cases cl) (auto simp: selectChoice_def selections_ok_def class_parts_def split: if_split_asm option.split_asm)
next
  case (SetCharacterBirthsign b)
  with assms show ?thesis by (auto simp: selectChoice_def selections_ok_def split: if_split_asm option.split_asm)
next
  case CompleteCharacterCreation
  with assms show ?thesis by (auto simp: selectChoice_def split: if_splits)
qed

text \<open>\<open>derive\<close> never reads through a null pointer or past an array for selections the catalog offers.\<close>

lemma derive_defined:
  assumes "content_ok c" and "selections_ok c (Some a) (Some cl) (Some b)"
  shows "derive c a cl b \<noteq> None"
proof -
  from assms(2) obtain r where r: "findRace c (app_race a) = Some r" by (auto simp: selections_ok_def)
  from assms(2) obtain sp fav minor major where p: "class_parts c cl = Some (sp, fav, minor, major)" by (auto simp: selections_ok_def)
  from assms(2) obtain s where s: "findBirthsign c b = Some s" by (auto simp: selections_ok_def)
  show ?thesis using derive_Some [OF assms(1) r p s] by simp
qed

lemma deriveSelection_defined:
  assumes "content_ok c" and "selections_ok c (sel_appearance s) (sel_class s) (sel_birthsign s)"
  shows "deriveSelection c s \<noteq> None"
  using assms derive_defined [OF assms(1)]
  by (auto simp: deriveSelection_def split: option.splits prod.splits if_splits)

lemma deriveSelection_derived:
  "deriveSelection c s = Some (Inr (derived, inventory)) \<Longrightarrow> sel_name s \<noteq> [] \<Longrightarrow> sel_appearance s = Some a \<Longrightarrow>
     sel_class s = Some cl \<Longrightarrow> sel_birthsign s = Some b \<Longrightarrow>
     (case cat_construction c of None \<Rightarrow> derive c a cl b = Some derived | Some constr \<Rightarrow> constr a cl b = Some derived)"
  by (auto simp: deriveSelection_def split: option.splits if_splits)

lemma creation_cases:
  assumes "applyCharacterCreation p c cmd = Some (Inr q)"
  obtains s derived inventory where "prof_lifecycle p \<noteq> EstablishedCharacter" "cmd_expectedRevision cmd = prof_revision p"
    "next_value (prof_revision p) = Some (prof_revision q)" "selectChoice c (cmd_choice cmd) (selectionOf p) = Inr s"
    "deriveSelection c s = Some (Inr (derived, inventory))" "restoreProfile q = Some q"
    "q = \<lparr>prof_lifecycle = if sel_completing s then EstablishedCharacter else CreatingCharacter, prof_phase = sel_phase s,
       prof_name = sel_name s, prof_appearance = sel_appearance s, prof_class = sel_class s, prof_birthsign = sel_birthsign s,
       prof_derived = derived, prof_inventory = inventory, prof_revision = prof_revision q\<rparr>"
proof -
  from assms obtain r where r: "prof_lifecycle p \<noteq> EstablishedCharacter" "cmd_expectedRevision cmd = prof_revision p"
    "next_value (prof_revision p) = Some r"
    by (auto simp: applyCharacterCreation_def split: if_splits option.splits)
  with assms obtain s where s: "selectChoice c (cmd_choice cmd) (selectionOf p) = Inr s"
    by (cases "selectChoice c (cmd_choice cmd) (selectionOf p)") (auto simp: applyCharacterCreation_def)
  with assms r obtain derived inventory where d: "deriveSelection c s = Some (Inr (derived, inventory))"
    by (cases "deriveSelection c s") (auto simp: applyCharacterCreation_def split: sum.splits)
  let ?q = "\<lparr>prof_lifecycle = if sel_completing s then EstablishedCharacter else CreatingCharacter, prof_phase = sel_phase s,
       prof_name = sel_name s, prof_appearance = sel_appearance s, prof_class = sel_class s, prof_birthsign = sel_birthsign s,
       prof_derived = derived, prof_inventory = inventory, prof_revision = r\<rparr>"
  have "restoreProfile ?q = Some q" using assms r s d by (auto simp: applyCharacterCreation_def split: option.splits)
  moreover from restoreProfile_same [OF this] have "q = ?q" .
  ultimately show thesis using r s d by (intro that [of s derived inventory]) simp_all
qed

lemma selectionOf_simps [simp]:
  "sel_phase (selectionOf p) = prof_phase p" "sel_name (selectionOf p) = prof_name p" "sel_appearance (selectionOf p) = prof_appearance p"
  "sel_class (selectionOf p) = prof_class p" "sel_birthsign (selectionOf p) = prof_birthsign p" "sel_completing (selectionOf p) = False"
  by (simp_all add: selectionOf_def)

lemma restored_name: "restoreProfile q = Some q \<Longrightarrow> prof_birthsign q \<noteq> None \<Longrightarrow> prof_name q \<noteq> []"
  by (auto simp: restoreProfile_def phaseValid_def Let_def completeSelections_def split: if_splits CharacterCreationPhase.splits)

lemma apply_ok:
  assumes "content_ok c" and "profile_ok c p" and "applyCharacterCreation p c cmd = Some (Inr q)"
  shows "profile_ok c q"
proof (rule creation_cases [OF assms(3)])
  fix s derived inventory
  assume s: "selectChoice c (cmd_choice cmd) (selectionOf p) = Inr s" and d: "deriveSelection c s = Some (Inr (derived, inventory))"
    and restored: "restoreProfile q = Some q"
    and "q = \<lparr>prof_lifecycle = if sel_completing s then EstablishedCharacter else CreatingCharacter, prof_phase = sel_phase s,
       prof_name = sel_name s, prof_appearance = sel_appearance s, prof_class = sel_class s, prof_birthsign = sel_birthsign s,
       prof_derived = derived, prof_inventory = inventory, prof_revision = prof_revision q\<rparr>"
  then have q: "prof_name q = sel_name s" "prof_appearance q = sel_appearance s" "prof_class q = sel_class s" "prof_birthsign q = sel_birthsign s"
    "prof_derived q = derived" by (metis CharacterProfile.select_convs)+
  have "selections_ok c (sel_appearance s) (sel_class s) (sel_birthsign s)"
    using selectChoice_ok [OF s] assms(2) by (simp add: profile_ok_def)
  moreover have "derived_ok c q" unfolding derived_ok_def q
    using deriveSelection_derived [OF d] restored_name [OF restored] unfolding q by blast
  ultimately show ?thesis using restored by (simp add: profile_ok_def q)
qed

lemma apply_defined:
  assumes "content_ok c" and "profile_ok c p"
  shows "applyCharacterCreation p c cmd \<noteq> None"
proof -
  have "deriveSelection c s \<noteq> None" if "selectChoice c (cmd_choice cmd) (selectionOf p) = Inr s" for s
    using deriveSelection_defined [OF assms(1) selectChoice_ok [OF that]] assms(2) by (simp add: profile_ok_def)
  then show ?thesis by (auto simp: applyCharacterCreation_def split: option.splits sum.splits prod.splits)
qed


text \<open>A creation command as the server runs it: a refused command leaves the profile as it was.\<close>

definition creation_step :: "CharacterContentCatalog \<Rightarrow> CharacterProfile \<Rightarrow> CharacterCreationCommand \<Rightarrow> CharacterProfile" where
  "creation_step c p cmd = (case applyCharacterCreation p c cmd of Some (Inr q) \<Rightarrow> q | _ \<Rightarrow> p)"

interpretation creation: step_system "creation_step c" "\<lambda>p. content_ok c \<and> profile_ok c p" for c
  by unfold_locales (auto simp: creation_step_def intro: apply_ok split: option.splits sum.splits)

section \<open>The five steps of a creation\<close>

definition creation_commands :: "u8 list \<Rightarrow> CharacterAppearance \<Rightarrow> CharacterClass \<Rightarrow> BirthsignRecordId \<Rightarrow> CharacterCreationCommand list" where
  "creation_commands n a cl b =
     [\<lparr>cmd_expectedRevision = 1, cmd_choice = SetCharacterName n\<rparr>, \<lparr>cmd_expectedRevision = 2, cmd_choice = SetCharacterAppearance a\<rparr>,
      \<lparr>cmd_expectedRevision = 3, cmd_choice = SetCharacterClass cl\<rparr>, \<lparr>cmd_expectedRevision = 4, cmd_choice = SetCharacterBirthsign b\<rparr>,
      \<lparr>cmd_expectedRevision = 5, cmd_choice = CompleteCharacterCreation\<rparr>]"

definition creating :: "CharacterCreationPhase \<Rightarrow> u8 list \<Rightarrow> CharacterAppearance option \<Rightarrow> CharacterClass option \<Rightarrow> u64 \<Rightarrow> CharacterProfile" where
  "creating ph n a cl r = \<lparr>prof_lifecycle = CreatingCharacter, prof_phase = ph, prof_name = n, prof_appearance = a, prof_class = cl,
     prof_birthsign = None, prof_derived = emptyDerivedState, prof_inventory = [], prof_revision = r\<rparr>"

definition chosen_profile :: "CharacterLifecycle \<Rightarrow> CharacterCreationPhase \<Rightarrow> u8 list \<Rightarrow> CharacterAppearance \<Rightarrow> CharacterClass
   \<Rightarrow> BirthsignRecordId \<Rightarrow> CharacterDerivedState \<Rightarrow> StartingItem list \<Rightarrow> u64 \<Rightarrow> CharacterProfile" where
  "chosen_profile l ph n a cl b d items r = \<lparr>prof_lifecycle = l, prof_phase = ph, prof_name = n, prof_appearance = Some a,
     prof_class = Some cl, prof_birthsign = Some b, prof_derived = d, prof_inventory = items, prof_revision = r\<rparr>"

lemma next_numeral: "next_value 1 = Some 2" "next_value 2 = Some 3" "next_value 3 = Some 4" "next_value 4 = Some 5" "next_value 5 = Some 6"
  by (simp_all add: next_value_def u64_max_def)

lemmas creation_defs = creation_step_def applyCharacterCreation_def selectionOf_def selectChoice_def deriveSelection_def

lemma valid_text_nonempty: "isValidCharacterText n m \<Longrightarrow> n \<noteq> []"
  by (simp add: isValidCharacterText_def)

lemma class_partsE: "class_parts c cl \<noteq> None \<Longrightarrow>
    (case cl of PredefinedClass i \<Rightarrow> findClass c i \<noteq> None | CustomClass d \<Rightarrow> validCustomClass d)"
  by (auto simp: class_parts_def split: CharacterClass.splits if_splits)

lemma restore_creating:
  assumes "isValidCharacterText n MaximumCharacterNameBytes" and "r \<noteq> 1"
  shows "restoreProfile (creating AwaitingRace n None None r) = Some (creating AwaitingRace n None None r)"
    and "restoreProfile (creating AwaitingClass n (Some a) None r) = Some (creating AwaitingClass n (Some a) None r)"
    and "class_parts c cl \<noteq> None \<Longrightarrow>
      restoreProfile (creating AwaitingBirthsign n (Some a) (Some cl) r) = Some (creating AwaitingBirthsign n (Some a) (Some cl) r)"
  using assms valid_text_nonempty [OF assms(1)] class_partsE [of c cl]
  by (auto simp: restoreProfile_def creating_def phaseValid_def Let_def emptyDerivedState_def initial_def list_all_iff
      split: CharacterClass.splits)

lemma restore_chosen:
  assumes "isValidCharacterText n MaximumCharacterNameBytes" and "r \<noteq> 1" and "class_parts c cl \<noteq> None" and "content_ok c"
    and "(l, ph) \<in> {(CreatingCharacter, AwaitingReview), (EstablishedCharacter, Complete)}"
  shows "restoreProfile (chosen_profile l ph n a cl b d (cat_inventory c) r) =
    (if length (drv_spells d) \<le> MaximumStartingSpells then Some (chosen_profile l ph n a cl b d (cat_inventory c) r) else None)"
  using assms valid_text_nonempty [OF assms(1)] class_partsE [OF assms(3)]
  by (auto simp: restoreProfile_def chosen_profile_def phaseValid_def Let_def initial_def completeSelections_def content_ok_def
      split: CharacterClass.splits)

lemma name_step:
  assumes "isValidCharacterText n MaximumCharacterNameBytes"
  shows "creation_step c freshProfile \<lparr>cmd_expectedRevision = 1, cmd_choice = SetCharacterName n\<rparr> = creating AwaitingRace n None None 2"
  using assms restore_creating(1) [OF assms, of 2]
  by (simp add: creation_defs freshProfile_def initial_def next_numeral creating_def)

lemma appearance_step:
  assumes "isValidCharacterText n MaximumCharacterNameBytes" and "findRace c (app_race a) = Some r" and "a \<in> set (race_appearances r)"
  shows "creation_step c (creating AwaitingRace n None None 2) \<lparr>cmd_expectedRevision = 2, cmd_choice = SetCharacterAppearance a\<rparr>
    = creating AwaitingClass n (Some a) None 3"
  using assms restore_creating(2) [OF assms(1), of 3 a]
  by (simp add: creation_defs next_numeral creating_def)

lemma class_step:
  assumes "isValidCharacterText n MaximumCharacterNameBytes" and "class_parts c cl \<noteq> None"
  shows "creation_step c (creating AwaitingClass n (Some a) None 3) \<lparr>cmd_expectedRevision = 3, cmd_choice = SetCharacterClass cl\<rparr>
    = creating AwaitingBirthsign n (Some a) (Some cl) 4"
  using restore_creating(3) [OF assms(1), of 4 c cl a] assms(2) class_partsE [OF assms(2)]
  by (cases cl) (auto simp: creation_defs next_numeral creating_def)

text \<open>The derived state of a complete selection: the construction's where one is installed, else the catalog's own.\<close>

definition built_state :: "CharacterContentCatalog \<Rightarrow> CharacterAppearance \<Rightarrow> CharacterClass \<Rightarrow> BirthsignRecordId \<Rightarrow> CharacterDerivedState option" where
  "built_state c a cl b = (case cat_construction c of None \<Rightarrow> derive c a cl b | Some native \<Rightarrow> native a cl b)"

lemma birthsign_step:
  assumes "isValidCharacterText n MaximumCharacterNameBytes" and "class_parts c cl \<noteq> None" and "findBirthsign c b \<noteq> None" and "content_ok c"
  shows "creation_step c (creating AwaitingBirthsign n (Some a) (Some cl) 4) \<lparr>cmd_expectedRevision = 4, cmd_choice = SetCharacterBirthsign b\<rparr>
    = (case built_state c a cl b of
         Some d \<Rightarrow> if length (drv_spells d) \<le> MaximumStartingSpells
           then chosen_profile CreatingCharacter AwaitingReview n a cl b d (cat_inventory c) 5 else creating AwaitingBirthsign n (Some a) (Some cl) 4
       | None \<Rightarrow> creating AwaitingBirthsign n (Some a) (Some cl) 4)"
  using restore_chosen [OF assms(1) _ assms(2,4), of 5 CreatingCharacter AwaitingReview a b] assms valid_text_nonempty [OF assms(1)]
  by (auto simp: creation_defs next_numeral creating_def chosen_profile_def built_state_def split: option.splits)

lemma complete_step:
  assumes "isValidCharacterText n MaximumCharacterNameBytes" and "class_parts c cl \<noteq> None"
    and "content_ok c" and "built_state c a cl b = Some d" and "length (drv_spells d) \<le> MaximumStartingSpells"
  shows "creation_step c (chosen_profile CreatingCharacter AwaitingReview n a cl b d (cat_inventory c) 5)
      \<lparr>cmd_expectedRevision = 5, cmd_choice = CompleteCharacterCreation\<rparr>
    = chosen_profile EstablishedCharacter Complete n a cl b d (cat_inventory c) 6"
  using restore_chosen [OF assms(1) _ assms(2,3), of 6 EstablishedCharacter Complete a b d] assms valid_text_nonempty [OF assms(1)]
  by (auto simp: creation_defs next_numeral chosen_profile_def completeSelections_def built_state_def split: option.splits)

lemma complete_refused:
  "creation_step c (creating AwaitingBirthsign n a cl 4) \<lparr>cmd_expectedRevision = 5, cmd_choice = CompleteCharacterCreation\<rparr>
    = creating AwaitingBirthsign n a cl 4"
  by (simp add: creation_defs creating_def)


section \<open>Properties\<close>

text \<open>A catalog of one race, one class and one birthsign.\<close>

definition sample_appearance :: CharacterAppearance where
  "sample_appearance = \<lparr>app_race = 3, app_head = 11, app_hair = 12, app_sex = Male\<rparr>"

definition sample_race :: CharacterRaceDefinition where
  "sample_race = \<lparr>race_id = 3, race_appearances = [sample_appearance], race_femaleAttributes = replicate 8 30,
     race_maleAttributes = replicate 8 40, race_skillBonuses = replicate 26 5 @ [- 20], race_spells = [9, 4]\<rparr>"

definition sample_class :: CharacterClassDefinition where
  "sample_class = \<lparr>class_id = 5, class_specialization = 1, class_favoredAttributes = [0, 7], class_minorSkills = [9, 10, 11, 12, 13],
     class_majorSkills = [0, 1, 2, 3, 26]\<rparr>"

definition sample_sign :: CharacterBirthsignDefinition where
  "sample_sign = \<lparr>sign_id = 6, sign_spells = [4, 2]\<rparr>"

definition sample_spawn :: Transform where
  "sample_spawn = \<lparr>t_cell = InteriorCell 1, t_position = \<lparr>pos_x = 0, pos_y = 0, pos_z = 0\<rparr>,
     t_orientation = \<lparr>turn_x = 0, turn_y = 0, turn_z = 0\<rparr>\<rparr>"

definition sample_content :: CharacterContentCatalog where
  "sample_content = \<lparr>cat_manifest = [1], cat_creationSpawn = sample_spawn, cat_completionSpawn = sample_spawn, cat_races = [sample_race],
     cat_classes = [sample_class], cat_birthsigns = [sample_sign], cat_inventory = [\<lparr>start_prototype = 8, start_count = 2, start_slot = None\<rparr>],
     cat_construction = None\<rparr>"

lemma sample_texts [simp]: "isValidCharacterText validText MaximumCustomClassNameBytes" "isValidCharacterText validText MaximumCharacterNameBytes"
  by (simp_all add: isValidCharacterText_def validText_def MaximumCustomClassNameBytes_def MaximumCharacterNameBytes_def)

lemma sample_created:
  "createCharacterContentCatalog [1] sample_spawn sample_spawn [sample_race] [sample_class] [sample_sign]
     [\<lparr>start_prototype = 8, start_count = 2, start_slot = None\<rparr>] = Some sample_content \<and> list_all race_typed [sample_race]"
proof -
  have "classConsistent sample_class"
    by (simp add: classConsistent_def validCustomClass_iff sample_class_def id_list_ok_def CharacterAttributeCount_def CharacterSkillCount_def)
  moreover have "raceConsistent sample_race"
    by (simp add: raceConsistent_def sample_race_def sample_appearance_def MaximumRaceAppearances_def MaximumStartingSpells_def)
  ultimately show ?thesis
    by (simp add: createCharacterContentCatalog_def sample_content_def sample_race_def race_typed_def sample_sign_def
        startingItemRejected_def MaximumCharacterSelections_def MaximumStartingItems_def MaximumStartingSpells_def
        MaximumRaceAppearances_def MaximumCharacterAppearances_def CharacterAttributeCount_def CharacterSkillCount_def)
qed

lemma sample_finds:
  "findRace sample_content 3 = Some sample_race" "class_parts sample_content (PredefinedClass 5) = Some (1, [0, 7], [9, 10, 11, 12, 13], [0, 1, 2, 3, 26])"
  "findBirthsign sample_content 6 = Some sample_sign"
  by (simp_all add: findRace_def findClass_def findBirthsign_def class_parts_def sample_content_def lookup_key_def find_key_def lower_bound_def
      sample_race_def sample_class_def sample_sign_def)

text \<open>
  In a catalog that was accepted, the state derived for a race, a class and a birthsign of it is
  always computed without reading past an array: every attribute is the race's value for the sex plus
  ten when favored, every skill the race's base plus five for the specialization, ten as a minor and
  twenty-five as a major skill, and the spells are those of the race and of the birthsign in order.
\<close>

theorem derive_computes:
  assumes "createCharacterContentCatalog m sp sp' races classes signs items = Some c" and "list_all race_typed races"
    and "findRace c (app_race a) = Some r" and "class_parts c chosen = Some (special, favored, minor, major)"
    and "findBirthsign c b = Some s"
  shows "\<exists>d. derive c a chosen b = Some d
    \<and> (\<forall>i < CharacterAttributeCount. drv_attributes d ! i =
         (if app_sex a = Male then race_maleAttributes r else race_femaleAttributes r) ! i + (if i \<in> unat ` set favored then 10 else 0))
    \<and> (\<forall>i < CharacterSkillCount. drv_skills d ! i = baseSkill (race_skillBonuses r ! i)
         + (if i div 9 = unat special then 5 else 0) + (if i \<in> unat ` set minor then 10 else 0) + (if i \<in> unat ` set major then 25 else 0))
    \<and> sorted (drv_spells d) \<and> set (drv_spells d) = set (race_spells r) \<union> set (sign_spells s)
    \<and> (distinct (race_spells r) \<longrightarrow> distinct (drv_spells d))"
proof -
  have "content_ok c" using create_content_ok [OF assms(1,2), of "cat_construction c"] by (simp add: withConstruction_def)
  from derive_Some [OF this assms(3-5)] show ?thesis
    by (auto simp: attribute_bonus_def skill_bonus_def add.assoc set_addSpells distinct_addSpells)
qed

theorem derive_computes_witness:
  "\<exists>d. derive sample_content sample_appearance (PredefinedClass 5) 6 = Some d \<and> drv_attributes d ! 7 = 50 \<and> drv_skills d ! 9 = 25
     \<and> drv_skills d ! 26 = 25 \<and> sorted (drv_spells d) \<and> set (drv_spells d) = {9, 4, 2} \<and> distinct (drv_spells d)"
proof -
  have a: "findRace sample_content (app_race sample_appearance) = Some sample_race" using sample_finds(1) by (simp add: sample_appearance_def)
  obtain d where d: "derive sample_content sample_appearance (PredefinedClass 5) 6 = Some d"
    and attrs: "\<forall>i < CharacterAttributeCount. drv_attributes d ! i =
         (if app_sex sample_appearance = Male then race_maleAttributes sample_race else race_femaleAttributes sample_race) ! i
         + (if i \<in> unat ` set [0, 7 :: u8] then 10 else 0)"
    and skills: "\<forall>i < CharacterSkillCount. drv_skills d ! i = baseSkill (race_skillBonuses sample_race ! i)
         + (if i div 9 = unat (1 :: u8) then 5 else 0) + (if i \<in> unat ` set [9, 10, 11, 12, 13 :: u8] then 10 else 0)
         + (if i \<in> unat ` set [0, 1, 2, 3, 26 :: u8] then 25 else 0)"
    and spells: "sorted (drv_spells d)" "set (drv_spells d) = set (race_spells sample_race) \<union> set (sign_spells sample_sign)"
      "distinct (race_spells sample_race) \<longrightarrow> distinct (drv_spells d)"
    using derive_computes [OF sample_created [THEN conjunct1] sample_created [THEN conjunct2] a sample_finds(2,3)] by (elim exE conjE)
  have "drv_attributes d ! 7 = 50" using attrs [rule_format, of 7]
    by (simp add: CharacterAttributeCount_def sample_appearance_def sample_race_def)
  moreover have "drv_skills d ! 9 = 25" using skills [rule_format, of 9]
    by (simp add: CharacterSkillCount_def sample_race_def baseSkill_def nth_append)
  moreover have "drv_skills d ! 26 = 25" using skills [rule_format, of 26]
    by (simp add: CharacterSkillCount_def sample_race_def baseSkill_def nth_append)
  moreover have "set (drv_spells d) = {9, 4, 2}" "distinct (drv_spells d)" using spells(2,3) by (auto simp: sample_race_def sample_sign_def)
  ultimately show ?thesis using d spells(1) by blast
qed

text \<open>
  C24. Whatever commands a client sends, and whatever construction the application supplies, the
  profile stays one that \<^verbatim>\<open>restore\<close> accepts unchanged, its selections stay ones the catalog
  offers, its derived state is the one they give, and the next command never reads through a null pointer.
\<close>

theorem creation_reachable_ok:
  assumes "createCharacterContentCatalog m sp sp' races classes signs items = Some c0" and "list_all race_typed races"
    and "c = withConstruction c0 constr" and "p = foldl (creation_step c) freshProfile cmds"
  shows "restoreProfile p = Some p \<and> selections_ok c (prof_appearance p) (prof_class p) (prof_birthsign p) \<and> derived_ok c p
    \<and> applyCharacterCreation p c cmd \<noteq> None"
proof -
  have c: "content_ok c" using create_content_ok [OF assms(1,2)] assms(3) by simp
  then have "profile_ok c p" using creation.inv_run [of c freshProfile cmds] fresh_ok assms(4) by blast
  with apply_defined [OF c this] show ?thesis by (simp add: profile_ok_def)
qed

definition sample_run :: "CharacterContentCatalog \<Rightarrow> CharacterProfile" where
  "sample_run c = foldl (creation_step c) freshProfile (creation_commands validText sample_appearance (PredefinedClass 5) 6)"

theorem creation_reachable_ok_witness:
  "restoreProfile (sample_run (withConstruction sample_content (Some (\<lambda>a cl b. None))))
     = Some (sample_run (withConstruction sample_content (Some (\<lambda>a cl b. None))))"
  by (rule creation_reachable_ok [OF sample_created [THEN conjunct1] sample_created [THEN conjunct2] refl sample_run_def, THEN conjunct1])

text \<open>
  C33. A client that sends a valid name, an appearance, a class and a birthsign the catalog offers, and
  then completes, ends with an established character with exactly these selections, the built state
  and the catalog's items at revision six, precisely when a state is built and has no more than the
  permitted number of starting spells; otherwise the birthsign is refused and the character waits for one.
  Where the application supplies a construction, it builds the state or refuses to. Without one the
  state derived from the catalog is always there, and its spells are those of race and birthsign
  together, which an accepted catalog does not bound.
\<close>

theorem creation_completes:
  assumes "createCharacterContentCatalog m sp sp' races classes signs items = Some c0" and "list_all race_typed races"
    and "c = withConstruction c0 constr"
    and "isValidCharacterText n MaximumCharacterNameBytes" and "findRace c (app_race a) = Some r" and "a \<in> set (race_appearances r)"
    and "class_parts c cl \<noteq> None" and "findBirthsign c b = Some s"
  shows "foldl (creation_step c) freshProfile (creation_commands n a cl b) =
      (case (case constr of None \<Rightarrow> derive c a cl b | Some native \<Rightarrow> native a cl b) of
         Some d \<Rightarrow> if length (drv_spells d) \<le> MaximumStartingSpells
           then chosen_profile EstablishedCharacter Complete n a cl b d (cat_inventory c) 6
           else creating AwaitingBirthsign n (Some a) (Some cl) 4
       | None \<Rightarrow> creating AwaitingBirthsign n (Some a) (Some cl) 4)
    \<and> (\<exists>d. derive c a cl b = Some d \<and> length (drv_spells d) = length (addSpells (race_spells r) (sign_spells s)))"
proof
  have ok: "content_ok c" using create_content_ok [OF assms(1,2)] assms(3) by simp
  obtain special favored minor major where parts: "class_parts c cl = Some (special, favored, minor, major)" using assms(7) by auto
  show "\<exists>d. derive c a cl b = Some d \<and> length (drv_spells d) = length (addSpells (race_spells r) (sign_spells s))"
    using derive_Some [OF ok assms(5) parts assms(8)] by simp
  have b: "findBirthsign c b \<noteq> None" using assms(8) by simp
  note steps = name_step [OF assms(4), of c] appearance_step [OF assms(4-6)] class_step [OF assms(4,7)]
    birthsign_step [OF assms(4,7) b ok]
  have installed: "cat_construction c = constr" by (simp add: assms(3) withConstruction_def)
  have built: "(case constr of None \<Rightarrow> derive c a cl b | Some native \<Rightarrow> native a cl b) = built_state c a cl b"
    using installed by (simp add: built_state_def)
  show "foldl (creation_step c) freshProfile (creation_commands n a cl b) =
      (case (case constr of None \<Rightarrow> derive c a cl b | Some native \<Rightarrow> native a cl b) of
         Some d \<Rightarrow> if length (drv_spells d) \<le> MaximumStartingSpells
           then chosen_profile EstablishedCharacter Complete n a cl b d (cat_inventory c) 6
           else creating AwaitingBirthsign n (Some a) (Some cl) 4
       | None \<Rightarrow> creating AwaitingBirthsign n (Some a) (Some cl) 4)"
    unfolding built using complete_step [OF assms(4,7) ok]
    by (simp add: creation_commands_def steps complete_refused split: option.split)
qed

theorem creation_completes_witness:
  "(\<exists>d. foldl (creation_step sample_content) freshProfile (creation_commands validText sample_appearance (PredefinedClass 5) 6)
     = chosen_profile EstablishedCharacter Complete validText sample_appearance (PredefinedClass 5) 6 d (cat_inventory sample_content) 6)"
proof -
  have a: "findRace sample_content (app_race sample_appearance) = Some sample_race" using sample_finds(1) by (simp add: sample_appearance_def)
  have same: "sample_content = withConstruction sample_content None" by (simp add: withConstruction_def sample_content_def)
  have "sample_appearance \<in> set (race_appearances sample_race)" "class_parts sample_content (PredefinedClass 5) \<noteq> None"
    "length (addSpells (race_spells sample_race) (sign_spells sample_sign)) \<le> MaximumStartingSpells"
    by (simp_all add: sample_race_def sample_sign_def sample_finds MaximumStartingSpells_def)
  with creation_completes [OF sample_created [THEN conjunct1] sample_created [THEN conjunct2] same sample_texts(2) a _ _ sample_finds(3),
      of "PredefinedClass 5"] show ?thesis by auto
qed

end
