(* ===== verification/Player_Identity.thy ===== *)
theory Player_Identity
  imports Character_Profile Canonical_State
begin

text \<open>
  The registry of persistent player identities (\<^verbatim>\<open>player_identity.hpp\<close> and
  \<^verbatim>\<open>server_core/player_identity.cpp\<close>). A new identity and a step of a character creation are made in
  two phases: a preparation, a commit that writes to the persistence, and a finalization or a
  rollback. What a call of the persistence returns is an argument (\<open>written\<close>); the list it last
  accepted is the field \<open>reg_durable\<close>, which the source does not keep. Random bytes of a call are
  an argument, digest and comparison come from the cryptographic library.
\<close>

section \<open>Model\<close>

definition MaximumPlayerIdentityRecords :: nat where
  "MaximumPlayerIdentityRecords = 256"

definition PlayerCredentialBytes :: nat where
  "PlayerCredentialBytes = 32"

definition MinimumPlayerUsernameBytes :: nat where
  "MinimumPlayerUsernameBytes = 3"

definition MaximumPlayerUsernameBytes :: nat where
  "MaximumPlayerUsernameBytes = 32"

type_synonym PlayerCredential = "u8 list"

record PlayerClaim =
  claim_player :: PlayerId
  claim_entity :: EntityId
  claim_appearance :: AppearanceId
  claim_manifest :: ContentManifestId

record PersistedPlayerIdentity =
  pid_claim :: PlayerClaim
  pid_digest :: CredentialDigest
  pid_saved :: "CanonicalPlayerEntityState option"
  pid_profile :: CharacterProfile
  pid_username :: "u8 list"

datatype PlayerIdentityError =
  IdentitiesFull | IdentityExhausted | IdentityRandomUnavailable | IdentityDigestUnavailable | IdentityDigestCollision
| InvalidIdentityState | PreparationPending | StaleIdentityPreparation | IdentityPersistenceFailed | RollbackFailed

record PendingIdentity =
  pin_id :: u64
  pin_record :: PersistedPlayerIdentity
  pin_credential :: PlayerCredential

record CommittedIdentity =
  cin_id :: u64
  cin_prior :: "PersistedPlayerIdentity list"
  cin_priorNextPlayer :: PlayerId
  cin_priorNextEntity :: EntityId
  cin_priorExhausted :: bool

record PendingCharacterProfile =
  pcp_id :: u64
  pcp_prior :: "PersistedPlayerIdentity list"
  pcp_candidate :: "PersistedPlayerIdentity list"
  pcp_profile :: CharacterProfile
  pcp_durable :: bool

record CommittedCharacterProfile =
  ccp_id :: u64
  ccp_prior :: "PersistedPlayerIdentity list"
  ccp_durable :: bool

record PlayerIdentityRegistry =
  reg_records :: "PersistedPlayerIdentity list"
  reg_reserved :: "EntityId list"
  reg_nextPlayer :: PlayerId
  reg_nextEntity :: EntityId
  reg_pending :: "PendingIdentity option"
  reg_committed :: "CommittedIdentity option"
  reg_pendingProfile :: "PendingCharacterProfile option"
  reg_committedProfile :: "CommittedCharacterProfile option"
  reg_nextPreparationId :: u64
  reg_exhausted :: bool
  reg_durable :: "PersistedPlayerIdentity list"

abbreviation record_player :: "PersistedPlayerIdentity \<Rightarrow> PlayerId" where
  "record_player r \<equiv> claim_player (pid_claim r)"

abbreviation record_entity :: "PersistedPlayerIdentity \<Rightarrow> EntityId" where
  "record_entity r \<equiv> claim_entity (pid_claim r)"

abbreviation record_established :: "PersistedPlayerIdentity \<Rightarrow> bool" where
  "record_established r \<equiv> prof_lifecycle (pid_profile r) = EstablishedCharacter"

definition usernameByte :: "u8 \<Rightarrow> bool" where
  "usernameByte value \<longleftrightarrow> value \<ge> 0x61 \<and> value \<le> 0x7a \<or> value \<ge> 0x41 \<and> value \<le> 0x5a \<or> value \<ge> 0x30 \<and> value \<le> 0x39 \<or> value = 0x5f"

definition isValidPlayerUsername :: "u8 list \<Rightarrow> bool" where
  "isValidPlayerUsername username \<longleftrightarrow>
     \<not> (length username < MinimumPlayerUsernameBytes \<or> length username > MaximumPlayerUsernameBytes) \<and> list_all usernameByte username"

definition durableRecord :: "PersistedPlayerIdentity \<Rightarrow> PersistedPlayerIdentity" where
  "durableRecord r = (if record_established r then r else r\<lparr>pid_profile := freshProfile, pid_saved := None\<rparr>)"

definition durableRecords :: "PersistedPlayerIdentity list \<Rightarrow> PersistedPlayerIdentity list" where
  "durableRecords live = map durableRecord live"

text \<open>\<^verbatim>\<open>std::tolower\<close> in the default locale.\<close>

definition tolower :: "u8 \<Rightarrow> u8" where
  "tolower b = (if b \<ge> 0x41 \<and> b \<le> 0x5a then b + 0x20 else b)"

definition recordHasUsername :: "PersistedPlayerIdentity \<Rightarrow> u8 list \<Rightarrow> bool" where
  "recordHasUsername r name \<longleftrightarrow>
     (if pid_username r = [] \<or> length (pid_username r) \<noteq> length name then False
      else list_all2 (\<lambda>a b. tolower a = tolower b) (pid_username r) name)"

definition hasUsername :: "PlayerIdentityRegistry \<Rightarrow> u8 list \<Rightarrow> bool" where
  "hasUsername reg username \<longleftrightarrow> (if username = [] then False else list_ex (\<lambda>r. recordHasUsername r username) (reg_records reg))"

text \<open>The identifier at or after \<open>entity\<close> that is not reserved, \<open>None\<close> when the identifiers run out.\<close>

function skipReserved :: "EntityId list \<Rightarrow> EntityId \<Rightarrow> EntityId option" where
  "skipReserved reservedIds entity =
     (if binary_search reservedIds entity
      then (case next_value entity of None \<Rightarrow> None | Some entity' \<Rightarrow> skipReserved reservedIds entity')
      else Some entity)"
  by pat_completeness auto
termination
proof (relation "measure (\<lambda>(reservedIds, entity). 2 ^ 64 - unat entity)", simp)
  fix reservedIds and entity entity' :: u64
  assume "next_value entity = Some entity'"
  then have "unat entity' = Suc (unat entity)" by (rule next_value_unat)
  then show "((reservedIds, entity'), reservedIds, entity) \<in> measure (\<lambda>(reservedIds, entity). 2 ^ 64 - unat entity)"
    using unat_lt_u64 [of entity'] by (simp del: unat_lt_u64)
qed

text \<open>What \<^verbatim>\<open>create\<close> checks of a record against those before it.\<close>

definition initialRecordRejected :: "EntityId list \<Rightarrow> PersistedPlayerIdentity list \<Rightarrow> PersistedPlayerIdentity \<Rightarrow> bool" where
  "initialRecordRejected reservedIds previous r \<longleftrightarrow>
     pid_username r \<noteq> [] \<and> \<not> isValidPlayerUsername (pid_username r)
     \<or> \<not> record_established r \<and> pid_profile r \<noteq> freshProfile
     \<or> record_established r \<noteq> (pid_saved r \<noteq> None)
     \<or> (case pid_saved r of None \<Rightarrow> False
        | Some saved \<Rightarrow> playerId saved \<noteq> record_player r \<or> entityId saved \<noteq> record_entity r
            \<or> appearanceId saved \<noteq> claim_appearance (pid_claim r))
     \<or> previous \<noteq> [] \<and> record_player (last previous) = record_player r
     \<or> list_ex (\<lambda>p. record_entity p = record_entity r \<or> pid_digest p = pid_digest r) previous
     \<or> pid_username r \<noteq> [] \<and> list_ex (\<lambda>p. recordHasUsername p (pid_username r)) previous
     \<or> binary_search reservedIds (record_entity r)"

fun initialRecordsValid :: "EntityId list \<Rightarrow> PersistedPlayerIdentity list \<Rightarrow> PersistedPlayerIdentity list \<Rightarrow> bool" where
  "initialRecordsValid reservedIds previous [] = True"
| "initialRecordsValid reservedIds previous (r # rest) =
     (if initialRecordRejected reservedIds previous r then False else initialRecordsValid reservedIds (previous @ [r]) rest)"

definition createRegistry :: "PersistedPlayerIdentity list \<Rightarrow> EntityId list \<Rightarrow> PlayerIdentityError + PlayerIdentityRegistry" where
  "createRegistry initialRecords reservedEntityIds =
     (if length initialRecords > MaximumPlayerIdentityRecords then Inl InvalidIdentityState
      else
        let reservedIds = sort reservedEntityIds;
            records = sort_key record_player initialRecords
        in if \<not> no_adjacent_equal reservedIds then Inl InvalidIdentityState
           else if \<not> initialRecordsValid reservedIds [] records then Inl InvalidIdentityState
           else
             let maximumPlayer = foldl max 0 (map record_player records);
                 maximumEntity = foldl max 0 (map record_entity records)
             in if maximumPlayer = u64_max \<or> maximumEntity = u64_max then Inl IdentityExhausted
                else
                  (case skipReserved reservedIds (if maximumEntity = 0 then 1 else maximumEntity + 1) of
                     None \<Rightarrow> Inl IdentityExhausted
                   | Some nextEntity \<Rightarrow>
                     Inr \<lparr>reg_records = records, reg_reserved = reservedIds,
                          reg_nextPlayer = (if maximumPlayer = 0 then 1 else maximumPlayer + 1), reg_nextEntity = nextEntity,
                          reg_pending = None, reg_committed = None, reg_pendingProfile = None, reg_committedProfile = None,
                          reg_nextPreparationId = 1, reg_exhausted = False, reg_durable = records\<rparr>))"

definition advanceIdentities :: "PlayerIdentityRegistry \<Rightarrow> PlayerIdentityRegistry \<times> bool" where
  "advanceIdentities reg =
     (let nextPlayer = next_value (reg_nextPlayer reg);
          nextEntity = (case next_value (reg_nextEntity reg) of None \<Rightarrow> None | Some e \<Rightarrow> skipReserved (reg_reserved reg) e)
      in case (nextPlayer, nextEntity) of
           (Some p, Some e) \<Rightarrow> (reg\<lparr>reg_nextPlayer := p, reg_nextEntity := e\<rparr>, True)
         | _ \<Rightarrow> (reg\<lparr>reg_exhausted := True\<rparr>, False))"

definition registryBusy :: "PlayerIdentityRegistry \<Rightarrow> bool" where
  "registryBusy reg \<longleftrightarrow> reg_pending reg \<noteq> None \<or> reg_committed reg \<noteq> None \<or> reg_pendingProfile reg \<noteq> None \<or> reg_committedProfile reg \<noteq> None"

section \<open>New identities\<close>

definition prepareCreate ::
  "CredentialCrypto \<Rightarrow> PlayerIdentityRegistry \<Rightarrow> ContentManifest \<Rightarrow> PlayerCredential option \<Rightarrow> u8 list \<Rightarrow> u8 list option
   \<Rightarrow> PlayerIdentityRegistry \<times> (PlayerIdentityError + u64 \<times> PlayerClaim)" where
  "prepareCreate crypto reg contentManifest providedCredential username random =
     (if registryBusy reg then (reg, Inl PreparationPending)
      else if length (reg_records reg) \<ge> MaximumPlayerIdentityRecords then (reg, Inl IdentitiesFull)
      else if reg_exhausted reg \<or> reg_nextPreparationId reg = 0 then (reg, Inl IdentityExhausted)
      else if username \<noteq> [] \<and> (\<not> isValidPlayerUsername username \<or> hasUsername reg username) then (reg, Inl InvalidIdentityState)
      else
        (case (case providedCredential of Some credential \<Rightarrow> Some credential | None \<Rightarrow> random) of
           None \<Rightarrow> (reg, Inl IdentityRandomUnavailable)
         | Some credential \<Rightarrow>
           (case sha256 crypto credential of
              None \<Rightarrow> (reg, Inl IdentityDigestUnavailable)
            | Some digestValue \<Rightarrow>
              if list_ex (\<lambda>r. pid_digest r = digestValue) (reg_records reg) then (reg, Inl IdentityDigestCollision)
              else
                let claim = \<lparr>claim_player = reg_nextPlayer reg, claim_entity = reg_nextEntity reg,
                             claim_appearance = mDefaultAppearance contentManifest, claim_manifest = mId contentManifest\<rparr>;
                    ident = reg_nextPreparationId reg;
                    r = \<lparr>pid_claim = claim, pid_digest = digestValue, pid_saved = None, pid_profile = freshProfile,
                         pid_username = username\<rparr>
                in (reg\<lparr>reg_nextPreparationId := ident + 1,
                        reg_pending := Some \<lparr>pin_id = ident, pin_record = r, pin_credential = credential\<rparr>\<rparr>,
                    Inr (ident, claim)))))"

definition copyPreparedCredential :: "PlayerIdentityRegistry \<Rightarrow> u64 \<Rightarrow> PlayerCredential option" where
  "copyPreparedCredential reg preparationId =
     (case reg_pending reg of
        None \<Rightarrow> None
      | Some p \<Rightarrow> if pin_id p \<noteq> preparationId then None else Some (pin_credential p))"

definition commitIdentity :: "PlayerIdentityRegistry \<Rightarrow> u64 \<Rightarrow> bool \<Rightarrow> PlayerIdentityRegistry \<times> bool" where
  "commitIdentity reg preparationId written =
     (case reg_pending reg of
        None \<Rightarrow> (reg, False)
      | Some p \<Rightarrow>
        if pin_id p \<noteq> preparationId \<or> reg_committed reg \<noteq> None then (reg, False)
        else
          let candidate = sort_key record_player (reg_records reg @ [pin_record p]);
              committed = \<lparr>cin_id = preparationId, cin_prior = reg_records reg, cin_priorNextPlayer = reg_nextPlayer reg,
                           cin_priorNextEntity = reg_nextEntity reg, cin_priorExhausted = reg_exhausted reg\<rparr>
          in if \<not> written then (reg, False)
             else ((fst (advanceIdentities (reg\<lparr>reg_durable := durableRecords candidate, reg_committed := Some committed,
                                               reg_records := candidate\<rparr>)))\<lparr>reg_pending := None\<rparr>, True))"

definition finalizeIdentity :: "PlayerIdentityRegistry \<Rightarrow> u64 \<Rightarrow> PlayerIdentityRegistry \<times> bool" where
  "finalizeIdentity reg preparationId =
     (case reg_committed reg of
        None \<Rightarrow> (reg, False)
      | Some c \<Rightarrow> if cin_id c \<noteq> preparationId then (reg, False) else (reg\<lparr>reg_committed := None\<rparr>, True))"

definition rollbackIdentity :: "PlayerIdentityRegistry \<Rightarrow> u64 \<Rightarrow> bool \<Rightarrow> PlayerIdentityRegistry \<times> bool" where
  "rollbackIdentity reg preparationId written =
     (case reg_committed reg of
        None \<Rightarrow> (reg, False)
      | Some c \<Rightarrow>
        if cin_id c \<noteq> preparationId \<or> \<not> written then (reg, False)
        else (reg\<lparr>reg_durable := durableRecords (cin_prior c), reg_records := cin_prior c, reg_nextPlayer := cin_priorNextPlayer c,
                  reg_nextEntity := cin_priorNextEntity c, reg_exhausted := cin_priorExhausted c, reg_committed := None\<rparr>, True))"

definition cancelIdentity :: "PlayerIdentityRegistry \<Rightarrow> u64 \<Rightarrow> PlayerIdentityRegistry \<times> bool" where
  "cancelIdentity reg preparationId =
     (case reg_pending reg of
        None \<Rightarrow> (reg, False)
      | Some p \<Rightarrow> if pin_id p \<noteq> preparationId then (reg, False) else (reg\<lparr>reg_pending := None\<rparr>, True))"

fun authenticateIn :: "CredentialCrypto \<Rightarrow> CredentialDigest \<Rightarrow> ContentManifestId \<Rightarrow> u8 list \<Rightarrow> PersistedPlayerIdentity list \<Rightarrow> PlayerClaim option" where
  "authenticateIn crypto digestValue contentManifest username [] = None"
| "authenticateIn crypto digestValue contentManifest username (r # rest) =
     (if claim_manifest (pid_claim r) \<noteq> contentManifest then authenticateIn crypto digestValue contentManifest username rest
      else if username \<noteq> [] \<and> \<not> recordHasUsername r username then authenticateIn crypto digestValue contentManifest username rest
      else if constantTimeEqual crypto (pid_digest r) digestValue then Some (pid_claim r)
      else authenticateIn crypto digestValue contentManifest username rest)"

definition authenticatePlayer ::
  "CredentialCrypto \<Rightarrow> PlayerIdentityRegistry \<Rightarrow> PlayerCredential \<Rightarrow> ContentManifestId \<Rightarrow> u8 list \<Rightarrow> PlayerClaim option" where
  "authenticatePlayer crypto reg credential contentManifest username =
     (case sha256 crypto credential of
        None \<Rightarrow> None
      | Some digestValue \<Rightarrow> authenticateIn crypto digestValue contentManifest username (reg_records reg))"

section \<open>Saved players\<close>

definition findRecord :: "PersistedPlayerIdentity list \<Rightarrow> PlayerId \<Rightarrow> nat option" where
  "findRecord records player = find_index (\<lambda>r. record_player r = player) records"

definition savedPlayer :: "PlayerIdentityRegistry \<Rightarrow> PlayerId \<Rightarrow> CanonicalPlayerEntityState option" where
  "savedPlayer reg player =
     (case findRecord (reg_records reg) player of None \<Rightarrow> None | Some i \<Rightarrow> pid_saved (reg_records reg ! i))"

fun saveEach ::
  "PersistedPlayerIdentity list \<Rightarrow> PlayerId list \<Rightarrow> bool \<Rightarrow> CanonicalPlayerEntityState list
   \<Rightarrow> (PersistedPlayerIdentity list \<times> bool) option" where
  "saveEach candidate seen changed [] = Some (candidate, changed)"
| "saveEach candidate seen changed (player # rest) =
     (if playerId player \<in> set seen then None
      else (case find_index (\<lambda>r. record_player r = playerId player \<and> record_entity r = entityId player
                               \<and> claim_appearance (pid_claim r) = appearanceId player) candidate of
              None \<Rightarrow> None
            | Some i \<Rightarrow>
              if \<not> record_established (candidate ! i) then saveEach candidate (seen @ [playerId player]) changed rest
              else saveEach (candidate[i := (candidate ! i)\<lparr>pid_saved := Some player\<rparr>]) (seen @ [playerId player]) True rest))"

definition savePlayers :: "PlayerIdentityRegistry \<Rightarrow> CanonicalPlayerEntityState list \<Rightarrow> bool \<Rightarrow> PlayerIdentityRegistry \<times> bool" where
  "savePlayers reg saved written =
     (if registryBusy reg \<or> saved = [] then (reg, False)
      else (case saveEach (reg_records reg) [] False saved of
              None \<Rightarrow> (reg, False)
            | Some (candidate, changed) \<Rightarrow>
              if \<not> changed then (reg, True)
              else if \<not> written then (reg, False)
              else (reg\<lparr>reg_durable := durableRecords candidate, reg_records := candidate\<rparr>, True)))"

definition savePlayer :: "PlayerIdentityRegistry \<Rightarrow> CanonicalPlayerEntityState \<Rightarrow> bool \<Rightarrow> PlayerIdentityRegistry \<times> bool" where
  "savePlayer reg player written = savePlayers reg [player] written"

section \<open>Characters\<close>

definition characterProfile :: "PlayerIdentityRegistry \<Rightarrow> PlayerId \<Rightarrow> CharacterProfile option" where
  "characterProfile reg player = map_option (\<lambda>i. pid_profile (reg_records reg ! i)) (findRecord (reg_records reg) player)"

definition restartIncompleteCharacter :: "PlayerIdentityRegistry \<Rightarrow> PlayerId \<Rightarrow> PlayerIdentityRegistry \<times> bool" where
  "restartIncompleteCharacter reg player =
     (if registryBusy reg then (reg, False)
      else (case findRecord (reg_records reg) player of
              None \<Rightarrow> (reg, False)
            | Some i \<Rightarrow>
              let r = reg_records reg ! i
              in if record_established r then (reg, True)
                 else (reg\<lparr>reg_records := (reg_records reg)[i := r\<lparr>pid_profile := freshProfile, pid_saved := None\<rparr>]\<rparr>, True)))"

text \<open>The outer option is \<open>None\<close> where \<^verbatim>\<open>applyCharacterCreation\<close> is undefined.\<close>

definition prepareCharacterCreation ::
  "PlayerIdentityRegistry \<Rightarrow> PlayerId \<Rightarrow> CharacterContentCatalog \<Rightarrow> CharacterCreationCommand \<Rightarrow> CanonicalPlayerEntityState option
   \<Rightarrow> (PlayerIdentityRegistry \<times> (CharacterProfileError + u64 \<times> CharacterProfile)) option" where
  "prepareCharacterCreation reg player catalog command completionCheckpoint =
     (if registryBusy reg \<or> reg_nextPreparationId reg = 0 then Some (reg, Inl PersistenceFailed)
      else (case findRecord (reg_records reg) player of
              None \<Rightarrow> Some (reg, Inl InvalidInitialState)
            | Some i \<Rightarrow>
              let r = reg_records reg ! i
              in if claim_manifest (pid_claim r) \<noteq> cat_manifest catalog then Some (reg, Inl InvalidInitialState)
                 else (case applyCharacterCreation (pid_profile r) catalog command of
                         None \<Rightarrow> None
                       | Some (Inl e) \<Rightarrow> Some (reg, Inl e)
                       | Some (Inr profile) \<Rightarrow>
                         let r' = r\<lparr>pid_profile := profile\<rparr>;
                             durable = prof_lifecycle profile = EstablishedCharacter;
                             ident = reg_nextPreparationId reg
                         in (case (if \<not> durable then Some r'
                                   else (case completionCheckpoint of
                                           None \<Rightarrow> None
                                         | Some checkpoint \<Rightarrow>
                                           if playerId checkpoint \<noteq> record_player r \<or> entityId checkpoint \<noteq> record_entity r
                                              \<or> appearanceId checkpoint \<noteq> claim_appearance (pid_claim r) then None
                                           else Some (r'\<lparr>pid_saved := Some checkpoint\<rparr>))) of
                               None \<Rightarrow> Some (reg, Inl InvalidInitialState)
                             | Some r'' \<Rightarrow>
                               Some (reg\<lparr>reg_nextPreparationId := ident + 1,
                                         reg_pendingProfile := Some \<lparr>pcp_id = ident, pcp_prior = reg_records reg,
                                           pcp_candidate = (reg_records reg)[i := r''], pcp_profile = profile, pcp_durable = durable\<rparr>\<rparr>,
                                     Inr (ident, profile))))))"

definition commitCharacterCreation :: "PlayerIdentityRegistry \<Rightarrow> u64 \<Rightarrow> bool \<Rightarrow> PlayerIdentityRegistry \<times> bool" where
  "commitCharacterCreation reg preparationId written =
     (case reg_pendingProfile reg of
        None \<Rightarrow> (reg, False)
      | Some p \<Rightarrow>
        if pcp_id p \<noteq> preparationId \<or> reg_committedProfile reg \<noteq> None then (reg, False)
        else if pcp_durable p \<and> \<not> written then (reg, False)
        else (reg\<lparr>reg_durable := if pcp_durable p then durableRecords (pcp_candidate p) else reg_durable reg,
                  reg_committedProfile := Some \<lparr>ccp_id = preparationId, ccp_prior = pcp_prior p, ccp_durable = pcp_durable p\<rparr>,
                  reg_records := pcp_candidate p, reg_pendingProfile := None\<rparr>, True))"

definition finalizeCharacterCreation :: "PlayerIdentityRegistry \<Rightarrow> u64 \<Rightarrow> PlayerIdentityRegistry \<times> bool" where
  "finalizeCharacterCreation reg preparationId =
     (case reg_committedProfile reg of
        None \<Rightarrow> (reg, False)
      | Some c \<Rightarrow> if ccp_id c \<noteq> preparationId then (reg, False) else (reg\<lparr>reg_committedProfile := None\<rparr>, True))"

definition rollbackCharacterCreation :: "PlayerIdentityRegistry \<Rightarrow> u64 \<Rightarrow> bool \<Rightarrow> PlayerIdentityRegistry \<times> bool" where
  "rollbackCharacterCreation reg preparationId written =
     (case reg_committedProfile reg of
        None \<Rightarrow> (reg, False)
      | Some c \<Rightarrow>
        if ccp_id c \<noteq> preparationId \<or> ccp_durable c \<and> \<not> written then (reg, False)
        else (reg\<lparr>reg_durable := if ccp_durable c then durableRecords (ccp_prior c) else reg_durable reg,
                  reg_records := ccp_prior c, reg_committedProfile := None\<rparr>, True))"

definition cancelCharacterCreation :: "PlayerIdentityRegistry \<Rightarrow> u64 \<Rightarrow> PlayerIdentityRegistry \<times> bool" where
  "cancelCharacterCreation reg preparationId =
     (case reg_pendingProfile reg of
        None \<Rightarrow> (reg, False)
      | Some p \<Rightarrow> if pcp_id p \<noteq> preparationId then (reg, False) else (reg\<lparr>reg_pendingProfile := None\<rparr>, True))"

definition applyRegistryCreation ::
  "PlayerIdentityRegistry \<Rightarrow> PlayerId \<Rightarrow> CharacterContentCatalog \<Rightarrow> CharacterCreationCommand \<Rightarrow> CanonicalPlayerEntityState option
   \<Rightarrow> bool \<Rightarrow> (PlayerIdentityRegistry \<times> (CharacterProfileError + CharacterProfile)) option" where
  "applyRegistryCreation reg player catalog command completionCheckpoint written =
     (case prepareCharacterCreation reg player catalog command completionCheckpoint of
        None \<Rightarrow> None
      | Some (reg1, Inl e) \<Rightarrow> Some (reg1, Inl e)
      | Some (reg1, Inr (ident, profile)) \<Rightarrow>
        (let (reg2, committed) = commitCharacterCreation reg1 ident written
         in if \<not> committed then Some (fst (cancelCharacterCreation reg2 ident), Inl PersistenceFailed)
            else let (reg3, finalized) = finalizeCharacterCreation reg2 ident
                 in if \<not> finalized then Some (reg3, Inl PersistenceFailed) else Some (reg3, Inr profile)))"


section \<open>Names and identifiers\<close>

lemma tolower_list: "list_all2 (\<lambda>a b. tolower a = tolower b) xs ys \<longleftrightarrow> map tolower xs = map tolower ys"
  by (auto simp: list_all2_conv_all_nth list_eq_iff_nth_eq)

definition same_name :: "u8 list \<Rightarrow> u8 list \<Rightarrow> bool" where
  "same_name a b \<longleftrightarrow> a \<noteq> [] \<and> map tolower a = map tolower b"

lemma recordHasUsername_iff: "recordHasUsername r name \<longleftrightarrow> same_name (pid_username r) name"
proof -
  have "map tolower (pid_username r) = map tolower name \<Longrightarrow> length (pid_username r) = length name" by (metis length_map)
  then show ?thesis by (auto simp: recordHasUsername_def same_name_def tolower_list)
qed

declare skipReserved.simps [simp del]

lemma skipReserved_least:
  "sorted_wrt (<) res \<Longrightarrow> skipReserved res e = Some e' \<Longrightarrow>
     e' \<notin> set res \<and> e \<le> e' \<and> (\<forall>k. e \<le> k \<and> k < e' \<longrightarrow> k \<in> set res)"
proof (induction res e rule: skipReserved.induct)
  case (1 res e)
  note search = binary_search_iff [OF "1.prems"(1)]
  show ?case
  proof (cases "binary_search res e")
    case True
    with "1.prems" obtain n where n: "next_value e = Some n" "skipReserved res n = Some e'"
      by (auto simp: skipReserved.simps [of res e] split: option.splits)
    from "1.IH" [OF True n(1) "1.prems"(1) n(2)] have IH: "e' \<notin> set res \<and> n \<le> e' \<and> (\<forall>k. n \<le> k \<and> k < e' \<longrightarrow> k \<in> set res)" .
    have "e < n" using n(1) by (rule next_value_less)
    moreover have "k \<in> set res" if "e \<le> k" "k < e'" for k
    proof (cases "k = e")
      case False
      with that(1) have "n \<le> k" using next_value_unat [OF n(1)] by (auto simp: word_le_nat_alt word_less_nat_alt word_unat_eq_iff)
      with IH that(2) show ?thesis by blast
    qed (use True search in simp)
    ultimately show ?thesis using IH by auto
  next
    case False
    with "1.prems" have "e' = e" by (simp add: skipReserved.simps [of res e])
    with False show ?thesis using search by (auto dest: leD)
  qed
qed

lemma skipReserved_finds:
  "sorted_wrt (<) res \<Longrightarrow> e \<le> k \<Longrightarrow> k \<notin> set res \<Longrightarrow> skipReserved res e \<noteq> None"
proof (induction res e rule: skipReserved.induct)
  case (1 res e)
  note search = binary_search_iff [OF "1.prems"(1)]
  show ?case
  proof (cases "binary_search res e")
    case True
    then have "e \<in> set res" using search by simp
    with "1.prems" have less: "e < k" by (cases "e = k") auto
    then have "e \<noteq> u64_max" using leD [OF le_u64_max [of k]] by blast
    then obtain n where n: "next_value e = Some n" by (cases "next_value e") (auto simp: next_value_None_iff)
    then have "n \<le> k" using next_value_unat [OF n] less by (simp add: word_le_nat_alt word_less_nat_alt)
    from "1.IH" [OF True n "1.prems"(1) this "1.prems"(3)] show ?thesis
      using True n by (simp add: skipReserved.simps [of res e])
  qed (simp add: skipReserved.simps [of res e])
qed

section \<open>The registry invariant\<close>

text \<open>What a record says apart from the character: claim, digest and user name never change.\<close>

definition static_part :: "PersistedPlayerIdentity \<Rightarrow> PlayerClaim \<times> CredentialDigest \<times> u8 list" where
  "static_part r = (pid_claim r, pid_digest r, pid_username r)"

definition static_new :: "EntityId list \<Rightarrow> (PlayerClaim \<times> CredentialDigest \<times> u8 list) list \<Rightarrow> PlayerClaim \<times> CredentialDigest \<times> u8 list \<Rightarrow> bool" where
  "static_new res ss s \<longleftrightarrow> (case s of (cl, d, u) \<Rightarrow>
     claim_entity cl \<notin> set res \<and> (u \<noteq> [] \<longrightarrow> isValidPlayerUsername u)
     \<and> (\<forall>(cl', d', u') \<in> set ss. claim_player cl' < claim_player cl \<and> claim_entity cl' \<noteq> claim_entity cl \<and> d' \<noteq> d \<and> \<not> same_name u' u))"

fun static_ok :: "EntityId list \<Rightarrow> (PlayerClaim \<times> CredentialDigest \<times> u8 list) list \<Rightarrow> bool" where
  "static_ok res [] = True"
| "static_ok res (s # ss) = (static_ok res ss \<and> static_new res ss s)"

definition statics_ok :: "EntityId list \<Rightarrow> PersistedPlayerIdentity list \<Rightarrow> bool" where
  "statics_ok res rs \<longleftrightarrow> static_ok res (rev (map static_part rs))"

definition saved_ok :: "PersistedPlayerIdentity \<Rightarrow> bool" where
  "saved_ok r \<longleftrightarrow> (case pid_saved r of None \<Rightarrow> \<not> record_established r
     | Some saved \<Rightarrow> record_established r \<and> playerId saved = record_player r \<and> entityId saved = record_entity r
         \<and> appearanceId saved = claim_appearance (pid_claim r))"

lemma statics_Nil [simp]: "statics_ok res []"
  by (simp add: statics_ok_def)

lemma statics_snoc: "statics_ok res (rs @ [r]) \<longleftrightarrow> statics_ok res rs \<and> static_new res (map static_part rs) (static_part r)"
  by (simp add: statics_ok_def static_new_def split: prod.splits)

lemma static_new_record:
  "static_new res (map static_part rs) (static_part r) \<longleftrightarrow>
     record_entity r \<notin> set res \<and> (pid_username r \<noteq> [] \<longrightarrow> isValidPlayerUsername (pid_username r))
     \<and> (\<forall>p \<in> set rs. record_player p < record_player r \<and> record_entity p \<noteq> record_entity r \<and> pid_digest p \<noteq> pid_digest r
          \<and> \<not> same_name (pid_username p) (pid_username r))"
  by (simp add: static_new_def static_part_def)

lemma statics_players: "statics_ok res rs \<Longrightarrow> keys_sorted record_player rs"
  by (induction rs rule: rev_induct) (auto simp: statics_snoc static_new_record sorted_wrt_append)

lemma statics_cong: "map static_part rs = map static_part rs' \<Longrightarrow> statics_ok res rs = statics_ok res rs'"
  by (simp add: statics_ok_def)

lemma statics_durable: "statics_ok res (durableRecords rs) = statics_ok res rs"
  by (rule statics_cong) (simp add: durableRecords_def durableRecord_def static_part_def)

lemma same_name_sym: "same_name a b \<Longrightarrow> same_name b a"
  by (auto simp: same_name_def)

lemma statics_distinct:
  "statics_ok res rs \<Longrightarrow> r \<in> set rs \<Longrightarrow> record_entity r \<notin> set res \<and> (\<forall>p \<in> set rs. r \<noteq> p \<longrightarrow>
     record_player r \<noteq> record_player p \<and> record_entity r \<noteq> record_entity p \<and> pid_digest r \<noteq> pid_digest p
     \<and> \<not> same_name (pid_username r) (pid_username p))"
proof (induction rs rule: rev_induct)
  case (snoc x rs)
  then have ok: "statics_ok res rs" "record_entity x \<notin> set res"
    and new: "\<And>p. p \<in> set rs \<Longrightarrow> record_player p < record_player x \<and> record_entity p \<noteq> record_entity x \<and> pid_digest p \<noteq> pid_digest x
      \<and> \<not> same_name (pid_username p) (pid_username x)"
    by (auto simp: statics_snoc static_new_record)
  show ?case
  proof (cases "r = x")
    case True
    have "record_player r \<noteq> record_player p \<and> record_entity r \<noteq> record_entity p \<and> pid_digest r \<noteq> pid_digest p
        \<and> \<not> same_name (pid_username r) (pid_username p)" if "p \<in> set (rs @ [x])" "r \<noteq> p" for p
      using new [of p] that True same_name_sym by (metis Un_iff empty_iff insert_iff less_irrefl list.set set_append)
    then show ?thesis using ok(2) True by blast
  next
    case False
    then have "r \<in> set rs" using snoc.prems(2) by simp
    from snoc.IH [OF ok(1) this] new [OF this] show ?thesis by auto
  qed
qed simp

text \<open>\<^verbatim>\<open>create\<close> accepts exactly the well-formed lists whose incomplete characters are fresh.\<close>

definition stored_ok :: "PersistedPlayerIdentity \<Rightarrow> bool" where
  "stored_ok r \<longleftrightarrow> saved_ok r \<and> (record_established r \<or> pid_profile r = freshProfile)"

lemma initialRecordRejected_iff:
  assumes "sorted_wrt (<) res" and "keys_sorted record_player rs" and "\<forall>p \<in> set rs. record_player p \<le> record_player r"
  shows "\<not> initialRecordRejected res rs r \<longleftrightarrow> static_new res (map static_part rs) (static_part r) \<and> stored_ok r"
proof -
  have "(rs \<noteq> [] \<and> record_player (last rs) = record_player r) = (\<not> (\<forall>p \<in> set rs. record_player p < record_player r))"
  proof (cases rs rule: rev_cases)
    case (snoc ps p)
    with assms(2,3) show ?thesis by (auto simp: sorted_wrt_append order.strict_iff_order)
  qed simp
  moreover have "same_name u [] = False" for u by (simp add: same_name_def)
  ultimately show ?thesis
    unfolding initialRecordRejected_def static_new_record recordHasUsername_iff binary_search_iff [OF assms(1)] list_ex_iff stored_ok_def saved_ok_def
    by (cases "pid_username r = []"; cases "pid_saved r") auto
qed

lemma initialRecordsValid_iff:
  assumes "sorted_wrt (<) res"
  shows "sorted (map record_player (prev @ rs)) \<Longrightarrow> statics_ok res prev \<Longrightarrow>
    initialRecordsValid res prev rs \<longleftrightarrow> statics_ok res (prev @ rs) \<and> (\<forall>r \<in> set rs. stored_ok r)"
proof (induction rs arbitrary: prev)
  case (Cons r rs)
  have "\<forall>p \<in> set prev. record_player p \<le> record_player r" using Cons.prems(1) by (auto simp: sorted_append)
  note rejected = initialRecordRejected_iff [OF assms statics_players [OF Cons.prems(2)] this]
  show ?case
  proof (cases "initialRecordRejected res prev r")
    case True
    have prefix: "statics_ok res (xs @ ys) \<Longrightarrow> statics_ok res xs" for xs ys
      by (induction ys rule: rev_induct) (simp_all add: statics_snoc flip: append_assoc)
    have "\<not> (statics_ok res (prev @ [r]) \<and> stored_ok r)" using True rejected by (simp add: statics_snoc)
    then show ?thesis using True prefix [of "prev @ [r]" rs] by auto
  next
    case False
    with rejected Cons.prems have "statics_ok res (prev @ [r])" "stored_ok r" by (simp_all add: statics_snoc)
    with Cons.IH [of "prev @ [r]"] Cons.prems False show ?thesis by simp
  qed
qed simp


definition identities_ok :: "CharacterContentCatalog \<Rightarrow> EntityId list \<Rightarrow> PersistedPlayerIdentity list \<Rightarrow> PlayerId \<Rightarrow> EntityId \<Rightarrow> bool \<Rightarrow> bool" where
  "identities_ok c res rs np ne ex \<longleftrightarrow>
     statics_ok res rs \<and> length rs \<le> MaximumPlayerIdentityRecords
     \<and> (\<forall>r \<in> set rs. saved_ok r \<and> (record_established r \<or> profile_ok c (pid_profile r)))
     \<and> (\<not> ex \<longrightarrow> (\<forall>r \<in> set rs. record_player r < np \<and> record_entity r < ne) \<and> ne \<notin> set res \<and> ne \<noteq> 0)"

definition pending_identity_ok :: "PlayerIdentityRegistry \<Rightarrow> PendingIdentity \<Rightarrow> bool" where
  "pending_identity_ok reg p \<longleftrightarrow> reg_committed reg = None \<and> reg_pendingProfile reg = None \<and> reg_committedProfile reg = None
     \<and> \<not> reg_exhausted reg \<and> length (reg_records reg) < MaximumPlayerIdentityRecords
     \<and> static_new (reg_reserved reg) (map static_part (reg_records reg)) (static_part (pin_record p))
     \<and> record_player (pin_record p) = reg_nextPlayer reg \<and> record_entity (pin_record p) = reg_nextEntity reg
     \<and> pid_saved (pin_record p) = None \<and> pid_profile (pin_record p) = freshProfile"

definition reg_ok :: "CharacterContentCatalog \<Rightarrow> PlayerIdentityRegistry \<Rightarrow> bool" where
  "reg_ok c reg \<longleftrightarrow>
     sorted_wrt (<) (reg_reserved reg)
     \<and> identities_ok c (reg_reserved reg) (reg_records reg) (reg_nextPlayer reg) (reg_nextEntity reg) (reg_exhausted reg)
     \<and> reg_durable reg = durableRecords (reg_records reg)
     \<and> (\<forall>p. reg_pending reg = Some p \<longrightarrow> pending_identity_ok reg p)
     \<and> (\<forall>q. reg_committed reg = Some q \<longrightarrow> reg_pending reg = None \<and> reg_pendingProfile reg = None \<and> reg_committedProfile reg = None
          \<and> identities_ok c (reg_reserved reg) (cin_prior q) (cin_priorNextPlayer q) (cin_priorNextEntity q) (cin_priorExhausted q))
     \<and> (\<forall>p. reg_pendingProfile reg = Some p \<longrightarrow> reg_committedProfile reg = None \<and> pcp_prior p = reg_records reg
          \<and> identities_ok c (reg_reserved reg) (pcp_candidate p) (reg_nextPlayer reg) (reg_nextEntity reg) (reg_exhausted reg)
          \<and> (pcp_durable p \<or> durableRecords (pcp_candidate p) = durableRecords (reg_records reg)))
     \<and> (\<forall>q. reg_committedProfile reg = Some q \<longrightarrow>
          identities_ok c (reg_reserved reg) (ccp_prior q) (reg_nextPlayer reg) (reg_nextEntity reg) (reg_exhausted reg)
          \<and> (ccp_durable q \<or> durableRecords (ccp_prior q) = durableRecords (reg_records reg)))"

lemma reg_okI:
  assumes "sorted_wrt (<) (reg_reserved reg)"
    and "identities_ok c (reg_reserved reg) (reg_records reg) (reg_nextPlayer reg) (reg_nextEntity reg) (reg_exhausted reg)"
    and "reg_durable reg = durableRecords (reg_records reg)" and "\<not> registryBusy reg"
  shows "reg_ok c reg"
  using assms by (auto simp: reg_ok_def registryBusy_def)

lemma reg_okD:
  assumes "reg_ok c reg"
  shows "sorted_wrt (<) (reg_reserved reg)"
    and "identities_ok c (reg_reserved reg) (reg_records reg) (reg_nextPlayer reg) (reg_nextEntity reg) (reg_exhausted reg)"
    and "reg_durable reg = durableRecords (reg_records reg)"
  using assms by (auto simp: reg_ok_def)

section \<open>Creation of a registry\<close>

lemma foldl_max_ge: "x \<in> insert a (set xs) \<Longrightarrow> x \<le> foldl max (a :: u64) xs"
proof (induction xs arbitrary: a x)
  case (Cons y xs)
  show ?case
  proof (cases "x \<in> set xs")
    case True
    then show ?thesis using Cons.IH [of x "max a y"] by simp
  next
    case False
    with Cons.prems have "x \<le> max a y" by auto
    also have "\<dots> \<le> foldl max a (y # xs)" using Cons.IH [of "max a y" "max a y"] by simp
    finally show ?thesis .
  qed
qed simp

lemma foldl_max_le: "\<forall>x \<in> set xs. x < b \<Longrightarrow> a < b \<Longrightarrow> foldl max (a :: u64) xs < b"
  by (induction xs arbitrary: a) simp_all

lemma durable_stored: "\<forall>r \<in> set rs. stored_ok r \<Longrightarrow> durableRecords rs = rs"
  by (induction rs) (auto simp: durableRecords_def durableRecord_def stored_ok_def saved_ok_def split: option.splits)

lemma word_less_add_one: "(m :: u64) \<noteq> u64_max \<Longrightarrow> x \<le> m \<Longrightarrow> x < m + 1"
  using word_Suc_neq_max [of m] by (simp add: word_less_nat_alt word_le_nat_alt)

lemma if_zero_next: "(if (m :: u64) = 0 then 1 else m + 1) = m + 1"
  by simp

text \<open>A created registry holds the given records in order, and every identity it hands out is new.\<close>

lemma createRegistry_Inr:
  assumes "createRegistry given res = Inr reg"
  shows "reg_ok c reg \<and> \<not> registryBusy reg"
proof -
  let ?res = "sort res" and ?rs = "sort_key record_player given"
  let ?mp = "foldl max 0 (map record_player ?rs)" and ?me = "foldl max 0 (map record_entity ?rs)"
  have parts: "length given \<le> MaximumPlayerIdentityRecords" "sorted_wrt (<) ?res" "initialRecordsValid ?res [] ?rs"
    "?mp \<noteq> u64_max" "?me \<noteq> u64_max" and reg: "reg_records reg = ?rs" "reg_reserved reg = ?res" "reg_nextPlayer reg = ?mp + 1"
    "skipReserved ?res (?me + 1) = Some (reg_nextEntity reg)" "reg_exhausted reg = False" "reg_durable reg = ?rs" "\<not> registryBusy reg"
    using assms unfolding createRegistry_def Let_def sort_strict if_zero_next
    by (auto simp: registryBusy_def split: if_split_asm option.split_asm)
  have valid: "statics_ok ?res ?rs" "\<forall>r \<in> set ?rs. stored_ok r"
    using initialRecordsValid_iff [OF parts(2), of "[]" ?rs] parts(3) by simp_all
  note skipped = skipReserved_least [OF parts(2) reg(4)]
  have "record_player r < ?mp + 1 \<and> record_entity r < reg_nextEntity reg" if "r \<in> set ?rs" for r
  proof -
    have "record_player r \<le> ?mp" "record_entity r \<le> ?me" using that by (auto intro!: foldl_max_ge)
    then have "record_player r < ?mp + 1" "record_entity r < ?me + 1" using parts(4,5) word_less_add_one by blast+
    moreover have "?me + 1 \<le> reg_nextEntity reg" using skipped by blast
    ultimately show ?thesis by (auto intro: less_le_trans)
  qed
  moreover have "saved_ok r \<and> (record_established r \<or> profile_ok c (pid_profile r))" if "r \<in> set ?rs" for r
    using valid(2) that fresh_ok [of c] by (auto simp: stored_ok_def)
  moreover have "?me < ?me + 1" using parts(5) word_less_add_one by blast
  then have "reg_nextEntity reg \<noteq> 0" using skipped by (auto dest: order.strict_trans2)
  ultimately have "identities_ok c ?res ?rs (?mp + 1) (reg_nextEntity reg) False"
    using valid(1) parts(1) skipped by (simp add: identities_ok_def)
  then show ?thesis using parts(2) reg durable_stored [OF valid(2)] by (auto intro!: reg_okI)
qed

text \<open>
  What a registry last stored is consistent, so it is accepted again unless the identities have run out, and
  they have not while the registry still hands some out.
\<close>

lemma durable_consistent:
  assumes "reg_ok c reg"
  shows "length (reg_durable reg) \<le> MaximumPlayerIdentityRecords" and "no_adjacent_equal (reg_reserved reg)"
    and "sort (reg_reserved reg) = reg_reserved reg" and "sort_key record_player (reg_durable reg) = reg_durable reg"
    and "initialRecordsValid (reg_reserved reg) [] (reg_durable reg)"
proof -
  let ?rs = "reg_durable reg" and ?res = "reg_reserved reg"
  note ok = reg_okD [OF assms(1)]
  have static: "statics_ok ?res ?rs" using ok(2,3) by (simp add: identities_ok_def statics_durable)
  then have sorted: "keys_sorted record_player ?rs" by (rule statics_players)
  have "saved_ok r \<Longrightarrow> stored_ok (durableRecord r)" for r
    by (auto simp: stored_ok_def durableRecord_def saved_ok_def freshProfile_def split: option.splits)
  then have stored: "\<forall>r \<in> set ?rs. stored_ok r" using ok(2,3) by (auto simp: identities_ok_def durableRecords_def)
  show srt: "sort ?res = ?res" and "sort_key record_player ?rs = ?rs"
    using sorted ok(1) by (simp_all add: strict_sorted_iff sort_key_id_if_sorted sorted_sort_id)
  show "initialRecordsValid ?res [] ?rs"
    using initialRecordsValid_iff [OF ok(1), of "[]" ?rs] static stored sorted by (simp add: strict_sorted_iff)
  show "length ?rs \<le> MaximumPlayerIdentityRecords" using ok(2,3) by (simp add: identities_ok_def durableRecords_def)
  show "no_adjacent_equal ?res" using ok(1) sort_strict [of ?res] srt by simp
qed

lemma durable_not_exhausted:
  assumes "reg_ok c reg" and "\<not> reg_exhausted reg"
  defines "mp \<equiv> foldl max 0 (map record_player (reg_durable reg))" and "me \<equiv> foldl max 0 (map record_entity (reg_durable reg))"
  shows "mp \<noteq> u64_max" and "me \<noteq> u64_max" and "skipReserved (reg_reserved reg) (me + 1) \<noteq> None"
proof -
  let ?rs = "reg_durable reg" and ?res = "reg_reserved reg"
  note ok = reg_okD [OF assms(1)]
  have fresh: "\<forall>x \<in> set (map record_player ?rs). x < reg_nextPlayer reg" "\<forall>x \<in> set (map record_entity ?rs). x < reg_nextEntity reg"
    and free: "reg_nextEntity reg \<notin> set ?res" "reg_nextEntity reg \<noteq> 0"
    using ok(2,3) assms(2) by (auto simp: identities_ok_def durableRecords_def durableRecord_def)
  have max_less: "foldl max 0 xs < b" if "\<forall>x \<in> set xs. x < b" "b \<noteq> 0" for xs and b :: u64
    using foldl_max_le [OF that(1), of 0] that(2) by (simp add: word_gt_0)
  have below: "x < b \<Longrightarrow> x \<noteq> u64_max" for x b :: u64 using leD [OF le_u64_max [of b]] by blast
  show "mp \<noteq> u64_max"
  proof (cases "?rs = []")
    case False
    then have "reg_nextPlayer reg \<noteq> 0" using fresh(1) by (cases ?rs) auto
    from max_less [OF fresh(1) this] show ?thesis unfolding mp_def by (rule below)
  qed (simp add: mp_def u64_max_def)
  have me: "me < reg_nextEntity reg" using max_less [OF fresh(2) free(2)] by (simp add: me_def)
  then show "me \<noteq> u64_max" by (rule below)
  have "me + 1 \<le> reg_nextEntity reg" using me word_Suc_neq_max [OF below [OF me]] by (simp add: word_le_nat_alt word_less_nat_alt)
  then show "skipReserved ?res (me + 1) \<noteq> None" using skipReserved_finds [OF ok(1) _ free(1)] by blast
qed

lemma createRegistry_durable:
  assumes "reg_ok c reg"
  shows "case createRegistry (reg_durable reg) (reg_reserved reg) of
      Inl e \<Rightarrow> e = IdentityExhausted \<and> reg_exhausted reg
    | Inr reg' \<Rightarrow> reg_records reg' = reg_durable reg"
proof -
  note ok = durable_consistent [OF assms] and left = durable_not_exhausted [OF assms]
  show ?thesis using left unfolding createRegistry_def Let_def ok(3,4) if_zero_next
    by (cases "reg_exhausted reg") (simp_all add: ok(1,2,5) not_less split: option.split)
qed


section \<open>Every operation keeps the invariant\<close>

lemma prepareCreate_cases:
  assumes "prepareCreate crypto reg manifest cred username random = (reg', res)"
  obtains "reg' = reg" "\<exists>e. res = Inl e"
    | credential dg p where "\<not> registryBusy reg" "length (reg_records reg) < MaximumPlayerIdentityRecords" "\<not> reg_exhausted reg"
        "username \<noteq> [] \<longrightarrow> isValidPlayerUsername username \<and> \<not> hasUsername reg username"
        "sha256 crypto credential = Some dg" "\<forall>r \<in> set (reg_records reg). pid_digest r \<noteq> dg"
        "p = \<lparr>pin_id = reg_nextPreparationId reg,
              pin_record = \<lparr>pid_claim = \<lparr>claim_player = reg_nextPlayer reg, claim_entity = reg_nextEntity reg,
                 claim_appearance = mDefaultAppearance manifest, claim_manifest = mId manifest\<rparr>,
                pid_digest = dg, pid_saved = None, pid_profile = freshProfile, pid_username = username\<rparr>, pin_credential = credential\<rparr>"
        "reg' = reg\<lparr>reg_nextPreparationId := reg_nextPreparationId reg + 1, reg_pending := Some p\<rparr>"
        "res = Inr (pin_id p, pid_claim (pin_record p))"
proof (cases "\<exists>e. res = Inl e")
  case True
  with assms have "reg' = reg" unfolding prepareCreate_def Let_def by (auto split: if_split_asm option.split_asm)
  from that(1) [OF this True] show thesis .
next
  case False
  with assms have guards: "\<not> registryBusy reg" "length (reg_records reg) < MaximumPlayerIdentityRecords" "\<not> reg_exhausted reg"
    "username \<noteq> [] \<longrightarrow> isValidPlayerUsername username \<and> \<not> hasUsername reg username"
    unfolding prepareCreate_def by (auto split: if_split_asm)
  obtain credential where c: "(case cred of Some credential \<Rightarrow> Some credential | None \<Rightarrow> random) = Some credential"
    using assms False unfolding prepareCreate_def by (auto split: if_split_asm option.split_asm)
  obtain dg where d: "sha256 crypto credential = Some dg"
    using assms False unfolding prepareCreate_def c by (cases "sha256 crypto credential") (auto split: if_split_asm)
  show thesis using assms False c d unfolding prepareCreate_def
    by (intro that(2) [OF guards d]) (auto simp: Let_def list_ex_iff split: if_split_asm)
qed

lemma reg_ok_prepareCreate:
  assumes "reg_ok c reg" and "prepareCreate crypto reg manifest cred username random = (reg', res)"
  shows "reg_ok c reg'"
  using assms(2)
proof (cases rule: prepareCreate_cases)
  case (2 credential dg p)
  note ok = reg_okD [OF assms(1)]
  have "static_new (reg_reserved reg) (map static_part (reg_records reg)) (static_part (pin_record p))"
    using ok(2) 2(3-7) unfolding static_new_record
    by (auto simp: identities_ok_def hasUsername_def list_ex_iff recordHasUsername_iff same_name_def)
  then have "pending_identity_ok reg' p" using 2 by (simp add: pending_identity_ok_def registryBusy_def)
  with ok 2 show ?thesis by (auto simp: reg_ok_def registryBusy_def)
qed (use assms(1) in simp)

lemma advance_simps [simp]:
  "reg_records (fst (advanceIdentities reg)) = reg_records reg" "reg_reserved (fst (advanceIdentities reg)) = reg_reserved reg"
  "reg_durable (fst (advanceIdentities reg)) = reg_durable reg" "reg_committed (fst (advanceIdentities reg)) = reg_committed reg"
  "reg_pending (fst (advanceIdentities reg)) = reg_pending reg" "reg_pendingProfile (fst (advanceIdentities reg)) = reg_pendingProfile reg"
  "reg_committedProfile (fst (advanceIdentities reg)) = reg_committedProfile reg"
  "reg_nextPreparationId (fst (advanceIdentities reg)) = reg_nextPreparationId reg"
  by (simp_all add: advanceIdentities_def Let_def split: option.splits)

text \<open>After a commit the next identities are above those of every record, or the registry is exhausted.\<close>

lemma advance_fresh:
  assumes "sorted_wrt (<) (reg_reserved reg)" and "\<not> reg_exhausted (fst (advanceIdentities reg))"
  shows "reg_nextPlayer reg < reg_nextPlayer (fst (advanceIdentities reg)) \<and> reg_nextEntity reg < reg_nextEntity (fst (advanceIdentities reg))
    \<and> reg_nextEntity (fst (advanceIdentities reg)) \<notin> set (reg_reserved reg)"
proof (cases "next_value (reg_nextPlayer reg)")
  case None
  with assms(2) show ?thesis by (simp add: advanceIdentities_def)
next
  case (Some p)
  with assms(2) obtain e where e: "next_value (reg_nextEntity reg) = Some e"
    by (cases "next_value (reg_nextEntity reg)") (simp_all add: advanceIdentities_def)
  with assms(2) Some obtain e' where e': "skipReserved (reg_reserved reg) e = Some e'"
    by (cases "skipReserved (reg_reserved reg) e") (simp_all add: advanceIdentities_def)
  show ?thesis using skipReserved_least [OF assms(1) e'] next_value_less [OF e] next_value_less [OF Some] Some e e'
    by (auto simp: advanceIdentities_def)
qed

lemma sort_key_snoc_greater:
  assumes "keys_sorted key xs" and "\<forall>y \<in> set xs. key y < key x"
  shows "sort_key key (xs @ [x]) = xs @ [x]"
  by (rule sort_key_id_if_sorted) (use assms in \<open>auto simp: sorted_append strict_sorted_iff intro: less_imp_le\<close>)

lemma identities_ok_snoc:
  assumes "identities_ok c res rs np ne ex" and "static_new res (map static_part rs) (static_part r)" and "length rs < MaximumPlayerIdentityRecords"
    and "pid_saved r = None" and "pid_profile r = freshProfile" and "\<not> ex"
    and "\<not> ex' \<longrightarrow> np < np' \<and> ne < ne' \<and> ne' \<notin> set res" and "record_player r = np" and "record_entity r = ne"
  shows "identities_ok c res (rs @ [r]) np' ne' ex'"
  using assms fresh_ok [of c]
  by (auto simp: identities_ok_def statics_snoc saved_ok_def freshProfile_def intro: order.strict_trans)

lemma reg_ok_commitIdentity:
  assumes "reg_ok c reg"
  shows "reg_ok c (fst (commitIdentity reg ident written))"
proof (cases "snd (commitIdentity reg ident written)")
  case False
  then have "fst (commitIdentity reg ident written) = reg"
    by (auto simp: commitIdentity_def Let_def split: option.splits if_splits)
  with assms show ?thesis by simp
next
  case True
  then obtain p where p: "reg_pending reg = Some p" "pin_id p = ident" "reg_committed reg = None" written
    by (auto simp: commitIdentity_def Let_def split: option.splits if_splits)
  note ok = reg_okD [OF assms]
  have pend: "pending_identity_ok reg p" using assms p(1) by (simp add: reg_ok_def)
  then have new: "\<forall>y \<in> set (reg_records reg). record_player y < record_player (pin_record p)"
    unfolding pending_identity_ok_def static_new_record by blast
  have "keys_sorted record_player (reg_records reg)" using ok(2) statics_players by (auto simp: identities_ok_def)
  note sorted = sort_key_snoc_greater [OF this new]
  let ?m = "reg\<lparr>reg_durable := durableRecords (reg_records reg @ [pin_record p]),
      reg_committed := Some \<lparr>cin_id = ident, cin_prior = reg_records reg, cin_priorNextPlayer = reg_nextPlayer reg,
        cin_priorNextEntity = reg_nextEntity reg, cin_priorExhausted = reg_exhausted reg\<rparr>,
      reg_records := reg_records reg @ [pin_record p]\<rparr>"
  have eq: "fst (commitIdentity reg ident written) = (fst (advanceIdentities ?m))\<lparr>reg_pending := None\<rparr>"
    using p sorted by (simp add: commitIdentity_def Let_def)
  have "identities_ok c (reg_reserved reg) (reg_records reg @ [pin_record p]) (reg_nextPlayer (fst (advanceIdentities ?m)))
      (reg_nextEntity (fst (advanceIdentities ?m))) (reg_exhausted (fst (advanceIdentities ?m)))"
    using pend ok advance_fresh [of ?m]
    by (intro identities_ok_snoc [OF ok(2)]) (simp_all add: pending_identity_ok_def)
  with ok pend show ?thesis unfolding eq by (simp add: reg_ok_def pending_identity_ok_def)
qed

lemma reg_ok_forget:
  "reg_ok c reg \<Longrightarrow> reg_ok c (reg\<lparr>reg_pending := None\<rparr>)" "reg_ok c reg \<Longrightarrow> reg_ok c (reg\<lparr>reg_committed := None\<rparr>)"
  "reg_ok c reg \<Longrightarrow> reg_ok c (reg\<lparr>reg_pendingProfile := None\<rparr>)" "reg_ok c reg \<Longrightarrow> reg_ok c (reg\<lparr>reg_committedProfile := None\<rparr>)"
  by (auto simp: reg_ok_def pending_identity_ok_def)

lemma reg_ok_end:
  assumes "reg_ok c reg"
  shows "reg_ok c (fst (finalizeIdentity reg ident))" "reg_ok c (fst (cancelIdentity reg ident))"
    "reg_ok c (fst (finalizeCharacterCreation reg ident))" "reg_ok c (fst (cancelCharacterCreation reg ident))"
  using assms reg_ok_forget [OF assms]
  by (simp_all add: finalizeIdentity_def cancelIdentity_def finalizeCharacterCreation_def cancelCharacterCreation_def split: option.splits)

lemma reg_ok_rollbackIdentity:
  assumes "reg_ok c reg"
  shows "reg_ok c (fst (rollbackIdentity reg ident written))"
  using assms by (auto simp: rollbackIdentity_def reg_ok_def split: option.splits)


text \<open>Replacing a record by one with the same claim, digest and name.\<close>

lemma identities_ok_update:
  assumes "identities_ok c res rs np ne ex" and "i < length rs" and "static_part r = static_part (rs ! i)"
    and "saved_ok r" and "record_established r \<or> profile_ok c (pid_profile r)"
  shows "identities_ok c res (rs[i := r]) np ne ex"
proof -
  have "map static_part (rs[i := r]) = map static_part rs"
    using assms(2,3) by (simp add: map_update list_update_same_conv)
  then have "statics_ok res (rs[i := r]) = statics_ok res rs" by (rule statics_cong)
  moreover have "record_player r = record_player (rs ! i)" "record_entity r = record_entity (rs ! i)"
    using assms(3) by (simp_all add: static_part_def)
  moreover have "rs ! i \<in> set rs" using assms(2) by simp
  ultimately show ?thesis
    using assms by (auto simp: identities_ok_def dest!: set_update_subset_insert [THEN subsetD])
qed

lemma durable_update_same:
  "i < length rs \<Longrightarrow> durableRecord r = durableRecord (rs ! i) \<Longrightarrow> durableRecords (rs[i := r]) = durableRecords rs"
  by (simp add: durableRecords_def map_update list_update_same_conv)

lemma durable_incomplete:
  "static_part r = static_part r' \<Longrightarrow> \<not> record_established r \<Longrightarrow> \<not> record_established r' \<Longrightarrow> durableRecord r = durableRecord r'"
  by (simp add: durableRecord_def static_part_def)

lemma findRecord_SomeD: "findRecord rs player = Some i \<Longrightarrow> i < length rs \<and> record_player (rs ! i) = player"
  unfolding findRecord_def by (drule find_index_iff) simp

lemma saveEach_ok:
  "saveEach candidate seen changed saved = Some (candidate', changed') \<Longrightarrow> identities_ok c res candidate np ne ex \<Longrightarrow>
     identities_ok c res candidate' np ne ex \<and> map static_part candidate' = map static_part candidate"
proof (induction candidate seen changed saved rule: saveEach.induct)
  case (2 candidate seen changed player rest)
  let ?P = "\<lambda>r. record_player r = playerId player \<and> record_entity r = entityId player \<and> claim_appearance (pid_claim r) = appearanceId player"
  from 2(3) have unseen: "playerId player \<notin> set seen" by (auto split: if_splits)
  with 2(3) obtain i where i: "find_index ?P candidate = Some i" by (auto split: option.splits)
  then have at: "i < length candidate" "?P (candidate ! i)" using find_index_iff [OF i] by blast+
  show ?case
  proof (cases "record_established (candidate ! i)")
    case False
    with 2 unseen i show ?thesis by simp
  next
    case True
    let ?r = "(candidate ! i)\<lparr>pid_saved := Some player\<rparr>"
    have "identities_ok c res (candidate[i := ?r]) np ne ex"
      using 2(4) at True by (intro identities_ok_update) (auto simp: saved_ok_def static_part_def)
    moreover have "map static_part (candidate[i := ?r]) = map static_part candidate"
      using at(1) by (simp add: map_update list_update_same_conv static_part_def)
    ultimately show ?thesis using 2(2) [OF unseen i] 2(3) True unseen i by simp
  qed
qed simp

lemma reg_ok_savePlayers:
  assumes "reg_ok c reg"
  shows "reg_ok c (fst (savePlayers reg saved written))"
proof (cases "\<exists>candidate. \<not> registryBusy reg \<and> saveEach (reg_records reg) [] False saved = Some (candidate, True) \<and> written \<and> saved \<noteq> []")
  case True
  then obtain candidate where *: "\<not> registryBusy reg" "saveEach (reg_records reg) [] False saved = Some (candidate, True)" written "saved \<noteq> []"
    by blast
  note ok = reg_okD [OF assms]
  from saveEach_ok [OF *(2) ok(2)] ok * show ?thesis by (auto simp: savePlayers_def registryBusy_def intro!: reg_okI)
next
  case False
  then have "fst (savePlayers reg saved written) = reg" by (auto simp: savePlayers_def split: option.splits prod.splits)
  with assms show ?thesis by simp
qed

lemma reg_ok_restart:
  assumes "reg_ok c reg"
  shows "reg_ok c (fst (restartIncompleteCharacter reg player))"
proof (cases "registryBusy reg \<or> findRecord (reg_records reg) player = None")
  case False
  then obtain i where i: "findRecord (reg_records reg) player = Some i" "\<not> registryBusy reg" by auto
  note ok = reg_okD [OF assms]
  have at: "i < length (reg_records reg)" using findRecord_SomeD [OF i(1)] by simp
  let ?r = "(reg_records reg ! i)\<lparr>pid_profile := freshProfile, pid_saved := None\<rparr>"
  show ?thesis
  proof (cases "record_established (reg_records reg ! i)")
    case incomplete: False
    have "identities_ok c (reg_reserved reg) ((reg_records reg)[i := ?r]) (reg_nextPlayer reg) (reg_nextEntity reg) (reg_exhausted reg)"
      using fresh_ok [of c] by (intro identities_ok_update [OF ok(2) at]) (simp_all add: static_part_def saved_ok_def freshProfile_def)
    moreover have "durableRecords ((reg_records reg)[i := ?r]) = durableRecords (reg_records reg)"
      using incomplete by (intro durable_update_same [OF at] durable_incomplete) (simp_all add: static_part_def freshProfile_def)
    ultimately show ?thesis using ok i incomplete by (auto simp: restartIncompleteCharacter_def registryBusy_def intro!: reg_okI)
  qed (use assms i in \<open>simp add: restartIncompleteCharacter_def\<close>)
qed (use assms in \<open>auto simp: restartIncompleteCharacter_def\<close>)

lemma applied_profile_ok:
  "content_ok c \<Longrightarrow> profile_ok c p \<or> prof_lifecycle p = EstablishedCharacter \<Longrightarrow>
     applyCharacterCreation p c cmd = Some (Inr q) \<Longrightarrow> profile_ok c q \<and> prof_lifecycle p \<noteq> EstablishedCharacter"
  using apply_ok [of c p cmd q] by (auto simp: applyCharacterCreation_def)

lemma prepareCharacter_defined:
  assumes "content_ok c" and "reg_ok c reg"
  shows "prepareCharacterCreation reg player c cmd checkpoint \<noteq> None"
proof (cases "findRecord (reg_records reg) player")
  case None
  then show ?thesis by (simp add: prepareCharacterCreation_def)
next
  case (Some i)
  let ?p = "pid_profile (reg_records reg ! i)"
  have "reg_records reg ! i \<in> set (reg_records reg)" using findRecord_SomeD [OF Some] by simp
  then have "prof_lifecycle ?p = EstablishedCharacter \<or> profile_ok c ?p"
    using reg_okD(2) [OF assms(2)] by (auto simp: identities_ok_def)
  then have "applyCharacterCreation ?p c cmd \<noteq> None"
    using apply_defined [OF assms(1), of ?p cmd] by (auto simp: applyCharacterCreation_def)
  then obtain a where "applyCharacterCreation ?p c cmd = Some a" by blast
  then show ?thesis using Some
    by (cases a) (simp_all add: prepareCharacterCreation_def Let_def split: option.split)
qed

text \<open>A preparation keeps the records; its candidate differs in one record that was not established.\<close>

lemma prepareCharacter_cases:
  assumes "prepareCharacterCreation reg player c cmd checkpoint = Some (reg', res)"
  obtains "reg' = reg" "\<exists>e. res = Inl e"
    | i q r where "\<not> registryBusy reg" "findRecord (reg_records reg) player = Some i"
        "applyCharacterCreation (pid_profile (reg_records reg ! i)) c cmd = Some (Inr q)"
        "static_part r = static_part (reg_records reg ! i)" "pid_profile r = q"
        "if prof_lifecycle q = EstablishedCharacter then saved_ok r else pid_saved r = pid_saved (reg_records reg ! i)"
        "reg' = reg\<lparr>reg_nextPreparationId := reg_nextPreparationId reg + 1,
           reg_pendingProfile := Some \<lparr>pcp_id = reg_nextPreparationId reg, pcp_prior = reg_records reg,
             pcp_candidate = (reg_records reg)[i := r], pcp_profile = q, pcp_durable = (prof_lifecycle q = EstablishedCharacter)\<rparr>\<rparr>"
        "res = Inr (reg_nextPreparationId reg, q)"
proof (cases "\<exists>e. res = Inl e")
  case True
  with assms have "reg' = reg" unfolding prepareCharacterCreation_def Let_def
    by (auto split: if_split_asm option.split_asm sum.split_asm)
  from that(1) [OF this True] show thesis .
next
  case False
  with assms obtain i where i: "\<not> registryBusy reg" "findRecord (reg_records reg) player = Some i"
    by (auto simp: prepareCharacterCreation_def split: if_split_asm option.split_asm)
  let ?r = "reg_records reg ! i"
  from assms False i obtain q where q: "applyCharacterCreation (pid_profile ?r) c cmd = Some (Inr q)"
    by (auto simp: prepareCharacterCreation_def Let_def split: if_split_asm option.split_asm sum.split_asm)
  show thesis
  proof (cases "prof_lifecycle q = EstablishedCharacter")
    case durable: True
    with assms False i q obtain cp where cp: "checkpoint = Some cp" "playerId cp = record_player ?r" "entityId cp = record_entity ?r"
      "appearanceId cp = claim_appearance (pid_claim ?r)"
      by (auto simp: prepareCharacterCreation_def Let_def split: if_split_asm option.split_asm)
    show thesis using assms False durable cp
      by (intro that(2) [OF i q, of "?r\<lparr>pid_profile := q, pid_saved := Some cp\<rparr>"])
        (auto simp: prepareCharacterCreation_def Let_def i q saved_ok_def static_part_def split: if_split_asm)
  next
    case incomplete: False
    show thesis using assms False incomplete
      by (intro that(2) [OF i q, of "?r\<lparr>pid_profile := q\<rparr>"])
        (auto simp: prepareCharacterCreation_def Let_def i q static_part_def split: if_split_asm)
  qed
qed

lemma reg_ok_prepareCharacter:
  assumes "content_ok c" and "reg_ok c reg" and "prepareCharacterCreation reg player c cmd checkpoint = Some (reg', res)"
  shows "reg_ok c reg'"
  using assms(3)
proof (cases rule: prepareCharacter_cases)
  case (2 i q r)
  note ok = reg_okD [OF assms(2)]
  let ?r = "reg_records reg ! i"
  have at: "i < length (reg_records reg)" using findRecord_SomeD [OF 2(2)] by simp
  then have old: "saved_ok ?r" "record_established ?r \<or> profile_ok c (pid_profile ?r)" using ok(2) by (auto simp: identities_ok_def)
  have q: "profile_ok c q" "\<not> record_established ?r" using applied_profile_ok [OF assms(1) _ 2(3)] old(2) by blast+
  have "saved_ok r" using 2(4-6) old(1) q(2) by (auto simp: saved_ok_def static_part_def split: if_splits option.splits)
  then have "identities_ok c (reg_reserved reg) ((reg_records reg)[i := r]) (reg_nextPlayer reg) (reg_nextEntity reg) (reg_exhausted reg)"
    using identities_ok_update [OF ok(2) at 2(4)] q(1) 2(5) by simp
  moreover have "durableRecords ((reg_records reg)[i := r]) = durableRecords (reg_records reg)" if "prof_lifecycle q \<noteq> EstablishedCharacter"
    using that q(2) 2(5) durable_incomplete [OF 2(4)] by (intro durable_update_same [OF at]) simp
  ultimately show ?thesis using ok 2(1,7) by (auto simp: reg_ok_def registryBusy_def)
qed (use assms(2) in simp)

lemma reg_ok_commitCharacter:
  assumes "reg_ok c reg"
  shows "reg_ok c (fst (commitCharacterCreation reg ident written))"
proof (cases "snd (commitCharacterCreation reg ident written)")
  case True
  then obtain p where p: "reg_pendingProfile reg = Some p" "pcp_id p = ident" "reg_committedProfile reg = None" "pcp_durable p \<longrightarrow> written"
    by (auto simp: commitCharacterCreation_def split: option.splits if_splits)
  have idle: "reg_pending reg = None" "reg_committed reg = None"
    using assms p(1) by (cases "reg_pending reg"; cases "reg_committed reg"; auto simp: reg_ok_def pending_identity_ok_def)+
  from assms p idle show ?thesis by (auto simp: commitCharacterCreation_def reg_ok_def)
next
  case False
  then have "fst (commitCharacterCreation reg ident written) = reg" by (auto simp: commitCharacterCreation_def split: option.splits if_splits)
  with assms show ?thesis by simp
qed

lemma reg_ok_rollbackCharacter:
  assumes "reg_ok c reg"
  shows "reg_ok c (fst (rollbackCharacterCreation reg ident written))"
proof (cases "snd (rollbackCharacterCreation reg ident written)")
  case True
  then obtain q where q: "reg_committedProfile reg = Some q" "ccp_id q = ident" "ccp_durable q \<longrightarrow> written"
    by (auto simp: rollbackCharacterCreation_def split: option.splits if_splits)
  have idle: "reg_pending reg = None" "reg_committed reg = None" "reg_pendingProfile reg = None"
    using assms q(1) by (cases "reg_pending reg"; cases "reg_committed reg"; cases "reg_pendingProfile reg"; auto simp: reg_ok_def pending_identity_ok_def)+
  from assms q idle show ?thesis by (auto simp: rollbackCharacterCreation_def reg_ok_def)
next
  case False
  then have "fst (rollbackCharacterCreation reg ident written) = reg" by (auto simp: rollbackCharacterCreation_def split: option.splits if_splits)
  with assms show ?thesis by simp
qed

section \<open>Executions\<close>

datatype identity_event =
  PrepareIdentity ContentManifest "PlayerCredential option" "u8 list" "u8 list option"
| CommitIdentity u64 bool | FinalizeIdentity u64 | RollbackIdentity u64 bool | CancelIdentity u64
| SavePlayers "CanonicalPlayerEntityState list" bool | RestartCharacter PlayerId
| PrepareCharacter PlayerId CharacterCreationCommand "CanonicalPlayerEntityState option"
| CommitCharacter u64 bool | FinalizeCharacter u64 | RollbackCharacter u64 bool | CancelCharacter u64

fun identity_step :: "CredentialCrypto \<Rightarrow> CharacterContentCatalog \<Rightarrow> PlayerIdentityRegistry \<Rightarrow> identity_event \<Rightarrow> PlayerIdentityRegistry" where
  "identity_step crypto c reg (PrepareIdentity m cred name random) = fst (prepareCreate crypto reg m cred name random)"
| "identity_step crypto c reg (CommitIdentity i written) = fst (commitIdentity reg i written)"
| "identity_step crypto c reg (FinalizeIdentity i) = fst (finalizeIdentity reg i)"
| "identity_step crypto c reg (RollbackIdentity i written) = fst (rollbackIdentity reg i written)"
| "identity_step crypto c reg (CancelIdentity i) = fst (cancelIdentity reg i)"
| "identity_step crypto c reg (SavePlayers saved written) = fst (savePlayers reg saved written)"
| "identity_step crypto c reg (RestartCharacter player) = fst (restartIncompleteCharacter reg player)"
| "identity_step crypto c reg (PrepareCharacter player cmd checkpoint) =
     (case prepareCharacterCreation reg player c cmd checkpoint of Some (reg', res) \<Rightarrow> reg' | None \<Rightarrow> reg)"
| "identity_step crypto c reg (CommitCharacter i written) = fst (commitCharacterCreation reg i written)"
| "identity_step crypto c reg (FinalizeCharacter i) = fst (finalizeCharacterCreation reg i)"
| "identity_step crypto c reg (RollbackCharacter i written) = fst (rollbackCharacterCreation reg i written)"
| "identity_step crypto c reg (CancelCharacter i) = fst (cancelCharacterCreation reg i)"

lemma reg_ok_step: "content_ok c \<Longrightarrow> reg_ok c reg \<Longrightarrow> reg_ok c (identity_step crypto c reg ev)"
proof (cases ev)
  case (PrepareIdentity m cred name random)
  moreover assume "reg_ok c reg"
  ultimately show ?thesis using reg_ok_prepareCreate [of c reg crypto m cred name random "fst (prepareCreate crypto reg m cred name random)"
      "snd (prepareCreate crypto reg m cred name random)"] by simp
next
  case (PrepareCharacter player cmd checkpoint)
  moreover assume "content_ok c" "reg_ok c reg"
  ultimately show ?thesis using reg_ok_prepareCharacter [of c reg player cmd checkpoint] by (simp split: option.split)
qed (simp_all add: reg_ok_commitIdentity reg_ok_end reg_ok_rollbackIdentity reg_ok_savePlayers reg_ok_restart
    reg_ok_commitCharacter reg_ok_rollbackCharacter)

interpretation identities: step_system "identity_step crypto c" "\<lambda>reg. content_ok c \<and> reg_ok c reg" for crypto c
  by unfold_locales (simp add: reg_ok_step)

lemma reachable_reg_ok:
  "createRegistry given res = Inr reg0 \<Longrightarrow> content_ok c \<Longrightarrow> reg_ok c (foldl (identity_step crypto c) reg0 evs)"
  using identities.inv_run [of c reg0 crypto evs] createRegistry_Inr by blast

text \<open>The one-call form is the preparation followed by its commit and finalization.\<close>

lemma applyRegistryCreation_steps:
  assumes "applyRegistryCreation reg player c cmd checkpoint written = Some (reg', res)"
  shows "\<exists>evs. reg' = foldl (identity_step crypto c) reg evs"
proof -
  obtain reg1 r where prep: "prepareCharacterCreation reg player c cmd checkpoint = Some (reg1, r)"
    using assms by (cases "prepareCharacterCreation reg player c cmd checkpoint") (auto simp: applyRegistryCreation_def)
  let ?prep = "PrepareCharacter player cmd checkpoint"
  have one: "identity_step crypto c reg ?prep = reg1" using prep by simp
  show ?thesis
  proof (cases r)
    case (Inl e)
    with assms prep one show ?thesis by (intro exI [of _ "[?prep]"]) (simp add: applyRegistryCreation_def)
  next
    case (Inr ip)
    let ?i = "fst ip"
    have "reg' = foldl (identity_step crypto c) reg [?prep, CommitCharacter ?i written, FinalizeCharacter ?i]
        \<or> reg' = foldl (identity_step crypto c) reg [?prep, CommitCharacter ?i written, CancelCharacter ?i]"
      using assms prep Inr one by (cases ip) (auto simp: applyRegistryCreation_def Let_def split: prod.splits if_splits)
    then show ?thesis by blast
  qed
qed


section \<open>Properties\<close>

text \<open>A registry that starts empty, prepares one identity and commits it.\<close>

definition empty_registry :: PlayerIdentityRegistry where
  "empty_registry = \<lparr>reg_records = [], reg_reserved = [1, 2], reg_nextPlayer = 1, reg_nextEntity = 3, reg_pending = None,
     reg_committed = None, reg_pendingProfile = None, reg_committedProfile = None, reg_nextPreparationId = 1, reg_exhausted = False,
     reg_durable = []\<rparr>"

lemma skip_sample: "skipReserved [1, 2] 1 = Some 3" "skipReserved [1, 2] 4 = Some 4"
  by (simp_all add: skipReserved.simps binary_search_def find_key_def lower_bound_def next_value_def u64_max_def)

lemma empty_registry_created: "createRegistry [] [1, 2] = Inr empty_registry"
  by (simp add: createRegistry_def empty_registry_def MaximumPlayerIdentityRecords_def skip_sample u64_max_def)

definition sample_name :: "u8 list" where
  "sample_name = [0x41, 0x62, 0x63]"

definition identity_sample_events :: "identity_event list" where
  "identity_sample_events = [PrepareIdentity sample_manifest None sample_name (Some [7]), CommitIdentity 1 True]"

lemma sample_name_valid: "isValidPlayerUsername sample_name" "sample_name \<noteq> []"
  by (simp_all add: isValidPlayerUsername_def sample_name_def MinimumPlayerUsernameBytes_def MaximumPlayerUsernameBytes_def usernameByte_def)

definition identity_sample_record :: PersistedPlayerIdentity where
  "identity_sample_record = \<lparr>pid_claim = \<lparr>claim_player = 1, claim_entity = 3, claim_appearance = 1, claim_manifest = mId sample_manifest\<rparr>,
     pid_digest = [7], pid_saved = None, pid_profile = freshProfile, pid_username = sample_name\<rparr>"

lemma sample_durable: "durableRecords [identity_sample_record] = [identity_sample_record]"
  by (simp add: durableRecords_def durableRecord_def identity_sample_record_def freshProfile_def)

lemma identity_sample_prepare:
  "prepareCreate sample_crypto empty_registry sample_manifest None sample_name (Some [7]) =
     (empty_registry\<lparr>reg_nextPreparationId := 2, reg_pending := Some \<lparr>pin_id = 1, pin_record = identity_sample_record, pin_credential = [7]\<rparr>\<rparr>,
      Inr (1, pid_claim identity_sample_record))"
  using sample_name_valid
  by (simp add: prepareCreate_def Let_def empty_registry_def registryBusy_def MaximumPlayerIdentityRecords_def hasUsername_def
      sample_crypto_def identity_sample_record_def sample_manifest_def)

lemma sample_run_registry:
  "foldl (identity_step sample_crypto c) empty_registry identity_sample_events =
     empty_registry\<lparr>reg_nextPreparationId := 2, reg_records := [identity_sample_record], reg_durable := [identity_sample_record], reg_nextPlayer := 2, reg_nextEntity := 4,
       reg_committed := Some \<lparr>cin_id = 1, cin_prior = [], cin_priorNextPlayer = 1, cin_priorNextEntity = 3, cin_priorExhausted = False\<rparr>\<rparr>"
  unfolding identity_sample_events_def foldl.simps identity_step.simps identity_sample_prepare fst_conv
  by (simp add: commitIdentity_def Let_def empty_registry_def advanceIdentities_def next_value_def u64_max_def
      skip_sample durableRecords_def durableRecord_def identity_sample_record_def)

text \<open>
  C18. However identities and characters are prepared, committed, rolled back and saved, and whichever
  of the writes fail, what the persistence last accepted is the records in memory with incomplete
  characters reset; a server restarted on it starts and holds exactly these records, or is refused
  because the identifiers have run out, which happens only where the stopped server had run out of them too.
\<close>

theorem identity_restart:
  assumes "createCharacterContentCatalog m sp sp' races classes signs items = Some c0" and "list_all race_typed races"
    and "c = withConstruction c0 constr" and "createRegistry given res = Inr reg0"
    and "reg = foldl (identity_step crypto c) reg0 evs"
  shows "reg_durable reg = durableRecords (reg_records reg)
    \<and> (case createRegistry (reg_durable reg) (reg_reserved reg) of
         Inl e \<Rightarrow> e = IdentityExhausted \<and> reg_exhausted reg
       | Inr reg' \<Rightarrow> reg_records reg' = durableRecords (reg_records reg))"
proof -
  have "content_ok c" using create_content_ok [OF assms(1,2)] assms(3) by simp
  from reachable_reg_ok [OF assms(4) this] have ok: "reg_ok c reg" by (simp add: assms(5))
  from createRegistry_durable [OF ok] show ?thesis unfolding reg_okD(3) [OF ok, symmetric] by simp
qed

theorem identity_restart_witness:
  "\<exists>reg'. createRegistry [identity_sample_record] [1, 2] = Inr reg' \<and> reg_records reg' = [identity_sample_record]"
proof -
  note restart = identity_restart [OF sample_created [THEN conjunct1] sample_created [THEN conjunct2] refl empty_registry_created refl,
      of sample_crypto None identity_sample_events, THEN conjunct2, unfolded sample_run_registry]
  then show ?thesis by (cases "createRegistry [identity_sample_record] [1, 2]") (simp_all add: empty_registry_def sample_durable)
qed

text \<open>
  C22. No two identities of a reachable registry share a player, an entity, a credential digest or a user
  name (upper and lower case not distinguished), no reserved entity is handed out, exactly the
  established characters have a saved player and it is theirs, and preparing the next step of a
  character is always defined.
\<close>

theorem identity_records_unique:
  assumes "createCharacterContentCatalog m sp sp' races classes signs items = Some c0" and "list_all race_typed races"
    and "c = withConstruction c0 constr" and "createRegistry given res = Inr reg0"
    and "reg = foldl (identity_step crypto c) reg0 evs"
  shows "keys_sorted record_player (reg_records reg) \<and> length (reg_records reg) \<le> MaximumPlayerIdentityRecords
    \<and> (\<forall>r \<in> set (reg_records reg). record_entity r \<notin> set (reg_reserved reg) \<and> saved_ok r)
    \<and> (\<forall>r \<in> set (reg_records reg). \<forall>p \<in> set (reg_records reg). r \<noteq> p \<longrightarrow>
         record_player r \<noteq> record_player p \<and> record_entity r \<noteq> record_entity p \<and> pid_digest r \<noteq> pid_digest p
         \<and> \<not> recordHasUsername r (pid_username p))
    \<and> prepareCharacterCreation reg player c cmd checkpoint \<noteq> None"
proof -
  have c: "content_ok c" using create_content_ok [OF assms(1,2)] assms(3) by simp
  from reachable_reg_ok [OF assms(4) c] have ok: "reg_ok c reg" by (simp add: assms(5))
  then have static: "statics_ok (reg_reserved reg) (reg_records reg)" "length (reg_records reg) \<le> MaximumPlayerIdentityRecords"
    "\<forall>r \<in> set (reg_records reg). saved_ok r" using reg_okD(2) [OF ok] by (simp_all add: identities_ok_def)
  show ?thesis using statics_distinct [OF static(1)] static statics_players [OF static(1)] prepareCharacter_defined [OF c ok]
    unfolding recordHasUsername_iff by blast
qed

theorem identity_records_unique_witness:
  "\<exists>reg. reg = foldl (identity_step sample_crypto (withConstruction sample_content None)) empty_registry identity_sample_events
     \<and> reg_records reg = [identity_sample_record] \<and> keys_sorted record_player (reg_records reg) \<and> saved_ok identity_sample_record"
  using identity_records_unique [OF sample_created [THEN conjunct1] sample_created [THEN conjunct2] refl empty_registry_created refl,
      of sample_crypto None identity_sample_events] by (simp add: sample_run_registry)

text \<open>
  A prepared identity is new: no record has its player or entity. After a commit that was written its
  credential authenticates it, under its user name and content manifest, and rolling the commit back
  gives the records and the next identities of before; a commit that was not written changes nothing.
\<close>

theorem identity_commit_authenticates:
  assumes "createCharacterContentCatalog m sp sp' races classes signs items = Some c0" and "list_all race_typed races"
    and "c = withConstruction c0 constr" and "createRegistry given res = Inr reg0"
    and "reg = foldl (identity_step crypto c) reg0 evs" and "\<forall>x y. constantTimeEqual crypto x y \<longleftrightarrow> x = y"
    and "prepareCreate crypto reg manifest cred name random = (reg1, Inr (ident, claim))"
    and "commitIdentity reg1 ident True = (reg2, committed)" and "rollbackIdentity reg2 ident True = (reg3, rolledBack)"
  shows "(\<forall>r \<in> set (reg_records reg). record_player r \<noteq> claim_player claim \<and> record_entity r \<noteq> claim_entity claim)
    \<and> claim_entity claim \<notin> set (reg_reserved reg)
    \<and> committed \<and> (\<exists>credential. copyPreparedCredential reg1 ident = Some credential
         \<and> authenticatePlayer crypto reg2 credential (mId manifest) name = Some claim)
    \<and> rolledBack \<and> reg_records reg3 = reg_records reg \<and> reg_nextPlayer reg3 = reg_nextPlayer reg \<and> reg_nextEntity reg3 = reg_nextEntity reg
    \<and> commitIdentity reg1 ident False = (reg1, False)"
proof -
  have c: "content_ok c" using create_content_ok [OF assms(1,2)] assms(3) by simp
  from reachable_reg_ok [OF assms(4) c] have ok: "reg_ok c reg" by (simp add: assms(5))
  have ok1: "reg_ok c reg1" by (rule reg_ok_prepareCreate [OF ok assms(7)])
  from assms(7) show ?thesis
  proof (cases rule: prepareCreate_cases)
    case (2 credential dg p)
    let ?r = "pin_record p"
    have p: "pin_id p = ident" "pid_claim ?r = claim" "pin_credential p = credential" "pid_digest ?r = dg" "pid_username ?r = name"
      "claim_manifest claim = mId manifest" using 2(7,9) by auto
    have pending: "reg_pending reg1 = Some p" "reg_records reg1 = reg_records reg" "reg_committed reg1 = None"
      "reg_nextPlayer reg1 = reg_nextPlayer reg" "reg_nextEntity reg1 = reg_nextEntity reg" "reg_reserved reg1 = reg_reserved reg"
      using 2(1,8) by (simp_all add: registryBusy_def)
    have "pending_identity_ok reg1 p" using ok1 pending(1) by (simp add: reg_ok_def)
    then have "static_new (reg_reserved reg) (map static_part (reg_records reg)) (static_part ?r)" using pending by (simp add: pending_identity_ok_def)
    then have new: "\<forall>q \<in> set (reg_records reg). record_player q < record_player ?r \<and> record_entity q \<noteq> record_entity ?r" "record_entity ?r \<notin> set (reg_reserved reg)"
      by (auto simp: static_new_record)
    have "keys_sorted record_player (reg_records reg)" using reg_okD(2) [OF ok] statics_players by (auto simp: identities_ok_def)
    then have sorted: "sort_key record_player (reg_records reg @ [?r]) = reg_records reg @ [?r]" using new(1) by (intro sort_key_snoc_greater) auto
    have reg2: "committed" "reg_records reg2 = reg_records reg @ [?r]" "reg_committed reg2 = Some \<lparr>cin_id = ident, cin_prior = reg_records reg,
        cin_priorNextPlayer = reg_nextPlayer reg, cin_priorNextEntity = reg_nextEntity reg, cin_priorExhausted = reg_exhausted reg1\<rparr>"
      using assms(8) sorted pending p(1) by (auto simp: commitIdentity_def Let_def)
    have none: "authenticateIn crypto dg mid nm (rs @ [?r]) = authenticateIn crypto dg mid nm [?r]" if "\<forall>q \<in> set rs. pid_digest q \<noteq> dg" for mid nm rs
      using that assms(6) by (induction rs) auto
    have "name = [] \<or> recordHasUsername ?r name" by (cases name) (simp_all add: recordHasUsername_iff same_name_def p)
    then have "authenticatePlayer crypto reg2 credential (mId manifest) name = Some claim"
      using 2(5,6) assms(6) none [OF 2(6)] p by (auto simp: authenticatePlayer_def reg2(2))
    moreover have "copyPreparedCredential reg1 ident = Some credential" using pending(1) p by (simp add: copyPreparedCredential_def)
    moreover have "rolledBack \<and> reg_records reg3 = reg_records reg \<and> reg_nextPlayer reg3 = reg_nextPlayer reg \<and> reg_nextEntity reg3 = reg_nextEntity reg"
      using assms(9) reg2(3) by (auto simp: rollbackIdentity_def)
    moreover have "commitIdentity reg1 ident False = (reg1, False)" using pending p(1) by (simp add: commitIdentity_def Let_def)
    ultimately show ?thesis using new reg2(1) p(2) by fastforce
  qed simp
qed

theorem identity_commit_authenticates_witness:
  "\<exists>reg1 reg2. prepareCreate sample_crypto empty_registry sample_manifest None sample_name (Some [7]) = (reg1, Inr (1, pid_claim identity_sample_record))
     \<and> commitIdentity reg1 1 True = (reg2, True) \<and> authenticatePlayer sample_crypto reg2 [7] (mId sample_manifest) sample_name = Some (pid_claim identity_sample_record)"
proof -
  let ?reg1 = "fst (prepareCreate sample_crypto empty_registry sample_manifest None sample_name (Some [7]))"
  let ?reg2 = "fst (commitIdentity ?reg1 1 True)"
  have eq: "\<forall>x y. constantTimeEqual sample_crypto x y \<longleftrightarrow> x = y" by (simp add: sample_crypto_def)
  have run: "empty_registry = foldl (identity_step sample_crypto (withConstruction sample_content None)) empty_registry []" by simp
  have prep: "prepareCreate sample_crypto empty_registry sample_manifest None sample_name (Some [7]) = (?reg1, Inr (1, pid_claim identity_sample_record))"
    by (simp add: identity_sample_prepare)
  have c: "commitIdentity ?reg1 1 True = (?reg2, snd (commitIdentity ?reg1 1 True))" by simp
  have r: "rollbackIdentity ?reg2 1 True = (fst (rollbackIdentity ?reg2 1 True), snd (rollbackIdentity ?reg2 1 True))" by simp
  have cred: "copyPreparedCredential ?reg1 1 = Some [7]" by (simp add: identity_sample_prepare copyPreparedCredential_def)
  from identity_commit_authenticates [OF sample_created [THEN conjunct1] sample_created [THEN conjunct2] refl empty_registry_created run eq prep c r]
  have "snd (commitIdentity ?reg1 1 True)" "authenticatePlayer sample_crypto ?reg2 [7] (mId sample_manifest) sample_name = Some (pid_claim identity_sample_record)"
    using cred by auto
  with prep c show ?thesis by (intro exI [of _ ?reg1] exI [of _ ?reg2]) auto
qed

end
