(* ===== verification/Movement_Kernel.thy ===== *)
theory Movement_Kernel
  imports Content_Identity
begin

text \<open>
  One tick of movement (\<^verbatim>\<open>movement_kernel.hpp\<close> and \<^verbatim>\<open>server_core/movement_kernel.cpp\<close>): the desired
  velocity is checked against the movement profile, integrated without overflow, resolved by the
  collision query of the server, and checked again. The collision query is an interface of the
  server whose implementations live in the game adapter: it is a function argument.
\<close>

section \<open>Model\<close>

record ServerCollisionRequest =
  cq_contentManifest :: ContentManifestId
  cq_entity :: EntityId
  cq_tick :: ServerTick
  cq_currentRoot :: Transform
  cq_attemptedPosition :: Position3
  cq_attemptedVelocity :: LinearVelocity3
  cq_locomotionMode :: LocomotionMode

record ServerCollisionResult =
  cr_position :: Position3
  cr_velocity :: LinearVelocity3

type_synonym ServerCollisionQuery = "ServerCollisionRequest \<Rightarrow> ServerCollisionResult option"

definition unobstructedCollision :: ServerCollisionQuery where
  "unobstructedCollision request =
     Some \<lparr>cr_position = cq_attemptedPosition request, cr_velocity = cq_attemptedVelocity request\<rparr>"

datatype MovementKernelError = MotionOutOfRange | IntegrationOverflow | CollisionUnavailable | CollisionResultOutOfRange

record MovementKernelStep =
  ks_root :: Transform
  ks_velocity :: LinearVelocity3

definition i64_max :: i64 where
  "i64_max = 0x7fffffffffffffff"

definition i64_min :: i64 where
  "i64_min = 0x8000000000000000"

definition checkedAdd :: "i64 \<Rightarrow> i64 \<Rightarrow> i64 option" where
  "checkedAdd left right =
     (if 0 <s right \<and> i64_max - right <s left \<or> right <s 0 \<and> left <s i64_min - right then None else Some (left + right))"

definition advanceMovementKernel ::
  "ContentManifestId \<Rightarrow> MovementProfile \<Rightarrow> LocomotionMode \<Rightarrow> EntityId \<Rightarrow> ServerTick \<Rightarrow> Transform \<Rightarrow> LinearVelocity3
   \<Rightarrow> ServerCollisionQuery \<Rightarrow> MovementKernelError + MovementKernelStep" where
  "advanceMovementKernel contentManifest profile mode entity tick currentRoot desiredVelocity collision =
     (if \<not> profileAllows profile mode desiredVelocity then Inl MotionOutOfRange
      else
        let current = t_position currentRoot;
            x = checkedAdd (pos_x current) (vel_x desiredVelocity);
            y = checkedAdd (pos_y current) (vel_y desiredVelocity);
            z = checkedAdd (pos_z current) (vel_z desiredVelocity)
        in (case (x, y, z) of
              (Some x, Some y, Some z) \<Rightarrow>
                let request = \<lparr>cq_contentManifest = contentManifest, cq_entity = entity, cq_tick = tick, cq_currentRoot = currentRoot,
                      cq_attemptedPosition = \<lparr>pos_x = x, pos_y = y, pos_z = z\<rparr>, cq_attemptedVelocity = desiredVelocity,
                      cq_locomotionMode = mode\<rparr>
                in (case collision request of
                      None \<Rightarrow> Inl CollisionUnavailable
                    | Some resolved \<Rightarrow>
                      if \<not> profileAllows profile mode (cr_velocity resolved) then Inl CollisionResultOutOfRange
                      else Inr \<lparr>ks_root = \<lparr>t_cell = t_cell currentRoot, t_position = cr_position resolved,
                                           t_orientation = t_orientation currentRoot\<rparr>,
                                ks_velocity = cr_velocity resolved\<rparr>)
            | _ \<Rightarrow> Inl IntegrationOverflow))"

section \<open>Exact integration\<close>

definition i64_fits :: "int \<Rightarrow> bool" where
  "i64_fits i \<longleftrightarrow> - (2 ^ 63) \<le> i \<and> i < 2 ^ 63"

lemma sint_i64: "- (2 ^ 63) \<le> sint (v :: i64)" "sint v < 2 ^ 63"
  using sint_greater_eq [of v] sint_less [of v] by simp_all

lemma sint_of_fits: "i64_fits i \<Longrightarrow> sint (word_of_int i :: i64) = i"
  using signed_take_bit_int_eq_self_iff [of 63 i] by (simp add: i64_fits_def sint_sbintrunc')

lemma sint_add: "i64_fits (sint a + sint b) \<Longrightarrow> sint (a + b) = sint a + sint (b :: i64)"
  using sint_of_fits [of "sint a + sint b"] by (simp add: wi_hom_add)

lemma sint_diff: "i64_fits (sint a - sint b) \<Longrightarrow> sint (a - b) = sint a - sint (b :: i64)"
  using sint_of_fits [of "sint a - sint b"] by (simp add: wi_hom_sub)

lemma sint_limits: "sint i64_max = 2 ^ 63 - 1" "sint i64_min = - (2 ^ 63)"
  by (simp_all add: i64_max_def i64_min_def)

lemma checkedAdd_exact:
  "checkedAdd l r = (if i64_fits (sint l + sint r) then Some (l + r) else None)"
proof -
  note b = sint_i64 [of l] sint_i64 [of r]
  have up: "0 < sint r \<Longrightarrow> sint (i64_max - r) = 2 ^ 63 - 1 - sint r" using b by (subst sint_diff) (simp_all add: sint_limits i64_fits_def)
  have down: "sint r < 0 \<Longrightarrow> sint (i64_min - r) = - (2 ^ 63) - sint r" using b by (subst sint_diff) (simp_all add: sint_limits i64_fits_def)
  consider "0 < sint r" | "sint r < 0" | "sint r = 0" by linarith
  then show ?thesis
  proof cases
    case 1
    with b up [OF 1] show ?thesis by (simp add: checkedAdd_def word_sless_alt i64_fits_def)
  next
    case 2
    with b down [OF 2] show ?thesis by (simp add: checkedAdd_def word_sless_alt i64_fits_def)
  next
    case 3
    with b show ?thesis by (simp add: checkedAdd_def word_sless_alt i64_fits_def)
  qed
qed

text \<open>The position after one tick without obstacles, in integers.\<close>

definition moved :: "Position3 \<Rightarrow> LinearVelocity3 \<Rightarrow> int \<times> int \<times> int" where
  "moved p v = (sint (pos_x p) + sint (vel_x v), sint (pos_y p) + sint (vel_y v), sint (pos_z p) + sint (vel_z v))"

definition fits3 :: "int \<times> int \<times> int \<Rightarrow> bool" where
  "fits3 = (\<lambda>(x, y, z). i64_fits x \<and> i64_fits y \<and> i64_fits z)"

definition position_int :: "Position3 \<Rightarrow> int \<times> int \<times> int" where
  "position_int p = (sint (pos_x p), sint (pos_y p), sint (pos_z p))"

lemma movement_kernel_cases:
  "advanceMovementKernel m p mode e tick root v collision =
     (if \<not> profileAllows p mode v then Inl MotionOutOfRange
      else if \<not> fits3 (moved (t_position root) v) then Inl IntegrationOverflow
      else let target = \<lparr>pos_x = pos_x (t_position root) + vel_x v, pos_y = pos_y (t_position root) + vel_y v,
                         pos_z = pos_z (t_position root) + vel_z v\<rparr>
           in case collision \<lparr>cq_contentManifest = m, cq_entity = e, cq_tick = tick, cq_currentRoot = root, cq_attemptedPosition = target,
                              cq_attemptedVelocity = v, cq_locomotionMode = mode\<rparr> of
                None \<Rightarrow> Inl CollisionUnavailable
              | Some r \<Rightarrow> if profileAllows p mode (cr_velocity r)
                          then Inr \<lparr>ks_root = root\<lparr>t_position := cr_position r\<rparr>, ks_velocity = cr_velocity r\<rparr>
                          else Inl CollisionResultOutOfRange)"
  by (auto simp: advanceMovementKernel_def Let_def checkedAdd_exact fits3_def moved_def split: option.split)

lemma position_moved:
  "position_int q = moved p v \<longleftrightarrow> fits3 (moved p v) \<and> q = \<lparr>pos_x = pos_x p + vel_x v, pos_y = pos_y p + vel_y v, pos_z = pos_z p + vel_z v\<rparr>"
  (is "_ \<longleftrightarrow> _ \<and> q = ?t")
proof
  assume eq: "position_int q = moved p v"
  have "fits3 (position_int q)" using sint_i64 by (simp add: fits3_def i64_fits_def position_int_def)
  then have fits: "fits3 (moved p v)" by (simp only: eq)
  then have "position_int q = position_int ?t" using eq by (simp add: position_int_def moved_def fits3_def sint_add)
  then have "q = ?t" by (cases q) (auto simp: position_int_def intro: signed_word_eqI)
  with fits show "fits3 (moved p v) \<and> q = ?t" by blast
qed (auto simp: fits3_def position_int_def moved_def sint_add)

text \<open>
  C35. Movement is exact and bounded: whatever the collision query answers, a step keeps cell and
  orientation and has a velocity the profile allows, after a desired velocity it allows and an end
  position that is representable. Without obstacles a step is made exactly when both hold, and it ends
  at position plus velocity, computed in integers; otherwise the kernel reports which of the two failed.
\<close>

theorem movement_kernel_exact:
  "(case advanceMovementKernel m p mode e tick root v collision of
      Inl err \<Rightarrow> (err = MotionOutOfRange \<longleftrightarrow> \<not> profileAllows p mode v)
        \<and> (err = IntegrationOverflow \<longleftrightarrow> profileAllows p mode v \<and> \<not> fits3 (moved (t_position root) v))
    | Inr s \<Rightarrow> profileAllows p mode v \<and> fits3 (moved (t_position root) v) \<and> profileAllows p mode (ks_velocity s)
        \<and> t_cell (ks_root s) = t_cell root \<and> t_orientation (ks_root s) = t_orientation root)
   \<and> (advanceMovementKernel m p mode e tick root v unobstructedCollision = Inr s \<longleftrightarrow>
        profileAllows p mode v \<and> position_int (t_position (ks_root s)) = moved (t_position root) v
        \<and> t_cell (ks_root s) = t_cell root \<and> t_orientation (ks_root s) = t_orientation root \<and> ks_velocity s = v)"
proof
  let ?t = "\<lparr>pos_x = pos_x (t_position root) + vel_x v, pos_y = pos_y (t_position root) + vel_y v, pos_z = pos_z (t_position root) + vel_z v\<rparr>"
  have "advanceMovementKernel m p mode e tick root v unobstructedCollision = Inr s \<longleftrightarrow>
      profileAllows p mode v \<and> fits3 (moved (t_position root) v) \<and> s = \<lparr>ks_root = root\<lparr>t_position := ?t\<rparr>, ks_velocity = v\<rparr>"
    unfolding movement_kernel_cases by (auto simp: Let_def unobstructedCollision_def)
  then show "advanceMovementKernel m p mode e tick root v unobstructedCollision = Inr s \<longleftrightarrow>
      profileAllows p mode v \<and> position_int (t_position (ks_root s)) = moved (t_position root) v
      \<and> t_cell (ks_root s) = t_cell root \<and> t_orientation (ks_root s) = t_orientation root \<and> ks_velocity s = v"
    unfolding position_moved by (cases s; cases root; cases "ks_root s") auto
qed (unfold movement_kernel_cases, simp add: Let_def split: option.split)

end
