(* ===== verification/Deterministic_Random.thy ===== *)
theory Deterministic_Random
  imports Value_Types
begin

text \<open>
  The generator of the server's random streams (\<^verbatim>\<open>deterministic_random.hpp\<close> and
  \<^verbatim>\<open>server_core/deterministic_random.cpp\<close>): SplitMix64 turns a world seed and a stream key into the
  state of a xoshiro256** generator, which draws words and numbers below a bound. The bounded draw
  loops until a word is accepted; it is a partial function whose value is \<open>None\<close> if it never returns.
\<close>

unbundle bit_operations_syntax

section \<open>Model\<close>

definition SplitMixIncrement :: u64 where
  "SplitMixIncrement = 0x9e3779b97f4a7c15"

definition RandomV1DomainSeparator :: u64 where
  "RandomV1DomainSeparator = 0x544553334d505231"

record RandomStreamKey =
  key_domainId :: u64
  key_subjectId :: u64

definition streamKeyFromValues :: "u64 \<Rightarrow> u64 \<Rightarrow> RandomStreamKey option" where
  "streamKeyFromValues domainId subjectId =
     (if domainId = 0 then None else Some \<lparr>key_domainId = domainId, key_subjectId = subjectId\<rparr>)"

text \<open>The array of four words, of a saved state as of a generator.\<close>

record RandomStateV1 =
  word0 :: u64
  word1 :: u64
  word2 :: u64
  word3 :: u64

definition fromWords :: "u64 \<Rightarrow> u64 \<Rightarrow> u64 \<Rightarrow> u64 \<Rightarrow> RandomStateV1 option" where
  "fromWords w0 w1 w2 w3 =
     (if (w0 OR w1 OR w2 OR w3) = 0 then None else Some \<lparr>word0 = w0, word1 = w1, word2 = w2, word3 = w3\<rparr>)"

definition mix64 :: "u64 \<Rightarrow> u64" where
  "mix64 value =
     (let value1 = (value XOR drop_bit 30 value) * 0xbf58476d1ce4e5b9;
          value2 = (value1 XOR drop_bit 27 value1) * 0x94d049bb133111eb
      in value2 XOR drop_bit 31 value2)"

text \<open>\<^verbatim>\<open>SplitMix64::nextU64\<close>: the next state and the word drawn.\<close>

definition splitMixNext :: "u64 \<Rightarrow> u64 \<times> u64" where
  "splitMixNext state = (let state' = state + SplitMixIncrement in (state', mix64 state'))"

text \<open>\<open>None\<close> is \<^verbatim>\<open>value()\<close> on an empty optional, which ends the process.\<close>

definition fromWorldSeed :: "u64 \<Rightarrow> RandomStreamKey \<Rightarrow> RandomStateV1 option" where
  "fromWorldSeed worldSeed key =
     (let seed0 = mix64 (worldSeed XOR RandomV1DomainSeparator);
          seed1 = mix64 (seed0 XOR key_domainId key);
          seed2 = mix64 (seed1 XOR key_subjectId key);
          (state0, w0) = splitMixNext seed2;
          (state1, w1) = splitMixNext state0;
          (state2, w2) = splitMixNext state1;
          (state3, w3) = splitMixNext state2
      in fromWords w0 w1 w2 w3)"

definition rotl :: "nat \<Rightarrow> u64 \<Rightarrow> u64" where
  "rotl n v = push_bit n v OR drop_bit (64 - n) v"

definition nextU64 :: "RandomStateV1 \<Rightarrow> RandomStateV1 \<times> u64" where
  "nextU64 s =
     (let result = rotl 7 (word1 s * 5) * 9;
          shifted = push_bit 17 (word1 s);
          s2 = word2 s XOR word0 s;
          s3 = word3 s XOR word1 s;
          s1 = word1 s XOR s2;
          s0 = word0 s XOR s3;
          s2' = s2 XOR shifted;
          s3' = rotl 45 s3
      in (\<lparr>word0 = s0, word1 = s1, word2 = s2', word3 = s3'\<rparr>, result))"

definition drawThreshold :: "u64 \<Rightarrow> u64" where
  "drawThreshold exclusiveUpperBound = (0 - exclusiveUpperBound) mod exclusiveUpperBound"

partial_function (option) drawLoop :: "u64 \<Rightarrow> u64 \<Rightarrow> RandomStateV1 \<Rightarrow> (RandomStateV1 \<times> u64) option" where
  "drawLoop threshold exclusiveUpperBound s =
     (let (s', v) = nextU64 s
      in if v \<ge> threshold then Some (s', v mod exclusiveUpperBound) else drawLoop threshold exclusiveUpperBound s')"

definition uniformBelow :: "u64 \<Rightarrow> RandomStateV1 \<Rightarrow> (RandomStateV1 \<times> u64 option) option" where
  "uniformBelow exclusiveUpperBound s =
     (if exclusiveUpperBound = 0 then Some (s, None)
      else map_option (\<lambda>(s', v). (s', Some v)) (drawLoop (drawThreshold exclusiveUpperBound) exclusiveUpperBound s))"

section \<open>Mixing is injective\<close>

lemma xorshift_inject:
  assumes "0 < k" and "x XOR drop_bit k x = y XOR drop_bit k (y :: u64)"
  shows "x = y"
proof (rule bit_word_eqI)
  fix n assume "n < LENGTH(64)"
  have eq: "bit x n \<longleftrightarrow> bit y n \<noteq> (bit x (k + n) \<noteq> bit y (k + n))" for n
    using arg_cong [OF assms(2), of "\<lambda>w. bit w n"] by (auto simp: bit_simps)
  have "64 - n = m \<Longrightarrow> bit x n = bit y n" for m n
  proof (induction m arbitrary: n rule: less_induct)
    case (less m)
    show ?case
    proof (cases "n < 64")
      case True
      have "bit x (k + n) = bit y (k + n)"
      proof (cases "k + n < 64")
        case True
        with less.IH [of "64 - (k + n)" "k + n"] less.prems assms(1) show ?thesis by simp
      qed (simp add: not_less impossible_bit)
      with eq show ?thesis by blast
    qed (simp add: not_less impossible_bit)
  qed
  then show "bit x n = bit y n" by blast
qed

lemma times_inject:
  assumes "c * d = 1" and "x * c = y * c"
  shows "x = (y :: u64)"
proof -
  have "x = x * c * d" by (simp only: mult.assoc assms(1) mult_1_right)
  also have "\<dots> = y * c * d" by (simp only: assms(2))
  also have "\<dots> = y" by (simp only: mult.assoc assms(1) mult_1_right)
  finally show ?thesis .
qed

lemma mix64_inject: "mix64 x = mix64 y \<longleftrightarrow> x = y"
proof
  have inv: "0xbf58476d1ce4e5b9 * 0x96de1b173f119089 = (1 :: u64)" "0x94d049bb133111eb * 0x319642b2d24d8ec3 = (1 :: u64)" by simp_all
  assume "mix64 x = mix64 y"
  then show "x = y" unfolding mix64_def Let_def
    by - (rule xorshift_inject [of 30], simp, rule times_inject [OF inv(1)], rule xorshift_inject [of 27], simp,
      rule times_inject [OF inv(2)], rule xorshift_inject [of 31], simp_all)
qed simp

lemma fromWords_iff: "fromWords a b c d = Some s \<longleftrightarrow> s = \<lparr>word0 = a, word1 = b, word2 = c, word3 = d\<rparr> \<and> \<not> (a = 0 \<and> b = 0 \<and> c = 0 \<and> d = 0)"
proof -
  have "(a OR b OR c OR d) = 0 \<longleftrightarrow> a = 0 \<and> b = 0 \<and> c = 0 \<and> d = 0"
    by (auto simp: or_eq_0_iff)
  then show ?thesis by (auto simp: fromWords_def)
qed

text \<open>Two consecutive words of SplitMix64 differ, so they are not both zero.\<close>

lemma fromWorldSeed_defined: "fromWorldSeed seed key \<noteq> None"
proof -
  have "SplitMixIncrement \<noteq> 0" by (simp add: SplitMixIncrement_def)
  then have differ: "mix64 a \<noteq> mix64 (a + SplitMixIncrement)" for a by (simp add: mix64_inject)
  have defined: "fromWords w0 w1 w2 w3 \<noteq> None" if "w0 \<noteq> w1" for w0 w1 w2 w3
    using that fromWords_iff [of w0 w1 w2 w3 "\<lparr>word0 = w0, word1 = w1, word2 = w2, word3 = w3\<rparr>"] by auto
  show ?thesis unfolding fromWorldSeed_def splitMixNext_def Let_def prod.case by (rule defined) (rule differ)
qed

section \<open>A state is never zero\<close>

definition zero_state :: "RandomStateV1 \<Rightarrow> bool" where
  "zero_state s \<longleftrightarrow> word0 s = 0 \<and> word1 s = 0 \<and> word2 s = 0 \<and> word3 s = 0"

lemma rotl_zero: "n < 64 \<Longrightarrow> rotl n v = 0 \<Longrightarrow> v = 0"
proof (rule bit_word_eqI)
  fix k assume n: "n < 64" and zero: "rotl n v = 0" and k: "k < LENGTH(64)"
  have "push_bit n v = 0" "drop_bit (64 - n) v = 0" using zero by (auto simp: rotl_def or_eq_0_iff)
  then have "bit (push_bit n v) (n + k) = False" "bit (drop_bit (64 - n) v) (k - (64 - n)) = False" by simp_all
  then show "bit v k = bit 0 k" using n k by (cases "n + k < 64") (auto simp: bit_simps)
qed

lemma shift_fixed_zero: "0 < n \<Longrightarrow> v = push_bit n v \<Longrightarrow> v = (0 :: u64)"
proof (rule bit_word_eqI)
  fix k assume n: "0 < n" and eq: "v = push_bit n v" and "k < LENGTH(64)"
  have "\<not> bit v k"
  proof (induction k rule: less_induct)
    case (less k)
    have "bit v k \<longleftrightarrow> bit (push_bit n v) k" using eq by simp
    with less n show ?case by (auto simp: bit_push_bit_iff)
  qed
  then show "bit v k = bit 0 k" by simp
qed

lemma xor_zero_iff: "a XOR b = 0 \<longleftrightarrow> a = (b :: u64)"
proof
  assume zero: "a XOR b = 0"
  show "a = b"
  proof (rule bit_word_eqI)
    fix n show "bit a n = bit b n" using arg_cong [OF zero, of "\<lambda>w. bit w n"] by (simp add: bit_xor_iff)
  qed
qed simp

lemma nextU64_nonzero: "zero_state (fst (nextU64 s)) \<Longrightarrow> zero_state s"
proof -
  assume "zero_state (fst (nextU64 s))"
  then have z: "word0 s XOR (word3 s XOR word1 s) = 0" "word1 s XOR (word2 s XOR word0 s) = 0"
    "(word2 s XOR word0 s) XOR push_bit 17 (word1 s) = 0" "rotl 45 (word3 s XOR word1 s) = 0"
    by (simp_all add: zero_state_def nextU64_def Let_def)
  have "word3 s XOR word1 s = 0" using rotl_zero [OF _ z(4)] by simp
  then have a: "word3 s = word1 s" "word0 s = 0" using z(1) by (simp_all add: xor_zero_iff)
  then have b: "word1 s = word2 s" using z(2) by (simp add: xor_zero_iff)
  then have "word1 s = push_bit 17 (word1 s)" using z(3) a by (simp add: xor_zero_iff)
  then have "word1 s = 0" by (rule shift_fixed_zero [rotated]) simp
  with a b show ?thesis by (simp add: zero_state_def)
qed

fun draws :: "nat \<Rightarrow> RandomStateV1 \<Rightarrow> RandomStateV1" where
  "draws 0 s = s"
| "draws (Suc n) s = draws n (fst (nextU64 s))"

lemma draws_nonzero: "\<not> zero_state s \<Longrightarrow> \<not> zero_state (draws n s)"
  by (induction n arbitrary: s) (auto dest: nextU64_nonzero)


section \<open>Draws below a bound\<close>

text \<open>The word of the draw after \<open>n\<close> others.\<close>

definition nth_draw :: "RandomStateV1 \<Rightarrow> nat \<Rightarrow> u64" where
  "nth_draw s n = snd (nextU64 (draws n s))"

lemma nth_draw_Suc: "nth_draw s (Suc n) = nth_draw (fst (nextU64 s)) n"
  by (simp add: nth_draw_def)

lemma drawLoop_unfold:
  "drawLoop t b s = (if t \<le> nth_draw s 0 then Some (draws 1 s, nth_draw s 0 mod b) else drawLoop t b (fst (nextU64 s)))"
  by (subst drawLoop.simps) (simp add: nth_draw_def case_prod_beta)

lemma drawLoop_first:
  "nth_draw s n \<ge> t \<Longrightarrow> \<forall>i < n. nth_draw s i < t \<Longrightarrow> drawLoop t b s = Some (draws (Suc n) s, nth_draw s n mod b)"
proof (induction n arbitrary: s)
  case 0
  then show ?case by (simp add: drawLoop_unfold [of t b s])
next
  case (Suc n)
  have "\<not> t \<le> nth_draw s 0" using Suc.prems(2) by (simp add: not_le)
  then have "drawLoop t b s = drawLoop t b (fst (nextU64 s))" by (simp add: drawLoop_unfold [of t b s])
  moreover have "\<forall>i < n. nth_draw (fst (nextU64 s)) i < t" using Suc.prems(2) by (auto simp flip: nth_draw_Suc)
  ultimately show ?case using Suc.IH [of "fst (nextU64 s)"] Suc.prems(1) by (simp add: nth_draw_Suc)
qed

lemma drawLoop_returns:
  assumes "drawLoop t b s = Some r"
  shows "\<exists>n. t \<le> nth_draw s n"
proof (rule drawLoop.raw_induct [OF _ assms, of "\<lambda>t b s r. \<exists>n. t \<le> nth_draw s n"])
  fix loop :: "u64 \<Rightarrow> u64 \<Rightarrow> RandomStateV1 \<Rightarrow> (RandomStateV1 \<times> u64) option" and t b s r
  assume IH: "\<And>t b s r. loop t b s = Some r \<Longrightarrow> \<exists>n. t \<le> nth_draw s n"
    and run: "(let (s', v) = nextU64 s in if t \<le> v then Some (s', v mod b) else loop t b s') = Some r"
  show "\<exists>n. t \<le> nth_draw s n"
  proof (cases "t \<le> nth_draw s 0")
    case False
    with run have "loop t b (fst (nextU64 s)) = Some r" by (simp add: nth_draw_def case_prod_beta)
    from IH [OF this] show ?thesis by (metis nth_draw_Suc)
  qed blast
qed

text \<open>The loop returns exactly when a later word is accepted, and then with the first such word.\<close>

lemma drawLoop_iff:
  "drawLoop t b s = Some (s', r) \<longleftrightarrow> (\<exists>n. t \<le> nth_draw s n \<and> (\<forall>i < n. nth_draw s i < t) \<and> s' = draws (Suc n) s \<and> r = nth_draw s n mod b)"
proof
  assume run: "drawLoop t b s = Some (s', r)"
  let ?n = "LEAST n. t \<le> nth_draw s n"
  have "t \<le> nth_draw s ?n" using drawLoop_returns [OF run] by (rule LeastI_ex)
  moreover have "\<forall>i < ?n. nth_draw s i < t" using not_less_Least by (auto simp flip: not_le)
  ultimately show "\<exists>n. t \<le> nth_draw s n \<and> (\<forall>i < n. nth_draw s i < t) \<and> s' = draws (Suc n) s \<and> r = nth_draw s n mod b"
    using drawLoop_first [of t s ?n b] run by (intro exI [of _ ?n]) simp
next
  assume "\<exists>n. t \<le> nth_draw s n \<and> (\<forall>i < n. nth_draw s i < t) \<and> s' = draws (Suc n) s \<and> r = nth_draw s n mod b"
  then show "drawLoop t b s = Some (s', r)" using drawLoop_first by blast
qed

lemma drawLoop_None: "drawLoop t b s = None \<longleftrightarrow> (\<forall>n. nth_draw s n < t)"
proof
  assume none: "drawLoop t b s = None"
  have "\<not> (\<exists>n. t \<le> nth_draw s n \<and> (\<forall>i < n. \<not> t \<le> nth_draw s i))"
    using drawLoop_first [of t s _ b] none by (metis not_le option.distinct(1))
  then have "\<not> (\<exists>n. t \<le> nth_draw s n)" using exists_least_iff [of "\<lambda>n. t \<le> nth_draw s n"] by blast
  then show "\<forall>n. nth_draw s n < t" by (simp add: not_le)
next
  assume "\<forall>n. nth_draw s n < t"
  then show "drawLoop t b s = None" using drawLoop_returns [of t b s] by (cases "drawLoop t b s") (auto simp: not_le [symmetric])
qed

text \<open>The words that are accepted are a whole number of rounds of the residues.\<close>

lemma drawThreshold_nat: "0 < b \<Longrightarrow> unat (drawThreshold b) = 2 ^ 64 mod unat b"
proof -
  assume b: "0 < b"
  then have "unat (0 - b) = 2 ^ 64 - unat b" by (subst unat_sub_if') (simp add: word_less_nat_alt)
  then have "unat (drawThreshold b) = (2 ^ 64 - unat b) mod unat b" by (simp add: drawThreshold_def unat_mod)
  also have "\<dots> = (2 ^ 64 - unat b + unat b) mod unat b" by simp
  also have "2 ^ 64 - unat b + unat b = 2 ^ 64" using unat_lt_u64 [of b] by (simp del: unat_lt_u64)
  finally show ?thesis .
qed

lemma residue_after: "r < b \<Longrightarrow> (s + (r + b - s mod b) mod b) mod b = (r :: nat)"
proof -
  assume r: "r < b"
  have "s mod b < b" using r by simp
  then have sum: "s mod b + (r + b - s mod b) = r + b" by linarith
  have "(s + (r + b - s mod b) mod b) mod b = (s mod b + (r + b - s mod b)) mod b" by (simp only: mod_add_left_eq mod_add_right_eq)
  then show ?thesis using r by (simp add: sum)
qed

lemma count_residue:
  assumes "r < (b :: nat)"
  shows "card {v. t \<le> v \<and> v < t + q * b \<and> v mod b = r} = q"
proof (induction q)
  case (Suc q)
  let ?A = "{v. t \<le> v \<and> v < t + q * b \<and> v mod b = r}" and ?B = "{v. t + q * b \<le> v \<and> v < t + q * b + b \<and> v mod b = r}"
  have split: "{v. t \<le> v \<and> v < t + Suc q * b \<and> v mod b = r} = ?A \<union> ?B" by auto
  have "finite ?A" by (rule finite_subset [of _ "{..< t + q * b}"]) auto
  moreover have "card ?B = 1"
  proof -
    let ?s = "t + q * b"
    let ?v = "?s + (r + b - ?s mod b) mod b"
    have pos: "0 < b" using assms by simp
    have "?v mod b = r" by (rule residue_after [OF assms])
    moreover have "?v < ?s + b" using pos by simp
    moreover have "v = w" if "?s \<le> v" "v < ?s + b" "?s \<le> w" "w < ?s + b" "v mod b = r" "w mod b = r" for v w
    proof -
      have "v mod b = w mod b" using that by simp
      moreover have "v - w < b" "w - v < b" using that by auto
      ultimately show ?thesis by (metis mod_eq_dvd_iff_nat dvd_imp_le le_eq_less_or_eq linorder_not_less nat_le_linear zero_less_diff)
    qed
    ultimately have "?B = {?v}" by auto
    then show ?thesis by simp
  qed
  moreover have "finite ?B" by (rule finite_subset [of _ "{..< t + q * b + b}"]) auto
  moreover have "?A \<inter> ?B = {}" by auto
  ultimately show ?case unfolding split using Suc.IH by (simp add: card_Un_disjoint)
qed simp

lemma accepted_words:
  assumes "r < (b :: u64)"
  shows "card {v. drawThreshold b \<le> v \<and> v mod b = r} = 2 ^ 64 div unat b"
proof -
  have b: "0 < b" using assms by (auto simp: word_gt_0)
  have unat_b: "0 < unat b" "unat r < unat b" using assms b by (simp_all add: word_less_nat_alt)
  let ?t = "2 ^ 64 mod unat b" and ?q = "2 ^ 64 div unat b"
  have total: "?t + ?q * unat b = 2 ^ 64" by simp
  have "unat ` {v. drawThreshold b \<le> v \<and> v mod b = r} = {n. ?t \<le> n \<and> n < ?t + ?q * unat b \<and> n mod unat b = unat r}"
  proof (intro set_eqI iffI)
    fix n assume "n \<in> unat ` {v. drawThreshold b \<le> v \<and> v mod b = r}"
    then show "n \<in> {n. ?t \<le> n \<and> n < ?t + ?q * unat b \<and> n mod unat b = unat r}"
      unfolding total using drawThreshold_nat [OF b] by (auto simp: word_le_nat_alt unat_mod)
  next
    fix n assume n: "n \<in> {n. ?t \<le> n \<and> n < ?t + ?q * unat b \<and> n mod unat b = unat r}"
    define v where "v = (of_nat n :: u64)"
    have v: "unat v = n" using n unfolding total v_def by (simp add: unat_of_nat)
    have "unat (drawThreshold b) \<le> unat v" "unat (v mod b) = unat r"
      using n unfolding drawThreshold_nat [OF b] unat_mod v by simp_all
    then have "drawThreshold b \<le> v \<and> v mod b = r" by (simp only: word_le_nat_alt word_unat_eq_iff simp_thms)
    with v show "n \<in> unat ` {v. drawThreshold b \<le> v \<and> v mod b = r}" by blast
  qed
  moreover have "inj_on unat {v :: u64. drawThreshold b \<le> v \<and> v mod b = r}" by (simp add: inj_on_def word_unat_eq_iff)
  ultimately show ?thesis using count_residue [OF unat_b(2), of ?t ?q] card_image [of unat "{v. drawThreshold b \<le> v \<and> v mod b = r}"] by simp
qed

section \<open>Properties\<close>

text \<open>
  Every world seed and stream key give a generator: the empty optional is never read, and after any
  number of draws the state can be saved and restored, so the generator never falls into the state of
  zeros in which it would stay.
\<close>

theorem random_streams_defined:
  "\<exists>s. fromWorldSeed seed key = Some s \<and> (let s' = draws n s in fromWords (word0 s') (word1 s') (word2 s') (word3 s') = Some s')"
proof -
  obtain s where s: "fromWorldSeed seed key = Some s" using fromWorldSeed_defined by blast
  then have "\<not> zero_state s" by (auto simp: fromWorldSeed_def Let_def fromWords_iff zero_state_def split: prod.splits)
  then have "\<not> zero_state (draws n s)" by (rule draws_nonzero)
  with s show ?thesis by (auto simp: Let_def fromWords_iff zero_state_def)
qed

text \<open>
  C37. A bounded draw is refused for the bound zero only. For any other bound it returns exactly when one of
  the words to come reaches the threshold, with the first such word reduced to below the bound; less
  than half of all words are rejected, and every result stands for the same number of accepted words.
  Where the bound divides the number of words no word is rejected and the first draw returns.
\<close>

theorem uniformBelow_unbiased:
  "(case uniformBelow b s of
      None \<Rightarrow> b \<noteq> 0 \<and> (\<forall>n. nth_draw s n < drawThreshold b)
    | Some (s', None) \<Rightarrow> b = 0 \<and> s' = s
    | Some (s', Some r) \<Rightarrow> r < b \<and> (\<exists>n. r = nth_draw s n mod b \<and> s' = draws (Suc n) s \<and> drawThreshold b \<le> nth_draw s n
          \<and> (\<forall>i < n. nth_draw s i < drawThreshold b))
        \<and> card {v. drawThreshold b \<le> v \<and> v mod b = r} = 2 ^ 64 div unat b)
   \<and> drawThreshold b < 2 ^ 63
   \<and> (2 ^ 64 mod unat b \<noteq> 0 \<or> (\<exists>s' r. uniformBelow b s = Some (s', Some r)))"
proof (cases "b = 0")
  case True
  then show ?thesis by (simp add: uniformBelow_def drawThreshold_def)
next
  case False
  then have b: "0 < b" by (simp add: word_gt_0)
  then have unat_b: "0 < unat b" by (simp add: word_less_nat_alt)
  have "(2 :: nat) ^ 64 mod unat b < 2 ^ 63"
  proof (cases "unat b \<le> 2 ^ 63")
    case True
    then show ?thesis using mod_less_divisor [OF unat_b, of "2 ^ 64"] by linarith
  next
    case big: False
    then have "(2 :: nat) ^ 64 mod unat b = 2 ^ 64 - unat b"
      using le_mod_geq [of "unat b" "2 ^ 64"] unat_lt_u64 [of b] by (simp del: unat_lt_u64)
    then show ?thesis using big unat_lt_u64 [of b] by (simp del: unat_lt_u64)
  qed
  then have "drawThreshold b < 2 ^ 63" using drawThreshold_nat [OF b] by (simp add: word_less_nat_alt)
  moreover have "2 ^ 64 mod unat b \<noteq> 0 \<or> drawLoop (drawThreshold b) b s = Some (draws 1 s, nth_draw s 0 mod b)"
    using drawThreshold_nat [OF b] by (auto simp: drawLoop_unfold word_unat_eq_iff word_le_nat_alt)
  ultimately show ?thesis
  proof (cases "drawLoop (drawThreshold b) b s")
    case None
    with False show ?thesis using drawLoop_None [of "drawThreshold b" b s] \<open>drawThreshold b < 2 ^ 63\<close>
        \<open>2 ^ 64 mod unat b \<noteq> 0 \<or> drawLoop (drawThreshold b) b s = Some (draws 1 s, nth_draw s 0 mod b)\<close> by (simp add: uniformBelow_def)
  next
    case (Some sr)
    then obtain s' r where sr: "drawLoop (drawThreshold b) b s = Some (s', r)" by (cases sr) auto
    then obtain n where n: "drawThreshold b \<le> nth_draw s n" "\<forall>i < n. nth_draw s i < drawThreshold b" "s' = draws (Suc n) s" "r = nth_draw s n mod b"
      using drawLoop_iff [of "drawThreshold b" b s s' r] by blast
    have r: "r < b \<and> card {v. drawThreshold b \<le> v \<and> v mod b = r} = 2 ^ 64 div unat b"
      using accepted_words unat_b n(4) by (auto simp: word_less_nat_alt unat_mod)
    have run: "uniformBelow b s = Some (s', Some r)" using sr False by (simp add: uniformBelow_def)
    show ?thesis unfolding run option.case prod.case using n r \<open>drawThreshold b < 2 ^ 63\<close> by blast
  qed
qed

theorem uniformBelow_unbiased_witness:
  "\<exists>s' r. uniformBelow 2 \<lparr>word0 = 1, word1 = 2, word2 = 3, word3 = 4\<rparr> = Some (s', Some r) \<and> r < 2
     \<and> card {v. drawThreshold 2 \<le> v \<and> v mod 2 = r} = 2 ^ 63"
proof -
  let ?s = "\<lparr>word0 = 1, word1 = 2, word2 = 3, word3 = 4\<rparr>"
  from uniformBelow_unbiased [of 2 ?s] obtain s' r where run: "uniformBelow 2 ?s = Some (s', Some r)" by auto
  from uniformBelow_unbiased [of 2 ?s, unfolded run option.case prod.case] run show ?thesis by simp
qed

end
