(* ===== verification/Resume_Traces.thy ===== *)
theory Resume_Traces
  imports Resume_Tokens
begin

text \<open>
  Histories of the token store: every call of it in any order, the one that drops a reserved record included.
  The digest of a generated token is in at most one place of the store, so a consumed token never comes back.
\<close>

section \<open>Histories\<close>

datatype token_op =
  IssueToken "u8 list option" PrincipalId SessionId SessionGeneration ResumeTokenContext MonotonicInstant
| PrepareToken "u8 list option" ResumeToken ResumeTokenContext MonotonicInstant
| CommitToken u64 | FinalizeToken u64 | RollbackToken u64 | CancelToken u64
| KeepTokenAlive SessionId SessionGeneration MonotonicInstant

text \<open>\<open>None\<close> is a commit that reads a record that is gone.\<close>

fun token_step :: "CredentialCrypto \<Rightarrow> ResumeTokenStore \<Rightarrow> token_op \<Rightarrow> ResumeTokenStore option" where
  "token_step crypto s (IssueToken random owner session generation ctx now) = Some (fst (issue crypto s random owner session generation ctx now))"
| "token_step crypto s (PrepareToken random token ctx now) = Some (fst (prepareConsume crypto s random token ctx now))"
| "token_step crypto s (CommitToken k) = map_option fst (commitConsume s k)"
| "token_step crypto s (FinalizeToken k) = Some (fst (finalizeConsume s k))"
| "token_step crypto s (RollbackToken k) = Some (fst (rollbackConsume s k))"
| "token_step crypto s (CancelToken k) = Some (fst (cancelConsume s k))"
| "token_step crypto s (KeepTokenAlive session generation now) = Some (fst (keepAlive s session generation now))"

fun token_run :: "CredentialCrypto \<Rightarrow> ResumeTokenStore \<Rightarrow> token_op list \<Rightarrow> ResumeTokenStore option" where
  "token_run crypto s [] = Some s"
| "token_run crypto s (x # xs) = (case token_step crypto s x of None \<Rightarrow> None | Some s' \<Rightarrow> token_run crypto s' xs)"

text \<open>The digests of the tokens that the operations generate.\<close>

fun op_digest :: "CredentialCrypto \<Rightarrow> token_op \<Rightarrow> CredentialDigest option" where
  "op_digest crypto (IssueToken random owner session generation ctx now) = Option.bind random (sha256 crypto)"
| "op_digest crypto (PrepareToken random token ctx now) = Option.bind random (sha256 crypto)"
| "op_digest crypto _ = None"

definition token_digests :: "CredentialCrypto \<Rightarrow> token_op list \<Rightarrow> CredentialDigest list" where
  "token_digests crypto xs = List.map_filter (op_digest crypto) xs"

lemma token_digests_simps [simp]:
  "token_digests crypto [] = []"
  "token_digests crypto (x # xs) = (case op_digest crypto x of None \<Rightarrow> token_digests crypto xs | Some d \<Rightarrow> d # token_digests crypto xs)"
  "token_digests crypto (xs @ ys) = token_digests crypto xs @ token_digests crypto ys"
  by (auto simp: token_digests_def List.map_filter_def split: option.split)

section \<open>Where a digest is\<close>

text \<open>How often a digest is held by a record or by the replacement of a preparation.\<close>

definition record_digests :: "CredentialDigest \<Rightarrow> TokenRecord option list \<Rightarrow> nat" where
  "record_digests d rs = (\<Sum>r\<leftarrow>rs. of_bool (map_option rec_digest r = Some d))"

definition pending_digests :: "CredentialDigest \<Rightarrow> PendingConsume option list \<Rightarrow> nat" where
  "pending_digests d ps = (\<Sum>p\<leftarrow>ps. of_bool (map_option (rec_digest \<circ> pend_replacement) p = Some d))"

definition held_digests :: "ResumeTokenStore \<Rightarrow> CredentialDigest \<Rightarrow> nat" where
  "held_digests s d = record_digests d (ts_records s) + pending_digests d (ts_pending s)"

definition prior_digest :: "ResumeTokenStore \<Rightarrow> CredentialDigest \<Rightarrow> nat" where
  "prior_digest s d = of_bool (map_option (rec_digest \<circ> com_prior) (ts_committed s) = Some d)"

lemma record_digests_update:
  "i < length rs \<Longrightarrow> record_digests d (rs[i := r]) + of_bool (map_option rec_digest (rs ! i) = Some d)
     = record_digests d rs + of_bool (map_option rec_digest r = Some d)"
  unfolding record_digests_def using sum_list_update_nat [of i rs "\<lambda>r. of_bool (map_option rec_digest r = Some d)" r] by simp

lemma pending_digests_update:
  "i < length ps \<Longrightarrow> pending_digests d (ps[i := p]) + of_bool (map_option (rec_digest \<circ> pend_replacement) (ps ! i) = Some d)
     = pending_digests d ps + of_bool (map_option (rec_digest \<circ> pend_replacement) p = Some d)"
  unfolding pending_digests_def
  using sum_list_update_nat [of i ps "\<lambda>p. of_bool (map_option (rec_digest \<circ> pend_replacement) p = Some d)" p] by simp

lemma record_digests_le:
  "record_digests d (rs[i := r]) \<le> record_digests d rs + of_bool (map_option rec_digest r = Some d)"
  using record_digests_update [of i rs d r] by (cases "i < length rs") (simp_all add: list_update_beyond)

lemma pending_digests_le:
  "pending_digests d (ps[i := p]) \<le> pending_digests d ps + of_bool (map_option (rec_digest \<circ> pend_replacement) p = Some d)"
  using pending_digests_update [of i ps d p] by (cases "i < length ps") (simp_all add: list_update_beyond)

lemma record_digests_0_iff: "record_digests d (ts_records s) = 0 \<longleftrightarrow> (\<forall>i r. record_at s i = Some r \<longrightarrow> rec_digest r \<noteq> d)"
proof -
  have "record_digests d (ts_records s) = 0 \<longleftrightarrow> (\<forall>i < length (ts_records s). map_option rec_digest (ts_records s ! i) \<noteq> Some d)"
    by (simp add: record_digests_def sum_list_eq_0_iff all_set_conv_all_nth)
  also have "\<dots> \<longleftrightarrow> (\<forall>i r. record_at s i = Some r \<longrightarrow> rec_digest r \<noteq> d)"
    by (simp add: record_at_def)
  finally show ?thesis .
qed

text \<open>The invariant of all histories: a preparation has a slot of the store and an identifier already given out.\<close>

definition trace_ok :: "ResumeTokenStore \<Rightarrow> bool" where
  "trace_ok s \<longleftrightarrow> (\<forall>j c. pending_at s j = Some c \<longrightarrow> pend_slot c < length (ts_records s)
     \<and> (ts_nextPreparationId s = 0 \<or> pend_id c < ts_nextPreparationId s))"

lemma nth_removed: "ps[j := None] ! i = Some c \<Longrightarrow> i < length ps \<Longrightarrow> ps ! i = Some c"
  by (cases "i = j") auto

lemma trace_ok_frame:
  "trace_ok s \<Longrightarrow> ts_nextPreparationId s' = ts_nextPreparationId s \<Longrightarrow> length (ts_records s') = length (ts_records s) \<Longrightarrow>
    (\<And>j c. pending_at s' j = Some c \<Longrightarrow> pending_at s j = Some c) \<Longrightarrow> trace_ok s'"
  unfolding trace_ok_def by auto

text \<open>What an operation does to the places of a digest: it only moves digests or adds the one that it generated.\<close>

definition digest_effect :: "CredentialCrypto \<Rightarrow> token_op \<Rightarrow> ResumeTokenStore \<Rightarrow> ResumeTokenStore \<Rightarrow> bool" where
  "digest_effect crypto x s s' \<longleftrightarrow>
     (ts_committed s' \<in> {None, ts_committed s} \<and> (\<forall>d. held_digests s' d \<le> held_digests s d + of_bool (op_digest crypto x = Some d)))
     \<or> (\<forall>d. held_digests s' d + prior_digest s' d \<le> held_digests s d)
     \<or> (\<exists>c. ts_committed s = Some c \<and> x = RollbackToken (com_id c) \<and> ts_committed s' = None
          \<and> (\<forall>d. held_digests s' d \<le> held_digests s d + prior_digest s d))"

lemma digest_effect_same: "ts_committed s' \<in> {None, ts_committed s} \<Longrightarrow> (\<And>d. held_digests s' d \<le> held_digests s d) \<Longrightarrow> digest_effect crypto x s s'"
  by (simp add: digest_effect_def trans_le_add1)

lemma digest_effect_new:
  "ts_committed s' \<in> {None, ts_committed s} \<Longrightarrow> (\<And>d. held_digests s' d \<le> held_digests s d + of_bool (op_digest crypto x = Some d)) \<Longrightarrow>
    digest_effect crypto x s s'"
  by (simp add: digest_effect_def)

lemma purgeFrom_digests:
  "record_digests d (ts_records (purgeFrom s now is)) \<le> record_digests d (ts_records s) \<and> length (ts_records (purgeFrom s now is)) = length (ts_records s)"
proof (induction s now "is" rule: purgeFrom.induct)
  case (2 s now i "is")
  then show ?case using record_digests_le [of d "ts_records s" i None] by auto
qed simp

lemma makeToken_digest: "makeToken crypto s random = Inr (t, d) \<Longrightarrow> Option.bind random (sha256 crypto) = Some d"
  by (auto simp: makeToken_def split: option.splits if_splits)

lemma issue_shape:
  fixes crypto s0 random owner session generation ctx now
  defines "s \<equiv> purgeExpired s0 now" and "s' \<equiv> fst (issue crypto s0 random owner session generation ctx now)"
  shows "s' = s \<or> (\<exists>i r. s' = s\<lparr>ts_records := (ts_records s)[i := Some r], ts_size := ts_size s + 1\<rparr> \<and> Option.bind random (sha256 crypto) = Some (rec_digest r))"
proof (cases "emptyRecordSlot s")
  case slot: (Some i)
  show ?thesis
  proof (cases "expiryFrom s now")
    case expires: (Some e)
    show ?thesis
    proof (cases "makeToken crypto s random")
      case (Inl err)
      then show ?thesis using slot expires by (simp add: s'_def issue_def Let_def s_def [symmetric])
    next
      case (Inr th)
      obtain t h where th: "th = (t, h)" by (cases th)
      let ?r = "\<lparr>rec_digest = h, rec_principal = owner, rec_session = session, rec_generation = generation, rec_context = ctx, rec_expiresAt = e\<rparr>"
      have "s' = s\<lparr>ts_records := (ts_records s)[i := Some ?r], ts_size := ts_size s + 1\<rparr>"
        using slot expires Inr by (simp add: s'_def issue_def Let_def s_def [symmetric] th)
      moreover have "Option.bind random (sha256 crypto) = Some (rec_digest ?r)" using makeToken_digest [OF Inr [unfolded th]] by simp
      ultimately show ?thesis by blast
    qed
  qed (use slot in \<open>simp add: s'_def issue_def Let_def s_def [symmetric]\<close>)
qed (simp add: s'_def issue_def Let_def s_def [symmetric])

lemma issue_effect:
  assumes ok: "trace_ok s"
  shows "digest_effect crypto (IssueToken random owner session generation ctx now) s (fst (issue crypto s random owner session generation ctx now))"
    and "trace_ok (fst (issue crypto s random owner session generation ctx now))"
proof -
  let ?p = "purgeExpired s now" and ?s' = "fst (issue crypto s random owner session generation ctx now)"
  have purge: "record_digests d (ts_records ?p) \<le> record_digests d (ts_records s)" "length (ts_records ?p) = length (ts_records s)"
      "ts_pending ?p = ts_pending s" "ts_committed ?p = ts_committed s" "ts_nextPreparationId ?p = ts_nextPreparationId s" for d
    using purgeFrom_digests [of d s now] purgeFrom_frame [of s now] by (auto simp: purgeExpired_def)
  note shape = issue_shape [of crypto s random owner session generation ctx now]
  have "held_digests ?s' d \<le> held_digests s d + of_bool (Option.bind random (sha256 crypto) = Some d)" for d
    using shape
  proof (elim disjE exE conjE)
    assume "?s' = ?p"
    then show ?thesis using purge(1) [of d] purge(3) by (simp add: held_digests_def)
  next
    fix i r assume "?s' = ?p\<lparr>ts_records := (ts_records ?p)[i := Some r], ts_size := ts_size ?p + 1\<rparr>"
      and new: "Option.bind random (sha256 crypto) = Some (rec_digest r)"
    then show ?thesis using purge(1) [of d] purge(3) record_digests_le [of d "ts_records ?p" i "Some r"] by (simp add: held_digests_def)
  qed
  moreover have "ts_committed ?s' = ts_committed s" using shape purge by auto
  ultimately show "digest_effect crypto (IssueToken random owner session generation ctx now) s ?s'" by (intro digest_effect_new) simp_all
  have "ts_pending ?s' = ts_pending s" "length (ts_records ?s') = length (ts_records s)" "ts_nextPreparationId ?s' = ts_nextPreparationId s"
    using shape purge by auto
  then show "trace_ok ?s'" by - (rule trace_ok_frame [OF ok], auto simp: pending_at_def split: if_splits)
qed

lemma prepare_effect:
  assumes ok: "trace_ok s"
  shows "digest_effect crypto (PrepareToken random token ctx now) s (fst (prepareConsume crypto s random token ctx now))"
    and "trace_ok (fst (prepareConsume crypto s random token ctx now))"
proof -
  obtain s' result where prep: "prepareConsume crypto s random token ctx now = (s', result)" by fastforce
  then have "digest_effect crypto (PrepareToken random token ctx now) s s' \<and> trace_ok s'"
  proof (cases rule: prepareConsume_cases)
    case (same e)
    then show ?thesis using ok by (auto intro!: digest_effect_same trace_ok_frame [of s] simp: held_digests_def pending_at_def)
  next
    case (expired d i)
    then have "held_digests s' x \<le> held_digests s x" for x using record_digests_le [of x "ts_records s" i None] by (simp add: held_digests_def)
    then show ?thesis using ok expired by (auto intro!: digest_effect_same trace_ok_frame [of s] simp: pending_at_def)
  next
    case (prepared d i r c j g)
    then have "held_digests s' x \<le> held_digests s x + of_bool (op_digest crypto (PrepareToken random token ctx now) = Some x)" for x
      using pending_digests_le [of x "ts_pending s" j "Some c"] by (auto simp: held_digests_def)
    moreover have "trace_ok s'"
    proof -
      have nxt: "ts_nextPreparationId s + 1 = 0 \<or> ts_nextPreparationId s < ts_nextPreparationId s + 1"
        using word_Suc_neq_max [of "ts_nextPreparationId s"] by (cases "ts_nextPreparationId s = u64_max") (simp_all add: u64_max_minus_1 word_less_nat_alt)
      have at: "pending_at s' k = (if k = j then Some c else pending_at s k)" and same: "ts_records s' = ts_records s" "ts_nextPreparationId s' = ts_nextPreparationId s + 1" for k
        using prepared(11,12) by (auto simp: pending_at_def)
      show ?thesis unfolding trace_ok_def at same
      proof (intro allI impI)
        fix k e assume e: "(if k = j then Some c else pending_at s k) = Some e"
        show "pend_slot e < length (ts_records s) \<and> (ts_nextPreparationId s + 1 = 0 \<or> pend_id e < ts_nextPreparationId s + 1)"
        proof (cases "k = j")
          case True
          with e nxt prepared(6,7) record_at_SomeD [OF prepared(3)] show ?thesis by auto
        next
          case False
          with e ok prepared(9) have "pend_slot e < length (ts_records s)" "pend_id e < ts_nextPreparationId s" by (auto simp: trace_ok_def)
          with nxt show ?thesis by auto
        qed
      qed
    qed
    ultimately show ?thesis using prepared by (auto intro!: digest_effect_new)
  qed
  then show "digest_effect crypto (PrepareToken random token ctx now) s (fst (prepareConsume crypto s random token ctx now))"
    "trace_ok (fst (prepareConsume crypto s random token ctx now))" by (simp_all add: prep)
qed

lemma commit_shape:
  assumes "commitConsume s k = Some (s', b)"
  shows "s' = s \<and> \<not> b \<or> (\<exists>j c r. pending_at s j = Some c \<and> pend_id c = k \<and> ts_records s ! pend_slot c = Some r
    \<and> s' = s\<lparr>ts_committed := Some \<lparr>com_id = k, com_slot = pend_slot c, com_prior = r\<rparr>,
        ts_records := (ts_records s)[pend_slot c := Some (pend_replacement c)], ts_pending := (ts_pending s)[j := None]\<rparr>)"
proof (cases "findPending s k")
  case None
  with assms show ?thesis by (simp add: commitConsume_def)
next
  case (Some j)
  from findPending_SomeD [OF this] obtain c where c: "pending_at s j = Some c" "ts_pending s ! j = Some c" "pend_id c = k" by blast
  with assms Some obtain r where "ts_records s ! pend_slot c = Some r"
    by (cases "ts_records s ! pend_slot c") (simp_all add: commitConsume_def)
  with assms Some c show ?thesis by (auto simp: commitConsume_def)
qed

lemma commit_effect:
  assumes ok: "trace_ok s" and run: "commitConsume s k = Some (s', b)"
  shows "digest_effect crypto (CommitToken k) s s' \<and> trace_ok s'"
  using commit_shape [OF run]
proof (elim disjE exE conjE)
  assume "s' = s" and "\<not> b"
  with ok show ?thesis by (simp add: digest_effect_same)
next
  fix j c r
  assume c: "pending_at s j = Some c" "ts_records s ! pend_slot c = Some r"
    and s': "s' = s\<lparr>ts_committed := Some \<lparr>com_id = k, com_slot = pend_slot c, com_prior = r\<rparr>,
        ts_records := (ts_records s)[pend_slot c := Some (pend_replacement c)], ts_pending := (ts_pending s)[j := None]\<rparr>"
  have len: "pend_slot c < length (ts_records s)" "j < length (ts_pending s)" "ts_pending s ! j = Some c"
    using ok c(1) by (auto simp: trace_ok_def pending_at_def split: if_splits)
  have "held_digests s' d + prior_digest s' d \<le> held_digests s d" for d
    using record_digests_update [OF len(1), of d "Some (pend_replacement c)"] pending_digests_update [OF len(2), of d None] c(2) len(3)
    by (simp add: held_digests_def prior_digest_def s')
  moreover have "trace_ok s'" by (rule trace_ok_frame [OF ok]) (auto simp: s' pending_at_def dest: nth_removed split: if_splits)
  ultimately show ?thesis by (simp add: digest_effect_def)
qed

lemma other_effects:
  assumes ok: "trace_ok s"
  shows "digest_effect crypto (FinalizeToken k) s (fst (finalizeConsume s k)) \<and> trace_ok (fst (finalizeConsume s k))"
    and "digest_effect crypto (RollbackToken k) s (fst (rollbackConsume s k)) \<and> trace_ok (fst (rollbackConsume s k))"
    and "digest_effect crypto (CancelToken k) s (fst (cancelConsume s k)) \<and> trace_ok (fst (cancelConsume s k))"
    and "digest_effect crypto (KeepTokenAlive session generation now) s (fst (keepAlive s session generation now))
      \<and> trace_ok (fst (keepAlive s session generation now))"
proof -
  have same: "digest_effect crypto x s s \<and> trace_ok s" for x using ok by (simp add: digest_effect_same)
  show "digest_effect crypto (FinalizeToken k) s (fst (finalizeConsume s k)) \<and> trace_ok (fst (finalizeConsume s k))"
    using same ok by (auto simp: finalizeConsume_def held_digests_def pending_at_def split: option.split intro!: digest_effect_same trace_ok_frame [of s])
  show "digest_effect crypto (RollbackToken k) s (fst (rollbackConsume s k)) \<and> trace_ok (fst (rollbackConsume s k))"
  proof (cases "ts_committed s")
    case (Some c)
    show ?thesis
    proof (cases "com_id c = k")
      case True
      let ?s = "s\<lparr>ts_records := (ts_records s)[com_slot c := Some (com_prior c)], ts_committed := None\<rparr>"
      have "held_digests ?s d \<le> held_digests s d + prior_digest s d" for d
        using record_digests_le [of d "ts_records s" "com_slot c" "Some (com_prior c)"] by (simp add: held_digests_def prior_digest_def Some)
      then have "digest_effect crypto (RollbackToken k) s ?s" using Some True by (simp add: digest_effect_def)
      moreover have "trace_ok ?s" by (rule trace_ok_frame [OF ok]) (auto simp: pending_at_def split: if_splits)
      ultimately show ?thesis using Some True by (simp add: rollbackConsume_def)
    qed (use Some same in \<open>simp add: rollbackConsume_def\<close>)
  qed (use same in \<open>simp add: rollbackConsume_def\<close>)
  show "digest_effect crypto (CancelToken k) s (fst (cancelConsume s k)) \<and> trace_ok (fst (cancelConsume s k))"
  proof (cases "findPending s k")
    case (Some j)
    let ?s = "s\<lparr>ts_pending := (ts_pending s)[j := None]\<rparr>"
    have "held_digests ?s d \<le> held_digests s d" for d using pending_digests_le [of d "ts_pending s" j None] by (simp add: held_digests_def)
    then have "digest_effect crypto (CancelToken k) s ?s" by (intro digest_effect_same) simp_all
    moreover have "trace_ok ?s" by (rule trace_ok_frame [OF ok]) (auto simp: pending_at_def dest: nth_removed split: if_splits)
    ultimately show ?thesis using Some by (simp add: cancelConsume_def)
  qed (use same in \<open>simp add: cancelConsume_def\<close>)
  show "digest_effect crypto (KeepTokenAlive session generation now) s (fst (keepAlive s session generation now))
      \<and> trace_ok (fst (keepAlive s session generation now))" (is "digest_effect _ ?x _ ?s' \<and> _")
  proof -
    have "?s' = s \<or> (\<exists>i r e. i < length (ts_records s) \<and> ts_records s ! i = Some r
        \<and> ?s' = s\<lparr>ts_records := (ts_records s)[i := Some (r\<lparr>rec_expiresAt := e\<rparr>)]\<rparr>)"
    proof (cases "expiryFrom s now")
      case deadline: (Some e)
      let ?P = "\<lambda>r. case r of Some t \<Rightarrow> rec_session t = session \<and> rec_generation t = generation | None \<Rightarrow> False"
      show ?thesis
      proof (cases "find_index ?P (ts_records s)")
        case (Some i)
        from find_index_iff [OF this] obtain r where "i < length (ts_records s)" "ts_records s ! i = Some r" by (auto split: option.splits)
        moreover from this have "?s' = s \<or> ?s' = s\<lparr>ts_records := (ts_records s)[i := Some (r\<lparr>rec_expiresAt := e\<rparr>)]\<rparr>"
          by (simp add: keepAlive_def deadline Some Let_def)
        ultimately show ?thesis by blast
      qed (simp add: keepAlive_def deadline)
    qed (simp add: keepAlive_def)
    then consider "?s' = s" | i r e where "i < length (ts_records s)" "ts_records s ! i = Some r"
        "?s' = s\<lparr>ts_records := (ts_records s)[i := Some (r\<lparr>rec_expiresAt := e\<rparr>)]\<rparr>" by blast
    then show ?thesis
    proof cases
      case 1
      show ?thesis unfolding 1 by (rule same)
    next
      case (2 i r e)
      have "held_digests ?s' d \<le> held_digests s d" for d
        using record_digests_update [OF 2(1), of d "Some (r\<lparr>rec_expiresAt := e\<rparr>)"] 2(2) by (simp add: held_digests_def 2(3))
      then have "digest_effect crypto ?x s ?s'" by (intro digest_effect_same) (simp_all add: 2(3))
      moreover have "trace_ok ?s'" by (rule trace_ok_frame [OF ok]) (auto simp: 2(3) pending_at_def split: if_splits)
      ultimately show ?thesis ..
    qed
  qed
qed

lemma token_step_effect:
  assumes ok: "trace_ok s" and step: "token_step crypto s x = Some s'"
  shows "digest_effect crypto x s s' \<and> trace_ok s'"
proof (cases x)
  case (CommitToken k)
  with step obtain b where "commitConsume s k = Some (s', b)" by auto
  with commit_effect [OF ok this] CommitToken show ?thesis by simp
qed (use step issue_effect [OF ok] prepare_effect [OF ok] other_effects [OF ok] in auto)

section \<open>A token is used once\<close>

lemma token_step_bound:
  assumes ok: "trace_ok s" and step: "token_step crypto s x = Some s'"
  shows "held_digests s' d + prior_digest s' d \<le> held_digests s d + prior_digest s d + of_bool (op_digest crypto x = Some d)"
  using token_step_effect [OF ok step, THEN conjunct1] unfolding digest_effect_def
proof (elim disjE exE conjE)
  assume quiet: "ts_committed s' \<in> {None, ts_committed s}"
    and held: "\<forall>d. held_digests s' d \<le> held_digests s d + of_bool (op_digest crypto x = Some d)"
  from quiet have "prior_digest s' d \<le> prior_digest s d" by (auto simp: prior_digest_def)
  with held [rule_format, of d] show ?thesis by linarith
next
  assume "\<forall>d. held_digests s' d + prior_digest s' d \<le> held_digests s d"
  from this [rule_format, of d] show ?thesis by linarith
next
  fix c assume none: "ts_committed s' = None" and held: "\<forall>d. held_digests s' d \<le> held_digests s d + prior_digest s d"
  from none have "prior_digest s' d = 0" by (simp add: prior_digest_def)
  with held [rule_format, of d] show ?thesis by linarith
qed

text \<open>Over a history a digest is in no more places than it was generated.\<close>

lemma token_run_bound:
  "trace_ok s \<Longrightarrow> token_run crypto s xs = Some s' \<Longrightarrow>
    trace_ok s' \<and> held_digests s' d + prior_digest s' d \<le> held_digests s d + prior_digest s d + count_list (token_digests crypto xs) d"
proof (induction xs arbitrary: s)
  case (Cons x xs)
  then obtain s1 where s1: "token_step crypto s x = Some s1" "token_run crypto s1 xs = Some s'" by (auto split: option.splits)
  have "count_list (token_digests crypto (x # xs)) d = of_bool (op_digest crypto x = Some d) + count_list (token_digests crypto xs) d"
    by (auto split: option.split)
  with token_step_bound [OF Cons.prems(1) s1(1), of d] Cons.IH [OF token_step_effect [OF Cons.prems(1) s1(1), THEN conjunct2] s1(2)]
  show ?case by linarith
qed simp

lemma count_list_distinct_le: "distinct xs \<Longrightarrow> count_list xs d \<le> 1"
  by (induction xs) (auto simp: count_list_0_iff)

text \<open>A digest that only the commit \<open>k\<close> could bring back does not come back, unless that commit is rolled back.\<close>

definition spent :: "u64 \<Rightarrow> CredentialDigest \<Rightarrow> ResumeTokenStore \<Rightarrow> bool" where
  "spent k d s \<longleftrightarrow> held_digests s d = 0 \<and> (\<forall>c. ts_committed s = Some c \<longrightarrow> rec_digest (com_prior c) = d \<longrightarrow> com_id c = k)"

lemma token_step_spent:
  assumes ok: "trace_ok s" and step: "token_step crypto s x = Some s'" and spent: "spent k d s"
    and x: "x \<noteq> RollbackToken k" "op_digest crypto x \<noteq> Some d"
  shows "spent k d s'"
  using token_step_effect [OF ok step, THEN conjunct1] unfolding digest_effect_def
proof (elim disjE exE conjE)
  assume "ts_committed s' \<in> {None, ts_committed s}" and held: "\<forall>d. held_digests s' d \<le> held_digests s d + of_bool (op_digest crypto x = Some d)"
  then show ?thesis using held [rule_format, of d] spent x(2) by (auto simp: spent_def)
next
  assume "\<forall>d. held_digests s' d + prior_digest s' d \<le> held_digests s d"
  then have "held_digests s' d + prior_digest s' d = 0" using spent by (metis le_zero_eq spent_def)
  then show ?thesis by (auto simp: spent_def prior_digest_def)
next
  fix c assume c: "ts_committed s = Some c" "x = RollbackToken (com_id c)" and none: "ts_committed s' = None"
    and held: "\<forall>d. held_digests s' d \<le> held_digests s d + prior_digest s d"
  from c x(1) spent have "prior_digest s d = 0" by (auto simp: spent_def prior_digest_def)
  with held [rule_format, of d] spent none show ?thesis by (simp add: spent_def)
qed

lemma token_run_spent:
  "trace_ok s \<Longrightarrow> token_run crypto s xs = Some s' \<Longrightarrow> spent k d s \<Longrightarrow> RollbackToken k \<notin> set xs \<Longrightarrow> d \<notin> set (token_digests crypto xs) \<Longrightarrow>
    spent k d s'"
proof (induction xs arbitrary: s)
  case (Cons x xs)
  then obtain s1 where s1: "token_step crypto s x = Some s1" "token_run crypto s1 xs = Some s'" by (auto split: option.splits)
  have x: "x \<noteq> RollbackToken k" "op_digest crypto x \<noteq> Some d" "d \<notin> set (token_digests crypto xs)"
    using Cons.prems(4,5) by (auto split: option.splits)
  from token_step_spent [OF Cons.prems(1) s1(1) Cons.prems(3) x(1,2)] token_step_effect [OF Cons.prems(1) s1(1)] s1(2) x(3) Cons.prems(4)
  show ?case by (intro Cons.IH [of s1]) auto
qed simp

lemma trace_ok_created: "createResumeTokenStore lifetime = Some s \<Longrightarrow> trace_ok s \<and> held_digests s d = 0 \<and> prior_digest s d = 0"
  by (auto simp: createResumeTokenStore_def trace_ok_def pending_at_def held_digests_def record_digests_def pending_digests_def prior_digest_def
      sum_list_replicate split: if_splits)

text \<open>What a successful use does: the commit finds the preparation just made and the record it reserved.\<close>

lemma consume_shape:
  assumes ok: "trace_ok s" and run: "consume crypto s random token context now = Some (s', Inr g)"
  obtains d i r r' sp where "sha256 crypto token = Some d" "findDigest crypto s d = Some i" "record_at s i = Some r" "continues r r'"
    "now < rec_expiresAt r" "gr_session g = rec_session r" "gr_principal g = rec_principal r" "gr_priorGeneration g = rec_generation r"
    "gr_nextGeneration g = rec_generation r'"
    "token_step crypto s (PrepareToken random token context now) = Some sp" "token_step crypto sp (CommitToken (gr_preparation g)) = Some s'"
    "ts_records s' = (ts_records s)[i := Some r']" "ts_committed s' = Some \<lparr>com_id = gr_preparation g, com_slot = i, com_prior = r\<rparr>"
    "Option.bind random (sha256 crypto) = Some (rec_digest r')"
proof -
  obtain sp where prep: "prepareConsume crypto s random token context now = (sp, Inr g)"
    and com: "commitConsume sp (gr_preparation g) = Some (s', True)"
    using run by (auto simp: consume_def split: prod.splits sum.splits option.splits if_splits)
  from prep show thesis
  proof (cases rule: prepareConsume_cases)
    case (prepared d i r c j h)
    note bytes = prepared(20)
    have id: "gr_preparation g = ts_nextPreparationId s" using prepared(13,14) by simp
    have at: "pending_at sp k = (if k = j then Some c else pending_at s k)" for k using prepared(11,12) by (auto simp: pending_at_def)
    have only: "k = j" if "pending_at sp k = Some e" "pend_id e = gr_preparation g" for k e
      using that at [of k] ok prepared(9) id unfolding trace_ok_def by (metis order.irrefl)
    from commit_shape [OF com] have "\<exists>k e p. pending_at sp k = Some e \<and> pend_id e = gr_preparation g \<and> ts_records sp ! pend_slot e = Some p
      \<and> s' = sp\<lparr>ts_committed := Some \<lparr>com_id = gr_preparation g, com_slot = pend_slot e, com_prior = p\<rparr>,
        ts_records := (ts_records sp)[pend_slot e := Some (pend_replacement e)], ts_pending := (ts_pending sp)[k := None]\<rparr>"
      by auto
    then obtain k e p where e: "pending_at sp k = Some e" "pend_id e = gr_preparation g" "ts_records sp ! pend_slot e = Some p"
      "s' = sp\<lparr>ts_committed := Some \<lparr>com_id = gr_preparation g, com_slot = pend_slot e, com_prior = p\<rparr>,
        ts_records := (ts_records sp)[pend_slot e := Some (pend_replacement e)], ts_pending := (ts_pending sp)[k := None]\<rparr>" by blast
    have "e = c" using e(1) only [OF e(1,2)] at [of j] by simp
    moreover have "p = r" using e(3) prepared(3,6,12) \<open>e = c\<close> by (auto dest: record_at_SomeD)
    ultimately have s': "ts_records s' = (ts_records s)[i := Some (pend_replacement c)]"
      "ts_committed s' = Some \<lparr>com_id = gr_preparation g, com_slot = i, com_prior = r\<rparr>"
      using e(4) prepared(6,12) by simp_all
    have "h = g" using prepared(13) by simp
    have "token_step crypto sp (CommitToken (gr_preparation g)) = Some s'" using com by (simp only: token_step.simps option.map fst_conv)
    moreover have "token_step crypto s (PrepareToken random token context now) = Some sp" by (simp add: prep)
    moreover have "Option.bind random (sha256 crypto) = Some (rec_digest (pend_replacement c))" using bytes by auto
    ultimately show thesis using prepared(15-18) unfolding \<open>h = g\<close> by (intro that [OF prepared(1-3,5,19) _ _ _ _ _ _ s'(1,2)])
  qed auto
qed

text \<open>
  C29. A resume token is good for one use. Over every history of a store in which the digests of the generated
  tokens differ and no commit reads a record that is gone, once a token has been consumed it is denied whatever the context and the time, until the end of
  the history, unless the commit of that use is itself rolled back. The use replaced its record by one of the
  same session and principal at the following generation. The comparison of digests is equality.
\<close>

theorem resume_token_single_use:
  assumes eq: "\<forall>x y. constantTimeEqual crypto x y \<longleftrightarrow> x = y"
    and created: "createResumeTokenStore lifetime = Some s0" and before: "token_run crypto s0 xs = Some s"
    and use: "consume crypto s random token context now = Some (s1, Inr g)"
    and after: "token_run crypto s1 ys = Some s2" and kept: "RollbackToken (gr_preparation g) \<notin> set ys"
    and fresh: "distinct (token_digests crypto (xs @ PrepareToken random token context now # ys))"
  shows "snd (prepareConsume crypto s2 random' token context' now') = Inl TokenDenied
    \<and> (\<exists>i r r'. record_at s i = Some r \<and> record_at s1 i = Some r' \<and> continues r r' \<and> now < rec_expiresAt r
         \<and> gr_session g = rec_session r \<and> gr_principal g = rec_principal r \<and> gr_nextGeneration g = rec_generation r'
         \<and> unat (gr_nextGeneration g) = Suc (unat (gr_priorGeneration g)))"
proof -
  note made = trace_ok_created [OF created]
  from token_run_bound [OF _ before] made have ok: "trace_ok s"
    and bound: "held_digests s d + prior_digest s d \<le> count_list (token_digests crypto xs) d" for d by fastforce+
  from ok use obtain d i r r' sp where d: "sha256 crypto token = Some d" "findDigest crypto s d = Some i" and r: "record_at s i = Some r"
    and new: "continues r r'" "now < rec_expiresAt r" and g: "gr_session g = rec_session r" "gr_principal g = rec_principal r"
      "gr_priorGeneration g = rec_generation r" "gr_nextGeneration g = rec_generation r'"
    and prep: "token_step crypto s (PrepareToken random token context now) = Some sp"
    and com: "token_step crypto sp (CommitToken (gr_preparation g)) = Some s1"
    and s1: "ts_records s1 = (ts_records s)[i := Some r']" "ts_committed s1 = Some \<lparr>com_id = gr_preparation g, com_slot = i, com_prior = r\<rparr>"
    and digest: "Option.bind random (sha256 crypto) = Some (rec_digest r')" by (rule consume_shape)
  have rd: "rec_digest r = d" using findDigest_SomeD [OF d(2)] r eq by auto
  then have "0 < record_digests d (ts_records s)" using r record_digests_0_iff by (metis gr0I)
  with bound [of d] have "0 < count_list (token_digests crypto xs) d" by (simp add: held_digests_def)
  then have mem: "d \<in> set (token_digests crypto xs)" by (metis count_list_0_iff gr_implies_not0)
  with fresh digest have new_digest: "rec_digest r' \<noteq> d" and later: "d \<notin> set (token_digests crypto ys)" by auto
  have once: "count_list (token_digests crypto xs) d \<le> 1" using fresh by (intro count_list_distinct_le) simp
  note sp = token_step_effect [OF ok prep, THEN conjunct2] and prepared = token_step_bound [OF ok prep, of d]
  note ok1 = token_step_effect [OF sp com, THEN conjunct2] and committed = token_step_bound [OF sp com, of d]
  have "prior_digest s1 d = 1" by (simp add: prior_digest_def s1(2) rd)
  then have "held_digests s1 d = 0" using committed prepared bound [of d] once digest new_digest by simp
  then have "spent (gr_preparation g) d s1" by (simp add: spent_def s1(2))
  from token_run_spent [OF ok1 after this kept later] have "held_digests s2 d = 0" by (simp add: spent_def)
  then have "findDigest crypto s2 d = None" unfolding findDigest_None_iff [OF eq] held_digests_def by (simp add: record_digests_0_iff)
  then have "snd (prepareConsume crypto s2 random' token context' now') = Inl TokenDenied" by (simp add: prepareConsume_def d)
  moreover have "record_at s1 i = Some r'" using record_at_SomeD [OF r] by (simp add: record_at_def s1)
  moreover have "unat (gr_nextGeneration g) = Suc (unat (gr_priorGeneration g))" using new(1) g by (simp add: continues_def next_value_unat)
  ultimately show ?thesis using r new g by blast
qed

definition sample_use :: "(ResumeTokenStore \<times> (ResumeTokenStoreError + ResumeAdmissionGrant)) option" where
  "sample_use = consume sample_crypto sample_issued (Some (replicate 32 2)) (replicate 32 1) sample_context 5"

theorem resume_token_single_use_witness:
  "\<exists>s1 g. sample_use = Some (s1, Inr g)
     \<and> snd (prepareConsume sample_crypto (fst (finalizeConsume s1 (gr_preparation g))) (Some (replicate 32 3)) (replicate 32 1) sample_context 6) = Inl TokenDenied"
proof -
  obtain s1 g where consume: "consume sample_crypto sample_issued (Some (replicate 32 2)) (replicate 32 1) sample_context 5 = Some (s1, Inr g)"
    using sample_commit unfolding consume_def sample_prepared_def sample_prepare by auto
  have eq: "\<forall>x y. constantTimeEqual sample_crypto x y \<longleftrightarrow> x = y" by (simp add: sample_crypto_def)
  have created: "createResumeTokenStore 1000 = Some sample_created"
    by (simp add: sample_created_def createResumeTokenStore_def MinimumResumeTokenLifetimeMilliseconds_def MaximumResumeTokenLifetimeMilliseconds_def)
  let ?xs = "[IssueToken (Some (replicate 32 1)) 7 8 3 sample_context 0]" and ?ys = "[FinalizeToken (gr_preparation g)]"
  have before: "token_run sample_crypto sample_created ?xs = Some sample_issued" by (simp add: sample_issued_def)
  have after: "token_run sample_crypto s1 ?ys = Some (fst (finalizeConsume s1 (gr_preparation g)))" by simp
  have "(replicate 32 1 :: u8 list) \<noteq> replicate 32 2" by simp
  then have fresh: "distinct (token_digests sample_crypto (?xs @ PrepareToken (Some (replicate 32 2)) (replicate 32 1) sample_context 5 # ?ys))"
    by (simp add: sample_crypto_def)
  from resume_token_single_use [OF eq created before consume after _ fresh] consume show ?thesis by (auto simp: sample_use_def)
qed

section \<open>A preparation lasts\<close>

text \<open>The circumstances of \<^verbatim>\<open>token_reachable\<close>, for every operation of a history.\<close>

fun op_safe :: "CredentialCrypto \<Rightarrow> ResumeTokenStore \<Rightarrow> token_op \<Rightarrow> bool" where
  "op_safe crypto s (IssueToken random owner session generation ctx now) = commit_live s now"
| "op_safe crypto s (PrepareToken random token ctx now) = prepare_safe crypto s token now"
| "op_safe crypto s _ = True"

fun safe_run :: "CredentialCrypto \<Rightarrow> ResumeTokenStore \<Rightarrow> token_op list \<Rightarrow> bool" where
  "safe_run crypto s [] = True"
| "safe_run crypto s (x # xs) = (op_safe crypto s x \<and> (case token_step crypto s x of None \<Rightarrow> False | Some s' \<Rightarrow> safe_run crypto s' xs))"

lemma token_step_ok:
  assumes ok: "store_ok s" and safe: "op_safe crypto s x"
  shows "\<exists>s'. token_step crypto s x = Some s' \<and> store_ok s'"
proof (cases x)
  case (CommitToken k)
  with commitConsume_ok [OF ok, of k] show ?thesis by auto
qed (use ok safe in \<open>auto simp: issue_ok prepareConsume_ok finalizeConsume_ok rollbackConsume_ok cancelConsume_ok keepAlive_ok\<close>)

text \<open>Only its own commit or cancellation takes a preparation away.\<close>

lemma token_step_keeps:
  assumes ok: "store_ok s" and step: "token_step crypto s x = Some s'" and p: "pending_at s j = Some c"
    and x: "x \<noteq> CommitToken (pend_id c)" "x \<noteq> CancelToken (pend_id c)"
  shows "pending_at s' j = Some c"
proof -
  have pj: "j < length (ts_pending s)" "ts_pending s ! j = Some c" using p by (simp_all add: pending_at_def split: if_splits)
  show ?thesis
  proof (cases x)
    case (IssueToken random owner session generation ctx now)
    then show ?thesis using step pj issue_shape [of crypto s random owner session generation ctx now] purgeFrom_frame [of s now]
      by (auto simp: pending_at_def purgeExpired_def)
  next
    case (PrepareToken random token ctx now)
    then obtain result where "prepareConsume crypto s random token ctx now = (s', result)" using step by (cases "prepareConsume crypto s random token ctx now") simp
    then show ?thesis using pj by (cases rule: prepareConsume_cases) (auto simp: pending_at_def nth_list_update split: if_splits)
  next
    case (CommitToken k)
    then obtain b where "commitConsume s k = Some (s', b)" using step by auto
    from commit_shape [OF this] show ?thesis using pj x CommitToken by (auto simp: pending_at_def nth_list_update split: if_splits)
  next
    case (CancelToken k)
    then show ?thesis using step pj x findPending_SomeD [of s k]
      by (auto simp: cancelConsume_def pending_at_def nth_list_update split: option.splits if_splits)
  qed (use step pj in \<open>auto simp: finalizeConsume_def rollbackConsume_def keepAlive_def Let_def pending_at_def split: option.splits if_splits\<close>)
qed

lemma preparation_lasts:
  "store_ok s \<Longrightarrow> safe_run crypto s xs \<Longrightarrow> pending_at s j = Some c \<Longrightarrow> CommitToken (pend_id c) \<notin> set xs \<Longrightarrow> CancelToken (pend_id c) \<notin> set xs \<Longrightarrow>
    \<exists>s'. token_run crypto s xs = Some s' \<and> store_ok s' \<and> pending_at s' j = Some c"
proof (induction xs arbitrary: s)
  case (Cons x xs)
  from Cons.prems token_step_ok [of s crypto x] obtain s1 where s1: "token_step crypto s x = Some s1" "store_ok s1" by auto
  have "pending_at s1 j = Some c" by (rule token_step_keeps [OF Cons.prems(1) s1(1) Cons.prems(3)]) (use Cons.prems in auto)
  with Cons.IH [OF s1(2)] Cons.prems s1 show ?case by auto
qed simp

end
