(* ===== verification/Authentication_Service.thy ===== *)
theory Authentication_Service
  imports Player_Identity Authentication_Limits
begin

text \<open>
  Authentication of a session (the operations and \<^verbatim>\<open>SharedServerAuthenticationService\<close> of
  \<^verbatim>\<open>server_authentication.cpp\<close>): a request with the join password or a resume token starts an
  operation, which is polled until it completes with an admission or a rejection. The service holds
  the rate limiter, the expected password, the store of resume tokens, the identities and the
  process-wide counter of principals. The clock reading and the random bytes of a call are arguments.
  Allocation of an operation does not fail here; wiping of secrets is not modelled.
\<close>

section \<open>Model\<close>

definition MaximumAuthenticationMaterialBytes :: nat where
  "MaximumAuthenticationMaterialBytes = 256"

definition ComparedPasswordBytes :: nat where
  "ComparedPasswordBytes = MaximumAuthenticationMaterialBytes + 2"

type_synonym AuthenticationMaterial = "u8 list"

datatype AuthenticationCredentialKind = JoinPassword | ResumeTokenKind

record AuthenticationRequest =
  req_kind :: AuthenticationCredentialKind
  req_material :: AuthenticationMaterial
  req_playerCredential :: "PlayerCredential option"
  req_username :: "u8 list"

record ServerAuthenticationSubmission =
  sub_request :: AuthenticationRequest
  sub_scope :: AdmissionScopeId
  sub_context :: ResumeTokenContext
  sub_manifest :: ContentManifestId

record AuthenticationAttempt =
  att_id :: AuthenticationAttemptId
  att_generation :: SessionGeneration

record AuthenticatedAdmission =
  adm_principal :: PrincipalId
  adm_resume :: "ResumeAdmissionGrant option"
  adm_claim :: "PlayerClaim option"
  adm_credential :: "PlayerCredential option"
  adm_username :: "u8 list"

datatype AuthenticationRejectionReason = MalformedInput | AuthenticationDenied | ProviderUnavailable | AuthenticationCancelled

type_synonym AuthenticationResult = "AuthenticationRejectionReason + AuthenticatedAdmission"

text \<open>\<open>None\<close> is \<^verbatim>\<open>AuthenticationPending\<close>.\<close>

type_synonym AuthenticationPollResult = "(AuthenticationAttempt \<times> AuthenticationResult) option"

datatype PasswordOperationState = PasswordReady | PasswordCancelled | PasswordCompleted

datatype AuthenticationOperation =
  JoinPasswordOperation AuthenticationAttempt bool PasswordOperationState
| ImmediateOperation AuthenticationAttempt "AuthenticationResult option"
| ResumeOperation AuthenticationAttempt "ResumeToken option" ResumeTokenContext
| PlayerClaimOperation "AuthenticationOperation option" "PlayerClaim option" "PlayerCredential option" "u8 list"
| PlayerNewProfileOperation "AuthenticationOperation option" "PlayerCredential option" "u8 list"

record AuthenticationService =
  svc_limiter :: AuthenticationRateLimiter
  svc_password :: AuthenticationMaterial
  svc_store :: ResumeTokenStore
  svc_identities :: "PlayerIdentityRegistry option"
  svc_nextPrincipal :: u64

definition initialAdmission :: "PrincipalId \<Rightarrow> PlayerCredential option \<Rightarrow> u8 list \<Rightarrow> AuthenticatedAdmission" where
  "initialAdmission principalId credential username =
     \<lparr>adm_principal = principalId, adm_resume = None, adm_claim = None, adm_credential = credential, adm_username = username\<rparr>"

definition reattachAdmission :: "PrincipalId \<Rightarrow> PlayerClaim \<Rightarrow> PlayerCredential option \<Rightarrow> u8 list \<Rightarrow> AuthenticatedAdmission" where
  "reattachAdmission principalId claim credential username =
     \<lparr>adm_principal = principalId, adm_resume = None, adm_claim = Some claim, adm_credential = credential, adm_username = username\<rparr>"

text \<open>The block that is compared: the length in two bytes, the password, and zeros.\<close>

definition passwordBlock :: "u8 list \<Rightarrow> u8 list" where
  "passwordBlock source =
     (let size = (of_nat (length source) :: u16)
      in [ucast (size AND 0xff), ucast (drop_bit 8 size AND 0xff)] @ source
         @ replicate (ComparedPasswordBytes - 2 - length source) 0)"

definition passwordsMatch :: "CredentialCrypto \<Rightarrow> u8 list \<Rightarrow> u8 list \<Rightarrow> bool" where
  "passwordsMatch crypto expected supplied = constantTimeEqual crypto (passwordBlock expected) (passwordBlock supplied)"

definition allocatePrincipal :: "AuthenticationService \<Rightarrow> AuthenticationService \<times> PrincipalId option" where
  "allocatePrincipal svc =
     (let candidate = svc_nextPrincipal svc
      in if candidate = 0 then (svc, None)
         else (svc\<lparr>svc_nextPrincipal := if candidate = u64_max then 0 else candidate + 1\<rparr>, Some candidate))"

definition beginJoin :: "CredentialCrypto \<Rightarrow> AuthenticationService \<Rightarrow> AuthenticationAttempt \<Rightarrow> AuthenticationMaterial \<Rightarrow> AuthenticationOperation" where
  "beginJoin crypto svc attempt material =
     JoinPasswordOperation attempt (passwordsMatch crypto (svc_password svc) material) PasswordReady"

text \<open>\<^verbatim>\<open>poll\<close> of the five operations: the service, the operation and the result after it.\<close>

definition pollJoin :: "AuthenticationService \<Rightarrow> AuthenticationAttempt \<Rightarrow> bool \<Rightarrow> PasswordOperationState
    \<Rightarrow> AuthenticationService \<times> AuthenticationOperation \<times> AuthenticationPollResult" where
  [simp]: "pollJoin svc attempt matched state =
     (if state = PasswordCompleted then (svc, JoinPasswordOperation attempt matched state, None)
      else if state = PasswordCancelled
      then (svc, JoinPasswordOperation attempt matched PasswordCompleted, Some (attempt, Inl AuthenticationCancelled))
      else if \<not> matched then (svc, JoinPasswordOperation attempt matched PasswordCompleted, Some (attempt, Inl AuthenticationDenied))
      else (case allocatePrincipal svc of
              (svc', Some principalId) \<Rightarrow>
                (svc', JoinPasswordOperation attempt matched PasswordCompleted, Some (attempt, Inr (initialAdmission principalId None [])))
            | (svc', None) \<Rightarrow>
                (svc', JoinPasswordOperation attempt matched PasswordCompleted, Some (attempt, Inl ProviderUnavailable))))"

definition pollImmediate :: "AuthenticationService \<Rightarrow> AuthenticationAttempt \<Rightarrow> AuthenticationResult option
    \<Rightarrow> AuthenticationService \<times> AuthenticationOperation \<times> AuthenticationPollResult" where
  [simp]: "pollImmediate svc attempt result =
     (case result of
        None \<Rightarrow> (svc, ImmediateOperation attempt None, None)
      | Some r \<Rightarrow> (svc, ImmediateOperation attempt None, Some (attempt, r)))"

definition pollResume :: "CredentialCrypto \<Rightarrow> u8 list option \<Rightarrow> MonotonicInstant \<Rightarrow> AuthenticationService \<Rightarrow> AuthenticationAttempt
    \<Rightarrow> ResumeToken option \<Rightarrow> ResumeTokenContext \<Rightarrow> AuthenticationService \<times> AuthenticationOperation \<times> AuthenticationPollResult" where
  [simp]: "pollResume crypto random now svc attempt token context =
     (case token of
        None \<Rightarrow> (svc, ResumeOperation attempt None context, None)
      | Some t \<Rightarrow>
        (case prepareConsume crypto (svc_store svc) random t context now of
           (store, Inr grant) \<Rightarrow>
             (svc\<lparr>svc_store := store\<rparr>, ResumeOperation attempt None context,
              Some (attempt, Inr \<lparr>adm_principal = gr_principal grant, adm_resume = Some grant, adm_claim = None,
                                  adm_credential = None, adm_username = []\<rparr>))
         | (store, Inl e) \<Rightarrow>
             (svc\<lparr>svc_store := store\<rparr>, ResumeOperation attempt None context,
              Some (attempt, Inl (if e = TokenDenied then AuthenticationDenied else ProviderUnavailable)))))"

fun pollOperation ::
  "CredentialCrypto \<Rightarrow> u8 list option \<Rightarrow> MonotonicInstant \<Rightarrow> AuthenticationService \<Rightarrow> AuthenticationOperation
   \<Rightarrow> AuthenticationService \<times> AuthenticationOperation \<times> AuthenticationPollResult" where
  "pollOperation crypto random now svc (JoinPasswordOperation attempt matched state) = pollJoin svc attempt matched state"
| "pollOperation crypto random now svc (ImmediateOperation attempt result) = pollImmediate svc attempt result"
| "pollOperation crypto random now svc (ResumeOperation attempt token context) = pollResume crypto random now svc attempt token context"
| "pollOperation crypto random now svc (PlayerClaimOperation underlying claim credential username) =
     (case underlying of
        None \<Rightarrow> (svc, PlayerClaimOperation None claim credential username, None)
      | Some u \<Rightarrow>
        (case pollOperation crypto random now svc u of
           (svc', u', None) \<Rightarrow> (svc', PlayerClaimOperation (Some u') claim credential username, None)
         | (svc', u', Some (attempt, Inl reason)) \<Rightarrow>
             (svc', PlayerClaimOperation None claim credential username, Some (attempt, Inl reason))
         | (svc', u', Some (attempt, Inr admission)) \<Rightarrow>
             (case claim of
                None \<Rightarrow> (svc', PlayerClaimOperation None claim credential username, Some (attempt, Inl AuthenticationDenied))
              | Some cl \<Rightarrow>
                (svc', PlayerClaimOperation None claim None [],
                 Some (attempt, Inr (reattachAdmission (adm_principal admission) cl credential username))))))"
| "pollOperation crypto random now svc (PlayerNewProfileOperation underlying credential username) =
     (case underlying of
        None \<Rightarrow> (svc, PlayerNewProfileOperation None credential username, None)
      | Some u \<Rightarrow>
        (case pollOperation crypto random now svc u of
           (svc', u', None) \<Rightarrow> (svc', PlayerNewProfileOperation (Some u') credential username, None)
         | (svc', u', Some (attempt, Inl reason)) \<Rightarrow>
             (svc', PlayerNewProfileOperation None credential username, Some (attempt, Inl reason))
         | (svc', u', Some (attempt, Inr admission)) \<Rightarrow>
             (svc', PlayerNewProfileOperation None None [],
              Some (attempt, Inr (initialAdmission (adm_principal admission) credential username)))))"

fun cancelOperation :: "AuthenticationOperation \<Rightarrow> AuthenticationOperation" where
  "cancelOperation (JoinPasswordOperation attempt matched state) =
     JoinPasswordOperation attempt matched (if state = PasswordReady then PasswordCancelled else state)"
| "cancelOperation (ImmediateOperation attempt result) = ImmediateOperation attempt None"
| "cancelOperation (ResumeOperation attempt token context) = ResumeOperation attempt None context"
| "cancelOperation (PlayerClaimOperation underlying claim credential username) = PlayerClaimOperation None None credential username"
| "cancelOperation (PlayerNewProfileOperation underlying credential username) = PlayerNewProfileOperation None credential username"

definition rejectAtOnce :: "AuthenticationAttempt \<Rightarrow> AuthenticationRejectionReason \<Rightarrow> AuthenticationOperation" where
  "rejectAtOnce attempt reason = ImmediateOperation attempt (Some (Inl reason))"

text \<open>\<^verbatim>\<open>takeResumeToken\<close>: a token is exactly as long as a resume token.\<close>

definition takeResumeToken :: "AuthenticationRequest \<Rightarrow> ResumeToken option" where
  "takeResumeToken request =
     (if req_kind request \<noteq> ResumeTokenKind then None
      else if length (req_material request) \<noteq> ResumeTokenBytes then None
      else Some (req_material request))"

definition beginAuthentication ::
  "CredentialCrypto \<Rightarrow> MonotonicInstant \<Rightarrow> AuthenticationService \<Rightarrow> AuthenticationAttempt \<Rightarrow> ServerAuthenticationSubmission
   \<Rightarrow> AuthenticationService \<times> AuthenticationOperation" where
  "beginAuthentication crypto now svc attempt submission =
     (let (limiter, allowed) = allow (svc_limiter svc) (sub_scope submission) now;
          svc1 = svc\<lparr>svc_limiter := limiter\<rparr>;
          request = sub_request submission
      in if allowed \<noteq> RateAllowed then (svc1, rejectAtOnce attempt ProviderUnavailable)
         else if req_kind request = JoinPassword then
           (let credential = req_playerCredential request;
                username = req_username request;
                operation = beginJoin crypto svc1 attempt (req_material request)
            in case svc_identities svc1 of
                 None \<Rightarrow> (svc1, operation)
               | Some identities \<Rightarrow>
                 if username \<noteq> [] \<and> \<not> isValidPlayerUsername username then (svc1, rejectAtOnce attempt AuthenticationDenied)
                 else if username \<noteq> [] then
                   (if hasUsername identities username then
                      (case credential of
                         None \<Rightarrow> (svc1, rejectAtOnce attempt AuthenticationDenied)
                       | Some c \<Rightarrow>
                         (case authenticatePlayer crypto identities c (sub_manifest submission) username of
                            None \<Rightarrow> (svc1, rejectAtOnce attempt AuthenticationDenied)
                          | Some claim \<Rightarrow> (svc1, PlayerClaimOperation (Some operation) (Some claim) credential username)))
                    else (svc1, PlayerNewProfileOperation (Some operation) credential username))
                 else
                   (case credential of
                      None \<Rightarrow> (svc1, operation)
                    | Some c \<Rightarrow>
                      (svc1, PlayerClaimOperation (Some operation)
                               (authenticatePlayer crypto identities c (sub_manifest submission) []) credential [])))
         else
           (case takeResumeToken request of
              None \<Rightarrow> (svc1, rejectAtOnce attempt AuthenticationDenied)
            | Some token \<Rightarrow> (svc1, ResumeOperation attempt (Some token) (sub_context submission))))"

definition issueInitial ::
  "CredentialCrypto \<Rightarrow> u8 list option \<Rightarrow> MonotonicInstant \<Rightarrow> AuthenticationService \<Rightarrow> PrincipalId \<Rightarrow> SessionId \<Rightarrow> SessionGeneration
   \<Rightarrow> ResumeTokenContext \<Rightarrow> AuthenticationService \<times> (ResumeTokenStoreError + AuthenticationAcceptedMessage option)" where
  "issueInitial crypto random now svc principalId session generation context =
     (let (store, r) = issue crypto (svc_store svc) random principalId session generation context now
      in (svc\<lparr>svc_store := store\<rparr>, r))"

text \<open>\<open>None\<close> where the store reads an empty record.\<close>

definition commitResume :: "AuthenticationService \<Rightarrow> u64 \<Rightarrow> (AuthenticationService \<times> bool) option" where
  "commitResume svc preparationId =
     map_option (\<lambda>(store, ok). (svc\<lparr>svc_store := store\<rparr>, ok)) (commitConsume (svc_store svc) preparationId)"

definition finalizeResume :: "AuthenticationService \<Rightarrow> u64 \<Rightarrow> AuthenticationService \<times> bool" where
  "finalizeResume svc preparationId =
     (let (store, ok) = finalizeConsume (svc_store svc) preparationId in (svc\<lparr>svc_store := store\<rparr>, ok))"

definition rollbackResume :: "AuthenticationService \<Rightarrow> u64 \<Rightarrow> AuthenticationService \<times> bool" where
  "rollbackResume svc preparationId =
     (let (store, ok) = rollbackConsume (svc_store svc) preparationId in (svc\<lparr>svc_store := store\<rparr>, ok))"

definition cancelResume :: "AuthenticationService \<Rightarrow> u64 \<Rightarrow> AuthenticationService \<times> bool" where
  "cancelResume svc preparationId =
     (let (store, ok) = cancelConsume (svc_store svc) preparationId in (svc\<lparr>svc_store := store\<rparr>, ok))"

definition serviceKeepAlive :: "AuthenticationService \<Rightarrow> SessionId \<Rightarrow> SessionGeneration \<Rightarrow> MonotonicInstant \<Rightarrow> AuthenticationService" where
  "serviceKeepAlive svc session generation now =
     svc\<lparr>svc_store := fst (keepAlive (svc_store svc) session generation now)\<rparr>"


section \<open>Passwords\<close>

lemma size_bytes:
  assumes "n \<le> 256" and "m \<le> 256"
    and "ucast ((of_nat n :: u16) AND 0xff) = (ucast ((of_nat m :: u16) AND 0xff) :: u8)"
    and "ucast (drop_bit 8 (of_nat n :: u16) AND 0xff) = (ucast (drop_bit 8 (of_nat m :: u16) AND 0xff) :: u8)"
  shows "n = m"
proof -
  have mask: "(0xff :: u16) = mask 8" by (simp add: mask_eq_exp_minus_1)

  have low: "unat (ucast ((of_nat k :: u16) AND 0xff) :: u8) = k mod 256" if "k \<le> 256" for k
    unfolding mask take_bit_eq_mask [symmetric] unsigned_ucast_eq unsigned_take_bit_eq unsigned_of_nat
    using that by (simp add: take_bit_eq_mod)
  have high: "unat (ucast (drop_bit 8 (of_nat k :: u16) AND 0xff) :: u8) = k div 256" if "k \<le> 256" for k
    unfolding mask take_bit_eq_mask [symmetric] unsigned_ucast_eq unsigned_take_bit_eq unsigned_drop_bit_eq unsigned_of_nat
    using that by (simp add: take_bit_eq_mod drop_bit_eq_div)
  have "n mod 256 = m mod 256" using low [OF assms(1)] low [OF assms(2)] assms(3) by simp
  moreover have "n div 256 = m div 256" using high [OF assms(1)] high [OF assms(2)] assms(4) by simp
  ultimately have "n mod 256 = m mod 256" "n div 256 = m div 256" by blast+
  then show ?thesis by (metis div_mult_mod_eq)
qed

lemma passwordBlock_inject:
  assumes "length a \<le> 256" and "length b \<le> 256" and "passwordBlock a = passwordBlock b"
  shows "a = b"
proof -
  have "length a = length b" using assms(3) by (intro size_bytes [OF assms(1,2)]) (simp_all add: passwordBlock_def Let_def)
  with assms(3) show ?thesis by (simp add: passwordBlock_def Let_def)
qed

lemma passwordsMatch_iff:
  assumes "\<forall>x y. constantTimeEqual crypto x y \<longleftrightarrow> x = y" and "length a \<le> 256" and "length b \<le> 256"
  shows "passwordsMatch crypto a b \<longleftrightarrow> a = b"
  using assms passwordBlock_inject [OF assms(2,3)] by (auto simp: passwordsMatch_def)

section \<open>What an operation can admit\<close>

text \<open>
  The admissions an operation can still give; \<open>P\<close> says what presenting a resume token gives, which
  depends on the store at that time.
\<close>

fun may_admit :: "(ResumeToken \<Rightarrow> AuthenticatedAdmission \<Rightarrow> bool) \<Rightarrow> AuthenticationOperation \<Rightarrow> AuthenticatedAdmission \<Rightarrow> bool" where
  "may_admit P (JoinPasswordOperation attempt matched state) a \<longleftrightarrow> matched \<and> (\<exists>p. a = initialAdmission p None [])"
| "may_admit P (ImmediateOperation attempt result) a \<longleftrightarrow> result = Some (Inr a)"
| "may_admit P (ResumeOperation attempt token context) a \<longleftrightarrow> (\<exists>t. token = Some t \<and> P t a)"
| "may_admit P (PlayerClaimOperation underlying claim credential username) a \<longleftrightarrow>
     (case underlying of None \<Rightarrow> False
      | Some u \<Rightarrow> \<exists>a' cl. may_admit P u a' \<and> claim = Some cl \<and> a = reattachAdmission (adm_principal a') cl credential username)"
| "may_admit P (PlayerNewProfileOperation underlying credential username) a \<longleftrightarrow>
     (case underlying of None \<Rightarrow> False
      | Some u \<Rightarrow> \<exists>a'. may_admit P u a' \<and> a = initialAdmission (adm_principal a') credential username)"

text \<open>A token admits when its digest is that of an unexpired record of the store; the record names the principal.\<close>

definition token_admits :: "CredentialCrypto \<Rightarrow> ResumeTokenStore \<Rightarrow> MonotonicInstant \<Rightarrow> ResumeToken \<Rightarrow> AuthenticatedAdmission \<Rightarrow> bool" where
  "token_admits crypto store now t a \<longleftrightarrow> (\<exists>d i r g. sha256 crypto t = Some d \<and> findDigest crypto store d = Some i \<and> record_at store i = Some r
     \<and> now < rec_expiresAt r \<and> \<not> reserved store i \<and> adm_principal a = rec_principal r \<and> adm_resume a = Some g \<and> gr_session g = rec_session r
     \<and> next_value (rec_generation r) = Some (gr_nextGeneration g) \<and> adm_claim a = None)"

lemma prepareConsume_admits:
  assumes "prepareConsume crypto s random t context now = (s', Inr g)"
  shows "token_admits crypto s now t \<lparr>adm_principal = gr_principal g, adm_resume = Some g, adm_claim = None, adm_credential = None, adm_username = []\<rparr>"
  using assms
proof (cases rule: prepareConsume_cases)
  case (prepared d i r c j g')
  then show ?thesis by (auto simp: token_admits_def continues_def)
qed simp_all

lemma poll_only_shrinks:
  "pollOperation crypto random now svc op = (svc', op', r) \<Longrightarrow> may_admit P op' a \<Longrightarrow> may_admit P op a"
proof (induction op arbitrary: svc' op' r a)
  case (JoinPasswordOperation attempt matched state)
  then show ?case by (auto split: if_splits prod.splits option.splits)
next
  case (ImmediateOperation attempt result)
  then show ?case by (auto split: option.splits)
next
  case (ResumeOperation attempt token ctx)
  then show ?case by (auto split: option.splits prod.splits sum.splits)
next
  case (PlayerClaimOperation underlying claim credential username)
  show ?case
  proof (cases underlying)
    case (Some u)
    obtain svc1 u1 r1 where u1: "pollOperation crypto random now svc u = (svc1, u1, r1)" by (cases "pollOperation crypto random now svc u") auto
    have "\<And>a'. may_admit P u1 a' \<Longrightarrow> may_admit P u a'" using PlayerClaimOperation.IH [of u] u1 Some by auto
    with PlayerClaimOperation.prems Some u1 show ?thesis by (cases r1) (auto split: sum.splits option.splits, blast)
  qed (use PlayerClaimOperation.prems in auto)
next
  case (PlayerNewProfileOperation underlying credential username)
  show ?case
  proof (cases underlying)
    case (Some u)
    obtain svc1 u1 r1 where u1: "pollOperation crypto random now svc u = (svc1, u1, r1)" by (cases "pollOperation crypto random now svc u") auto
    have "\<And>a'. may_admit P u1 a' \<Longrightarrow> may_admit P u a'" using PlayerNewProfileOperation.IH [of u] u1 Some by auto
    with PlayerNewProfileOperation.prems Some u1 show ?thesis by (cases r1) (auto split: sum.splits, blast)
  qed (use PlayerNewProfileOperation.prems in auto)
qed

lemma poll_admits:
  "pollOperation crypto random now svc op = (svc', op', Some (attempt, Inr a)) \<Longrightarrow> may_admit (token_admits crypto (svc_store svc) now) op a"
proof (induction op arbitrary: svc' op' a)
  case (JoinPasswordOperation attempt' matched state)
  then show ?case by (auto split: if_splits prod.splits option.splits)
next
  case (ImmediateOperation attempt' result)
  then show ?case by (auto split: option.splits)
next
  case (ResumeOperation attempt' token ctx)
  then show ?case by (auto split: option.splits prod.splits sum.splits intro: prepareConsume_admits)
next
  case (PlayerClaimOperation underlying claim credential username)
  then obtain u where u: "underlying = Some u" by (cases underlying) auto
  obtain svc1 u1 r1 where u1: "pollOperation crypto random now svc u = (svc1, u1, r1)" by (cases "pollOperation crypto random now svc u") auto
  with PlayerClaimOperation.prems u obtain a' cl where "r1 = Some (attempt, Inr a')" "claim = Some cl" "a = reattachAdmission (adm_principal a') cl credential username"
    by (cases r1) (auto split: sum.splits option.splits)
  with PlayerClaimOperation.IH [of u] u u1 show ?case by auto
next
  case (PlayerNewProfileOperation underlying credential username)
  then obtain u where u: "underlying = Some u" by (cases underlying) auto
  obtain svc1 u1 r1 where u1: "pollOperation crypto random now svc u = (svc1, u1, r1)" by (cases "pollOperation crypto random now svc u") auto
  with PlayerNewProfileOperation.prems u obtain a' where "r1 = Some (attempt, Inr a')" "a = initialAdmission (adm_principal a') credential username"
    by (cases r1) (auto split: sum.splits)
  with PlayerNewProfileOperation.IH [of u] u u1 show ?case by auto
qed

text \<open>
  What a submission may be admitted as: with the password, as a new player or as the identity its
  credential authenticates -- which a registered user name requires --, or as the owner of a token.
\<close>

definition claim_allowed :: "CredentialCrypto \<Rightarrow> PlayerIdentityRegistry \<Rightarrow> ServerAuthenticationSubmission \<Rightarrow> PlayerClaim option \<Rightarrow> bool" where
  "claim_allowed crypto ids sub claim \<longleftrightarrow>
     (let q = sub_request sub; name = req_username q
      in (name \<noteq> [] \<longrightarrow> isValidPlayerUsername name)
         \<and> (\<forall>cl. claim = Some cl \<longrightarrow> (\<exists>c. req_playerCredential q = Some c \<and> authenticatePlayer crypto ids c (sub_manifest sub) name = Some cl))
         \<and> (claim = None \<longrightarrow> \<not> hasUsername ids name \<and> (name = [] \<longrightarrow> req_playerCredential q = None)))"

definition admitted_as :: "CredentialCrypto \<Rightarrow> AuthenticationService \<Rightarrow> ServerAuthenticationSubmission \<Rightarrow> (ResumeToken \<Rightarrow> AuthenticatedAdmission \<Rightarrow> bool)
    \<Rightarrow> AuthenticatedAdmission \<Rightarrow> bool" where
  "admitted_as crypto svc sub P a \<longleftrightarrow>
     (let q = sub_request sub
      in if req_kind q = JoinPassword
         then passwordsMatch crypto (svc_password svc) (req_material q) \<and> adm_resume a = None
           \<and> (case svc_identities svc of None \<Rightarrow> adm_claim a = None | Some ids \<Rightarrow> claim_allowed crypto ids sub (adm_claim a))
         else P (req_material q) a)"

lemma begin_admits:
  assumes "beginAuthentication crypto now svc attempt sub = (svc', op)" and "may_admit P op a"
  shows "admitted_as crypto svc sub P a"
proof -
  obtain l ok where allow: "allow (svc_limiter svc) (sub_scope sub) now = (l, ok)" by (cases "allow (svc_limiter svc) (sub_scope sub) now")
  have ok: "ok = RateAllowed" using assms allow by (auto simp: beginAuthentication_def rejectAtOnce_def Let_def split: if_splits)
  let ?q = "sub_request sub"
  show ?thesis
  proof (cases "req_kind ?q = JoinPassword")
    case False
    with assms allow ok show ?thesis
      by (auto simp: beginAuthentication_def rejectAtOnce_def admitted_as_def takeResumeToken_def Let_def split: if_splits)
  next
    case True
    show ?thesis
    proof (cases "svc_identities svc")
      case None
      with assms allow ok True show ?thesis
        by (auto simp: beginAuthentication_def admitted_as_def beginJoin_def initialAdmission_def Let_def)
    next
      case (Some ids)
      have noname: "\<not> hasUsername ids []" by (simp add: hasUsername_def)
      show ?thesis
      proof (cases "req_username ?q = []")
        case empty: True
        with assms allow ok True Some noname show ?thesis
          by (cases "req_playerCredential ?q")
            (auto simp: beginAuthentication_def admitted_as_def beginJoin_def initialAdmission_def reattachAdmission_def claim_allowed_def Let_def)
      next
        case named: False
        with assms allow ok True Some show ?thesis
          by (auto simp: beginAuthentication_def admitted_as_def beginJoin_def initialAdmission_def reattachAdmission_def claim_allowed_def
              rejectAtOnce_def Let_def split: if_splits option.splits)
      qed
    qed
  qed
qed

section \<open>An operation completes once\<close>

fun op_fresh :: "AuthenticationAttempt \<Rightarrow> AuthenticationOperation \<Rightarrow> bool" where
  "op_fresh t (JoinPasswordOperation attempt matched state) \<longleftrightarrow> attempt = t \<and> state = PasswordReady"
| "op_fresh t (ImmediateOperation attempt result) \<longleftrightarrow> attempt = t \<and> result \<noteq> None"
| "op_fresh t (ResumeOperation attempt token context) \<longleftrightarrow> attempt = t \<and> token \<noteq> None"
| "op_fresh t (PlayerClaimOperation underlying claim credential username) \<longleftrightarrow> (case underlying of None \<Rightarrow> False | Some u \<Rightarrow> op_fresh t u)"
| "op_fresh t (PlayerNewProfileOperation underlying credential username) \<longleftrightarrow> (case underlying of None \<Rightarrow> False | Some u \<Rightarrow> op_fresh t u)"

fun op_done :: "AuthenticationOperation \<Rightarrow> bool" where
  "op_done (JoinPasswordOperation attempt matched state) \<longleftrightarrow> state = PasswordCompleted"
| "op_done (ImmediateOperation attempt result) \<longleftrightarrow> result = None"
| "op_done (ResumeOperation attempt token context) \<longleftrightarrow> token = None"
| "op_done (PlayerClaimOperation underlying claim credential username) \<longleftrightarrow> underlying = None"
| "op_done (PlayerNewProfileOperation underlying credential username) \<longleftrightarrow> underlying = None"

lemma begin_fresh: "beginAuthentication crypto now svc attempt sub = (svc', op) \<Longrightarrow> op_fresh attempt op"
  by (auto simp: beginAuthentication_def rejectAtOnce_def beginJoin_def Let_def split: prod.splits if_splits option.splits)

lemma poll_done: "op_done op \<Longrightarrow> pollOperation crypto random now svc op = (svc, op, None)"
  by (cases op) auto

lemma poll_fresh: "op_fresh t op \<Longrightarrow> \<exists>svc' op' result. pollOperation crypto random now svc op = (svc', op', Some (t, result)) \<and> op_done op'"
proof (induction op)
  case (JoinPasswordOperation attempt matched state)
  then show ?case by (simp split: prod.split option.split)
next
  case (ResumeOperation attempt token ctx)
  then show ?case by (auto split: prod.split sum.split)
next
  case (PlayerClaimOperation underlying claim credential username)
  then obtain u where u: "underlying = Some u" "op_fresh t u" by (auto split: option.splits)
  with PlayerClaimOperation.IH [of u] obtain svc' op' result where "pollOperation crypto random now svc u = (svc', op', Some (t, result))" by auto
  with u show ?case by (cases result; cases claim) simp_all
next
  case (PlayerNewProfileOperation underlying credential username)
  then obtain u where u: "underlying = Some u" "op_fresh t u" by (auto split: option.splits)
  with PlayerNewProfileOperation.IH [of u] obtain svc' op' result where "pollOperation crypto random now svc u = (svc', op', Some (t, result))" by auto
  with u show ?case by (cases result) simp_all
qed auto

lemma poll_cancelled:
  "op_fresh t op \<Longrightarrow> pollOperation crypto random now svc (cancelOperation op) = (svc', op', r) \<Longrightarrow> svc' = svc \<and> (r = None \<or> r = Some (t, Inl AuthenticationCancelled))"
  by (cases op) auto


section \<open>Properties\<close>

text \<open>Polls of an operation, each with its random bytes, clock reading and service.\<close>

definition polled :: "CredentialCrypto \<Rightarrow> AuthenticationOperation \<Rightarrow> (u8 list option \<times> MonotonicInstant \<times> AuthenticationService) list \<Rightarrow> AuthenticationOperation" where
  "polled crypto = foldl (\<lambda>op (random, now, svc). fst (snd (pollOperation crypto random now svc op)))"

lemma polled_shrinks: "may_admit P (polled crypto op ps) a \<Longrightarrow> may_admit P op a"
proof (induction ps arbitrary: op)
  case (Cons p ps)
  obtain random now svc where p: "p = (random, now, svc)" by (cases p) auto
  obtain svc' op' r where poll: "pollOperation crypto random now svc op = (svc', op', r)" by (cases "pollOperation crypto random now svc op") auto
  have "polled crypto op (p # ps) = polled crypto op' ps" by (simp add: polled_def p poll)
  with Cons.IH [of op'] Cons.prems have "may_admit P op' a" by simp
  then show ?case by (rule poll_only_shrinks [OF poll])
qed (simp add: polled_def)

lemma polled_done: "op_done op \<Longrightarrow> polled crypto op ps = op"
  by (induction ps) (auto simp: polled_def poll_done)

definition sample_policy :: AuthenticationRateLimitPolicy where
  "sample_policy = \<lparr>sourceBurst = 1, globalBurst = 1, sourceRefillMilliseconds = 100, globalRefillMilliseconds = 100\<rparr>"

definition sample_service :: AuthenticationService where
  "sample_service = \<lparr>svc_limiter = createRateLimiter sample_policy 0, svc_password = [1, 2], svc_store = sample_issued,
     svc_identities = Some empty_registry, svc_nextPrincipal = 5\<rparr>"

definition sample_submission :: ServerAuthenticationSubmission where
  "sample_submission = \<lparr>sub_request = \<lparr>req_kind = JoinPassword, req_material = [1, 2], req_playerCredential = None, req_username = sample_name\<rparr>,
     sub_scope = [9], sub_context = sample_context, sub_manifest = [1]\<rparr>"

lemma sample_allowed: "snd (allow (svc_limiter sample_service) (sub_scope sample_submission) 0) = RateAllowed"
  by (simp add: sample_service_def sample_submission_def createRateLimiter_def sample_policy_def allow_def refill_def
      NanosecondsPerMillisecond_def allowSource_def findScope_def emptySlot_def find_index_replicate MaximumAuthenticationAdmissionScopes_def
      find_index_def Let_def)

lemma sample_begin:
  "beginAuthentication sample_crypto 0 sample_service \<lparr>att_id = 1, att_generation = 1\<rparr> sample_submission =
     (sample_service\<lparr>svc_limiter := fst (allow (svc_limiter sample_service) (sub_scope sample_submission) 0)\<rparr>,
      PlayerNewProfileOperation (Some (JoinPasswordOperation \<lparr>att_id = 1, att_generation = 1\<rparr> True PasswordReady)) None sample_name)"
proof -
  have "\<not> hasUsername empty_registry sample_name" by (simp add: hasUsername_def empty_registry_def)
  moreover have "passwordsMatch sample_crypto [1, 2] [1, 2]" by (simp add: passwordsMatch_def sample_crypto_def)
  ultimately show ?thesis
    using sample_allowed sample_name_valid
    by (cases "allow (svc_limiter sample_service) (sub_scope sample_submission) 0")
      (simp add: beginAuthentication_def Let_def sample_submission_def beginJoin_def sample_service_def)
qed

text \<open>
  C7. An admission needs the secret. Whatever the shared services do while an operation is polled, it admits
  only a submission that carries the join password, or a resume token whose digest is that of an
  unexpired record not reserved by another session, for the principal of that record; it admits as an
  existing identity only with that identity's credential, and never a registered user name without it.
\<close>

theorem admission_needs_secret:
  assumes "\<forall>x y. constantTimeEqual crypto x y \<longleftrightarrow> x = y" and "length (svc_password svc) \<le> 256" and "length (req_material (sub_request sub)) \<le> 256"
    and "beginAuthentication crypto now svc attempt sub = (svc1, op)" and "op' = polled crypto op ps"
    and "pollOperation crypto random now' svc2 op' = (svc3, op'', Some (attempt', Inr a))"
  shows "if req_kind (sub_request sub) = JoinPassword
    then req_material (sub_request sub) = svc_password svc \<and> adm_resume a = None
      \<and> (case svc_identities svc of None \<Rightarrow> adm_claim a = None | Some ids \<Rightarrow> claim_allowed crypto ids sub (adm_claim a))
    else token_admits crypto (svc_store svc2) now' (req_material (sub_request sub)) a"
proof -
  have "may_admit (token_admits crypto (svc_store svc2) now') op' a" by (rule poll_admits [OF assms(6)])
  then have "may_admit (token_admits crypto (svc_store svc2) now') op a" unfolding assms(5) by (rule polled_shrinks)
  from begin_admits [OF assms(4) this] show ?thesis
    using passwordsMatch_iff [OF assms(1-3)] by (auto simp: admitted_as_def Let_def)
qed

theorem admission_needs_secret_witness:
  "\<exists>svc op svc3 op'' t. beginAuthentication sample_crypto 0 sample_service \<lparr>att_id = 1, att_generation = 1\<rparr> sample_submission = (svc, op)
     \<and> pollOperation sample_crypto None 7 svc op = (svc3, op'', Some (t, Inr (initialAdmission 5 None sample_name)))
     \<and> adm_resume (initialAdmission 5 None sample_name) = None \<and> claim_allowed sample_crypto empty_registry sample_submission None"
proof -
  let ?op = "PlayerNewProfileOperation (Some (JoinPasswordOperation \<lparr>att_id = 1, att_generation = 1\<rparr> True PasswordReady)) None sample_name"
  let ?svc = "sample_service\<lparr>svc_limiter := fst (allow (svc_limiter sample_service) (sub_scope sample_submission) 0)\<rparr>"
  have poll: "pollOperation sample_crypto None 7 ?svc ?op = (?svc\<lparr>svc_nextPrincipal := 6\<rparr>, PlayerNewProfileOperation None None [],
      Some (\<lparr>att_id = 1, att_generation = 1\<rparr>, Inr (initialAdmission 5 None sample_name)))"
    by (simp add: allocatePrincipal_def sample_service_def Let_def initialAdmission_def u64_max_def)
  have eq: "\<forall>x y. constantTimeEqual sample_crypto x y \<longleftrightarrow> x = y" by (simp add: sample_crypto_def)
  have len: "length (svc_password sample_service) \<le> 256" "length (req_material (sub_request sample_submission)) \<le> 256"
    by (simp_all add: sample_service_def sample_submission_def)
  have nil: "?op = polled sample_crypto ?op []" by (simp add: polled_def)
  from admission_needs_secret [OF eq len sample_begin nil poll]
  have "adm_resume (initialAdmission 5 None sample_name) = None \<and> claim_allowed sample_crypto empty_registry sample_submission None"
    by (simp add: sample_submission_def sample_service_def initialAdmission_def)
  with sample_begin poll show ?thesis by blast
qed

text \<open>
  C34. Every operation terminates: its first poll completes it, for its own attempt, every later poll is
  pending and changes nothing, and an operation that was cancelled first admits nobody.
\<close>

theorem operation_completes_once:
  assumes "beginAuthentication crypto now svc attempt sub = (svc1, op)"
  shows "(\<exists>svc3 op' result. pollOperation crypto random now' svc2 op = (svc3, op', Some (attempt, result))
      \<and> pollOperation crypto random' now'' svc4 (polled crypto op' ps) = (svc4, op', None))
    \<and> (\<exists>op' r. pollOperation crypto random now' svc2 (cancelOperation op) = (svc2, op', r) \<and> (r = None \<or> r = Some (attempt, Inl AuthenticationCancelled)))"
proof (intro conjI)
  have fresh: "op_fresh attempt op" by (rule begin_fresh [OF assms])
  from poll_fresh [OF this, of crypto random now' svc2] obtain svc3 op' result
    where p: "pollOperation crypto random now' svc2 op = (svc3, op', Some (attempt, result))" "op_done op'" by blast
  then show "\<exists>svc3 op' result. pollOperation crypto random now' svc2 op = (svc3, op', Some (attempt, result))
      \<and> pollOperation crypto random' now'' svc4 (polled crypto op' ps) = (svc4, op', None)" by (simp add: polled_done poll_done)
  show "\<exists>op' r. pollOperation crypto random now' svc2 (cancelOperation op) = (svc2, op', r) \<and> (r = None \<or> r = Some (attempt, Inl AuthenticationCancelled))"
    using poll_cancelled [OF fresh, of crypto random now' svc2] by (cases "pollOperation crypto random now' svc2 (cancelOperation op)") auto
qed


theorem operation_completes_once_witness:
  "\<exists>svc op. beginAuthentication sample_crypto 0 sample_service \<lparr>att_id = 1, att_generation = 1\<rparr> sample_submission = (svc, op)
     \<and> (\<exists>svc3 op' result. pollOperation sample_crypto None 7 svc op = (svc3, op', Some (\<lparr>att_id = 1, att_generation = 1\<rparr>, result)))"
  using operation_completes_once [OF sample_begin] sample_begin by blast

end
