(* ===== verification/Server_Session.thy ===== *)
theory Server_Session
  imports Authentication_Service Protocol_Handshake Command_Intake Resume_Traces
begin

text \<open>
  The session of one connection on the server (\<^verbatim>\<open>server_session.hpp\<close>, \<^verbatim>\<open>session_types.hpp\<close> and
  \<^verbatim>\<open>server_core/server_session.cpp\<close>): it waits for the encrypted transport, the client's hello and
  the authentication request, polls the authentication operation, and is established or ends. Every
  call is given the readings of the clocks, the random bytes and the shared authentication service as
  they are at that time; what it reports to the observability sinks is appended to a log.
\<close>

section \<open>Types\<close>

definition MinimumSessionStageTimeoutNanoseconds :: u64 where
  "MinimumSessionStageTimeoutNanoseconds = 1000000"

definition MaximumSessionStageTimeoutNanoseconds :: u64 where
  "MaximumSessionStageTimeoutNanoseconds = 120000000000"

datatype SessionStage = TransportAndNegotiation | AuthenticationInput | AuthenticationProvider

record SessionTimeoutPolicy =
  tp_transportAndNegotiation :: u64
  tp_authenticationInput :: u64
  tp_authenticationProvider :: u64

definition validDuration :: "u64 \<Rightarrow> bool" where
  "validDuration duration \<longleftrightarrow> duration \<ge> MinimumSessionStageTimeoutNanoseconds \<and> duration \<le> MaximumSessionStageTimeoutNanoseconds"

definition createTimeoutPolicy :: "u64 \<Rightarrow> u64 \<Rightarrow> u64 \<Rightarrow> SessionTimeoutPolicy option" where
  "createTimeoutPolicy transport input provider =
     (if \<not> validDuration transport \<or> \<not> validDuration input \<or> \<not> validDuration provider then None
      else Some \<lparr>tp_transportAndNegotiation = transport, tp_authenticationInput = input, tp_authenticationProvider = provider\<rparr>)"

definition stageDuration :: "SessionTimeoutPolicy \<Rightarrow> SessionStage \<Rightarrow> u64" where
  "stageDuration p stage = (case stage of
     TransportAndNegotiation \<Rightarrow> tp_transportAndNegotiation p
   | AuthenticationInput \<Rightarrow> tp_authenticationInput p
   | AuthenticationProvider \<Rightarrow> tp_authenticationProvider p)"

definition sessionDeadline :: "MonotonicInstant \<Rightarrow> u64 \<Rightarrow> MonotonicInstant option" where
  "sessionDeadline now durationNanoseconds =
     (if durationNanoseconds > u64_max - now then None else Some (now + durationNanoseconds))"

datatype ServerSessionState =
  AwaitingEncryptedTransport | AwaitingClientHello | AwaitingAuthenticationInput | AuthenticationPending
| Established | Rejected | TimedOut | Cancelled | Closed

datatype ServerSessionEvent =
  ServerEncryptedTransportReady
| ServerClientHelloReceived ClientHello
| ServerAuthenticationSubmitted ServerAuthenticationSubmission
| ServerPollAuthentication
| ServerCheckTimeout
| ServerCancel
| ServerClose

text \<open>The enumerations as the numbers that errors report.\<close>

fun stateCode :: "ServerSessionState \<Rightarrow> u16" where
  "stateCode AwaitingEncryptedTransport = 0" | "stateCode AwaitingClientHello = 1" | "stateCode AwaitingAuthenticationInput = 2"
| "stateCode AuthenticationPending = 3" | "stateCode Established = 4" | "stateCode Rejected = 5" | "stateCode TimedOut = 6"
| "stateCode Cancelled = 7" | "stateCode Closed = 8"

fun eventKind :: "ServerSessionEvent \<Rightarrow> u16" where
  "eventKind ServerEncryptedTransportReady = 0"
| "eventKind (ServerClientHelloReceived hello) = 1"
| "eventKind (ServerAuthenticationSubmitted submission) = 2"
| "eventKind ServerPollAuthentication = 3"
| "eventKind ServerCheckTimeout = 4"
| "eventKind ServerCancel = 5"
| "eventKind ServerClose = 6"

datatype SessionTransitionErrorCode = IllegalTransition | SessionDeadlineOverflow

record SessionTransitionError =
  ste_code :: SessionTransitionErrorCode
  ste_observedState :: u16
  ste_observedEvent :: u16
  ste_stage :: SessionStage

datatype ServerSessionAction =
  NoAction | SendServerHello | SendSessionRejected | AuthenticationStarted | AuthenticationStillPending | AuthenticationRejected
| AuthenticationStaleCompletion | SessionEstablished | SessionTimedOut | SessionCancelled | SessionClosed

record ServerSessionTransition =
  tr_action :: ServerSessionAction
  tr_error :: "SessionTransitionError option"

datatype ServerSessionBindingResult = Bound | BindingNotEstablished | BindingAlreadyBound

datatype PreissuedInitialSessionBindingResult = PreissuedBound | PreissuedNotEstablished | PreissuedAlreadyBound

datatype InitialSessionFinalizationResult =
  Finalized | FinalizationNotEstablished | ResumeAlreadyFinalized | FinalizationAlreadyBound | TokenIssueFailed

datatype ReliableOperationReceiveResult =
  Delivered | ReceiveNotEstablished | SessionNotBound | SessionMismatch | GenerationMismatch

section \<open>Observations\<close>

datatype SessionObservationOutcome =
  TransitionAccepted | IllegalTransitionSeen | AuthenticationSucceeded | AuthenticationRejectedSeen | TimedOutSeen | CancelledSeen | StaleCompletion

datatype SessionObservationStage =
  ObservedTransportAndNegotiation | ObservedAuthenticationInput | ObservedAuthenticationProvider | ObservedTerminal

datatype SessionMetricKey =
  SessionTransitions | SessionAuthenticationOutcomes | SessionTimeouts | SessionCancellations | SessionStaleCompletions

record SessionObservation =
  so_metric :: SessionMetricKey
  so_outcome :: SessionObservationOutcome
  so_stage :: SessionObservationStage
  so_severity :: EventSeverity

fun observationStage :: "ServerSessionState \<Rightarrow> SessionObservationStage" where
  "observationStage AwaitingEncryptedTransport = ObservedTransportAndNegotiation"
| "observationStage AwaitingClientHello = ObservedTransportAndNegotiation"
| "observationStage AwaitingAuthenticationInput = ObservedAuthenticationInput"
| "observationStage AuthenticationPending = ObservedAuthenticationProvider"
| "observationStage Established = ObservedTerminal"
| "observationStage Rejected = ObservedTerminal"
| "observationStage TimedOut = ObservedTerminal"
| "observationStage Cancelled = ObservedTerminal"
| "observationStage Closed = ObservedTerminal"

fun metricKey :: "SessionObservationOutcome \<Rightarrow> SessionMetricKey" where
  "metricKey AuthenticationSucceeded = SessionAuthenticationOutcomes"
| "metricKey AuthenticationRejectedSeen = SessionAuthenticationOutcomes"
| "metricKey TimedOutSeen = SessionTimeouts"
| "metricKey CancelledSeen = SessionCancellations"
| "metricKey StaleCompletion = SessionStaleCompletions"
| "metricKey TransitionAccepted = SessionTransitions"
| "metricKey IllegalTransitionSeen = SessionTransitions"

section \<open>The session\<close>

record ServerSession =
  ss_timeoutPolicy :: SessionTimeoutPolicy
  ss_generation :: SessionGeneration
  ss_serverOffer :: CapabilityOffer
  ss_state :: ServerSessionState
  ss_deadline :: "MonotonicInstant option"
  ss_activeAttempt :: AuthenticationAttempt
  ss_operation :: "AuthenticationOperation option"
  ss_negotiatedHello :: "ServerHello option"
  ss_protocolRejection :: "SessionRejected option"
  ss_authenticationRejection :: "AuthenticationRejectionReason option"
  ss_principal :: "PrincipalId option"
  ss_playerClaim :: "PlayerClaim option"
  ss_playerCredential :: "PlayerCredential option"
  ss_username :: "u8 list"
  ss_accepted :: "AuthenticationAcceptedMessage option"
  ss_preparedResume :: "u64 option"
  ss_context :: "ResumeTokenContext option"
  ss_sessionId :: "SessionId option"
  ss_observed :: "SessionObservation list"

text \<open>What the outside gives a call: the session's clock, the service's clock, random bytes, and whether an operation could be allocated.\<close>

record SessionEnvironment =
  env_now :: MonotonicInstant
  env_serviceNow :: MonotonicInstant
  env_random :: "u8 list option"
  env_allocates :: bool

definition createServerSession ::
  "MonotonicInstant \<Rightarrow> SessionTimeoutPolicy \<Rightarrow> SessionGeneration \<Rightarrow> CapabilityOffer \<Rightarrow> SessionTransitionError + ServerSession" where
  "createServerSession now timeoutPolicy generation serverOffer =
     (case sessionDeadline now (stageDuration timeoutPolicy TransportAndNegotiation) of
        None \<Rightarrow> Inl \<lparr>ste_code = SessionDeadlineOverflow, ste_observedState = stateCode AwaitingEncryptedTransport, ste_observedEvent = 0,
                    ste_stage = TransportAndNegotiation\<rparr>
      | Some deadline \<Rightarrow>
        Inr \<lparr>ss_timeoutPolicy = timeoutPolicy, ss_generation = generation, ss_serverOffer = serverOffer,
             ss_state = AwaitingEncryptedTransport, ss_deadline = Some deadline,
             ss_activeAttempt = \<lparr>att_id = initial CounterFromOne, att_generation = generation\<rparr>, ss_operation = None,
             ss_negotiatedHello = None, ss_protocolRejection = None, ss_authenticationRejection = None, ss_principal = None,
             ss_playerClaim = None, ss_playerCredential = None, ss_username = [], ss_accepted = None, ss_preparedResume = None,
             ss_context = None, ss_sessionId = None, ss_observed = []\<rparr>)"

definition observe :: "SessionObservationOutcome \<Rightarrow> SessionObservationStage \<Rightarrow> ServerSession \<Rightarrow> ServerSession" where
  "observe outcome stage s =
     s\<lparr>ss_observed := ss_observed s @ [\<lparr>so_metric = metricKey outcome, so_outcome = outcome, so_stage = stage,
         so_severity = (if outcome = TransitionAccepted \<or> outcome = AuthenticationSucceeded then Info else Warning)\<rparr>]\<rparr>"

abbreviation noTransition :: ServerSessionTransition where
  "noTransition \<equiv> \<lparr>tr_action = NoAction, tr_error = None\<rparr>"

abbreviation acted :: "ServerSessionAction \<Rightarrow> ServerSessionTransition" where
  "acted action \<equiv> \<lparr>tr_action = action, tr_error = None\<rparr>"

definition illegal :: "u16 \<Rightarrow> ServerSession \<Rightarrow> ServerSession \<times> ServerSessionTransition" where
  "illegal event s =
     (observe IllegalTransitionSeen (observationStage (ss_state s)) s,
      \<lparr>tr_action = NoAction,
       tr_error = Some \<lparr>ste_code = IllegalTransition, ste_observedState = stateCode (ss_state s), ste_observedEvent = event,
         ste_stage = (if ss_state s = AwaitingAuthenticationInput then AuthenticationInput
                      else if ss_state s = AuthenticationPending then AuthenticationProvider else TransportAndNegotiation)\<rparr>\<rparr>)"

definition deadlineOverflow :: "u16 \<Rightarrow> SessionStage \<Rightarrow> ServerSession \<Rightarrow> ServerSession \<times> ServerSessionTransition" where
  "deadlineOverflow event stage s =
     (s, \<lparr>tr_action = NoAction,
          tr_error = Some \<lparr>ste_code = SessionDeadlineOverflow, ste_observedState = stateCode (ss_state s), ste_observedEvent = event,
            ste_stage = stage\<rparr>\<rparr>)"

definition prepareDeadline :: "SessionEnvironment \<Rightarrow> ServerSession \<Rightarrow> SessionStage \<Rightarrow> MonotonicInstant option" where
  "prepareDeadline env s stage = sessionDeadline (env_now env) (stageDuration (ss_timeoutPolicy s) stage)"

text \<open>The cancelled operation is destroyed at once, so only that it is gone remains.\<close>

definition cancelAuthentication :: "ServerSession \<Rightarrow> ServerSession" where
  "cancelAuthentication s = s\<lparr>ss_operation := None\<rparr>"

definition cancelPreparedResume :: "AuthenticationService \<Rightarrow> ServerSession \<Rightarrow> AuthenticationService \<times> ServerSession \<times> bool" where
  "cancelPreparedResume svc s =
     (case ss_preparedResume s of
        None \<Rightarrow> (svc, s, False)
      | Some ident \<Rightarrow> let (svc', result) = cancelResume svc ident in (svc', s\<lparr>ss_preparedResume := None\<rparr>, result))"

definition handleClose :: "AuthenticationService \<Rightarrow> ServerSession \<Rightarrow> AuthenticationService \<times> ServerSession \<times> ServerSessionTransition" where
  "handleClose svc s =
     (if ss_state s = Closed then (svc, s, noTransition)
      else let (svc', s1, _) = cancelPreparedResume svc (cancelAuthentication s)
           in (svc', observe TransitionAccepted ObservedTerminal (s1\<lparr>ss_state := Closed, ss_deadline := None\<rparr>), acted SessionClosed))"

definition handleCancel :: "ServerSession \<Rightarrow> ServerSession \<times> ServerSessionTransition" where
  "handleCancel s =
     (if ss_state s = Cancelled \<or> ss_state s = Rejected \<or> ss_state s = TimedOut \<or> ss_state s = Closed then (s, noTransition)
      else (observe CancelledSeen ObservedTerminal ((cancelAuthentication s)\<lparr>ss_state := Cancelled, ss_deadline := None\<rparr>), acted SessionCancelled))"

definition handleTimeout :: "SessionEnvironment \<Rightarrow> ServerSession \<Rightarrow> ServerSession \<times> ServerSessionTransition" where
  "handleTimeout env s =
     (case ss_deadline s of
        None \<Rightarrow> (s, noTransition)
      | Some deadline \<Rightarrow>
        if ss_state s = Established \<or> ss_state s = Rejected \<or> ss_state s = TimedOut \<or> ss_state s = Cancelled \<or> ss_state s = Closed
        then (s, noTransition)
        else if env_now env < deadline then (s, noTransition)
        else (observe TimedOutSeen (observationStage (ss_state s)) ((cancelAuthentication s)\<lparr>ss_state := TimedOut, ss_deadline := None\<rparr>),
              acted SessionTimedOut))"

definition handleTransport :: "SessionEnvironment \<Rightarrow> u16 \<Rightarrow> ServerSession \<Rightarrow> ServerSession \<times> ServerSessionTransition" where
  "handleTransport env kind s =
     (if ss_state s \<noteq> AwaitingEncryptedTransport then illegal kind s
      else (case prepareDeadline env s TransportAndNegotiation of
              None \<Rightarrow> deadlineOverflow kind TransportAndNegotiation s
            | Some deadline \<Rightarrow>
              (observe TransitionAccepted ObservedTransportAndNegotiation
                 (s\<lparr>ss_state := AwaitingClientHello, ss_deadline := Some deadline\<rparr>), noTransition)))"

definition handleHello :: "SessionEnvironment \<Rightarrow> u16 \<Rightarrow> ClientHello \<Rightarrow> ServerSession \<Rightarrow> ServerSession \<times> ServerSessionTransition" where
  "handleHello env kind hello s =
     (if ss_state s \<noteq> AwaitingClientHello then illegal kind s
      else (case negotiateClientHello hello (ss_serverOffer s) of
              Inl rejected \<Rightarrow>
                (observe TransitionAccepted ObservedTerminal
                   (s\<lparr>ss_protocolRejection := Some rejected, ss_state := Rejected, ss_deadline := None\<rparr>), acted SendSessionRejected)
            | Inr negotiated \<Rightarrow>
              (case prepareDeadline env s AuthenticationInput of
                 None \<Rightarrow> deadlineOverflow kind AuthenticationInput s
               | Some deadline \<Rightarrow>
                 (observe TransitionAccepted ObservedTransportAndNegotiation
                    (s\<lparr>ss_negotiatedHello := Some negotiated, ss_state := AwaitingAuthenticationInput, ss_deadline := Some deadline\<rparr>),
                  acted SendServerHello))))"

definition handleSubmitted ::
  "CredentialCrypto \<Rightarrow> SessionEnvironment \<Rightarrow> u16 \<Rightarrow> ServerAuthenticationSubmission \<Rightarrow> AuthenticationService \<Rightarrow> ServerSession
   \<Rightarrow> AuthenticationService \<times> ServerSession \<times> ServerSessionTransition" where
  "handleSubmitted crypto env kind submission svc s =
     (if ss_state s \<noteq> AwaitingAuthenticationInput then (svc, illegal kind s)
      else (case prepareDeadline env s AuthenticationProvider of
              None \<Rightarrow> (svc, deadlineOverflow kind AuthenticationProvider s)
            | Some deadline \<Rightarrow>
              let s1 = s\<lparr>ss_context := Some (sub_context submission)\<rparr>;
                  (svc', operation) = beginAuthentication crypto (env_serviceNow env) svc (ss_activeAttempt s) submission
              in if \<not> env_allocates env
                 then (svc', observe AuthenticationRejectedSeen ObservedAuthenticationProvider
                               (s1\<lparr>ss_authenticationRejection := Some ProviderUnavailable, ss_state := Rejected, ss_deadline := None\<rparr>),
                       acted AuthenticationRejected)
                 else (svc', observe TransitionAccepted ObservedAuthenticationProvider
                               (s1\<lparr>ss_operation := Some operation, ss_state := AuthenticationPending, ss_deadline := Some deadline\<rparr>),
                       acted AuthenticationStarted)))"

definition admitSession :: "AuthenticatedAdmission \<Rightarrow> ServerSession \<Rightarrow> ServerSession" where
  "admitSession admission s =
     (let s1 = s\<lparr>ss_principal := Some (adm_principal admission), ss_playerClaim := adm_claim admission,
                 ss_playerCredential := adm_credential admission, ss_username := adm_username admission\<rparr>;
          s2 = (case adm_resume admission of
                  None \<Rightarrow> s1
                | Some grant \<Rightarrow>
                  s1\<lparr>ss_preparedResume := Some (gr_preparation grant), ss_sessionId := Some (gr_session grant),
                     ss_generation := gr_nextGeneration grant,
                     ss_activeAttempt := (ss_activeAttempt s1)\<lparr>att_generation := gr_nextGeneration grant\<rparr>,
                     ss_accepted := Some (gr_response grant)\<rparr>)
      in s2\<lparr>ss_state := Established\<rparr>)"

definition handlePoll ::
  "CredentialCrypto \<Rightarrow> SessionEnvironment \<Rightarrow> u16 \<Rightarrow> AuthenticationService \<Rightarrow> ServerSession
   \<Rightarrow> AuthenticationService \<times> ServerSession \<times> ServerSessionTransition" where
  "handlePoll crypto env kind svc s =
     (if ss_state s \<noteq> AuthenticationPending \<or> ss_operation s = None then (svc, illegal kind s)
      else (case pollOperation crypto (env_random env) (env_serviceNow env) svc (the (ss_operation s)) of
              (svc', operation, None) \<Rightarrow> (svc', s\<lparr>ss_operation := Some operation\<rparr>, acted AuthenticationStillPending)
            | (svc', operation, Some (attempt, result)) \<Rightarrow>
              if attempt \<noteq> ss_activeAttempt s
              then (svc', observe StaleCompletion ObservedAuthenticationProvider (s\<lparr>ss_operation := Some operation\<rparr>),
                    acted AuthenticationStaleCompletion)
              else let s1 = s\<lparr>ss_operation := None, ss_deadline := None\<rparr>
                   in (case result of
                         Inr admission \<Rightarrow>
                           (svc', observe AuthenticationSucceeded ObservedTerminal (admitSession admission s1), acted SessionEstablished)
                       | Inl reason \<Rightarrow>
                           (svc', observe AuthenticationRejectedSeen ObservedTerminal
                                    (s1\<lparr>ss_authenticationRejection := Some reason, ss_state := Rejected\<rparr>),
                            acted AuthenticationRejected))))"

definition handle ::
  "CredentialCrypto \<Rightarrow> SessionEnvironment \<Rightarrow> ServerSessionEvent \<Rightarrow> AuthenticationService \<Rightarrow> ServerSession
   \<Rightarrow> AuthenticationService \<times> ServerSession \<times> ServerSessionTransition" where
  "handle crypto env event svc s =
     (let kind = eventKind event
      in case event of
           ServerClose \<Rightarrow> handleClose svc s
         | ServerCancel \<Rightarrow> (svc, handleCancel s)
         | ServerCheckTimeout \<Rightarrow> (svc, handleTimeout env s)
         | ServerEncryptedTransportReady \<Rightarrow> (svc, handleTransport env kind s)
         | ServerClientHelloReceived hello \<Rightarrow> (svc, handleHello env kind hello s)
         | ServerAuthenticationSubmitted submission \<Rightarrow> handleSubmitted crypto env kind submission svc s
         | ServerPollAuthentication \<Rightarrow> handlePoll crypto env kind svc s)"

section \<open>Binding and resumption\<close>

text \<open>\<open>None\<close> where the store reads an empty optional.\<close>

definition finalizeInitialSession ::
  "CredentialCrypto \<Rightarrow> SessionEnvironment \<Rightarrow> SessionId \<Rightarrow> AuthenticationService \<Rightarrow> ServerSession
   \<Rightarrow> (AuthenticationService \<times> ServerSession \<times> InitialSessionFinalizationResult) option" where
  "finalizeInitialSession crypto env sessionId svc s =
     (case (ss_principal s, ss_context s) of
        (Some principalId, Some context) \<Rightarrow>
          if ss_state s \<noteq> Established then Some (svc, s, FinalizationNotEstablished)
          else if ss_accepted s \<noteq> None \<or> ss_sessionId s \<noteq> None then Some (svc, s, ResumeAlreadyFinalized)
          else (case issueInitial crypto (env_random env) (env_serviceNow env) svc principalId sessionId (ss_generation s) context of
                  (svc', Inr None) \<Rightarrow> None
                | (svc', Inr (Some accepted)) \<Rightarrow>
                    Some (svc', s\<lparr>ss_sessionId := Some sessionId, ss_accepted := Some accepted\<rparr>, Finalized)
                | (svc', Inl _) \<Rightarrow> Some (svc', s\<lparr>ss_sessionId := None, ss_state := Closed\<rparr>, TokenIssueFailed))
      | _ \<Rightarrow> Some (svc, s, FinalizationNotEstablished))"

definition bindEstablishedSession ::
  "CredentialCrypto \<Rightarrow> SessionEnvironment \<Rightarrow> SessionId \<Rightarrow> AuthenticationService \<Rightarrow> ServerSession
   \<Rightarrow> (AuthenticationService \<times> ServerSession \<times> ServerSessionBindingResult) option" where
  "bindEstablishedSession crypto env sessionId svc s =
     map_option (\<lambda>(svc', s', r). (svc', s', case r of
         Finalized \<Rightarrow> Bound
       | FinalizationAlreadyBound \<Rightarrow> BindingAlreadyBound
       | ResumeAlreadyFinalized \<Rightarrow> BindingAlreadyBound
       | FinalizationNotEstablished \<Rightarrow> BindingNotEstablished
       | TokenIssueFailed \<Rightarrow> BindingNotEstablished))
     (finalizeInitialSession crypto env sessionId svc s)"

definition bindPreissuedInitialSession :: "SessionId \<Rightarrow> ServerSession \<Rightarrow> ServerSession \<times> PreissuedInitialSessionBindingResult" where
  "bindPreissuedInitialSession sessionId s =
     (if ss_state s \<noteq> Established \<or> ss_principal s = None \<or> ss_context s = None then (s, PreissuedNotEstablished)
      else if ss_accepted s \<noteq> None \<or> ss_sessionId s \<noteq> None then (s, PreissuedAlreadyBound)
      else (s\<lparr>ss_sessionId := Some sessionId\<rparr>, PreissuedBound))"

definition takeAuthenticationAccepted :: "ServerSession \<Rightarrow> ServerSession \<times> AuthenticationAcceptedMessage option" where
  "takeAuthenticationAccepted s = (s\<lparr>ss_accepted := None\<rparr>, ss_accepted s)"

definition takePlayerCredential :: "ServerSession \<Rightarrow> ServerSession \<times> PlayerCredential option" where
  "takePlayerCredential s = (s\<lparr>ss_playerCredential := None\<rparr>, ss_playerCredential s)"

definition commitPreparedResume :: "AuthenticationService \<Rightarrow> ServerSession \<Rightarrow> (AuthenticationService \<times> ServerSession \<times> bool) option" where
  "commitPreparedResume svc s =
     (case ss_preparedResume s of
        None \<Rightarrow> Some (svc, s, False)
      | Some ident \<Rightarrow> map_option (\<lambda>(svc', ok). (svc', s, ok)) (commitResume svc ident))"

definition finalizePreparedResume :: "AuthenticationService \<Rightarrow> ServerSession \<Rightarrow> AuthenticationService \<times> ServerSession \<times> bool" where
  "finalizePreparedResume svc s =
     (case ss_preparedResume s of
        None \<Rightarrow> (svc, s, False)
      | Some ident \<Rightarrow> let (svc', ok) = finalizeResume svc ident
                      in if ok then (svc', s\<lparr>ss_preparedResume := None\<rparr>, True) else (svc', s, False))"

definition rollbackPreparedResume :: "AuthenticationService \<Rightarrow> ServerSession \<Rightarrow> AuthenticationService \<times> ServerSession \<times> bool" where
  "rollbackPreparedResume svc s =
     (case ss_preparedResume s of
        None \<Rightarrow> (svc, s, False)
      | Some ident \<Rightarrow> let (svc', ok) = rollbackResume svc ident
                      in if ok then (svc', s\<lparr>ss_preparedResume := None\<rparr>, True) else (svc', s, False))"

text \<open>The destructor.\<close>

definition destroySession :: "AuthenticationService \<Rightarrow> ServerSession \<Rightarrow> AuthenticationService" where
  "destroySession svc s = fst (cancelPreparedResume svc (cancelAuthentication s))"

definition receiveReliableOperation :: "SessionId \<Rightarrow> SessionGeneration \<Rightarrow> ServerSession \<Rightarrow> ReliableOperationReceiveResult" where
  "receiveReliableOperation commandSession commandGeneration s =
     (if ss_state s \<noteq> Established then ReceiveNotEstablished
      else (case ss_sessionId s of
              None \<Rightarrow> SessionNotBound
            | Some sessionId \<Rightarrow>
              if commandSession \<noteq> sessionId then SessionMismatch
              else if commandGeneration \<noteq> ss_generation s then GenerationMismatch else Delivered))"


section \<open>Runs\<close>

text \<open>The calls of the class that change a session, each with the clocks and the service as they are then.\<close>

datatype SessionCall =
  Handle ServerSessionEvent
| FinalizeInitial SessionId
| BindPreissued SessionId
| TakeAccepted
| TakeCredential
| CommitPrepared
| FinalizePrepared
| RollbackPrepared
| CancelPrepared

type_synonym SessionInput = "SessionEnvironment \<times> AuthenticationService \<times> SessionCall"

fun session_step :: "CredentialCrypto \<Rightarrow> SessionInput \<Rightarrow> ServerSession \<Rightarrow> ServerSession option" where
  "session_step crypto (env, svc, Handle event) s = Some (fst (snd (handle crypto env event svc s)))"
| "session_step crypto (env, svc, FinalizeInitial sessionId) s = map_option (\<lambda>(_, s', _). s') (finalizeInitialSession crypto env sessionId svc s)"
| "session_step crypto (env, svc, BindPreissued sessionId) s = Some (fst (bindPreissuedInitialSession sessionId s))"
| "session_step crypto (env, svc, TakeAccepted) s = Some (fst (takeAuthenticationAccepted s))"
| "session_step crypto (env, svc, TakeCredential) s = Some (fst (takePlayerCredential s))"
| "session_step crypto (env, svc, CommitPrepared) s = map_option (\<lambda>(_, s', _). s') (commitPreparedResume svc s)"
| "session_step crypto (env, svc, FinalizePrepared) s = Some (fst (snd (finalizePreparedResume svc s)))"
| "session_step crypto (env, svc, RollbackPrepared) s = Some (fst (snd (rollbackPreparedResume svc s)))"
| "session_step crypto (env, svc, CancelPrepared) s = Some (fst (snd (cancelPreparedResume svc s)))"

fun run_session :: "CredentialCrypto \<Rightarrow> ServerSession \<Rightarrow> SessionInput list \<Rightarrow> ServerSession option" where
  "run_session crypto s [] = Some s"
| "run_session crypto s (i # is) = (case session_step crypto i s of None \<Rightarrow> None | Some s' \<Rightarrow> run_session crypto s' is)"

fun session_states :: "CredentialCrypto \<Rightarrow> ServerSession \<Rightarrow> SessionInput list \<Rightarrow> ServerSessionState list" where
  "session_states crypto s [] = [ss_state s]"
| "session_states crypto s (i # is) =
     ss_state s # (case session_step crypto i s of None \<Rightarrow> [] | Some s' \<Rightarrow> session_states crypto s' is)"

lemma run_session_snoc:
  "run_session crypto s (is @ [i]) = (case run_session crypto s is of None \<Rightarrow> None | Some s' \<Rightarrow> session_step crypto i s')"
  by (induction "is" arbitrary: s) (simp_all split: option.split)

fun waiting :: "ServerSessionState \<Rightarrow> bool" where
  "waiting AwaitingEncryptedTransport = True"
| "waiting AwaitingClientHello = True"
| "waiting AwaitingAuthenticationInput = True"
| "waiting AuthenticationPending = True"
| "waiting _ = False"

fun ended :: "ServerSessionState \<Rightarrow> bool" where
  "ended Rejected = True"
| "ended TimedOut = True"
| "ended Cancelled = True"
| "ended Closed = True"
| "ended _ = False"

section \<open>What has happened\<close>

text \<open>
  The events behind a state: a hello that was negotiated; after it a submission; after that a poll that
  admitted what the submission may be admitted as.
\<close>

definition negotiated_in :: "CapabilityOffer \<Rightarrow> SessionInput list \<Rightarrow> ServerHello \<Rightarrow> bool" where
  "negotiated_in offer tr h \<longleftrightarrow> (\<exists>pre env svc hello post. tr = pre @ (env, svc, Handle (ServerClientHelloReceived hello)) # post
     \<and> negotiateClientHello hello offer = Inr h)"

definition submitted_in ::
  "CapabilityOffer \<Rightarrow> SessionInput list \<Rightarrow> ServerHello \<Rightarrow> SessionEnvironment \<Rightarrow> AuthenticationService \<Rightarrow> ServerAuthenticationSubmission \<Rightarrow> bool" where
  "submitted_in offer tr h env svc sub \<longleftrightarrow> (\<exists>pre post. tr = pre @ (env, svc, Handle (ServerAuthenticationSubmitted sub)) # post
     \<and> negotiated_in offer pre h)"

definition admitted_in :: "CredentialCrypto \<Rightarrow> CapabilityOffer \<Rightarrow> SessionInput list \<Rightarrow> ServerHello \<Rightarrow> ResumeTokenContext \<Rightarrow> AuthenticatedAdmission \<Rightarrow> bool" where
  "admitted_in crypto offer tr h c a \<longleftrightarrow> (\<exists>pre env svc post env' svc' sub. tr = pre @ (env, svc, Handle ServerPollAuthentication) # post
     \<and> submitted_in offer pre h env' svc' sub \<and> c = sub_context sub
     \<and> admitted_as crypto svc' sub (token_admits crypto (svc_store svc) (env_serviceNow env)) a)"

lemma negotiated_in_snoc: "negotiated_in offer tr h \<Longrightarrow> negotiated_in offer (tr @ [i]) h"
  unfolding negotiated_in_def by (metis append.assoc append_Cons)

lemma submitted_in_snoc: "submitted_in offer tr h env svc sub \<Longrightarrow> submitted_in offer (tr @ [i]) h env svc sub"
  unfolding submitted_in_def by (metis append.assoc append_Cons)

lemma admitted_in_snoc: "admitted_in crypto offer tr h c a \<Longrightarrow> admitted_in crypto offer (tr @ [i]) h c a"
  unfolding admitted_in_def by (metis append.assoc append_Cons)

lemma negotiated_in_last:
  "negotiateClientHello hello offer = Inr h \<Longrightarrow> negotiated_in offer (tr @ [(env, svc, Handle (ServerClientHelloReceived hello))]) h"
  unfolding negotiated_in_def by blast

lemma submitted_in_last:
  "negotiated_in offer tr h \<Longrightarrow> submitted_in offer (tr @ [(env, svc, Handle (ServerAuthenticationSubmitted sub))]) h env svc sub"
  unfolding submitted_in_def by blast

lemma admitted_in_last:
  assumes "submitted_in offer tr h env' svc' sub"
    and "admitted_as crypto svc' sub (token_admits crypto (svc_store svc) (env_serviceNow env)) a"
  shows "admitted_in crypto offer (tr @ [(env, svc, Handle ServerPollAuthentication)]) h (sub_context sub) a"
  unfolding admitted_in_def using assms by blast

text \<open>A deadline is a time at which some call was made, or the creation, and the length of a stage.\<close>

definition deadline_in :: "SessionTimeoutPolicy \<Rightarrow> MonotonicInstant \<Rightarrow> SessionInput list \<Rightarrow> MonotonicInstant \<Rightarrow> bool" where
  "deadline_in policy start tr d \<longleftrightarrow>
     (\<exists>now stage. (now = start \<or> (\<exists>i \<in> set tr. now = env_now (fst i))) \<and> sessionDeadline now (stageDuration policy stage) = Some d)"

lemma deadline_in_snoc: "deadline_in policy start tr d \<Longrightarrow> deadline_in policy start (tr @ [i]) d"
  unfolding deadline_in_def by auto

lemma deadline_in_last:
  "prepareDeadline env s stage = Some d \<Longrightarrow> deadline_in (ss_timeoutPolicy s) start (tr @ [(env, svc, call)]) d"
  unfolding deadline_in_def prepareDeadline_def by force

section \<open>Invariant\<close>

definition server_session_ok ::
  "CredentialCrypto \<Rightarrow> SessionTimeoutPolicy \<Rightarrow> CapabilityOffer \<Rightarrow> MonotonicInstant \<Rightarrow> SessionInput list \<Rightarrow> ServerSession \<Rightarrow> bool" where
  "server_session_ok crypto policy offer start tr s \<longleftrightarrow>
     ss_serverOffer s = offer \<and> ss_timeoutPolicy s = policy
     \<and> (ss_deadline s = None \<longleftrightarrow> \<not> waiting (ss_state s)) \<and> (\<forall>d. ss_deadline s = Some d \<longrightarrow> deadline_in policy start tr d)
     \<and> (ss_operation s \<noteq> None \<longleftrightarrow> ss_state s = AuthenticationPending) \<and> (waiting (ss_state s) \<longrightarrow> ss_preparedResume s = None)
     \<and> (ss_state s = AwaitingAuthenticationInput \<longrightarrow> (\<exists>h. ss_negotiatedHello s = Some h \<and> negotiated_in offer tr h))
     \<and> (ss_state s = AuthenticationPending \<longrightarrow> (\<exists>h env svc sub. ss_negotiatedHello s = Some h \<and> ss_context s = Some (sub_context sub)
          \<and> submitted_in offer tr h env svc sub
          \<and> ss_operation s = Some (snd (beginAuthentication crypto (env_serviceNow env) svc (ss_activeAttempt s) sub))))
     \<and> (ss_state s = Established \<longrightarrow> (\<exists>h c a. ss_negotiatedHello s = Some h \<and> ss_context s = Some c \<and> ss_principal s = Some (adm_principal a)
          \<and> ss_playerClaim s = adm_claim a \<and> admitted_in crypto offer tr h c a
          \<and> (\<forall>g. adm_resume a = Some g \<longrightarrow> ss_sessionId s = Some (gr_session g) \<and> ss_generation s = gr_nextGeneration g)))"

lemma server_session_ok_created: "createServerSession now policy generation offer = Inr s \<Longrightarrow> server_session_ok crypto policy offer now [] s"
  by (auto simp: createServerSession_def server_session_ok_def deadline_in_def split: option.splits)

lemma server_session_ok_snoc:
  "server_session_ok crypto policy offer start tr s \<Longrightarrow> server_session_ok crypto policy offer start (tr @ [i]) s"
  unfolding server_session_ok_def by (metis negotiated_in_snoc submitted_in_snoc admitted_in_snoc deadline_in_snoc)

text \<open>Changes that the invariant does not see.\<close>

lemma server_session_ok_frame [simp]:
  "server_session_ok crypto policy offer start tr (observe outcome stage s) = server_session_ok crypto policy offer start tr s"
  "server_session_ok crypto policy offer start tr (s\<lparr>ss_accepted := accepted\<rparr>) = server_session_ok crypto policy offer start tr s"
  "server_session_ok crypto policy offer start tr (s\<lparr>ss_playerCredential := credential\<rparr>) = server_session_ok crypto policy offer start tr s"
  by (simp_all add: server_session_ok_def observe_def)

lemma server_session_ok_released:
  "server_session_ok crypto policy offer start tr s \<Longrightarrow> server_session_ok crypto policy offer start tr (s\<lparr>ss_preparedResume := None\<rparr>)"
  by (simp add: server_session_ok_def)

lemma server_session_ok_ended:
  assumes "server_session_ok crypto policy offer start tr s" and "ended (ss_state s')" and "ss_deadline s' = None" and "ss_operation s' = None"
    and "ss_serverOffer s' = ss_serverOffer s" and "ss_timeoutPolicy s' = ss_timeoutPolicy s"
  shows "server_session_ok crypto policy offer start tr' s'"
  using assms by (cases "ss_state s'") (auto simp: server_session_ok_def)

lemma handle_terminal_ok:
  assumes "server_session_ok crypto policy offer start tr s"
  shows "server_session_ok crypto policy offer start (tr @ [i]) (fst (snd (handleClose svc s)))"
    and "server_session_ok crypto policy offer start (tr @ [i]) (fst (handleCancel s))"
    and "server_session_ok crypto policy offer start (tr @ [i]) (fst (handleTimeout env s))"
  using server_session_ok_snoc [OF assms, of i] server_session_ok_ended [OF assms]
  by (auto simp: handleClose_def handleCancel_def handleTimeout_def cancelAuthentication_def cancelPreparedResume_def Let_def
      split: option.split prod.split)

lemma illegal_ok:
  "server_session_ok crypto policy offer start tr s \<Longrightarrow> server_session_ok crypto policy offer start tr (fst (illegal kind s))"
  "server_session_ok crypto policy offer start tr s \<Longrightarrow> server_session_ok crypto policy offer start tr (fst (deadlineOverflow kind stage s))"
  by (simp_all add: illegal_def deadlineOverflow_def)

lemma handleTransport_ok:
  assumes "server_session_ok crypto policy offer start tr s"
  shows "server_session_ok crypto policy offer start (tr @ [(env, svc, call)]) (fst (handleTransport env kind s))"
proof (cases "ss_state s = AwaitingEncryptedTransport \<and> prepareDeadline env s TransportAndNegotiation \<noteq> None")
  case True
  then obtain d where d: "prepareDeadline env s TransportAndNegotiation = Some d" by auto
  from deadline_in_last [OF this, of start tr svc call] True assms show ?thesis
    by (simp add: handleTransport_def d) (simp add: server_session_ok_def)
next
  case False
  with illegal_ok [OF server_session_ok_snoc [OF assms]] show ?thesis by (auto simp: handleTransport_def)
qed

lemma handleHello_ok:
  assumes "server_session_ok crypto policy offer start tr s"
  shows "server_session_ok crypto policy offer start (tr @ [(env, svc, Handle (ServerClientHelloReceived hello))]) (fst (handleHello env kind hello s))"
proof (cases "ss_state s = AwaitingClientHello")
  case True
  show ?thesis
  proof (cases "negotiateClientHello hello (ss_serverOffer s)")
    case (Inl rejected)
    from assms True have "ss_operation s = None" by (simp add: server_session_ok_def)
    with Inl True show ?thesis by (simp add: handleHello_def server_session_ok_ended [OF assms])
  next
    case (Inr h)
    show ?thesis
    proof (cases "prepareDeadline env s AuthenticationInput")
      case None
      with True Inr illegal_ok [OF server_session_ok_snoc [OF assms]] show ?thesis by (simp add: handleHello_def)
    next
      case (Some d)
      have offer: "ss_serverOffer s = offer" using assms by (simp add: server_session_ok_def)
      from deadline_in_last [OF Some, of start tr svc] negotiated_in_last [OF Inr [unfolded offer], of tr env svc] True assms show ?thesis
        by (simp add: handleHello_def Inr Some) (simp add: server_session_ok_def)
    qed
  qed
next
  case False
  with illegal_ok [OF server_session_ok_snoc [OF assms]] show ?thesis by (auto simp: handleHello_def)
qed

lemma handleSubmitted_ok:
  assumes "server_session_ok crypto policy offer start tr s"
  shows "server_session_ok crypto policy offer start (tr @ [(env, svc, Handle (ServerAuthenticationSubmitted sub))])
    (fst (snd (handleSubmitted crypto env kind sub svc s)))"
proof (cases "ss_state s = AwaitingAuthenticationInput")
  case True
  show ?thesis
  proof (cases "prepareDeadline env s AuthenticationProvider")
    case None
    with True illegal_ok [OF server_session_ok_snoc [OF assms]] show ?thesis by (simp add: handleSubmitted_def)
  next
    case (Some d)
    obtain svc' op where op: "beginAuthentication crypto (env_serviceNow env) svc (ss_activeAttempt s) sub = (svc', op)"
      by (cases "beginAuthentication crypto (env_serviceNow env) svc (ss_activeAttempt s) sub")
    show ?thesis
    proof (cases "env_allocates env")
      case False
      from assms have "ss_operation s = None" using True by (simp add: server_session_ok_def)
      with True Some op False show ?thesis by (simp add: handleSubmitted_def Let_def server_session_ok_ended [OF assms])
    next
      case allocates: True
      from True assms obtain h where h: "ss_negotiatedHello s = Some h" "negotiated_in offer tr h" by (auto simp: server_session_ok_def)
      have "server_session_ok crypto policy offer start (tr @ [(env, svc, Handle (ServerAuthenticationSubmitted sub))])
         (s\<lparr>ss_context := Some (sub_context sub), ss_operation := Some op, ss_state := AuthenticationPending, ss_deadline := Some d\<rparr>)"
      proof -
        let ?tr = "tr @ [(env, svc, Handle (ServerAuthenticationSubmitted sub))]"
        have "\<exists>h' env' svc' sub'. ss_negotiatedHello s = Some h' \<and> Some (sub_context sub) = Some (sub_context sub')
            \<and> submitted_in offer ?tr h' env' svc' sub'
            \<and> Some op = Some (snd (beginAuthentication crypto (env_serviceNow env') svc' (ss_activeAttempt s) sub'))"
          by (intro exI [of _ h] exI [of _ env] exI [of _ svc] exI [of _ sub]) (simp add: h op submitted_in_last)
        moreover have "ss_serverOffer s = offer" "ss_timeoutPolicy s = policy" "deadline_in policy start ?tr d"
            "ss_preparedResume s = None"
          using assms True deadline_in_last [OF Some, of start tr svc] by (simp_all add: server_session_ok_def)
        ultimately show ?thesis unfolding server_session_ok_def by simp
      qed
      with True Some op allocates show ?thesis by (simp add: handleSubmitted_def Let_def)
    qed
  qed
next
  case False
  with illegal_ok [OF server_session_ok_snoc [OF assms]] show ?thesis by (simp add: handleSubmitted_def)
qed

lemma pending_started:
  assumes "server_session_ok crypto policy offer start tr s" and "ss_state s = AuthenticationPending"
  obtains h env svc sub svc' op where "ss_negotiatedHello s = Some h" "ss_context s = Some (sub_context sub)"
    "submitted_in offer tr h env svc sub" "ss_operation s = Some op" "ss_preparedResume s = None"
    "beginAuthentication crypto (env_serviceNow env) svc (ss_activeAttempt s) sub = (svc', op)"
  using assms unfolding server_session_ok_def by simp (metis prod.collapse)

lemma handlePoll_ok:
  assumes "server_session_ok crypto policy offer start tr s"
  shows "server_session_ok crypto policy offer start (tr @ [(env, svc, Handle ServerPollAuthentication)]) (fst (snd (handlePoll crypto env kind svc s)))"
proof (cases "ss_state s = AuthenticationPending")
  case True
  let ?tr = "tr @ [(env, svc, Handle ServerPollAuthentication)]"
  from pending_started [OF assms True] obtain h env' svc' sub svc'' op
    where h: "ss_negotiatedHello s = Some h" "ss_context s = Some (sub_context sub)" "ss_preparedResume s = None"
      and sub: "submitted_in offer tr h env' svc' sub" and op: "ss_operation s = Some op"
      and started: "beginAuthentication crypto (env_serviceNow env') svc' (ss_activeAttempt s) sub = (svc'', op)"
    by metis
  from poll_fresh [OF begin_fresh [OF started], of crypto "env_random env" "env_serviceNow env" svc]
  obtain svc1 op' result where poll: "pollOperation crypto (env_random env) (env_serviceNow env) svc op = (svc1, op', Some (ss_activeAttempt s, result))"
    by blast
  show ?thesis
  proof (cases result)
    case (Inl reason)
    with True op poll show ?thesis by (simp add: handlePoll_def Let_def server_session_ok_ended [OF assms])
  next
    case (Inr a)
    from begin_admits [OF started poll_admits [OF poll [unfolded Inr]]] have "admitted_in crypto offer ?tr h (sub_context sub) a"
      by (rule admitted_in_last [OF sub])
    moreover have "ss_serverOffer s = offer" "ss_timeoutPolicy s = policy" using assms by (simp_all add: server_session_ok_def)
    ultimately have "server_session_ok crypto policy offer start ?tr (admitSession a (s\<lparr>ss_operation := None, ss_deadline := None\<rparr>))"
      using h unfolding server_session_ok_def by (cases "adm_resume a") (auto simp: admitSession_def Let_def)
    with True op poll Inr show ?thesis by (simp add: handlePoll_def Let_def)
  qed
next
  case False
  with illegal_ok [OF server_session_ok_snoc [OF assms]] show ?thesis by (simp add: handlePoll_def)
qed

lemma handle_ok:
  assumes "server_session_ok crypto policy offer start tr s"
  shows "server_session_ok crypto policy offer start (tr @ [(env, svc, Handle event)]) (fst (snd (handle crypto env event svc s)))"
  using handle_terminal_ok [OF assms] handleTransport_ok [OF assms] handleHello_ok [OF assms] handleSubmitted_ok [OF assms] handlePoll_ok [OF assms]
  by (cases event) (simp_all add: handle_def)

lemma bound_session_ok:
  assumes "server_session_ok crypto policy offer start tr s" and "ss_state s = Established" and "ss_sessionId s = None"
  shows "server_session_ok crypto policy offer start tr (s\<lparr>ss_sessionId := Some sessionId\<rparr>)"
proof -
  from assms obtain h c a where "ss_negotiatedHello s = Some h" "ss_context s = Some c" "ss_principal s = Some (adm_principal a)"
      "ss_playerClaim s = adm_claim a" "admitted_in crypto offer tr h c a" "adm_resume a = None"
    by (auto simp: server_session_ok_def)
  then have "\<exists>h c a'. ss_negotiatedHello s = Some h \<and> ss_context s = Some c \<and> ss_principal s = Some (adm_principal a')
      \<and> ss_playerClaim s = adm_claim a' \<and> admitted_in crypto offer tr h c a'
      \<and> (\<forall>g. adm_resume a' = Some g \<longrightarrow> Some sessionId = Some (gr_session g) \<and> ss_generation s = gr_nextGeneration g)"
    by (intro exI [of _ h] exI [of _ c] exI [of _ a]) simp
  with assms(1,2) show ?thesis by (simp add: server_session_ok_def)
qed

lemma finalizeInitialSession_ok:
  assumes "server_session_ok crypto policy offer start tr s" and "finalizeInitialSession crypto env sessionId svc s = Some (svc', s', r)"
  shows "server_session_ok crypto policy offer start tr s'"
proof (cases "s' = s")
  case False
  then have "ss_state s = Established" "ss_accepted s = None" "ss_sessionId s = None"
    and s': "(\<exists>accepted. s' = s\<lparr>ss_sessionId := Some sessionId, ss_accepted := Some accepted\<rparr>) \<or> s' = s\<lparr>ss_sessionId := None, ss_state := Closed\<rparr>"
    using assms(2) by (auto simp: finalizeInitialSession_def split: option.splits if_splits prod.splits sum.splits)
  moreover have "ss_deadline s = None" "ss_operation s = None" using assms(1) \<open>ss_state s = Established\<close> by (simp_all add: server_session_ok_def)
  moreover note bound_session_ok [OF assms(1) \<open>ss_state s = Established\<close> \<open>ss_sessionId s = None\<close>, of sessionId]
  ultimately show ?thesis using server_session_ok_ended [OF assms(1), of s'] by auto
qed (use assms in simp)

lemma session_step_ok:
  assumes "server_session_ok crypto policy offer start tr s" and "session_step crypto i s = Some s'"
  shows "server_session_ok crypto policy offer start (tr @ [i]) s'"
proof -
  obtain env svc call where i: "i = (env, svc, call)" by (cases i) auto
  note ok = server_session_ok_snoc [OF assms(1), of i]
  show ?thesis
  proof (cases call)
    case (Handle event)
    with assms handle_ok show ?thesis by (auto simp: i)
  next
    case (FinalizeInitial sessionId)
    with assms(2) ok show ?thesis by (auto simp: i dest: finalizeInitialSession_ok)
  next
    case (BindPreissued sessionId)
    with assms(2) ok show ?thesis by (auto simp: i bindPreissuedInitialSession_def bound_session_ok split: if_splits)
  qed (use assms(2) ok server_session_ok_released [OF ok] in \<open>auto simp: i takeAuthenticationAccepted_def takePlayerCredential_def commitPreparedResume_def
      finalizePreparedResume_def rollbackPreparedResume_def cancelPreparedResume_def Let_def split: option.splits prod.splits\<close>)
qed

lemma run_session_ok:
  assumes "createServerSession start policy generation offer = Inr s0"
  shows "run_session crypto s0 is = Some s \<Longrightarrow> server_session_ok crypto policy offer start is s"
proof (induction "is" arbitrary: s rule: rev_induct)
  case Nil
  with server_session_ok_created [OF assms] show ?case by simp
next
  case (snoc i "is")
  then show ?case by (auto simp: run_session_snoc split: option.splits intro: session_step_ok)
qed

section \<open>The life cycle\<close>

text \<open>What a session promises to its connection: the states it may move to.\<close>

inductive session_moves :: "ServerSessionState \<Rightarrow> ServerSessionState \<Rightarrow> bool" where
  secured: "session_moves AwaitingEncryptedTransport AwaitingClientHello"
| negotiated: "session_moves AwaitingClientHello AwaitingAuthenticationInput"
| incompatible: "session_moves AwaitingClientHello Rejected"
| submitted: "session_moves AwaitingAuthenticationInput AuthenticationPending"
| unavailable: "session_moves AwaitingAuthenticationInput Rejected"
| admitted: "session_moves AuthenticationPending Established"
| denied: "session_moves AuthenticationPending Rejected"
| expired: "waiting st \<Longrightarrow> session_moves st TimedOut"
| cancelled: "waiting st \<or> st = Established \<Longrightarrow> session_moves st Cancelled"
| closed: "st \<noteq> Closed \<Longrightarrow> session_moves st Closed"

inductive_cases session_movesE: "session_moves st st'"

inductive_simps session_moves_simps: "session_moves st st'"

fun session_rank :: "ServerSessionState \<Rightarrow> nat" where
  "session_rank AwaitingEncryptedTransport = 0"
| "session_rank AwaitingClientHello = 1"
| "session_rank AwaitingAuthenticationInput = 2"
| "session_rank AuthenticationPending = 3"
| "session_rank Established = 4"
| "session_rank Closed = 6"
| "session_rank _ = 5"

lemma session_rank_le: "session_rank st \<le> 6"
  by (cases st) simp_all

lemma session_moves_rank: "session_moves st st' \<Longrightarrow> session_rank st < session_rank st'"
  by (erule session_moves.cases; cases st) simp_all

lemma not_waiting_iff: "\<not> waiting st \<longleftrightarrow> st = Established \<or> ended st"
  by (cases st) simp_all

lemma handle_moves:
  "ss_state (fst (snd (handle crypto env event svc s))) = ss_state s
    \<or> session_moves (ss_state s) (ss_state (fst (snd (handle crypto env event svc s))))"
proof (cases event)
  case ServerEncryptedTransportReady
  then show ?thesis
    by (auto simp: handle_def handleTransport_def illegal_def deadlineOverflow_def observe_def session_moves_simps split: option.split)
next
  case (ServerClientHelloReceived hello)
  then show ?thesis
    by (auto simp: handle_def handleHello_def illegal_def deadlineOverflow_def observe_def session_moves_simps split: option.split sum.split)
next
  case (ServerAuthenticationSubmitted submission)
  then show ?thesis
    by (auto simp: handle_def handleSubmitted_def illegal_def deadlineOverflow_def observe_def session_moves_simps Let_def split: option.split prod.split)
next
  case ServerPollAuthentication
  then show ?thesis
    by (auto simp: handle_def handlePoll_def illegal_def observe_def admitSession_def session_moves_simps Let_def split: option.split prod.split sum.split)
next
  case ServerCheckTimeout
  then show ?thesis
    by (cases "ss_state s") (auto simp: handle_def handleTimeout_def observe_def cancelAuthentication_def session_moves_simps split: option.split)
next
  case ServerCancel
  then show ?thesis
    by (cases "ss_state s") (auto simp: handle_def handleCancel_def observe_def cancelAuthentication_def session_moves_simps)
next
  case ServerClose
  then show ?thesis
    by (auto simp: handle_def handleClose_def observe_def cancelAuthentication_def cancelPreparedResume_def session_moves_simps Let_def
        split: option.split prod.split)
qed

lemma session_step_moves:
  assumes "session_step crypto i s = Some s'"
  shows "ss_state s' = ss_state s \<or> session_moves (ss_state s) (ss_state s')"
proof -
  obtain env svc call where i: "i = (env, svc, call)" by (cases i) auto
  show ?thesis
  proof (cases call)
    case (Handle event)
    with assms handle_moves [of crypto env event svc s] show ?thesis by (auto simp: i)
  next
    case (FinalizeInitial sessionId)
    with assms show ?thesis
      by (auto simp: i finalizeInitialSession_def session_moves_simps split: option.splits if_splits prod.splits sum.splits)
  qed (use assms in \<open>auto simp: i bindPreissuedInitialSession_def takeAuthenticationAccepted_def takePlayerCredential_def commitPreparedResume_def
      finalizePreparedResume_def rollbackPreparedResume_def cancelPreparedResume_def Let_def split: option.splits prod.splits if_splits\<close>)
qed

lemma session_states_hd: "\<exists>sts. session_states crypto s is = ss_state s # sts"
  by (cases "is") simp_all

lemma session_states_moves:
  "successively (\<lambda>st st'. st' = st \<or> session_moves st st') (session_states crypto s is)"
proof (induction "is" arbitrary: s)
  case (Cons i "is")
  show ?case
  proof (cases "session_step crypto i s")
    case (Some s')
    obtain sts where "session_states crypto s' is = ss_state s' # sts" using session_states_hd by blast
    with Cons.IH [of s'] session_step_moves [OF Some] Some show ?thesis by simp
  qed simp
qed simp

text \<open>Distinct neighbours of increasing rank: such a list is no longer than the ranks that are left.\<close>

lemma length_remdups_adj_ranked:
  fixes rank :: "'a \<Rightarrow> nat"
  assumes "\<And>x. rank x \<le> n"
  shows "successively (\<lambda>x y. y = x \<or> rank x < rank y) (x # xs) \<Longrightarrow> length (remdups_adj (x # xs)) \<le> Suc n - rank x"
proof (induction xs arbitrary: x)
  case Nil
  from assms [of x] show ?case by simp
next
  case (Cons y xs)
  then have "y = x \<or> rank x < rank y" "length (remdups_adj (y # xs)) \<le> Suc n - rank y" by simp_all
  then show ?case using assms [of y] by auto
qed

lemma timeout_decides:
  assumes "server_session_ok crypto policy offer start tr s" and "waiting (ss_state s)"
  obtains d where "ss_deadline s = Some d" "deadline_in policy start tr d"
    "\<And>env svc. handle crypto env ServerCheckTimeout svc s =
       (if env_now env < d then (svc, s, noTransition)
        else (svc, observe TimedOutSeen (observationStage (ss_state s)) (s\<lparr>ss_operation := None, ss_state := TimedOut, ss_deadline := None\<rparr>),
              acted SessionTimedOut))"
proof -
  from assms obtain d where d: "ss_deadline s = Some d" "deadline_in policy start tr d" by (auto simp: server_session_ok_def)
  have "ss_state s \<notin> {Established, Rejected, TimedOut, Cancelled, Closed}" using assms(2) by auto
  then show thesis using d by (intro that [of d]) (auto simp: handle_def handleTimeout_def cancelAuthentication_def)
qed

lemma poll_decides:
  assumes "server_session_ok crypto policy offer start tr s" and "ss_state s = AuthenticationPending"
  shows "\<exists>svc' s' action. handle crypto env ServerPollAuthentication svc s = (svc', s', acted action)
    \<and> (ss_state s' = Established \<and> action = SessionEstablished \<or> ss_state s' = Rejected \<and> action = AuthenticationRejected)"
proof -
  obtain h env' svc' sub svc'' op where "ss_negotiatedHello s = Some h" "ss_context s = Some (sub_context sub)"
      "submitted_in offer tr h env' svc' sub" and op: "ss_operation s = Some op" and "ss_preparedResume s = None"
      and started: "beginAuthentication crypto (env_serviceNow env') svc' (ss_activeAttempt s) sub = (svc'', op)"
    by (rule pending_started [OF assms])
  from poll_fresh [OF begin_fresh [OF started], of crypto "env_random env" "env_serviceNow env" svc]
  obtain svc1 op' result where poll: "pollOperation crypto (env_random env) (env_serviceNow env) svc op = (svc1, op', Some (ss_activeAttempt s, result))"
    by blast
  with assms(2) op show ?thesis
    by (cases result) (simp_all add: handle_def handlePoll_def observe_def admitSession_def Let_def)
qed

lemma deadline_in_bounded:
  assumes "createTimeoutPolicy a b c = Some policy" and "deadline_in policy start tr d"
  shows "\<exists>now. (now = start \<or> (\<exists>i \<in> set tr. now = env_now (fst i))) \<and> now \<le> d \<and> unat d \<le> unat now + unat MaximumSessionStageTimeoutNanoseconds"
proof -
  from assms(2) obtain now stage where now: "now = start \<or> (\<exists>i \<in> set tr. now = env_now (fst i))"
      and d: "sessionDeadline now (stageDuration policy stage) = Some d" by (auto simp: deadline_in_def)
  have "stageDuration policy stage \<le> MaximumSessionStageTimeoutNanoseconds"
    using assms(1) by (cases stage) (auto simp: createTimeoutPolicy_def validDuration_def stageDuration_def split: if_splits)
  moreover have "unat d = unat now + unat (stageDuration policy stage)"
  proof -
    from d have "d = now + stageDuration policy stage" "stageDuration policy stage \<le> u64_max - now"
      by (simp_all add: sessionDeadline_def not_less split: if_splits)
    moreover from this(2) have "unat now + unat (stageDuration policy stage) < 2 ^ 64"
      using unat_lt_u64 [of now] by (simp add: word_le_nat_alt unat_u64_max_minus del: unat_lt_u64)
    ultimately show ?thesis by (simp add: unat_plus_no_wrap)
  qed
  ultimately show ?thesis using now by (auto simp: word_le_nat_alt)
qed

section \<open>Resumption through a session\<close>

lemma begin_resumes:
  assumes "beginAuthentication crypto now svc attempt sub = (svc', op)"
    and "pollOperation crypto random now' svc2 op = (svc3, op', Some (t, Inr a))" and "adm_resume a = Some g"
  obtains token where "op = ResumeOperation attempt (Some token) (sub_context sub)"
    "prepareConsume crypto (svc_store svc2) random token (sub_context sub) now' = (svc_store svc3, Inr g)"
    "svc3 = svc2\<lparr>svc_store := svc_store svc3\<rparr>" "adm_principal a = gr_principal g"
proof -
  have "(\<exists>r. op = rejectAtOnce attempt r) \<or> (\<exists>m. op = beginJoin crypto svc' attempt m)
      \<or> (\<exists>m cl c n. op = PlayerClaimOperation (Some (beginJoin crypto svc' attempt m)) cl c n)
      \<or> (\<exists>m c n. op = PlayerNewProfileOperation (Some (beginJoin crypto svc' attempt m)) c n)
      \<or> (\<exists>token. op = ResumeOperation attempt (Some token) (sub_context sub))"
    using assms(1) by (auto simp: beginAuthentication_def Let_def split: prod.splits if_splits option.splits)
  then obtain token where op: "op = ResumeOperation attempt (Some token) (sub_context sub)"
    using assms(2,3)
    by (auto simp: rejectAtOnce_def beginJoin_def initialAdmission_def reattachAdmission_def split: if_splits prod.splits option.splits)
  with assms(2,3) show thesis by (auto split: prod.splits sum.splits intro: that)
qed

lemma poll_prepares:
  assumes ok: "server_session_ok crypto policy offer start tr s" and tokens: "store_ok (svc_store svc)"
    and poll: "handle crypto env ServerPollAuthentication svc s = (svc1, s1, t)" and ident: "ss_preparedResume s1 = Some ident"
    and pending: "ss_state s = AuthenticationPending"
  obtains i r c j where "record_at (svc_store svc) i = Some r" "\<not> reserved (svc_store svc) i" "continues r (pend_replacement c)"
    "pend_slot c = i" "pend_id c = ident" "pending_at (svc_store svc) j = None" "j < length (ts_pending (svc_store svc))"
    "svc1 = svc\<lparr>svc_store := (svc_store svc)\<lparr>ts_committed := None, ts_nextPreparationId := ts_nextPreparationId (svc_store svc) + 1,
       ts_pending := (ts_pending (svc_store svc))[j := Some c]\<rparr>\<rparr>"
    "ss_sessionId s1 = Some (rec_session r)" "ss_generation s1 = rec_generation (pend_replacement c)" "ss_principal s1 = Some (rec_principal r)"
    "store_ok (svc_store svc1)" "ss_state s1 = Established"
proof -
  obtain h env' svc' sub svc'' op where "ss_negotiatedHello s = Some h" "ss_context s = Some (sub_context sub)"
      "submitted_in offer tr h env' svc' sub" and op: "ss_operation s = Some op" and none: "ss_preparedResume s = None"
      and started: "beginAuthentication crypto (env_serviceNow env') svc' (ss_activeAttempt s) sub = (svc'', op)"
    by (rule pending_started [OF ok pending])
  from poll_fresh [OF begin_fresh [OF started], of crypto "env_random env" "env_serviceNow env" svc]
  obtain svc2 op' result where p: "pollOperation crypto (env_random env) (env_serviceNow env) svc op = (svc2, op', Some (ss_activeAttempt s, result))"
    by blast
  with poll pending op none ident obtain a g where a: "result = Inr a" "adm_resume a = Some g" "gr_preparation g = ident" and svc2: "svc2 = svc1"
      and s1: "ss_sessionId s1 = Some (gr_session g)" "ss_generation s1 = gr_nextGeneration g" "ss_principal s1 = Some (adm_principal a)" "ss_state s1 = Established"
    by (cases result) (auto simp: handle_def handlePoll_def observe_def admitSession_def Let_def split: option.splits)
  from begin_resumes [OF started p [unfolded a(1)] a(2)] obtain token
    where prep: "prepareConsume crypto (svc_store svc) (env_random env) token (sub_context sub) (env_serviceNow env) = (svc_store svc2, Inr g)"
      and svc1: "svc2 = svc\<lparr>svc_store := svc_store svc2\<rparr>" and principal': "adm_principal a = gr_principal g"
    by metis
  from prep show thesis
  proof (cases rule: prepareConsume_cases)
    case (prepared d i r c j g')
    have "store_ok (svc_store svc2)" unfolding prepared(12) using prepared prepared_ok [OF tokens, of c r j] by simp
    with prepared svc1 s1 a principal' svc2 show thesis by (intro that [of i r c j]) auto
  qed auto
qed

lemma cancelConsume_found:
  assumes "store_ok s" and "pending_at s j = Some c"
  shows "cancelConsume s (pend_id c) = (s\<lparr>ts_pending := (ts_pending s)[j := None]\<rparr>, True)"
  using findPending_unique [OF assms] by (simp add: cancelConsume_def)

section \<open>A sample run\<close>

definition session_env :: SessionEnvironment where
  "session_env = \<lparr>env_now = 1000, env_serviceNow = 5, env_random = Some (replicate 32 2), env_allocates = True\<rparr>"

definition session_policy :: SessionTimeoutPolicy where
  "session_policy = \<lparr>tp_transportAndNegotiation = 2000000, tp_authenticationInput = 3000000, tp_authenticationProvider = 4000000\<rparr>"

definition resume_submission :: ServerAuthenticationSubmission where
  "resume_submission = sample_submission\<lparr>sub_request := \<lparr>req_kind = ResumeTokenKind, req_material = replicate 32 1,
     req_playerCredential = None, req_username = []\<rparr>\<rparr>"

definition sample_hello :: ServerHello where
  "sample_hello = \<lparr>sh_version = \<lparr>pv_major = 1, pv_minor = 3\<rparr>, sh_capabilities = [2, 4], sh_manifest = sample_manifest_id\<rparr>"

definition sample_session0 :: ServerSession where
  "sample_session0 = (case createServerSession 0 session_policy 1 sample_server of Inr s \<Rightarrow> s)"

definition sample_inputs :: "SessionInput list" where
  "sample_inputs = map (\<lambda>event. (session_env, sample_service, Handle event))
     [ServerEncryptedTransportReady, ServerClientHelloReceived sample_client, ServerAuthenticationSubmitted resume_submission]"

definition sample_pending_session :: ServerSession where
  "sample_pending_session = the (run_session sample_crypto sample_session0 sample_inputs)"

definition sample_polled :: "AuthenticationService \<times> ServerSession \<times> ServerSessionTransition" where
  "sample_polled = handle sample_crypto session_env ServerPollAuthentication sample_service sample_pending_session"

lemma sample_session_created: "createServerSession 0 session_policy 1 sample_server = Inr sample_session0"
  by (simp add: sample_session0_def createServerSession_def sessionDeadline_def stageDuration_def session_policy_def u64_max_def)

lemma sample_session_policy: "createTimeoutPolicy 2000000 3000000 4000000 = Some session_policy"
  by (simp add: createTimeoutPolicy_def validDuration_def MinimumSessionStageTimeoutNanoseconds_def
      MaximumSessionStageTimeoutNanoseconds_def session_policy_def)

lemma sample_resume_begins:
  "snd (beginAuthentication sample_crypto 5 sample_service t resume_submission) = ResumeOperation t (Some (replicate 32 1)) sample_context"
proof -
  have scope: "sub_scope resume_submission = sub_scope sample_submission" by (simp add: resume_submission_def)
  have "snd (allow (svc_limiter sample_service) (sub_scope resume_submission) 5) = RateAllowed"
    by (simp add: sample_service_def scope sample_submission_def createRateLimiter_def sample_policy_def allow_def refill_def
      NanosecondsPerMillisecond_def allowSource_def findScope_def emptySlot_def find_index_replicate MaximumAuthenticationAdmissionScopes_def
      find_index_def Let_def)
  then show ?thesis
    by (cases "allow (svc_limiter sample_service) (sub_scope resume_submission) 5")
      (simp add: beginAuthentication_def Let_def resume_submission_def sample_submission_def takeResumeToken_def ResumeTokenBytes_def)
qed

lemma sample_negotiates: "negotiateClientHello sample_client sample_server = Inr sample_hello"
  unfolding sample_hello_def by code_simp

lemma sample_pending_session_eq:
  "run_session sample_crypto sample_session0 sample_inputs = Some sample_pending_session"
  "ss_state sample_pending_session = AuthenticationPending" "ss_deadline sample_pending_session = Some 4001000"
  "ss_operation sample_pending_session = Some (ResumeOperation \<lparr>att_id = 1, att_generation = 1\<rparr> (Some (replicate 32 1)) sample_context)"
  "ss_activeAttempt sample_pending_session = \<lparr>att_id = 1, att_generation = 1\<rparr>"
proof -
  obtain svc op where b: "beginAuthentication sample_crypto 5 sample_service \<lparr>att_id = 1, att_generation = 1\<rparr> resume_submission = (svc, op)"
    by (cases "beginAuthentication sample_crypto 5 sample_service \<lparr>att_id = 1, att_generation = 1\<rparr> resume_submission")
  have op: "op = ResumeOperation \<lparr>att_id = 1, att_generation = 1\<rparr> (Some (replicate 32 1)) sample_context"
    using sample_resume_begins [of "\<lparr>att_id = 1, att_generation = 1\<rparr>"] by (simp add: b)
  obtain s where s: "run_session sample_crypto sample_session0 sample_inputs = Some s" "ss_state s = AuthenticationPending"
      "ss_deadline s = Some 4001000" "ss_operation s = Some op" "ss_activeAttempt s = \<lparr>att_id = 1, att_generation = 1\<rparr>"
    by (simp add: sample_inputs_def sample_session0_def createServerSession_def handle_def handleTransport_def handleHello_def handleSubmitted_def
        sample_negotiates prepareDeadline_def sessionDeadline_def stageDuration_def session_policy_def session_env_def observe_def
        initial_def b Let_def u64_max_def)
  then show "run_session sample_crypto sample_session0 sample_inputs = Some sample_pending_session"
    "ss_state sample_pending_session = AuthenticationPending" "ss_deadline sample_pending_session = Some 4001000"
    "ss_operation sample_pending_session = Some (ResumeOperation \<lparr>att_id = 1, att_generation = 1\<rparr> (Some (replicate 32 1)) sample_context)"
    "ss_activeAttempt sample_pending_session = \<lparr>att_id = 1, att_generation = 1\<rparr>"
    by (simp_all add: sample_pending_session_def op)
qed

lemma sample_polled_eq:
  "ss_state (fst (snd sample_polled)) = Established" "ss_preparedResume (fst (snd sample_polled)) = Some 1"
  by (simp_all add: sample_polled_def handle_def handlePoll_def sample_pending_session_eq session_env_def sample_service_def sample_prepare
      admitSession_def observe_def Let_def)

section \<open>A prepared resumption\<close>

text \<open>A preparation that is in the store can be committed, and the commit leaves its replacement in the reserved slot.\<close>

lemma commitPreparedResume_found:
  assumes ok: "store_ok (svc_store svc)" and at: "pending_at (svc_store svc) j = Some c" and prepared: "ss_preparedResume s = Some (pend_id c)"
  shows "\<exists>svc2. commitPreparedResume svc s = Some (svc2, s, True) \<and> record_at (svc_store svc2) (pend_slot c) = Some (pend_replacement c)"
proof -
  obtain c' r where "pending_at (svc_store svc) j = Some c'" and r: "record_at (svc_store svc) (pend_slot c') = Some r"
    and commit: "commitConsume (svc_store svc) (pend_id c) = Some ((svc_store svc)\<lparr>ts_committed := Some \<lparr>com_id = pend_id c, com_slot = pend_slot c', com_prior = r\<rparr>,
       ts_records := (ts_records (svc_store svc))[pend_slot c' := Some (pend_replacement c')], ts_pending := (ts_pending (svc_store svc))[j := None]\<rparr>, True)"
    using commitConsume_found [OF ok findPending_unique [OF ok at]] by metis
  with at have "c' = c" by simp
  moreover from this r have "pend_slot c < length (ts_records (svc_store svc))" using record_at_SomeD by blast
  ultimately show ?thesis using commit prepared by (simp add: commitPreparedResume_def commitResume_def record_at_def)
qed

text \<open>Closing the session instead takes only the preparation away; the records are as they were.\<close>

lemma close_prepared:
  assumes ok: "store_ok (svc_store svc)" and at: "pending_at (svc_store svc) j = Some c" and prepared: "ss_preparedResume s = Some (pend_id c)"
    and established: "ss_state s = Established"
  shows "\<exists>s2. handle crypto env ServerClose svc s = (svc\<lparr>svc_store := (svc_store svc)\<lparr>ts_pending := (ts_pending (svc_store svc))[j := None]\<rparr>\<rparr>,
      s2, acted SessionClosed) \<and> ss_preparedResume s2 = None"
    and "destroySession svc s = svc\<lparr>svc_store := (svc_store svc)\<lparr>ts_pending := (ts_pending (svc_store svc))[j := None]\<rparr>\<rparr>"
  using cancelConsume_found [OF ok at] prepared established
  by (simp_all add: cancelResume_def handle_def handleClose_def destroySession_def cancelPreparedResume_def cancelAuthentication_def observe_def)

section \<open>Properties\<close>

text \<open>
  C4. An established session is authenticated. Whatever calls are made on a session, in whatever order and
  with whatever state of the shared service, when it is established then the client's hello was
  negotiated against the server's offer, later a submission was made, and still later a poll admitted
  it; the session's principal, player claim, session and generation are those of that admission, which
  the join password, the player's credential or a live resume token justify.
\<close>

theorem session_established_sound:
  assumes "createServerSession start policy generation offer = Inr s0" and "run_session crypto s0 is = Some s" and "ss_state s = Established"
  shows "\<exists>h c a. ss_negotiatedHello s = Some h \<and> ss_context s = Some c \<and> ss_principal s = Some (adm_principal a)
    \<and> ss_playerClaim s = adm_claim a \<and> admitted_in crypto offer is h c a
    \<and> (\<forall>g. adm_resume a = Some g \<longrightarrow> ss_sessionId s = Some (gr_session g) \<and> ss_generation s = gr_nextGeneration g)"
  using run_session_ok [OF assms(1,2)] assms(3) by (simp add: server_session_ok_def)

theorem session_established_sound_witness:
  "\<exists>s. run_session sample_crypto sample_session0 (sample_inputs @ [(session_env, sample_service, Handle ServerPollAuthentication)]) = Some s
     \<and> (\<exists>h c a. ss_negotiatedHello s = Some h
          \<and> admitted_in sample_crypto sample_server (sample_inputs @ [(session_env, sample_service, Handle ServerPollAuthentication)]) h c a)"
proof -
  have run: "run_session sample_crypto sample_session0 (sample_inputs @ [(session_env, sample_service, Handle ServerPollAuthentication)])
      = Some (fst (snd sample_polled))"
    by (simp add: run_session_snoc sample_pending_session_eq sample_polled_def)
  from session_established_sound [OF sample_session_created run sample_polled_eq(1)] run show ?thesis by blast
qed

text \<open>
  C12. The session refines its life cycle: every call leaves the state alone or makes one of the moves a
  session promises, and the state changes at most as often as there are ranks left, six times from the
  start; so no sequence of calls, however long, makes a session return to an earlier state.
\<close>

theorem session_refines_life_cycle:
  "successively (\<lambda>st st'. st' = st \<or> session_moves st st') (session_states crypto s is)
   \<and> length (remdups_adj (session_states crypto s is)) \<le> 7 - session_rank (ss_state s)"
proof (rule conjI [OF session_states_moves])
  obtain sts where sts: "session_states crypto s is = ss_state s # sts" using session_states_hd by blast
  have "successively (\<lambda>st st'. st' = st \<or> session_rank st < session_rank st') (session_states crypto s is)"
    by (rule successively_mono [OF session_states_moves]) (auto intro: session_moves_rank)
  then show "length (remdups_adj (session_states crypto s is)) \<le> 7 - session_rank (ss_state s)"
    unfolding sts by (rule length_remdups_adj_ranked [OF session_rank_le, simplified])
qed

text \<open>
  C20. No session waits forever. A session that is not yet established has a deadline, at most two minutes
  after the time of its creation or of one of its calls; checking the time before it changes nothing,
  checking it at or after it ends the session; and one poll decides a pending authentication.
\<close>

theorem session_waiting_ends:
  assumes "createTimeoutPolicy a b c = Some policy" and "createServerSession start policy generation offer = Inr s0"
    and "run_session crypto s0 is = Some s" and "waiting (ss_state s)"
  shows "\<exists>d now. ss_deadline s = Some d \<and> now \<in> set (start # map (env_now \<circ> fst) is) \<and> now \<le> d
      \<and> unat d \<le> unat now + unat MaximumSessionStageTimeoutNanoseconds
      \<and> (if env_now env < d then handle crypto env ServerCheckTimeout svc s = (svc, s, noTransition)
         else \<exists>s'. handle crypto env ServerCheckTimeout svc s = (svc, s', acted SessionTimedOut) \<and> ss_state s' = TimedOut)
      \<and> (ss_state s = AuthenticationPending \<longrightarrow> ss_state (fst (snd (handle crypto env ServerPollAuthentication svc s))) \<in> {Established, Rejected})"
proof -
  note ok = run_session_ok [OF assms(2,3)]
  obtain d where d: "ss_deadline s = Some d" and late: "deadline_in policy start is d"
    and check: "\<And>env svc. handle crypto env ServerCheckTimeout svc s =
       (if env_now env < d then (svc, s, noTransition)
        else (svc, observe TimedOutSeen (observationStage (ss_state s)) (s\<lparr>ss_operation := None, ss_state := TimedOut, ss_deadline := None\<rparr>),
              acted SessionTimedOut))"
    using timeout_decides [OF ok assms(4)] by metis
  obtain now where now: "now \<in> set (start # map (env_now \<circ> fst) is)" "now \<le> d" "unat d \<le> unat now + unat MaximumSessionStageTimeoutNanoseconds"
    using deadline_in_bounded [OF assms(1) late] by auto
  have "ss_state (fst (snd (handle crypto env ServerPollAuthentication svc s))) \<in> {Established, Rejected}" if "ss_state s = AuthenticationPending"
    using poll_decides [OF ok that, of env svc] by auto
  with d now check [of env svc] show ?thesis by (intro exI [of _ d] exI [of _ now]) (simp add: observe_def)
qed

theorem session_waiting_ends_witness:
  "\<exists>d s'. ss_deadline sample_pending_session = Some d
     \<and> handle sample_crypto (session_env\<lparr>env_now := 5000000\<rparr>) ServerCheckTimeout sample_service sample_pending_session
         = (sample_service, s', acted SessionTimedOut) \<and> ss_state s' = TimedOut"
proof -
  have "waiting (ss_state sample_pending_session)" by (simp add: sample_pending_session_eq)
  from session_waiting_ends [OF sample_session_policy sample_session_created sample_pending_session_eq(1) this,
      of "session_env\<lparr>env_now := 5000000\<rparr>" sample_service]
  show ?thesis by (auto simp: sample_pending_session_eq(3))
qed

text \<open>
  C25. Resuming is two-phase. Take a token store reached without presenting a token whose reserved record has
  expired (and without a scan for expired records while the last commit's record has expired and can be rolled
  back), and a session that a poll establishes there by a resume token. The poll only reserves the token's record.
  Whatever is then done with the store in the same circumstances, short of committing or cancelling this
  preparation, committing it succeeds and leaves a record for exactly this session, generation and
  principal, and closing the session instead leaves all records alone. Closed or destroyed right after
  the poll, the service differs from what it was only by a forgotten rollback and a used preparation number.
\<close>

theorem session_resumption_two_phase:
  assumes "createServerSession start policy generation offer = Inr s0" and "run_session crypto s0 is = Some s"
    and "token_reachable crypto (svc_store svc)" and "ss_state s = AuthenticationPending"
    and "handle crypto env ServerPollAuthentication svc s = (svc1, s1, t)" and "ss_preparedResume s1 = Some ident"
  shows "(\<forall>xs. safe_run crypto (svc_store svc1) xs \<and> CommitToken ident \<notin> set xs \<and> CancelToken ident \<notin> set xs \<longrightarrow>
      (\<exists>store svc2 i r. token_run crypto (svc_store svc1) xs = Some store
         \<and> commitPreparedResume (svc1\<lparr>svc_store := store\<rparr>) s1 = Some (svc2, s1, True) \<and> record_at (svc_store svc2) i = Some r
         \<and> ss_sessionId s1 = Some (rec_session r) \<and> ss_generation s1 = rec_generation r \<and> ss_principal s1 = Some (rec_principal r)
         \<and> (\<exists>svc3 s2. handle crypto env' ServerClose (svc1\<lparr>svc_store := store\<rparr>) s1 = (svc3, s2, acted SessionClosed)
              \<and> ss_preparedResume s2 = None \<and> ts_records (svc_store svc3) = ts_records store)))
    \<and> (let svc' = svc\<lparr>svc_store := (svc_store svc)\<lparr>ts_committed := None, ts_nextPreparationId := ts_nextPreparationId (svc_store svc) + 1\<rparr>\<rparr>
       in (\<exists>s2. handle crypto env' ServerClose svc1 s1 = (svc', s2, acted SessionClosed) \<and> ss_preparedResume s2 = None) \<and> destroySession svc1 s1 = svc')"
proof -
  from poll_prepares [OF run_session_ok [OF assms(1,2)] token_reachable_ok [OF assms(3)] assms(5,6,4)]
  obtain i r c j where c: "pend_slot c = i" "pend_id c = ident" "continues r (pend_replacement c)" "record_at (svc_store svc) i = Some r"
      and j: "pending_at (svc_store svc) j = None" "j < length (ts_pending (svc_store svc))"
      and svc1: "svc1 = svc\<lparr>svc_store := (svc_store svc)\<lparr>ts_committed := None, ts_nextPreparationId := ts_nextPreparationId (svc_store svc) + 1,
       ts_pending := (ts_pending (svc_store svc))[j := Some c]\<rparr>\<rparr>"
      and s1: "ss_sessionId s1 = Some (rec_session r)" "ss_generation s1 = rec_generation (pend_replacement c)" "ss_principal s1 = Some (rec_principal r)"
      and ok: "store_ok (svc_store svc1)" and established: "ss_state s1 = Established"
    by metis
  have at: "pending_at (svc_store svc1) j = Some c" using j by (simp add: svc1 pending_at_def)
  have prepared: "ss_preparedResume s1 = Some (pend_id c)" using assms(6) c(2) by simp
  have later: "\<exists>store svc2 i r. token_run crypto (svc_store svc1) xs = Some store
         \<and> commitPreparedResume (svc1\<lparr>svc_store := store\<rparr>) s1 = Some (svc2, s1, True) \<and> record_at (svc_store svc2) i = Some r
         \<and> ss_sessionId s1 = Some (rec_session r) \<and> ss_generation s1 = rec_generation r \<and> ss_principal s1 = Some (rec_principal r)
         \<and> (\<exists>svc3 s2. handle crypto env' ServerClose (svc1\<lparr>svc_store := store\<rparr>) s1 = (svc3, s2, acted SessionClosed)
              \<and> ss_preparedResume s2 = None \<and> ts_records (svc_store svc3) = ts_records store)"
    if safe: "safe_run crypto (svc_store svc1) xs" and others: "CommitToken ident \<notin> set xs" "CancelToken ident \<notin> set xs" for xs
  proof -
    obtain store where run: "token_run crypto (svc_store svc1) xs = Some store" and store: "store_ok store" "pending_at store j = Some c"
      using preparation_lasts [OF ok safe at] others c(2) by auto
    let ?svc = "svc1\<lparr>svc_store := store\<rparr>"
    have there: "store_ok (svc_store ?svc)" "pending_at (svc_store ?svc) j = Some c" using store by simp_all
    from commitPreparedResume_found [OF there prepared] close_prepared(1) [OF there prepared established, of crypto env'] run s1 c(3)
    show ?thesis by (fastforce simp: continues_def)
  qed
  have none: "(ts_pending (svc_store svc))[j := None] = ts_pending (svc_store svc)" using j by (auto simp: pending_at_def list_update_same_conv)
  show ?thesis using later close_prepared(1) [OF ok at prepared established, of crypto env'] close_prepared(2) [OF ok at prepared established] none
    by (auto simp: Let_def svc1)
qed

theorem session_resumption_two_phase_witness:
  "\<exists>store svc2 i r. token_run sample_crypto (svc_store (fst sample_polled)) [FinalizeToken 5, RollbackToken 7] = Some store
     \<and> commitPreparedResume ((fst sample_polled)\<lparr>svc_store := store\<rparr>) (fst (snd sample_polled)) = Some (svc2, fst (snd sample_polled), True)
     \<and> record_at (svc_store svc2) i = Some r \<and> ss_generation (fst (snd sample_polled)) = rec_generation r"
proof -
  have polled: "handle sample_crypto session_env ServerPollAuthentication sample_service sample_pending_session
      = (fst sample_polled, fst (snd sample_polled), snd (snd sample_polled))" by (simp add: sample_polled_def)
  have tokens: "token_reachable sample_crypto (svc_store sample_service)" by (simp add: sample_service_def sample_issued_reachable)
  have safe: "safe_run sample_crypto (svc_store (fst sample_polled)) [FinalizeToken 5, RollbackToken 7]" by simp
  from session_resumption_two_phase [OF sample_session_created sample_pending_session_eq(1) tokens sample_pending_session_eq(2) polled sample_polled_eq(2),
      THEN conjunct1, rule_format, of "[FinalizeToken 5, RollbackToken 7]"] safe
  show ?thesis by (simp del: token_run.simps) blast
qed

end
