(* ===== verification/World_State.thy ===== *)
theory World_State
  imports Content_Identity Deterministic_Random
begin

text \<open>
  The shared state of the game world (\<^verbatim>\<open>world_state.hpp\<close>, \<^verbatim>\<open>world_state.cpp\<close>): the clock and calendar,
  global variables, the quests and journals of the players, their standing in factions, and the
  weather of the regions. A mutation copies the world, changes the copy and creates a world from it
  again, which validates it. A single-precision float is its bit pattern.
\<close>

section \<open>Data\<close>

type_synonym GlobalVariableId = u64
type_synonym GlobalVariableRevision = u64
type_synonym WorldTimeRevision = u64
type_synonym QuestId = u64
type_synonym QuestStage = u64
type_synonym QuestRevision = u64
type_synonym JournalEntryId = u64
type_synonym JournalRevision = u64
type_synonym FactionId = u64
type_synonym FactionRank = u64
type_synonym FactionMembershipRevision = u64
type_synonym FactionReputationRevision = u64
type_synonym DialogueChoiceId = u64
type_synonym WeatherId = u64
type_synonym WeatherRegionId = u64
type_synonym WeatherRevision = u64

definition MaximumGlobalVariables :: nat where "MaximumGlobalVariables = 65536"
definition MaximumQuestCatalogEntries :: nat where "MaximumQuestCatalogEntries = 4096"
definition MaximumQuestStagesPerQuest :: nat where "MaximumQuestStagesPerQuest = 1024"
definition MaximumQuestCatalogStages :: nat where "MaximumQuestCatalogStages = 32768"
definition MaximumJournalCatalogEntries :: nat where "MaximumJournalCatalogEntries = 16384"
definition MaximumPlayerQuestJournalStates :: nat where "MaximumPlayerQuestJournalStates = 256"
definition MaximumCanonicalQuestStates :: nat where "MaximumCanonicalQuestStates = 16384"
definition MaximumCanonicalJournalEntries :: nat where "MaximumCanonicalJournalEntries = 16384"
definition MaximumFactionCatalogEntries :: nat where "MaximumFactionCatalogEntries = 4096"
definition MaximumFactionRanksPerFaction :: nat where "MaximumFactionRanksPerFaction = 256"
definition MaximumFactionCatalogRanks :: nat where "MaximumFactionCatalogRanks = 16384"
definition MaximumDialogueChoiceCatalogEntries :: nat where "MaximumDialogueChoiceCatalogEntries = 16384"
definition MaximumPlayerFactionStates :: nat where "MaximumPlayerFactionStates = 256"
definition MaximumCanonicalFactionStates :: nat where "MaximumCanonicalFactionStates = 16384"
definition MaximumNativeEnvironmentBytes :: nat where "MaximumNativeEnvironmentBytes = 512 * 1024"
definition MaximumWeatherIdentities :: nat where "MaximumWeatherIdentities = 256"
definition MaximumWeatherRegions :: nat where "MaximumWeatherRegions = 4096"
definition MaximumWeatherEligibilityEntries :: nat where "MaximumWeatherEligibilityEntries = 65536"
definition MaximumWeatherTimingTicks :: u64 where "MaximumWeatherTimingTicks = 1000000000"
definition WorldMillisecondsPerHour :: u32 where "WorldMillisecondsPerHour = 3600000"
definition WorldMillisecondsPerDay :: u32 where "WorldMillisecondsPerDay = 24 * WorldMillisecondsPerHour"
definition WorldTimeScaleUnitsPerOne :: u32 where "WorldTimeScaleUnitsPerOne = 1000"
definition MaximumWorldTimeScaleUnits :: u32 where "MaximumWorldTimeScaleUnits = 1000000"
definition MaximumWaitRestHours :: u8 where "MaximumWaitRestHours = 24"

datatype GlobalVariableType = ShortType | LongType | FloatType

datatype GlobalVariableValue = ShortValue "16 word" | LongValue i32 | FloatValue u32

fun valueType :: "GlobalVariableValue \<Rightarrow> GlobalVariableType" where
  "valueType (ShortValue v) = ShortType"
| "valueType (LongValue v) = LongType"
| "valueType (FloatValue v) = FloatType"

record GlobalVariableCatalogEntry =
  gce_id :: GlobalVariableId
  gce_initialValue :: GlobalVariableValue

type_synonym GlobalVariableCatalog = "GlobalVariableCatalogEntry list"

record QuestCatalogEntry =
  qce_id :: QuestId
  qce_initialStage :: QuestStage
  qce_stages :: "QuestStage list"

record JournalCatalogEntry =
  jce_id :: JournalEntryId
  jce_quest :: QuestId
  jce_stage :: QuestStage

record QuestJournalCatalog =
  qjc_manifest :: ContentManifestId
  qjc_quests :: "QuestCatalogEntry list"
  qjc_journal :: "JournalCatalogEntry list"

record FactionCatalogEntry =
  fce_id :: FactionId
  fce_ranks :: "FactionRank list"

record DialogueChoiceCatalogEntry =
  dce_id :: DialogueChoiceId
  dce_requiredFaction :: "FactionId option"
  dce_minimumRank :: FactionRank
  dce_minimumReputation :: i32

record FactionDialogueCatalog =
  fdc_manifest :: ContentManifestId
  fdc_factions :: "FactionCatalogEntry list"
  fdc_dialogueChoices :: "DialogueChoiceCatalogEntry list"

record WeatherRegionCatalogEntry =
  wce_id :: WeatherRegionId
  wce_initialWeather :: WeatherId
  wce_selectionIntervalTicks :: u64
  wce_transitionDurationTicks :: u64
  wce_eligibleWeather :: "WeatherId list"

record WeatherCatalog =
  wc_manifest :: ContentManifestId
  wc_weather :: "WeatherId list"
  wc_regions :: "WeatherRegionCatalogEntry list"

record CanonicalQuestState =
  qst_id :: QuestId
  qst_stage :: QuestStage
  qst_revision :: QuestRevision
  qst_lastChangeTick :: ServerTick

record CanonicalJournalEntryState =
  jst_id :: JournalEntryId
  jst_revision :: JournalRevision
  jst_changeTick :: ServerTick

record CanonicalPlayerQuestJournalState =
  pqj_player :: PlayerId
  pqj_quests :: "CanonicalQuestState list"
  pqj_journal :: "CanonicalJournalEntryState list"
  pqj_journalRevision :: JournalRevision
  pqj_lastJournalChangeTick :: ServerTick

record CanonicalFactionState =
  fst_id :: FactionId
  fst_rank :: "FactionRank option"
  fst_membershipRevision :: FactionMembershipRevision
  fst_lastMembershipChangeTick :: ServerTick
  fst_reputation :: i32
  fst_reputationRevision :: FactionReputationRevision
  fst_lastReputationChangeTick :: ServerTick

record CanonicalPlayerFactionState =
  pfs_player :: PlayerId
  pfs_factions :: "CanonicalFactionState list"

record CanonicalWorldTimeState =
  wt_day :: u8
  wt_month :: u8
  wt_year :: i32
  wt_millisecondsSinceMidnight :: u32
  wt_timeScaleUnits :: u32
  wt_subMillisecondRemainder :: u16
  wt_revision :: WorldTimeRevision
  wt_lastChangeTick :: ServerTick
  wt_lastAdvanceTick :: ServerTick
  wt_daysPassed :: "u32 option"

record CanonicalGlobalVariableState =
  gst_id :: GlobalVariableId
  gst_value :: GlobalVariableValue
  gst_revision :: GlobalVariableRevision
  gst_lastChangeTick :: ServerTick

record CanonicalWeatherRegionState =
  wrs_region :: WeatherRegionId
  wrs_currentWeather :: WeatherId
  wrs_targetWeather :: WeatherId
  wrs_transitionStartTick :: ServerTick
  wrs_transitionEndTick :: ServerTick
  wrs_nextSelectionTick :: ServerTick
  wrs_revision :: WeatherRevision
  wrs_lastChangeTick :: ServerTick

record CanonicalWeatherState =
  ws_regions :: "CanonicalWeatherRegionState list"
  ws_randomState :: RandomStateV1
  ws_lastAdvanceTick :: ServerTick
  ws_nativeEnvironment :: "u8 list"

record CanonicalWorldState =
  cw_time :: CanonicalWorldTimeState
  cw_globals :: "CanonicalGlobalVariableState list"
  cw_questJournalCatalog :: "QuestJournalCatalog option"
  cw_questJournal :: "CanonicalPlayerQuestJournalState list"
  cw_factionDialogueCatalog :: "FactionDialogueCatalog option"
  cw_factionStates :: "CanonicalPlayerFactionState list"
  cw_weatherCatalog :: "WeatherCatalog option"
  cw_weather :: "CanonicalWeatherState option"

datatype CanonicalWorldMutationError =
  InvalidState | WorldTickRegression | WorldRevisionExhausted | ArithmeticOverflow | UnknownGlobal | TypeMismatch | RevisionMismatch
| CatalogMismatch | UnknownWorldPlayer | UnknownQuest | UnknownQuestStage | QuestRevisionMismatch | UnknownJournalEntry
| JournalEntryQuestMismatch | JournalRevisionMismatch | DuplicateJournalEntry | UnknownFaction | UnknownFactionRank
| FactionMembershipRevisionMismatch | FactionReputationRevisionMismatch | UnknownDialogueChoice | DialogueChoiceIneligible
| UnknownWeatherRegion | UnknownWeather | WeatherIneligible | WeatherRevisionMismatch

type_synonym CanonicalWorldMutationResult = "CanonicalWorldMutationError + CanonicalWorldState"

section \<open>Validation\<close>

text \<open>\<^verbatim>\<open>std::isfinite\<close>: the exponent is not all ones.\<close>

fun validValue :: "GlobalVariableValue \<Rightarrow> bool" where
  "validValue (FloatValue bits) \<longleftrightarrow> bits AND 0x7F800000 \<noteq> 0x7F800000"
| "validValue (ShortValue v) \<longleftrightarrow> True"
| "validValue (LongValue v) \<longleftrightarrow> True"

definition validTime :: "CanonicalWorldTimeState \<Rightarrow> bool" where
  "validTime t \<longleftrightarrow> wt_day t \<ge> 1 \<and> wt_day t \<le> 31 \<and> wt_month t \<le> 11 \<and> sint (wt_year t) \<ge> 0
     \<and> wt_millisecondsSinceMidnight t < WorldMillisecondsPerDay \<and> wt_timeScaleUnits t \<le> MaximumWorldTimeScaleUnits
     \<and> ucast (wt_subMillisecondRemainder t) < WorldTimeScaleUnitsPerOne \<and> wt_lastChangeTick t \<le> wt_lastAdvanceTick t
     \<and> (case wt_daysPassed t of None \<Rightarrow> True | Some days \<Rightarrow> days \<le> 100000000)"

text \<open>Equal alternatives with equal values; floats by their bits.\<close>

definition sameValue :: "GlobalVariableValue \<Rightarrow> GlobalVariableValue \<Rightarrow> bool" where
  "sameValue left right \<longleftrightarrow> left = right"

definition containsStage :: "QuestCatalogEntry \<Rightarrow> QuestStage \<Rightarrow> bool" where
  "containsStage quest stage \<longleftrightarrow> stage \<in> set (qce_stages quest)"

text \<open>The index of an id in a catalog, or the end.\<close>

definition catalogIndex :: "('a \<Rightarrow> u64) \<Rightarrow> 'a list \<Rightarrow> u64 \<Rightarrow> nat" where
  "catalogIndex key entries k = (case find_index (\<lambda>e. key e = k) entries of None \<Rightarrow> length entries | Some i \<Rightarrow> i)"

text \<open>The three inner loops: the quests in catalog order, the journal's revisions and ticks, repetitions.\<close>

fun validQuests :: "QuestJournalCatalog \<Rightarrow> nat option \<Rightarrow> CanonicalQuestState list \<Rightarrow> bool" where
  "validQuests catalog prior [] \<longleftrightarrow> True"
| "validQuests catalog prior (quest # quests) \<longleftrightarrow>
     (let index = catalogIndex qce_id (qjc_quests catalog) (qst_id quest)
      in index < length (qjc_quests catalog) \<and> containsStage (qjc_quests catalog ! index) (qst_stage quest)
         \<and> qst_revision quest \<noteq> initial CounterFromOne
         \<and> (case prior of None \<Rightarrow> True | Some p \<Rightarrow> p < index) \<and> qst_lastChangeTick quest \<noteq> 0
         \<and> validQuests catalog (Some index) quests)"

definition findJournalEntry :: "QuestJournalCatalog \<Rightarrow> JournalEntryId \<Rightarrow> JournalCatalogEntry option" where
  "findJournalEntry catalog entry = find (\<lambda>e. jce_id e = entry) (qjc_journal catalog)"

fun validJournal :: "QuestJournalCatalog \<Rightarrow> ServerTick \<Rightarrow> JournalRevision \<Rightarrow> ServerTick \<Rightarrow> CanonicalJournalEntryState list
    \<Rightarrow> JournalRevision option" where
  "validJournal catalog lastTick expectedRevision priorChangeTick [] = Some expectedRevision"
| "validJournal catalog lastTick expectedRevision priorChangeTick (entry # entries) =
     (if findJournalEntry catalog (jst_id entry) = None \<or> jst_changeTick entry = 0 \<or> jst_changeTick entry < priorChangeTick
         \<or> jst_changeTick entry > lastTick
      then None
      else (case next_value expectedRevision of
              None \<Rightarrow> None
            | Some n \<Rightarrow> if jst_revision entry \<noteq> n then None else validJournal catalog lastTick n (jst_changeTick entry) entries))"

definition validPlayerQuestJournal :: "QuestJournalCatalog \<Rightarrow> CanonicalPlayerQuestJournalState \<Rightarrow> bool" where
  "validPlayerQuestJournal catalog player \<longleftrightarrow>
     validQuests catalog None (pqj_quests player)
     \<and> validJournal catalog (pqj_lastJournalChangeTick player) (initial CounterFromOne) 0 (pqj_journal player)
         = Some (pqj_journalRevision player)
     \<and> (pqj_journal player = [] \<longrightarrow> pqj_lastJournalChangeTick player = 0)
     \<and> (pqj_journal player \<noteq> [] \<longrightarrow> jst_changeTick (last (pqj_journal player)) = pqj_lastJournalChangeTick player)
     \<and> distinct (map jst_id (pqj_journal player))"

fun validQuestJournalFrom :: "QuestJournalCatalog \<Rightarrow> PlayerId option \<Rightarrow> nat \<Rightarrow> nat \<Rightarrow> CanonicalPlayerQuestJournalState list \<Rightarrow> bool" where
  "validQuestJournalFrom catalog prior totalQuests totalJournal [] \<longleftrightarrow> True"
| "validQuestJournalFrom catalog prior totalQuests totalJournal (player # players) \<longleftrightarrow>
     (case prior of None \<Rightarrow> True | Some p \<Rightarrow> p < pqj_player player)
     \<and> length (pqj_quests player) \<le> length (qjc_quests catalog) \<and> length (pqj_journal player) \<le> length (qjc_journal catalog)
     \<and> (pqj_quests player \<noteq> [] \<or> pqj_journal player \<noteq> [])
     \<and> length (pqj_quests player) \<le> MaximumCanonicalQuestStates - totalQuests
     \<and> length (pqj_journal player) \<le> MaximumCanonicalJournalEntries - totalJournal
     \<and> validPlayerQuestJournal catalog player
     \<and> validQuestJournalFrom catalog (Some (pqj_player player)) (totalQuests + length (pqj_quests player))
         (totalJournal + length (pqj_journal player)) players"

definition validQuestJournalState :: "QuestJournalCatalog \<Rightarrow> CanonicalPlayerQuestJournalState list \<Rightarrow> bool" where
  "validQuestJournalState catalog ps \<longleftrightarrow> length ps \<le> MaximumPlayerQuestJournalStates \<and> validQuestJournalFrom catalog None 0 0 ps"

definition containsRank :: "FactionCatalogEntry \<Rightarrow> FactionRank \<Rightarrow> bool" where
  "containsRank faction rank \<longleftrightarrow> rank \<in> set (fce_ranks faction)"

fun validFactions :: "FactionDialogueCatalog \<Rightarrow> nat option \<Rightarrow> CanonicalFactionState list \<Rightarrow> bool" where
  "validFactions catalog prior [] \<longleftrightarrow> True"
| "validFactions catalog prior (faction # factions) \<longleftrightarrow>
     (let index = catalogIndex fce_id (fdc_factions catalog) (fst_id faction); one = initial CounterFromOne
      in index < length (fdc_factions catalog)
         \<and> (case fst_rank faction of None \<Rightarrow> True | Some r \<Rightarrow> containsRank (fdc_factions catalog ! index) r)
         \<and> (case prior of None \<Rightarrow> True | Some p \<Rightarrow> p < index)
         \<and> (fst_rank faction \<noteq> None \<longleftrightarrow> fst_membershipRevision faction \<noteq> one)
         \<and> (fst_rank faction \<noteq> None \<longleftrightarrow> fst_lastMembershipChangeTick faction \<noteq> 0)
         \<and> (fst_reputationRevision faction = one \<longrightarrow> fst_reputation faction = 0 \<and> fst_lastReputationChangeTick faction = 0)
         \<and> (fst_reputationRevision faction \<noteq> one \<longrightarrow> fst_lastReputationChangeTick faction \<noteq> 0)
         \<and> (fst_rank faction \<noteq> None \<or> fst_reputationRevision faction \<noteq> one)
         \<and> validFactions catalog (Some index) factions)"

fun validFactionsFrom :: "FactionDialogueCatalog \<Rightarrow> PlayerId option \<Rightarrow> nat \<Rightarrow> CanonicalPlayerFactionState list \<Rightarrow> bool" where
  "validFactionsFrom catalog prior totalFactions [] \<longleftrightarrow> True"
| "validFactionsFrom catalog prior totalFactions (player # players) \<longleftrightarrow>
     (case prior of None \<Rightarrow> True | Some p \<Rightarrow> p < pfs_player player) \<and> pfs_factions player \<noteq> []
     \<and> length (pfs_factions player) \<le> length (fdc_factions catalog)
     \<and> length (pfs_factions player) \<le> MaximumCanonicalFactionStates - totalFactions
     \<and> validFactions catalog None (pfs_factions player)
     \<and> validFactionsFrom catalog (Some (pfs_player player)) (totalFactions + length (pfs_factions player)) players"

definition validFactionState :: "FactionDialogueCatalog \<Rightarrow> CanonicalPlayerFactionState list \<Rightarrow> bool" where
  "validFactionState catalog ps \<longleftrightarrow> length ps \<le> MaximumPlayerFactionStates \<and> validFactionsFrom catalog None 0 ps"

definition eligible :: "WeatherRegionCatalogEntry \<Rightarrow> WeatherId \<Rightarrow> bool" where
  "eligible region weather \<longleftrightarrow> weather \<in> set (wce_eligibleWeather region)"

definition addTicks :: "ServerTick \<Rightarrow> u64 \<Rightarrow> ServerTick option" where
  "addTicks tick amount = (if amount > u64_max - tick then None else Some (tick + amount))"

definition validRegion :: "ServerTick \<Rightarrow> WeatherRegionCatalogEntry \<Rightarrow> CanonicalWeatherRegionState \<Rightarrow> bool" where
  "validRegion lastAdvance declaration state \<longleftrightarrow>
     wrs_region state = wce_id declaration \<and> eligible declaration (wrs_currentWeather state)
     \<and> eligible declaration (wrs_targetWeather state) \<and> wrs_lastChangeTick state \<le> lastAdvance
     \<and> wrs_transitionStartTick state \<le> wrs_transitionEndTick state \<and> wrs_transitionEndTick state \<le> wrs_nextSelectionTick state
     \<and> (wrs_currentWeather state = wrs_targetWeather state \<longrightarrow> wrs_transitionStartTick state = wrs_transitionEndTick state)
     \<and> (wrs_currentWeather state \<noteq> wrs_targetWeather state \<longrightarrow> wrs_transitionStartTick state \<noteq> wrs_transitionEndTick state
          \<and> wrs_lastChangeTick state = wrs_transitionStartTick state)"

definition validWeatherState :: "WeatherCatalog \<Rightarrow> CanonicalWeatherState \<Rightarrow> bool" where
  "validWeatherState catalog weather \<longleftrightarrow>
     length (ws_nativeEnvironment weather) \<le> MaximumNativeEnvironmentBytes
     \<and> list_all2 (validRegion (ws_lastAdvanceTick weather)) (wc_regions catalog) (ws_regions weather)"

section \<open>Catalogs\<close>

definition createGlobalCatalog :: "GlobalVariableCatalogEntry list \<Rightarrow> GlobalVariableCatalog option" where
  "createGlobalCatalog entries =
     (if length entries > MaximumGlobalVariables then None
      else if list_all (\<lambda>e. validValue (gce_initialValue e)) entries \<and> distinct (map gce_id entries) then Some entries
      else None)"

fun questEntriesValid :: "nat \<Rightarrow> QuestCatalogEntry list \<Rightarrow> bool" where
  "questEntriesValid totalStages [] \<longleftrightarrow> True"
| "questEntriesValid totalStages (quest # quests) \<longleftrightarrow>
     qce_stages quest \<noteq> [] \<and> length (qce_stages quest) \<le> MaximumQuestStagesPerQuest
     \<and> length (qce_stages quest) \<le> MaximumQuestCatalogStages - totalStages \<and> containsStage quest (qce_initialStage quest)
     \<and> sorted_wrt (<) (qce_stages quest) \<and> questEntriesValid (totalStages + length (qce_stages quest)) quests"

definition createQuestJournalCatalog ::
  "ContentManifestId \<Rightarrow> QuestCatalogEntry list \<Rightarrow> JournalCatalogEntry list \<Rightarrow> QuestJournalCatalog option" where
  "createQuestJournalCatalog manifest quests journal =
     (if length quests > MaximumQuestCatalogEntries \<or> length journal > MaximumJournalCatalogEntries then None
      else if \<not> questEntriesValid 0 quests \<or> \<not> distinct (map qce_id quests) then None
      else if list_all (\<lambda>e. case find (\<lambda>q. qce_id q = jce_quest e) quests of None \<Rightarrow> False | Some q \<Rightarrow> containsStage q (jce_stage e)) journal
              \<and> distinct (map jce_id journal)
      then Some \<lparr>qjc_manifest = manifest, qjc_quests = quests, qjc_journal = journal\<rparr>
      else None)"

definition findQuest :: "QuestJournalCatalog \<Rightarrow> QuestId \<Rightarrow> QuestCatalogEntry option" where
  "findQuest catalog quest = find (\<lambda>q. qce_id q = quest) (qjc_quests catalog)"

fun factionEntriesValid :: "nat \<Rightarrow> FactionCatalogEntry list \<Rightarrow> bool" where
  "factionEntriesValid totalRanks [] \<longleftrightarrow> True"
| "factionEntriesValid totalRanks (faction # factions) \<longleftrightarrow>
     fce_ranks faction \<noteq> [] \<and> length (fce_ranks faction) \<le> MaximumFactionRanksPerFaction
     \<and> length (fce_ranks faction) \<le> MaximumFactionCatalogRanks - totalRanks \<and> sorted_wrt (<) (fce_ranks faction)
     \<and> factionEntriesValid (totalRanks + length (fce_ranks faction)) factions"

definition choiceValid :: "FactionCatalogEntry list \<Rightarrow> DialogueChoiceCatalogEntry \<Rightarrow> bool" where
  "choiceValid factions choice \<longleftrightarrow>
     (case dce_requiredFaction choice of
        None \<Rightarrow> dce_minimumRank choice = initial CounterFromZero \<and> dce_minimumReputation choice = 0
      | Some required \<Rightarrow>
        (case find (\<lambda>f. fce_id f = required) factions of None \<Rightarrow> False | Some f \<Rightarrow> containsRank f (dce_minimumRank choice)))"

definition createFactionDialogueCatalog ::
  "ContentManifestId \<Rightarrow> FactionCatalogEntry list \<Rightarrow> DialogueChoiceCatalogEntry list \<Rightarrow> FactionDialogueCatalog option" where
  "createFactionDialogueCatalog manifest factions choices =
     (if length factions > MaximumFactionCatalogEntries \<or> length choices > MaximumDialogueChoiceCatalogEntries then None
      else if \<not> factionEntriesValid 0 factions \<or> \<not> distinct (map fce_id factions) then None
      else if list_all (choiceValid factions) choices \<and> distinct (map dce_id choices)
      then Some \<lparr>fdc_manifest = manifest, fdc_factions = factions, fdc_dialogueChoices = choices\<rparr>
      else None)"

definition findFaction :: "FactionDialogueCatalog \<Rightarrow> FactionId \<Rightarrow> FactionCatalogEntry option" where
  "findFaction catalog faction = find (\<lambda>f. fce_id f = faction) (fdc_factions catalog)"

definition findDialogueChoice :: "FactionDialogueCatalog \<Rightarrow> DialogueChoiceId \<Rightarrow> DialogueChoiceCatalogEntry option" where
  "findDialogueChoice catalog choice = find (\<lambda>c. dce_id c = choice) (fdc_dialogueChoices catalog)"

fun regionEntriesValid :: "WeatherId list \<Rightarrow> nat \<Rightarrow> WeatherRegionCatalogEntry list \<Rightarrow> bool" where
  "regionEntriesValid weather totalEligibility [] \<longleftrightarrow> True"
| "regionEntriesValid weather totalEligibility (region # regions) \<longleftrightarrow>
     wce_selectionIntervalTicks region \<noteq> 0 \<and> wce_transitionDurationTicks region \<noteq> 0
     \<and> wce_selectionIntervalTicks region \<le> MaximumWeatherTimingTicks \<and> wce_transitionDurationTicks region \<le> MaximumWeatherTimingTicks
     \<and> wce_eligibleWeather region \<noteq> []
     \<and> length (wce_eligibleWeather region) \<le> MaximumWeatherEligibilityEntries - totalEligibility
     \<and> set (wce_eligibleWeather region) \<subseteq> set weather \<and> distinct (wce_eligibleWeather region)
     \<and> eligible region (wce_initialWeather region)
     \<and> regionEntriesValid weather (totalEligibility + length (wce_eligibleWeather region)) regions"

definition createWeatherCatalog ::
  "ContentManifestId \<Rightarrow> WeatherId list \<Rightarrow> WeatherRegionCatalogEntry list \<Rightarrow> WeatherCatalog option" where
  "createWeatherCatalog manifest weather regions =
     (if weather = [] \<or> length weather > MaximumWeatherIdentities \<or> regions = [] \<or> length regions > MaximumWeatherRegions then None
      else if \<not> distinct weather then None
      else if regionEntriesValid weather 0 regions \<and> distinct (map wce_id regions)
      then Some \<lparr>wc_manifest = manifest, wc_weather = weather, wc_regions = regions\<rparr>
      else None)"

definition catalogContainsWeather :: "WeatherCatalog \<Rightarrow> WeatherId \<Rightarrow> bool" where
  "catalogContainsWeather catalog weather \<longleftrightarrow> weather \<in> set (wc_weather catalog)"

definition findRegion :: "WeatherCatalog \<Rightarrow> WeatherRegionId \<Rightarrow> WeatherRegionCatalogEntry option" where
  "findRegion catalog region = find (\<lambda>r. wce_id r = region) (wc_regions catalog)"

section \<open>Creation\<close>

definition createWorld :: "CanonicalWorldTimeState \<Rightarrow> CanonicalGlobalVariableState list \<Rightarrow> CanonicalWorldState option" where
  "createWorld time globals =
     (if \<not> validTime time \<or> length globals > MaximumGlobalVariables then None
      else if list_all (\<lambda>g. validValue (gst_value g)) globals \<and> distinct (map gst_id globals)
      then Some \<lparr>cw_time = time, cw_globals = globals, cw_questJournalCatalog = None, cw_questJournal = [],
                 cw_factionDialogueCatalog = None, cw_factionStates = [], cw_weatherCatalog = None, cw_weather = None\<rparr>
      else None)"

definition createQuestWorld ::
  "CanonicalWorldTimeState \<Rightarrow> CanonicalGlobalVariableState list \<Rightarrow> QuestJournalCatalog \<Rightarrow> CanonicalPlayerQuestJournalState list
   \<Rightarrow> CanonicalWorldState option" where
  "createQuestWorld time globals questCatalog questJournal =
     (case createWorld time globals of
        None \<Rightarrow> None
      | Some base \<Rightarrow>
        if \<not> validQuestJournalState questCatalog questJournal then None
        else Some (base\<lparr>cw_questJournalCatalog := Some questCatalog, cw_questJournal := questJournal\<rparr>))"

definition createFactionWorld ::
  "CanonicalWorldTimeState \<Rightarrow> CanonicalGlobalVariableState list \<Rightarrow> QuestJournalCatalog \<Rightarrow> FactionDialogueCatalog
   \<Rightarrow> CanonicalPlayerQuestJournalState list \<Rightarrow> CanonicalPlayerFactionState list \<Rightarrow> CanonicalWorldState option" where
  "createFactionWorld time globals questCatalog factionCatalog questJournal factions =
     (case createWorld time globals of
        None \<Rightarrow> None
      | Some base \<Rightarrow>
        if qjc_manifest questCatalog \<noteq> fdc_manifest factionCatalog \<or> \<not> validQuestJournalState questCatalog questJournal
           \<or> \<not> validFactionState factionCatalog factions
        then None
        else Some (base\<lparr>cw_questJournalCatalog := Some questCatalog, cw_questJournal := questJournal,
                        cw_factionDialogueCatalog := Some factionCatalog, cw_factionStates := factions\<rparr>))"

definition createWeatherWorld ::
  "CanonicalWorldTimeState \<Rightarrow> CanonicalGlobalVariableState list \<Rightarrow> QuestJournalCatalog \<Rightarrow> FactionDialogueCatalog \<Rightarrow> WeatherCatalog
   \<Rightarrow> CanonicalPlayerQuestJournalState list \<Rightarrow> CanonicalPlayerFactionState list \<Rightarrow> CanonicalWeatherState \<Rightarrow> CanonicalWorldState option" where
  "createWeatherWorld time globals questCatalog factionCatalog weatherCatalog questJournal factions weather =
     (case createFactionWorld time globals questCatalog factionCatalog questJournal factions of
        None \<Rightarrow> None
      | Some base \<Rightarrow>
        if qjc_manifest questCatalog \<noteq> wc_manifest weatherCatalog \<or> \<not> validWeatherState weatherCatalog weather then None
        else Some (base\<lparr>cw_weatherCatalog := Some weatherCatalog, cw_weather := Some weather\<rparr>))"

definition initialGlobals :: "CanonicalWorldTimeState \<Rightarrow> GlobalVariableCatalog \<Rightarrow> CanonicalGlobalVariableState list" where
  "initialGlobals time catalog =
     map (\<lambda>e. \<lparr>gst_id = gce_id e, gst_value = gce_initialValue e, gst_revision = initial CounterFromOne,
               gst_lastChangeTick = wt_lastAdvanceTick time\<rparr>) catalog"

definition initialWorld :: "CanonicalWorldTimeState \<Rightarrow> GlobalVariableCatalog \<Rightarrow> CanonicalWorldState option" where
  "initialWorld time catalog = createWorld time (initialGlobals time catalog)"

definition initialQuestWorld :: "CanonicalWorldTimeState \<Rightarrow> GlobalVariableCatalog \<Rightarrow> QuestJournalCatalog \<Rightarrow> CanonicalWorldState option" where
  "initialQuestWorld time globals questCatalog =
     (case initialWorld time globals of None \<Rightarrow> None | Some base \<Rightarrow> createQuestWorld (cw_time base) (cw_globals base) questCatalog [])"

definition initialFactionWorld ::
  "CanonicalWorldTimeState \<Rightarrow> GlobalVariableCatalog \<Rightarrow> QuestJournalCatalog \<Rightarrow> FactionDialogueCatalog \<Rightarrow> CanonicalWorldState option" where
  "initialFactionWorld time globals questCatalog factionCatalog =
     (case initialWorld time globals of
        None \<Rightarrow> None
      | Some base \<Rightarrow> createFactionWorld (cw_time base) (cw_globals base) questCatalog factionCatalog [] [])"

fun initialRegions :: "ServerTick \<Rightarrow> WeatherRegionCatalogEntry list \<Rightarrow> CanonicalWeatherRegionState list option" where
  "initialRegions tick [] = Some []"
| "initialRegions tick (region # regions) =
     (case addTicks tick (wce_selectionIntervalTicks region) of
        None \<Rightarrow> None
      | Some nextSelection \<Rightarrow>
        map_option ((#) \<lparr>wrs_region = wce_id region, wrs_currentWeather = wce_initialWeather region,
            wrs_targetWeather = wce_initialWeather region, wrs_transitionStartTick = tick, wrs_transitionEndTick = tick,
            wrs_nextSelectionTick = nextSelection, wrs_revision = initial CounterFromOne, wrs_lastChangeTick = tick\<rparr>)
          (initialRegions tick regions))"

definition initialWeatherWorld ::
  "CanonicalWorldTimeState \<Rightarrow> GlobalVariableCatalog \<Rightarrow> QuestJournalCatalog \<Rightarrow> FactionDialogueCatalog \<Rightarrow> WeatherCatalog \<Rightarrow> RandomStateV1
   \<Rightarrow> CanonicalWorldState option" where
  "initialWeatherWorld time globals questCatalog factionCatalog weatherCatalog random =
     (case initialFactionWorld time globals questCatalog factionCatalog of
        None \<Rightarrow> None
      | Some base \<Rightarrow>
        (case initialRegions (wt_lastAdvanceTick time) (wc_regions weatherCatalog) of
           None \<Rightarrow> None
         | Some regions \<Rightarrow>
           createWeatherWorld (cw_time base) (cw_globals base) questCatalog factionCatalog weatherCatalog [] []
             \<lparr>ws_regions = regions, ws_randomState = random, ws_lastAdvanceTick = wt_lastAdvanceTick time, ws_nativeEnvironment = []\<rparr>))"

text \<open>The world with other values, created anew.\<close>

definition recreateWorld ::
  "CanonicalWorldState \<Rightarrow> CanonicalWorldTimeState \<Rightarrow> CanonicalGlobalVariableState list \<Rightarrow> CanonicalPlayerQuestJournalState list
   \<Rightarrow> CanonicalPlayerFactionState list \<Rightarrow> CanonicalWorldState option" where
  "recreateWorld state time globals questJournal factions =
     (case (cw_questJournalCatalog state, cw_factionDialogueCatalog state, cw_weatherCatalog state, cw_weather state) of
        (Some qc, Some fc, Some wc, Some weather) \<Rightarrow> createWeatherWorld time globals qc fc wc questJournal factions weather
      | (Some qc, Some fc, _, _) \<Rightarrow> createFactionWorld time globals qc fc questJournal factions
      | (Some qc, None, _, _) \<Rightarrow> createQuestWorld time globals qc questJournal
      | (None, _, _, _) \<Rightarrow> createWorld time globals)"

definition mutated :: "CanonicalWorldState option \<Rightarrow> CanonicalWorldMutationResult" where
  "mutated result = (case result of None \<Rightarrow> Inl InvalidState | Some w \<Rightarrow> Inr w)"

definition findGlobal :: "CanonicalWorldState \<Rightarrow> GlobalVariableId \<Rightarrow> CanonicalGlobalVariableState option" where
  "findGlobal state ident = find (\<lambda>g. gst_id g = ident) (cw_globals state)"

definition findGlobalEntry :: "GlobalVariableCatalog \<Rightarrow> GlobalVariableId \<Rightarrow> GlobalVariableCatalogEntry option" where
  "findGlobalEntry catalog ident = find (\<lambda>e. gce_id e = ident) catalog"

definition findQuestJournal :: "CanonicalWorldState \<Rightarrow> PlayerId \<Rightarrow> CanonicalPlayerQuestJournalState option" where
  "findQuestJournal state player = lookup_key pqj_player (cw_questJournal state) player"

definition findFactionState :: "CanonicalWorldState \<Rightarrow> PlayerId \<Rightarrow> CanonicalPlayerFactionState option" where
  "findFactionState state player = lookup_key pfs_player (cw_factionStates state) player"

definition findWeather :: "CanonicalWorldState \<Rightarrow> WeatherRegionId \<Rightarrow> CanonicalWeatherRegionState option" where
  "findWeather state region =
     (case cw_weather state of None \<Rightarrow> None | Some w \<Rightarrow> find (\<lambda>r. wrs_region r = region) (ws_regions w))"

section \<open>The clock\<close>

definition nativeEnvironmentOwned :: "CanonicalWorldState \<Rightarrow> bool" where
  "nativeEnvironmentOwned state \<longleftrightarrow> (case cw_weather state of None \<Rightarrow> False | Some w \<Rightarrow> ws_nativeEnvironment w \<noteq> [])"

text \<open>The days since the first day of year zero; every month has thirty days.\<close>

definition currentDay :: "CanonicalWorldTimeState \<Rightarrow> u64" where
  "currentDay t = scast (wt_year t) * 360 + ucast (wt_month t) * 30 + ucast (wt_day t) - 1"

definition lastDay :: u64 where
  "lastDay = 0x7FFFFFFF * 360 + 359"

definition setDate :: "u64 \<Rightarrow> CanonicalWorldTimeState \<Rightarrow> CanonicalWorldTimeState" where
  "setDate absoluteDay t =
     t\<lparr>wt_year := ucast (absoluteDay div 360), wt_month := ucast ((absoluteDay mod 360) div 30), wt_day := ucast (absoluteDay mod 30 + 1)\<rparr>"

definition advanceCanonicalWorldTime :: "CanonicalWorldState \<Rightarrow> ServerTick \<Rightarrow> u64 \<Rightarrow> CanonicalWorldMutationResult" where
  "advanceCanonicalWorldTime state tick tickIntervalMilliseconds =
     (if nativeEnvironmentOwned state then Inl InvalidState
      else let current = cw_time state
      in if \<not> validTime current \<or> tick < wt_lastAdvanceTick current then Inl WorldTickRegression
      else if tick = wt_lastAdvanceTick current then Inr state
      else let elapsedTicks = tick - wt_lastAdvanceTick current
      in if tickIntervalMilliseconds \<noteq> 0 \<and> elapsedTicks > u64_max div tickIntervalMilliseconds then Inl ArithmeticOverflow
      else let realMilliseconds = elapsedTicks * tickIntervalMilliseconds; scale = ucast (wt_timeScaleUnits current);
               remainder = ucast (wt_subMillisecondRemainder current)
      in if wt_timeScaleUnits current \<noteq> 0 \<and> realMilliseconds > (u64_max - remainder) div scale then Inl ArithmeticOverflow
      else let scaled = realMilliseconds * scale + remainder;
               elapsedWorldMilliseconds = scaled div ucast WorldTimeScaleUnitsPerOne;
               advanced = current\<lparr>wt_subMillisecondRemainder := ucast (scaled mod ucast WorldTimeScaleUnitsPerOne), wt_lastAdvanceTick := tick\<rparr>
      in if elapsedWorldMilliseconds = 0
         then mutated (recreateWorld state advanced (cw_globals state) (cw_questJournal state) (cw_factionStates state))
         else (case next_value (wt_revision current) of
                 None \<Rightarrow> Inl WorldRevisionExhausted
               | Some revision \<Rightarrow>
                 if elapsedWorldMilliseconds > u64_max - ucast (wt_millisecondsSinceMidnight current) then Inl ArithmeticOverflow
                 else let total = ucast (wt_millisecondsSinceMidnight current) + elapsedWorldMilliseconds;
                          elapsedDays = total div ucast WorldMillisecondsPerDay
                      in if elapsedDays > lastDay - currentDay current then Inl ArithmeticOverflow
                         else mutated (recreateWorld state
                                ((setDate (currentDay current + elapsedDays) advanced)
                                   \<lparr>wt_millisecondsSinceMidnight := ucast (total mod ucast WorldMillisecondsPerDay),
                                    wt_revision := revision, wt_lastChangeTick := tick\<rparr>)
                                (cw_globals state) (cw_questJournal state) (cw_factionStates state))))"

definition advanceCanonicalWorldTimeByHours :: "CanonicalWorldState \<Rightarrow> ServerTick \<Rightarrow> u8 \<Rightarrow> CanonicalWorldMutationResult" where
  "advanceCanonicalWorldTimeByHours state tick hours =
     (if nativeEnvironmentOwned state then Inl InvalidState
      else let current = cw_time state
      in if \<not> validTime current \<or> hours = 0 \<or> hours > MaximumWaitRestHours then Inl InvalidState
      else if tick < wt_lastAdvanceTick current then Inl WorldTickRegression
      else (case next_value (wt_revision current) of
              None \<Rightarrow> Inl WorldRevisionExhausted
            | Some revision \<Rightarrow>
              let elapsed = ucast hours * ucast WorldMillisecondsPerHour;
                  total = ucast (wt_millisecondsSinceMidnight current) + elapsed;
                  elapsedDays = total div ucast WorldMillisecondsPerDay
              in if elapsedDays > lastDay - currentDay current then Inl ArithmeticOverflow
                 else mutated (recreateWorld state
                        ((setDate (currentDay current + elapsedDays) current)
                           \<lparr>wt_millisecondsSinceMidnight := ucast (total mod ucast WorldMillisecondsPerDay),
                            wt_revision := revision, wt_lastChangeTick := tick, wt_lastAdvanceTick := tick\<rparr>)
                        (cw_globals state) (cw_questJournal state) (cw_factionStates state))))"

definition setCanonicalWorldTime ::
  "CanonicalWorldState \<Rightarrow> WorldTimeRevision \<Rightarrow> CanonicalWorldTimeState \<Rightarrow> ServerTick \<Rightarrow> CanonicalWorldMutationResult" where
  "setCanonicalWorldTime state expectedRevision replacement tick =
     (if nativeEnvironmentOwned state then Inl InvalidState
      else let current = cw_time state
      in if expectedRevision \<noteq> wt_revision current then Inl RevisionMismatch
      else if tick < wt_lastAdvanceTick current then Inl WorldTickRegression
      else (case next_value (wt_revision current) of
              None \<Rightarrow> Inl WorldRevisionExhausted
            | Some revision \<Rightarrow>
              mutated (recreateWorld state
                (replacement\<lparr>wt_revision := revision, wt_lastChangeTick := tick, wt_lastAdvanceTick := tick, wt_subMillisecondRemainder := 0\<rparr>)
                (cw_globals state) (cw_questJournal state) (cw_factionStates state))))"

section \<open>Global variables\<close>

definition setCanonicalGlobal ::
  "CanonicalWorldState \<Rightarrow> GlobalVariableCatalog \<Rightarrow> GlobalVariableId \<Rightarrow> GlobalVariableRevision \<Rightarrow> GlobalVariableValue \<Rightarrow> ServerTick
   \<Rightarrow> CanonicalWorldMutationResult" where
  "setCanonicalGlobal state catalog ident expectedRevision v tick =
     (case (findGlobalEntry catalog ident, find_index (\<lambda>g. gst_id g = ident) (cw_globals state)) of
        (Some declaration, Some i) \<Rightarrow>
          (let current = cw_globals state ! i
           in if valueType (gce_initialValue declaration) \<noteq> valueType v \<or> valueType (gst_value current) \<noteq> valueType (gce_initialValue declaration)
                 \<or> \<not> validValue v
              then Inl TypeMismatch
              else if gst_revision current \<noteq> expectedRevision then Inl RevisionMismatch
              else if tick < gst_lastChangeTick current then Inl WorldTickRegression
              else if sameValue (gst_value current) v then Inr state
              else (case next_value (gst_revision current) of
                      None \<Rightarrow> Inl WorldRevisionExhausted
                    | Some revision \<Rightarrow>
                      mutated (recreateWorld state (cw_time state)
                        ((cw_globals state)[i := current\<lparr>gst_value := v, gst_revision := revision, gst_lastChangeTick := tick\<rparr>])
                        (cw_questJournal state) (cw_factionStates state))))
      | _ \<Rightarrow> Inl UnknownGlobal)"

section \<open>Quests and journals\<close>

text \<open>The row of a player, empty where there is none, and the rows with another one in its place.\<close>

definition playerRow :: "('a \<Rightarrow> PlayerId) \<Rightarrow> 'a \<Rightarrow> 'a list \<Rightarrow> 'a" where
  "playerRow key fresh rows = (case lookup_key key rows (key fresh) of None \<Rightarrow> fresh | Some row \<Rightarrow> row)"

definition storeRow :: "('a \<Rightarrow> PlayerId) \<Rightarrow> 'a \<Rightarrow> 'a list \<Rightarrow> 'a list" where
  "storeRow key row rows = (case lookup_key key rows (key row) of None \<Rightarrow> insert_key key row rows | Some _ \<Rightarrow> replace_key key row rows)"

text \<open>Insertion in the order of the catalog.\<close>

definition insertRanked :: "('b \<Rightarrow> nat) \<Rightarrow> 'b \<Rightarrow> 'b list \<Rightarrow> 'b list" where
  "insertRanked rank x xs = insert_at (case find_index (\<lambda>y. rank y > rank x) xs of None \<Rightarrow> length xs | Some i \<Rightarrow> i) x xs"

text \<open>A changed entry in place of the one found, or inserted.\<close>

definition putItem :: "('b \<Rightarrow> nat) \<Rightarrow> nat option \<Rightarrow> 'b \<Rightarrow> 'b list \<Rightarrow> 'b list" where
  "putItem rank found x xs = (case found of None \<Rightarrow> insertRanked rank x xs | Some i \<Rightarrow> xs[i := x])"

definition freshQuestJournal :: "PlayerId \<Rightarrow> CanonicalPlayerQuestJournalState" where
  "freshQuestJournal player = \<lparr>pqj_player = player, pqj_quests = [], pqj_journal = [], pqj_journalRevision = initial CounterFromOne,
     pqj_lastJournalChangeTick = initial CounterFromZero\<rparr>"

definition setCanonicalQuestStage ::
  "CanonicalWorldState \<Rightarrow> PlayerId \<Rightarrow> QuestId \<Rightarrow> QuestRevision \<Rightarrow> QuestStage \<Rightarrow> ServerTick \<Rightarrow> CanonicalWorldMutationResult" where
  "setCanonicalQuestStage state player quest expectedRevision stage tick =
     (case cw_questJournalCatalog state of
        None \<Rightarrow> Inl UnknownQuest
      | Some catalog \<Rightarrow>
        (case findQuest catalog quest of
           None \<Rightarrow> Inl UnknownQuest
         | Some declaration \<Rightarrow>
           if \<not> containsStage declaration stage then Inl UnknownQuestStage
           else let row = playerRow pqj_player (freshQuestJournal player) (cw_questJournal state);
                    found = find_index (\<lambda>q. qst_id q = quest) (pqj_quests row);
                    current = (case found of
                                 None \<Rightarrow> \<lparr>qst_id = quest, qst_stage = qce_initialStage declaration, qst_revision = initial CounterFromOne,
                                          qst_lastChangeTick = initial CounterFromZero\<rparr>
                               | Some i \<Rightarrow> pqj_quests row ! i)
           in if expectedRevision \<noteq> qst_revision current then Inl QuestRevisionMismatch
              else if tick < qst_lastChangeTick current then Inl WorldTickRegression
              else if stage = qst_stage current then Inr state
              else (case next_value (qst_revision current) of
                      None \<Rightarrow> Inl WorldRevisionExhausted
                    | Some revision \<Rightarrow>
                      let changed = current\<lparr>qst_stage := stage, qst_revision := revision, qst_lastChangeTick := tick\<rparr>;
                          quests = putItem (\<lambda>q. catalogIndex qce_id (qjc_quests catalog) (qst_id q)) found changed (pqj_quests row)
                      in mutated (recreateWorld state (cw_time state) (cw_globals state)
                           (storeRow pqj_player (row\<lparr>pqj_quests := quests\<rparr>) (cw_questJournal state)) (cw_factionStates state)))))"

definition addCanonicalJournalEntry ::
  "CanonicalWorldState \<Rightarrow> PlayerId \<Rightarrow> QuestId \<Rightarrow> JournalRevision \<Rightarrow> JournalEntryId \<Rightarrow> ServerTick \<Rightarrow> CanonicalWorldMutationResult" where
  "addCanonicalJournalEntry state player quest expectedRevision entry tick =
     (case cw_questJournalCatalog state of
        None \<Rightarrow> Inl UnknownJournalEntry
      | Some catalog \<Rightarrow>
        if findQuest catalog quest = None then Inl UnknownQuest
        else (case findJournalEntry catalog entry of
                None \<Rightarrow> Inl UnknownJournalEntry
              | Some declaration \<Rightarrow>
                if jce_quest declaration \<noteq> quest then Inl JournalEntryQuestMismatch
                else let row = playerRow pqj_player (freshQuestJournal player) (cw_questJournal state)
                in if pqj_journalRevision row \<noteq> expectedRevision then Inl JournalRevisionMismatch
                   else if tick < pqj_lastJournalChangeTick row then Inl WorldTickRegression
                   else if list_ex (\<lambda>e. jst_id e = entry) (pqj_journal row) then Inl DuplicateJournalEntry
                   else (case next_value (pqj_journalRevision row) of
                           None \<Rightarrow> Inl WorldRevisionExhausted
                         | Some revision \<Rightarrow>
                           mutated (recreateWorld state (cw_time state) (cw_globals state)
                             (storeRow pqj_player
                                (row\<lparr>pqj_journal := pqj_journal row @ [\<lparr>jst_id = entry, jst_revision = revision, jst_changeTick = tick\<rparr>],
                                     pqj_journalRevision := revision, pqj_lastJournalChangeTick := tick\<rparr>)
                                (cw_questJournal state))
                             (cw_factionStates state)))))"

section \<open>Factions\<close>

definition freshFactions :: "PlayerId \<Rightarrow> CanonicalPlayerFactionState" where
  "freshFactions player = \<lparr>pfs_player = player, pfs_factions = []\<rparr>"

definition freshFaction :: "FactionId \<Rightarrow> CanonicalFactionState" where
  "freshFaction faction = \<lparr>fst_id = faction, fst_rank = None, fst_membershipRevision = initial CounterFromOne,
     fst_lastMembershipChangeTick = initial CounterFromZero, fst_reputation = 0, fst_reputationRevision = initial CounterFromOne,
     fst_lastReputationChangeTick = initial CounterFromZero\<rparr>"

text \<open>The faction in place of an old one at the index, or inserted in the order of the catalog.\<close>

definition storeFaction ::
  "CanonicalWorldState \<Rightarrow> FactionDialogueCatalog \<Rightarrow> CanonicalPlayerFactionState \<Rightarrow> nat option \<Rightarrow> CanonicalFactionState
   \<Rightarrow> CanonicalWorldMutationResult" where
  "storeFaction state catalog row found changed =
     (let factions = putItem (\<lambda>f. catalogIndex fce_id (fdc_factions catalog) (fst_id f)) found changed (pfs_factions row)
      in mutated (recreateWorld state (cw_time state) (cw_globals state) (cw_questJournal state)
           (storeRow pfs_player (row\<lparr>pfs_factions := factions\<rparr>) (cw_factionStates state))))"

definition setCanonicalFactionRank ::
  "CanonicalWorldState \<Rightarrow> PlayerId \<Rightarrow> FactionId \<Rightarrow> FactionMembershipRevision \<Rightarrow> FactionRank \<Rightarrow> ServerTick \<Rightarrow> CanonicalWorldMutationResult" where
  "setCanonicalFactionRank state player faction expectedRevision rank tick =
     (case cw_factionDialogueCatalog state of
        None \<Rightarrow> Inl UnknownFaction
      | Some catalog \<Rightarrow>
        (case findFaction catalog faction of
           None \<Rightarrow> Inl UnknownFaction
         | Some declaration \<Rightarrow>
           if \<not> containsRank declaration rank then Inl UnknownFactionRank
           else let row = playerRow pfs_player (freshFactions player) (cw_factionStates state);
                    found = find_index (\<lambda>f. fst_id f = faction) (pfs_factions row);
                    current = (case found of None \<Rightarrow> freshFaction faction | Some i \<Rightarrow> pfs_factions row ! i)
           in if expectedRevision \<noteq> fst_membershipRevision current then Inl FactionMembershipRevisionMismatch
              else if tick < fst_lastMembershipChangeTick current then Inl WorldTickRegression
              else if found \<noteq> None \<and> fst_rank current = Some rank then Inr state
              else (case next_value (fst_membershipRevision current) of
                      None \<Rightarrow> Inl WorldRevisionExhausted
                    | Some revision \<Rightarrow>
                      storeFaction state catalog row found
                        (current\<lparr>fst_rank := Some rank, fst_membershipRevision := revision, fst_lastMembershipChangeTick := tick\<rparr>))))"

definition setCanonicalFactionReputation ::
  "CanonicalWorldState \<Rightarrow> PlayerId \<Rightarrow> FactionId \<Rightarrow> FactionReputationRevision \<Rightarrow> i32 \<Rightarrow> ServerTick \<Rightarrow> CanonicalWorldMutationResult" where
  "setCanonicalFactionReputation state player faction expectedRevision reputation tick =
     (case cw_factionDialogueCatalog state of
        None \<Rightarrow> Inl UnknownFaction
      | Some catalog \<Rightarrow>
        if findFaction catalog faction = None then Inl UnknownFaction
        else let row = playerRow pfs_player (freshFactions player) (cw_factionStates state);
                 found = find_index (\<lambda>f. fst_id f = faction) (pfs_factions row);
                 current = (case found of None \<Rightarrow> freshFaction faction | Some i \<Rightarrow> pfs_factions row ! i)
        in if expectedRevision \<noteq> fst_reputationRevision current then Inl FactionReputationRevisionMismatch
           else if tick < fst_lastReputationChangeTick current then Inl WorldTickRegression
           else if reputation = fst_reputation current then Inr state
           else (case next_value (fst_reputationRevision current) of
                   None \<Rightarrow> Inl WorldRevisionExhausted
                 | Some revision \<Rightarrow>
                   storeFaction state catalog row found
                     (current\<lparr>fst_reputation := reputation, fst_reputationRevision := revision, fst_lastReputationChangeTick := tick\<rparr>)))"

definition validateCanonicalDialogueChoice ::
  "CanonicalWorldState \<Rightarrow> PlayerId \<Rightarrow> DialogueChoiceId \<Rightarrow> CanonicalWorldMutationError option" where
  "validateCanonicalDialogueChoice state player choice =
     (case cw_factionDialogueCatalog state of
        None \<Rightarrow> Some UnknownDialogueChoice
      | Some catalog \<Rightarrow>
        (case findDialogueChoice catalog choice of
           None \<Rightarrow> Some UnknownDialogueChoice
         | Some declaration \<Rightarrow>
           (case dce_requiredFaction declaration of
              None \<Rightarrow> None
            | Some required \<Rightarrow>
              (case findFactionState state player of
                 None \<Rightarrow> Some DialogueChoiceIneligible
               | Some row \<Rightarrow>
                 (case find (\<lambda>f. fst_id f = required) (pfs_factions row) of
                    None \<Rightarrow> Some DialogueChoiceIneligible
                  | Some f \<Rightarrow>
                    (case fst_rank f of
                       None \<Rightarrow> Some DialogueChoiceIneligible
                     | Some r \<Rightarrow>
                       if r < dce_minimumRank declaration \<or> sint (fst_reputation f) < sint (dce_minimumReputation declaration)
                       then Some DialogueChoiceIneligible else None))))))"

section \<open>Weather\<close>

definition withWeather :: "CanonicalWorldState \<Rightarrow> CanonicalWeatherState \<Rightarrow> CanonicalWorldMutationResult" where
  "withWeather state weather =
     mutated (createWeatherWorld (cw_time state) (cw_globals state) (the (cw_questJournalCatalog state))
       (the (cw_factionDialogueCatalog state)) (the (cw_weatherCatalog state)) (cw_questJournal state) (cw_factionStates state) weather)"

definition setCanonicalWeather ::
  "CanonicalWorldState \<Rightarrow> WeatherRegionId \<Rightarrow> WeatherRevision \<Rightarrow> WeatherId \<Rightarrow> ServerTick \<Rightarrow> CanonicalWorldMutationResult" where
  "setCanonicalWeather state region expectedRevision target tick =
     (if nativeEnvironmentOwned state then Inl InvalidState
      else (case (cw_weatherCatalog state, cw_weather state) of
        (Some catalog, Some weather) \<Rightarrow>
          (case (findRegion catalog region, find_index (\<lambda>r. wrs_region r = region) (ws_regions weather)) of
             (Some declaration, Some i) \<Rightarrow>
               let current = ws_regions weather ! i
               in if \<not> catalogContainsWeather catalog target then Inl UnknownWeather
                  else if \<not> eligible declaration target then Inl WeatherIneligible
                  else if wrs_revision current \<noteq> expectedRevision then Inl WeatherRevisionMismatch
                  else if tick < ws_lastAdvanceTick weather \<or> tick < wrs_lastChangeTick current then Inl WorldTickRegression
                  else if wrs_targetWeather current = target then Inr state
                  else (case next_value (wrs_revision current) of
                          None \<Rightarrow> Inl WorldRevisionExhausted
                        | Some revision \<Rightarrow>
                          (case addTicks tick (wce_transitionDurationTicks declaration) of
                             None \<Rightarrow> Inl ArithmeticOverflow
                           | Some transitionEnd \<Rightarrow>
                             (case addTicks transitionEnd (wce_selectionIntervalTicks declaration) of
                                None \<Rightarrow> Inl ArithmeticOverflow
                              | Some nextSelection \<Rightarrow>
                                withWeather state (weather\<lparr>ws_regions := (ws_regions weather)[i := current
                                  \<lparr>wrs_targetWeather := target, wrs_transitionStartTick := tick,
                                   wrs_transitionEndTick := (if target = wrs_currentWeather current then tick else transitionEnd),
                                   wrs_nextSelectionTick := (if target = wrs_currentWeather current
                                     then the (addTicks tick (wce_selectionIntervalTicks declaration)) else nextSelection),
                                   wrs_revision := revision, wrs_lastChangeTick := tick\<rparr>], ws_lastAdvanceTick := tick\<rparr>))))
           | _ \<Rightarrow> Inl UnknownWeatherRegion)
      | _ \<Rightarrow> Inl UnknownWeatherRegion))"

definition completeTransition :: "ServerTick \<Rightarrow> CanonicalWeatherRegionState \<Rightarrow> CanonicalWorldMutationError + CanonicalWeatherRegionState" where
  "completeTransition tick region =
     (if wrs_currentWeather region \<noteq> wrs_targetWeather region \<and> tick \<ge> wrs_transitionEndTick region then
        (case next_value (wrs_revision region) of
           None \<Rightarrow> Inl WorldRevisionExhausted
         | Some revision \<Rightarrow>
           Inr (region\<lparr>wrs_currentWeather := wrs_targetWeather region, wrs_transitionStartTick := tick, wrs_transitionEndTick := tick,
                       wrs_revision := revision, wrs_lastChangeTick := tick\<rparr>))
      else Inr region)"

text \<open>\<open>None\<close> where the random draw does not return.\<close>

definition selectWeather ::
  "ServerTick \<Rightarrow> WeatherRegionCatalogEntry \<Rightarrow> CanonicalWeatherRegionState \<Rightarrow> RandomStateV1
   \<Rightarrow> (CanonicalWorldMutationError + (CanonicalWeatherRegionState \<times> RandomStateV1)) option" where
  "selectWeather tick declaration region random =
     (if wrs_currentWeather region = wrs_targetWeather region \<and> tick \<ge> wrs_nextSelectionTick region then
        (case uniformBelow (of_nat (length (wce_eligibleWeather declaration))) random of
           None \<Rightarrow> None
         | Some (random', selection) \<Rightarrow>
           Some (case (selection, addTicks tick (wce_selectionIntervalTicks declaration)) of
                   (Some n, Some nextSelection) \<Rightarrow>
                     (let target = wce_eligibleWeather declaration ! unat n
                      in case next_value (wrs_revision region) of
                           None \<Rightarrow> Inl WorldRevisionExhausted
                         | Some revision \<Rightarrow>
                           let selected = region\<lparr>wrs_nextSelectionTick := nextSelection, wrs_revision := revision, wrs_lastChangeTick := tick\<rparr>
                           in if target = wrs_currentWeather region then Inr (selected, random')
                              else (case addTicks tick (wce_transitionDurationTicks declaration) of
                                      None \<Rightarrow> Inl ArithmeticOverflow
                                    | Some transitionEnd \<Rightarrow>
                                      (case addTicks transitionEnd (wce_selectionIntervalTicks declaration) of
                                         None \<Rightarrow> Inl ArithmeticOverflow
                                       | Some afterTransition \<Rightarrow>
                                         Inr (selected\<lparr>wrs_targetWeather := target, wrs_transitionStartTick := tick,
                                                       wrs_transitionEndTick := transitionEnd, wrs_nextSelectionTick := afterTransition\<rparr>, random'))))
                 | _ \<Rightarrow> Inl ArithmeticOverflow))
      else Some (Inr (region, random)))"

fun advanceRegions ::
  "ServerTick \<Rightarrow> WeatherRegionCatalogEntry list \<Rightarrow> CanonicalWeatherRegionState list \<Rightarrow> RandomStateV1
   \<Rightarrow> (CanonicalWorldMutationError + (CanonicalWeatherRegionState list \<times> RandomStateV1)) option" where
  "advanceRegions tick (declaration # declarations) (region # regions) random =
     (case completeTransition tick region of
        Inl e \<Rightarrow> Some (Inl e)
      | Inr completed \<Rightarrow>
        (case selectWeather tick declaration completed random of
           None \<Rightarrow> None
         | Some (Inl e) \<Rightarrow> Some (Inl e)
         | Some (Inr (selected, random')) \<Rightarrow>
           (case advanceRegions tick declarations regions random' of
              None \<Rightarrow> None
            | Some (Inl e) \<Rightarrow> Some (Inl e)
            | Some (Inr (rest, random'')) \<Rightarrow> Some (Inr (selected # rest, random'')))))"
| "advanceRegions tick declarations regions random = Some (Inr ([], random))"

definition advanceCanonicalWeather :: "CanonicalWorldState \<Rightarrow> ServerTick \<Rightarrow> CanonicalWorldMutationResult option" where
  "advanceCanonicalWeather state tick =
     (if nativeEnvironmentOwned state then Some (Inl InvalidState)
      else (case (cw_weatherCatalog state, cw_weather state) of
        (Some catalog, Some weather) \<Rightarrow>
          if tick < ws_lastAdvanceTick weather then Some (Inl WorldTickRegression)
          else if tick = ws_lastAdvanceTick weather then Some (Inr state)
          else (case advanceRegions tick (wc_regions catalog) (ws_regions weather) (ws_randomState weather) of
                  None \<Rightarrow> None
                | Some (Inl e) \<Rightarrow> Some (Inl e)
                | Some (Inr (regions, random)) \<Rightarrow>
                  Some (withWeather state (weather\<lparr>ws_regions := regions, ws_randomState := random, ws_lastAdvanceTick := tick\<rparr>)))
      | _ \<Rightarrow> Some (Inr state)))"

section \<open>Restoring\<close>

definition restoreWorld ::
  "GlobalVariableCatalog \<Rightarrow> CanonicalWorldTimeState \<Rightarrow> CanonicalGlobalVariableState list \<Rightarrow> CanonicalWorldMutationResult" where
  "restoreWorld catalog time globals =
     (if length catalog \<noteq> length globals then Inl CatalogMismatch
      else if \<not> list_all2 (\<lambda>e g. gce_id e = gst_id g \<and> valueType (gce_initialValue e) = valueType (gst_value g)) catalog globals
      then Inl CatalogMismatch
      else mutated (createWorld time globals))"

definition restored :: "CanonicalWorldState option \<Rightarrow> CanonicalWorldMutationResult" where
  "restored result = (case result of None \<Rightarrow> Inl CatalogMismatch | Some w \<Rightarrow> Inr w)"

definition restoreQuestWorld ::
  "GlobalVariableCatalog \<Rightarrow> QuestJournalCatalog \<Rightarrow> CanonicalWorldTimeState \<Rightarrow> CanonicalGlobalVariableState list \<Rightarrow> QuestJournalCatalog
   \<Rightarrow> CanonicalPlayerQuestJournalState list \<Rightarrow> CanonicalWorldMutationResult" where
  "restoreQuestWorld globals expectedQuests time globalStates restoredQuests questJournal =
     (if expectedQuests \<noteq> restoredQuests then Inl CatalogMismatch
      else (case restoreWorld globals time globalStates of
              Inl e \<Rightarrow> Inl e
            | Inr base \<Rightarrow> restored (createQuestWorld (cw_time base) (cw_globals base) expectedQuests questJournal)))"

definition restoreFactionWorld ::
  "GlobalVariableCatalog \<Rightarrow> QuestJournalCatalog \<Rightarrow> FactionDialogueCatalog \<Rightarrow> CanonicalWorldTimeState \<Rightarrow> CanonicalGlobalVariableState list
   \<Rightarrow> QuestJournalCatalog \<Rightarrow> FactionDialogueCatalog \<Rightarrow> CanonicalPlayerQuestJournalState list \<Rightarrow> CanonicalPlayerFactionState list
   \<Rightarrow> CanonicalWorldMutationResult" where
  "restoreFactionWorld globals expectedQuests expectedFactions time globalStates restoredQuests restoredFactions questJournal factions =
     (if expectedQuests \<noteq> restoredQuests \<or> expectedFactions \<noteq> restoredFactions then Inl CatalogMismatch
      else (case restoreWorld globals time globalStates of
              Inl e \<Rightarrow> Inl e
            | Inr base \<Rightarrow> restored (createFactionWorld (cw_time base) (cw_globals base) expectedQuests expectedFactions questJournal factions)))"

definition restoreWeatherWorld ::
  "GlobalVariableCatalog \<Rightarrow> QuestJournalCatalog \<Rightarrow> FactionDialogueCatalog \<Rightarrow> WeatherCatalog \<Rightarrow> CanonicalWorldTimeState
   \<Rightarrow> CanonicalGlobalVariableState list \<Rightarrow> QuestJournalCatalog \<Rightarrow> FactionDialogueCatalog \<Rightarrow> WeatherCatalog
   \<Rightarrow> CanonicalPlayerQuestJournalState list \<Rightarrow> CanonicalPlayerFactionState list \<Rightarrow> CanonicalWeatherState \<Rightarrow> CanonicalWorldMutationResult" where
  "restoreWeatherWorld globals expectedQuests expectedFactions expectedWeather time globalStates restoredQuests restoredFactions
     restoredWeather questJournal factions weather =
     (if expectedWeather \<noteq> restoredWeather then Inl CatalogMismatch
      else (case restoreFactionWorld globals expectedQuests expectedFactions time globalStates restoredQuests restoredFactions questJournal factions of
              Inl e \<Rightarrow> Inl e
            | Inr base \<Rightarrow> restored (createWeatherWorld (cw_time base) (cw_globals base) expectedQuests expectedFactions expectedWeather
                (cw_questJournal base) (cw_factionStates base) weather)))"

end
