(* ===== verification/World_Properties.thy ===== *)
theory World_Properties
  imports World_State "HOL-Library.Sublist"
begin

text \<open>
  Correctness of the world state: the tables of players and of their quests or factions stay sorted and
  an update changes one entry only, the clock is advanced exactly, a mutation is refused for a stated
  reason and never because the new world would be invalid, journals only grow, and a stored world is
  restored.
\<close>

section \<open>Entries in the order of the catalog\<close>

lemma insertRanked_key:
  assumes "keys_sorted rank xs" and "rank x \<notin> rank ` set xs"
  shows "insertRanked rank x xs = insert_key rank x xs"
proof -
  have "(rank x < rank y) = (\<not> rank y < rank x)" if "y \<in> set xs" for y using that assms(2) by (auto simp: image_iff)
  then have "takeWhile (\<lambda>y. \<not> rank x < rank y) xs = takeWhile (\<lambda>y. rank y < rank x) xs"
    by (intro takeWhile_cong) auto
  moreover have "(case find_index (\<lambda>y. rank x < rank y) xs of None \<Rightarrow> length xs | Some i \<Rightarrow> i)
      = length (takeWhile (\<lambda>y. \<not> rank x < rank y) xs)"
    using length_takeWhile_le [of "\<lambda>y. \<not> rank x < rank y" xs] by (auto simp: find_index_def Let_def)
  ultimately show ?thesis by (simp add: insertRanked_def insert_key_def lower_bound_def)
qed

lemma find_distinct: "distinct (map f xs) \<Longrightarrow> find (\<lambda>y. f y = k) xs = Some x \<longleftrightarrow> x \<in> set xs \<and> f x = k"
  by (induction xs) auto

lemma find_index_find: "find_index P xs = None \<longleftrightarrow> find P xs = None" "find_index P xs = Some i \<Longrightarrow> find P xs = Some (xs ! i)"
proof -
  show "find_index P xs = None \<longleftrightarrow> find P xs = None" by (auto simp: find_index_None_iff find_None_iff)
  show "find P xs = Some (xs ! i)" if "find_index P xs = Some i"
    using that by (induction xs arbitrary: i) (auto simp: find_index_def Let_def split: if_splits)
qed

text \<open>
  The rows of the players: each holds entries that are found by their identity and stand in the order of a
  catalog with \<open>n\<close> places.
\<close>

locale player_rows =
  fixes player :: "'r \<Rightarrow> u64" and items :: "'r \<Rightarrow> 'i list" and set_items :: "'i list \<Rightarrow> 'r \<Rightarrow> 'r"
    and ident :: "'i \<Rightarrow> u64" and place :: "u64 \<Rightarrow> nat" and n :: nat and empty_row :: "u64 \<Rightarrow> 'r"
  assumes player_set: "player (set_items xs r) = player r" and items_set: "items (set_items xs r) = xs"
    and player_empty: "player (empty_row p) = p" and items_empty: "items (empty_row p) = []"
    and place_inject: "place a = place b \<Longrightarrow> place a < n \<Longrightarrow> a = b"
begin

abbreviation rank :: "'i \<Rightarrow> nat" where
  "rank x \<equiv> place (ident x)"

definition entries_ok :: "'i list \<Rightarrow> bool" where
  "entries_ok xs \<longleftrightarrow> keys_sorted rank xs \<and> (\<forall>x \<in> set xs. rank x < n)"

definition rows_ok :: "'r list \<Rightarrow> bool" where
  "rows_ok rows \<longleftrightarrow> keys_sorted player rows \<and> (\<forall>r \<in> set rows. entries_ok (items r))"

definition item :: "'r list \<Rightarrow> u64 \<Rightarrow> u64 \<Rightarrow> 'i option" where
  "item rows p k = (case lookup_key player rows p of None \<Rightarrow> None | Some r \<Rightarrow> find (\<lambda>x. ident x = k) (items r))"

definition put :: "'i \<Rightarrow> 'i list \<Rightarrow> 'i list" where
  "put x xs = putItem rank (find_index (\<lambda>y. ident y = ident x) xs) x xs"

lemma items_distinct: "entries_ok xs \<Longrightarrow> distinct (map ident xs)"
proof -
  assume ok: "entries_ok xs"
  then have "distinct (map rank xs)" unfolding entries_ok_def by (intro keys_sorted_distinct) blast
  then have "distinct (map place (map ident xs))" by (simp add: comp_def)
  then show ?thesis by (rule distinct_map [THEN iffD1, THEN conjunct1])
qed

lemma items_length: "entries_ok xs \<Longrightarrow> length xs \<le> n"
proof -
  assume ok: "entries_ok xs"
  then have "distinct (map rank xs)" "set (map rank xs) \<subseteq> {..<n}" unfolding entries_ok_def by (auto intro: keys_sorted_distinct)
  then have "card (set (map rank xs)) \<le> n" using card_mono [of "{..<n}"] by simp
  with \<open>distinct (map rank xs)\<close> show ?thesis by (metis distinct_card length_map)
qed

lemma put_cases:
  assumes "entries_ok xs" and "rank x < n"
  obtains (insert) "find (\<lambda>y. ident y = ident x) xs = None" "rank x \<notin> rank ` set xs" "put x xs = insert_key rank x xs"
    | (update) i where "i < length xs" "ident (xs ! i) = ident x" "find (\<lambda>y. ident y = ident x) xs = Some (xs ! i)" "put x xs = xs[i := x]"
proof (cases "find_index (\<lambda>y. ident y = ident x) xs")
  case None
  then have "\<forall>y \<in> set xs. ident y \<noteq> ident x" by (simp add: find_index_None_iff)
  then have "rank x \<notin> rank ` set xs" using place_inject assms(2) by auto
  moreover have "put x xs = insertRanked rank x xs" using None by (simp add: put_def putItem_def)
  moreover have "find (\<lambda>y. ident y = ident x) xs = None" using None by (simp only: find_index_find(1))
  ultimately show ?thesis using assms(1) by (intro insert) (simp_all add: entries_ok_def insertRanked_key)
next
  case (Some i)
  with find_index_iff [OF Some] show ?thesis by (intro update [of i]) (simp_all add: put_def putItem_def find_index_find(2))
qed

lemma put_set:
  assumes ok: "entries_ok xs" and "rank x < n"
  shows "set (put x xs) = insert x {y \<in> set xs. ident y \<noteq> ident x}"
  using assms
proof (cases rule: put_cases)
  case insert
  then show ?thesis by (auto simp: find_None_iff)
next
  case i: (update i)
  have inj: "j = i" if "j < length xs" "ident (xs ! j) = ident x" for j
    using items_distinct [OF ok] that i by (metis distinct_conv_nth length_map nth_map)
  show ?thesis
  proof (intro set_eqI iffI)
    fix y assume "y \<in> set (put x xs)"
    then obtain j where "j < length xs" "y = (if j = i then x else xs ! j)" unfolding i(4) by (auto simp: in_set_conv_nth nth_list_update)
    with inj show "y \<in> insert x {y \<in> set xs. ident y \<noteq> ident x}" by (auto split: if_splits)
  next
    fix y assume y: "y \<in> insert x {y \<in> set xs. ident y \<noteq> ident x}"
    show "y \<in> set (put x xs)"
    proof (cases "y = x")
      case False
      with y obtain j where "j < length xs" "xs ! j = y" "j \<noteq> i" using i(2) by (auto simp: in_set_conv_nth)
      then have "xs[i := x] ! j = y" "j < length (xs[i := x])" by simp_all
      then show ?thesis unfolding i(4) by (metis nth_mem)
    qed (simp add: i set_update_memI)
  qed
qed

lemma put_ok:
  assumes "entries_ok xs" and "rank x < n"
  shows "entries_ok (put x xs)"
proof -
  have "keys_sorted rank (put x xs)"
    using assms by (rule put_cases) (use assms in \<open>simp_all add: entries_ok_def keys_sorted_insert_key keys_sorted_update\<close>)
  with put_set [OF assms] assms show ?thesis by (auto simp: entries_ok_def)
qed

lemma put_length:
  assumes "entries_ok xs" and "rank x < n"
  shows "length (put x xs) = length xs + (if find (\<lambda>y. ident y = ident x) xs = None then 1 else 0)"
  using assms by (rule put_cases) simp_all

lemma find_put:
  assumes "entries_ok xs" and "rank x < n"
  shows "find (\<lambda>y. ident y = k) (put x xs) = (if k = ident x then Some x else find (\<lambda>y. ident y = k) xs)"
proof -
  have "find (\<lambda>y. ident y = k) (put x xs) = Some z \<longleftrightarrow> (if k = ident x then Some x else find (\<lambda>y. ident y = k) xs) = Some z" for z
    using put_set [OF assms] items_distinct [OF put_ok [OF assms]] items_distinct [OF assms(1)] by (auto simp: find_distinct)
  then show ?thesis by (metis option.exhaust)
qed

text \<open>A row written back.\<close>

lemma store_cases:
  assumes "keys_sorted player rows"
  obtains (insert) "lookup_key player rows (player r) = None" "player r \<notin> player ` set rows" "storeRow player r rows = insert_key player r rows"
    | (replace) old where "lookup_key player rows (player r) = Some old" "player r \<in> player ` set rows" "storeRow player r rows = replace_key player r rows"
proof (cases "lookup_key player rows (player r)")
  case None
  then have "storeRow player r rows = insert_key player r rows" by (simp add: storeRow_def)
  with None lookup_key_None_iff [OF assms] show ?thesis by (intro insert) auto
next
  case (Some old)
  then have "player r \<in> player ` set rows" using lookup_key_SomeD [of player rows "player r" old] by (metis image_eqI)
  with Some show ?thesis by (intro replace [of old]) (simp_all add: storeRow_def)
qed

lemma store_sorted: "keys_sorted player rows \<Longrightarrow> keys_sorted player (storeRow player r rows)"
  by (rule store_cases [of rows r]) (simp_all add: keys_sorted_insert_key)

lemma lookup_store:
  "keys_sorted player rows \<Longrightarrow> lookup_key player (storeRow player r rows) p = (if p = player r then Some r else lookup_key player rows p)"
  by (rule store_cases [of rows r]) (simp_all add: lookup_insert_key lookup_replace_key)

lemma store_set: "keys_sorted player rows \<Longrightarrow> set (storeRow player r rows) = insert r {r' \<in> set rows. player r' \<noteq> player r}"
  by (rule store_cases [of rows r]) (auto simp: set_replace_key image_iff)

lemma store_length:
  "keys_sorted player rows \<Longrightarrow> length (storeRow player r rows) = length rows + (if lookup_key player rows (player r) = None then 1 else 0)"
  by (rule store_cases [of rows r]) simp_all

lemma store_sum:
  assumes "keys_sorted player rows"
  shows "(\<Sum>r\<leftarrow>storeRow player r rows. f r) + (case lookup_key player rows (player r) of None \<Rightarrow> 0 | Some old \<Rightarrow> f old)
    = (\<Sum>r\<leftarrow>rows. f r) + (f r :: nat)"
  using assms by (rule store_cases [of rows r]) (simp_all add: sum_insert_key sum_replace_key)

definition put_row :: "u64 \<Rightarrow> 'i \<Rightarrow> 'r list \<Rightarrow> 'r list" where
  "put_row p x rows = (let row = playerRow player (empty_row p) rows in storeRow player (set_items (put x (items row)) row) rows)"

lemma playerRow_ok:
  assumes "rows_ok rows"
  shows "player (playerRow player (empty_row p) rows) = p" "entries_ok (items (playerRow player (empty_row p) rows))"
    "find (\<lambda>x. ident x = k) (items (playerRow player (empty_row p) rows)) = item rows p k"
proof -
  have "entries_ok []" by (simp add: entries_ok_def)
  then show "player (playerRow player (empty_row p) rows) = p" "entries_ok (items (playerRow player (empty_row p) rows))"
    "find (\<lambda>x. ident x = k) (items (playerRow player (empty_row p) rows)) = item rows p k"
    using assms lookup_key_SomeD [of player rows p]
    by (auto simp: playerRow_def rows_ok_def item_def player_empty items_empty split: option.split)
qed

lemma put_row_ok:
  assumes "rows_ok rows" and "rank x < n"
  shows "rows_ok (put_row p x rows)"
  using assms playerRow_ok [OF assms(1), of p] put_ok [OF playerRow_ok(2) [OF assms(1), of p] assms(2)]
  by (auto simp: put_row_def rows_ok_def Let_def store_sorted store_set items_set)

lemma item_put_row:
  assumes "rows_ok rows" and "rank x < n"
  shows "item (put_row p x rows) q k = (if q = p \<and> k = ident x then Some x else item rows q k)"
proof -
  have sorted: "keys_sorted player rows" using assms(1) by (simp add: rows_ok_def)
  note row = playerRow_ok [OF assms(1), of p]
  show ?thesis
  proof (cases "q = p")
    case True
    have "item (put_row p x rows) p k = find (\<lambda>y. ident y = k) (put x (items (playerRow player (empty_row p) rows)))"
      using row(1) unfolding item_def by (simp add: put_row_def Let_def lookup_store [OF sorted] player_set items_set)
    with True find_put [OF row(2) assms(2), of k] playerRow_ok(3) [OF assms(1), where p = p and k = k] show ?thesis by simp
  next
    case False
    with row(1) show ?thesis by (simp add: item_def put_row_def Let_def lookup_store [OF sorted] player_set)
  qed
qed

end

section \<open>What a valid world is\<close>

definition globals_ok :: "CanonicalGlobalVariableState list \<Rightarrow> bool" where
  "globals_ok gs \<longleftrightarrow> length gs \<le> MaximumGlobalVariables \<and> (\<forall>g \<in> set gs. validValue (gst_value g)) \<and> distinct (map gst_id gs)"

definition journal_part_ok :: "CanonicalWorldState \<Rightarrow> CanonicalPlayerQuestJournalState list \<Rightarrow> bool" where
  "journal_part_ok w rows \<longleftrightarrow> (case cw_questJournalCatalog w of None \<Rightarrow> rows = [] | Some c \<Rightarrow> validQuestJournalState c rows)"

definition faction_part_ok :: "CanonicalWorldState \<Rightarrow> CanonicalPlayerFactionState list \<Rightarrow> bool" where
  "faction_part_ok w rows \<longleftrightarrow> (case cw_factionDialogueCatalog w of None \<Rightarrow> rows = [] | Some c \<Rightarrow> validFactionState c rows)"

text \<open>Which catalogs a world has, and that they are of one content manifest.\<close>

definition catalogs_ok :: "CanonicalWorldState \<Rightarrow> bool" where
  "catalogs_ok w \<longleftrightarrow>
     (case cw_factionDialogueCatalog w of
        None \<Rightarrow> True
      | Some fc \<Rightarrow> (case cw_questJournalCatalog w of None \<Rightarrow> False | Some qc \<Rightarrow> qjc_manifest qc = fdc_manifest fc))
     \<and> (case cw_weatherCatalog w of
          None \<Rightarrow> cw_weather w = None
        | Some wc \<Rightarrow> cw_factionDialogueCatalog w \<noteq> None \<and> (case cw_questJournalCatalog w of None \<Rightarrow> False | Some qc \<Rightarrow> qjc_manifest qc = wc_manifest wc)
            \<and> (case cw_weather w of None \<Rightarrow> False | Some we \<Rightarrow> validWeatherState wc we))"

definition world_ok :: "CanonicalWorldState \<Rightarrow> bool" where
  "world_ok w \<longleftrightarrow> validTime (cw_time w) \<and> globals_ok (cw_globals w) \<and> journal_part_ok w (cw_questJournal w)
     \<and> faction_part_ok w (cw_factionStates w) \<and> catalogs_ok w"

lemmas world_create_defs = createWorld_def createQuestWorld_def createFactionWorld_def createWeatherWorld_def

lemma createWorld_ok:
  "createWorld t gs = (if validTime t \<and> globals_ok gs
     then Some \<lparr>cw_time = t, cw_globals = gs, cw_questJournalCatalog = None, cw_questJournal = [],
       cw_factionDialogueCatalog = None, cw_factionStates = [], cw_weatherCatalog = None, cw_weather = None\<rparr> else None)"
  by (auto simp: createWorld_def globals_ok_def list_all_iff)

lemma createQuestWorld_ok:
  "createQuestWorld t gs qc qj = (if validTime t \<and> globals_ok gs \<and> validQuestJournalState qc qj
     then Some \<lparr>cw_time = t, cw_globals = gs, cw_questJournalCatalog = Some qc, cw_questJournal = qj,
       cw_factionDialogueCatalog = None, cw_factionStates = [], cw_weatherCatalog = None, cw_weather = None\<rparr> else None)"
  by (simp add: createQuestWorld_def createWorld_ok)

lemma createFactionWorld_ok:
  "createFactionWorld t gs qc fc qj fs = (if validTime t \<and> globals_ok gs \<and> validQuestJournalState qc qj
       \<and> validFactionState fc fs \<and> qjc_manifest qc = fdc_manifest fc
     then Some \<lparr>cw_time = t, cw_globals = gs, cw_questJournalCatalog = Some qc, cw_questJournal = qj,
       cw_factionDialogueCatalog = Some fc, cw_factionStates = fs, cw_weatherCatalog = None, cw_weather = None\<rparr> else None)"
  by (simp add: createFactionWorld_def createWorld_ok)

lemma createWeatherWorld_ok:
  "createWeatherWorld t gs qc fc wc qj fs we = (if validTime t \<and> globals_ok gs \<and> validQuestJournalState qc qj
       \<and> validFactionState fc fs \<and> qjc_manifest qc = fdc_manifest fc \<and> qjc_manifest qc = wc_manifest wc \<and> validWeatherState wc we
     then Some \<lparr>cw_time = t, cw_globals = gs, cw_questJournalCatalog = Some qc, cw_questJournal = qj,
       cw_factionDialogueCatalog = Some fc, cw_factionStates = fs, cw_weatherCatalog = Some wc, cw_weather = Some we\<rparr> else None)"
  by (simp add: createWeatherWorld_def createFactionWorld_ok)

text \<open>A world is created anew exactly when the changed parts are valid, and is otherwise as it was.\<close>

lemma recreateWorld_ok:
  assumes "world_ok w" and "cw_questJournalCatalog w = None \<longrightarrow> qj = []" and "cw_factionDialogueCatalog w = None \<longrightarrow> fs = []"
  shows "recreateWorld w t gs qj fs =
    (if validTime t \<and> globals_ok gs \<and> journal_part_ok w qj \<and> faction_part_ok w fs
     then Some (w\<lparr>cw_time := t, cw_globals := gs, cw_questJournal := qj, cw_factionStates := fs\<rparr>) else None)"
proof (cases "cw_questJournalCatalog w")
  case None
  with assms have "cw_factionDialogueCatalog w = None" "cw_weatherCatalog w = None" "cw_weather w = None"
    by (auto simp: world_ok_def catalogs_ok_def split: option.splits)
  with None assms show ?thesis
    by (cases w) (simp add: recreateWorld_def createWorld_ok journal_part_ok_def faction_part_ok_def)
next
  case qc: (Some qc)
  show ?thesis
  proof (cases "cw_factionDialogueCatalog w")
    case None
    with assms have "cw_weatherCatalog w = None" "cw_weather w = None" by (auto simp: world_ok_def catalogs_ok_def split: option.splits)
    with None qc assms show ?thesis
      by (cases w) (simp add: recreateWorld_def createQuestWorld_ok journal_part_ok_def faction_part_ok_def)
  next
    case fc: (Some fc)
    have manifest: "qjc_manifest qc = fdc_manifest fc" using assms(1) qc fc by (simp add: world_ok_def catalogs_ok_def)
    show ?thesis
    proof (cases "cw_weatherCatalog w")
      case None
      with assms(1) have "cw_weather w = None" by (simp add: world_ok_def catalogs_ok_def)
      with None fc qc manifest show ?thesis
        by (cases w) (simp add: recreateWorld_def createFactionWorld_ok journal_part_ok_def faction_part_ok_def)
    next
      case wc: (Some wc)
      with assms(1) qc fc obtain we where we: "cw_weather w = Some we" "validWeatherState wc we" "qjc_manifest qc = wc_manifest wc"
        by (auto simp: world_ok_def catalogs_ok_def split: option.splits)
      with wc fc qc manifest show ?thesis
        by (cases w) (simp add: recreateWorld_def createWeatherWorld_ok journal_part_ok_def faction_part_ok_def)
    qed
  qed
qed

lemma world_okD:
  assumes "world_ok w"
  shows "cw_questJournalCatalog w = None \<Longrightarrow> cw_questJournal w = []" "cw_factionDialogueCatalog w = None \<Longrightarrow> cw_factionStates w = []"
    "validTime (cw_time w)" "globals_ok (cw_globals w)" "journal_part_ok w (cw_questJournal w)" "faction_part_ok w (cw_factionStates w)"
  using assms by (simp_all add: world_ok_def journal_part_ok_def faction_part_ok_def)

lemma parts_frame [simp]:
  "journal_part_ok (w\<lparr>cw_time := t\<rparr>) = journal_part_ok w" "journal_part_ok (w\<lparr>cw_globals := gs\<rparr>) = journal_part_ok w"
  "journal_part_ok (w\<lparr>cw_questJournal := qj\<rparr>) = journal_part_ok w" "journal_part_ok (w\<lparr>cw_factionStates := fs\<rparr>) = journal_part_ok w"
  "faction_part_ok (w\<lparr>cw_time := t\<rparr>) = faction_part_ok w" "faction_part_ok (w\<lparr>cw_globals := gs\<rparr>) = faction_part_ok w"
  "faction_part_ok (w\<lparr>cw_questJournal := qj\<rparr>) = faction_part_ok w" "faction_part_ok (w\<lparr>cw_factionStates := fs\<rparr>) = faction_part_ok w"
  "catalogs_ok (w\<lparr>cw_time := t\<rparr>) = catalogs_ok w" "catalogs_ok (w\<lparr>cw_globals := gs\<rparr>) = catalogs_ok w"
  "catalogs_ok (w\<lparr>cw_questJournal := qj\<rparr>) = catalogs_ok w" "catalogs_ok (w\<lparr>cw_factionStates := fs\<rparr>) = catalogs_ok w"
  by (simp_all add: journal_part_ok_def faction_part_ok_def catalogs_ok_def fun_eq_iff cong: option.case_cong)

lemma mutated_recreate:
  assumes "world_ok w" and "mutated (recreateWorld w t gs qj fs) = Inr w'"
    and "cw_questJournalCatalog w = None \<longrightarrow> qj = []" and "cw_factionDialogueCatalog w = None \<longrightarrow> fs = []"
  shows "w' = w\<lparr>cw_time := t, cw_globals := gs, cw_questJournal := qj, cw_factionStates := fs\<rparr>" "world_ok w'"
  using assms by (auto simp: mutated_def recreateWorld_ok [OF assms(1,3,4)] world_ok_def split: if_splits)

section \<open>Valid journals and factions\<close>

definition quest_ok :: "QuestJournalCatalog \<Rightarrow> CanonicalQuestState \<Rightarrow> bool" where
  "quest_ok catalog q \<longleftrightarrow> (let i = catalogIndex qce_id (qjc_quests catalog) (qst_id q)
     in i < length (qjc_quests catalog) \<and> containsStage (qjc_quests catalog ! i) (qst_stage q))
     \<and> qst_revision q \<noteq> initial CounterFromOne \<and> qst_lastChangeTick q \<noteq> 0"

lemma validQuests_iff:
  "validQuests catalog prior qs \<longleftrightarrow> keys_sorted (\<lambda>q. catalogIndex qce_id (qjc_quests catalog) (qst_id q)) qs
    \<and> (\<forall>q \<in> set qs. quest_ok catalog q \<and> (case prior of None \<Rightarrow> True | Some p \<Rightarrow> p < catalogIndex qce_id (qjc_quests catalog) (qst_id q)))"
  by (induction catalog prior qs rule: validQuests.induct) (auto simp: quest_ok_def Let_def split: option.splits intro: order.strict_trans)

definition journal_row_ok :: "QuestJournalCatalog \<Rightarrow> CanonicalPlayerQuestJournalState \<Rightarrow> bool" where
  "journal_row_ok catalog r \<longleftrightarrow> length (pqj_quests r) \<le> length (qjc_quests catalog) \<and> length (pqj_journal r) \<le> length (qjc_journal catalog)
     \<and> (pqj_quests r \<noteq> [] \<or> pqj_journal r \<noteq> []) \<and> validPlayerQuestJournal catalog r"

lemma validQuestJournalFrom_iff:
  "tq \<le> MaximumCanonicalQuestStates \<Longrightarrow> tj \<le> MaximumCanonicalJournalEntries \<Longrightarrow> validQuestJournalFrom catalog prior tq tj rows \<longleftrightarrow>
    keys_sorted pqj_player rows \<and> (\<forall>r \<in> set rows. journal_row_ok catalog r \<and> (case prior of None \<Rightarrow> True | Some p \<Rightarrow> p < pqj_player r))
    \<and> tq + (\<Sum>r\<leftarrow>rows. length (pqj_quests r)) \<le> MaximumCanonicalQuestStates
    \<and> tj + (\<Sum>r\<leftarrow>rows. length (pqj_journal r)) \<le> MaximumCanonicalJournalEntries"
proof (induction rows arbitrary: prior tq tj)
  case (Cons r rows)
  have "validQuestJournalFrom catalog (Some (pqj_player r)) (tq + length (pqj_quests r)) (tj + length (pqj_journal r)) rows \<longleftrightarrow>
    keys_sorted pqj_player rows \<and> (\<forall>r' \<in> set rows. journal_row_ok catalog r' \<and> pqj_player r < pqj_player r')
    \<and> tq + length (pqj_quests r) + (\<Sum>r\<leftarrow>rows. length (pqj_quests r)) \<le> MaximumCanonicalQuestStates
    \<and> tj + length (pqj_journal r) + (\<Sum>r\<leftarrow>rows. length (pqj_journal r)) \<le> MaximumCanonicalJournalEntries"
    if "length (pqj_quests r) \<le> MaximumCanonicalQuestStates - tq" "length (pqj_journal r) \<le> MaximumCanonicalJournalEntries - tj"
    using Cons.IH [of "tq + length (pqj_quests r)" "tj + length (pqj_journal r)" "Some (pqj_player r)"] Cons.prems that by simp
  then show ?case using Cons.prems by (auto simp: journal_row_ok_def split: option.splits intro: order.strict_trans)
qed simp

lemma validQuestJournalState_iff:
  "validQuestJournalState catalog rows \<longleftrightarrow> length rows \<le> MaximumPlayerQuestJournalStates
    \<and> keys_sorted pqj_player rows \<and> (\<forall>r \<in> set rows. journal_row_ok catalog r)
    \<and> (\<Sum>r\<leftarrow>rows. length (pqj_quests r)) \<le> MaximumCanonicalQuestStates
    \<and> (\<Sum>r\<leftarrow>rows. length (pqj_journal r)) \<le> MaximumCanonicalJournalEntries"
  unfolding validQuestJournalState_def by (subst validQuestJournalFrom_iff) simp_all

definition faction_ok :: "FactionDialogueCatalog \<Rightarrow> CanonicalFactionState \<Rightarrow> bool" where
  "faction_ok catalog f \<longleftrightarrow>
     (let i = catalogIndex fce_id (fdc_factions catalog) (fst_id f)
      in i < length (fdc_factions catalog) \<and> (\<forall>r. fst_rank f = Some r \<longrightarrow> containsRank (fdc_factions catalog ! i) r))
     \<and> (fst_rank f \<noteq> None \<longleftrightarrow> fst_membershipRevision f \<noteq> initial CounterFromOne)
     \<and> (fst_rank f \<noteq> None \<longleftrightarrow> fst_lastMembershipChangeTick f \<noteq> 0)
     \<and> (fst_reputationRevision f = initial CounterFromOne \<longrightarrow> fst_reputation f = 0 \<and> fst_lastReputationChangeTick f = 0)
     \<and> (fst_reputationRevision f \<noteq> initial CounterFromOne \<longrightarrow> fst_lastReputationChangeTick f \<noteq> 0)
     \<and> (fst_rank f \<noteq> None \<or> fst_reputationRevision f \<noteq> initial CounterFromOne)"

lemma validFactions_iff:
  "validFactions catalog prior fs \<longleftrightarrow> keys_sorted (\<lambda>f. catalogIndex fce_id (fdc_factions catalog) (fst_id f)) fs
    \<and> (\<forall>f \<in> set fs. faction_ok catalog f \<and> (case prior of None \<Rightarrow> True | Some p \<Rightarrow> p < catalogIndex fce_id (fdc_factions catalog) (fst_id f)))"
proof (induction catalog prior fs rule: validFactions.induct)
  case (2 catalog prior f fs)
  let ?i = "catalogIndex fce_id (fdc_factions catalog) (fst_id f)"
  have step: "validFactions catalog prior (f # fs) \<longleftrightarrow> faction_ok catalog f \<and> (case prior of None \<Rightarrow> True | Some p \<Rightarrow> p < ?i)
      \<and> validFactions catalog (Some ?i) fs"
    by (cases "fst_rank f") (auto simp: faction_ok_def Let_def)
  show ?case unfolding step "2.IH" [OF refl refl] by (auto split: option.splits intro: order.strict_trans)
qed simp

definition faction_row_ok :: "FactionDialogueCatalog \<Rightarrow> CanonicalPlayerFactionState \<Rightarrow> bool" where
  "faction_row_ok catalog r \<longleftrightarrow> pfs_factions r \<noteq> [] \<and> length (pfs_factions r) \<le> length (fdc_factions catalog) \<and> validFactions catalog None (pfs_factions r)"

lemma validFactionsFrom_iff:
  "tf \<le> MaximumCanonicalFactionStates \<Longrightarrow> validFactionsFrom catalog prior tf rows \<longleftrightarrow>
    keys_sorted pfs_player rows \<and> (\<forall>r \<in> set rows. faction_row_ok catalog r \<and> (case prior of None \<Rightarrow> True | Some p \<Rightarrow> p < pfs_player r))
    \<and> tf + (\<Sum>r\<leftarrow>rows. length (pfs_factions r)) \<le> MaximumCanonicalFactionStates"
proof (induction rows arbitrary: prior tf)
  case (Cons r rows)
  have "validFactionsFrom catalog (Some (pfs_player r)) (tf + length (pfs_factions r)) rows \<longleftrightarrow>
    keys_sorted pfs_player rows \<and> (\<forall>r' \<in> set rows. faction_row_ok catalog r' \<and> pfs_player r < pfs_player r')
    \<and> tf + length (pfs_factions r) + (\<Sum>r\<leftarrow>rows. length (pfs_factions r)) \<le> MaximumCanonicalFactionStates"
    if "length (pfs_factions r) \<le> MaximumCanonicalFactionStates - tf"
    using Cons.IH [of "tf + length (pfs_factions r)" "Some (pfs_player r)"] Cons.prems that by simp
  then show ?case using Cons.prems by (auto simp: faction_row_ok_def split: option.splits intro: order.strict_trans)
qed simp

lemma validFactionState_iff:
  "validFactionState catalog rows \<longleftrightarrow> length rows \<le> MaximumPlayerFactionStates
    \<and> keys_sorted pfs_player rows \<and> (\<forall>r \<in> set rows. faction_row_ok catalog r)
    \<and> (\<Sum>r\<leftarrow>rows. length (pfs_factions r)) \<le> MaximumCanonicalFactionStates"
  unfolding validFactionState_def by (subst validFactionsFrom_iff) simp_all

section \<open>Places in a catalog\<close>

lemma catalogIndex_less: "catalogIndex key es k < length es \<longleftrightarrow> find (\<lambda>e. key e = k) es \<noteq> None"
  using find_index_iff [of "\<lambda>e. key e = k" es] find_index_find [of "\<lambda>e. key e = k" es] by (auto simp: catalogIndex_def split: option.split)

lemma catalogIndex_nth: "find (\<lambda>e. key e = k) es = Some e \<Longrightarrow> es ! catalogIndex key es k = e"
  using find_index_find [of "\<lambda>e. key e = k" es] by (auto simp: catalogIndex_def split: option.split)

lemma catalogIndex_key: "catalogIndex key es k < length es \<Longrightarrow> key (es ! catalogIndex key es k) = k"
  using find_index_iff [of "\<lambda>e. key e = k" es] by (auto simp: catalogIndex_def split: option.splits)

lemma catalogIndex_inject: "catalogIndex key es a = catalogIndex key es b \<Longrightarrow> catalogIndex key es b < length es \<Longrightarrow> a = b"
  by (metis catalogIndex_key)

interpretation quests: player_rows pqj_player pqj_quests "\<lambda>xs r. r\<lparr>pqj_quests := xs\<rparr>" qst_id "catalogIndex qce_id (qjc_quests catalog)"
  "length (qjc_quests catalog)" freshQuestJournal for catalog :: QuestJournalCatalog
  by (unfold_locales, simp_all add: freshQuestJournal_def) (rule catalogIndex_inject)

interpretation factions: player_rows pfs_player pfs_factions "\<lambda>xs r. r\<lparr>pfs_factions := xs\<rparr>" fst_id "catalogIndex fce_id (fdc_factions catalog)"
  "length (fdc_factions catalog)" freshFactions for catalog :: FactionDialogueCatalog
  by (unfold_locales, simp_all add: freshFactions_def) (rule catalogIndex_inject)

section \<open>Quests\<close>

definition questOf :: "CanonicalWorldState \<Rightarrow> PlayerId \<Rightarrow> QuestId \<Rightarrow> CanonicalQuestState option" where
  "questOf w p q = (case findQuestJournal w p of None \<Rightarrow> None | Some r \<Rightarrow> find (\<lambda>x. qst_id x = q) (pqj_quests r))"

definition journalOf :: "CanonicalWorldState \<Rightarrow> PlayerId \<Rightarrow> CanonicalJournalEntryState list" where
  "journalOf w p = (case findQuestJournal w p of None \<Rightarrow> [] | Some r \<Rightarrow> pqj_journal r)"

lemma questOf_item: "questOf w p q = quests.item (cw_questJournal w) p q"
  by (simp add: questOf_def quests.item_def findQuestJournal_def)

lemma validPlayerQuestJournal_items:
  "validPlayerQuestJournal c r \<Longrightarrow> quests.entries_ok c (pqj_quests r)"
  by (auto simp: validPlayerQuestJournal_def validQuests_iff quests.entries_ok_def quest_ok_def Let_def)

lemma quest_rows_ok: "validQuestJournalState c rows \<Longrightarrow> quests.rows_ok c rows"
  by (auto simp: validQuestJournalState_iff quests.rows_ok_def journal_row_ok_def intro: validPlayerQuestJournal_items)

text \<open>The row an update starts from is valid but may be empty.\<close>

definition row_parts_ok :: "QuestJournalCatalog \<Rightarrow> CanonicalPlayerQuestJournalState \<Rightarrow> bool" where
  "row_parts_ok c r \<longleftrightarrow> length (pqj_journal r) \<le> length (qjc_journal c) \<and> validPlayerQuestJournal c r"

lemma journal_row_ok_parts:
  "journal_row_ok c r \<longleftrightarrow> row_parts_ok c r \<and> (pqj_quests r \<noteq> [] \<or> pqj_journal r \<noteq> [])"
  using quests.items_length [OF validPlayerQuestJournal_items, of c r] by (auto simp: journal_row_ok_def row_parts_ok_def)

lemma playerRow_parts:
  assumes "validQuestJournalState c rows"
  shows "row_parts_ok c (playerRow pqj_player (freshQuestJournal p) rows)"
proof (cases "lookup_key pqj_player rows p")
  case None
  have "row_parts_ok c (freshQuestJournal p)" by (simp add: row_parts_ok_def freshQuestJournal_def validPlayerQuestJournal_def initial_def)
  with None show ?thesis by (simp add: playerRow_def freshQuestJournal_def)
next
  case (Some r)
  with lookup_key_SomeD [of pqj_player rows p r] assms have "journal_row_ok c r" by (simp add: validQuestJournalState_iff)
  with Some show ?thesis by (simp add: playerRow_def freshQuestJournal_def journal_row_ok_parts)
qed

text \<open>A valid row written back keeps the table valid where there is room.\<close>

lemma storeRow_valid:
  assumes rows: "validQuestJournalState c rows" and row: "journal_row_ok c r"
    and "length (storeRow pqj_player r rows) \<le> MaximumPlayerQuestJournalStates"
    and "(\<Sum>r\<leftarrow>storeRow pqj_player r rows. length (pqj_quests r)) \<le> MaximumCanonicalQuestStates"
    and "(\<Sum>r\<leftarrow>storeRow pqj_player r rows. length (pqj_journal r)) \<le> MaximumCanonicalJournalEntries"
  shows "validQuestJournalState c (storeRow pqj_player r rows)"
proof -
  have sorted: "keys_sorted pqj_player rows" using rows by (simp add: validQuestJournalState_iff)
  have "\<forall>r' \<in> set (storeRow pqj_player r rows). journal_row_ok c r'"
    using rows row quests.store_set [OF sorted, of r] by (auto simp: validQuestJournalState_iff)
  with assms(3-) quests.store_sorted [OF sorted, of r] show ?thesis by (simp add: validQuestJournalState_iff)
qed

lemma quest_row_put:
  assumes "row_parts_ok c r" and "quest_ok c x"
  shows "journal_row_ok c (r\<lparr>pqj_quests := quests.put c x (pqj_quests r)\<rparr>)"
proof -
  have items: "quests.entries_ok c (pqj_quests r)" using assms(1) by (simp add: row_parts_ok_def validPlayerQuestJournal_items)
  have rank: "catalogIndex qce_id (qjc_quests c) (qst_id x) < length (qjc_quests c)" using assms(2) by (simp add: quest_ok_def Let_def)
  note set = quests.put_set [OF items rank]
  have "validQuests c None (quests.put c x (pqj_quests r))"
    using quests.put_ok [OF items rank] assms by (auto simp: validQuests_iff set quests.entries_ok_def row_parts_ok_def validPlayerQuestJournal_def)
  moreover have "quests.put c x (pqj_quests r) \<noteq> []"
  proof
    assume "quests.put c x (pqj_quests r) = []"
    with set show False by simp
  qed
  ultimately show ?thesis using assms(1) by (simp add: journal_row_ok_parts row_parts_ok_def validPlayerQuestJournal_def)
qed

text \<open>What the tables hold in total after a quest is written.\<close>

definition questTotal :: "CanonicalWorldState \<Rightarrow> nat" where
  "questTotal w = (\<Sum>r\<leftarrow>cw_questJournal w. length (pqj_quests r))"

lemma quest_put_totals:
  fixes p :: u64
  assumes rows: "validQuestJournalState c rows" and x: "quest_ok c x"
  defines "rows' \<equiv> quests.put_row c p x rows"
  shows "length rows' = length rows + (if lookup_key pqj_player rows p = None then 1 else 0)"
    "(\<Sum>r\<leftarrow>rows'. length (pqj_quests r)) = (\<Sum>r\<leftarrow>rows. length (pqj_quests r)) + (if quests.item rows p (qst_id x) = None then 1 else 0)"
    "(\<Sum>r\<leftarrow>rows'. length (pqj_journal r)) = (\<Sum>r\<leftarrow>rows. length (pqj_journal r))"
proof -
  define row where "row = playerRow pqj_player (freshQuestJournal p) rows"
  define r where "r = row\<lparr>pqj_quests := quests.put c x (pqj_quests row)\<rparr>"
  have sorted: "keys_sorted pqj_player rows" using rows by (simp add: validQuestJournalState_iff)
  note row = quests.playerRow_ok(1,2) [OF quest_rows_ok [OF rows], of p, folded row_def]
  have found: "find (\<lambda>y. qst_id y = k) (pqj_quests row) = quests.item rows p k" for k
    unfolding row_def by (rule quests.playerRow_ok(3) [OF quest_rows_ok [OF rows]])
  have rows': "rows' = storeRow pqj_player r rows" by (simp add: rows'_def quests.put_row_def row_def r_def Let_def)
  have player: "pqj_player r = p" using row(1) by (simp add: r_def)
  show "length rows' = length rows + (if lookup_key pqj_player rows p = None then 1 else 0)"
    using quests.store_length [OF sorted, of r] unfolding rows' player .
  have fresh: "pqj_quests (freshQuestJournal p) = []" "pqj_journal (freshQuestJournal p) = []" "pqj_player (freshQuestJournal p) = p"
    by (simp_all add: freshQuestJournal_def)
  have "length (quests.put c x (pqj_quests row)) = length (pqj_quests row) + (if quests.item rows p (qst_id x) = None then 1 else 0)"
    using quests.put_length [OF row(2), of x] x by (simp add: quest_ok_def Let_def found)
  then show "(\<Sum>r\<leftarrow>rows'. length (pqj_quests r)) = (\<Sum>r\<leftarrow>rows. length (pqj_quests r)) + (if quests.item rows p (qst_id x) = None then 1 else 0)"
    using quests.store_sum [OF sorted, where r = r and f = "\<lambda>r. length (pqj_quests r)"] unfolding rows' player
    by (simp add: r_def row_def playerRow_def fresh split: option.splits)
  show "(\<Sum>r\<leftarrow>rows'. length (pqj_journal r)) = (\<Sum>r\<leftarrow>rows. length (pqj_journal r))"
    using quests.store_sum [OF sorted, where r = r and f = "\<lambda>r. length (pqj_journal r)"] unfolding rows' player
    by (simp add: r_def row_def playerRow_def fresh split: option.splits)
qed

text \<open>Writing one quest.\<close>

lemma quest_put_valid:
  assumes rows: "validQuestJournalState c rows" and x: "quest_ok c x"
    and "lookup_key pqj_player rows p = None \<longrightarrow> length rows < MaximumPlayerQuestJournalStates"
    and "quests.item rows p (qst_id x) = None \<longrightarrow> (\<Sum>r\<leftarrow>rows. length (pqj_quests r)) < MaximumCanonicalQuestStates"
  shows "validQuestJournalState c (quests.put_row c p x rows)"
proof -
  define row where "row = playerRow pqj_player (freshQuestJournal p) rows"
  have eq: "quests.put_row c p x rows = storeRow pqj_player (row\<lparr>pqj_quests := quests.put c x (pqj_quests row)\<rparr>) rows"
    by (simp add: quests.put_row_def row_def Let_def)
  have row: "journal_row_ok c (row\<lparr>pqj_quests := quests.put c x (pqj_quests row)\<rparr>)"
    using quest_row_put [OF playerRow_parts [OF rows] x] by (simp add: row_def)
  note totals = quest_put_totals [OF rows x, of p]
  have "length rows \<le> MaximumPlayerQuestJournalStates" "(\<Sum>r\<leftarrow>rows. length (pqj_quests r)) \<le> MaximumCanonicalQuestStates"
    "(\<Sum>r\<leftarrow>rows. length (pqj_journal r)) \<le> MaximumCanonicalJournalEntries"
    using rows by (simp_all add: validQuestJournalState_iff)
  with totals assms(3,4) show ?thesis unfolding eq by (intro storeRow_valid [OF rows row]) auto
qed

definition with_quest :: "QuestJournalCatalog \<Rightarrow> PlayerId \<Rightarrow> CanonicalQuestState \<Rightarrow> CanonicalWorldState \<Rightarrow> CanonicalWorldState" where
  "with_quest c p x w = w\<lparr>cw_questJournal := quests.put_row c p x (cw_questJournal w)\<rparr>"

lemma questOf_with_quest:
  assumes "world_ok w" and "cw_questJournalCatalog w = Some c" and "quest_ok c x"
  shows "questOf (with_quest c p x w) p' k = (if p' = p \<and> k = qst_id x then Some x else questOf w p' k)"
proof -
  have "quests.rows_ok c (cw_questJournal w)" using assms(1,2) by (simp add: quest_rows_ok world_ok_def journal_part_ok_def)
  with assms(3) show ?thesis by (simp add: questOf_item with_quest_def quests.item_put_row quest_ok_def Let_def)
qed

lemma journalOf_with_quest:
  assumes "world_ok w" and "cw_questJournalCatalog w = Some c"
  shows "journalOf (with_quest c p x w) p' = journalOf w p'"
proof -
  have "keys_sorted pqj_player (cw_questJournal w)" using assms by (simp add: world_ok_def journal_part_ok_def validQuestJournalState_iff)
  then show ?thesis using lookup_key_SomeD [of pqj_player "cw_questJournal w" p]
    by (auto simp: journalOf_def findQuestJournal_def with_quest_def quests.put_row_def Let_def quests.lookup_store playerRow_def
        freshQuestJournal_def split: option.splits)
qed

text \<open>The state of a quest before its first change.\<close>

definition startedQuest :: "QuestId \<Rightarrow> QuestCatalogEntry \<Rightarrow> CanonicalQuestState" where
  "startedQuest q d = \<lparr>qst_id = q, qst_stage = qce_initialStage d, qst_revision = initial CounterFromOne, qst_lastChangeTick = initial CounterFromZero\<rparr>"

definition currentQuest :: "CanonicalWorldState \<Rightarrow> PlayerId \<Rightarrow> QuestId \<Rightarrow> QuestCatalogEntry \<Rightarrow> CanonicalQuestState" where
  "currentQuest w p q d = (case questOf w p q of None \<Rightarrow> startedQuest q d | Some x \<Rightarrow> x)"

text \<open>Setting the stage of a quest, by the view of one quest of one player.\<close>

lemma setCanonicalQuestStage_view:
  fixes p :: u64
  assumes ok: "world_ok w" and c: "cw_questJournalCatalog w = Some c" and d: "findQuest c q = Some d"
  defines "x \<equiv> currentQuest w p q d"
  shows "setCanonicalQuestStage w p q e s t =
    (if \<not> containsStage d s then Inl UnknownQuestStage
     else if e \<noteq> qst_revision x then Inl QuestRevisionMismatch
     else if t < qst_lastChangeTick x then Inl WorldTickRegression
     else if s = qst_stage x then Inr w
     else (case next_value (qst_revision x) of
             None \<Rightarrow> Inl WorldRevisionExhausted
           | Some n \<Rightarrow> mutated (recreateWorld w (cw_time w) (cw_globals w)
               (quests.put_row c p (x\<lparr>qst_stage := s, qst_revision := n, qst_lastChangeTick := t\<rparr>) (cw_questJournal w)) (cw_factionStates w))))"
proof -
  define row where "row = playerRow pqj_player (freshQuestJournal p) (cw_questJournal w)"
  define found where "found = find_index (\<lambda>y. qst_id y = q) (pqj_quests row)"
  have rows: "quests.rows_ok c (cw_questJournal w)" using ok c by (simp add: quest_rows_ok world_ok_def journal_part_ok_def)
  have item: "find (\<lambda>y. qst_id y = q) (pqj_quests row) = questOf w p q"
    unfolding row_def questOf_item by (rule quests.playerRow_ok(3) [OF rows])
  have x: "(case found of None \<Rightarrow> startedQuest q d | Some i \<Rightarrow> pqj_quests row ! i) = x"
    using find_index_find [of "\<lambda>y. qst_id y = q" "pqj_quests row"] item
    by (auto simp: x_def currentQuest_def found_def split: option.splits)
  have "qst_id x = q" using item by (auto simp: x_def currentQuest_def startedQuest_def find_Some_iff split: option.splits)
  then have put: "storeRow pqj_player (row\<lparr>pqj_quests := putItem (quests.rank c) found y (pqj_quests row)\<rparr>) (cw_questJournal w)
      = quests.put_row c p y (cw_questJournal w)" if "qst_id y = qst_id x" for y
    using that by (simp add: quests.put_row_def quests.put_def Let_def row_def [symmetric] found_def)
  show ?thesis
    using d x put unfolding setCanonicalQuestStage_def c row_def [symmetric] found_def [symmetric] startedQuest_def [symmetric]
    by (simp add: Let_def row_def [symmetric] found_def [symmetric] startedQuest_def [symmetric] split: option.split)
qed

lemma findQuest_place:
  "findQuest c q = Some d \<Longrightarrow> catalogIndex qce_id (qjc_quests c) q < length (qjc_quests c) \<and> qjc_quests c ! catalogIndex qce_id (qjc_quests c) q = d"
  by (simp add: findQuest_def catalogIndex_less catalogIndex_nth)

lemma next_value_not_first: "next_value e = Some n \<Longrightarrow> e \<noteq> 0 \<Longrightarrow> n \<noteq> initial CounterFromOne"
  by (auto simp: initial_def next_value_iff word_unat_eq_iff)

lemma world_quest_rows: "world_ok w \<Longrightarrow> cw_questJournalCatalog w = Some c \<Longrightarrow> validQuestJournalState c (cw_questJournal w)"
  by (simp add: world_ok_def journal_part_ok_def)

text \<open>Room for the quest of the player.\<close>

definition quest_room :: "CanonicalWorldState \<Rightarrow> PlayerId \<Rightarrow> QuestId \<Rightarrow> bool" where
  "quest_room w p q \<longleftrightarrow> (findQuestJournal w p = None \<longrightarrow> length (cw_questJournal w) < MaximumPlayerQuestJournalStates)
     \<and> (questOf w p q = None \<longrightarrow> questTotal w < MaximumCanonicalQuestStates)"

lemma currentQuest_id: "qst_id (currentQuest w p q d) = q"
  by (auto simp: currentQuest_def startedQuest_def questOf_def find_Some_iff split: option.split dest: sym)

lemma recreate_quests:
  assumes ok: "world_ok w" and c: "cw_questJournalCatalog w = Some c" and "validQuestJournalState c rows"
  shows "recreateWorld w (cw_time w) (cw_globals w) rows (cw_factionStates w) = Some (w\<lparr>cw_questJournal := rows\<rparr>)"
    "world_ok (w\<lparr>cw_questJournal := rows\<rparr>)"
  using assms world_okD [OF ok] by (simp_all add: recreateWorld_ok journal_part_ok_def world_ok_def)

lemma setCanonicalQuestStage_succeeds:
  fixes p :: u64
  assumes ok: "world_ok w" and c: "cw_questJournalCatalog w = Some c" and d: "findQuest c q = Some d" and s: "containsStage d s"
  defines "x \<equiv> currentQuest w p q d"
  assumes e: "e = qst_revision x" "e \<noteq> 0" "next_value e = Some n" and t: "t \<noteq> 0" "qst_lastChangeTick x \<le> t" and change: "s \<noteq> qst_stage x"
    and room: "quest_room w p q"
  defines "y \<equiv> x\<lparr>qst_stage := s, qst_revision := n, qst_lastChangeTick := t\<rparr>"
  shows "setCanonicalQuestStage w p q e s t = Inr (with_quest c p y w)" "world_ok (with_quest c p y w)" "quest_ok c y"
proof -
  have id: "qst_id y = q" by (simp add: y_def x_def currentQuest_id)
  show y: "quest_ok c y" using findQuest_place [OF d] s t(1) next_value_not_first [OF e(3,2)] id by (simp add: quest_ok_def Let_def y_def)
  have "validQuestJournalState c (quests.put_row c p y (cw_questJournal w))"
    using room by (intro quest_put_valid world_quest_rows [OF ok c] y)
      (simp_all add: quest_room_def findQuestJournal_def questTotal_def questOf_item id)
  note new = recreate_quests [OF ok c this]
  then show "world_ok (with_quest c p y w)" by (simp add: with_quest_def)
  show "setCanonicalQuestStage w p q e s t = Inr (with_quest c p y w)"
    unfolding setCanonicalQuestStage_view [OF ok c d] x_def [symmetric]
    using s e leD [OF t(2)] change new(1) by (simp add: mutated_def with_quest_def y_def)
qed

section \<open>Journals\<close>

text \<open>A new entry at the end of the journal of one player; nothing else of the tables changes.\<close>

definition with_entry :: "PlayerId \<Rightarrow> CanonicalJournalEntryState \<Rightarrow> CanonicalWorldState \<Rightarrow> CanonicalWorldState" where
  "with_entry p x w =
     (let row = playerRow pqj_player (freshQuestJournal p) (cw_questJournal w)
      in w\<lparr>cw_questJournal := storeRow pqj_player (row\<lparr>pqj_journal := pqj_journal row @ [x], pqj_journalRevision := jst_revision x,
           pqj_lastJournalChangeTick := jst_changeTick x\<rparr>) (cw_questJournal w)\<rparr>)"

lemma addCanonicalJournalEntry_step:
  assumes ok: "world_ok w" and add: "addCanonicalJournalEntry w p q e entry t = Inr w'"
  shows "world_ok w' \<and> (\<exists>n. w' = with_entry p \<lparr>jst_id = entry, jst_revision = n, jst_changeTick = t\<rparr> w)"
proof -
  obtain c where c: "cw_questJournalCatalog w = Some c" using add by (auto simp: addCanonicalJournalEntry_def split: option.splits)
  define row where "row = playerRow pqj_player (freshQuestJournal p) (cw_questJournal w)"
  from add obtain n where "mutated (recreateWorld w (cw_time w) (cw_globals w) (storeRow pqj_player
      (row\<lparr>pqj_journal := pqj_journal row @ [\<lparr>jst_id = entry, jst_revision = n, jst_changeTick = t\<rparr>],
           pqj_journalRevision := n, pqj_lastJournalChangeTick := t\<rparr>) (cw_questJournal w)) (cw_factionStates w)) = Inr w'"
    by (auto simp: addCanonicalJournalEntry_def c row_def Let_def split: option.splits if_splits)
  from mutated_recreate [OF ok this] c world_okD [OF ok] show ?thesis by (auto simp: with_entry_def row_def Let_def)
qed

lemma journalOf_with_entry:
  assumes "keys_sorted pqj_player (cw_questJournal w)"
  shows "journalOf (with_entry p x w) p' = (if p' = p then journalOf w p @ [x] else journalOf w p')"
  using quests.lookup_store [OF assms] lookup_key_SomeD [of pqj_player "cw_questJournal w" p]
  by (auto simp: journalOf_def findQuestJournal_def with_entry_def Let_def playerRow_def freshQuestJournal_def split: option.splits)

section \<open>Mutations\<close>

text \<open>A call of one of the mutations, and a sequence of successful ones.\<close>

datatype WorldMutation =
    AdvanceTime ServerTick u64
  | AdvanceHours ServerTick u8
  | SetTime WorldTimeRevision CanonicalWorldTimeState ServerTick
  | SetGlobal GlobalVariableCatalog GlobalVariableId GlobalVariableRevision GlobalVariableValue ServerTick
  | SetQuestStage PlayerId QuestId QuestRevision QuestStage ServerTick
  | AddJournalEntry PlayerId QuestId JournalRevision JournalEntryId ServerTick
  | SetFactionRank PlayerId FactionId FactionMembershipRevision FactionRank ServerTick
  | SetFactionReputation PlayerId FactionId FactionReputationRevision i32 ServerTick
  | SetWeather WeatherRegionId WeatherRevision WeatherId ServerTick
  | AdvanceWeather ServerTick

fun mutate :: "WorldMutation \<Rightarrow> CanonicalWorldState \<Rightarrow> CanonicalWorldMutationResult option" where
  "mutate (AdvanceTime t i) w = Some (advanceCanonicalWorldTime w t i)"
| "mutate (AdvanceHours t h) w = Some (advanceCanonicalWorldTimeByHours w t h)"
| "mutate (SetTime e time t) w = Some (setCanonicalWorldTime w e time t)"
| "mutate (SetGlobal c k e v t) w = Some (setCanonicalGlobal w c k e v t)"
| "mutate (SetQuestStage p q e s t) w = Some (setCanonicalQuestStage w p q e s t)"
| "mutate (AddJournalEntry p q e j t) w = Some (addCanonicalJournalEntry w p q e j t)"
| "mutate (SetFactionRank p f e r t) w = Some (setCanonicalFactionRank w p f e r t)"
| "mutate (SetFactionReputation p f e r t) w = Some (setCanonicalFactionReputation w p f e r t)"
| "mutate (SetWeather r e x t) w = Some (setCanonicalWeather w r e x t)"
| "mutate (AdvanceWeather t) w = advanceCanonicalWeather w t"

inductive mutated_to :: "CanonicalWorldState \<Rightarrow> CanonicalWorldState \<Rightarrow> bool" for w where
  mutated_none: "mutated_to w w"
| mutated_step: "mutated_to w v \<Longrightarrow> mutate m v = Some (Inr u) \<Longrightarrow> mutated_to w u"

text \<open>What every mutation keeps.\<close>

definition evolves :: "CanonicalWorldState \<Rightarrow> CanonicalWorldState \<Rightarrow> bool" where
  "evolves w w' \<longleftrightarrow> world_ok w' \<and> cw_questJournalCatalog w' = cw_questJournalCatalog w
     \<and> cw_factionDialogueCatalog w' = cw_factionDialogueCatalog w \<and> cw_weatherCatalog w' = cw_weatherCatalog w
     \<and> map gst_id (cw_globals w') = map gst_id (cw_globals w)
     \<and> map (\<lambda>g. valueType (gst_value g)) (cw_globals w') = map (\<lambda>g. valueType (gst_value g)) (cw_globals w)
     \<and> wt_lastAdvanceTick (cw_time w) \<le> wt_lastAdvanceTick (cw_time w') \<and> wt_revision (cw_time w) \<le> wt_revision (cw_time w')
     \<and> (\<forall>p. prefix (journalOf w p) (journalOf w' p))"

lemma evolves_refl: "world_ok w \<Longrightarrow> evolves w w"
  by (simp add: evolves_def)

lemma evolves_trans: "evolves w v \<Longrightarrow> evolves v u \<Longrightarrow> evolves w u"
  unfolding evolves_def by (auto intro: order.trans prefix_order.trans)

lemma journalOf_frame [simp]:
  "journalOf (w\<lparr>cw_time := t\<rparr>) = journalOf w" "journalOf (w\<lparr>cw_globals := gs\<rparr>) = journalOf w"
  "journalOf (w\<lparr>cw_factionStates := fs\<rparr>) = journalOf w" "journalOf (w\<lparr>cw_weather := we\<rparr>) = journalOf w"
  by (simp_all add: fun_eq_iff journalOf_def findQuestJournal_def)

lemma evolves_time:
  assumes "world_ok w" and "mutated (recreateWorld w t (cw_globals w) (cw_questJournal w) (cw_factionStates w)) = Inr w'"
    and "wt_lastAdvanceTick (cw_time w) \<le> wt_lastAdvanceTick t" and "wt_revision (cw_time w) \<le> wt_revision t"
  shows "evolves w w'"
  using mutated_recreate [OF assms(1,2)] world_okD [OF assms(1)] assms(3,4) by (simp add: evolves_def)

lemma setDate_frame [simp]:
  "wt_lastAdvanceTick (setDate d t) = wt_lastAdvanceTick t" "wt_revision (setDate d t) = wt_revision t"
  by (simp_all add: setDate_def)

lemma next_value_grows: "next_value v = Some n \<Longrightarrow> v \<le> n"
  by (rule less_imp_le) (rule next_value_less)

lemma advanceCanonicalWorldTime_evolves:
  assumes "world_ok w" and "advanceCanonicalWorldTime w t i = Inr w'"
  shows "evolves w w'"
proof (cases "w' = w")
  case True
  with assms(1) show ?thesis by (simp add: evolves_refl)
next
  case False
  with assms(2) show ?thesis unfolding advanceCanonicalWorldTime_def Let_def
    by (auto split: if_splits option.splits elim!: evolves_time [OF assms(1)] simp: next_value_grows)
qed

lemma advanceCanonicalWorldTimeByHours_evolves:
  assumes "world_ok w" and "advanceCanonicalWorldTimeByHours w t h = Inr w'"
  shows "evolves w w'"
  using assms(2) unfolding advanceCanonicalWorldTimeByHours_def Let_def
  by (auto split: if_splits option.splits elim!: evolves_time [OF assms(1)] simp: next_value_grows)

lemma setCanonicalWorldTime_evolves:
  assumes "world_ok w" and "setCanonicalWorldTime w e r t = Inr w'"
  shows "evolves w w'"
  using assms(2) unfolding setCanonicalWorldTime_def Let_def
  by (auto split: if_splits option.splits elim!: evolves_time [OF assms(1)] simp: next_value_grows)

lemma setCanonicalGlobal_evolves:
  assumes ok: "world_ok w" and set: "setCanonicalGlobal w c k e v t = Inr w'"
  shows "evolves w w'"
proof (cases "w' = w")
  case True
  with ok show ?thesis by (simp add: evolves_refl)
next
  case False
  with set obtain d i n where i: "find_index (\<lambda>g. gst_id g = k) (cw_globals w) = Some i"
    and types: "valueType (gst_value (cw_globals w ! i)) = valueType v"
    and new: "mutated (recreateWorld w (cw_time w)
        ((cw_globals w)[i := (cw_globals w ! i)\<lparr>gst_value := v, gst_revision := n, gst_lastChangeTick := t\<rparr>])
        (cw_questJournal w) (cw_factionStates w)) = Inr w'"
    by (auto simp: setCanonicalGlobal_def Let_def split: option.splits if_splits)
  have "i < length (cw_globals w)" using find_index_iff [OF i] by simp
  then have "map gst_id ((cw_globals w)[i := (cw_globals w ! i)\<lparr>gst_value := v, gst_revision := n, gst_lastChangeTick := t\<rparr>])
        = map gst_id (cw_globals w)"
    "map (\<lambda>g. valueType (gst_value g)) ((cw_globals w)[i := (cw_globals w ! i)\<lparr>gst_value := v, gst_revision := n, gst_lastChangeTick := t\<rparr>])
        = map (\<lambda>g. valueType (gst_value g)) (cw_globals w)"
    using types [symmetric] by (simp_all add: map_update list_update_same_conv)
  then show ?thesis using mutated_recreate [OF ok new] world_okD [OF ok] by (simp add: evolves_def)
qed

lemma setCanonicalQuestStage_evolves:
  assumes ok: "world_ok w" and set: "setCanonicalQuestStage w p q e s t = Inr w'"
  shows "evolves w w'"
proof (cases "w' = w")
  case True
  with ok show ?thesis by (simp add: evolves_refl)
next
  case False
  obtain c where c: "cw_questJournalCatalog w = Some c" using set by (auto simp: setCanonicalQuestStage_def split: option.splits)
  obtain d where d: "findQuest c q = Some d" using set by (auto simp: setCanonicalQuestStage_def c split: option.splits)
  from set False obtain x where new: "mutated (recreateWorld w (cw_time w) (cw_globals w) (quests.put_row c p x (cw_questJournal w)) (cw_factionStates w)) = Inr w'"
    unfolding setCanonicalQuestStage_view [OF ok c d] by (auto split: if_splits option.splits)
  have "w' = with_quest c p x w" "world_ok w'"
    using mutated_recreate [OF ok new] c world_okD [OF ok] by (simp_all add: with_quest_def)
  with journalOf_with_quest [OF ok c, of p x] show ?thesis by (simp add: evolves_def) (simp add: with_quest_def)
qed

lemma addCanonicalJournalEntry_evolves:
  assumes ok: "world_ok w" and add: "addCanonicalJournalEntry w p q e entry t = Inr w'"
  shows "evolves w w'"
proof -
  from addCanonicalJournalEntry_step [OF ok add] obtain x where w': "world_ok w'" "w' = with_entry p x w" by auto
  have "cw_questJournalCatalog w \<noteq> None" using add by (auto simp: addCanonicalJournalEntry_def split: option.splits)
  with ok have "keys_sorted pqj_player (cw_questJournal w)" by (auto simp: world_ok_def journal_part_ok_def validQuestJournalState_iff)
  from journalOf_with_entry [OF this, of p x] w' show ?thesis by (simp add: evolves_def) (simp add: with_entry_def Let_def)
qed

lemma storeFaction_evolves:
  assumes ok: "world_ok w" and c: "cw_factionDialogueCatalog w = Some c" and "storeFaction w c row found x = Inr w'"
  shows "evolves w w'"
  using mutated_recreate [OF ok assms(3) [unfolded storeFaction_def Let_def]] c world_okD [OF ok] by (simp add: evolves_def)

lemma setCanonicalFactionRank_evolves:
  assumes ok: "world_ok w" and set: "setCanonicalFactionRank w p f e r t = Inr w'"
  shows "evolves w w'"
  using set evolves_refl [OF ok] storeFaction_evolves [OF ok]
  by (fastforce simp: setCanonicalFactionRank_def Let_def split: option.splits if_splits)

lemma setCanonicalFactionReputation_evolves:
  assumes ok: "world_ok w" and set: "setCanonicalFactionReputation w p f e r t = Inr w'"
  shows "evolves w w'"
  using set evolves_refl [OF ok] storeFaction_evolves [OF ok]
  by (fastforce simp: setCanonicalFactionReputation_def Let_def split: option.splits if_splits)

text \<open>A world whose weather alone changes.\<close>

lemma withWeather_ok:
  assumes ok: "world_ok w" and c: "cw_weatherCatalog w = Some c"
  shows "withWeather w x = (if validWeatherState c x then Inr (w\<lparr>cw_weather := Some x\<rparr>) else Inl InvalidState)"
    "validWeatherState c x \<Longrightarrow> world_ok (w\<lparr>cw_weather := Some x\<rparr>)"
proof -
  from ok c obtain qc fc we where parts: "cw_questJournalCatalog w = Some qc" "cw_factionDialogueCatalog w = Some fc" "cw_weather w = Some we"
    "qjc_manifest qc = fdc_manifest fc" "qjc_manifest qc = wc_manifest c"
    by (auto simp: world_ok_def catalogs_ok_def split: option.splits)
  with ok c show "withWeather w x = (if validWeatherState c x then Inr (w\<lparr>cw_weather := Some x\<rparr>) else Inl InvalidState)"
    by (cases w) (simp add: withWeather_def mutated_def createWeatherWorld_ok world_ok_def journal_part_ok_def faction_part_ok_def)
  show "world_ok (w\<lparr>cw_weather := Some x\<rparr>)" if "validWeatherState c x"
    using ok c parts that by (simp add: world_ok_def journal_part_ok_def faction_part_ok_def catalogs_ok_def)
qed

lemma withWeather_evolves:
  assumes "world_ok w" and "cw_weatherCatalog w = Some c" and "withWeather w x = Inr w'"
  shows "evolves w w'"
  using assms(3) withWeather_ok [OF assms(1,2), of x] world_okD [OF assms(1)] by (auto simp: evolves_def split: if_splits)

lemma setCanonicalWeather_evolves:
  assumes ok: "world_ok w" and set: "setCanonicalWeather w r e x t = Inr w'"
  shows "evolves w w'"
  using set evolves_refl [OF ok] withWeather_evolves [OF ok]
  by (auto simp: setCanonicalWeather_def Let_def split: option.splits if_splits)

lemma advanceCanonicalWeather_evolves:
  assumes ok: "world_ok w" and adv: "advanceCanonicalWeather w t = Some (Inr w')"
  shows "evolves w w'"
  using adv evolves_refl [OF ok] withWeather_evolves [OF ok]
  by (auto simp: advanceCanonicalWeather_def Let_def split: option.splits if_splits sum.splits prod.splits)

lemma mutate_evolves:
  assumes "world_ok w" and "mutate m w = Some (Inr w')"
  shows "evolves w w'"
  using assms(2)
  by (cases m) (simp_all add: advanceCanonicalWorldTime_evolves advanceCanonicalWorldTimeByHours_evolves setCanonicalWorldTime_evolves
      setCanonicalGlobal_evolves setCanonicalQuestStage_evolves addCanonicalJournalEntry_evolves setCanonicalFactionRank_evolves
      setCanonicalFactionReputation_evolves setCanonicalWeather_evolves advanceCanonicalWeather_evolves assms(1))

lemma mutated_to_evolves: "mutated_to w w' \<Longrightarrow> world_ok w \<Longrightarrow> evolves w w'"
proof (induction rule: mutated_to.induct)
  case (mutated_step v m u)
  then have "evolves w v" by simp
  moreover from this have "evolves v u" using mutate_evolves [OF _ mutated_step.hyps(2)] by (simp add: evolves_def)
  ultimately show ?case by (rule evolves_trans)
qed (rule evolves_refl)

section \<open>Initial and restored worlds\<close>

lemma initialWeatherWorld_ok:
  assumes "initialWeatherWorld time globals qc fc wc random = Some w"
  shows "world_ok w" "cw_questJournalCatalog w = Some qc" "cw_factionDialogueCatalog w = Some fc" "cw_weatherCatalog w = Some wc"
    "map gst_id (cw_globals w) = map gce_id globals"
    "map (\<lambda>g. valueType (gst_value g)) (cw_globals w) = map (\<lambda>e. valueType (gce_initialValue e)) globals"
proof -
  from assms obtain base regions where base: "initialFactionWorld time globals qc fc = Some base"
    and w: "createWeatherWorld (cw_time base) (cw_globals base) qc fc wc [] []
      \<lparr>ws_regions = regions, ws_randomState = random, ws_lastAdvanceTick = wt_lastAdvanceTick time, ws_nativeEnvironment = []\<rparr> = Some w"
    by (auto simp: initialWeatherWorld_def split: option.splits)
  have "cw_globals base = initialGlobals time globals"
    using base by (auto simp: initialFactionWorld_def initialWorld_def createWorld_ok createFactionWorld_ok split: option.splits if_splits)
  then have "map gst_id (cw_globals base) = map gce_id globals"
    "map (\<lambda>g. valueType (gst_value g)) (cw_globals base) = map (\<lambda>e. valueType (gce_initialValue e)) globals"
    by (simp_all add: initialGlobals_def comp_def)
  with w show "world_ok w" "cw_questJournalCatalog w = Some qc" "cw_factionDialogueCatalog w = Some fc" "cw_weatherCatalog w = Some wc"
    "map gst_id (cw_globals w) = map gce_id globals"
    "map (\<lambda>g. valueType (gst_value g)) (cw_globals w) = map (\<lambda>e. valueType (gce_initialValue e)) globals"
    unfolding createWeatherWorld_ok
    by (auto simp: world_ok_def journal_part_ok_def faction_part_ok_def catalogs_ok_def split: if_splits)
qed

lemma restoreWorld_ok:
  assumes "map gst_id gs = map gce_id globals" and "map (\<lambda>g. valueType (gst_value g)) gs = map (\<lambda>e. valueType (gce_initialValue e)) globals"
  shows "restoreWorld globals time gs = mutated (createWorld time gs)"
proof -
  have len: "length globals = length gs" using assms(1) by (metis length_map)
  moreover have "list_all2 (\<lambda>e g. gce_id e = gst_id g \<and> valueType (gce_initialValue e) = valueType (gst_value g)) globals gs"
    unfolding list_all2_conv_all_nth
  proof (intro conjI allI impI)
    fix i assume "i < length globals"
    with len have i: "i < length globals" "i < length gs" by simp_all
    from arg_cong [OF assms(1), of "\<lambda>xs. xs ! i"] i show "gce_id (globals ! i) = gst_id (gs ! i)" by simp
    from arg_cong [OF assms(2), of "\<lambda>xs. xs ! i"] i
    show "valueType (gce_initialValue (globals ! i)) = valueType (gst_value (gs ! i))" by simp
  qed (fact len)
  ultimately show ?thesis by (simp add: restoreWorld_def)
qed

lemma restoreWeatherWorld_ok:
  assumes ok: "world_ok w" and parts: "cw_questJournalCatalog w = Some qc" "cw_factionDialogueCatalog w = Some fc" "cw_weatherCatalog w = Some wc"
    and globals: "map gst_id (cw_globals w) = map gce_id globals"
      "map (\<lambda>g. valueType (gst_value g)) (cw_globals w) = map (\<lambda>e. valueType (gce_initialValue e)) globals"
  shows "restoreWeatherWorld globals qc fc wc (cw_time w) (cw_globals w) qc fc wc (cw_questJournal w) (cw_factionStates w) (the (cw_weather w)) = Inr w"
proof -
  from ok parts obtain we where we: "cw_weather w = Some we" "validWeatherState wc we" "qjc_manifest qc = fdc_manifest fc" "qjc_manifest qc = wc_manifest wc"
    by (auto simp: world_ok_def catalogs_ok_def split: option.splits)
  have base: "restoreWorld globals (cw_time w) (cw_globals w) = Inr \<lparr>cw_time = cw_time w, cw_globals = cw_globals w,
      cw_questJournalCatalog = None, cw_questJournal = [], cw_factionDialogueCatalog = None, cw_factionStates = [], cw_weatherCatalog = None, cw_weather = None\<rparr>"
    using ok by (simp add: restoreWorld_ok [OF globals] mutated_def createWorld_ok world_ok_def)
  have "restoreWeatherWorld globals qc fc wc (cw_time w) (cw_globals w) qc fc wc (cw_questJournal w) (cw_factionStates w) (the (cw_weather w))
      = Inr \<lparr>cw_time = cw_time w, cw_globals = cw_globals w, cw_questJournalCatalog = Some qc, cw_questJournal = cw_questJournal w,
          cw_factionDialogueCatalog = Some fc, cw_factionStates = cw_factionStates w, cw_weatherCatalog = Some wc, cw_weather = Some we\<rparr>"
    using ok we(2-) parts unfolding restoreWeatherWorld_def restoreFactionWorld_def base we(1)
    by (simp add: restored_def createFactionWorld_ok createWeatherWorld_ok world_ok_def journal_part_ok_def faction_part_ok_def)
  also have "\<dots> = Inr w" using parts we(1) by (cases w) simp
  finally show ?thesis .
qed

section \<open>A small world\<close>

text \<open>One global variable, one quest with a journal entry, one faction and one region, on which the properties are instantiated.\<close>

definition sampleManifest :: ContentManifestId where
  "sampleManifest = replicate 32 7"

definition sampleTime :: CanonicalWorldTimeState where
  "sampleTime = \<lparr>wt_day = 16, wt_month = 7, wt_year = 427, wt_millisecondsSinceMidnight = 32400000, wt_timeScaleUnits = 30000,
     wt_subMillisecondRemainder = 250, wt_revision = 1, wt_lastChangeTick = 0, wt_lastAdvanceTick = 0, wt_daysPassed = None\<rparr>"

definition sampleGlobals :: GlobalVariableCatalog where
  "sampleGlobals = [\<lparr>gce_id = 3, gce_initialValue = ShortValue 1\<rparr>]"

definition sampleQuests :: QuestJournalCatalog where
  "sampleQuests = \<lparr>qjc_manifest = sampleManifest, qjc_quests = [\<lparr>qce_id = 11, qce_initialStage = 1, qce_stages = [1, 10, 20]\<rparr>],
     qjc_journal = [\<lparr>jce_id = 31, jce_quest = 11, jce_stage = 10\<rparr>]\<rparr>"

definition sampleFactions :: FactionDialogueCatalog where
  "sampleFactions = \<lparr>fdc_manifest = sampleManifest, fdc_factions = [\<lparr>fce_id = 21, fce_ranks = [1, 2]\<rparr>], fdc_dialogueChoices = []\<rparr>"

definition sampleRegion :: WeatherRegionCatalogEntry where
  "sampleRegion = \<lparr>wce_id = 41, wce_initialWeather = 1, wce_selectionIntervalTicks = 100, wce_transitionDurationTicks = 20, wce_eligibleWeather = [1, 2]\<rparr>"

definition sampleWeather :: WeatherCatalog where
  "sampleWeather = \<lparr>wc_manifest = sampleManifest, wc_weather = [1, 2, 3], wc_regions = [sampleRegion]\<rparr>"

definition sampleRandom :: RandomStateV1 where
  "sampleRandom = \<lparr>word0 = 1, word1 = 2, word2 = 3, word3 = 4\<rparr>"

definition sampleWorld :: CanonicalWorldState where
  "sampleWorld = \<lparr>cw_time = sampleTime, cw_globals = [\<lparr>gst_id = 3, gst_value = ShortValue 1, gst_revision = 1, gst_lastChangeTick = 0\<rparr>],
     cw_questJournalCatalog = Some sampleQuests, cw_questJournal = [], cw_factionDialogueCatalog = Some sampleFactions, cw_factionStates = [],
     cw_weatherCatalog = Some sampleWeather,
     cw_weather = Some \<lparr>ws_regions = [\<lparr>wrs_region = 41, wrs_currentWeather = 1, wrs_targetWeather = 1, wrs_transitionStartTick = 0,
         wrs_transitionEndTick = 0, wrs_nextSelectionTick = 100, wrs_revision = 1, wrs_lastChangeTick = 0\<rparr>],
       ws_randomState = sampleRandom, ws_lastAdvanceTick = 0, ws_nativeEnvironment = []\<rparr>\<rparr>"

lemma sampleWorld_initial: "initialWeatherWorld sampleTime sampleGlobals sampleQuests sampleFactions sampleWeather sampleRandom = Some sampleWorld"
proof -
  have time: "validTime sampleTime" by code_simp
  have tick: "wt_lastAdvanceTick sampleTime = 0" by (simp add: sampleTime_def)
  have globals: "initialGlobals sampleTime sampleGlobals = [\<lparr>gst_id = 3, gst_value = ShortValue 1, gst_revision = 1, gst_lastChangeTick = 0\<rparr>]"
    by (simp add: initialGlobals_def sampleGlobals_def sampleTime_def initial_def)
  have valid_globals: "globals_ok [\<lparr>gst_id = 3, gst_value = ShortValue 1, gst_revision = 1, gst_lastChangeTick = 0\<rparr>]"
    by (simp add: globals_ok_def MaximumGlobalVariables_def)
  have base: "initialFactionWorld sampleTime sampleGlobals sampleQuests sampleFactions =
    Some (sampleWorld\<lparr>cw_weatherCatalog := None, cw_weather := None\<rparr>)"
    using time valid_globals
    by (simp add: initialFactionWorld_def initialWorld_def globals createWorld_ok createFactionWorld_ok sampleWorld_def validQuestJournalState_iff
        validFactionState_iff sampleQuests_def sampleFactions_def)
  have regions: "initialRegions 0 (wc_regions sampleWeather) = Some (ws_regions (the (cw_weather sampleWorld)))"
    by (simp add: sampleWeather_def sampleRegion_def sampleWorld_def addTicks_def u64_max_def initial_def)
  have weather: "validWeatherState sampleWeather (the (cw_weather sampleWorld))"
    by (simp add: validWeatherState_def sampleWeather_def sampleRegion_def sampleWorld_def validRegion_def eligible_def MaximumNativeEnvironmentBytes_def)
  show ?thesis
    using time valid_globals weather unfolding initialWeatherWorld_def base option.case tick regions
    by (simp add: createWeatherWorld_ok validQuestJournalState_iff validFactionState_iff)
      (simp add: sampleWorld_def sampleQuests_def sampleFactions_def sampleWeather_def)
qed

lemma sampleWorld_ok: "world_ok sampleWorld"
  by (rule initialWeatherWorld_ok(1) [OF sampleWorld_initial])

text \<open>A journal entry for player seven.\<close>

definition sampleJournalWorld :: CanonicalWorldState where
  "sampleJournalWorld = sampleWorld\<lparr>cw_questJournal := [\<lparr>pqj_player = 7, pqj_quests = [],
     pqj_journal = [\<lparr>jst_id = 31, jst_revision = 2, jst_changeTick = 5\<rparr>], pqj_journalRevision = 2, pqj_lastJournalChangeTick = 5\<rparr>]\<rparr>"

lemma sampleJournal_step: "mutate (AddJournalEntry 7 11 1 31 5) sampleWorld = Some (Inr sampleJournalWorld)"
proof -
  have "validQuestJournalState sampleQuests (cw_questJournal sampleJournalWorld)"
    by (simp add: validQuestJournalState_iff journal_row_ok_def validPlayerQuestJournal_def sampleJournalWorld_def sampleQuests_def findJournalEntry_def
        next_value_def u64_max_def initial_def MaximumPlayerQuestJournalStates_def MaximumCanonicalJournalEntries_def)
  moreover have c: "cw_questJournalCatalog sampleWorld = Some sampleQuests" by (simp add: sampleWorld_def)
  ultimately have new: "recreateWorld sampleWorld (cw_time sampleWorld) (cw_globals sampleWorld) (cw_questJournal sampleJournalWorld)
      (cw_factionStates sampleWorld) = Some sampleJournalWorld"
    using recreate_quests(1) [OF sampleWorld_ok c] by (simp add: sampleJournalWorld_def)
  have "findQuest sampleQuests 11 \<noteq> None" "findJournalEntry sampleQuests 31 = Some \<lparr>jce_id = 31, jce_quest = 11, jce_stage = 10\<rparr>"
    by code_simp+
  moreover have "playerRow pqj_player (freshQuestJournal 7) (cw_questJournal sampleWorld) = freshQuestJournal 7"
    "storeRow pqj_player r (cw_questJournal sampleWorld) = [r]" for r
    by (simp_all add: playerRow_def storeRow_def sampleWorld_def lookup_key_def find_key_def insert_key_def lower_bound_def insert_at_def)
  ultimately show ?thesis using new
    by (simp add: addCanonicalJournalEntry_def c Let_def freshQuestJournal_def initial_def next_value_def u64_max_def mutated_def sampleJournalWorld_def)
qed

lemma sampleJournal_reached: "mutated_to sampleWorld sampleJournalWorld"
  by (rule mutated_step [OF mutated_none sampleJournal_step])

section \<open>What holds of every world that is reached\<close>

text \<open>C9. A world reached from an initial one by any sequence of mutations is restored exactly from its own stored parts.\<close>

theorem world_restore_roundtrip:
  assumes "initialWeatherWorld time globals qc fc wc random = Some w\<^sub>0" and "mutated_to w\<^sub>0 w"
  shows "restoreWeatherWorld globals qc fc wc (cw_time w) (cw_globals w) qc fc wc (cw_questJournal w) (cw_factionStates w) (the (cw_weather w)) = Inr w"
proof -
  note start = initialWeatherWorld_ok [OF assms(1)]
  from mutated_to_evolves [OF assms(2) start(1)] show ?thesis
    using start by (intro restoreWeatherWorld_ok) (simp_all add: evolves_def)
qed

theorem world_restore_roundtrip_witness:
  "restoreWeatherWorld sampleGlobals sampleQuests sampleFactions sampleWeather (cw_time sampleJournalWorld) (cw_globals sampleJournalWorld)
     sampleQuests sampleFactions sampleWeather (cw_questJournal sampleJournalWorld) (cw_factionStates sampleJournalWorld)
     (the (cw_weather sampleJournalWorld)) = Inr sampleJournalWorld"
  by (rule world_restore_roundtrip [OF sampleWorld_initial sampleJournal_reached])

text \<open>C28. Over any sequence of mutations of a valid world, the journal of every player only grows at its end.\<close>

theorem journals_append_only:
  assumes "world_ok w" and "mutated_to w w'"
  shows "prefix (journalOf w p) (journalOf w' p)"
  using mutated_to_evolves [OF assms(2,1)] by (simp add: evolves_def)

theorem journals_append_only_witness: "prefix (journalOf sampleWorld 7) (journalOf sampleJournalWorld 7) \<and> journalOf sampleJournalWorld 7 \<noteq> []"
proof -
  have "journalOf sampleJournalWorld 7 \<noteq> []" by code_simp
  with journals_append_only [OF sampleWorld_ok sampleJournal_reached, of 7] show ?thesis by simp
qed

text \<open>With the current revision, a later tick and room, setting a quest to another of its stages succeeds, and changes
  that quest of that player only.\<close>

theorem quest_stage_set:
  fixes p :: u64
  assumes ok: "world_ok w" and c: "cw_questJournalCatalog w = Some c" and d: "findQuest c q = Some d" and s: "containsStage d s"
    and e: "e = qst_revision (currentQuest w p q d)" "e \<noteq> 0" "next_value e = Some n"
    and t: "t \<noteq> 0" "qst_lastChangeTick (currentQuest w p q d) \<le> t" and change: "s \<noteq> qst_stage (currentQuest w p q d)"
    and room: "quest_room w p q"
  shows "\<exists>w'. setCanonicalQuestStage w p q e s t = Inr w'
    \<and> (\<forall>p' q'. questOf w' p' q' = (if p' = p \<and> q' = q then Some \<lparr>qst_id = q, qst_stage = s, qst_revision = n, qst_lastChangeTick = t\<rparr>
                                     else questOf w p' q'))
    \<and> (\<forall>p'. journalOf w' p' = journalOf w p') \<and> w'\<lparr>cw_questJournal := cw_questJournal w\<rparr> = w"
proof -
  let ?x = "currentQuest w p q d"
  let ?y = "?x\<lparr>qst_stage := s, qst_revision := n, qst_lastChangeTick := t\<rparr>"
  note new = setCanonicalQuestStage_succeeds [OF ok c d s e t change room]
  have y: "?y = \<lparr>qst_id = q, qst_stage = s, qst_revision = n, qst_lastChangeTick = t\<rparr>" using currentQuest_id [of w p q d] by (cases ?x) simp
  show ?thesis
    using new(1) questOf_with_quest [OF ok c new(3)] journalOf_with_quest [OF ok c] unfolding y by (auto simp: with_quest_def)
qed

theorem quest_stage_set_witness:
  "\<exists>w'. setCanonicalQuestStage sampleWorld 7 11 1 20 5 = Inr w'
    \<and> questOf w' 7 11 = Some \<lparr>qst_id = 11, qst_stage = 20, qst_revision = 2, qst_lastChangeTick = 5\<rparr>"
proof -
  have d: "findQuest sampleQuests 11 = Some \<lparr>qce_id = 11, qce_initialStage = 1, qce_stages = [1, 10, 20]\<rparr>" by code_simp
  have c: "cw_questJournalCatalog sampleWorld = Some sampleQuests" by (simp add: sampleWorld_def)
  have x: "currentQuest sampleWorld 7 11 \<lparr>qce_id = 11, qce_initialStage = 1, qce_stages = [1, 10, 20]\<rparr>
      = \<lparr>qst_id = 11, qst_stage = 1, qst_revision = 1, qst_lastChangeTick = 0\<rparr>" by code_simp
  have "quest_room sampleWorld 7 11" by code_simp
  then show ?thesis
    using quest_stage_set [OF sampleWorld_ok c d, of 20 1 7 2 5] unfolding x by (fastforce simp: containsStage_def next_value_def u64_max_def)
qed

end
