(* ===== verification/World_Clock.thy ===== *)
theory World_Clock
  imports World_Properties
begin

text \<open>
  The clock of the world: the time of a valid state as a number of thousandths of a millisecond since the
  first day of year zero, and that advancing by ticks moves it by exactly the scaled time that passed.
\<close>

section \<open>Time as a number\<close>

definition dayNumber :: "CanonicalWorldTimeState \<Rightarrow> nat" where
  "dayNumber t = nat (sint (wt_year t)) * 360 + unat (wt_month t) * 30 + unat (wt_day t) - 1"

definition clock :: "CanonicalWorldTimeState \<Rightarrow> nat" where
  "clock t = (dayNumber t * 86400000 + unat (wt_millisecondsSinceMidnight t)) * 1000 + unat (wt_subMillisecondRemainder t)"

lemma unat_ucast_mod: "unat (ucast (w :: 'a::len word) :: 'b::len word) = unat w mod 2 ^ LENGTH('b)"
  by (simp add: unsigned_ucast_eq unsigned_take_bit_eq take_bit_eq_mod)

lemma unat_ucast_fits: "unat (w :: 'a::len word) < 2 ^ LENGTH('b) \<Longrightarrow> unat (ucast w :: 'b::len word) = unat w"
  by (simp add: unat_ucast_mod)

lemma unat_small_widened [simp]:
  "unat (ucast (b :: u8) :: u64) = unat b" "unat (ucast (r :: u16) :: u64) = unat r" "unat (ucast (r :: u16) :: u32) = unat r"
proof -
  have "unat b < 2 ^ LENGTH(8)" "unat r < 2 ^ LENGTH(16)" by (rule unsigned_less)+
  then show "unat (ucast b :: u64) = unat b" "unat (ucast r :: u64) = unat r" "unat (ucast r :: u32) = unat r"
    by (simp_all add: unat_ucast_fits)
qed

lemma validTime_bounds:
  assumes "validTime t"
  shows "1 \<le> unat (wt_day t)" "unat (wt_day t) \<le> 31" "unat (wt_month t) \<le> 11" "0 \<le> sint (wt_year t)"
    "unat (wt_millisecondsSinceMidnight t) < 86400000" "unat (wt_timeScaleUnits t) \<le> 1000000" "unat (wt_subMillisecondRemainder t) < 1000"
  using assms by (simp_all add: validTime_def word_less_nat_alt word_le_nat_alt
      WorldMillisecondsPerDay_def WorldMillisecondsPerHour_def MaximumWorldTimeScaleUnits_def WorldTimeScaleUnitsPerOne_def)

lemma unat_scast_year:
  fixes y :: i32
  assumes "0 \<le> sint y"
  shows "unat (scast y :: u64) = nat (sint y)"
proof -
  have "sint y < 2 ^ 31" using sint_lt [of y] by simp
  then have "sint y < 2 ^ 64" by simp
  moreover have "uint (scast y :: u64) = sint y mod 2 ^ LENGTH(64)" by (simp only: scast_eq uint_word_of_int)
  ultimately have "uint (scast y :: u64) = sint y" using assms by simp
  then show ?thesis by (simp add: unat_eq_nat_uint)
qed

lemma signed_residue:
  fixes u s :: int
  assumes "u = s mod 4294967296" and "- 2147483648 \<le> s" and "s < 2147483648"
  shows "0 \<le> s \<longleftrightarrow> u < 2147483648" "u < 2147483648 \<Longrightarrow> s = u"
proof -
  have "u = (if 0 \<le> s then s else s + 4294967296)"
  proof (cases "0 \<le> s")
    case True
    with assms show ?thesis by simp
  next
    case False
    have "u = (s + 4294967296) mod 4294967296" unfolding assms(1) by (simp only: mod_add_self2)
    also have "\<dots> = s + 4294967296" using False assms(2) by (intro mod_pos_pos_trivial) simp_all
    finally show ?thesis using False by simp
  qed
  with assms(2,3) show "0 \<le> s \<longleftrightarrow> u < 2147483648" "u < 2147483648 \<Longrightarrow> s = u" by (simp_all split: if_splits)
qed

lemma year_sign:
  fixes y :: i32
  shows "0 \<le> sint y \<longleftrightarrow> unat y < 2 ^ 31" "unat y < 2 ^ 31 \<Longrightarrow> nat (sint y) = unat y"
proof -
  have mod: "uint y = sint y mod 4294967296" using uint_sint [of y] by (simp add: take_bit_eq_mod)
  have range: "- 2147483648 \<le> sint y" "sint y < 2147483648" using sint_ge [of y] sint_lt [of y] by simp_all
  note residue = signed_residue [OF mod range]
  have "unat y < 2147483648 \<longleftrightarrow> int (unat y) < 2147483648" by linarith
  then have small: "uint y < 2147483648 \<longleftrightarrow> unat y < 2 ^ 31" unfolding uint_nat by simp
  show "0 \<le> sint y \<longleftrightarrow> unat y < 2 ^ 31" unfolding residue(1) small ..
  show "nat (sint y) = unat y" if "unat y < 2 ^ 31"
  proof -
    from that small have "uint y < 2147483648" by (rule iffD2 [rotated])
    then have "sint y = uint y" by (rule residue(2))
    then show ?thesis unfolding unat_eq_nat_uint by (rule arg_cong)
  qed
qed

lemma nat_sint_year: "nat (sint (y :: i32)) < 2 ^ 31"
  using sint_lt [of y] by simp

lemma unat_currentDay:
  assumes "validTime t"
  shows "unat (currentDay t) = dayNumber t"
proof -
  note b = validTime_bounds [OF assms]
  have small: "nat (sint (wt_year t)) < 2147483648" using nat_sint_year [of "wt_year t"] by simp
  have y: "unat (scast (wt_year t) * 360 :: u64) = nat (sint (wt_year t)) * 360"
    using small by (subst unat_times_no_wrap) (simp_all add: unat_scast_year [OF b(4)])
  have m: "unat (ucast (wt_month t) * 30 :: u64) = unat (wt_month t) * 30"
    using b(3) by (subst unat_times_no_wrap) simp_all
  have ym: "unat (scast (wt_year t) * 360 + ucast (wt_month t) * 30 :: u64) = nat (sint (wt_year t)) * 360 + unat (wt_month t) * 30"
    using small b(3) y m by (subst unat_plus_no_wrap) simp_all
  have ymd: "unat (scast (wt_year t) * 360 + ucast (wt_month t) * 30 + ucast (wt_day t) :: u64)
      = nat (sint (wt_year t)) * 360 + unat (wt_month t) * 30 + unat (wt_day t)"
    using small b(2,3) ym by (subst unat_plus_no_wrap) simp_all
  have "1 \<le> (scast (wt_year t) * 360 + ucast (wt_month t) * 30 + ucast (wt_day t) :: u64)" using b(1) ymd by (simp add: word_le_nat_alt)
  then show ?thesis unfolding currentDay_def dayNumber_def by (simp add: unat_minus_le ymd)
qed

lemma unat_lastDay: "unat lastDay = 773094113279"
  by (simp add: lastDay_def)

text \<open>A day that the calendar can name is the one written.\<close>

lemma setDate_valid:
  assumes "unat d \<le> unat lastDay"
  shows "nat (sint (wt_year (setDate d t))) = unat d div 360" "0 \<le> sint (wt_year (setDate d t))"
    "unat (wt_month (setDate d t)) = unat d mod 360 div 30" "unat (wt_day (setDate d t)) = unat d mod 30 + 1"
proof -
  have year: "unat d div 360 < 2 ^ 31" using assms by (simp add: unat_lastDay)
  then have y: "unat (ucast (d div 360) :: i32) = unat d div 360" by (subst unat_ucast_fits) (simp_all add: unat_div)
  with year show "nat (sint (wt_year (setDate d t))) = unat d div 360" "0 \<le> sint (wt_year (setDate d t))"
    by (simp_all add: setDate_def year_sign)
  have "unat d mod 360 div 30 < 12" by (simp add: div_less_iff_less_mult)
  then show "unat (wt_month (setDate d t)) = unat d mod 360 div 30"
    by (simp add: setDate_def unat_ucast_mod unat_div unat_mod)
  have less: "unat d mod 30 < 30" by simp
  then have "unat (d mod 30 + 1) = unat d mod 30 + 1" by (subst unat_plus_no_wrap) (simp_all add: unat_mod)
  with less show "unat (wt_day (setDate d t)) = unat d mod 30 + 1" by (simp add: setDate_def unat_ucast_mod)
qed

lemma dayNumber_setDate:
  assumes "unat d \<le> unat lastDay"
  shows "dayNumber (setDate d t) = unat d"
proof -
  have "unat d mod 30 = (unat d mod 360) mod 30" by (simp add: mod_mod_cancel)
  then have "unat d mod 360 div 30 * 30 + unat d mod 30 = unat d mod 360" by (metis div_mult_mod_eq)
  moreover have "unat d div 360 * 360 + unat d mod 360 = unat d" by simp
  ultimately show ?thesis unfolding dayNumber_def setDate_valid [OF assms] by linarith
qed

section \<open>Advancing\<close>

lemma clock_advance:
  fixes sum scaled :: nat
  assumes valid: "validTime t" and t': "dayNumber t' = dayNumber t + sum div 86400000"
    "unat (wt_millisecondsSinceMidnight t') = sum mod 86400000" "unat (wt_subMillisecondRemainder t') = scaled mod 1000"
    and "sum = unat (wt_millisecondsSinceMidnight t) + scaled div 1000"
  shows "clock t' + unat (wt_subMillisecondRemainder t) = clock t + scaled"
proof -
  have "sum div 86400000 * 86400000 + sum mod 86400000 = sum" by simp
  moreover have "scaled div 1000 * 1000 + scaled mod 1000 = scaled" by simp
  ultimately show ?thesis unfolding clock_def t' using assms(5) by (simp add: add_mult_distrib add_mult_distrib2)
qed

lemma milliseconds_fit: "x mod 86400000 < (2::nat) ^ 32" "x mod 1000 < (2::nat) ^ 16"
  using mod_less_divisor [of 86400000 x] mod_less_divisor [of 1000 x] by simp_all

lemma product_fits: "\<not> (b \<noteq> 0 \<and> m div b < a) \<Longrightarrow> unat (a :: u64) * unat b \<le> unat m"
proof (cases "b = 0")
  case False
  assume "\<not> (b \<noteq> 0 \<and> m div b < a)"
  with False have "unat a \<le> unat m div unat b" by (simp add: word_less_nat_alt unat_div)
  then have "unat a * unat b \<le> unat m div unat b * unat b" by simp
  also have "\<dots> \<le> unat m" by simp
  finally show ?thesis .
qed simp

lemma scaled_fits:
  fixes a b s r :: u64
  assumes "\<not> (b \<noteq> 0 \<and> u64_max div b < a)" and "\<not> (s \<noteq> 0 \<and> (u64_max - r) div s < a * b)"
  shows "unat (a * b * s + r) = unat a * unat b * unat s + unat r"
proof -
  have "unat a * unat b \<le> 2 ^ 64 - 1" using product_fits [OF assms(1)] by simp
  then have ab: "unat (a * b) = unat a * unat b" by (subst unat_times_no_wrap) simp_all
  have "unat (a * b) * unat s \<le> 2 ^ 64 - 1 - unat r" using product_fits [OF assms(2)] by (simp add: unat_u64_max_minus)
  then have abs: "unat (a * b) * unat s + unat r < 2 ^ 64" using unat_lt_u64 [of r] by (simp del: unat_lt_u64)
  then have "unat (a * b * s) = unat (a * b) * unat s" by (subst unat_times_no_wrap) simp_all
  with ab abs show ?thesis by (subst unat_plus_no_wrap) simp_all
qed

text \<open>A date that is valid was computed from a day the calendar can name.\<close>

lemma setDate_year_valid:
  assumes "unat d < 2 ^ 32 * 360" and "0 \<le> sint (wt_year (setDate d t))"
  shows "unat d \<le> unat lastDay"
proof -
  have "unat (ucast (d div 360) :: i32) < 2 ^ 31" using assms(2) by (simp add: setDate_def year_sign)
  moreover have "unat (ucast (d div 360) :: i32) = unat d div 360"
    using assms(1) by (subst unat_ucast_fits) (simp_all add: unat_div less_mult_imp_div_less)
  ultimately have "unat d div 360 \<le> 2147483647" by simp
  then show ?thesis unfolding unat_lastDay using mod_less_divisor [of 360 "unat d"] div_mult_mod_eq [of "unat d" 360] by linarith
qed

lemma dayNumber_less: "validTime t \<Longrightarrow> dayNumber t < 773094113281"
  using validTime_bounds(2,3) [of t] nat_sint_year [of "wt_year t"] by (simp add: dayNumber_def)

lemma dayNumber_add:
  assumes valid: "validTime t" and days: "unat days < 2 ^ 38" and year: "0 \<le> sint (wt_year (setDate (currentDay t + days) s))"
  shows "dayNumber (setDate (currentDay t + days) s) = dayNumber t + unat days"
proof -
  have "unat (currentDay t + days) = dayNumber t + unat days"
    using dayNumber_less [OF valid] days by (subst unat_plus_no_wrap) (simp_all add: unat_currentDay [OF valid])
  moreover from this have "unat (currentDay t + days) \<le> unat lastDay"
    using dayNumber_less [OF valid] days by (intro setDate_year_valid [OF _ year]) simp
  ultimately show ?thesis by (simp add: dayNumber_setDate)
qed

lemma world_constants [simp]:
  "(ucast WorldMillisecondsPerDay :: u64) = 86400000" "(ucast WorldMillisecondsPerHour :: u64) = 3600000" "(ucast WorldTimeScaleUnitsPerOne :: u64) = 1000"
  by (simp_all add: WorldMillisecondsPerDay_def WorldMillisecondsPerHour_def WorldTimeScaleUnitsPerOne_def)

lemma unat_div_1000: "unat ((x :: u64) div 1000) = unat x div 1000"
  by (simp add: unat_div)

lemma unat_mod_narrow: "unat ((x :: u64) mod 86400000) < 2 ^ 32" "unat ((x :: u64) mod 1000) < 2 ^ 16"
  using milliseconds_fit [of "unat x"] by (simp_all add: unat_mod)

text \<open>The new time where the world clock moves at all.\<close>

definition movedTime :: "CanonicalWorldTimeState \<Rightarrow> u64 \<Rightarrow> u64 \<Rightarrow> ServerTick \<Rightarrow> CanonicalWorldTimeState \<Rightarrow> WorldTimeRevision \<Rightarrow> CanonicalWorldTimeState" where
  "movedTime t days ms tick base revision = (setDate (currentDay t + days) base)
     \<lparr>wt_millisecondsSinceMidnight := ucast (ms mod 86400000), wt_revision := revision, wt_lastChangeTick := tick\<rparr>"

lemma clock_moved:
  assumes valid: "validTime t" and new: "validTime (movedTime t (ms div 86400000) ms tick base revision)"
    and ms: "unat ms = unat (wt_millisecondsSinceMidnight t) + scaled div 1000" and rem: "unat (wt_subMillisecondRemainder base) = scaled mod 1000"
  shows "clock (movedTime t (ms div 86400000) ms tick base revision) + unat (wt_subMillisecondRemainder t) = clock t + scaled"
proof (rule clock_advance [OF valid])
  have "unat (ms div 86400000) = unat ms div 86400000" by (simp add: unat_div)
  moreover have "unat ms div 86400000 < 2 ^ 38" using unat_lt_u64 [of ms] by (simp add: div_less_iff_less_mult del: unat_lt_u64)
  moreover have "0 \<le> sint (wt_year (setDate (currentDay t + ms div 86400000) base))"
    using validTime_bounds(4) [OF new] by (simp add: movedTime_def)
  ultimately have "dayNumber (setDate (currentDay t + ms div 86400000) base) = dayNumber t + unat ms div 86400000"
    using dayNumber_add [OF valid, of "ms div 86400000" base] by simp
  then show "dayNumber (movedTime t (ms div 86400000) ms tick base revision) = dayNumber t + unat ms div 86400000"
    by (simp add: movedTime_def dayNumber_def)
  show "unat (wt_millisecondsSinceMidnight (movedTime t (ms div 86400000) ms tick base revision)) = unat ms mod 86400000"
    using unat_mod_narrow(1) [of ms] by (simp add: movedTime_def unat_ucast_fits unat_mod)
  show "unat (wt_subMillisecondRemainder (movedTime t (ms div 86400000) ms tick base revision)) = scaled mod 1000"
    by (simp add: movedTime_def setDate_def rem)
qed (rule ms)

lemma recreated_time:
  assumes "world_ok w" and "mutated (recreateWorld w t (cw_globals w) (cw_questJournal w) (cw_factionStates w)) = Inr w'"
  shows "cw_time w' = t" "validTime t"
  using mutated_recreate [OF assms] world_okD [OF assms(1)] by (simp_all add: world_ok_def)

text \<open>C16. Advancing a valid world to a tick moves its clock by exactly the ticks that passed, times the interval, times the time
  scale: no millisecond is lost in the remainder, no day in the calendar, and nothing wraps.\<close>

theorem world_time_exact:
  assumes ok: "world_ok w" and adv: "advanceCanonicalWorldTime w tick interval = Inr w'"
  shows "clock (cw_time w') = clock (cw_time w)
    + (unat tick - unat (wt_lastAdvanceTick (cw_time w))) * unat interval * unat (wt_timeScaleUnits (cw_time w))"
proof (cases "tick = wt_lastAdvanceTick (cw_time w)")
  case True
  with adv have "w' = w" by (auto simp: advanceCanonicalWorldTime_def Let_def split: if_splits)
  with True show ?thesis by simp
next
  case False
  let ?t = "cw_time w"
  let ?e = "tick - wt_lastAdvanceTick ?t"
  let ?scaled = "?e * interval * ucast (wt_timeScaleUnits ?t) + ucast (wt_subMillisecondRemainder ?t)"
  let ?base = "?t\<lparr>wt_subMillisecondRemainder := ucast (?scaled mod 1000), wt_lastAdvanceTick := tick\<rparr>"
  let ?ms = "ucast (wt_millisecondsSinceMidnight ?t) + ?scaled div 1000"
  have valid: "validTime ?t" using ok by (rule world_okD)
  from adv False have guards: "\<not> (interval \<noteq> 0 \<and> u64_max div interval < ?e)"
      "\<not> (wt_timeScaleUnits ?t \<noteq> 0 \<and> (u64_max - ucast (wt_subMillisecondRemainder ?t)) div ucast (wt_timeScaleUnits ?t) < ?e * interval)"
    and later: "wt_lastAdvanceTick ?t \<le> tick"
    by (auto simp: advanceCanonicalWorldTime_def Let_def not_less split: if_splits)
  have scale: "ucast (wt_timeScaleUnits ?t) \<noteq> (0 :: u64)" if "wt_timeScaleUnits ?t \<noteq> 0"
    using that by (metis unat_0 unat_eq_zero unat_ucast_u32)
  have scaled: "unat ?scaled = unat ?e * unat interval * unat (wt_timeScaleUnits ?t) + unat (wt_subMillisecondRemainder ?t)"
    using scaled_fits [OF guards(1), of "ucast (wt_timeScaleUnits ?t)" "ucast (wt_subMillisecondRemainder ?t)"] guards(2) scale
    by (cases "wt_timeScaleUnits ?t = 0") simp_all
  have rem: "unat (wt_subMillisecondRemainder ?base) = unat ?scaled mod 1000"
    using unat_mod_narrow(2) [of ?scaled] by (simp add: unat_ucast_fits unat_mod)
  have "clock (cw_time w') + unat (wt_subMillisecondRemainder ?t) = clock ?t + unat ?scaled"
  proof (cases "?scaled div 1000 = 0")
    case True
    with adv \<open>tick \<noteq> _\<close> have "mutated (recreateWorld w ?base (cw_globals w) (cw_questJournal w) (cw_factionStates w)) = Inr w'"
      by (simp add: advanceCanonicalWorldTime_def Let_def split: if_splits)
    from recreated_time(1) [OF ok this] rem have "clock (cw_time w') = (dayNumber ?t * 86400000 + unat (wt_millisecondsSinceMidnight ?t)) * 1000 + unat ?scaled mod 1000"
      by (simp add: clock_def dayNumber_def)
    moreover from True have "unat ?scaled div 1000 = 0" by (metis unat_0 unat_div_1000)
    ultimately show ?thesis by (simp add: clock_def)
  next
    case moved: False
    with adv False obtain revision where new: "mutated (recreateWorld w (movedTime ?t (?ms div 86400000) ?ms tick ?base revision)
          (cw_globals w) (cw_questJournal w) (cw_factionStates w)) = Inr w'"
      by (auto simp: advanceCanonicalWorldTime_def Let_def movedTime_def split: if_splits option.splits)
    have "unat ?ms = unat (wt_millisecondsSinceMidnight ?t) + unat ?scaled div 1000"
    proof -
      have "unat ?scaled div 1000 < 18446744073709552" by (subst div_less_iff_less_mult) (simp_all del: unat_lt_u64 add: less_trans [OF unat_lt_u64])
      with validTime_bounds(5) [OF valid] show ?thesis by (subst unat_plus_no_wrap) (simp_all add: unat_div_1000)
    qed
    from clock_moved [OF valid _ this rem] recreated_time [OF ok new] show ?thesis by simp
  qed
  with scaled later show ?thesis by (simp add: unat_minus_le)
qed

text \<open>A time that is valid can be the time of a valid world.\<close>

lemma recreate_time:
  assumes "world_ok w"
  shows "recreateWorld w t (cw_globals w) (cw_questJournal w) (cw_factionStates w) = (if validTime t then Some (w\<lparr>cw_time := t\<rparr>) else None)"
proof -
  note ok = world_okD [OF assms]
  have "recreateWorld w t (cw_globals w) (cw_questJournal w) (cw_factionStates w)
      = (if validTime t \<and> globals_ok (cw_globals w) \<and> journal_part_ok w (cw_questJournal w) \<and> faction_part_ok w (cw_factionStates w)
         then Some (w\<lparr>cw_time := t, cw_globals := cw_globals w, cw_questJournal := cw_questJournal w, cw_factionStates := cw_factionStates w\<rparr>) else None)"
    using ok(1,2) by (intro recreateWorld_ok [OF assms]) simp_all
  with ok(4-6) show ?thesis by simp
qed

lemma sampleTime_fields:
  "wt_millisecondsSinceMidnight sampleTime = 32400000" "wt_timeScaleUnits sampleTime = 30000" "wt_subMillisecondRemainder sampleTime = 250"
  "wt_revision sampleTime = 1" "wt_lastAdvanceTick sampleTime = 0" "currentDay sampleTime = 153945" "validTime sampleTime"
proof -
  show "currentDay sampleTime = 153945" "validTime sampleTime" by code_simp+
qed (simp_all add: sampleTime_def)

theorem world_time_exact_witness:
  "\<exists>w'. advanceCanonicalWorldTime sampleWorld 30 50 = Inr w' \<and> clock (cw_time w') = clock (cw_time sampleWorld) + 30 * 50 * 30000"
proof -
  have owned: "\<not> nativeEnvironmentOwned sampleWorld" by (simp add: nativeEnvironmentOwned_def sampleWorld_def)
  have time: "cw_time sampleWorld = sampleTime" by (simp add: sampleWorld_def)
  have "validTime ((setDate 153945 (sampleTime\<lparr>wt_subMillisecondRemainder := 250, wt_lastAdvanceTick := 30\<rparr>))
      \<lparr>wt_millisecondsSinceMidnight := 32445000, wt_revision := 2, wt_lastChangeTick := 30\<rparr>)" by code_simp
  then obtain w' where w': "advanceCanonicalWorldTime sampleWorld 30 50 = Inr w'"
    using owned
    by (simp add: advanceCanonicalWorldTime_def Let_def recreate_time [OF sampleWorld_ok] mutated_def time sampleTime_fields u64_max_def next_value_def lastDay_def)
  from world_time_exact [OF sampleWorld_ok w'] w' show ?thesis by (simp add: time sampleTime_fields)
qed

text \<open>Waiting or resting some hours moves the clock by exactly those hours, whatever the time scale.\<close>

theorem world_hours_exact:
  assumes ok: "world_ok w" and adv: "advanceCanonicalWorldTimeByHours w tick hours = Inr w'"
  shows "clock (cw_time w') = clock (cw_time w) + unat hours * 3600000 * 1000"
proof -
  let ?t = "cw_time w"
  let ?ms = "ucast (wt_millisecondsSinceMidnight ?t) + ucast hours * 3600000 :: u64"
  let ?base = "?t\<lparr>wt_lastAdvanceTick := tick\<rparr>"
  let ?scaled = "unat hours * 3600000 * 1000 + unat (wt_subMillisecondRemainder ?t)"
  have valid: "validTime ?t" using ok by (rule world_okD)
  have "unat hours < 2 ^ LENGTH(8)" by (rule unsigned_less)
  then have hours: "unat (ucast hours * 3600000 :: u64) = unat hours * 3600000" by (subst unat_times_no_wrap) simp_all
  have ms: "unat ?ms = unat (wt_millisecondsSinceMidnight ?t) + ?scaled div 1000"
    using validTime_bounds(5,7) [OF valid] hours \<open>unat hours < 2 ^ LENGTH(8)\<close> by (subst unat_plus_no_wrap) simp_all
  have "(setDate d ?t)\<lparr>wt_millisecondsSinceMidnight := ms, wt_revision := n, wt_lastChangeTick := tick, wt_lastAdvanceTick := tick\<rparr>
      = (setDate d ?base)\<lparr>wt_millisecondsSinceMidnight := ms, wt_revision := n, wt_lastChangeTick := tick\<rparr>" for d ms n
    by (simp add: setDate_def)
  with adv obtain revision where "mutated (recreateWorld w (movedTime ?t (?ms div 86400000) ?ms tick ?base revision)
      (cw_globals w) (cw_questJournal w) (cw_factionStates w)) = Inr w'"
    by (auto simp: advanceCanonicalWorldTimeByHours_def Let_def movedTime_def split: if_splits option.splits)
  note new = recreated_time [OF ok this]
  have "?scaled = unat (wt_subMillisecondRemainder ?t) + 1000 * (unat hours * 3600000)" by simp
  then have scaled: "?scaled mod 1000 = unat (wt_subMillisecondRemainder ?t)" using validTime_bounds(7) [OF valid] by (simp only: mod_mult_self2 mod_less)
  have "clock (cw_time w') + unat (wt_subMillisecondRemainder ?t) = clock ?t + ?scaled"
    unfolding new(1) by (rule clock_moved [OF valid new(2) ms], subst scaled) simp
  then show ?thesis by simp
qed

theorem world_hours_exact_witness:
  "\<exists>w'. advanceCanonicalWorldTimeByHours sampleWorld 9 24 = Inr w' \<and> clock (cw_time w') = clock (cw_time sampleWorld) + 24 * 3600000 * 1000"
proof -
  have owned: "\<not> nativeEnvironmentOwned sampleWorld" by (simp add: nativeEnvironmentOwned_def sampleWorld_def)
  have time: "cw_time sampleWorld = sampleTime" by (simp add: sampleWorld_def)
  have "validTime ((setDate 153946 sampleTime)
      \<lparr>wt_millisecondsSinceMidnight := 32400000, wt_revision := 2, wt_lastChangeTick := 9, wt_lastAdvanceTick := 9\<rparr>)" by code_simp
  then obtain w' where w': "advanceCanonicalWorldTimeByHours sampleWorld 9 24 = Inr w'"
    using owned
    by (simp add: advanceCanonicalWorldTimeByHours_def Let_def recreate_time [OF sampleWorld_ok] mutated_def time sampleTime_fields u64_max_def next_value_def lastDay_def
        MaximumWaitRestHours_def)
  from world_hours_exact [OF sampleWorld_ok w'] w' show ?thesis by (simp add: time)
qed

text \<open>The calendar counts thirty days a month, but a stored thirty-first is valid: it is the first of the following month.\<close>

lemma thirty_first_is_next_month:
  assumes valid: "validTime t" and "unat (wt_day t) = 31" and "unat (wt_month t) < 11"
  shows "unat (wt_day (setDate (currentDay t) t)) = 1" "unat (wt_month (setDate (currentDay t) t)) = unat (wt_month t) + 1"
proof -
  define y m where "y = nat (sint (wt_year t))" and "m = unat (wt_month t)"
  have day: "unat (currentDay t) = (y * 12 + (m + 1)) * 30"
    using assms(2) by (simp add: unat_currentDay [OF valid] dayNumber_def y_def m_def)
  have "y < 2147483648" using nat_sint_year [of "wt_year t"] by (simp add: y_def)
  then have "y * 360 \<le> 2147483647 * 360" by simp
  moreover have "unat (currentDay t) = y * 360 + m * 30 + 30" using day by simp
  ultimately have "unat (currentDay t) \<le> unat lastDay" using assms(3) unfolding unat_lastDay m_def by simp
  note new = setDate_valid(3,4) [OF this, of t]
  have "(y * 12 + (m + 1)) * 30 mod 360 = (m + 1) * 30"
  proof -
    have "(y * 12 + (m + 1)) * 30 = (m + 1) * 30 + 360 * y" by simp
    then have "(y * 12 + (m + 1)) * 30 mod 360 = (m + 1) * 30 mod 360" by (simp only: mod_mult_self2)
    also have "\<dots> = (m + 1) * 30" using assms(3) unfolding m_def by (intro mod_less) simp
    finally show ?thesis .
  qed
  then have "unat (currentDay t) mod 360 = (m + 1) * 30" "unat (currentDay t) mod 30 = 0" unfolding day by simp_all
  with new show "unat (wt_day (setDate (currentDay t) t)) = 1" "unat (wt_month (setDate (currentDay t) t)) = unat (wt_month t) + 1"
    by (simp_all add: m_def)
qed

end
