(* ===== verification/World_Weather.thy ===== *)
theory World_Weather
  imports World_Properties
begin

text \<open>
  The weather of the regions: a step of a region's weather keeps it valid, so a mutation of the weather is
  refused only for the reason it names, and is never the source of an invalid world.
\<close>

section \<open>Regions of a catalog\<close>

definition region_decl_ok :: "WeatherRegionCatalogEntry \<Rightarrow> bool" where
  "region_decl_ok d \<longleftrightarrow> wce_transitionDurationTicks d \<noteq> 0 \<and> wce_selectionIntervalTicks d \<le> MaximumWeatherTimingTicks
     \<and> wce_transitionDurationTicks d \<le> MaximumWeatherTimingTicks \<and> wce_eligibleWeather d \<noteq> []
     \<and> length (wce_eligibleWeather d) \<le> MaximumWeatherEligibilityEntries"

lemma regionEntriesValid_decl: "regionEntriesValid ws n ds \<Longrightarrow> \<forall>d \<in> set ds. region_decl_ok d"
  by (induction ws n ds rule: regionEntriesValid.induct) (auto simp: region_decl_ok_def)

lemma createWeatherCatalog_decl: "createWeatherCatalog m ws ds = Some c \<Longrightarrow> \<forall>d \<in> set (wc_regions c). region_decl_ok d"
  by (auto simp: createWeatherCatalog_def dest: regionEntriesValid_decl split: if_splits)

lemma createWeatherCatalog_distinct: "createWeatherCatalog m ws ds = Some c \<Longrightarrow> distinct (map wce_id (wc_regions c))"
  by (auto simp: createWeatherCatalog_def split: if_splits)

lemma addTicks_unat: "addTicks t n = Some e \<Longrightarrow> unat e = unat t + unat n"
proof -
  assume add: "addTicks t n = Some e"
  then have "unat n \<le> 2 ^ 64 - 1 - unat t" by (auto simp: addTicks_def word_less_nat_alt unat_u64_max_minus split: if_splits)
  then have "unat t + unat n < 2 ^ 64" using unat_lt_u64 [of t] by (simp del: unat_lt_u64)
  with add show ?thesis by (auto simp: addTicks_def unat_plus_no_wrap split: if_splits)
qed

lemma addTicks_le: "addTicks t n = Some e \<Longrightarrow> t \<le> e" "addTicks t n = Some e \<Longrightarrow> n \<noteq> 0 \<Longrightarrow> t \<noteq> e"
  using addTicks_unat [of t n e] by (auto simp: word_le_nat_alt unat_eq_zero)

lemma addTicks_mono: "addTicks t n = Some e \<Longrightarrow> addTicks e m = Some f \<Longrightarrow> \<exists>g. addTicks t m = Some g \<and> t \<le> g"
proof -
  assume e: "addTicks t n = Some e" and f: "addTicks e m = Some f"
  have "unat m \<le> 2 ^ 64 - 1 - unat t"
    using addTicks_unat [OF e] addTicks_unat [OF f] unat_lt_u64 [of f] by (simp del: unat_lt_u64)
  then have some: "addTicks t m = Some (t + m)" by (simp add: addTicks_def word_less_nat_alt unat_u64_max_minus not_less)
  with addTicks_le(1) [OF some] show ?thesis by blast
qed

section \<open>One region\<close>

lemma draw_eligible:
  assumes "region_decl_ok d" and "uniformBelow (of_nat (length (wce_eligibleWeather d))) s = Some (s', Some n)"
  shows "eligible d (wce_eligibleWeather d ! unat n)"
proof -
  let ?k = "length (wce_eligibleWeather d)"
  have k: "?k < 2 ^ 64" "0 < ?k" using assms(1) by (auto simp: region_decl_ok_def MaximumWeatherEligibilityEntries_def)
  then have "unat (of_nat ?k :: u64) = ?k" by (simp add: unat_of_nat)
  moreover obtain v where "n = v mod (of_nat ?k)" using assms(2) by (auto simp: uniformBelow_def drawLoop_iff split: if_splits)
  ultimately have "unat n < ?k" using k(2) by (simp add: unat_mod)
  then show ?thesis by (simp add: eligible_def)
qed

lemma advance_region_valid:
  assumes valid: "validRegion t0 d r" and t: "t0 \<le> t" and d: "region_decl_ok d"
    and c: "completeTransition t r = Inr c" and s: "selectWeather t d c s = Some (Inr (r', s'))"
  shows "validRegion t d r'"
proof -
  have lt: "wrs_lastChangeTick r \<le> t" using valid t by (auto simp: validRegion_def)
  have c_cases: "c = r \<and> (wrs_currentWeather r = wrs_targetWeather r \<or> t < wrs_transitionEndTick r)
    \<or> (\<exists>n. c = r\<lparr>wrs_currentWeather := wrs_targetWeather r, wrs_transitionStartTick := t, wrs_transitionEndTick := t,
                 wrs_revision := n, wrs_lastChangeTick := t\<rparr>)"
    using c by (auto simp: completeTransition_def split: if_splits option.splits)
  have common: "wrs_region c = wce_id d" "eligible d (wrs_currentWeather c)" "eligible d (wrs_targetWeather c)" "wrs_lastChangeTick c \<le> t"
    "wrs_transitionStartTick c \<le> wrs_transitionEndTick c"
    "wrs_currentWeather c = wrs_targetWeather c \<longrightarrow> wrs_transitionStartTick c = wrs_transitionEndTick c
       \<and> (wrs_transitionEndTick c \<le> wrs_nextSelectionTick c \<or> wrs_transitionEndTick c = t)"
    "wrs_currentWeather c \<noteq> wrs_targetWeather c \<longrightarrow> c = r"
    using c_cases valid lt by (auto simp: validRegion_def)
  show ?thesis
  proof (cases "wrs_currentWeather c = wrs_targetWeather c \<and> t \<ge> wrs_nextSelectionTick c")
    case False
    with s have r': "r' = c" by (auto simp: selectWeather_def split: if_splits)
    show ?thesis
    proof (cases "wrs_currentWeather c = wrs_targetWeather c")
      case True
      with False common show ?thesis unfolding r' by (auto simp: validRegion_def)
    next
      case False
      with common(7) have "c = r" by simp
      with valid lt show ?thesis unfolding r' by (auto simp: validRegion_def)
    qed
  next
    case select: True
    then have steady: "wrs_currentWeather c = wrs_targetWeather c" "wrs_transitionStartTick c = wrs_transitionEndTick c" "wrs_transitionEndTick c \<le> t"
      using common(6) by auto
    from select s obtain n where draw: "uniformBelow (of_nat (length (wce_eligibleWeather d))) s = Some (s', Some n)"
      by (auto simp: selectWeather_def Let_def split: option.splits prod.splits if_splits)
    note target = draw_eligible [OF d draw]
    let ?target = "wce_eligibleWeather d ! unat n"
    from select s draw obtain next_t where next_t: "addTicks t (wce_selectionIntervalTicks d) = Some next_t"
      by (auto simp: selectWeather_def split: option.splits)
    show ?thesis
    proof (cases "?target = wrs_currentWeather c")
      case True
      with select s draw next_t steady common addTicks_le(1) [OF next_t] show ?thesis
        by (auto simp: selectWeather_def validRegion_def Let_def split: option.splits)
    next
      case False
      with select s draw next_t obtain e f where ef: "addTicks t (wce_transitionDurationTicks d) = Some e"
          "addTicks e (wce_selectionIntervalTicks d) = Some f"
        and r': "wrs_region r' = wrs_region c" "wrs_currentWeather r' = wrs_currentWeather c" "wrs_targetWeather r' = ?target"
          "wrs_transitionStartTick r' = t" "wrs_transitionEndTick r' = e" "wrs_nextSelectionTick r' = f" "wrs_lastChangeTick r' = t"
        by (auto simp: selectWeather_def Let_def split: option.splits)
      have "wce_transitionDurationTicks d \<noteq> 0" using d by (simp add: region_decl_ok_def)
      with False r' target common addTicks_le [OF ef(1)] addTicks_le(1) [OF ef(2)] show ?thesis by (auto simp: validRegion_def)
    qed
  qed
qed

lemma advanceRegions_valid:
  "list_all2 (validRegion t0) ds rs \<Longrightarrow> t0 \<le> t \<Longrightarrow> \<forall>d \<in> set ds. region_decl_ok d \<Longrightarrow> advanceRegions t ds rs s = Some (Inr (rs', s'))
    \<Longrightarrow> list_all2 (validRegion t) ds rs'"
proof (induction t ds rs s arbitrary: rs' s' rule: advanceRegions.induct)
  case (1 t d ds r rs s)
  from "1.prems"(4) obtain c r' s1 rest where steps: "completeTransition t r = Inr c" "selectWeather t d c s = Some (Inr (r', s1))"
      "advanceRegions t ds rs s1 = Some (Inr (rest, s'))" and rs': "rs' = r' # rest"
    by (auto split: sum.splits option.splits prod.splits)
  have "validRegion t d r'" using "1.prems" by (intro advance_region_valid [OF _ _ _ steps(1,2)]) auto
  moreover have "list_all2 (validRegion t) ds rest"
    using "1.prems" steps by (intro "1.IH" [OF steps(1,2) refl refl _ _ _ steps(3)]) auto
  ultimately show ?case by (simp add: rs')
qed auto

lemma selectWeather_error: "selectWeather t d r s = Some (Inl e) \<Longrightarrow> e = WorldRevisionExhausted \<or> e = ArithmeticOverflow"
  by (auto simp: selectWeather_def Let_def split: if_splits option.splits prod.splits)

lemma advanceRegions_error: "advanceRegions t ds rs s = Some (Inl e) \<Longrightarrow> e = WorldRevisionExhausted \<or> e = ArithmeticOverflow"
proof (induction t ds rs s rule: advanceRegions.induct)
  case (1 t d ds r rs s)
  then show ?case
    by (auto simp: completeTransition_def dest: selectWeather_error split: sum.splits option.splits prod.splits if_splits)
qed auto

section \<open>All regions\<close>

lemma weather_update_same: "cw_weather w = x \<Longrightarrow> w\<lparr>cw_weather := x\<rparr> = w"
  by (cases w) simp

text \<open>An advance does not return only where the draw for a region does not.\<close>

lemma advanceRegions_None:
  "advanceRegions t ds rs s = None \<Longrightarrow> \<exists>d \<in> set ds. \<exists>s. uniformBelow (of_nat (length (wce_eligibleWeather d))) s = None"
proof (induction t ds rs s rule: advanceRegions.induct)
  case (1 t d ds r rs s)
  have "selectWeather t d r' s = None \<Longrightarrow> uniformBelow (of_nat (length (wce_eligibleWeather d))) s = None" for r'
    by (auto simp: selectWeather_def split: if_splits option.splits)
  with 1 show ?case by (fastforce split: sum.splits option.splits prod.splits)
qed auto

text \<open>What an advance that returns gives, where the weather is the server's own.\<close>

lemma advance_result:
  assumes cat: "createWeatherCatalog m ws ds = Some c" and ok: "world_ok w" and c: "cw_weatherCatalog w = Some c"
    and owned: "\<not> nativeEnvironmentOwned w" and adv: "advanceCanonicalWeather w t = Some result"
  shows "case result of
      Inl e \<Rightarrow> (case cw_weather w of Some we \<Rightarrow> e = WorldTickRegression \<and> t < ws_lastAdvanceTick we \<or> e = WorldRevisionExhausted \<or> e = ArithmeticOverflow
                | None \<Rightarrow> False)
    | Inr w' \<Rightarrow> world_ok w' \<and> w'\<lparr>cw_weather := cw_weather w\<rparr> = w \<and> map_option ws_lastAdvanceTick (cw_weather w') = Some t"
proof -
  from ok c obtain we where we: "cw_weather w = Some we" "validWeatherState c we"
    by (auto simp: world_ok_def catalogs_ok_def split: option.splits)
  note decl = createWeatherCatalog_decl [OF cat]
  show ?thesis
  proof (cases "ws_lastAdvanceTick we < t")
    case False
    then have "result = (if t < ws_lastAdvanceTick we then Inl WorldTickRegression else Inr w)"
        "t < ws_lastAdvanceTick we \<or> t = ws_lastAdvanceTick we"
      using adv we(1) c owned by (auto simp: advanceCanonicalWeather_def)
    with ok we(1) weather_update_same [OF we(1)] show ?thesis by auto
  next
    case later: True
    then have "\<not> t < ws_lastAdvanceTick we" "t \<noteq> ws_lastAdvanceTick we" by auto
    with adv we(1) c owned have adv: "(case advanceRegions t (wc_regions c) (ws_regions we) (ws_randomState we) of
        None \<Rightarrow> None | Some (Inl e) \<Rightarrow> Some (Inl e)
      | Some (Inr (regions, random)) \<Rightarrow>
          Some (withWeather w (we\<lparr>ws_regions := regions, ws_randomState := random, ws_lastAdvanceTick := t\<rparr>))) = Some result"
      by (simp add: advanceCanonicalWeather_def)
    show ?thesis
    proof (cases "advanceRegions t (wc_regions c) (ws_regions we) (ws_randomState we)")
      case None
      with adv show ?thesis by simp
    next
      case (Some r)
      show ?thesis
      proof (cases r)
        case (Inl e)
        with Some adv have "result = Inl e" by simp
        moreover have "e = WorldRevisionExhausted \<or> e = ArithmeticOverflow" using Some unfolding Inl by (rule advanceRegions_error)
        ultimately show ?thesis using we(1) by auto
      next
        case (Inr new)
        obtain rs s where new: "new = (rs, s)" by (cases new)
        let ?we = "we\<lparr>ws_regions := rs, ws_randomState := s, ws_lastAdvanceTick := t\<rparr>"
        have run: "advanceRegions t (wc_regions c) (ws_regions we) (ws_randomState we) = Some (Inr (rs, s))" using Some Inr new by simp
        have "list_all2 (validRegion (ws_lastAdvanceTick we)) (wc_regions c) (ws_regions we)" using we(2) by (simp add: validWeatherState_def)
        from advanceRegions_valid [OF this less_imp_le [OF later] decl run] have "list_all2 (validRegion t) (wc_regions c) rs" .
        with we(2) have "validWeatherState c ?we" by (simp add: validWeatherState_def)
        with withWeather_ok [OF ok c, of ?we] have "withWeather w ?we = Inr (w\<lparr>cw_weather := Some ?we\<rparr>)" "world_ok (w\<lparr>cw_weather := Some ?we\<rparr>)" by simp_all
        moreover have "result = withWeather w ?we"
          using adv Some Inr new by simp
        ultimately show ?thesis using weather_update_same [OF we(1)] by (simp add: we(1))
      qed
    qed
  qed
qed

text \<open>
  C23. Advancing the weather of a valid world that has weather is refused as invalid where a native environment owns the
  weather. Where none does, it is refused for a late tick, a spent revision or the end of the ticks only; otherwise every
  region has been advanced to the tick, the world is valid, and nothing but the weather changed. It returns in any case, unless
  the random draw for one of the regions does not.
\<close>

theorem weather_advance_valid:
  assumes cat: "createWeatherCatalog m ws ds = Some c" and ok: "world_ok w" and c: "cw_weatherCatalog w = Some c"
  shows "case advanceCanonicalWeather w t of
      None \<Rightarrow> \<not> nativeEnvironmentOwned w
        \<and> (\<exists>d \<in> set (wc_regions c). \<exists>s. uniformBelow (of_nat (length (wce_eligibleWeather d))) s = None)
    | Some result \<Rightarrow>
        if nativeEnvironmentOwned w then result = Inl InvalidState
        else case result of
          Inl e \<Rightarrow> (case cw_weather w of Some we \<Rightarrow> e = WorldTickRegression \<and> t < ws_lastAdvanceTick we \<or> e = WorldRevisionExhausted \<or> e = ArithmeticOverflow
                    | None \<Rightarrow> False)
        | Inr w' \<Rightarrow> world_ok w' \<and> w'\<lparr>cw_weather := cw_weather w\<rparr> = w \<and> map_option ws_lastAdvanceTick (cw_weather w') = Some t"
proof (cases "advanceCanonicalWeather w t")
  case None
  then have "\<not> nativeEnvironmentOwned w \<and> (\<exists>we. cw_weather w = Some we \<and> advanceRegions t (wc_regions c) (ws_regions we) (ws_randomState we) = None)"
    using c by (auto simp: advanceCanonicalWeather_def split: if_splits option.splits sum.splits)
  with None advanceRegions_None show ?thesis by fastforce
next
  case (Some result)
  show ?thesis
  proof (cases "nativeEnvironmentOwned w")
    case True
    with Some have "result = Inl InvalidState" by (simp add: advanceCanonicalWeather_def)
    with Some True show ?thesis by simp
  next
    case False
    from advance_result [OF cat ok c False Some] Some False show ?thesis by simp
  qed
qed

lemma sampleWeather_created: "createWeatherCatalog sampleManifest [1, 2, 3] [sampleRegion] = Some sampleWeather"
  by (simp add: createWeatherCatalog_def sampleWeather_def sampleRegion_def MaximumWeatherIdentities_def MaximumWeatherRegions_def
      MaximumWeatherTimingTicks_def MaximumWeatherEligibilityEntries_def eligible_def)

lemma sampleWorld_weather: "cw_weatherCatalog sampleWorld = Some sampleWeather" "\<not> nativeEnvironmentOwned sampleWorld"
  by (simp_all add: sampleWorld_def nativeEnvironmentOwned_def)

theorem weather_advance_valid_witness:
  "\<exists>w'. advanceCanonicalWeather sampleWorld 50 = Some (Inr w') \<and> world_ok w' \<and> w'\<lparr>cw_weather := cw_weather sampleWorld\<rparr> = sampleWorld
     \<and> map_option ws_lastAdvanceTick (cw_weather w') = Some 50"
proof -
  obtain we where we: "cw_weather sampleWorld = Some we" "ws_lastAdvanceTick we = 0" "list_all2 (\<lambda>d r. wrs_currentWeather r = wrs_targetWeather r
      \<and> wrs_nextSelectionTick r = 100) (wc_regions sampleWeather) (ws_regions we)"
    by (simp add: sampleWorld_def sampleWeather_def)
  have "\<exists>x. advanceRegions 50 (wc_regions sampleWeather) (ws_regions we) s = Some (Inr x)" for s
    using we(3) by (cases "ws_regions we") (auto simp: sampleWeather_def completeTransition_def selectWeather_def)
  then obtain rs s where "advanceRegions 50 (wc_regions sampleWeather) (ws_regions we) (ws_randomState we) = Some (Inr (rs, s))" by fastforce
  with we(1,2) sampleWorld_weather have "\<exists>v. advanceCanonicalWeather sampleWorld 50 = Some (withWeather sampleWorld v)"
    by (auto simp: advanceCanonicalWeather_def)
  then obtain result where run: "advanceCanonicalWeather sampleWorld 50 = Some result" and "result = Inl InvalidState \<or> (\<exists>w'. result = Inr w')"
    by (auto simp: withWeather_def mutated_def split: option.split)
  then have not_error: "\<exists>w'. result = Inr w'"
    using advance_result [OF sampleWeather_created sampleWorld_ok sampleWorld_weather run] we(1) by auto
  from weather_advance_valid [OF sampleWeather_created sampleWorld_ok sampleWorld_weather(1), of 50] run not_error sampleWorld_weather(2)
  show ?thesis by auto
qed

text \<open>The region of an identity is at the same place in the catalog and in the weather.\<close>

lemma region_ids: "list_all2 (validRegion t) ds rs \<Longrightarrow> map wrs_region rs = map wce_id ds"
  by (induction rule: list_all2_induct) (auto simp: validRegion_def)

lemma region_place:
  assumes rs: "list_all2 (validRegion t) ds rs" and distinct: "distinct (map wce_id ds)"
    and d: "find (\<lambda>d. wce_id d = k) ds = Some d" and i: "find_index (\<lambda>r. wrs_region r = k) rs = Some i"
  shows "i < length rs" "ds ! i = d" "validRegion t d (rs ! i)"
proof -
  from find_index_iff [OF i] have i: "i < length rs" "wrs_region (rs ! i) = k" by auto
  with rs have "validRegion t (ds ! i) (rs ! i)" and len: "length ds = length rs" by (auto simp: list_all2_conv_all_nth)
  with i have "wce_id (ds ! i) = k" "ds ! i \<in> set ds" by (auto simp: validRegion_def)
  with d find_distinct [OF distinct] show "ds ! i = d" by (metis option.inject)
  with \<open>validRegion t (ds ! i) (rs ! i)\<close> i show "i < length rs" "validRegion t d (rs ! i)" by auto
qed

text \<open>A target set for a region: a transition that starts now, or no transition where it is the current weather.\<close>

definition retarget :: "WeatherRegionCatalogEntry \<Rightarrow> WeatherId \<Rightarrow> ServerTick \<Rightarrow> WeatherRevision \<Rightarrow> CanonicalWeatherRegionState \<Rightarrow> CanonicalWeatherRegionState" where
  "retarget d x t n r = (let end = (if x = wrs_currentWeather r then t else t + wce_transitionDurationTicks d) in
     r\<lparr>wrs_targetWeather := x, wrs_transitionStartTick := t, wrs_transitionEndTick := end,
       wrs_nextSelectionTick := end + wce_selectionIntervalTicks d, wrs_revision := n, wrs_lastChangeTick := t\<rparr>)"

lemma addTicks_Some: "unat t + unat n < 2 ^ 64 \<Longrightarrow> addTicks t n = Some (t + n)"
  by (auto simp: addTicks_def word_less_nat_alt unat_u64_max_minus)

text \<open>Ticks that leave room for a transition and the next selection.\<close>

lemma tick_room:
  assumes "region_decl_ok d" and "unat t < 2 ^ 63"
  shows "addTicks t (wce_transitionDurationTicks d) = Some (t + wce_transitionDurationTicks d)"
    "addTicks (t + wce_transitionDurationTicks d) (wce_selectionIntervalTicks d) = Some (t + wce_transitionDurationTicks d + wce_selectionIntervalTicks d)"
    "addTicks t (wce_selectionIntervalTicks d) = Some (t + wce_selectionIntervalTicks d)"
proof -
  have small: "unat (wce_transitionDurationTicks d) \<le> 1000000000" "unat (wce_selectionIntervalTicks d) \<le> 1000000000"
    using assms(1) by (simp_all add: region_decl_ok_def MaximumWeatherTimingTicks_def word_le_nat_alt)
  with assms(2) show dur: "addTicks t (wce_transitionDurationTicks d) = Some (t + wce_transitionDurationTicks d)"
    "addTicks t (wce_selectionIntervalTicks d) = Some (t + wce_selectionIntervalTicks d)"
    by (simp_all add: addTicks_Some)
  show "addTicks (t + wce_transitionDurationTicks d) (wce_selectionIntervalTicks d) = Some (t + wce_transitionDurationTicks d + wce_selectionIntervalTicks d)"
    using addTicks_unat [OF dur(1)] small assms(2) by (intro addTicks_Some) simp
qed

lemma retarget_valid:
  assumes valid: "validRegion t0 d r" and d: "region_decl_ok d" and x: "eligible d x" and t: "unat t < 2 ^ 63"
  shows "validRegion t d (retarget d x t n r)"
proof -
  note room = tick_room [OF d t]
  have "wce_transitionDurationTicks d \<noteq> 0" using d by (simp add: region_decl_ok_def)
  with valid x addTicks_le [OF room(1)] addTicks_le(1) [OF room(2)] addTicks_le(1) [OF room(3)] show ?thesis
    by (auto simp: validRegion_def retarget_def Let_def)
qed

lemma validRegion_later: "validRegion t0 d r \<Longrightarrow> t0 \<le> t \<Longrightarrow> validRegion t d r"
  by (auto simp: validRegion_def)

text \<open>Finding by identity after the entry of one identity was replaced.\<close>

lemma find_update_key:
  assumes "distinct (map f xs)" and "i < length xs" and "f (xs ! i) = k" and "f x = k"
  shows "find (\<lambda>y. f y = k') (xs[i := x]) = (if k' = k then Some x else find (\<lambda>y. f y = k') xs)"
  using assms
proof (induction xs arbitrary: i)
  case (Cons a xs)
  then show ?case by (cases i) auto
qed simp

text \<open>A target that is eligible, with the current revision, a tick not before the last advance and room for the timings,
  is set: the region turns to it and no other region changes.\<close>

theorem weather_set:
  assumes cat: "createWeatherCatalog m ws ds = Some c" and ok: "world_ok w" and c: "cw_weatherCatalog w = Some c"
    and owned: "\<not> nativeEnvironmentOwned w" and we: "cw_weather w = Some we" and d: "findRegion c k = Some d"
    and r: "findWeather w k = Some r" and x: "x \<in> set ws" "eligible d x" "x \<noteq> wrs_targetWeather r"
    and e: "wrs_revision r = e" "next_value e = Some n" and t: "ws_lastAdvanceTick we \<le> t" "unat t < 2 ^ 63"
  shows "\<exists>w'. setCanonicalWeather w k e x t = Inr w' \<and> findWeather w' k = Some (retarget d x t n r)
    \<and> (\<forall>k'. k' \<noteq> k \<longrightarrow> findWeather w' k' = findWeather w k') \<and> w'\<lparr>cw_weather := Some we\<rparr> = w"
proof -
  have valid: "validWeatherState c we" using ok c we by (simp add: world_ok_def catalogs_ok_def split: option.splits)
  then have regions: "list_all2 (validRegion (ws_lastAdvanceTick we)) (wc_regions c) (ws_regions we)" by (simp add: validWeatherState_def)
  have decl: "region_decl_ok d" using createWeatherCatalog_decl [OF cat] d by (auto simp: findRegion_def find_Some_iff)
  from r we obtain i where i: "find_index (\<lambda>r. wrs_region r = k) (ws_regions we) = Some i" and ri: "ws_regions we ! i = r"
    using find_index_find [of "\<lambda>r. wrs_region r = k" "ws_regions we"]
    by (cases "find_index (\<lambda>r. wrs_region r = k) (ws_regions we)") (auto simp: findWeather_def)
  note place = region_place [OF regions createWeatherCatalog_distinct [OF cat] d [unfolded findRegion_def] i]
  let ?r = "retarget d x t n r"
  let ?we = "we\<lparr>ws_regions := (ws_regions we)[i := ?r], ws_lastAdvanceTick := t\<rparr>"
  have "validRegion t d ?r" using place(3) unfolding ri by (rule retarget_valid [OF _ decl x(2) t(2)])
  with regions place t(1) have "list_all2 (validRegion t) (wc_regions c) ((ws_regions we)[i := ?r])"
    by (auto simp: list_all2_conv_all_nth nth_list_update intro: validRegion_later)
  with valid have "validWeatherState c ?we" by (simp add: validWeatherState_def)
  with withWeather_ok(1) [OF ok c, of ?we] have new: "withWeather w ?we = Inr (w\<lparr>cw_weather := Some ?we\<rparr>)" by simp
  have "catalogContainsWeather c x" using cat x(1) by (auto simp: createWeatherCatalog_def catalogContainsWeather_def split: if_splits)
  moreover have "wrs_lastChangeTick r \<le> t" using place(3) t(1) unfolding ri by (auto simp: validRegion_def)
  ultimately have "setCanonicalWeather w k e x t = withWeather w ?we"
    using owned c we d i ri x e t(1) tick_room [OF decl t(2)]
    by (simp add: setCanonicalWeather_def Let_def retarget_def leD)
  moreover have "find (\<lambda>r. wrs_region r = k') ((ws_regions we)[i := ?r])
      = (if k' = k then Some ?r else find (\<lambda>r. wrs_region r = k') (ws_regions we))" for k'
  proof -
    have "distinct (map wrs_region (ws_regions we))" using region_ids [OF regions] createWeatherCatalog_distinct [OF cat] by simp
    moreover have "wrs_region (ws_regions we ! i) = k" using find_index_iff [OF i] by simp
    ultimately show ?thesis using place(1) ri by (intro find_update_key) (simp_all add: retarget_def Let_def)
  qed
  ultimately show ?thesis using new we weather_update_same [OF we] by (auto simp: findWeather_def)
qed

theorem weather_set_witness:
  "\<exists>w' r. setCanonicalWeather sampleWorld 41 1 2 50 = Inr w' \<and> findWeather w' 41 = Some r \<and> wrs_targetWeather r = 2 \<and> wrs_transitionEndTick r = 70"
proof -
  have d: "findRegion sampleWeather 41 = Some sampleRegion" by (simp add: findRegion_def sampleWeather_def sampleRegion_def)
  obtain we r where we: "cw_weather sampleWorld = Some we" "findWeather sampleWorld 41 = Some r" "ws_lastAdvanceTick we = 0"
    and r: "wrs_targetWeather r = 1" "wrs_currentWeather r = 1" "wrs_revision r = 1"
    by (simp add: sampleWorld_def findWeather_def)
  have "eligible sampleRegion 2" "next_value 1 = Some 2" by (simp_all add: eligible_def sampleRegion_def next_value_def u64_max_def)
  with weather_set [OF sampleWeather_created sampleWorld_ok sampleWorld_weather we(1) d we(2), of 2 1 2 50] we(3) r
  obtain w' where "setCanonicalWeather sampleWorld 41 1 2 50 = Inr w'" "findWeather w' 41 = Some (retarget sampleRegion 2 50 2 r)" by auto
  with r show ?thesis by (simp add: retarget_def sampleRegion_def Let_def)
qed

end
