(* ===== verification/World_Factions.thy ===== *)
theory World_Factions
  imports World_Properties
begin

text \<open>
  The standing of players in factions: setting a rank or a reputation changes one faction of one player, and
  the choices of a dialogue are open by that standing.
\<close>

section \<open>One faction of one player\<close>

definition factionOf :: "CanonicalWorldState \<Rightarrow> PlayerId \<Rightarrow> FactionId \<Rightarrow> CanonicalFactionState option" where
  "factionOf w p f = (case findFactionState w p of None \<Rightarrow> None | Some r \<Rightarrow> find (\<lambda>x. fst_id x = f) (pfs_factions r))"

definition currentFaction :: "CanonicalWorldState \<Rightarrow> PlayerId \<Rightarrow> FactionId \<Rightarrow> CanonicalFactionState" where
  "currentFaction w p f = (case factionOf w p f of None \<Rightarrow> freshFaction f | Some x \<Rightarrow> x)"

definition with_faction :: "FactionDialogueCatalog \<Rightarrow> PlayerId \<Rightarrow> CanonicalFactionState \<Rightarrow> CanonicalWorldState \<Rightarrow> CanonicalWorldState" where
  "with_faction c p x w = w\<lparr>cw_factionStates := factions.put_row c p x (cw_factionStates w)\<rparr>"

text \<open>Room for the faction of the player.\<close>

definition faction_room :: "CanonicalWorldState \<Rightarrow> PlayerId \<Rightarrow> FactionId \<Rightarrow> bool" where
  "faction_room w p f \<longleftrightarrow> (findFactionState w p = None \<longrightarrow> length (cw_factionStates w) < MaximumPlayerFactionStates)
     \<and> (factionOf w p f = None \<longrightarrow> (\<Sum>r\<leftarrow>cw_factionStates w. length (pfs_factions r)) < MaximumCanonicalFactionStates)"

lemma factionOf_item: "factionOf w p f = factions.item (cw_factionStates w) p f"
  by (simp add: factionOf_def factions.item_def findFactionState_def)

lemma validFactions_items: "validFactions c None xs \<Longrightarrow> factions.entries_ok c xs"
  by (auto simp: validFactions_iff factions.entries_ok_def faction_ok_def Let_def)

lemma faction_rows_ok: "validFactionState c rows \<Longrightarrow> factions.rows_ok c rows"
  by (auto simp: validFactionState_iff factions.rows_ok_def faction_row_ok_def intro: validFactions_items)

lemma world_faction_rows: "world_ok w \<Longrightarrow> cw_factionDialogueCatalog w = Some c \<Longrightarrow> validFactionState c (cw_factionStates w)"
  by (simp add: world_ok_def faction_part_ok_def)

lemma currentFaction_id: "fst_id (currentFaction w p f) = f"
  by (auto simp: currentFaction_def freshFaction_def factionOf_def find_Some_iff split: option.split dest: sym)

lemma faction_put_totals:
  fixes p :: u64
  assumes rows: "validFactionState c rows" and x: "faction_ok c x"
  defines "rows' \<equiv> factions.put_row c p x rows"
  shows "length rows' = length rows + (if lookup_key pfs_player rows p = None then 1 else 0)"
    "(\<Sum>r\<leftarrow>rows'. length (pfs_factions r)) = (\<Sum>r\<leftarrow>rows. length (pfs_factions r)) + (if factions.item rows p (fst_id x) = None then 1 else 0)"
proof -
  define row where "row = playerRow pfs_player (freshFactions p) rows"
  define r where "r = row\<lparr>pfs_factions := factions.put c x (pfs_factions row)\<rparr>"
  have sorted: "keys_sorted pfs_player rows" using rows by (simp add: validFactionState_iff)
  note row = factions.playerRow_ok(1,2) [OF faction_rows_ok [OF rows], of p, folded row_def]
  have found: "find (\<lambda>y. fst_id y = k) (pfs_factions row) = factions.item rows p k" for k
    unfolding row_def by (rule factions.playerRow_ok(3) [OF faction_rows_ok [OF rows]])
  have rows': "rows' = storeRow pfs_player r rows" by (simp add: rows'_def factions.put_row_def row_def r_def Let_def)
  have player: "pfs_player r = p" using row(1) by (simp add: r_def)
  show "length rows' = length rows + (if lookup_key pfs_player rows p = None then 1 else 0)"
    using factions.store_length [OF sorted, of r] unfolding rows' player .
  have fresh: "pfs_factions (freshFactions p) = []" "pfs_player (freshFactions p) = p" by (simp_all add: freshFactions_def)
  have "length (factions.put c x (pfs_factions row)) = length (pfs_factions row) + (if factions.item rows p (fst_id x) = None then 1 else 0)"
    using factions.put_length [OF row(2), of x] x by (simp add: faction_ok_def Let_def found)
  then show "(\<Sum>r\<leftarrow>rows'. length (pfs_factions r)) = (\<Sum>r\<leftarrow>rows. length (pfs_factions r)) + (if factions.item rows p (fst_id x) = None then 1 else 0)"
    using factions.store_sum [OF sorted, where r = r and f = "\<lambda>r. length (pfs_factions r)"] unfolding rows' player
    by (simp add: r_def row_def playerRow_def fresh split: option.splits)
qed

lemma playerRow_factions:
  assumes "validFactionState c rows"
  shows "validFactions c None (pfs_factions (playerRow pfs_player (freshFactions p) rows))"
  using assms lookup_key_SomeD [of pfs_player rows p]
  by (auto simp: playerRow_def freshFactions_def validFactionState_iff faction_row_ok_def split: option.split)

lemma faction_put_valid:
  assumes rows: "validFactionState c rows" and x: "faction_ok c x"
    and room: "lookup_key pfs_player rows p = None \<longrightarrow> length rows < MaximumPlayerFactionStates"
      "factions.item rows p (fst_id x) = None \<longrightarrow> (\<Sum>r\<leftarrow>rows. length (pfs_factions r)) < MaximumCanonicalFactionStates"
  shows "validFactionState c (factions.put_row c p x rows)"
proof -
  define row where "row = playerRow pfs_player (freshFactions p) rows"
  define xs where "xs = factions.put c x (pfs_factions row)"
  have sorted: "keys_sorted pfs_player rows" using rows by (simp add: validFactionState_iff)
  have eq: "factions.put_row c p x rows = storeRow pfs_player (row\<lparr>pfs_factions := xs\<rparr>) rows"
    by (simp add: factions.put_row_def row_def xs_def Let_def)
  have valid: "validFactions c None (pfs_factions row)" unfolding row_def by (rule playerRow_factions [OF rows])
  note items = validFactions_items [OF valid]
  have rank: "catalogIndex fce_id (fdc_factions c) (fst_id x) < length (fdc_factions c)" using x by (simp add: faction_ok_def Let_def)
  note set = factions.put_set [OF items rank, folded xs_def] and put_ok = factions.put_ok [OF items rank, folded xs_def]
  have "validFactions c None xs" using put_ok valid x by (auto simp: validFactions_iff set factions.entries_ok_def)
  moreover have "xs \<noteq> []" using set by auto
  ultimately have row: "faction_row_ok c (row\<lparr>pfs_factions := xs\<rparr>)" using factions.items_length [OF put_ok] by (simp add: faction_row_ok_def)
  have "\<forall>r \<in> set (factions.put_row c p x rows). faction_row_ok c r"
    using rows row factions.store_set [OF sorted, of "row\<lparr>pfs_factions := xs\<rparr>"] unfolding eq by (auto simp: validFactionState_iff)
  moreover have "keys_sorted pfs_player (factions.put_row c p x rows)" unfolding eq by (rule factions.store_sorted [OF sorted])
  ultimately show ?thesis
    using faction_put_totals [OF rows x, of p] room rows by (auto simp: validFactionState_iff)
qed

lemma recreate_factions:
  assumes ok: "world_ok w" and c: "cw_factionDialogueCatalog w = Some c" and "validFactionState c rows"
  shows "recreateWorld w (cw_time w) (cw_globals w) (cw_questJournal w) rows = Some (w\<lparr>cw_factionStates := rows\<rparr>)"
    "world_ok (w\<lparr>cw_factionStates := rows\<rparr>)"
  using assms world_okD [OF ok] by (simp_all add: recreateWorld_ok faction_part_ok_def world_ok_def)

text \<open>A changed faction that is valid is stored; nothing else changes.\<close>

lemma storeFaction_succeeds:
  fixes p :: u64
  assumes ok: "world_ok w" and c: "cw_factionDialogueCatalog w = Some c" and x: "faction_ok c x" and room: "faction_room w p (fst_id x)"
  defines "row \<equiv> playerRow pfs_player (freshFactions p) (cw_factionStates w)"
  shows "storeFaction w c row (find_index (\<lambda>y. fst_id y = fst_id x) (pfs_factions row)) x = Inr (with_faction c p x w)"
    "world_ok (with_faction c p x w)" "factionOf (with_faction c p x w) q g = (if q = p \<and> g = fst_id x then Some x else factionOf w q g)"
proof -
  note rows = world_faction_rows [OF ok c]
  have "validFactionState c (factions.put_row c p x (cw_factionStates w))"
    using room by (intro faction_put_valid rows x) (simp_all add: faction_room_def findFactionState_def factionOf_item)
  note new = recreate_factions [OF ok c this]
  show "storeFaction w c row (find_index (\<lambda>y. fst_id y = fst_id x) (pfs_factions row)) x = Inr (with_faction c p x w)"
    using new(1) by (simp add: storeFaction_def Let_def factions.put_row_def factions.put_def row_def mutated_def with_faction_def)
  show "world_ok (with_faction c p x w)" using new(2) by (simp add: with_faction_def)
  have "catalogIndex fce_id (fdc_factions c) (fst_id x) < length (fdc_factions c)" using x by (simp add: faction_ok_def Let_def)
  from factions.item_put_row [OF faction_rows_ok [OF rows] this, of p q g]
  show "factionOf (with_faction c p x w) q g = (if q = p \<and> g = fst_id x then Some x else factionOf w q g)"
    by (simp add: factionOf_item with_faction_def)
qed

lemma current_found:
  fixes p :: u64
  assumes ok: "world_ok w" and c: "cw_factionDialogueCatalog w = Some c"
  defines "row \<equiv> playerRow pfs_player (freshFactions p) (cw_factionStates w)"
  shows "(case find_index (\<lambda>y. fst_id y = f) (pfs_factions row) of None \<Rightarrow> freshFaction f | Some i \<Rightarrow> pfs_factions row ! i) = currentFaction w p f"
    "find_index (\<lambda>y. fst_id y = f) (pfs_factions row) = None \<longleftrightarrow> factionOf w p f = None"
proof -
  have "find (\<lambda>y. fst_id y = f) (pfs_factions row) = factionOf w p f"
    unfolding row_def factionOf_item by (rule factions.playerRow_ok(3) [OF faction_rows_ok [OF world_faction_rows [OF ok c]]])
  then show "(case find_index (\<lambda>y. fst_id y = f) (pfs_factions row) of None \<Rightarrow> freshFaction f | Some i \<Rightarrow> pfs_factions row ! i) = currentFaction w p f"
    "find_index (\<lambda>y. fst_id y = f) (pfs_factions row) = None \<longleftrightarrow> factionOf w p f = None"
    using find_index_find [of "\<lambda>y. fst_id y = f" "pfs_factions row"] by (auto simp: currentFaction_def split: option.splits)
qed

text \<open>What the current standing satisfies whether it is stored or not.\<close>

lemma currentFaction_parts:
  assumes ok: "world_ok w" and c: "cw_factionDialogueCatalog w = Some c"
  shows "fst_rank (currentFaction w p f) \<noteq> None \<longleftrightarrow> fst_membershipRevision (currentFaction w p f) \<noteq> initial CounterFromOne"
    "fst_rank (currentFaction w p f) \<noteq> None \<longleftrightarrow> fst_lastMembershipChangeTick (currentFaction w p f) \<noteq> 0"
    "fst_reputationRevision (currentFaction w p f) = initial CounterFromOne \<longrightarrow>
       fst_reputation (currentFaction w p f) = 0 \<and> fst_lastReputationChangeTick (currentFaction w p f) = 0"
    "fst_reputationRevision (currentFaction w p f) \<noteq> initial CounterFromOne \<longrightarrow> fst_lastReputationChangeTick (currentFaction w p f) \<noteq> 0"
    "fst_rank (currentFaction w p f) = Some r \<Longrightarrow> containsRank (fdc_factions c ! catalogIndex fce_id (fdc_factions c) f) r"
proof -
  have "faction_ok c (currentFaction w p f)" if stored: "factionOf w p f \<noteq> None"
  proof -
    obtain row x where row: "lookup_key pfs_player (cw_factionStates w) p = Some row" and x: "find (\<lambda>x. fst_id x = f) (pfs_factions row) = Some x"
      using stored by (auto simp: factionOf_def findFactionState_def split: option.splits)
    have "faction_row_ok c row" using world_faction_rows [OF ok c] lookup_key_SomeD [OF row] by (simp add: validFactionState_iff)
    moreover have "x \<in> set (pfs_factions row)" using x by (auto simp: find_Some_iff)
    ultimately show ?thesis using row x by (simp add: faction_row_ok_def validFactions_iff currentFaction_def factionOf_def findFactionState_def)
  qed
  moreover have "currentFaction w p f = freshFaction f" if "factionOf w p f = None" using that by (simp add: currentFaction_def)
  ultimately show "fst_rank (currentFaction w p f) \<noteq> None \<longleftrightarrow> fst_membershipRevision (currentFaction w p f) \<noteq> initial CounterFromOne"
    "fst_rank (currentFaction w p f) \<noteq> None \<longleftrightarrow> fst_lastMembershipChangeTick (currentFaction w p f) \<noteq> 0"
    "fst_reputationRevision (currentFaction w p f) = initial CounterFromOne \<longrightarrow>
       fst_reputation (currentFaction w p f) = 0 \<and> fst_lastReputationChangeTick (currentFaction w p f) = 0"
    "fst_reputationRevision (currentFaction w p f) \<noteq> initial CounterFromOne \<longrightarrow> fst_lastReputationChangeTick (currentFaction w p f) \<noteq> 0"
    "fst_rank (currentFaction w p f) = Some r \<Longrightarrow> containsRank (fdc_factions c ! catalogIndex fce_id (fdc_factions c) f) r"
    using currentFaction_id [of w p f] by (cases "factionOf w p f"; simp add: faction_ok_def freshFaction_def initial_def Let_def)+
qed

lemma findFaction_place:
  "findFaction c f = Some d \<Longrightarrow> catalogIndex fce_id (fdc_factions c) f < length (fdc_factions c) \<and> fdc_factions c ! catalogIndex fce_id (fdc_factions c) f = d"
  by (simp add: findFaction_def catalogIndex_less catalogIndex_nth)

lemma setCanonicalFactionRank_succeeds:
  fixes p :: u64
  assumes ok: "world_ok w" and c: "cw_factionDialogueCatalog w = Some c" and d: "findFaction c f = Some d" and r: "containsRank d r"
  defines "x \<equiv> currentFaction w p f"
  assumes e: "e = fst_membershipRevision x" "e \<noteq> 0" "next_value e = Some n" and t: "t \<noteq> 0" "fst_lastMembershipChangeTick x \<le> t"
    and change: "fst_rank x \<noteq> Some r" and room: "faction_room w p f"
  defines "y \<equiv> x\<lparr>fst_rank := Some r, fst_membershipRevision := n, fst_lastMembershipChangeTick := t\<rparr>"
  shows "setCanonicalFactionRank w p f e r t = Inr (with_faction c p y w)" "faction_ok c y" "fst_id y = f"
proof -
  show id: "fst_id y = f" by (simp add: y_def x_def currentFaction_id)
  show y: "faction_ok c y"
    using findFaction_place [OF d] r t(1) next_value_not_first [OF e(3,2)] currentFaction_parts(3,4) [OF ok c, of p f] id
    by (simp add: faction_ok_def Let_def y_def x_def)
  note store = storeFaction_succeeds(1) [OF ok c y, unfolded id, OF room]
  have "\<not> (factionOf w p f \<noteq> None \<and> fst_rank x = Some r)" using change by simp
  then show "setCanonicalFactionRank w p f e r t = Inr (with_faction c p y w)"
    using d r e change leD [OF t(2)] store current_found [OF ok c, of f p]
    by (simp add: setCanonicalFactionRank_def c Let_def x_def y_def)
qed

lemma setCanonicalFactionReputation_succeeds:
  fixes p :: u64
  assumes ok: "world_ok w" and c: "cw_factionDialogueCatalog w = Some c" and d: "findFaction c f = Some d"
  defines "x \<equiv> currentFaction w p f"
  assumes e: "e = fst_reputationRevision x" "e \<noteq> 0" "next_value e = Some n" and t: "t \<noteq> 0" "fst_lastReputationChangeTick x \<le> t"
    and change: "v \<noteq> fst_reputation x" and room: "faction_room w p f"
  defines "y \<equiv> x\<lparr>fst_reputation := v, fst_reputationRevision := n, fst_lastReputationChangeTick := t\<rparr>"
  shows "setCanonicalFactionReputation w p f e v t = Inr (with_faction c p y w)" "faction_ok c y" "fst_id y = f"
proof -
  show id: "fst_id y = f" by (simp add: y_def x_def currentFaction_id)
  show y: "faction_ok c y"
    using findFaction_place [OF d] t(1) next_value_not_first [OF e(3,2)] currentFaction_parts [OF ok c, of p f] id
    by (simp add: faction_ok_def Let_def y_def x_def)
  note store = storeFaction_succeeds(1) [OF ok c y, unfolded id, OF room]
  show "setCanonicalFactionReputation w p f e v t = Inr (with_faction c p y w)"
    using d e leD [OF t(2)] change store current_found [OF ok c, of f p]
    by (simp add: setCanonicalFactionReputation_def c Let_def x_def y_def)
qed

section \<open>Dialogue\<close>

lemma validateCanonicalDialogueChoice_view:
  "cw_factionDialogueCatalog w = Some c \<Longrightarrow> validateCanonicalDialogueChoice w p k =
    (case findDialogueChoice c k of
       None \<Rightarrow> Some UnknownDialogueChoice
     | Some d \<Rightarrow> (case dce_requiredFaction d of
         None \<Rightarrow> None
       | Some g \<Rightarrow> (case factionOf w p g of
           None \<Rightarrow> Some DialogueChoiceIneligible
         | Some x \<Rightarrow> (case fst_rank x of
             None \<Rightarrow> Some DialogueChoiceIneligible
           | Some r \<Rightarrow> if r < dce_minimumRank d \<or> sint (fst_reputation x) < sint (dce_minimumReputation d)
                       then Some DialogueChoiceIneligible else None))))"
  by (auto simp: validateCanonicalDialogueChoice_def factionOf_def split: option.split)

text \<open>C32. With the current revision, a later tick and room, a player is given another rank of a faction; a choice that needs that faction,
  at most that rank and at most the player's reputation is open to the player from then on, and no choice changes for anybody else.\<close>

theorem promotion_opens_dialogue:
  fixes p :: u64
  assumes ok: "world_ok w" and c: "cw_factionDialogueCatalog w = Some c" and d: "findFaction c f = Some d" and r: "containsRank d r"
    and e: "e = fst_membershipRevision (currentFaction w p f)" "e \<noteq> 0" "next_value e = Some n"
    and t: "t \<noteq> 0" "fst_lastMembershipChangeTick (currentFaction w p f) \<le> t" and change: "fst_rank (currentFaction w p f) \<noteq> Some r"
    and room: "faction_room w p f" and choice: "findDialogueChoice c k = Some ch" "dce_requiredFaction ch = Some f"
    and enough: "dce_minimumRank ch \<le> r" "sint (dce_minimumReputation ch) \<le> sint (fst_reputation (currentFaction w p f))"
  shows "\<exists>w'. setCanonicalFactionRank w p f e r t = Inr w' \<and> validateCanonicalDialogueChoice w' p k = None
    \<and> (\<forall>q k'. q \<noteq> p \<longrightarrow> validateCanonicalDialogueChoice w' q k' = validateCanonicalDialogueChoice w q k')
    \<and> w'\<lparr>cw_factionStates := cw_factionStates w\<rparr> = w"
proof -
  let ?y = "(currentFaction w p f)\<lparr>fst_rank := Some r, fst_membershipRevision := n, fst_lastMembershipChangeTick := t\<rparr>"
  let ?w = "with_faction c p ?y w"
  note set = setCanonicalFactionRank_succeeds [OF ok c d r e t change room]
  have c': "cw_factionDialogueCatalog ?w = Some c" using c by (simp add: with_faction_def)
  note new = storeFaction_succeeds(3) [OF ok c set(2), unfolded set(3), OF room]
  have "validateCanonicalDialogueChoice ?w p k = None"
    using choice enough unfolding validateCanonicalDialogueChoice_view [OF c'] by (simp add: new not_less)
  moreover have "validateCanonicalDialogueChoice ?w q k' = validateCanonicalDialogueChoice w q k'" if "q \<noteq> p" for q k'
    using that unfolding validateCanonicalDialogueChoice_view [OF c'] validateCanonicalDialogueChoice_view [OF c] by (simp add: new cong: option.case_cong)
  moreover have "?w\<lparr>cw_factionStates := cw_factionStates w\<rparr> = w" by (simp add: with_faction_def)
  ultimately show ?thesis using set(1) by blast
qed

text \<open>The sample world with a choice that needs the second rank.\<close>

definition guildCatalog :: FactionDialogueCatalog where
  "guildCatalog = \<lparr>fdc_manifest = sampleManifest, fdc_factions = [\<lparr>fce_id = 21, fce_ranks = [1, 2]\<rparr>],
     fdc_dialogueChoices = [\<lparr>dce_id = 51, dce_requiredFaction = Some 21, dce_minimumRank = 2, dce_minimumReputation = 0\<rparr>]\<rparr>"

definition guildWorld :: CanonicalWorldState where
  "guildWorld = sampleWorld\<lparr>cw_factionDialogueCatalog := Some guildCatalog\<rparr>"

lemma guildWorld_ok: "world_ok guildWorld"
  using sampleWorld_ok
  by (simp add: world_ok_def guildWorld_def sampleWorld_def journal_part_ok_def faction_part_ok_def catalogs_ok_def validFactionState_iff
      guildCatalog_def sampleFactions_def sampleQuests_def sampleWeather_def)

theorem promotion_opens_dialogue_witness:
  "\<exists>w'. setCanonicalFactionRank guildWorld 7 21 1 2 5 = Inr w' \<and> validateCanonicalDialogueChoice w' 7 51 = None
     \<and> validateCanonicalDialogueChoice guildWorld 7 51 = Some DialogueChoiceIneligible"
proof -
  have c: "cw_factionDialogueCatalog guildWorld = Some guildCatalog" by (simp add: guildWorld_def)
  have d: "findFaction guildCatalog 21 = Some \<lparr>fce_id = 21, fce_ranks = [1, 2]\<rparr>" by (simp add: findFaction_def guildCatalog_def)
  have none: "factionOf guildWorld 7 21 = None"
    by (simp add: factionOf_def findFactionState_def guildWorld_def sampleWorld_def lookup_key_def find_key_def lower_bound_def)
  then have x: "currentFaction guildWorld 7 21 = freshFaction 21" by (simp add: currentFaction_def)
  have room: "faction_room guildWorld 7 21"
    by (simp add: faction_room_def guildWorld_def sampleWorld_def MaximumPlayerFactionStates_def MaximumCanonicalFactionStates_def)
  have choice: "findDialogueChoice guildCatalog 51 = Some \<lparr>dce_id = 51, dce_requiredFaction = Some 21, dce_minimumRank = 2, dce_minimumReputation = 0\<rparr>"
    by (simp add: findDialogueChoice_def guildCatalog_def)
  have "validateCanonicalDialogueChoice guildWorld 7 51 = Some DialogueChoiceIneligible"
    unfolding validateCanonicalDialogueChoice_view [OF c] by (simp add: choice none)
  with promotion_opens_dialogue [OF guildWorld_ok c d _ _ _ _ _ _ _ room choice, of 2 1 2 5] show ?thesis
    unfolding x by (auto simp: freshFaction_def initial_def next_value_def u64_max_def containsRank_def)
qed

end
