(* ===== verification/Actor_Simulation.thy ===== *)
theory Actor_Simulation
  imports Movement_Kernel Canonical_State
begin

text \<open>
  Actors that are not players (\<^verbatim>\<open>actor_catalog.hpp\<close>, \<^verbatim>\<open>actor_catalog.cpp\<close>, \<^verbatim>\<open>actor_simulation.hpp\<close>,
  \<^verbatim>\<open>actor_simulation.cpp\<close>): the catalog with the package each of them follows, the world of their states, and
  the advance of all of them to a tick. An actor stands, travels to its waypoints once or goes round them
  for ever; a dead one stops, and one that was attacked runs after its target. Of the combat state it reads
  whether somebody is dead, the target of an actor and its reach, which is what the records here hold.
\<close>

section \<open>The catalog\<close>

type_synonym ActorId = u64

definition MaximumActorCatalogEntries :: nat where "MaximumActorCatalogEntries = 4096"
definition MaximumActorWaypoints :: nat where "MaximumActorWaypoints = 32"

datatype ActorAiPackageKind = IdlePackage | TravelPackage | WanderPackage

datatype ActorActivity = IdleActivity | TravelActivity | WanderActivity

record ActorAiPackage =
  pk_kind :: ActorAiPackageKind
  pk_waypoints :: "Position3 list"

definition createActorAiPackage :: "ActorAiPackageKind \<Rightarrow> Position3 list \<Rightarrow> ActorAiPackage option" where
  "createActorAiPackage kind waypoints =
     (if length waypoints > MaximumActorWaypoints then None
      else if kind = IdlePackage \<and> waypoints \<noteq> [] \<or> kind \<noteq> IdlePackage \<and> waypoints = [] then None
      else Some \<lparr>pk_kind = kind, pk_waypoints = waypoints\<rparr>)"

record ActorCatalogEntry =
  ace_actorId :: ActorId
  ace_entityId :: EntityId
  ace_prototypeId :: ActorPrototypeId
  ace_initialRoot :: Transform
  ace_aiPackage :: ActorAiPackage

record ActorCatalog =
  ac_contentManifestId :: ContentManifestId
  ac_entries :: "ActorCatalogEntry list"

definition createActorCatalog :: "ContentManifest \<Rightarrow> ActorCatalogEntry list \<Rightarrow> ActorCatalog option" where
  "createActorCatalog manifest entries =
     (if length entries > MaximumActorCatalogEntries then None
      else let ordered = sort_key ace_actorId entries
      in if \<not> list_all (\<lambda>e. manifest_contains manifest (t_cell (ace_initialRoot e))) ordered
            \<or> \<not> no_adjacent_equal (map ace_actorId ordered) \<or> \<not> no_adjacent_equal (sort (map ace_entityId ordered))
         then None
         else Some \<lparr>ac_contentManifestId = mId manifest, ac_entries = ordered\<rparr>)"

definition findCatalogActor :: "ActorCatalog \<Rightarrow> ActorId \<Rightarrow> ActorCatalogEntry option" where
  "findCatalogActor catalog actor = lookup_key ace_actorId (ac_entries catalog) actor"

section \<open>The world of actors\<close>

record CanonicalActorEntityState =
  as_actorId :: ActorId
  as_entityId :: EntityId
  as_prototypeId :: ActorPrototypeId
  as_root :: Transform
  as_velocity :: LinearVelocity3
  as_revision :: EntityRevision
  as_authorityEpoch :: AuthorityEpoch
  as_lastChangeTick :: ServerTick
  as_activity :: ActorActivity
  as_waypointIndex :: u16

datatype CanonicalActorWorldErrorCode =
  ActorLimitExceeded | ActorIdsNotStrictlyOrdered | DuplicateActorEntityId | ActorWorldCatalogMismatch | ActorWorldAllocationFailure

record CanonicalActorWorldError =
  we_code :: CanonicalActorWorldErrorCode
  we_index :: nat
  we_value :: u64
  we_related :: u64

record CanonicalActorWorld =
  aw_actors :: "CanonicalActorEntityState list"

type_synonym CanonicalActorWorldResult = "CanonicalActorWorldError + CanonicalActorWorld"

definition findActor :: "CanonicalActorWorld \<Rightarrow> ActorId \<Rightarrow> CanonicalActorEntityState option" where
  "findActor world actor = lookup_key as_actorId (aw_actors world) actor"

definition actorOrderStep :: "CanonicalActorEntityState list \<Rightarrow> nat \<Rightarrow> CanonicalActorWorldError option" where
  "actorOrderStep actors index =
     (let previous = as_actorId (actors ! (index - 1)); current = as_actorId (actors ! index)
      in if previous \<ge> current
         then Some \<lparr>we_code = ActorIdsNotStrictlyOrdered, we_index = index, we_value = current, we_related = previous\<rparr> else None)"

text \<open>\<^verbatim>\<open>std::ranges::adjacent_find\<close>.\<close>

fun adjacentDuplicate :: "'a list \<Rightarrow> 'a option" where
  "adjacentDuplicate (x # y # zs) = (if x = y then Some x else adjacentDuplicate (y # zs))"
| "adjacentDuplicate _ = None"

definition createCanonicalActorWorld :: "CanonicalActorEntityState list \<Rightarrow> CanonicalActorWorldResult" where
  "createCanonicalActorWorld actors =
     (if length actors > MaximumActorCatalogEntries
      then Inl \<lparr>we_code = ActorLimitExceeded, we_index = length actors, we_value = 0, we_related = 0\<rparr>
      else case first_error (actorOrderStep actors) [1..<length actors] of
        Some e \<Rightarrow> Inl e
      | None \<Rightarrow>
        (case adjacentDuplicate (sort (map as_entityId actors)) of
           Some duplicate \<Rightarrow> Inl \<lparr>we_code = DuplicateActorEntityId, we_index = 0, we_value = duplicate, we_related = 0\<rparr>
         | None \<Rightarrow> Inr \<lparr>aw_actors = actors\<rparr>))"

fun initialActivity :: "ActorAiPackageKind \<Rightarrow> ActorActivity" where
  "initialActivity IdlePackage = IdleActivity"
| "initialActivity TravelPackage = TravelActivity"
| "initialActivity WanderPackage = WanderActivity"

definition stationary :: LinearVelocity3 where
  "stationary = \<lparr>vel_x = 0, vel_y = 0, vel_z = 0\<rparr>"

definition initialActor :: "ActorCatalogEntry \<Rightarrow> CanonicalActorEntityState" where
  "initialActor entry =
     \<lparr>as_actorId = ace_actorId entry, as_entityId = ace_entityId entry, as_prototypeId = ace_prototypeId entry,
      as_root = ace_initialRoot entry, as_velocity = stationary, as_revision = initial CounterFromOne,
      as_authorityEpoch = initial CounterFromOne, as_lastChangeTick = initial CounterFromZero,
      as_activity = initialActivity (pk_kind (ace_aiPackage entry)), as_waypointIndex = 0\<rparr>"

definition createInitialCanonicalActorWorld :: "ActorCatalog \<Rightarrow> CanonicalActorWorldResult" where
  "createInitialCanonicalActorWorld catalog = createCanonicalActorWorld (map initialActor (ac_entries catalog))"

definition actorStateMatchesCatalog :: "CanonicalActorEntityState \<Rightarrow> ActorCatalogEntry \<Rightarrow> bool" where
  "actorStateMatchesCatalog state entry \<longleftrightarrow>
     as_actorId state = ace_actorId entry \<and> as_entityId state = ace_entityId entry \<and> as_prototypeId state = ace_prototypeId entry
     \<and> t_cell (as_root state) = t_cell (ace_initialRoot entry)
     \<and> (case pk_kind (ace_aiPackage entry) of
          IdlePackage \<Rightarrow> as_activity state = IdleActivity \<and> as_waypointIndex state = 0
        | TravelPackage \<Rightarrow> (as_activity state = TravelActivity \<or> as_activity state = IdleActivity)
            \<and> unat (as_waypointIndex state) < length (pk_waypoints (ace_aiPackage entry))
        | WanderPackage \<Rightarrow> as_activity state = WanderActivity
            \<and> unat (as_waypointIndex state) < length (pk_waypoints (ace_aiPackage entry)))"

definition catalogMismatchStep :: "ActorCatalogEntry list \<Rightarrow> CanonicalActorEntityState list \<Rightarrow> nat \<Rightarrow> CanonicalActorWorldError option" where
  "catalogMismatchStep entries actors index =
     (if actorStateMatchesCatalog (actors ! index) (entries ! index) then None
      else Some \<lparr>we_code = ActorWorldCatalogMismatch, we_index = index, we_value = as_actorId (actors ! index),
                 we_related = ace_actorId (entries ! index)\<rparr>)"

definition restoreCanonicalActorWorld :: "ActorCatalog \<Rightarrow> CanonicalActorEntityState list \<Rightarrow> CanonicalActorWorldResult" where
  "restoreCanonicalActorWorld catalog actors =
     (if length actors \<noteq> length (ac_entries catalog)
      then Inl \<lparr>we_code = ActorWorldCatalogMismatch, we_index = length actors, we_value = of_nat (length (ac_entries catalog)), we_related = 0\<rparr>
      else case first_error (catalogMismatchStep (ac_entries catalog) actors) [0..<length actors] of
        Some e \<Rightarrow> Inl e
      | None \<Rightarrow> createCanonicalActorWorld actors)"

definition actorAndPlayerEntityIdsAreDisjoint :: "CanonicalActorWorld \<Rightarrow> CanonicalServerState \<Rightarrow> bool" where
  "actorAndPlayerEntityIdsAreDisjoint actors state \<longleftrightarrow>
     \<not> list_ex (\<lambda>actor. list_ex (\<lambda>player. as_entityId actor = entityId player) (players state)) (aw_actors actors)"

section \<open>Geometry\<close>

definition facingToward :: "i64 \<Rightarrow> i64 \<Rightarrow> u32" where
  "facingToward vx vy = (if 0 <s vx then 0x40000000 else if vx <s 0 then 0xC0000000 else if vy <s 0 then 0x80000000 else 0)"

definition coordinateMagnitude :: "i64 \<Rightarrow> u64" where
  "coordinateMagnitude value = (if value <s 0 then - (value + 1) + 1 else value)"

definition coordinateDelta :: "i64 \<Rightarrow> i64 \<Rightarrow> u64 option" where
  "coordinateDelta first second =
     (if (first <s 0) = (second <s 0) then Some (if first <s second then second - first else first - second)
      else let a = coordinateMagnitude first; b = coordinateMagnitude second in if a > u64_max - b then None else Some (a + b))"

definition withinReach :: "Position3 \<Rightarrow> Position3 \<Rightarrow> u32 \<Rightarrow> bool" where
  "withinReach first second reach =
     (case (coordinateDelta (pos_x first) (pos_x second), coordinateDelta (pos_y first) (pos_y second),
            coordinateDelta (pos_z first) (pos_z second)) of
        (Some x, Some y, Some z) \<Rightarrow>
          \<not> (x > ucast reach \<or> y > ucast reach \<or> z > ucast reach)
          \<and> x * x + y * y + z * z \<le> ucast reach * ucast reach
      | _ \<Rightarrow> False)"

text \<open>The distance on one axis, or at least the limit.\<close>

definition axisDistance :: "i64 \<Rightarrow> i64 \<Rightarrow> u64 \<Rightarrow> u64" where
  "axisDistance source target limit =
     (let first = coordinateMagnitude source; second = coordinateMagnitude target
      in if 0 \<le>s source \<and> 0 \<le>s target then if source <s target then second - first else first - second
         else if source <s 0 \<and> target <s 0 then if source <s target then first - second else second - first
         else if first \<ge> limit \<or> second \<ge> limit \<or> first \<ge> limit - second then limit else first + second)"

definition stepToward :: "i64 \<Rightarrow> i64 \<Rightarrow> u64 \<Rightarrow> i64" where
  "stepToward source target limit =
     (if source = target then 0
      else let step = min (axisDistance source target limit) limit in if source <s target then step else - step)"

definition velocityToward :: "Position3 \<Rightarrow> Position3 \<Rightarrow> u64 \<Rightarrow> LinearVelocity3" where
  "velocityToward source target speed =
     (if pos_x source \<noteq> pos_x target then \<lparr>vel_x = stepToward (pos_x source) (pos_x target) speed, vel_y = 0, vel_z = 0\<rparr>
      else if pos_y source \<noteq> pos_y target then \<lparr>vel_x = 0, vel_y = stepToward (pos_y source) (pos_y target) speed, vel_z = 0\<rparr>
      else \<lparr>vel_x = 0, vel_y = 0, vel_z = stepToward (pos_z source) (pos_z target) speed\<rparr>)"

section \<open>The simulation\<close>

text \<open>What the simulation reads of the combat world.\<close>

record CombatActor =
  ca_actorId :: ActorId
  ca_dead :: bool
  ca_attackReachQuanta :: u32
  ca_aggressionTarget :: "PlayerId option"

record CombatPlayer =
  cp_playerId :: PlayerId
  cp_dead :: bool

record CombatView =
  cv_players :: "CombatPlayer list"
  cv_actors :: "CombatActor list"

definition findCombatActor :: "CombatView \<Rightarrow> ActorId \<Rightarrow> CombatActor option" where
  "findCombatActor combat actor = lookup_key ca_actorId (cv_actors combat) actor"

definition findCombatPlayer :: "CombatView \<Rightarrow> PlayerId \<Rightarrow> CombatPlayer option" where
  "findCombatPlayer combat player = lookup_key cp_playerId (cv_players combat) player"

datatype ActorSimulationErrorCode =
  SimulationCatalogMismatch | SimulationTickRegression | SimulationRevisionExhausted | MovementRejected | InvalidResult

record ActorSimulationError =
  ase_code :: ActorSimulationErrorCode
  ase_actorIndex :: nat
  ase_movementError :: "MovementKernelError option"

type_synonym ActorSimulationResult = "ActorSimulationError + CanonicalActorWorld"

definition simulationError :: "ActorSimulationErrorCode \<Rightarrow> nat \<Rightarrow> ActorSimulationError" where
  "simulationError code index = \<lparr>ase_code = code, ase_actorIndex = index, ase_movementError = None\<rparr>"

definition activeCell :: "CanonicalServerState \<Rightarrow> CellId \<Rightarrow> bool" where
  "activeCell state cell \<longleftrightarrow>
     list_ex (\<lambda>s. case findPlayer state (sp_playerId s) of None \<Rightarrow> False | Some p \<Rightarrow> t_cell (transform p) = cell) (activeSessions state)"

definition replaceActor ::
  "CanonicalActorEntityState \<Rightarrow> ServerTick \<Rightarrow> Transform \<Rightarrow> LinearVelocity3 \<Rightarrow> ActorActivity \<Rightarrow> u16 \<Rightarrow> nat
   \<Rightarrow> ActorSimulationError + CanonicalActorEntityState" where
  "replaceActor current tick root velocity activity waypointIndex actorIndex =
     (if root = as_root current \<and> velocity = as_velocity current \<and> activity = as_activity current
         \<and> waypointIndex = as_waypointIndex current
      then Inr current
      else if tick < as_lastChangeTick current then Inl (simulationError SimulationTickRegression actorIndex)
      else (case next_value (as_revision current) of
              None \<Rightarrow> Inl (simulationError SimulationRevisionExhausted actorIndex)
            | Some revision \<Rightarrow>
              Inr (current\<lparr>as_root := root, as_velocity := velocity, as_revision := revision, as_lastChangeTick := tick,
                           as_activity := activity, as_waypointIndex := waypointIndex\<rparr>)))"

text \<open>A step of movement towards a position, turned in its direction.\<close>

definition moveToward ::
  "ContentManifestId \<Rightarrow> MovementProfile \<Rightarrow> LocomotionMode \<Rightarrow> EntityId \<Rightarrow> ServerTick \<Rightarrow> nat \<Rightarrow> Transform \<Rightarrow> Position3 \<Rightarrow> ServerCollisionQuery
   \<Rightarrow> ActorSimulationError + (Transform \<times> LinearVelocity3)" where
  "moveToward manifest profile mode entity tick index root target collision =
     (case advanceMovementKernel manifest profile mode entity tick root
             (velocityToward (t_position root) target (profileSpeed profile mode)) collision of
        Inl e \<Rightarrow> Inl \<lparr>ase_code = MovementRejected, ase_actorIndex = index, ase_movementError = Some e\<rparr>
      | Inr step \<Rightarrow>
        let root = ks_root step; velocity = ks_velocity step
        in Inr (if vel_x velocity \<noteq> 0 \<or> vel_y velocity \<noteq> 0
                then root\<lparr>t_orientation := (t_orientation root)\<lparr>turn_z := facingToward (vel_x velocity) (vel_y velocity)\<rparr>\<rparr> else root,
                velocity))"

text \<open>The target an actor runs after: a living player in its cell.\<close>

definition aggressionTarget :: "CanonicalServerState \<Rightarrow> CombatView \<Rightarrow> CombatActor \<Rightarrow> CellId \<Rightarrow> CanonicalPlayerEntityState option" where
  "aggressionTarget state combat combatActor cell =
     (case ca_aggressionTarget combatActor of
        None \<Rightarrow> None
      | Some p \<Rightarrow>
        (case (findPlayer state p, findCombatPlayer combat p) of
           (Some target, Some targetCombat) \<Rightarrow>
             if \<not> cp_dead targetCombat \<and> t_cell (transform target) = cell then Some target else None
         | _ \<Rightarrow> None))"

definition followPackage ::
  "ContentManifestId \<Rightarrow> CanonicalServerState \<Rightarrow> ServerTick \<Rightarrow> MovementProfile \<Rightarrow> ServerCollisionQuery \<Rightarrow> nat
   \<Rightarrow> CanonicalActorEntityState \<Rightarrow> ActorCatalogEntry \<Rightarrow> ActorSimulationError + CanonicalActorEntityState" where
  "followPackage manifest state tick profile collision index actor entry =
     (if \<not> activeCell state (t_cell (as_root actor)) then Inr actor
      else let root = as_root actor; activity = as_activity actor; waypointIndex = as_waypointIndex actor;
               waypoints = pk_waypoints (ace_aiPackage entry)
      in if activity = IdleActivity then replaceActor actor tick root stationary activity waypointIndex index
         else if t_position root = waypoints ! unat waypointIndex
         then if activity = TravelActivity \<and> unat waypointIndex + 1 = length waypoints
              then replaceActor actor tick root stationary IdleActivity waypointIndex index
              else replaceActor actor tick root stationary activity (of_nat ((unat waypointIndex + 1) mod length waypoints)) index
         else (case moveToward manifest profile Walk (as_entityId actor) tick index root (waypoints ! unat waypointIndex) collision of
                 Inl e \<Rightarrow> Inl e
               | Inr (root', velocity) \<Rightarrow> replaceActor actor tick root' velocity activity waypointIndex index))"

definition advanceActor ::
  "ContentManifestId \<Rightarrow> CanonicalServerState \<Rightarrow> CombatView option \<Rightarrow> ServerTick \<Rightarrow> MovementProfile \<Rightarrow> ServerCollisionQuery \<Rightarrow> nat
   \<Rightarrow> CanonicalActorEntityState \<Rightarrow> ActorCatalogEntry \<Rightarrow> ActorSimulationError + CanonicalActorEntityState" where
  "advanceActor manifest state combat tick profile collision index actor entry =
     (if \<not> actorStateMatchesCatalog actor entry then Inl (simulationError SimulationCatalogMismatch index)
      else if tick < as_lastChangeTick actor then Inl (simulationError SimulationTickRegression index)
      else (case combat of
              None \<Rightarrow> followPackage manifest state tick profile collision index actor entry
            | Some combat \<Rightarrow>
              (case findCombatActor combat (as_actorId actor) of
                 None \<Rightarrow> Inl (simulationError SimulationCatalogMismatch index)
               | Some combatActor \<Rightarrow>
                 if ca_dead combatActor
                 then if as_activity actor = IdleActivity \<and> as_velocity actor = stationary then Inr actor
                      else replaceActor actor tick (as_root actor) stationary IdleActivity (as_waypointIndex actor) index
                 else (case aggressionTarget state combat combatActor (t_cell (as_root actor)) of
                         None \<Rightarrow> followPackage manifest state tick profile collision index actor entry
                       | Some target \<Rightarrow>
                         if withinReach (t_position (as_root actor)) (t_position (transform target)) (ca_attackReachQuanta combatActor)
                         then replaceActor actor tick (as_root actor) stationary IdleActivity (as_waypointIndex actor) index
                         else (case moveToward manifest profile Run (as_entityId actor) tick index (as_root actor)
                                      (t_position (transform target)) collision of
                                 Inl e \<Rightarrow> Inl e
                               | Inr (root, velocity) \<Rightarrow> replaceActor actor tick root velocity IdleActivity (as_waypointIndex actor) index)))))"

fun advanceEach ::
  "(nat \<Rightarrow> CanonicalActorEntityState \<Rightarrow> ActorCatalogEntry \<Rightarrow> ActorSimulationError + CanonicalActorEntityState) \<Rightarrow> nat
   \<Rightarrow> (CanonicalActorEntityState \<times> ActorCatalogEntry) list \<Rightarrow> ActorSimulationError + CanonicalActorEntityState list" where
  "advanceEach step index [] = Inr []"
| "advanceEach step index ((actor, entry) # rest) =
     (case step index actor entry of
        Inl e \<Rightarrow> Inl e
      | Inr replacement \<Rightarrow>
        (case advanceEach step (index + 1) rest of Inl e \<Rightarrow> Inl e | Inr replacements \<Rightarrow> Inr (replacement # replacements)))"

definition advanceActors ::
  "CanonicalActorWorld \<Rightarrow> ActorCatalog \<Rightarrow> CanonicalServerState \<Rightarrow> CombatView option \<Rightarrow> ServerTick \<Rightarrow> MovementProfile
   \<Rightarrow> ServerCollisionQuery \<Rightarrow> ActorSimulationResult" where
  "advanceActors world catalog state combat tick profile collision =
     (if length (aw_actors world) \<noteq> length (ac_entries catalog) \<or> \<not> actorAndPlayerEntityIdsAreDisjoint world state
      then Inl (simulationError SimulationCatalogMismatch 0)
      else (case advanceEach (advanceActor (ac_contentManifestId catalog) state combat tick profile collision) 0
                   (zip (aw_actors world) (ac_entries catalog)) of
              Inl e \<Rightarrow> Inl e
            | Inr replacements \<Rightarrow>
              (case createCanonicalActorWorld replacements of
                 Inl _ \<Rightarrow> Inl (simulationError InvalidResult 0)
               | Inr created \<Rightarrow> Inr created)))"

text \<open>The two overloads.\<close>

definition advanceActorSimulation ::
  "CanonicalActorWorld \<Rightarrow> ActorCatalog \<Rightarrow> CanonicalServerState \<Rightarrow> ServerTick \<Rightarrow> MovementProfile \<Rightarrow> ServerCollisionQuery \<Rightarrow> ActorSimulationResult" where
  "advanceActorSimulation world catalog state tick profile collision = advanceActors world catalog state None tick profile collision"

definition advanceActorSimulationWithCombat ::
  "CanonicalActorWorld \<Rightarrow> ActorCatalog \<Rightarrow> CanonicalServerState \<Rightarrow> CombatView \<Rightarrow> ServerTick \<Rightarrow> MovementProfile \<Rightarrow> ServerCollisionQuery
   \<Rightarrow> ActorSimulationResult" where
  "advanceActorSimulationWithCombat world catalog state combat tick profile collision =
     advanceActors world catalog state (Some combat) tick profile collision"

end
