(* ===== verification/Actor_Geometry.thy ===== *)
theory Actor_Geometry
  imports Actor_Simulation
begin

text \<open>
  The geometry of the simulation of actors: distances, reach and steps are exact at the widths of the code, a
  step of movement ends between its start and its target, and it can fail by the collision query only.
\<close>

section \<open>Geometry is exact\<close>

lemma sint_uint_i64: "sint (v :: i64) = (if v <s 0 then uint v - 18446744073709551616 else uint v)"
proof -
  have mod: "uint v = sint v mod 18446744073709551616" using uint_sint [of v] by (simp add: take_bit_eq_mod)
  show ?thesis
  proof (cases "v <s 0")
    case True
    then have neg: "sint v < 0" by (simp add: word_sless_alt)
    have "uint v = (sint v + 18446744073709551616) mod 18446744073709551616" unfolding mod by (simp only: mod_add_self2)
    also have "\<dots> = sint v + 18446744073709551616" using neg sint_i64 [of v] by (intro mod_pos_pos_trivial) simp_all
    finally show ?thesis using True by simp
  next
    case False
    then have "0 \<le> sint v" by (simp add: word_sless_alt)
    then have "uint v = sint v" unfolding mod using sint_i64 [of v] by (intro mod_pos_pos_trivial) simp_all
    with False show ?thesis by simp
  qed
qed

lemma uint_neg: "v \<noteq> 0 \<Longrightarrow> uint (- v :: u64) = 18446744073709551616 - uint v"
proof -
  assume "v \<noteq> 0"
  then have "uint v \<noteq> 0" by (simp add: uint_0_iff)
  then have pos: "0 < uint v" using uint_ge_0 [of v] by linarith
  have lt: "uint v < 18446744073709551616" using uint_lt2p [of v] by simp
  have "uint (- v) = (- uint v) mod 2 ^ LENGTH(64)" by (rule uint_word_ariths)
  also have "\<dots> = (- uint v + 18446744073709551616) mod 18446744073709551616" by simp
  also have "\<dots> = - uint v + 18446744073709551616" using pos lt by (intro mod_pos_pos_trivial) linarith+
  finally show ?thesis by linarith
qed

lemma coordinateMagnitude_exact: "unat (coordinateMagnitude v) = nat \<bar>sint v\<bar>"
proof (cases "v <s 0")
  case True
  then have neg: "sint v < 0" by (simp add: word_sless_alt)
  then have "v \<noteq> 0" by auto
  have "coordinateMagnitude v = - v" using True by (simp add: coordinateMagnitude_def)
  then have "uint (coordinateMagnitude v) = - sint v" using True uint_neg [OF \<open>v \<noteq> 0\<close>] sint_uint_i64 [of v] by simp
  with neg show ?thesis unfolding unat_eq_nat_uint by simp
next
  case False
  then have "0 \<le> sint v" by (simp add: word_sless_alt)
  with False sint_uint_i64 [of v] show ?thesis unfolding unat_eq_nat_uint by (simp add: coordinateMagnitude_def)
qed

lemma coordinateDelta_exact: "\<exists>d. coordinateDelta a b = Some d \<and> unat d = nat \<bar>sint a - sint b\<bar>"
proof (cases "(a <s 0) = (b <s 0)")
  case True
  have diff: "unat (y - x) = nat (sint y - sint x)" if le: "sint x \<le> sint y" and same: "(x <s 0) = (y <s 0)" for x y :: i64
  proof -
    have "uint x \<le> uint y" using le same sint_uint_i64 [of x] sint_uint_i64 [of y] by (simp split: if_splits)
    then have "uint (y - x) = uint y - uint x" unfolding uint_minus_simple_alt [symmetric] word_le_def .
    also have "\<dots> = sint y - sint x" using same sint_uint_i64 [of x] sint_uint_i64 [of y] by simp
    finally show ?thesis unfolding unat_eq_nat_uint by (rule arg_cong)
  qed
  show ?thesis
  proof (cases "a <s b")
    case less: True
    then have "sint a \<le> sint b" "\<bar>sint a - sint b\<bar> = sint b - sint a" by (simp_all add: word_sless_alt)
    with diff [of a b] True less show ?thesis by (simp add: coordinateDelta_def)
  next
    case ge: False
    then have "sint b \<le> sint a" "\<bar>sint a - sint b\<bar> = sint a - sint b" by (simp_all add: word_sless_alt)
    with diff [of b a] True ge show ?thesis by (simp add: coordinateDelta_def)
  qed
next
  case False
  let ?a = "coordinateMagnitude a" and ?b = "coordinateMagnitude b"
  have signs: "sint a < 0 \<and> 0 \<le> sint b \<or> 0 \<le> sint a \<and> sint b < 0" using False by (auto simp: word_sless_alt)
  have m: "unat ?a = nat \<bar>sint a\<bar>" "unat ?b = nat \<bar>sint b\<bar>" by (rule coordinateMagnitude_exact)+
  have "nat \<bar>sint a\<bar> + nat \<bar>sint b\<bar> < 2 ^ 64" using signs sint_i64 [of a] sint_i64 [of b] by auto
  then have fits: "unat ?a + unat ?b < 2 ^ 64" unfolding m .
  then have "\<not> ?a > u64_max - ?b" by (simp add: word_less_nat_alt unat_u64_max_minus) 
  moreover have "unat (?a + ?b) = nat \<bar>sint a - sint b\<bar>" using fits signs m by (subst unat_plus_no_wrap) auto
  ultimately show ?thesis using False by (simp add: coordinateDelta_def Let_def)
qed

text \<open>The reaches that a combat world admits are at most \<open>2 ^ 30\<close>.\<close>

lemma withinReach_iff:
  assumes r: "unat r \<le> 2 ^ 30"
  shows "withinReach a b r \<longleftrightarrow> distance_squared a b \<le> (int (unat r))\<^sup>2"
proof -
  obtain dx dy dz where d: "coordinateDelta (pos_x a) (pos_x b) = Some dx" "coordinateDelta (pos_y a) (pos_y b) = Some dy"
      "coordinateDelta (pos_z a) (pos_z b) = Some dz"
    and u: "unat dx = nat \<bar>sint (pos_x a) - sint (pos_x b)\<bar>" "unat dy = nat \<bar>sint (pos_y a) - sint (pos_y b)\<bar>"
      "unat dz = nat \<bar>sint (pos_z a) - sint (pos_z b)\<bar>"
    using coordinateDelta_exact by metis
  have int: "int ((unat dx)\<^sup>2 + (unat dy)\<^sup>2 + (unat dz)\<^sup>2) = distance_squared a b" by (simp add: distance_squared_def u)
  have "withinReach a b r \<longleftrightarrow> (unat dx)\<^sup>2 + (unat dy)\<^sup>2 + (unat dz)\<^sup>2 \<le> (unat r)\<^sup>2"
  proof (cases "unat dx \<le> unat r \<and> unat dy \<le> unat r \<and> unat dz \<le> unat r")
    case True
    then have sq: "unat (dx * dx) = (unat dx)\<^sup>2" "unat (dy * dy) = (unat dy)\<^sup>2" "unat (dz * dz) = (unat dz)\<^sup>2"
      using unat_square_no_wrap by blast+
    have "(unat r)\<^sup>2 \<le> (2 ^ 30)\<^sup>2" using r by (rule power_mono) simp
    then have "(unat r)\<^sup>2 \<le> 1152921504606846976" by simp
    moreover have "(unat dx)\<^sup>2 \<le> (unat r)\<^sup>2" "(unat dy)\<^sup>2 \<le> (unat r)\<^sup>2" "(unat dz)\<^sup>2 \<le> (unat r)\<^sup>2"
      using True by (auto intro: power_mono)
    ultimately have "(unat dx)\<^sup>2 + (unat dy)\<^sup>2 + (unat dz)\<^sup>2 < 18446744073709551616" by linarith
    then have "unat (dx * dx + dy * dy + dz * dz) = (unat dx)\<^sup>2 + (unat dy)\<^sup>2 + (unat dz)\<^sup>2"
      using sq by (subst unat_plus_no_wrap, subst unat_plus_no_wrap) (simp_all add: unat_plus_no_wrap)
    moreover have "unat ((ucast r :: u64) * ucast r) = (unat r)\<^sup>2"
      using square_lt_u64 [of r] by (subst unat_times_no_wrap) (simp_all add: power2_eq_square)
    ultimately show ?thesis using True by (simp add: withinReach_def d word_less_nat_alt word_le_nat_alt)
  next
    case False
    then have "(unat r)\<^sup>2 < (unat dx)\<^sup>2 \<or> (unat r)\<^sup>2 < (unat dy)\<^sup>2 \<or> (unat r)\<^sup>2 < (unat dz)\<^sup>2"
      by (auto simp: not_le power_strict_mono)
    with False show ?thesis by (auto simp: withinReach_def d word_less_nat_alt not_le)
  qed
  also have "\<dots> \<longleftrightarrow> int ((unat dx)\<^sup>2 + (unat dy)\<^sup>2 + (unat dz)\<^sup>2) \<le> int ((unat r)\<^sup>2)" by (simp only: of_nat_le_iff)
  finally show ?thesis unfolding int by simp
qed

text \<open>The step is the signed distance, cut at the limit.\<close>

lemma axisDistance_exact: "unat (min (axisDistance source target limit) limit) = min (nat \<bar>sint target - sint source\<bar>) (unat limit)"
proof -
  define first second where "first = coordinateMagnitude source" and "second = coordinateMagnitude target"
  note distance_def = axisDistance_def [of source target limit, unfolded Let_def, folded first_def second_def]
  let ?distance = "axisDistance source target limit"
  have m: "unat first = nat \<bar>sint source\<bar>" "unat second = nat \<bar>sint target\<bar>" by (simp_all add: first_def second_def coordinateMagnitude_exact)
  have min: "unat (min x limit) = min (unat x) (unat limit)" for x by (simp add: min_def word_le_nat_alt)
  consider "0 \<le> sint source" "0 \<le> sint target" | "sint source < 0" "sint target < 0"
    | "(0 \<le> sint source) \<noteq> (0 \<le> sint target)" by linarith
  then show ?thesis
  proof cases
    case 1
    then have "unat ?distance = nat \<bar>sint target - sint source\<bar>"
      using m by (auto simp: distance_def word_sle_eq word_sless_alt unat_minus_le word_le_nat_alt)
    then show ?thesis by (simp add: min)
  next
    case 2
    then have "unat ?distance = nat \<bar>sint target - sint source\<bar>"
      using m by (auto simp: distance_def word_sle_eq word_sless_alt unat_minus_le word_le_nat_alt)
    then show ?thesis by (simp add: min)
  next
    case 3
    then have total: "nat \<bar>sint target - sint source\<bar> = unat first + unat second" unfolding m by auto
    have d: "?distance = (if first \<ge> limit \<or> second \<ge> limit \<or> first \<ge> limit - second then limit else first + second)"
      using 3 by (auto simp: distance_def word_sle_eq word_sless_alt)
    show ?thesis
    proof (cases "first \<ge> limit \<or> second \<ge> limit \<or> first \<ge> limit - second")
      case True
      then have "unat limit \<le> unat first + unat second" by (cases "unat second \<le> unat limit") (auto simp: word_le_nat_alt unat_sub_if')
      with True show ?thesis unfolding total min d by simp
    next
      case False
      then have less: "unat second < unat limit" "unat first < unat limit - unat second" by (auto simp: word_le_nat_alt unat_sub_if' split: if_splits)
      then have "unat first + unat second < 2 ^ 64" using unat_lt_u64 [of limit] by (simp del: unat_lt_u64)
      then have "unat (first + second) = unat first + unat second" by (subst unat_plus_no_wrap) simp_all
      with False show ?thesis unfolding total min d by simp
    qed
  qed
qed

lemma stepToward_exact:
  assumes limit: "unat limit \<le> 65536"
  shows "sint (stepToward source target limit) = sgn (sint target - sint source) * min \<bar>sint target - sint source\<bar> (int (unat limit))"
proof (cases "source = target")
  case False
  then have ne: "sint source \<noteq> sint target" using signed_word_eqI by blast
  define d where "d = min (axisDistance source target limit) limit"
  have d: "stepToward source target limit = (if source <s target then d else - d)" using False by (simp add: stepToward_def d_def)
  have u: "unat d = min (nat \<bar>sint target - sint source\<bar>) (unat limit)" unfolding d_def by (rule axisDistance_exact)
  then have "unat d \<le> 65536" using limit by simp
  from sint_small [OF this] have "sint (stepToward source target limit) = (if sint source < sint target then int (unat d) else - int (unat d))"
    by (simp add: d word_sless_alt)
  moreover have "int (unat d) = min \<bar>sint target - sint source\<bar> (int (unat limit))" unfolding u of_nat_min by simp
  ultimately show ?thesis using ne by (auto simp: sgn_if)
qed (simp add: stepToward_def)

section \<open>Movement\<close>

text \<open>A step on one axis ends between where it started and where it goes, and closer.\<close>

definition axis_step :: "int \<Rightarrow> int \<Rightarrow> int \<Rightarrow> int" where
  "axis_step source target limit = sgn (target - source) * min \<bar>target - source\<bar> limit"

lemma axis_step_between:
  "0 \<le> l \<Longrightarrow> min s t \<le> s + axis_step s t l \<and> s + axis_step s t l \<le> max s t"
  by (auto simp: axis_step_def sgn_if min_def max_def)

lemma axis_step_bound: "0 \<le> l \<Longrightarrow> \<bar>axis_step s t l\<bar> \<le> l"
  by (auto simp: axis_step_def sgn_if min_def)

text \<open>The ticks that a walk takes on an axis, and from a position to another one.\<close>

definition axis_ticks :: "nat \<Rightarrow> int \<Rightarrow> int \<Rightarrow> nat" where
  "axis_ticks l source target = (nat \<bar>target - source\<bar> + (l - 1)) div l"

lemma axis_ticks_same [simp]: "0 < l \<Longrightarrow> axis_ticks l s s = 0"
  by (simp add: axis_ticks_def)

lemma axis_ticks_step:
  assumes l: "0 < l" and ne: "s \<noteq> t"
  shows "axis_ticks l (s + axis_step s t (int l)) t + 1 = axis_ticks l s t"
proof -
  define d where "d = nat \<bar>t - s\<bar>"
  have d: "0 < d" using ne by (simp add: d_def)
  have rest: "nat \<bar>t - (s + axis_step s t (int l))\<bar> = d - min d l" by (auto simp: axis_step_def sgn_if min_def d_def)
  have "(d - min d l + (l - 1)) div l + 1 = (d + (l - 1)) div l"
  proof (cases "d \<le> l")
    case True
    have "d + (l - 1) = d - 1 + l" using d l by simp
    then have "(d + (l - 1)) div l = (d - 1) div l + 1" using l by (simp only: div_add_self2)
    also have "(d - 1) div l = 0" using True d by simp
    finally show ?thesis using True l by simp
  next
    case False
    then have eq: "d - min d l + (l - 1) = d - 1" "d + (l - 1) = d - 1 + l" using l by auto
    show ?thesis unfolding eq using l by (simp only: div_add_self2)
  qed
  then show ?thesis unfolding axis_ticks_def rest d_def [symmetric] .
qed

definition ticks_between :: "nat \<Rightarrow> Position3 \<Rightarrow> Position3 \<Rightarrow> nat" where
  "ticks_between l a b =
     axis_ticks l (sint (pos_x a)) (sint (pos_x b)) + axis_ticks l (sint (pos_y a)) (sint (pos_y b)) + axis_ticks l (sint (pos_z a)) (sint (pos_z b))"

lemma i64_between: "min (sint (s :: i64)) (sint (t :: i64)) \<le> i \<Longrightarrow> i \<le> max (sint s) (sint t) \<Longrightarrow> i64_fits i"
  using sint_i64 [of s] sint_i64 [of t] by (auto simp: i64_fits_def min_def max_def split: if_splits)

lemma velocityToward_int:
  fixes a b :: Position3
  assumes "unat speed \<le> 65536"
  defines "v \<equiv> velocityToward a b speed" and "step \<equiv> \<lambda>f. axis_step (sint (f a)) (sint (f b)) (int (unat speed))"
  shows "(sint (vel_x v), sint (vel_y v), sint (vel_z v)) =
    (if pos_x a \<noteq> pos_x b then (step pos_x, 0, 0) else if pos_y a \<noteq> pos_y b then (0, step pos_y, 0) else (0, 0, step pos_z))"
  using stepToward_exact [OF assms(1)] by (simp add: v_def step_def velocityToward_def axis_step_def)

lemma velocityToward_allowed:
  assumes "profile_wf p"
  shows "profileAllows p mode (velocityToward a b (profileSpeed p mode))"
proof -
  let ?v = "velocityToward a b (profileSpeed p mode)" and ?l = "int (unat (profileSpeed p mode))"
  have speed: "unat (profileSpeed p mode) \<le> 65536" using assms by (simp add: profile_wf_def)
  have "speed_squared ?v \<le> ?l\<^sup>2"
  proof -
    have sq: "(axis_step s t ?l)\<^sup>2 \<le> ?l\<^sup>2" for s t using axis_step_bound [of ?l s t] by (simp add: abs_le_square_iff [symmetric])
    from velocityToward_int [OF speed, of a b] sq show ?thesis by (auto simp: speed_squared_def split: if_splits)
  qed
  then show ?thesis by (simp add: profileAllows_iff [OF assms])
qed

lemma velocityToward_fits:
  assumes "unat speed \<le> 65536"
  shows "fits3 (moved a (velocityToward a b speed))"
proof -
  have step: "i64_fits (sint s + axis_step (sint s) (sint t) (int (unat speed)))" for s t :: i64
    using axis_step_between [of "int (unat speed)" "sint s" "sint t"] by (intro i64_between [of s t]) simp_all
  have same: "i64_fits (sint (s :: i64))" for s using sint_i64 [of s] by (simp add: i64_fits_def)
  from velocityToward_int [OF assms, of a b] step same show ?thesis by (auto simp: fits3_def moved_def split: if_splits)
qed

lemma velocityToward_ticks:
  assumes "unat speed \<le> 65536" and l: "0 < unat speed" and "a \<noteq> b" and "position_int q = moved a (velocityToward a b speed)"
  shows "ticks_between (unat speed) q b + 1 = ticks_between (unat speed) a b"
proof -
  have closer: "axis_ticks (unat speed) (sint s + axis_step (sint s) (sint t) (int (unat speed))) (sint t) + 1 = axis_ticks (unat speed) (sint s) (sint t)"
    if "s \<noteq> t" for s t :: i64
    using that signed_word_eqI by (intro axis_ticks_step [OF l]) blast
  have "pos_x a \<noteq> pos_x b \<or> pos_y a \<noteq> pos_y b \<or> pos_z a \<noteq> pos_z b" using assms(3) by (cases a; cases b) auto
  then show ?thesis
    using velocityToward_int [OF assms(1), of a b] assms(4) closer [of "pos_x a" "pos_x b"] closer [of "pos_y a" "pos_y b"] closer [of "pos_z a" "pos_z b"]
    by (auto simp: ticks_between_def position_int_def moved_def split: if_splits)
qed

lemma moveToward_kernel:
  assumes "profile_wf p"
  shows "moveToward m p mode e t i root target collision =
    (let a = t_position root; v = velocityToward a target (profileSpeed p mode)
     in case collision \<lparr>cq_contentManifest = m, cq_entity = e, cq_tick = t, cq_currentRoot = root,
          cq_attemptedPosition = \<lparr>pos_x = pos_x a + vel_x v, pos_y = pos_y a + vel_y v, pos_z = pos_z a + vel_z v\<rparr>,
          cq_attemptedVelocity = v, cq_locomotionMode = mode\<rparr> of
          None \<Rightarrow> Inl \<lparr>ase_code = MovementRejected, ase_actorIndex = i, ase_movementError = Some CollisionUnavailable\<rparr>
        | Some r \<Rightarrow>
          if profileAllows p mode (cr_velocity r)
          then Inr (if vel_x (cr_velocity r) \<noteq> 0 \<or> vel_y (cr_velocity r) \<noteq> 0
                    then root\<lparr>t_position := cr_position r,
                      t_orientation := (t_orientation root)\<lparr>turn_z := facingToward (vel_x (cr_velocity r)) (vel_y (cr_velocity r))\<rparr>\<rparr>
                    else root\<lparr>t_position := cr_position r\<rparr>, cr_velocity r)
          else Inl \<lparr>ase_code = MovementRejected, ase_actorIndex = i, ase_movementError = Some CollisionResultOutOfRange\<rparr>)"
proof -
  have "unat (profileSpeed p mode) \<le> 65536" using assms by (simp add: profile_wf_def)
  from velocityToward_fits [OF this] velocityToward_allowed [OF assms] show ?thesis
    by (simp add: moveToward_def movement_kernel_cases Let_def split: option.split)
qed

lemma moveToward_cell: "moveToward m p mode e t i root target collision = Inr (root', v) \<Longrightarrow> t_cell root' = t_cell root"
  by (auto simp: moveToward_def movement_kernel_cases Let_def split: sum.splits option.splits if_splits)

end
