(* ===== verification/Actor_Properties.thy ===== *)
theory Actor_Properties
  imports Actor_Geometry
begin

text \<open>
  Correctness of the simulation of actors: a simulated world belongs to its catalog, an advance fails for the
  stated reasons only, an actor that travels arrives, and one that wanders stops the simulation when it fights.
\<close>

section \<open>Worlds of a catalog\<close>

definition actors_ok :: "CanonicalActorEntityState list \<Rightarrow> bool" where
  "actors_ok actors \<longleftrightarrow> length actors \<le> MaximumActorCatalogEntries \<and> keys_sorted as_actorId actors \<and> distinct (map as_entityId actors)"

lemma adjacentDuplicate_None: "adjacentDuplicate xs = None \<longleftrightarrow> no_adjacent_equal xs"
  by (induction xs rule: adjacentDuplicate.induct) auto

lemma createCanonicalActorWorld_iff:
  "createCanonicalActorWorld actors = Inr w \<longleftrightarrow> actors_ok actors \<and> w = \<lparr>aw_actors = actors\<rparr>"
proof -
  have "first_error (actorOrderStep actors) xs = None \<longleftrightarrow> first_error (orderStep as_actorId PlayerIdsNotStrictlyOrdered actors) xs = None" for xs
    by (simp add: first_error_None_iff actorOrderStep_def orderStep_def Let_def)
  then have "first_error (actorOrderStep actors) [1..<length actors] = None \<longleftrightarrow> keys_sorted as_actorId actors"
    by (simp only: orderStep_iff)
  moreover have "adjacentDuplicate (sort (map as_entityId actors)) = None \<longleftrightarrow> distinct (map as_entityId actors)"
    unfolding adjacentDuplicate_None by (simp add: sorted_no_adjacent_equal_iff)
  ultimately show ?thesis by (auto simp: createCanonicalActorWorld_def actors_ok_def split: option.splits)
qed

lemma createActorCatalog_ok:
  assumes "createActorCatalog m es = Some c"
  shows "length (ac_entries c) \<le> MaximumActorCatalogEntries" "keys_sorted ace_actorId (ac_entries c)" "distinct (map ace_entityId (ac_entries c))"
proof -
  from assms have c: "ac_entries c = sort_key ace_actorId es" and len: "length es \<le> MaximumActorCatalogEntries"
    and ids: "no_adjacent_equal (map ace_actorId (sort_key ace_actorId es))"
    and entities: "no_adjacent_equal (sort (map ace_entityId (sort_key ace_actorId es)))"
    by (auto simp: createActorCatalog_def Let_def split: if_splits)
  show "length (ac_entries c) \<le> MaximumActorCatalogEntries" using len c by simp
  have "distinct (map ace_actorId (ac_entries c))" using ids c by (simp add: sorted_no_adjacent_equal_iff)
  moreover have "sorted (map ace_actorId (ac_entries c))" using c by simp
  ultimately show "keys_sorted ace_actorId (ac_entries c)" by (simp add: strict_sorted_iff)
  show "distinct (map ace_entityId (ac_entries c))" using entities c by (simp add: sorted_no_adjacent_equal_iff)
qed

text \<open>The states of a world that belongs to a catalog.\<close>

definition belongs :: "ActorCatalog \<Rightarrow> CanonicalActorWorld \<Rightarrow> bool" where
  "belongs c w \<longleftrightarrow> list_all2 actorStateMatchesCatalog (aw_actors w) (ac_entries c)"

definition keys_match :: "CanonicalActorEntityState list \<Rightarrow> ActorCatalogEntry list \<Rightarrow> bool" where
  "keys_match actors entries \<longleftrightarrow> map as_actorId actors = map ace_actorId entries \<and> map as_entityId actors = map ace_entityId entries"

lemma matches_keys: "list_all2 actorStateMatchesCatalog actors entries \<Longrightarrow> keys_match actors entries"
  unfolding keys_match_def by (induction rule: list_all2_induct) (auto simp: actorStateMatchesCatalog_def)

lemma keys_match_ok:
  assumes "createActorCatalog m es = Some c" and "keys_match actors (ac_entries c)"
  shows "actors_ok actors"
proof -
  have "length actors = length (ac_entries c)" using assms(2) unfolding keys_match_def by (metis length_map)
  then show ?thesis using createActorCatalog_ok [OF assms(1)] assms(2) by (simp add: actors_ok_def keys_match_def)
qed

lemma restore_actors_iff:
  assumes "createActorCatalog m es = Some c"
  shows "restoreCanonicalActorWorld c actors = Inr w \<longleftrightarrow> belongs c \<lparr>aw_actors = actors\<rparr> \<and> w = \<lparr>aw_actors = actors\<rparr>"
proof -
  have "length actors = length (ac_entries c) \<and> first_error (catalogMismatchStep (ac_entries c) actors) [0..<length actors] = None
      \<longleftrightarrow> list_all2 actorStateMatchesCatalog actors (ac_entries c)"
    by (auto simp: first_error_None_iff catalogMismatchStep_def list_all2_conv_all_nth split: if_splits)
  then show ?thesis
    using keys_match_ok [OF assms matches_keys]
    by (auto simp: restoreCanonicalActorWorld_def belongs_def createCanonicalActorWorld_iff split: option.splits)
qed

lemma initial_matches: "pk_kind (ace_aiPackage e) = IdlePackage \<or> pk_waypoints (ace_aiPackage e) \<noteq> [] \<Longrightarrow> actorStateMatchesCatalog (initialActor e) e"
  by (cases "pk_kind (ace_aiPackage e)") (auto simp: actorStateMatchesCatalog_def initialActor_def)

section \<open>One tick\<close>

lemma replaceActor_Inr:
  "replaceActor a t root v act k i = Inr a' \<Longrightarrow> as_actorId a' = as_actorId a \<and> as_entityId a' = as_entityId a \<and> as_prototypeId a' = as_prototypeId a
    \<and> as_root a' = root \<and> as_velocity a' = v \<and> as_activity a' = act \<and> as_waypointIndex a' = k"
  by (auto simp: replaceActor_def split: if_splits option.splits)

lemma unat_next_waypoint: "n \<le> 32 \<Longrightarrow> 0 < n \<Longrightarrow> unat (of_nat ((unat (k :: u16) + 1) mod n) :: u16) = (unat k + 1) mod n"
proof -
  assume n: "n \<le> 32" "0 < n"
  then have "(unat k + 1) mod n < 32" using mod_less_divisor [OF n(2), of "unat k + 1"] by simp
  then show ?thesis by (simp add: unat_of_nat)
qed

definition package_ok :: "ActorCatalogEntry \<Rightarrow> bool" where
  "package_ok e \<longleftrightarrow> createActorAiPackage (pk_kind (ace_aiPackage e)) (pk_waypoints (ace_aiPackage e)) = Some (ace_aiPackage e)"

lemma package_okD:
  "package_ok e \<Longrightarrow> length (pk_waypoints (ace_aiPackage e)) \<le> 32"
  "package_ok e \<Longrightarrow> pk_kind (ace_aiPackage e) \<noteq> IdlePackage \<Longrightarrow> 0 < length (pk_waypoints (ace_aiPackage e))"
  by (auto simp: package_ok_def createActorAiPackage_def MaximumActorWaypoints_def split: if_splits)

lemma matches_replaced:
  assumes "replaceActor a t root v act k i = Inr a'" and "actorStateMatchesCatalog a e" and "t_cell root = t_cell (as_root a)"
    and "act = as_activity a \<or> act = IdleActivity \<and> pk_kind (ace_aiPackage e) \<noteq> WanderPackage"
    and "k = as_waypointIndex a \<or> pk_kind (ace_aiPackage e) \<noteq> IdlePackage \<and> unat k < length (pk_waypoints (ace_aiPackage e))"
  shows "actorStateMatchesCatalog a' e"
  using replaceActor_Inr [OF assms(1)] assms(2-)
  by (cases "pk_kind (ace_aiPackage e)") (auto simp: actorStateMatchesCatalog_def)

lemma followPackage_matches:
  assumes m: "actorStateMatchesCatalog a e" and ok: "package_ok e" and run: "followPackage mf st t p coll i a e = Inr a'"
  shows "actorStateMatchesCatalog a' e"
proof (cases "activeCell st (t_cell (as_root a)) \<and> as_activity a \<noteq> IdleActivity")
  case False
  with run m show ?thesis by (auto simp: followPackage_def Let_def split: if_splits intro: matches_replaced)
next
  case True
  let ?wps = "pk_waypoints (ace_aiPackage e)"
  have kind: "pk_kind (ace_aiPackage e) \<noteq> IdlePackage" using m True by (auto simp: actorStateMatchesCatalog_def split: ActorAiPackageKind.splits)
  have k: "unat (of_nat ((unat (as_waypointIndex a) + 1) mod length ?wps) :: u16) < length ?wps"
    using unat_next_waypoint [OF package_okD(1) [OF ok] package_okD(2) [OF ok kind], of "as_waypointIndex a"] package_okD(2) [OF ok kind]
    by simp
  show ?thesis
  proof (cases "t_position (as_root a) = ?wps ! unat (as_waypointIndex a)")
    case at: True
    show ?thesis
    proof (cases "as_activity a = TravelActivity \<and> unat (as_waypointIndex a) + 1 = length ?wps")
      case arrived: True
      then have "pk_kind (ace_aiPackage e) \<noteq> WanderPackage" using m by (auto simp: actorStateMatchesCatalog_def)
      moreover have "replaceActor a t (as_root a) stationary IdleActivity (as_waypointIndex a) i = Inr a'"
        using run by (simp only: followPackage_def Let_def True at arrived ActorActivity.distinct simp_thms if_True if_False)
      ultimately show ?thesis using m by - (rule matches_replaced [where a = a], assumption, assumption, simp_all)
    next
      case onward: False
      have "replaceActor a t (as_root a) stationary (as_activity a) (of_nat ((unat (as_waypointIndex a) + 1) mod length ?wps)) i = Inr a'"
        using run by (simp only: followPackage_def Let_def True at onward simp_thms if_True if_False)
      then show ?thesis using m kind k by - (rule matches_replaced [where a = a], assumption, assumption, simp_all)
    qed
  next
    case False
    with run True obtain root v where "moveToward mf p Walk (as_entityId a) t i (as_root a) (?wps ! unat (as_waypointIndex a)) coll = Inr (root, v)"
      and "replaceActor a t root v (as_activity a) (as_waypointIndex a) i = Inr a'"
      by (auto simp: followPackage_def Let_def split: sum.splits prod.splits)
    with m moveToward_cell show ?thesis by - (rule matches_replaced [where a = a], assumption, assumption, simp_all)
  qed
qed

lemma if_error_Inr: "(if b then Inl e else r) = Inr x \<longleftrightarrow> \<not> b \<and> r = Inr x"
  by simp

text \<open>The combat state stops an actor that is dead or has somebody to fight in its cell.\<close>

definition stops :: "CanonicalServerState \<Rightarrow> CombatView \<Rightarrow> CanonicalActorEntityState \<Rightarrow> bool" where
  "stops st cv a = (case findCombatActor cv (as_actorId a) of
     None \<Rightarrow> False
   | Some ca \<Rightarrow> ca_dead ca \<or> aggressionTarget st cv ca (t_cell (as_root a)) \<noteq> None)"

lemma advanceActor_cases:
  assumes run: "advanceActor mf st combat t p coll i a e = Inr a'"
  obtains (follow) "followPackage mf st t p coll i a e = Inr a'" | (same) "a' = a"
    | (stopped) cv root v where "combat = Some cv" "stops st cv a" "t_cell root = t_cell (as_root a)" "replaceActor a t root v IdleActivity (as_waypointIndex a) i = Inr a'"
proof (cases combat)
  case None
  with run follow show thesis by (simp add: advanceActor_def if_error_Inr)
next
  case (Some cv)
  with run obtain ca where ca: "findCombatActor cv (as_actorId a) = Some ca"
    by (cases "findCombatActor cv (as_actorId a)") (simp_all add: advanceActor_def if_error_Inr)
  note run' = run [unfolded advanceActor_def Some option.case ca if_error_Inr, THEN conjunct2, THEN conjunct2]
  show thesis
  proof (cases "ca_dead ca")
    case dead: True
    show thesis
    proof (cases "as_activity a = IdleActivity \<and> as_velocity a = stationary")
      case True
      from run' same show thesis by (simp only: dead True simp_thms if_True sum.inject)
    next
      case False
      from run' show thesis by (simp only: dead False if_True if_False) (rule stopped [OF Some], simp_all add: ca stops_def dead)
    qed
  next
    case alive: False
    show thesis
    proof (cases "aggressionTarget st cv ca (t_cell (as_root a))")
      case None
      from run' follow show thesis by (simp only: alive None if_False option.case)
    next
      case target: (Some y)
      show thesis
      proof (cases "withinReach (t_position (as_root a)) (t_position (transform y)) (ca_attackReachQuanta ca)")
        case True
        from run' show thesis by (simp only: alive target True if_True if_False option.case) (rule stopped [OF Some], simp_all add: ca stops_def target)
      next
        case False
        from run' have run'': "(case moveToward mf p Run (as_entityId a) t i (as_root a) (t_position (transform y)) coll of Inl e \<Rightarrow> Inl e
            | Inr (r, v) \<Rightarrow> replaceActor a t r v IdleActivity (as_waypointIndex a) i) = Inr a'"
          by (simp only: alive target False if_False option.case)
        then obtain r v where "moveToward mf p Run (as_entityId a) t i (as_root a) (t_position (transform y)) coll = Inr (r, v)"
          by (cases "moveToward mf p Run (as_entityId a) t i (as_root a) (t_position (transform y)) coll") auto
        with run'' show thesis using stopped [of cv r v] moveToward_cell by (simp add: Some ca stops_def target)
      qed
    qed
  qed
qed

text \<open>What becomes of an actor: it still matches its entry, unless it wandered and was stopped by the combat state.\<close>

lemma advanceActor_matches:
  assumes run: "advanceActor mf st combat t p coll i a e = Inr a'" and ok: "package_ok e"
  shows "actorStateMatchesCatalog a e" "as_actorId a' = as_actorId a \<and> as_entityId a' = as_entityId a"
    "actorStateMatchesCatalog a' e \<or> (\<exists>cv. combat = Some cv \<and> stops st cv a) \<and> pk_kind (ace_aiPackage e) = WanderPackage \<and> as_activity a' = IdleActivity"
proof -
  show m: "actorStateMatchesCatalog a e" using run by (simp add: advanceActor_def if_error_Inr)
  consider (follow) "followPackage mf st t p coll i a e = Inr a'" | (same) "a' = a"
    | (stopped) cv root v where "combat = Some cv" "stops st cv a" "t_cell root = t_cell (as_root a)" "replaceActor a t root v IdleActivity (as_waypointIndex a) i = Inr a'"
    by (rule advanceActor_cases [OF run])
  then have "(as_actorId a' = as_actorId a \<and> as_entityId a' = as_entityId a) \<and>
    (actorStateMatchesCatalog a' e \<or> (\<exists>cv. combat = Some cv \<and> stops st cv a) \<and> pk_kind (ace_aiPackage e) = WanderPackage \<and> as_activity a' = IdleActivity)"
  proof cases
    case follow
    from followPackage_matches [OF m ok follow] m show ?thesis by (simp add: actorStateMatchesCatalog_def)
  next
    case same
    with m show ?thesis by simp
  next
    case stopped
    from replaceActor_Inr [OF stopped(4)] have keys: "as_actorId a' = as_actorId a" "as_entityId a' = as_entityId a" "as_activity a' = IdleActivity" by auto
    show ?thesis
    proof (cases "pk_kind (ace_aiPackage e) = WanderPackage")
      case False
      with stopped m have "actorStateMatchesCatalog a' e" by - (rule matches_replaced [where a = a], assumption, assumption, simp_all)
      with keys show ?thesis by simp
    qed (use stopped(1,2) keys in simp)
  qed
  then show "as_actorId a' = as_actorId a \<and> as_entityId a' = as_entityId a"
    "actorStateMatchesCatalog a' e \<or> (\<exists>cv. combat = Some cv \<and> stops st cv a) \<and> pk_kind (ace_aiPackage e) = WanderPackage \<and> as_activity a' = IdleActivity" by auto
qed

section \<open>All actors\<close>

lemma advanceEach_Inr:
  "advanceEach step i ps = Inr rs \<Longrightarrow> length rs = length ps \<and> (\<forall>k < length ps. step (i + k) (fst (ps ! k)) (snd (ps ! k)) = Inr (rs ! k))"
proof (induction step i ps arbitrary: rs rule: advanceEach.induct)
  case (2 step i a e rest)
  then obtain r rs' where r: "step i a e = Inr r" "advanceEach step (i + 1) rest = Inr rs'" "rs = r # rs'" by (auto split: sum.splits)
  from "2.IH" [OF r(1,2)] r show ?case by (auto simp: less_Suc_eq_0_disj)
qed simp

lemma advanceEach_Inl:
  "advanceEach step i ps = Inl err \<Longrightarrow> \<exists>k < length ps. step (i + k) (fst (ps ! k)) (snd (ps ! k)) = Inl err"
proof (induction step i ps rule: advanceEach.induct)
  case (2 step i a e rest)
  show ?case
  proof (cases "step i a e")
    case (Inl x)
    with "2.prems" show ?thesis by (intro exI [of _ 0]) simp
  next
    case (Inr r)
    with "2.prems" have "advanceEach step (i + 1) rest = Inl err" by (auto split: sum.splits)
    from "2.IH" [OF Inr this] obtain k where "k < length rest" "step (i + 1 + k) (fst (rest ! k)) (snd (rest ! k)) = Inl err" by blast
    then show ?thesis by (intro exI [of _ "Suc k"]) simp
  qed
qed simp

lemma advanceActors_Inr:
  assumes "advanceActors w c st combat t p coll = Inr w'"
  shows "length (aw_actors w) = length (ac_entries c)" "length (aw_actors w') = length (ac_entries c)"
    "k < length (ac_entries c) \<Longrightarrow>
      advanceActor (ac_contentManifestId c) st combat t p coll k (aw_actors w ! k) (ac_entries c ! k) = Inr (aw_actors w' ! k)"
proof -
  from assms obtain rs where len: "length (aw_actors w) = length (ac_entries c)"
    and rs: "advanceEach (advanceActor (ac_contentManifestId c) st combat t p coll) 0 (zip (aw_actors w) (ac_entries c)) = Inr rs"
    and w': "createCanonicalActorWorld rs = Inr w'"
    by (auto simp: advanceActors_def split: if_splits sum.splits)
  have "aw_actors w' = rs" using w' by (simp add: createCanonicalActorWorld_iff)
  with len advanceEach_Inr [OF rs] show "length (aw_actors w) = length (ac_entries c)" "length (aw_actors w') = length (ac_entries c)"
    "k < length (ac_entries c) \<Longrightarrow>
      advanceActor (ac_contentManifestId c) st combat t p coll k (aw_actors w ! k) (ac_entries c ! k) = Inr (aw_actors w' ! k)"
    by auto
qed

lemma advanceActor_keys: "advanceActor mf st combat t p coll i a e = Inr a' \<Longrightarrow> package_ok e \<Longrightarrow>
    as_actorId a' = ace_actorId e \<and> as_entityId a' = ace_entityId e"
  using advanceActor_matches by (auto simp: actorStateMatchesCatalog_def)

text \<open>The result is never refused as a world: an error is an error of an actor, or the world does not fit.\<close>

lemma advanceActors_Inl':
  assumes c: "createActorCatalog m es = Some c" and ok: "list_all package_ok (ac_entries c)"
    and run: "advanceActors w c st combat t p coll = Inl err"
  shows "length (aw_actors w) \<noteq> length (ac_entries c) \<or> \<not> actorAndPlayerEntityIdsAreDisjoint w st \<or>
    (\<exists>k < length (ac_entries c). advanceActor (ac_contentManifestId c) st combat t p coll k (aw_actors w ! k) (ac_entries c ! k) = Inl err)"
proof -
  let ?each = "advanceEach (advanceActor (ac_contentManifestId c) st combat t p coll) 0 (zip (aw_actors w) (ac_entries c))"
  show ?thesis
  proof (cases "length (aw_actors w) \<noteq> length (ac_entries c) \<or> \<not> actorAndPlayerEntityIdsAreDisjoint w st")
    case True
    then show ?thesis by blast
  next
    case False
    then have len: "length (aw_actors w) = length (ac_entries c)" by simp
    show ?thesis
    proof (cases ?each)
      case (Inl e)
      with run False have "e = err" by (simp add: advanceActors_def)
      with advanceEach_Inl [OF Inl] len show ?thesis by auto
    next
      case (Inr rs)
      from advanceEach_Inr [OF Inr] len have "length rs = length (ac_entries c)"
        and steps: "\<forall>k < length rs. advanceActor (ac_contentManifestId c) st combat t p coll k (aw_actors w ! k) (ac_entries c ! k) = Inr (rs ! k)"
        by auto
      then have "keys_match rs (ac_entries c)"
        unfolding keys_match_def using ok advanceActor_keys by (auto simp: list_eq_iff_nth_eq list_all_length)
      then have "createCanonicalActorWorld rs = Inr \<lparr>aw_actors = rs\<rparr>" using keys_match_ok [OF c] by (simp add: createCanonicalActorWorld_iff)
      with run False Inr show ?thesis by (simp add: advanceActors_def)
    qed
  qed
qed

interpretation actor_entries: keyed_table ace_actorId ac_entries "\<lambda>c. keys_sorted ace_actorId (ac_entries c)" findCatalogActor
  by unfold_locales (simp add: findCatalogActor_def lookup_key_iff)

interpretation canonical_actors: keyed_table as_actorId aw_actors "\<lambda>w. actors_ok (aw_actors w)" findActor
  by unfold_locales (simp add: findActor_def lookup_key_iff actors_ok_def)

lemma belongs_ok: "createActorCatalog m es = Some c \<Longrightarrow> belongs c w \<Longrightarrow> actors_ok (aw_actors w)"
  unfolding belongs_def by (rule keys_match_ok [OF _ matches_keys])

lemma belongs_index:
  assumes c: "createActorCatalog m es = Some c" and b: "belongs c w" and k: "k < length (ac_entries c)"
  shows "findActor w (ace_actorId (ac_entries c ! k)) = Some (aw_actors w ! k)" "actorStateMatchesCatalog (aw_actors w ! k) (ac_entries c ! k)"
proof -
  show m: "actorStateMatchesCatalog (aw_actors w ! k) (ac_entries c ! k)" and "findActor w (ace_actorId (ac_entries c ! k)) = Some (aw_actors w ! k)"
    using b k canonical_actors.lookup_member [OF belongs_ok [OF c b], of "aw_actors w ! k"]
    by (auto simp: belongs_def list_all2_conv_all_nth actorStateMatchesCatalog_def)
qed

lemma belongs_lookup:
  assumes c: "createActorCatalog m es = Some c" and b: "belongs c w" and a: "findActor w actor = Some a" and e: "findCatalogActor c actor = Some e"
  shows "\<exists>k < length (ac_entries c). aw_actors w ! k = a \<and> ac_entries c ! k = e"
proof -
  from e have "e \<in> set (ac_entries c)" "ace_actorId e = actor" using actor_entries.lookup_iff [OF createActorCatalog_ok(2) [OF c]] by blast+
  then obtain k where k: "k < length (ac_entries c)" "ac_entries c ! k = e" by (auto simp: in_set_conv_nth)
  with belongs_index(1) [OF c b k(1)] a \<open>ace_actorId e = actor\<close> show ?thesis by auto
qed

lemma advanceActors_ok:
  assumes c: "createActorCatalog m es = Some c" and ok: "list_all package_ok (ac_entries c)"
    and run: "advanceActors w c st combat t p coll = Inr w'"
  shows "belongs c w" "actors_ok (aw_actors w')"
proof -
  note step = advanceActors_Inr [OF run]
  have pk: "k < length (ac_entries c) \<Longrightarrow> package_ok (ac_entries c ! k)" for k using ok by (simp add: list_all_length)
  have "k < length (ac_entries c) \<Longrightarrow> actorStateMatchesCatalog (aw_actors w ! k) (ac_entries c ! k)" for k
    using advanceActor_matches(1) [OF step(3) pk] by blast
  with step(1) show "belongs c w" by (simp add: belongs_def list_all2_conv_all_nth)
  have "keys_match (aw_actors w') (ac_entries c)"
    using step(2) advanceActor_keys [OF step(3) pk] by (simp add: keys_match_def list_eq_iff_nth_eq)
  then show "actors_ok (aw_actors w')" by (rule keys_match_ok [OF c])
qed

text \<open>No wandering actor is dead or has somebody to fight in its cell.\<close>

definition wanderers_calm :: "ActorCatalog \<Rightarrow> CanonicalActorWorld \<Rightarrow> CanonicalServerState \<Rightarrow> CombatView \<Rightarrow> bool" where
  "wanderers_calm c w st cv \<longleftrightarrow>
     list_all2 (\<lambda>a e. pk_kind (ace_aiPackage e) = WanderPackage \<longrightarrow> \<not> stops st cv a) (aw_actors w) (ac_entries c)"

lemma advanceActors_belongs:
  assumes ok: "list_all package_ok (ac_entries c)" and run: "advanceActors w c st combat t p coll = Inr w'"
    and calm: "\<And>cv. combat = Some cv \<Longrightarrow> wanderers_calm c w st cv"
  shows "belongs c w'"
proof -
  note step = advanceActors_Inr [OF run]
  have "actorStateMatchesCatalog (aw_actors w' ! k) (ac_entries c ! k)" if k: "k < length (ac_entries c)" for k
  proof -
    have "\<not> stops st cv (aw_actors w ! k)" if "combat = Some cv" "pk_kind (ace_aiPackage (ac_entries c ! k)) = WanderPackage" for cv
      using calm [OF that(1)] that(2) k by (simp add: wanderers_calm_def list_all2_conv_all_nth)
    with advanceActor_matches(3) [OF step(3) [OF k]] ok k show ?thesis by (auto simp: list_all_length)
  qed
  with step(2) show ?thesis by (simp add: belongs_def list_all2_conv_all_nth)
qed

text \<open>The worlds that ticks make of the initial one, with any states, profiles and answers of the collision query.\<close>

inductive actors_reachable :: "ActorCatalog \<Rightarrow> CanonicalActorWorld \<Rightarrow> bool" for c where
  placed: "createInitialCanonicalActorWorld c = Inr w \<Longrightarrow> actors_reachable c w"
| ticked: "actors_reachable c w \<Longrightarrow> advanceActorSimulation w c st t p coll = Inr w' \<Longrightarrow> actors_reachable c w'"
| fought: "actors_reachable c w \<Longrightarrow> wanderers_calm c w st combat \<Longrightarrow> advanceActorSimulationWithCombat w c st combat t p coll = Inr w' \<Longrightarrow> actors_reachable c w'"

lemmas advance_defs = advanceActorSimulation_def advanceActorSimulationWithCombat_def

lemma reachable_belongs:
  assumes ok: "list_all package_ok (ac_entries c)" and "actors_reachable c w"
  shows "belongs c w"
  using assms(2)
proof induction
  case (placed w)
  then have "w = \<lparr>aw_actors = map initialActor (ac_entries c)\<rparr>" by (simp add: createInitialCanonicalActorWorld_def createCanonicalActorWorld_iff)
  moreover have "package_ok e \<Longrightarrow> actorStateMatchesCatalog (initialActor e) e" for e using package_okD(2) [of e] by (intro initial_matches) auto
  ultimately show ?case using ok by (simp add: belongs_def list.rel_map list_all2_same list_all_iff)
next
  case ticked
  with ok show ?case by (auto simp: advance_defs intro: advanceActors_belongs)
next
  case fought
  with ok show ?case by (auto simp: advance_defs intro: advanceActors_belongs)
qed

text \<open>
  C26. Every world that the simulation makes of the initial world of a catalog, with whatever players,
  ticks and answers of the collision query, without or with combat, is restored from its stored
  actors exactly as it is, provided that in none of the advances with combat a wandering actor is dead
  or has somebody to fight in its cell. (An advance in which one is ends the simulation.)
\<close>

theorem actors_restore_roundtrip:
  assumes "createActorCatalog m es = Some c" and "list_all package_ok (ac_entries c)" and "actors_reachable c w"
  shows "restoreCanonicalActorWorld c (aw_actors w) = Inr w"
  using reachable_belongs [OF assms(2,3)] by (simp add: restore_actors_iff [OF assms(1)] belongs_def)

section \<open>Errors\<close>

lemma replaceActor_Inl:
  "replaceActor a t root v act k i = Inl err \<Longrightarrow>
    err = simulationError SimulationTickRegression i \<and> t < as_lastChangeTick a
    \<or> err = simulationError SimulationRevisionExhausted i \<and> next_value (as_revision a) = None"
  by (auto simp: replaceActor_def split: if_splits option.splits)

lemma moveToward_Inl:
  "profile_wf p \<Longrightarrow> moveToward m p mode e t i root target collision = Inl err \<Longrightarrow>
    ase_code err = MovementRejected \<and> ase_movementError err \<in> {Some CollisionUnavailable, Some CollisionResultOutOfRange}"
  by (auto simp: moveToward_kernel Let_def split: option.splits if_splits)

text \<open>The errors of an actor that matches its entry.\<close>

definition actor_error :: "CombatView option \<Rightarrow> ServerTick \<Rightarrow> CanonicalActorEntityState \<Rightarrow> ActorSimulationError \<Rightarrow> bool" where
  "actor_error combat t a err =
     (case ase_code err of
        SimulationCatalogMismatch \<Rightarrow> (\<exists>cv. combat = Some cv \<and> findCombatActor cv (as_actorId a) = None)
      | SimulationTickRegression \<Rightarrow> t < as_lastChangeTick a
      | SimulationRevisionExhausted \<Rightarrow> next_value (as_revision a) = None
      | MovementRejected \<Rightarrow> ase_movementError err \<in> {Some CollisionUnavailable, Some CollisionResultOutOfRange}
      | InvalidResult \<Rightarrow> False)"

text \<open>The errors of a result, by the structure of its definition.\<close>

definition errors_in :: "('e \<Rightarrow> bool) \<Rightarrow> 'e + 'a \<Rightarrow> bool" where
  "errors_in P r \<longleftrightarrow> (\<forall>err. r = Inl err \<longrightarrow> P err)"

lemma errors_in_Inl [simp]: "errors_in P (Inl err) \<longleftrightarrow> P err"
  by (simp add: errors_in_def)

lemma errors_in_Inr [simp]: "errors_in P (Inr x)"
  by (simp add: errors_in_def)

lemma errors_in_if: "(b \<Longrightarrow> errors_in P r) \<Longrightarrow> (\<not> b \<Longrightarrow> errors_in P r') \<Longrightarrow> errors_in P (if b then r else r')"
  by simp

lemma errors_in_bind:
  "errors_in P r \<Longrightarrow> (\<And>x y. errors_in P (f x y)) \<Longrightarrow> errors_in P (case r of Inl err \<Rightarrow> Inl err | Inr (x, y) \<Rightarrow> f x y)"
  by (cases r) auto

lemma errors_in_option:
  "(r = None \<Longrightarrow> errors_in P u) \<Longrightarrow> (\<And>x. r = Some x \<Longrightarrow> errors_in P (f x)) \<Longrightarrow> errors_in P (case r of None \<Rightarrow> u | Some x \<Rightarrow> f x)"
  by (cases r) auto

lemma replaceActor_errors: "errors_in (actor_error combat t a) (replaceActor a t root v act k i)"
  unfolding errors_in_def using replaceActor_Inl by (fastforce simp: actor_error_def simulationError_def)

lemma moveToward_errors: "profile_wf p \<Longrightarrow> errors_in (actor_error combat t' a) (moveToward m p mode e t i root target collision)"
  unfolding errors_in_def using moveToward_Inl by (fastforce simp: actor_error_def)

lemma followPackage_errors: "profile_wf p \<Longrightarrow> errors_in (actor_error combat t a) (followPackage mf st t p coll i a e)"
  unfolding followPackage_def Let_def
  by (intro errors_in_if errors_in_bind replaceActor_errors moveToward_errors) simp_all

lemma advanceActor_errors:
  assumes p: "profile_wf p" and m: "actorStateMatchesCatalog a e"
  shows "errors_in (actor_error combat t a) (advanceActor mf st combat t p coll i a e)"
  unfolding advanceActor_def
  by (intro errors_in_if errors_in_bind errors_in_option replaceActor_errors moveToward_errors followPackage_errors p)
    (simp_all add: m actor_error_def simulationError_def)

text \<open>
  C17. An advance of a restored world fails for its stated reasons only: an actor shares its entity with a
  player or is unknown to the combat state, the tick is before a change of an actor, the revisions of an actor
  are spent, or the collision query gave no result or one that the profile does not allow. It never fails because
  its own velocity or its own result is invalid.
\<close>

theorem actor_advance_errors:
  assumes c: "createActorCatalog m es = Some c" and ok: "list_all package_ok (ac_entries c)"
    and w: "restoreCanonicalActorWorld c (aw_actors w) = Inr w" and p: "createMovementProfile sneak walk run jump = Some p"
    and fails: "advanceActors w c st combat t p coll = Inl err"
  shows "(ase_code err = SimulationCatalogMismatch \<and> \<not> actorAndPlayerEntityIdsAreDisjoint w st) \<or> list_ex (\<lambda>a. actor_error combat t a err) (aw_actors w)"
proof -
  have b: "list_all2 actorStateMatchesCatalog (aw_actors w) (ac_entries c)" using w by (simp add: restore_actors_iff [OF c] belongs_def)
  then have len: "length (aw_actors w) = length (ac_entries c)" by (rule list_all2_lengthD)
  show ?thesis
  proof (cases "actorAndPlayerEntityIdsAreDisjoint w st")
    case False
    with len fails show ?thesis by (auto simp: advanceActors_def simulationError_def)
  next
    case True
    from advanceActors_Inl' [OF c ok fails] True len obtain k where k: "k < length (ac_entries c)"
      "advanceActor (ac_contentManifestId c) st combat t p coll k (aw_actors w ! k) (ac_entries c ! k) = Inl err" by auto
    moreover have "actorStateMatchesCatalog (aw_actors w ! k) (ac_entries c ! k)" using b k by (simp add: list_all2_conv_all_nth)
    ultimately have "actor_error combat t (aw_actors w ! k) err"
      using advanceActor_errors [OF createMovementProfile_wf [OF p]] unfolding errors_in_def by blast
    with k len show ?thesis by (auto simp: list_ex_length)
  qed
qed

section \<open>Wandering and fighting\<close>

lemma advanceActor_stops:
  assumes run: "advanceActor mf st (Some cv) t p coll i a e = Inr a'" and ca: "findCombatActor cv (as_actorId a) = Some ca"
    and stops: "ca_dead ca \<or> aggressionTarget st cv ca (t_cell (as_root a)) \<noteq> None"
  shows "as_activity a' = IdleActivity"
proof -
  note run' = run [unfolded advanceActor_def ca if_error_Inr option.case, THEN conjunct2, THEN conjunct2]
  show ?thesis
  proof (cases "ca_dead ca")
    case True
    with run' have "(if as_activity a = IdleActivity \<and> as_velocity a = stationary then Inr a
        else replaceActor a t (as_root a) stationary IdleActivity (as_waypointIndex a) i) = Inr a'" by simp
    then show ?thesis by (auto dest: replaceActor_Inr split: if_splits)
  next
    case False
    with stops obtain y where y: "aggressionTarget st cv ca (t_cell (as_root a)) = Some y" by blast
    from run' have "\<exists>r v. replaceActor a t r v IdleActivity (as_waypointIndex a) i = Inr a'"
      unfolding y option.case using False by (auto split: if_splits sum.splits)
    then show ?thesis using replaceActor_Inr by fastforce
  qed
qed

text \<open>
  C36. A wandering actor that dies or fights stops the simulation for good: the advance that sees it makes the
  actor idle, which no wandering actor may be. Whatever happens afterwards, no advance of the resulting world
  succeeds, and its stored actors are refused when they are restored.
\<close>

theorem stopped_wanderer_ends_simulation:
  assumes c: "createActorCatalog m es = Some c"
    and e: "findCatalogActor c actor = Some e" and wander: "pk_kind (ace_aiPackage e) = WanderPackage"
    and ca: "findCombatActor combat actor = Some ca" and stops: "ca_dead ca \<or> aggressionTarget st combat ca (t_cell (ace_initialRoot e)) \<noteq> None"
    and run: "advanceActorSimulationWithCombat w c st combat t p coll = Inr w'"
  shows "isl (advanceActorSimulation w' c st' t' p' coll') \<and> isl (advanceActorSimulationWithCombat w' c st' combat' t' p' coll')
    \<and> isl (restoreCanonicalActorWorld c (aw_actors w'))"
proof -
  have "e \<in> set (ac_entries c)" and id: "ace_actorId e = actor"
    using actor_entries.lookup_iff [OF createActorCatalog_ok(2) [OF c]] e by blast+
  then obtain k where k: "k < length (ac_entries c)" "ac_entries c ! k = e" by (auto simp: in_set_conv_nth)
  let ?a = "aw_actors w ! k" and ?a' = "aw_actors w' ! k"
  from advanceActors_Inr(3) [OF run [unfolded advance_defs] k(1)]
  have step: "advanceActor (ac_contentManifestId c) st (Some combat) t p coll k ?a e = Inr ?a'" by (simp add: k)
  then have "actorStateMatchesCatalog ?a e" unfolding advanceActor_def if_error_Inr by blast
  then have "as_actorId ?a = actor" "t_cell (as_root ?a) = t_cell (ace_initialRoot e)" by (simp_all add: actorStateMatchesCatalog_def id)
  with advanceActor_stops [OF step] ca stops have "as_activity ?a' = IdleActivity" by simp
  then have out: "\<not> actorStateMatchesCatalog ?a' e" using wander by (simp add: actorStateMatchesCatalog_def)
  have fails: "isl (advanceActors w' c st2 combat2 t2 p2 coll2)" for st2 combat2 t2 p2 coll2
  proof (cases "advanceActors w' c st2 combat2 t2 p2 coll2")
    case (Inr w'')
    from advanceActors_Inr(3) [OF Inr k(1)] have "actorStateMatchesCatalog ?a' e" unfolding advanceActor_def if_error_Inr k(2) by blast
    with out show ?thesis by blast
  qed simp
  have "isl (restoreCanonicalActorWorld c (aw_actors w'))"
  proof (cases "restoreCanonicalActorWorld c (aw_actors w')")
    case (Inr w'')
    then have "list_all2 actorStateMatchesCatalog (aw_actors w') (ac_entries c)" by (simp add: restore_actors_iff [OF c] belongs_def)
    with k have "actorStateMatchesCatalog ?a' e" by (auto simp: list_all2_conv_all_nth)
    with out show ?thesis by blast
  qed simp
  with fails show ?thesis by (simp add: advance_defs)
qed

section \<open>Who travels arrives\<close>

text \<open>The ticks from a position over the waypoints that are left: the ticks of each walk and one at each waypoint.\<close>

fun route_ticks :: "nat \<Rightarrow> Position3 \<Rightarrow> Position3 list \<Rightarrow> nat" where
  "route_ticks l a [] = 0"
| "route_ticks l a (b # bs) = ticks_between l a b + 1 + route_ticks l b bs"

definition route_left :: "MovementProfile \<Rightarrow> CanonicalActorEntityState \<Rightarrow> ActorCatalogEntry \<Rightarrow> nat" where
  "route_left p a e = route_ticks (unat (profileSpeed p Walk)) (t_position (as_root a)) (drop (unat (as_waypointIndex a)) (pk_waypoints (ace_aiPackage e)))"

definition arrived :: "CanonicalActorEntityState \<Rightarrow> ActorCatalogEntry \<Rightarrow> bool" where
  "arrived a e \<longleftrightarrow> as_activity a = IdleActivity \<and> as_velocity a = stationary \<and> t_position (as_root a) = List.last (pk_waypoints (ace_aiPackage e))"

definition on_way :: "nat \<Rightarrow> MovementProfile \<Rightarrow> CanonicalActorEntityState \<Rightarrow> ActorCatalogEntry \<Rightarrow> bool" where
  "on_way n p a e \<longleftrightarrow> arrived a e \<or> as_activity a = TravelActivity \<and> route_left p a e \<le> n"

lemma createMovementProfile_pos: "createMovementProfile sneak walk run jump = Some p \<Longrightarrow> 0 < unat (profileSpeed p Walk)"
  by (auto simp: createMovementProfile_def profileSpeed_def word_less_nat_alt unat_gt_0 split: if_splits)

text \<open>A replacement with room for a revision succeeds.\<close>

definition room :: "nat \<Rightarrow> ServerTick \<Rightarrow> CanonicalActorEntityState \<Rightarrow> bool" where
  "room n t a \<longleftrightarrow> unat (as_revision a) + n < 2 ^ 64 \<and> as_lastChangeTick a \<le> t"

lemma replaceActor_room:
  assumes r: "room (Suc n) t a"
  shows "\<exists>a'. replaceActor a t root v act k i = Inr a' \<and> room n t a'"
proof -
  have "as_revision a \<noteq> u64_max" using r by (auto simp: room_def)
  then have "next_value (as_revision a) = Some (as_revision a + 1)" "unat (as_revision a + 1) = unat (as_revision a) + 1"
    by (simp_all add: next_value_def word_Suc_neq_max)
  with r show ?thesis by (auto simp: replaceActor_def room_def)
qed

lemma moveToward_unobstructed:
  assumes p: "profile_wf p"
  obtains root' v where "moveToward m p mode e t i root target unobstructedCollision = Inr (root', v)" "t_cell root' = t_cell root"
    "position_int (t_position root') = moved (t_position root) (velocityToward (t_position root) target (profileSpeed p mode))"
proof -
  let ?v = "velocityToward (t_position root) target (profileSpeed p mode)"
  have "unat (profileSpeed p mode) \<le> 65536" using p by (simp add: profile_wf_def)
  from velocityToward_fits [OF this] have fits: "fits3 (moved (t_position root) ?v)" .
  obtain root' v where run: "moveToward m p mode e t i root target unobstructedCollision = Inr (root', v)"
    and "t_position root' = \<lparr>pos_x = pos_x (t_position root) + vel_x ?v, pos_y = pos_y (t_position root) + vel_y ?v, pos_z = pos_z (t_position root) + vel_z ?v\<rparr>"
    unfolding moveToward_kernel [OF p] Let_def unobstructedCollision_def using velocityToward_allowed [OF p] by (cases "vel_x ?v \<noteq> 0 \<or> vel_y ?v \<noteq> 0") auto
  with fits that [OF run moveToward_cell [OF run]] show thesis by (simp only: position_moved)
qed

lemma route_left_at:
  assumes "unat (as_waypointIndex a) < length (pk_waypoints (ace_aiPackage e))"
  shows "route_left p a e =
    ticks_between (unat (profileSpeed p Walk)) (t_position (as_root a)) (pk_waypoints (ace_aiPackage e) ! unat (as_waypointIndex a)) + 1
    + route_ticks (unat (profileSpeed p Walk)) (pk_waypoints (ace_aiPackage e) ! unat (as_waypointIndex a))
        (drop (unat (as_waypointIndex a) + 1) (pk_waypoints (ace_aiPackage e)))"
  using assms by (simp add: route_left_def Cons_nth_drop_Suc [symmetric])

lemma on_way_positive: "actorStateMatchesCatalog a e \<Longrightarrow> as_activity a = TravelActivity \<Longrightarrow> 0 < route_left p a e"
  by (cases "pk_kind (ace_aiPackage e)") (auto simp: actorStateMatchesCatalog_def route_left_at)

text \<open>One tick of an actor in an active cell: it is done, and whoever is on its way has come closer.\<close>

lemma advanceActor_calm:
  "actorStateMatchesCatalog a e \<Longrightarrow> room n t a \<Longrightarrow> advanceActor mf st None t p coll i a e = followPackage mf st t p coll i a e"
  by (auto simp: advanceActor_def room_def dest: leD)

lemma followPackage_idle:
  "activeCell st (t_cell (as_root a)) \<Longrightarrow> as_activity a = IdleActivity \<Longrightarrow>
    followPackage mf st t p coll i a e = replaceActor a t (as_root a) stationary IdleActivity (as_waypointIndex a) i"
  by (simp add: followPackage_def)

lemma followPackage_arrives:
  "activeCell st (t_cell (as_root a)) \<Longrightarrow> as_activity a = TravelActivity \<Longrightarrow>
    t_position (as_root a) = pk_waypoints (ace_aiPackage e) ! unat (as_waypointIndex a) \<Longrightarrow>
    unat (as_waypointIndex a) + 1 = length (pk_waypoints (ace_aiPackage e)) \<Longrightarrow>
    followPackage mf st t p coll i a e = replaceActor a t (as_root a) stationary IdleActivity (as_waypointIndex a) i"
  by (simp only: followPackage_def Let_def ActorActivity.distinct simp_thms if_True if_False)

lemma followPackage_turns:
  "activeCell st (t_cell (as_root a)) \<Longrightarrow> as_activity a \<noteq> IdleActivity \<Longrightarrow>
    t_position (as_root a) = pk_waypoints (ace_aiPackage e) ! unat (as_waypointIndex a) \<Longrightarrow>
    \<not> (as_activity a = TravelActivity \<and> unat (as_waypointIndex a) + 1 = length (pk_waypoints (ace_aiPackage e))) \<Longrightarrow>
    followPackage mf st t p coll i a e = replaceActor a t (as_root a) stationary (as_activity a)
      (of_nat ((unat (as_waypointIndex a) + 1) mod length (pk_waypoints (ace_aiPackage e)))) i"
  by (simp only: followPackage_def Let_def simp_thms if_True if_False)

lemma followPackage_walks:
  "activeCell st (t_cell (as_root a)) \<Longrightarrow> as_activity a \<noteq> IdleActivity \<Longrightarrow>
    t_position (as_root a) \<noteq> pk_waypoints (ace_aiPackage e) ! unat (as_waypointIndex a) \<Longrightarrow>
    moveToward mf p Walk (as_entityId a) t i (as_root a) (pk_waypoints (ace_aiPackage e) ! unat (as_waypointIndex a)) coll = Inr (root, v) \<Longrightarrow>
    followPackage mf st t p coll i a e = replaceActor a t root v (as_activity a) (as_waypointIndex a) i"
  by (simp only: followPackage_def Let_def simp_thms if_True if_False sum.case prod.case)

lemma replaced_on_way:
  assumes "room (Suc n) t a" and "followPackage mf st t p coll i a e = replaceActor a t root v act k i"
    and "\<And>a'. as_root a' = root \<Longrightarrow> as_velocity a' = v \<Longrightarrow> as_activity a' = act \<Longrightarrow> as_waypointIndex a' = k \<Longrightarrow> Q a'"
  shows "\<exists>a'. followPackage mf st t p coll i a e = Inr a' \<and> room n t a' \<and> Q a'"
proof -
  from replaceActor_room [OF assms(1)] obtain a' where a': "replaceActor a t root v act k i = Inr a'" "room n t a'" by blast
  with replaceActor_Inr [OF a'(1)] assms(2,3) show ?thesis by auto
qed

lemma followPackage_on_way:
  assumes m: "actorStateMatchesCatalog a e" and ok: "package_ok e" and r: "room (Suc n) t a" and p: "createMovementProfile sneak walk run jump = Some p"
    and active: "activeCell st (t_cell (as_root a))"
  shows "\<exists>a'. followPackage mf st t p unobstructedCollision i a e = Inr a' \<and> room n t a' \<and> (on_way (Suc l) p a e \<longrightarrow> on_way l p a' e)"
proof (cases "as_activity a = IdleActivity")
  case True
  show ?thesis
    by (rule replaced_on_way [OF r followPackage_idle [OF active True]]) (simp add: on_way_def arrived_def True)
next
  case go: False
  let ?wps = "pk_waypoints (ace_aiPackage e)" and ?k = "unat (as_waypointIndex a)" and ?speed = "unat (profileSpeed p Walk)"
  have kind: "pk_kind (ace_aiPackage e) \<noteq> IdlePackage" using m go by (auto simp: actorStateMatchesCatalog_def split: ActorAiPackageKind.splits)
  have k: "?k < length ?wps" using m kind by (auto simp: actorStateMatchesCatalog_def split: ActorAiPackageKind.splits)
  have speed: "?speed \<le> 65536" "0 < ?speed" using p createMovementProfile_wf [OF p] createMovementProfile_pos [OF p] by (simp_all add: profile_wf_def)
  show ?thesis
  proof (cases "t_position (as_root a) = ?wps ! ?k")
    case at: True
    show ?thesis
    proof (cases "as_activity a = TravelActivity \<and> ?k + 1 = length ?wps")
      case True
      then have "?wps ! ?k = List.last ?wps" using last_conv_nth [of ?wps] by (metis add_diff_cancel_right' list.size(3) nat_add_left_cancel_less not_add_less2 not_less_zero k)
      with True at active show ?thesis
        by (intro replaced_on_way [OF r followPackage_arrives]) (simp_all add: on_way_def arrived_def)
    next
      case False
      have next_k: "unat (of_nat ((?k + 1) mod length ?wps) :: u16) = (?k + 1) mod length ?wps"
        by (rule unat_next_waypoint [OF package_okD(1) [OF ok] package_okD(2) [OF ok kind]])
      have "on_way l p a' e" if way: "on_way (Suc l) p a e" and a': "as_root a' = as_root a" "as_activity a' = as_activity a"
          "as_waypointIndex a' = of_nat ((?k + 1) mod length ?wps)" for a'
      proof -
        from way go have travel: "as_activity a = TravelActivity" "route_left p a e \<le> Suc l" by (auto simp: on_way_def arrived_def)
        with False k have "(?k + 1) mod length ?wps = ?k + 1" by simp
        then have "unat (as_waypointIndex a') = ?k + 1" unfolding a'(3) next_k .
        then have "route_left p a' e = route_ticks ?speed (?wps ! ?k) (drop (?k + 1) ?wps)" by (simp only: route_left_def a'(1) at)
        with travel a' route_left_at [OF k, of p] show ?thesis by (simp add: on_way_def)
      qed
      then have "as_root a' = as_root a \<Longrightarrow> as_velocity a' = stationary \<Longrightarrow> as_activity a' = as_activity a \<Longrightarrow>
          as_waypointIndex a' = of_nat ((?k + 1) mod length ?wps) \<Longrightarrow> on_way (Suc l) p a e \<longrightarrow> on_way l p a' e" for a' by blast
      then show ?thesis by (rule replaced_on_way [OF r followPackage_turns [OF active go at False]])
    qed
  next
    case False
    obtain root v where mv: "moveToward mf p Walk (as_entityId a) t i (as_root a) (?wps ! ?k) unobstructedCollision = Inr (root, v)"
      and pos: "position_int (t_position root) = moved (t_position (as_root a)) (velocityToward (t_position (as_root a)) (?wps ! ?k) (profileSpeed p Walk))"
      using moveToward_unobstructed [OF createMovementProfile_wf [OF p]] by metis
    have closer: "ticks_between ?speed (t_position root) (?wps ! ?k) + 1 = ticks_between ?speed (t_position (as_root a)) (?wps ! ?k)"
      by (rule velocityToward_ticks [OF speed False pos])
    have "on_way (Suc l) p a e \<longrightarrow> on_way l p a' e" if a': "as_root a' = root" "as_activity a' = as_activity a" "as_waypointIndex a' = as_waypointIndex a" for a'
      using closer route_left_at [OF k, of p] route_left_at [of a' e p] k go by (auto simp: on_way_def arrived_def a')
    then have "as_root a' = root \<Longrightarrow> as_velocity a' = v \<Longrightarrow> as_activity a' = as_activity a \<Longrightarrow>
        as_waypointIndex a' = as_waypointIndex a \<Longrightarrow> on_way (Suc l) p a e \<longrightarrow> on_way l p a' e" for a' by blast
    then show ?thesis by (rule replaced_on_way [OF r followPackage_walks [OF active go False mv]])
  qed
qed

text \<open>A state in which somebody is in the cell of every actor, and no player has the entity of an actor.\<close>

definition watched :: "ActorCatalog \<Rightarrow> CanonicalServerState \<Rightarrow> bool" where
  "watched c st \<longleftrightarrow> list_all (\<lambda>e. activeCell st (t_cell (ace_initialRoot e)) \<and> ace_entityId e \<notin> entityId ` set (players st)) (ac_entries c)"

lemma watchedD:
  assumes w: "watched c st" and b: "belongs c w"
  shows "k < length (ac_entries c) \<Longrightarrow> activeCell st (t_cell (as_root (aw_actors w ! k)))" "actorAndPlayerEntityIdsAreDisjoint w st"
proof -
  have m: "k < length (ac_entries c) \<Longrightarrow> actorStateMatchesCatalog (aw_actors w ! k) (ac_entries c ! k)" for k
    using b by (simp add: belongs_def list_all2_conv_all_nth)
  have len: "length (aw_actors w) = length (ac_entries c)" using b by (simp add: belongs_def list_all2_lengthD)
  show "k < length (ac_entries c) \<Longrightarrow> activeCell st (t_cell (as_root (aw_actors w ! k)))"
    using m [of k] w by (simp add: actorStateMatchesCatalog_def watched_def list_all_length)
  have "as_entityId (aw_actors w ! k) \<notin> entityId ` set (players st)" if "k < length (aw_actors w)" for k
    using m [of k] w that len by (simp add: actorStateMatchesCatalog_def watched_def list_all_length)
  then show "actorAndPlayerEntityIdsAreDisjoint w st"
    by (fastforce simp: actorAndPlayerEntityIdsAreDisjoint_def list_ex_iff in_set_conv_nth [of _ "aw_actors w"])
qed

lemma tick_on_way:
  assumes c: "createActorCatalog m es = Some c" and ok: "list_all package_ok (ac_entries c)" and b: "belongs c w"
    and p: "createMovementProfile sneak walk run jump = Some p" and watch: "watched c st" and r: "list_all (room (Suc n) t) (aw_actors w)"
  shows "\<exists>w'. advanceActorSimulation w c st t p unobstructedCollision = Inr w' \<and> belongs c w' \<and> list_all (room n t) (aw_actors w')
    \<and> (\<forall>k < length (ac_entries c). on_way (Suc l) p (aw_actors w ! k) (ac_entries c ! k) \<longrightarrow> on_way l p (aw_actors w' ! k) (ac_entries c ! k))"
proof -
  have len: "length (aw_actors w) = length (ac_entries c)" using b by (simp add: belongs_def list_all2_lengthD)
  let ?step = "\<lambda>k. advanceActor (ac_contentManifestId c) st None t p unobstructedCollision k (aw_actors w ! k) (ac_entries c ! k)"
  have step: "\<exists>a'. ?step k = Inr a' \<and> room n t a' \<and> (on_way (Suc l) p (aw_actors w ! k) (ac_entries c ! k) \<longrightarrow> on_way l p a' (ac_entries c ! k))"
    if k: "k < length (ac_entries c)" for k
  proof -
    have m: "actorStateMatchesCatalog (aw_actors w ! k) (ac_entries c ! k)" using b k by (simp add: belongs_def list_all2_conv_all_nth)
    have pk: "package_ok (ac_entries c ! k)" and rk: "room (Suc n) t (aw_actors w ! k)" using ok r k len by (simp_all add: list_all_length)
    show ?thesis unfolding advanceActor_calm [OF m rk] by (rule followPackage_on_way [OF m pk rk p watchedD(1) [OF watch b k]])
  qed
  show ?thesis
  proof (cases "advanceActors w c st None t p unobstructedCollision")
    case (Inl err)
    with advanceActors_Inl' [OF c ok Inl] watchedD(2) [OF watch b] len step show ?thesis by fastforce
  next
    case (Inr w')
    note adv = advanceActors_Inr [OF Inr]
    have each: "room n t (aw_actors w' ! k)" "on_way (Suc l) p (aw_actors w ! k) (ac_entries c ! k) \<longrightarrow> on_way l p (aw_actors w' ! k) (ac_entries c ! k)"
      if "k < length (ac_entries c)" for k using step [OF that] adv(3) [OF that] by auto
    with Inr adv(2) advanceActors_belongs [OF ok Inr] show ?thesis by (simp add: advance_defs list_all_length)
  qed
qed

text \<open>The advances of a sequence of ticks, each with the state of that tick.\<close>

fun advanceTicks :: "ActorCatalog \<Rightarrow> MovementProfile \<Rightarrow> ServerCollisionQuery \<Rightarrow> CanonicalActorWorld
    \<Rightarrow> (CanonicalServerState \<times> ServerTick) list \<Rightarrow> ActorSimulationResult" where
  "advanceTicks c p coll w [] = Inr w"
| "advanceTicks c p coll w ((st, t) # ticks) =
     (case advanceActorSimulation w c st t p coll of Inl err \<Rightarrow> Inl err | Inr w' \<Rightarrow> advanceTicks c p coll w' ticks)"

lemma ticks_on_way:
  assumes c: "createActorCatalog m es = Some c" and ok: "list_all package_ok (ac_entries c)" and p: "createMovementProfile sneak walk run jump = Some p"
  shows "belongs c w \<Longrightarrow> list_all (\<lambda>(st, t). watched c st) ticks \<Longrightarrow> sorted (t0 # map snd ticks) \<Longrightarrow> list_all (room (length ticks) t0) (aw_actors w) \<Longrightarrow>
    \<exists>w'. advanceTicks c p unobstructedCollision w ticks = Inr w' \<and> belongs c w'
      \<and> (\<forall>k < length (ac_entries c). on_way (length ticks) p (aw_actors w ! k) (ac_entries c ! k) \<longrightarrow> on_way 0 p (aw_actors w' ! k) (ac_entries c ! k))"
proof (induction ticks arbitrary: w t0)
  case (Cons tick ticks)
  obtain st t where tick: "tick = (st, t)" by (cases tick)
  have "list_all (room (Suc (length ticks)) t) (aw_actors w)"
    using Cons.prems(3,4) unfolding tick by (auto simp: list_all_iff room_def)
  from tick_on_way [OF c ok Cons.prems(1) p _ this, of st "length ticks"] Cons.prems(2) tick obtain w1
    where w1: "advanceActorSimulation w c st t p unobstructedCollision = Inr w1" "belongs c w1" "list_all (room (length ticks) t) (aw_actors w1)"
      "\<forall>k < length (ac_entries c). on_way (Suc (length ticks)) p (aw_actors w ! k) (ac_entries c ! k) \<longrightarrow> on_way (length ticks) p (aw_actors w1 ! k) (ac_entries c ! k)"
    by auto
  from Cons.IH [OF w1(2) _ _ w1(3)] Cons.prems(2,3) tick obtain w'
    where "advanceTicks c p unobstructedCollision w1 ticks = Inr w'" "belongs c w'"
      "\<forall>k < length (ac_entries c). on_way (length ticks) p (aw_actors w1 ! k) (ac_entries c ! k) \<longrightarrow> on_way 0 p (aw_actors w' ! k) (ac_entries c ! k)"
    by auto
  with w1 show ?case by (auto simp: tick)
qed auto

text \<open>
  C13. Who travels arrives. Take a world that restore accepts and any sequence of advances without combat and
  without obstacles, whose ticks do not go back and do not lie before an actor's last change, at every one of
  which some player watches each actor's cell and no player has an actor's entity, and for each of which every
  actor has a revision left. Then every advance succeeds, and an actor that travels stands idle at
  its last waypoint after as many ticks as its route takes: on each axis the distance over the walking speed,
  rounded up, and a tick at each waypoint.
\<close>

theorem travellers_arrive:
  assumes c: "createActorCatalog m es = Some c" and ok: "list_all package_ok (ac_entries c)" and p: "createMovementProfile sneak walk run jump = Some p"
    and w: "restoreCanonicalActorWorld c (aw_actors w) = Inr w"
    and watch: "list_all (\<lambda>(st, t). watched c st) ticks" and sorted: "sorted (t0 # map snd ticks)" and r: "list_all (room (length ticks) t0) (aw_actors w)"
    and a: "findActor w actor = Some a" "as_activity a = TravelActivity" and e: "findCatalogActor c actor = Some e" and long: "route_left p a e \<le> length ticks"
  shows "\<exists>w' a'. advanceTicks c p unobstructedCollision w ticks = Inr w' \<and> findActor w' actor = Some a' \<and> arrived a' e"
proof -
  have b: "belongs c w" using w by (simp add: restore_actors_iff [OF c] belongs_def)
  from ticks_on_way [OF c ok p b watch sorted r] obtain w' where w': "advanceTicks c p unobstructedCollision w ticks = Inr w'" "belongs c w'"
    and way: "\<forall>k < length (ac_entries c). on_way (length ticks) p (aw_actors w ! k) (ac_entries c ! k) \<longrightarrow> on_way 0 p (aw_actors w' ! k) (ac_entries c ! k)" by blast
  from belongs_lookup [OF c b a(1) e] obtain k where k: "k < length (ac_entries c)" "aw_actors w ! k = a" "ac_entries c ! k = e" by blast
  from belongs_index [OF c w'(2) k(1)] k(3) e have a': "findActor w' actor = Some (aw_actors w' ! k)" "actorStateMatchesCatalog (aw_actors w' ! k) e"
    using actor_entries.lookup_keyD [OF createActorCatalog_ok(2) [OF c] e] by auto
  from way k a long have "on_way 0 p (aw_actors w' ! k) e" by (auto simp: on_way_def)
  then have "arrived (aw_actors w' ! k) e" using on_way_positive [OF a'(2), of p] by (auto simp: on_way_def)
  with w' a' show ?thesis by blast
qed

section \<open>Examples\<close>

definition sample_walker :: ActorCatalogEntry where
  "sample_walker = \<lparr>ace_actorId = 1, ace_entityId = 40, ace_prototypeId = 9, ace_initialRoot = sample_transform,
     ace_aiPackage = \<lparr>pk_kind = TravelPackage,
       pk_waypoints = [\<lparr>pos_x = 3, pos_y = 0, pos_z = 0\<rparr>, \<lparr>pos_x = 3, pos_y = - 2, pos_z = 0\<rparr>]\<rparr>\<rparr>"

definition sample_guard :: ActorCatalogEntry where
  "sample_guard = \<lparr>ace_actorId = 2, ace_entityId = 41, ace_prototypeId = 9, ace_initialRoot = sample_transform,
     ace_aiPackage = \<lparr>pk_kind = WanderPackage, pk_waypoints = [\<lparr>pos_x = 0, pos_y = 5, pos_z = 0\<rparr>]\<rparr>\<rparr>"

definition sample_actors :: ActorCatalog where
  "sample_actors = \<lparr>ac_contentManifestId = sample_manifest_id, ac_entries = [sample_walker, sample_guard]\<rparr>"

definition sample_placed :: CanonicalActorWorld where
  "sample_placed = \<lparr>aw_actors = [initialActor sample_walker, initialActor sample_guard]\<rparr>"

definition sample_fight :: CombatView where
  "sample_fight = \<lparr>cv_players = [\<lparr>cp_playerId = 3, cp_dead = False\<rparr>],
     cv_actors = [\<lparr>ca_actorId = 1, ca_dead = False, ca_attackReachQuanta = 100, ca_aggressionTarget = None\<rparr>,
                  \<lparr>ca_actorId = 2, ca_dead = True, ca_attackReachQuanta = 100, ca_aggressionTarget = None\<rparr>]\<rparr>"

lemma sample_actors_created: "createActorCatalog sample_manifest [sample_guard, sample_walker] = Some sample_actors"
  by code_simp

lemma sample_packages_ok: "list_all package_ok (ac_entries sample_actors)"
  by code_simp

lemma sample_placed_created: "createInitialCanonicalActorWorld sample_actors = Inr sample_placed"
  by code_simp

lemma sample_profile_created: "createMovementProfile 1 2 4 3 = Some sample_profile"
  by code_simp

lemma sample_placed_restored: "restoreCanonicalActorWorld sample_actors (aw_actors sample_placed) = Inr sample_placed"
  by code_simp

definition sample_calm :: CombatView where
  "sample_calm = \<lparr>cv_players = [\<lparr>cp_playerId = 3, cp_dead = False\<rparr>],
     cv_actors = [\<lparr>ca_actorId = 1, ca_dead = False, ca_attackReachQuanta = 100, ca_aggressionTarget = Some 3\<rparr>,
                  \<lparr>ca_actorId = 2, ca_dead = False, ca_attackReachQuanta = 100, ca_aggressionTarget = None\<rparr>]\<rparr>"

theorem actors_restore_roundtrip_witness:
  "\<exists>w. advanceActorSimulationWithCombat sample_placed sample_actors sample_state sample_calm 1 sample_profile unobstructedCollision = Inr w
    \<and> w \<noteq> sample_placed \<and> restoreCanonicalActorWorld sample_actors (aw_actors w) = Inr w"
proof -
  have "case advanceActorSimulationWithCombat sample_placed sample_actors sample_state sample_calm 1 sample_profile unobstructedCollision of
      Inl _ \<Rightarrow> False | Inr w \<Rightarrow> w \<noteq> sample_placed"
    by code_simp
  then obtain w where w: "advanceActorSimulationWithCombat sample_placed sample_actors sample_state sample_calm 1 sample_profile unobstructedCollision = Inr w"
      "w \<noteq> sample_placed"
    by (auto split: sum.splits)
  have "wanderers_calm sample_actors sample_placed sample_state sample_calm" by code_simp
  with w(1) have "actors_reachable sample_actors w" by (blast intro: actors_reachable.intros sample_placed_created)
  with w actors_restore_roundtrip [OF sample_actors_created sample_packages_ok] show ?thesis by blast
qed

theorem actor_advance_errors_witness:
  "\<exists>err. advanceActors sample_placed sample_actors sample_state None 1 sample_profile (\<lambda>_. None) = Inl err \<and> ase_code err = MovementRejected
    \<and> list_ex (\<lambda>a. actor_error None 1 a err) (aw_actors sample_placed)"
proof -
  have "case advanceActors sample_placed sample_actors sample_state None 1 sample_profile (\<lambda>_. None) of Inl err \<Rightarrow> ase_code err = MovementRejected | Inr _ \<Rightarrow> False"
    by code_simp
  then obtain err where err: "advanceActors sample_placed sample_actors sample_state None 1 sample_profile (\<lambda>_. None) = Inl err" "ase_code err = MovementRejected"
    by (auto split: sum.splits)
  from actor_advance_errors [OF sample_actors_created sample_packages_ok sample_placed_restored sample_profile_created err(1)] err show ?thesis by auto
qed

theorem stopped_wanderer_witness:
  "\<exists>w. advanceActorSimulationWithCombat sample_placed sample_actors sample_state sample_fight 1 sample_profile unobstructedCollision = Inr w
    \<and> isl (advanceActorSimulation w sample_actors sample_state 2 sample_profile unobstructedCollision) \<and> isl (restoreCanonicalActorWorld sample_actors (aw_actors w))"
proof -
  have "\<not> isl (advanceActorSimulationWithCombat sample_placed sample_actors sample_state sample_fight 1 sample_profile unobstructedCollision)"
    by code_simp
  then obtain w where w: "advanceActorSimulationWithCombat sample_placed sample_actors sample_state sample_fight 1 sample_profile unobstructedCollision = Inr w"
    by (cases "advanceActorSimulationWithCombat sample_placed sample_actors sample_state sample_fight 1 sample_profile unobstructedCollision") auto
  have e: "findCatalogActor sample_actors 2 = Some sample_guard" and wander: "pk_kind (ace_aiPackage sample_guard) = WanderPackage"
    and ca: "findCombatActor sample_fight 2 = Some \<lparr>ca_actorId = 2, ca_dead = True, ca_attackReachQuanta = 100, ca_aggressionTarget = None\<rparr>"
    by code_simp+
  from stopped_wanderer_ends_simulation [OF sample_actors_created e wander ca _ w, where st' = sample_state and t' = 2 and p' = sample_profile and coll' = unobstructedCollision] w show ?thesis by auto
qed

definition sample_ticks :: "(CanonicalServerState \<times> ServerTick) list" where
  "sample_ticks = map (Pair sample_state) [1, 2, 3, 4, 5]"

theorem travellers_arrive_witness:
  "\<exists>w a. advanceTicks sample_actors sample_profile unobstructedCollision sample_placed sample_ticks = Inr w \<and> findActor w 1 = Some a \<and> arrived a sample_walker"
proof -
  have watch: "list_all (\<lambda>(st, t). watched sample_actors st) sample_ticks" by code_simp
  have sorted: "sorted (0 # map snd sample_ticks)" by (simp add: sample_ticks_def)
  have r: "list_all (room (length sample_ticks) 0) (aw_actors sample_placed)"
    by (simp add: room_def sample_ticks_def sample_placed_def initialActor_def initial_def)
  have a: "findActor sample_placed 1 = Some (initialActor sample_walker)" by code_simp
  have travels: "as_activity (initialActor sample_walker) = TravelActivity" by code_simp
  have e: "findCatalogActor sample_actors 1 = Some sample_walker" by code_simp
  have long: "route_left sample_profile (initialActor sample_walker) sample_walker \<le> length sample_ticks" by code_simp
  show ?thesis
    by (rule travellers_arrive [OF sample_actors_created sample_packages_ok sample_profile_created sample_placed_restored watch sorted r a travels e long])
qed

end
