(* ===== verification/Spec2Isabelle.thy ===== *)
theory Spec2Isabelle
  imports Command_Intake Protocol_Frame Inventory_Properties Interactive_Objects Protocol_Handshake Player_Identity
    Movement_Kernel Deterministic_Random Resume_Traces Server_Session World_Clock World_Weather World_Factions Actor_Properties
begin

text \<open>
  TES3MP adds an authoritative multiplayer server to OpenMW. Its own code is under
  \<^verbatim>\<open>src/components/tes3mp\<close>: a protocol library shared by client and server (\<^verbatim>\<open>protocol\<close>, with its
  headers in \<^verbatim>\<open>include/tes3mp\<close>) and the server core (\<^verbatim>\<open>server_core\<close>), a deterministic state machine
  driven by a fixed tick. Clients connect, agree on a protocol version and content manifest, join
  with a password or a resume token, and then send commands; the server stamps the commands,
  applies them at a tick to its canonical state (players, inventories, interactive objects, the shared world), and
  replicates the result. The server decides everything: a command is refused unless it names the
  current revisions of what it changes and the player is close enough.

  \<^bold>\<open>Theories.\<close> Every theory models one part, in the order in which the parts use each other; its
  definitions carry the names of the source.

    \<^item> \<^verbatim>\<open>Prelude\<close>: words of the widths the code uses, sorted tables with binary search, first-error
      loops, and the locales for interfaces that several parts share (tables, command interfaces
      with revisions, step systems). Nothing in it is specific to the program.
    \<^item> \<^verbatim>\<open>Value_Types\<close>: strong identities and counters (\<^verbatim>\<open>strong_value.hpp\<close>, \<^verbatim>\<open>value_types.hpp\<close>).
    \<^item> \<^verbatim>\<open>Tick_Scheduler\<close>: the 30 Hz scheduler (\<^verbatim>\<open>fixed_tick_scheduler.cpp\<close>) with its 64-bit
      arithmetic; it emits consecutive due ticks and catches up.
    \<^item> \<^verbatim>\<open>Command_Intake\<close>: the queue between sessions and ticks (\<^verbatim>\<open>server_command_intake.cpp\<close>); it
      refines a bounded first-in first-out queue.
    \<^item> \<^verbatim>\<open>Spatial_Types\<close>: cells, positions, reach and movement limits (\<^verbatim>\<open>spatial_types.hpp\<close>,
      \<^verbatim>\<open>movement_policy.hpp\<close>); the overflow-free integer tests are exact Euclidean ones.
    \<^item> \<^verbatim>\<open>Byte_Codec\<close>, \<^verbatim>\<open>Protocol_Frame\<close>: the frame header of every message (\<^verbatim>\<open>protocol_frame.cpp\<close>);
      encoding and decoding are mutually inverse.
    \<^item> \<^verbatim>\<open>Content_Identity\<close>: the content manifest (\<^verbatim>\<open>content_identity.cpp\<close>).
    \<^item> \<^verbatim>\<open>Protocol_Handshake\<close>: negotiation of version and capabilities (\<^verbatim>\<open>protocol_handshake.cpp\<close>).
    \<^item> \<^verbatim>\<open>Authentication_Limits\<close>, \<^verbatim>\<open>Resume_Tokens\<close>: the rate limiter and the store of resume tokens
      (\<^verbatim>\<open>server_authentication.cpp\<close>). The invariant of the store holds as long as no token is presented
      whose reserved record has expired (and no expiry scan meets such a commit); one theorem shows what
      happens otherwise. \<^verbatim>\<open>Resume_Traces\<close> runs all calls in any order, that one included: a token is good for
      one use, and a preparation lasts until it is committed or cancelled.
    \<^item> \<^verbatim>\<open>Player_Identity\<close>: the registry of player identities (\<^verbatim>\<open>player_identity.cpp\<close>): creation,
      saving and character creation as two-phase operations against a persistence that may fail;
      what was last persisted restarts the server, unless the identifiers have run out.
    \<^item> \<^verbatim>\<open>Authentication_Service\<close>: the authentication operations and the service that starts them
      (\<^verbatim>\<open>server_authentication.cpp\<close>), over the limiter, the token store and the identities; nobody is
      admitted without the secret.
    \<^item> \<^verbatim>\<open>Server_Session\<close>: the state machine of one connection (\<^verbatim>\<open>server_session.cpp\<close>) over the
      handshake and the authentication service; it refines a life cycle without loops, no session
      waits forever, and an established one was authenticated.
    \<^item> \<^verbatim>\<open>Movement_Kernel\<close>, \<^verbatim>\<open>Deterministic_Random\<close>: integration of movement
      (\<^verbatim>\<open>movement_kernel.cpp\<close>) and the seeded random streams (\<^verbatim>\<open>deterministic_random.cpp\<close>).
    \<^item> \<^verbatim>\<open>World_State\<close>: the shared world (\<^verbatim>\<open>world_state.cpp\<close>): clock, global variables, quests and
      journals, factions and dialogue, weather, and the catalogs that they are checked against.
      \<^verbatim>\<open>World_Properties\<close> shows what every sequence of mutations keeps, so that a stored world is
      restored, and proves the tables of players once in a locale that quests and factions
      interpret; \<^verbatim>\<open>World_Clock\<close>, \<^verbatim>\<open>World_Weather\<close> and \<^verbatim>\<open>World_Factions\<close> hold the results on the
      calendar, the regions and the standing of players.
    \<^item> \<^verbatim>\<open>Actor_Simulation\<close>: the actors that are not players (\<^verbatim>\<open>actor_catalog.cpp\<close>,
      \<^verbatim>\<open>actor_simulation.cpp\<close>): their packages, and the advance of all of them by one tick with the
      movement kernel, over the players and over the part of the combat state that it reads.
      \<^verbatim>\<open>Actor_Geometry\<close> shows that its integer geometry is exact, and \<^verbatim>\<open>Actor_Properties\<close> that
      its worlds are restored while no wandering actor is dead or fights, for which reasons an advance fails,
      and that who travels arrives.
    \<^item> \<^verbatim>\<open>Canonical_State\<close>: players and active sessions (\<^verbatim>\<open>canonical_state.cpp\<close>).
    \<^item> \<^verbatim>\<open>Item_Catalog\<close> and the \<^verbatim>\<open>Inventory\<close> theories: item prototypes and the inventory world
      (\<^verbatim>\<open>item_catalog.cpp\<close>, \<^verbatim>\<open>inventory_world.cpp\<close>). \<^verbatim>\<open>Inventory_World\<close> holds the model,
      \<^verbatim>\<open>Inventory_Invariant\<close>, \<^verbatim>\<open>Inventory_Transactions\<close>, \<^verbatim>\<open>Inventory_Operations\<close> and
      \<^verbatim>\<open>Inventory_Starting\<close> show that each operation keeps the invariant, and
      \<^verbatim>\<open>Inventory_Properties\<close> states the result: no item is created or lost, transactions are not
      replayed, a stored world is restored. The invariant is shown for transactions applied while all
      players stand in cells of the manifest, and for a condition set to zero only where a weapon
      is taken out of the right hand with it.
    \<^item> \<^verbatim>\<open>Utf8_Text\<close>, \<^verbatim>\<open>Character_Profile\<close>: validation of player text, the content catalog and
      the creation of a character (\<^verbatim>\<open>character_profile.cpp\<close>).
    \<^item> \<^verbatim>\<open>Interactive_Objects\<close>: doors, locks and traps (\<^verbatim>\<open>interactive_object_catalog.cpp\<close>,
      \<^verbatim>\<open>interactive_object_world.cpp\<close>).

  \<^bold>\<open>Modelling.\<close> Machine integers are words of the source's width, so wrap-around is the word
  operation; sizes of containers are natural numbers. A \<^verbatim>\<open>std::optional\<close> is an option, a
  \<^verbatim>\<open>std::variant\<close> with an error is a sum with the error on the left. Reading an empty optional, or
  any other undefined step of the source, is a value of its own (\<open>None\<close>) and is shown not to
  happen, or to happen. Operations under one mutex are atomic, so that an execution is a sequence
  of operations; the clock reading and random bytes of a call are arguments of the call. Loops are
  structural recursions over the list they scan, so no fuel is used, with three exceptions: the
  scan of a text and the search for an unreserved identity have termination proofs, and drawing until a word is accepted is a
  \<open>partial_function\<close> whose result is shown to be defined exactly when some word is accepted. Code that is not part of the
  repository (cryptographic primitives) is an argument.

  \<^bold>\<open>Not modelled.\<close> Allocation failure (\<^verbatim>\<open>std::bad_alloc\<close> and the \<^verbatim>\<open>catch\<close> blocks that map it to an
  error), wiping of secrets, hashing and text rendering of identities, the FlatBuffers encodings
  (generated code and a third-party library), sockets and threads (\<^verbatim>\<open>transport\<close>), the metric and
  event objects handed to observability sinks, the SQLite storage, the OpenMW client and its
  adapters, and the upstream OpenMW engine. Of the server core, combat and magic,
  scripting, the command reducer that composes all of them, the persistence format and the
  checksum over every canonical world are not modelled.
\<close>

end
